(* ===== verification/Prelude.thy ===== *)
theory Prelude
  imports Complex_Main "HOL-Library.Word" "HOL-Library.AList" "HOL-Library.Product_Lexorder"
begin

text \<open>
  The shared ground of the development: Python exceptions as values and the
  sequencing of fallible steps, dictionaries with Python's insertion order,
  strings and the blank test, dates with an optional UTC offset, and the list
  lemmas about sorting and keyset selection that the stores share.
\<close>

section \<open>Exceptions as values\<close>

text \<open>
  Every exception the modelled code raises, with its message where the code
  gives it one. The application and domain errors of the two modules are the
  constructors that carry no message.
\<close>

datatype exn =
    ValueError string
  | TypeError string
  | RuntimeError string
  | KeyError string
  | AttributeError
  | IndexError
  | OverflowError
  | StopIteration
  | AssertionError
  | EpisodeIdempotencyConflict
  | InvalidEpisodeCursor
  | InvalidClaimCursor
  | ClaimsUnavailable
  | EpisodeAuthorizationDenied
  | EpisodeReadAuthorizationDenied
  | EpisodeNotFound
  | ClaimNotFound
  | ClaimReadAuthorizationDenied
  | ExecutionIdempotencyConflict
  | ExecutionNotFound
  | InvalidExecutionTransition
  | InvalidExecutionCursor
  | ExecutionAuthorizationDenied
  | OrchestrationUnavailable
  | AuthenticationRequiredError
  | InvalidTokenError
  | TenantAccessDeniedError
  | ConfigurationError string string
  | ReadinessError string
  | TenantMismatchError
  | InvalidCorrelationIdError
  | LimitOutOfRangeError
  | ActorIdNotAllowedError
  | ActorIdRequiredError
  | MemoryQueryScopeMismatchError
  | RequestValidationError string
  | BackendError string

type_synonym 'a res = "exn + 'a"

named_theorems res_simps \<open>how the sequencing operators compute\<close>
named_theorems store_simps \<open>how dictionaries and stores answer after an update\<close>

text \<open>\<open>bindE\<close> runs the second step only when the first one did not raise.\<close>

definition bindE :: "'a res \<Rightarrow> ('a \<Rightarrow> 'b res) \<Rightarrow> 'b res" where
  "bindE m f = (case m of Inl e \<Rightarrow> Inl e | Inr x \<Rightarrow> f x)"

definition raise_if :: "bool \<Rightarrow> exn \<Rightarrow> unit res" where
  "raise_if bad e = (if bad then Inl e else Inr ())"

fun mapE :: "('a \<Rightarrow> 'b res) \<Rightarrow> 'a list \<Rightarrow> 'b list res" where
  "mapE f [] = Inr []"
| "mapE f (x # xs) = bindE (f x) (\<lambda>y. bindE (mapE f xs) (\<lambda>ys. Inr (y # ys)))"

lemma bindE_Inl [simp, res_simps]: "bindE (Inl e) f = Inl e"
  by (simp add: bindE_def)

lemma bindE_Inr [simp, res_simps]: "bindE (Inr x) f = f x"
  by (simp add: bindE_def)

lemma bindE_eq_Inr: "bindE m f = Inr y \<longleftrightarrow> (\<exists>x. m = Inr x \<and> f x = Inr y)"
  by (cases m) auto

lemma bindE_eq_Inl: "bindE m f = Inl e \<longleftrightarrow> m = Inl e \<or> (\<exists>x. m = Inr x \<and> f x = Inl e)"
  by (cases m) auto

lemma bindE_cong [fundef_cong]:
  "m = m' \<Longrightarrow> (\<And>x. m' = Inr x \<Longrightarrow> f x = g x) \<Longrightarrow> bindE m f = bindE m' g"
  by (cases m') auto

lemma bindE_assoc: "bindE (bindE m f) g = bindE m (\<lambda>x. bindE (f x) g)"
  by (cases m) auto

lemma raise_if_eq_Inr [simp]: "raise_if bad e = Inr u \<longleftrightarrow> \<not> bad"
  by (auto simp: raise_if_def)

lemma raise_if_False [simp, res_simps]: "raise_if False e = Inr ()"
  by (simp add: raise_if_def)

lemma raise_if_True [simp, res_simps]: "raise_if True e = Inl e"
  by (simp add: raise_if_def)

lemma mapE_cong [fundef_cong]:
  "xs = ys \<Longrightarrow> (\<And>x. x \<in> set ys \<Longrightarrow> f x = g x) \<Longrightarrow> mapE f xs = mapE g ys"
  by (induction xs arbitrary: ys) auto

lemma mapE_Inr: "(\<And>x. x \<in> set xs \<Longrightarrow> f x = Inr (g x)) \<Longrightarrow> mapE f xs = Inr (map g xs)"
  by (induction xs) auto

lemma mapE_length: "mapE f xs = Inr ys \<Longrightarrow> length ys = length xs"
  by (induction xs arbitrary: ys) (auto simp: bindE_eq_Inr)

lemma mapE_map: "mapE f (map h xs) = mapE (f \<circ> h) xs"
  by (induction xs) auto

section \<open>Dictionaries\<close>

text \<open>
  A Python \<open>dict\<close> keeps its keys in insertion order and an update keeps the
  place of an existing key. \<^const>\<open>AList.update\<close> does exactly that on an
  association list, and \<^const>\<open>AList.delete\<close> is \<open>pop(key, None)\<close>.
\<close>

type_synonym ('k, 'v) dict = "('k \<times> 'v) list"

abbreviation dict_get :: "('k, 'v) dict \<Rightarrow> 'k \<Rightarrow> 'v option" where
  "dict_get d k \<equiv> map_of d k"

abbreviation dict_set :: "'k \<Rightarrow> 'v \<Rightarrow> ('k, 'v) dict \<Rightarrow> ('k, 'v) dict" where
  "dict_set k v d \<equiv> AList.update k v d"

abbreviation dict_pop :: "'k \<Rightarrow> ('k, 'v) dict \<Rightarrow> ('k, 'v) dict" where
  "dict_pop k d \<equiv> AList.delete k d"

abbreviation dict_keys :: "('k, 'v) dict \<Rightarrow> 'k list" where
  "dict_keys d \<equiv> map fst d"

abbreviation dict_values :: "('k, 'v) dict \<Rightarrow> 'v list" where
  "dict_values d \<equiv> map snd d"

definition dict_item :: "('k, 'v) dict \<Rightarrow> 'k \<Rightarrow> exn \<Rightarrow> 'v res" where
  "dict_item d k e = (case dict_get d k of None \<Rightarrow> Inl e | Some v \<Rightarrow> Inr v)"

lemma dict_get_set [simp, store_simps]:
  "dict_get (dict_set k v d) k' = (if k' = k then Some v else dict_get d k')"
  by (simp add: AList.update_conv')

lemma dict_get_pop [simp, store_simps]:
  "dict_get (dict_pop k d) k' = (if k' = k then None else dict_get d k')"
  by (simp add: AList.delete_conv')

lemma distinct_keys_set [simp, intro]:
  "distinct (dict_keys d) \<Longrightarrow> distinct (dict_keys (dict_set k v d))"
  by (rule AList.distinct_update)

lemma distinct_keys_pop [simp, intro]:
  "distinct (dict_keys d) \<Longrightarrow> distinct (dict_keys (dict_pop k d))"
  by (rule AList.distinct_delete)

lemma dict_item_Inr [simp]: "dict_item d k e = Inr v \<longleftrightarrow> dict_get d k = Some v"
  by (auto simp: dict_item_def split: option.splits)

lemma dict_get_iff_mem:
  "distinct (dict_keys d) \<Longrightarrow> dict_get d k = Some v \<longleftrightarrow> (k, v) \<in> set d"
  by (auto dest: map_of_SomeD)

lemma dict_get_None_iff: "dict_get d k = None \<longleftrightarrow> k \<notin> set (dict_keys d)"
  by (simp add: map_of_eq_None_iff)

lemma dict_set_new: "dict_get d k = None \<Longrightarrow> dict_set k v d = d @ [(k, v)]"
  by (induction d) (auto split: if_splits)

section \<open>Strings\<close>

text \<open>
  Text is a list of code points below 256. \<open>str.strip\<close> removes what
  \<open>str.isspace\<close> accepts there: the ASCII white space and separators, NEL and
  the no-break space.
\<close>

definition is_space :: "char \<Rightarrow> bool" where
  "is_space c = (let n = of_char c :: nat in
     (9 \<le> n \<and> n \<le> 13) \<or> (28 \<le> n \<and> n \<le> 32) \<or> n = 133 \<or> n = 160)"

definition strip :: "string \<Rightarrow> string" where
  "strip s = rev (dropWhile is_space (rev (dropWhile is_space s)))"

definition blank :: "string \<Rightarrow> bool" where
  "blank s \<longleftrightarrow> strip s = []"

lemma blank_iff: "blank s \<longleftrightarrow> (\<forall>c \<in> set s. is_space c)"
proof (cases "dropWhile is_space s")
  case Nil
  then have "\<forall>c \<in> set s. is_space c" by (simp add: dropWhile_eq_Nil_conv)
  then show ?thesis unfolding blank_def strip_def Nil by simp
next
  case (Cons c cs)
  then have c: "\<not> is_space c" using hd_dropWhile [of is_space s] by simp
  have "c \<in> set (dropWhile is_space s)" using Cons by simp
  then have "c \<in> set s" by (rule set_dropWhileD)
  with c have "\<not> (\<forall>c \<in> set s. is_space c)" by blast
  moreover have "\<not> blank s"
    using Cons c by (simp add: blank_def strip_def dropWhile_eq_Nil_conv)
  ultimately show ?thesis by simp
qed

lemma blank_Nil [simp]: "blank []"
  by (simp add: blank_iff)

definition digit_char :: "nat \<Rightarrow> char" where
  "digit_char d = char_of (48 + d)"

fun show_nat :: "nat \<Rightarrow> string" where
  "show_nat n = (if n < 10 then [digit_char n] else show_nat (n div 10) @ [digit_char (n mod 10)])"

declare show_nat.simps [simp del]

section \<open>Dates\<close>

text \<open>
  A \<open>datetime\<close> is its wall-clock time, counted in microseconds from
  0001-01-01T00:00:00, and its UTC offset in microseconds; a naive value has
  none. Two aware values are equal when they are the same instant, whatever
  their offsets, and comparing a naive with an aware value raises.
\<close>

datatype datetime = DateTime (wall: int) (utcoffset: "int option")

definition aware :: "datetime \<Rightarrow> bool" where
  "aware d \<longleftrightarrow> utcoffset d \<noteq> None"

definition instant :: "datetime \<Rightarrow> int" where
  "instant d = (case utcoffset d of None \<Rightarrow> wall d | Some off \<Rightarrow> wall d - off)"

definition dt_eq :: "datetime \<Rightarrow> datetime \<Rightarrow> bool" where
  "dt_eq a b \<longleftrightarrow> aware a = aware b \<and> instant a = instant b"

definition dt_le :: "datetime \<Rightarrow> datetime \<Rightarrow> bool res" where
  "dt_le a b = (if aware a = aware b then Inr (instant a \<le> instant b)
     else Inl (TypeError ''can't compare offset-naive and offset-aware datetimes''))"

definition max_wall :: int where
  "max_wall = 3652059 * 86400 * 1000000"

definition in_range :: "int \<Rightarrow> bool" where
  "in_range w \<longleftrightarrow> 0 \<le> w \<and> w < max_wall"

definition astimezone_utc :: "datetime \<Rightarrow> datetime res" where
  "astimezone_utc d = (if in_range (instant d) then Inr (DateTime (instant d) (Some 0))
     else Inl OverflowError)"

lemma dt_eq_refl [simp]: "dt_eq d d"
  by (simp add: dt_eq_def)

lemma dt_eq_sym: "dt_eq a b \<Longrightarrow> dt_eq b a"
  by (simp add: dt_eq_def)

lemma dt_eq_trans: "dt_eq a b \<Longrightarrow> dt_eq b c \<Longrightarrow> dt_eq a c"
  by (simp add: dt_eq_def)

lemma dt_eq_instant: "dt_eq a b \<Longrightarrow> instant a = instant b"
  by (simp add: dt_eq_def)

lemma astimezone_utc_instant: "astimezone_utc d = Inr u \<Longrightarrow> instant u = instant d \<and> aware u"
  by (auto simp: astimezone_utc_def instant_def aware_def split: if_splits)

text \<open>The guard that the modules repeat before they keep a date.\<close>

definition require_aware :: "datetime \<Rightarrow> string \<Rightarrow> unit res" where
  "require_aware d name = raise_if (\<not> aware d) (ValueError (name @ '' must be timezone-aware''))"

definition require_optional_aware :: "datetime option \<Rightarrow> string \<Rightarrow> unit res" where
  "require_optional_aware d name =
     (case d of None \<Rightarrow> Inr () | Some v \<Rightarrow> require_aware v name)"

definition require_non_blank :: "string \<Rightarrow> string \<Rightarrow> unit res" where
  "require_non_blank s name = raise_if (blank s) (ValueError (name @ '' must not be blank''))"

lemma require_aware_Inr [simp]: "require_aware d name = Inr u \<longleftrightarrow> aware d"
  by (simp add: require_aware_def)

lemma require_optional_aware_Inr [simp]:
  "require_optional_aware d name = Inr u \<longleftrightarrow> (\<forall>v. d = Some v \<longrightarrow> aware v)"
  by (auto simp: require_optional_aware_def split: option.splits)

lemma require_non_blank_Inr [simp]: "require_non_blank s name = Inr u \<longleftrightarrow> \<not> blank s"
  by (simp add: require_non_blank_def)

definition canonical_utc :: "datetime \<Rightarrow> string \<Rightarrow> datetime res" where
  "canonical_utc d name = (if \<not> aware d then Inl (ValueError (name @ '' must be timezone-aware''))
     else astimezone_utc d)"

lemma canonical_utc_Inr:
  "canonical_utc d name = Inr u \<longleftrightarrow>
     aware d \<and> in_range (instant d) \<and> u = DateTime (instant d) (Some 0)"
  by (auto simp: canonical_utc_def astimezone_utc_def)

lemma canonical_utc_aware: "canonical_utc d name = Inr u \<Longrightarrow> aware u \<and> instant u = instant d"
  by (auto simp: canonical_utc_Inr aware_def instant_def)

end
