(* ===== verification/Kernel.thy ===== *)
theory Kernel
  imports Prelude
begin

text \<open>
  The shared kernel (\<open>shared/kernel\<close>): typed UUID identifiers, the values a
  payload can hold with the freezing of \<open>_freeze_json_value\<close>, and the event
  envelope with the checks of its constructor.
\<close>

section \<open>Identifiers\<close>

text \<open>A UUID is its 128-bit integer, and UUIDs are ordered by it.\<close>

datatype uuid = UUID (uuid_int: "128 word")

instantiation uuid :: linorder
begin

definition less_eq_uuid :: "uuid \<Rightarrow> uuid \<Rightarrow> bool" where
  "less_eq_uuid a b \<longleftrightarrow> uuid_int a \<le> uuid_int b"

definition less_uuid :: "uuid \<Rightarrow> uuid \<Rightarrow> bool" where
  "less_uuid a b \<longleftrightarrow> uuid_int a < uuid_int b"

instance
  by standard (auto simp: less_eq_uuid_def less_uuid_def intro: uuid.expand)

end

text \<open>
  The subclasses of \<open>UUIDValue\<close> are distinct types: values of two of them are
  never equal in the source, and never confused here.
\<close>

datatype tenant_id = TenantId (tenant_uuid: uuid)
datatype subject_id = SubjectId (subject_uuid: uuid)
datatype agent_definition_id = AgentDefinitionId (agent_definition_uuid: uuid)
datatype agent_instance_id = AgentInstanceId (agent_instance_uuid: uuid)
datatype execution_id = ExecutionId (execution_uuid: uuid)
datatype node_id = NodeId (node_uuid: uuid)
datatype attempt_id = AttemptId (attempt_uuid: uuid)
datatype effect_id = EffectId (effect_uuid: uuid)
datatype event_id = EventId (event_uuid: uuid)
datatype correlation_id = CorrelationId (correlation_uuid: uuid)
datatype artifact_id = ArtifactId (artifact_uuid: uuid)
datatype memory_id = MemoryId (memory_uuid: uuid)

text \<open>
  The aggregate of an event is declared as the base class: it holds a memory or
  an execution identifier when the application builds the event, and a plain
  \<open>UUIDValue\<close> when the event was read back from a row.
\<close>

datatype uuid_value = UUIDValue uuid | OfMemory memory_id | OfExecution execution_id

fun uuid_value_uuid :: "uuid_value \<Rightarrow> uuid" where
  "uuid_value_uuid (UUIDValue u) = u"
| "uuid_value_uuid (OfMemory m) = memory_uuid m"
| "uuid_value_uuid (OfExecution e) = execution_uuid e"

section \<open>Payload values\<close>

text \<open>
  The Python values that reach \<open>_freeze_json_value\<close>. A mapping is a \<open>dict\<close> or
  a read-only \<open>MappingProxyType\<close> of one, a sequence a \<open>list\<close> or a \<open>tuple\<close>;
  \<open>VOther\<close> stands for a value of any other type and carries the type's name.
\<close>

datatype pyfloat = Finite rat | PosInf | NegInf | NaN

fun isfinite :: "pyfloat \<Rightarrow> bool" where
  "isfinite (Finite q) = True"
| "isfinite _ = False"

datatype pyval =
    VNone
  | VBool bool
  | VInt int
  | VFloat pyfloat
  | VStr string
  | VList "pyval list"
  | VTuple "pyval list"
  | VDict "(pyval \<times> pyval) list"
  | VProxy "(pyval \<times> pyval) list"
  | VOther string

fun is_mapping :: "pyval \<Rightarrow> bool" where
  "is_mapping (VDict kvs) = True"
| "is_mapping (VProxy kvs) = True"
| "is_mapping _ = False"

fun mapping_items :: "pyval \<Rightarrow> (pyval \<times> pyval) list" where
  "mapping_items (VDict kvs) = kvs"
| "mapping_items (VProxy kvs) = kvs"
| "mapping_items _ = []"

definition vget :: "pyval \<Rightarrow> string \<Rightarrow> pyval option" where
  "vget v key = map_of (mapping_items v) (VStr key)"

definition vitem :: "pyval \<Rightarrow> string \<Rightarrow> pyval res" where
  "vitem v key = (case vget v key of None \<Rightarrow> Inl (KeyError key) | Some x \<Rightarrow> Inr x)"

text \<open>
  \<open>obj\<close> builds a \<open>dict\<close> display with string keys, \<open>opt_val\<close> the
  \<open>None if x is None else f(x)\<close> of the serialisers.
\<close>

definition obj :: "(string \<times> pyval) list \<Rightarrow> pyval" where
  "obj fs = VDict (map (\<lambda>(k, v). (VStr k, v)) fs)"

definition opt_val :: "('a \<Rightarrow> pyval) \<Rightarrow> 'a option \<Rightarrow> pyval" where
  "opt_val f x = (case x of None \<Rightarrow> VNone | Some y \<Rightarrow> f y)"

lemma map_of_VStr: "map_of (map (\<lambda>(k, v). (VStr k, v)) fs) (VStr key) = map_of fs key"
  by (induction fs) auto

lemma vget_obj [simp]: "vget (obj fs) key = map_of fs key"
  by (simp add: vget_def obj_def map_of_VStr)

lemma vitem_obj [simp]:
  "vitem (obj fs) key = (case map_of fs key of None \<Rightarrow> Inl (KeyError key) | Some x \<Rightarrow> Inr x)"
  by (simp add: vitem_def)

lemma is_mapping_obj [simp]: "is_mapping (obj fs)"
  by (simp add: obj_def)

section \<open>Freezing\<close>

fun freeze_json_value :: "pyval \<Rightarrow> string \<Rightarrow> pyval res"
  and freeze_items :: "(pyval \<times> pyval) list \<Rightarrow> string \<Rightarrow> (pyval \<times> pyval) list res"
  and freeze_elems :: "pyval list \<Rightarrow> nat \<Rightarrow> string \<Rightarrow> pyval list res" where
  "freeze_json_value (VDict kvs) path = bindE (freeze_items kvs path) (\<lambda>r. Inr (VProxy r))"
| "freeze_json_value (VProxy kvs) path = bindE (freeze_items kvs path) (\<lambda>r. Inr (VProxy r))"
| "freeze_json_value (VList vs) path = bindE (freeze_elems vs 0 path) (\<lambda>r. Inr (VTuple r))"
| "freeze_json_value (VTuple vs) path = bindE (freeze_elems vs 0 path) (\<lambda>r. Inr (VTuple r))"
| "freeze_json_value (VFloat f) path =
     (if \<not> isfinite f then Inl (ValueError (path @ '' must contain only finite numbers''))
      else Inr (VFloat f))"
| "freeze_json_value VNone path = Inr VNone"
| "freeze_json_value (VStr s) path = Inr (VStr s)"
| "freeze_json_value (VInt n) path = Inr (VInt n)"
| "freeze_json_value (VBool b) path = Inr (VBool b)"
| "freeze_json_value (VOther ty) path =
     Inl (TypeError (path @ '' contains unsupported value type '' @ ty))"
| "freeze_items [] path = Inr []"
| "freeze_items ((VStr key, v) # r) path =
     bindE (freeze_json_value v (path @ ''.'' @ key)) (\<lambda>v'.
       bindE (freeze_items r path) (\<lambda>r'. Inr ((VStr key, v') # r')))"
| "freeze_items ((k, v) # r) path = Inl (TypeError (path @ '' keys must be strings''))"
| "freeze_elems [] i path = Inr []"
| "freeze_elems (v # vs) i path =
     bindE (freeze_json_value v (path @ ''['' @ show_nat i @ '']'')) (\<lambda>v'.
       bindE (freeze_elems vs (Suc i) path) (\<lambda>vs'. Inr (v' # vs')))"

text \<open>
  What freezing promises: \<open>frozen\<close> is the shape of a deeply read-only value, and
  \<open>to_json_value\<close> reads the JSON content that freezing must not change.
\<close>

fun is_str :: "pyval \<Rightarrow> bool" where
  "is_str (VStr s) = True"
| "is_str _ = False"

fun frozen :: "pyval \<Rightarrow> bool" where
  "frozen (VProxy kvs) = (\<forall>kv \<in> set kvs. is_str (fst kv) \<and> frozen (snd kv))"
| "frozen (VTuple vs) = (\<forall>v \<in> set vs. frozen v)"
| "frozen (VFloat f) = isfinite f"
| "frozen VNone = True"
| "frozen (VStr s) = True"
| "frozen (VInt n) = True"
| "frozen (VBool b) = True"
| "frozen _ = False"

fun to_json_value :: "pyval \<Rightarrow> pyval" where
  "to_json_value (VDict kvs) = VDict (map (\<lambda>kv. (fst kv, to_json_value (snd kv))) kvs)"
| "to_json_value (VProxy kvs) = VDict (map (\<lambda>kv. (fst kv, to_json_value (snd kv))) kvs)"
| "to_json_value (VList vs) = VList (map to_json_value vs)"
| "to_json_value (VTuple vs) = VList (map to_json_value vs)"
| "to_json_value v = v"

lemma is_str_iff: "is_str k \<longleftrightarrow> (\<exists>s. k = VStr s)"
  by (cases k) auto

lemma freeze_frozen:
  "freeze_json_value v path = Inr w \<Longrightarrow> frozen w"
  "freeze_items kvs path = Inr kvs' \<Longrightarrow> \<forall>kv \<in> set kvs'. is_str (fst kv) \<and> frozen (snd kv)"
  "freeze_elems vs i path = Inr vs' \<Longrightarrow> \<forall>v \<in> set vs'. frozen v"
  by (induction v path and kvs path and vs i path arbitrary: w and kvs' and vs'
        rule: freeze_json_value_freeze_items_freeze_elems.induct)
     (fastforce simp: bindE_eq_Inr split: if_splits)+

lemma freeze_content:
  "freeze_json_value v path = Inr w \<Longrightarrow> to_json_value w = to_json_value v"
  "freeze_items kvs path = Inr kvs' \<Longrightarrow>
     map (\<lambda>kv. (fst kv, to_json_value (snd kv))) kvs' = map (\<lambda>kv. (fst kv, to_json_value (snd kv))) kvs"
  "freeze_elems vs i path = Inr vs' \<Longrightarrow> map to_json_value vs' = map to_json_value vs"
  by (induction v path and kvs path and vs i path arbitrary: w and kvs' and vs'
        rule: freeze_json_value_freeze_items_freeze_elems.induct)
     (fastforce simp: bindE_eq_Inr split: if_splits)+

lemma freeze_id:
  "frozen v \<Longrightarrow> freeze_json_value v path = Inr v"
  "(\<forall>kv \<in> set kvs. is_str (fst kv) \<and> frozen (snd kv)) \<Longrightarrow> freeze_items kvs path = Inr kvs"
  "(\<forall>v \<in> set vs. frozen v) \<Longrightarrow> freeze_elems vs i path = Inr vs"
  by (induction v path and kvs path and vs i path
        rule: freeze_json_value_freeze_items_freeze_elems.induct)
     auto

text \<open>A frozen value survives the trip through plain JSON containers.\<close>

lemma freeze_items_json:
  "(\<forall>kv \<in> set kvs. is_str (fst kv) \<and> (\<forall>path. freeze_json_value (to_json_value (snd kv)) path = Inr (snd kv))) \<Longrightarrow>
     freeze_items (map (\<lambda>kv. (fst kv, to_json_value (snd kv))) kvs) path = Inr kvs"
proof (induction kvs)
  case (Cons kv kvs)
  then have "is_str (fst kv)" by simp
  then obtain s where "fst kv = VStr s" by (auto simp: is_str_iff)
  with Cons show ?case by (cases kv) simp
qed simp

lemma freeze_elems_json:
  "(\<forall>v \<in> set vs. \<forall>path. freeze_json_value (to_json_value v) path = Inr v) \<Longrightarrow>
     freeze_elems (map to_json_value vs) i path = Inr vs"
  by (induction vs arbitrary: i) auto

lemma freeze_to_json: "frozen v \<Longrightarrow> freeze_json_value (to_json_value v) path = Inr v"
proof (induction v arbitrary: path)
  case (VTuple vs)
  then have "\<forall>v \<in> set vs. \<forall>path. freeze_json_value (to_json_value v) path = Inr v" by simp
  then show ?case by (simp add: freeze_elems_json)
next
  case (VProxy kvs)
  have "\<forall>kv \<in> set kvs. is_str (fst kv) \<and> (\<forall>path. freeze_json_value (to_json_value (snd kv)) path = Inr (snd kv))"
  proof
    fix kv assume kv: "kv \<in> set kvs"
    then have "is_str (fst kv)" "frozen (snd kv)" using VProxy.prems by auto
    with VProxy.IH [OF kv, of "snd kv"] show "is_str (fst kv) \<and>
        (\<forall>path. freeze_json_value (to_json_value (snd kv)) path = Inr (snd kv))" by (cases kv) auto
  qed
  then show ?case by (simp add: freeze_items_json)
qed auto

lemma freeze_is_mapping: "freeze_json_value v path = Inr w \<Longrightarrow> is_mapping w = is_mapping v"
  by (cases v) (auto simp: bindE_eq_Inr split: if_splits)

section \<open>Event envelope\<close>

record event_envelope =
  ev_event_id :: event_id
  ev_event_type :: string
  ev_schema_version :: int
  ev_tenant_id :: tenant_id
  ev_aggregate_id :: uuid_value
  ev_aggregate_version :: int
  ev_correlation_id :: correlation_id
  ev_causation_id :: "event_id option"
  ev_occurred_at :: datetime
  ev_payload :: pyval

text \<open>The constructor: the raw fields in, the checked envelope with its frozen payload out.\<close>

definition mk_event :: "event_envelope \<Rightarrow> event_envelope res" where
  "mk_event e =
     bindE (raise_if (blank (ev_event_type e)) (ValueError ''event_type must not be blank'')) (\<lambda>_.
     bindE (raise_if (ev_schema_version e \<le> 0) (ValueError ''schema_version must be positive'')) (\<lambda>_.
     bindE (raise_if (ev_aggregate_version e \<le> 0) (ValueError ''aggregate_version must be positive'')) (\<lambda>_.
     bindE (raise_if (\<not> aware (ev_occurred_at e)) (ValueError ''occurred_at must be timezone-aware'')) (\<lambda>_.
     bindE (freeze_json_value (ev_payload e) ''payload'') (\<lambda>payload.
     bindE (raise_if (\<not> is_mapping payload) (TypeError ''payload must be a mapping'')) (\<lambda>_.
       Inr (e\<lparr>ev_payload := payload\<rparr>)))))))"

definition event_ok :: "event_envelope \<Rightarrow> bool" where
  "event_ok e \<longleftrightarrow> \<not> blank (ev_event_type e) \<and> 0 < ev_schema_version e \<and> 0 < ev_aggregate_version e
     \<and> aware (ev_occurred_at e) \<and> is_mapping (ev_payload e) \<and> frozen (ev_payload e)"

lemma mk_event_eq_Inr:
  "mk_event e = Inr e' \<longleftrightarrow> \<not> blank (ev_event_type e) \<and> 0 < ev_schema_version e
     \<and> 0 < ev_aggregate_version e \<and> aware (ev_occurred_at e)
     \<and> (\<exists>p. freeze_json_value (ev_payload e) ''payload'' = Inr p \<and> is_mapping p
          \<and> e' = e\<lparr>ev_payload := p\<rparr>)"
  by (auto simp: mk_event_def bindE_eq_Inr not_le)

lemma mk_event_ok: "mk_event e = Inr e' \<Longrightarrow> event_ok e'"
  by (auto simp: mk_event_eq_Inr event_ok_def dest: freeze_frozen)

lemma mk_event_id: "event_ok e \<Longrightarrow> mk_event e = Inr e"
  by (simp add: mk_event_eq_Inr event_ok_def freeze_id)

section \<open>Properties\<close>

text \<open>
  C35. A payload that is accepted is deeply read-only and has the JSON content of the
  value that was given; freezing it again, or freezing its plain JSON form, gives the
  same value, so a payload read back from storage is the one that was stored.
\<close>

theorem freezing_keeps_content:
  assumes "freeze_json_value v path = Inr w"
  shows "frozen w \<and> to_json_value w = to_json_value v
    \<and> freeze_json_value w path' = Inr w \<and> freeze_json_value (to_json_value w) path' = Inr w"
  using freeze_frozen(1) [OF assms] freeze_content(1) [OF assms] freeze_id(1) freeze_to_json by blast

theorem freezing_keeps_content_witness:
  "\<exists>w. freeze_json_value (obj [(''a'', VList [VInt 1, VNone]), (''b'', obj [])]) ''payload'' = Inr w
    \<and> frozen w \<and> freeze_json_value (to_json_value w) ''p'' = Inr w"
proof -
  let ?v = "obj [(''a'', VList [VInt 1, VNone]), (''b'', obj [])]"
  obtain w where w: "freeze_json_value ?v ''payload'' = Inr w" by (simp add: obj_def)
  with freezing_keeps_content [OF w, of "''p''"] show ?thesis by blast
qed

end
