(* ===== verification/Memory_Model.thy ===== *)
theory Memory_Model
  imports Kernel
begin

text \<open>
  The cognitive-memory domain (\<open>memory/domain/model.py\<close>), the DTOs of its ports
  (\<open>memory/ports.py\<close>) and its application contracts
  (\<open>memory/application/contracts.py\<close>). Each dataclass is a record; its constructor
  is \<open>mk_\<dots>\<close>, which takes the raw fields and returns the checked value or the
  exception of \<open>__post_init__\<close>.
\<close>

section \<open>Guards\<close>

definition require_half_open_interval ::
    "datetime \<Rightarrow> datetime option \<Rightarrow> string \<Rightarrow> string \<Rightarrow> unit res" where
  "require_half_open_interval start end' start_name end_name =
     bindE (require_aware start start_name) (\<lambda>_.
     bindE (require_optional_aware end' end_name) (\<lambda>_.
       case end' of None \<Rightarrow> Inr ()
       | Some e \<Rightarrow> bindE (dt_le e start) (\<lambda>early.
           raise_if early (ValueError (end_name @ '' must be later than '' @ start_name)))))"

lemma require_half_open_interval_Inr [simp]:
  "require_half_open_interval start end' sn en = Inr u \<longleftrightarrow>
     aware start \<and> (\<forall>e. end' = Some e \<longrightarrow> aware e \<and> instant start < instant e)"
  by (auto simp: require_half_open_interval_def bindE_eq_Inr dt_le_def raise_if_def
      split: option.splits if_splits)

text \<open>\<open>_freeze_schema_value\<close>: as the kernel's freezing, without the test for finite numbers.\<close>

fun freeze_schema_value :: "pyval \<Rightarrow> string \<Rightarrow> pyval res"
  and freeze_schema_items :: "(pyval \<times> pyval) list \<Rightarrow> string \<Rightarrow> (pyval \<times> pyval) list res"
  and freeze_schema_elems :: "pyval list \<Rightarrow> nat \<Rightarrow> string \<Rightarrow> pyval list res" where
  "freeze_schema_value (VDict kvs) path = bindE (freeze_schema_items kvs path) (\<lambda>r. Inr (VProxy r))"
| "freeze_schema_value (VProxy kvs) path = bindE (freeze_schema_items kvs path) (\<lambda>r. Inr (VProxy r))"
| "freeze_schema_value (VList vs) path = bindE (freeze_schema_elems vs 0 path) (\<lambda>r. Inr (VTuple r))"
| "freeze_schema_value (VTuple vs) path = bindE (freeze_schema_elems vs 0 path) (\<lambda>r. Inr (VTuple r))"
| "freeze_schema_value (VOther ty) path =
     Inl (TypeError (path @ '' contains unsupported value type '' @ ty))"
| "freeze_schema_value v path = Inr v"
| "freeze_schema_items [] path = Inr []"
| "freeze_schema_items ((VStr key, v) # r) path =
     bindE (freeze_schema_value v (path @ ''.'' @ key)) (\<lambda>v'.
       bindE (freeze_schema_items r path) (\<lambda>r'. Inr ((VStr key, v') # r')))"
| "freeze_schema_items ((k, v) # r) path = Inl (TypeError (path @ '' keys must be strings''))"
| "freeze_schema_elems [] i path = Inr []"
| "freeze_schema_elems (v # vs) i path =
     bindE (freeze_schema_value v (path @ ''['' @ show_nat i @ '']'')) (\<lambda>v'.
       bindE (freeze_schema_elems vs (Suc i) path) (\<lambda>vs'. Inr (v' # vs')))"

text \<open>Where the kernel's freezing succeeds, the schema's gives the same value.\<close>

lemma freeze_schema_extends:
  "freeze_json_value v path = Inr w \<Longrightarrow> freeze_schema_value v path = Inr w"
  "freeze_items kvs path = Inr kvs' \<Longrightarrow> freeze_schema_items kvs path = Inr kvs'"
  "freeze_elems vs i path = Inr vs' \<Longrightarrow> freeze_schema_elems vs i path = Inr vs'"
  by (induction v path and kvs path and vs i path arbitrary: w and kvs' and vs'
        rule: freeze_json_value_freeze_items_freeze_elems.induct)
     (fastforce simp: bindE_eq_Inr split: if_splits)+

section \<open>Scope\<close>

record memory_scope =
  ms_tenant_id :: tenant_id
  ms_subject_id :: subject_id
  ms_workspace_id :: "string option"
  ms_agent_id :: "agent_instance_id option"

definition mk_memory_scope :: "memory_scope \<Rightarrow> memory_scope res" where
  "mk_memory_scope s = (case ms_workspace_id s of
       None \<Rightarrow> Inr s
     | Some w \<Rightarrow> bindE (require_non_blank w ''workspace_id'') (\<lambda>_. Inr s))"

lemma mk_memory_scope_Inr:
  "mk_memory_scope s = Inr s' \<longleftrightarrow> s' = s \<and> (\<forall>w. ms_workspace_id s = Some w \<longrightarrow> \<not> blank w)"
  by (auto simp: mk_memory_scope_def bindE_eq_Inr split: option.splits)

section \<open>Enumerations\<close>

datatype source_type = USER | AGENT | TOOL | FILE | SYSTEM
datatype sensitivity = PUBLIC | INTERNAL | CONFIDENTIAL | RESTRICTED
datatype retention_class = EPHEMERAL | STANDARD | EXTENDED | LEGAL_HOLD
datatype epistemic_kind = OBSERVED | EXTRACTED | INFERRED | HUMAN_CONFIRMED
datatype claim_status = PROPOSED | ACCEPTED | DISPUTED | RETRACTED | SUPERSEDED
datatype temporal_status = CURRENT | HISTORICAL | TRANSITION
datatype approval_status = CANDIDATE | EVALUATED | APPROVED | REJECTED

fun source_type_value :: "source_type \<Rightarrow> string" where
  "source_type_value USER = ''user''"
| "source_type_value AGENT = ''agent''"
| "source_type_value TOOL = ''tool''"
| "source_type_value FILE = ''file''"
| "source_type_value SYSTEM = ''system''"

fun sensitivity_value :: "sensitivity \<Rightarrow> string" where
  "sensitivity_value PUBLIC = ''public''"
| "sensitivity_value INTERNAL = ''internal''"
| "sensitivity_value CONFIDENTIAL = ''confidential''"
| "sensitivity_value RESTRICTED = ''restricted''"

fun retention_class_value :: "retention_class \<Rightarrow> string" where
  "retention_class_value EPHEMERAL = ''ephemeral''"
| "retention_class_value STANDARD = ''standard''"
| "retention_class_value EXTENDED = ''extended''"
| "retention_class_value LEGAL_HOLD = ''legal_hold''"

fun epistemic_kind_value :: "epistemic_kind \<Rightarrow> string" where
  "epistemic_kind_value OBSERVED = ''observed''"
| "epistemic_kind_value EXTRACTED = ''extracted''"
| "epistemic_kind_value INFERRED = ''inferred''"
| "epistemic_kind_value HUMAN_CONFIRMED = ''human_confirmed''"

fun claim_status_value :: "claim_status \<Rightarrow> string" where
  "claim_status_value PROPOSED = ''proposed''"
| "claim_status_value ACCEPTED = ''accepted''"
| "claim_status_value DISPUTED = ''disputed''"
| "claim_status_value RETRACTED = ''retracted''"
| "claim_status_value SUPERSEDED = ''superseded''"

text \<open>\<open>StrEnum(text)\<close>: the member with this value, or \<open>ValueError\<close>.\<close>

definition enum_of_value :: "('e \<Rightarrow> string) \<Rightarrow> 'e list \<Rightarrow> string \<Rightarrow> 'e res" where
  "enum_of_value val members s =
     (case find (\<lambda>e. val e = s) members of None \<Rightarrow> Inl (ValueError (s @ '' is not a valid member'')) | Some e \<Rightarrow> Inr e)"

definition source_type_of_value :: "string \<Rightarrow> source_type res" where
  "source_type_of_value = enum_of_value source_type_value [USER, AGENT, TOOL, FILE, SYSTEM]"

definition sensitivity_of_value :: "string \<Rightarrow> sensitivity res" where
  "sensitivity_of_value = enum_of_value sensitivity_value [PUBLIC, INTERNAL, CONFIDENTIAL, RESTRICTED]"

definition retention_class_of_value :: "string \<Rightarrow> retention_class res" where
  "retention_class_of_value = enum_of_value retention_class_value [EPHEMERAL, STANDARD, EXTENDED, LEGAL_HOLD]"

definition epistemic_kind_of_value :: "string \<Rightarrow> epistemic_kind res" where
  "epistemic_kind_of_value = enum_of_value epistemic_kind_value [OBSERVED, EXTRACTED, INFERRED, HUMAN_CONFIRMED]"

definition claim_status_of_value :: "string \<Rightarrow> claim_status res" where
  "claim_status_of_value = enum_of_value claim_status_value [PROPOSED, ACCEPTED, DISPUTED, RETRACTED, SUPERSEDED]"

lemma enum_roundtrip [simp]:
  "source_type_of_value (source_type_value a) = Inr a"
  "sensitivity_of_value (sensitivity_value b) = Inr b"
  "retention_class_of_value (retention_class_value c) = Inr c"
  "epistemic_kind_of_value (epistemic_kind_value d) = Inr d"
  "claim_status_of_value (claim_status_value e) = Inr e"
proof -
  note d = source_type_of_value_def sensitivity_of_value_def retention_class_of_value_def
    epistemic_kind_of_value_def claim_status_of_value_def enum_of_value_def
  show "source_type_of_value (source_type_value a) = Inr a" by (cases a) (simp_all add: d)
  show "sensitivity_of_value (sensitivity_value b) = Inr b" by (cases b) (simp_all add: d)
  show "retention_class_of_value (retention_class_value c) = Inr c" by (cases c) (simp_all add: d)
  show "epistemic_kind_of_value (epistemic_kind_value d) = Inr d" by (cases d) (simp_all add: d)
  show "claim_status_of_value (claim_status_value e) = Inr e" by (cases e) (simp_all add: d)
qed

section \<open>Episodes and claims\<close>

record episode =
  ep_id :: memory_id
  ep_scope :: memory_scope
  ep_actor_id :: subject_id
  ep_source_type :: source_type
  ep_content_ref :: artifact_id
  ep_observed_at :: datetime
  ep_ingested_at :: datetime
  ep_content_hash :: string
  ep_idempotency_key :: string
  ep_sensitivity :: sensitivity
  ep_retention_class :: retention_class
  ep_consent_basis :: string

definition mk_episode :: "episode \<Rightarrow> episode res" where
  "mk_episode e =
     bindE (require_aware (ep_observed_at e) ''observed_at'') (\<lambda>_.
     bindE (require_aware (ep_ingested_at e) ''ingested_at'') (\<lambda>_.
     bindE (require_non_blank (ep_content_hash e) ''content_hash'') (\<lambda>_.
     bindE (require_non_blank (ep_idempotency_key e) ''idempotency_key'') (\<lambda>_.
     bindE (require_non_blank (ep_consent_basis e) ''consent_basis'') (\<lambda>_. Inr e)))))"

definition episode_ok :: "episode \<Rightarrow> bool" where
  "episode_ok e \<longleftrightarrow> aware (ep_observed_at e) \<and> aware (ep_ingested_at e) \<and> \<not> blank (ep_content_hash e)
     \<and> \<not> blank (ep_idempotency_key e) \<and> \<not> blank (ep_consent_basis e)"

lemma mk_episode_Inr: "mk_episode e = Inr e' \<longleftrightarrow> e' = e \<and> episode_ok e"
  by (auto simp: mk_episode_def episode_ok_def bindE_eq_Inr)

record evidence_ref =
  er_episode_id :: memory_id
  er_source_span :: string
  er_extractor_version :: string
  er_model_ref :: "string option"
  er_prompt_version :: "string option"

definition mk_evidence_ref :: "evidence_ref \<Rightarrow> evidence_ref res" where
  "mk_evidence_ref r =
     bindE (raise_if (blank (er_source_span r)) (ValueError ''source_span must not be blank'')) (\<lambda>_.
     bindE (raise_if (blank (er_extractor_version r)) (ValueError ''extractor_version must not be blank'')) (\<lambda>_.
       Inr r))"

record claim =
  cl_id :: memory_id
  cl_scope :: memory_scope
  cl_subject :: string
  cl_predicate :: string
  cl_object_value :: string
  cl_polarity :: bool
  cl_epistemic_kind :: epistemic_kind
  cl_confidence :: pyfloat
  cl_valid_from :: datetime
  cl_valid_to :: "datetime option"
  cl_recorded_from :: datetime
  cl_recorded_to :: "datetime option"
  cl_status :: claim_status
  cl_evidence :: "evidence_ref list"

text \<open>\<open>0.0 <= x <= 1.0\<close>; every comparison with a NaN is false.\<close>

fun unit_interval :: "pyfloat \<Rightarrow> bool" where
  "unit_interval (Finite q) = (0 \<le> q \<and> q \<le> 1)"
| "unit_interval _ = False"

definition mk_claim :: "claim \<Rightarrow> claim res" where
  "mk_claim c =
     bindE (require_half_open_interval (cl_valid_from c) (cl_valid_to c) ''valid_from'' ''valid_to'') (\<lambda>_.
     bindE (require_half_open_interval (cl_recorded_from c) (cl_recorded_to c) ''recorded_from'' ''recorded_to'') (\<lambda>_.
     bindE (raise_if (\<not> unit_interval (cl_confidence c)) (ValueError ''confidence must be between 0 and 1'')) (\<lambda>_.
     bindE (raise_if (cl_evidence c = []) (ValueError ''evidence must contain at least one reference'')) (\<lambda>_.
       Inr c))))"

definition claim_ok :: "claim \<Rightarrow> bool" where
  "claim_ok c \<longleftrightarrow> aware (cl_valid_from c) \<and> (\<forall>e. cl_valid_to c = Some e \<longrightarrow> aware e \<and> instant (cl_valid_from c) < instant e)
     \<and> aware (cl_recorded_from c)
     \<and> (\<forall>e. cl_recorded_to c = Some e \<longrightarrow> aware e \<and> instant (cl_recorded_from c) < instant e)
     \<and> unit_interval (cl_confidence c) \<and> cl_evidence c \<noteq> []"

lemma mk_claim_Inr: "mk_claim c = Inr c' \<longleftrightarrow> c' = c \<and> claim_ok c"
  by (auto simp: mk_claim_def claim_ok_def bindE_eq_Inr)

record procedure_version =
  pv_id :: memory_id
  pv_version :: int
  pv_content_ref :: artifact_id
  pv_input_schema :: pyval
  pv_preconditions :: "string list"
  pv_evaluation_score :: "pyfloat option"
  pv_approval_status :: approval_status
  pv_derived_from :: "memory_id list"
  pv_created_by :: subject_id

definition mk_procedure_version :: "procedure_version \<Rightarrow> procedure_version res" where
  "mk_procedure_version p =
     bindE (raise_if (pv_version p \<le> 0) (ValueError ''version must be positive'')) (\<lambda>_.
     bindE (freeze_schema_value (pv_input_schema p) ''input_schema'') (\<lambda>schema.
     bindE (raise_if (\<not> is_mapping schema) (TypeError ''input_schema must be a mapping'')) (\<lambda>_.
       Inr (p\<lparr>pv_input_schema := schema\<rparr>))))"

definition is_trusted :: "procedure_version \<Rightarrow> bool" where
  "is_trusted p \<longleftrightarrow> pv_approval_status p = APPROVED"

record evidence_item =
  ei_claim :: claim
  ei_temporal_status :: temporal_status
  ei_lexical_score :: pyfloat
  ei_semantic_score :: pyfloat
  ei_temporal_score :: pyfloat
  ei_graph_score :: pyfloat
  ei_rerank_score :: pyfloat

record evidence_packet =
  pk_query_id :: string
  pk_scope :: memory_scope
  pk_items :: "evidence_item list"
  pk_generated_at :: datetime

definition mk_evidence_packet :: "evidence_packet \<Rightarrow> evidence_packet res" where
  "mk_evidence_packet p =
     bindE (require_non_blank (pk_query_id p) ''query_id'') (\<lambda>_.
     bindE (require_aware (pk_generated_at p) ''generated_at'') (\<lambda>_.
     bindE (raise_if (\<exists>item \<in> set (pk_items p). cl_scope (ei_claim item) \<noteq> pk_scope p)
              (ValueError ''every evidence item claim scope must match packet scope'')) (\<lambda>_. Inr p)))"

section \<open>Port DTOs\<close>

record memory_query =
  mq_query_id :: string
  mq_scope :: memory_scope
  mq_text :: string
  mq_valid_at :: "datetime option"
  mq_recorded_at :: "datetime option"
  mq_limit :: int

definition mk_memory_query :: "memory_query \<Rightarrow> memory_query res" where
  "mk_memory_query q =
     bindE (raise_if (blank (mq_query_id q)) (ValueError ''query_id must not be blank'')) (\<lambda>_.
     bindE (raise_if (blank (mq_text q)) (ValueError ''text must not be blank'')) (\<lambda>_.
     bindE (require_optional_aware (mq_valid_at q) ''valid_at'') (\<lambda>_.
     bindE (require_optional_aware (mq_recorded_at q) ''recorded_at'') (\<lambda>_.
     bindE (raise_if (mq_limit q \<le> 0) (ValueError ''limit must be positive'')) (\<lambda>_. Inr q)))))"

definition memory_query_ok :: "memory_query \<Rightarrow> bool" where
  "memory_query_ok q \<longleftrightarrow> \<not> blank (mq_query_id q) \<and> \<not> blank (mq_text q)
     \<and> (\<forall>v. mq_valid_at q = Some v \<longrightarrow> aware v) \<and> (\<forall>v. mq_recorded_at q = Some v \<longrightarrow> aware v) \<and> 0 < mq_limit q"

lemma mk_memory_query_Inr: "mk_memory_query q = Inr q' \<longleftrightarrow> q' = q \<and> memory_query_ok q"
  by (auto simp: mk_memory_query_def memory_query_ok_def bindE_eq_Inr not_le)

record append_result =
  ar_episode_id :: memory_id
  ar_created :: bool

record add_proposal_result =
  apr_claim_id :: memory_id
  apr_created :: bool

record candidate_set =
  cs_scope :: memory_scope
  cs_items :: "evidence_item list"

definition mk_candidate_set :: "candidate_set \<Rightarrow> candidate_set res" where
  "mk_candidate_set s =
     bindE (raise_if (\<exists>item \<in> set (cs_items s). cl_scope (ei_claim item) \<noteq> cs_scope s)
              (ValueError ''every evidence item claim scope must match candidate scope'')) (\<lambda>_. Inr s)"

record authorization_request =
  rq_actor_id :: subject_id
  rq_scope :: memory_scope
  rq_action :: string
  rq_sensitivity :: sensitivity

section \<open>Application contracts\<close>

record record_episode_command =
  rc_correlation_id :: correlation_id
  rc_actor_id :: subject_id
  rc_scope :: memory_scope
  rc_source_type :: source_type
  rc_content_ref :: artifact_id
  rc_observed_at :: datetime
  rc_content_hash :: string
  rc_idempotency_key :: string
  rc_sensitivity :: sensitivity
  rc_retention_class :: retention_class
  rc_consent_basis :: string

definition mk_record_episode_command :: "record_episode_command \<Rightarrow> record_episode_command res" where
  "mk_record_episode_command c =
     bindE (require_aware (rc_observed_at c) ''observed_at'') (\<lambda>_.
     bindE (require_non_blank (rc_content_hash c) ''content_hash'') (\<lambda>_.
     bindE (require_non_blank (rc_idempotency_key c) ''idempotency_key'') (\<lambda>_.
     bindE (require_non_blank (rc_consent_basis c) ''consent_basis'') (\<lambda>_. Inr c))))"

definition command_ok :: "record_episode_command \<Rightarrow> bool" where
  "command_ok c \<longleftrightarrow> aware (rc_observed_at c) \<and> \<not> blank (rc_content_hash c)
     \<and> \<not> blank (rc_idempotency_key c) \<and> \<not> blank (rc_consent_basis c)"

lemma mk_record_episode_command_Inr: "mk_record_episode_command c = Inr c' \<longleftrightarrow> c' = c \<and> command_ok c"
  by (auto simp: mk_record_episode_command_def command_ok_def bindE_eq_Inr)

record record_episode_result =
  rr_episode_id :: memory_id
  rr_created :: bool

record relay_outbox_result =
  ro_fetched :: nat
  ro_dispatched :: nat
  ro_published :: nat
  ro_remaining_unpublished :: nat

record process_inbox_event_result =
  pi_processed :: bool
  pi_skipped :: bool

record get_query =
  gq_actor_id :: subject_id
  gq_scope :: memory_scope
  gq_id :: memory_id

text \<open>The episode and the claim listing share the shape and the bounds of their queries.\<close>

record list_query =
  lq_actor_id :: subject_id
  lq_scope :: memory_scope
  lq_limit :: int
  lq_cursor :: "string option"

definition mk_list_query :: "list_query \<Rightarrow> list_query res" where
  "mk_list_query q =
     bindE (raise_if (lq_limit q \<le> 0 \<or> lq_limit q > 100) (ValueError ''limit must be between 1 and 100'')) (\<lambda>_. Inr q)"

lemma mk_list_query_Inr: "mk_list_query q = Inr q' \<longleftrightarrow> q' = q \<and> 1 \<le> lq_limit q \<and> lq_limit q \<le> 100"
  by (auto simp: mk_list_query_def bindE_eq_Inr)

record 'r list_result =
  lr_items :: "'r list"
  lr_next_cursor :: "string option"

section \<open>Values for examples\<close>

definition sample_scope :: memory_scope where
  "sample_scope = \<lparr>ms_tenant_id = TenantId (UUID 1), ms_subject_id = SubjectId (UUID 2),
     ms_workspace_id = Some ''lab'', ms_agent_id = None\<rparr>"

definition sample_time :: datetime where
  "sample_time = DateTime 1000000 (Some 0)"

definition sample_command :: record_episode_command where
  "sample_command = \<lparr>rc_correlation_id = CorrelationId (UUID 3), rc_actor_id = SubjectId (UUID 2),
     rc_scope = sample_scope, rc_source_type = USER, rc_content_ref = ArtifactId (UUID 4),
     rc_observed_at = DateTime 4600000000 (Some 3600000000), rc_content_hash = ''sha256:0'',
     rc_idempotency_key = ''k1'', rc_sensitivity = INTERNAL, rc_retention_class = STANDARD,
     rc_consent_basis = ''contract''\<rparr>"

lemma sample_time_facts: "aware sample_time" "in_range (instant sample_time)" "wall sample_time = 1000000"
    "utcoffset sample_time = Some 0"
  by (simp_all add: sample_time_def aware_def in_range_def instant_def max_wall_def)

end
