(* ===== verification/Runtime_Model.thy ===== *)
theory Runtime_Model
  imports Memory_Model
begin

text \<open>
  The durable-execution domain: the contracts of \<open>runtime/domain/model.py\<close> (its
  plan graph is in \<open>Plan_Graph\<close>), the application contracts of
  \<open>runtime/application/contracts.py\<close> and the legal transitions of
  \<open>runtime/domain/state.py\<close>.
\<close>

section \<open>Enumerations\<close>

datatype execution_status = PENDING | PLANNING | RUNNING | WAITING | RETRYING | CANCELLING
  | COMPENSATING | SUCCEEDED | FAILED | CANCELLED

datatype node_status = N_PENDING | N_READY | N_RUNNING | N_WAITING | N_RETRYING | N_CANCELLING
  | N_COMPENSATING | N_SUCCEEDED | N_FAILED | N_CANCELLED | N_SKIPPED | N_COMPENSATED

datatype failure_category = TRANSIENT | INTERMITTENT | PERMANENT | USER_FIXABLE | POLICY_BLOCKED | SYSTEM_DEFECT
datatype node_kind = K_AGENT | K_TOOL | K_JOIN | K_DECISION
datatype join_kind = J_ALL | J_ANY
datatype side_effect_class = SE_NONE | IDEMPOTENT | NON_IDEMPOTENT
datatype suspension_kind = APPROVAL | INPUT | EXTERNAL_EVENT

fun execution_status_value :: "execution_status \<Rightarrow> string" where
  "execution_status_value PENDING = ''pending''"
| "execution_status_value PLANNING = ''planning''"
| "execution_status_value RUNNING = ''running''"
| "execution_status_value WAITING = ''waiting''"
| "execution_status_value RETRYING = ''retrying''"
| "execution_status_value CANCELLING = ''cancelling''"
| "execution_status_value COMPENSATING = ''compensating''"
| "execution_status_value SUCCEEDED = ''succeeded''"
| "execution_status_value FAILED = ''failed''"
| "execution_status_value CANCELLED = ''cancelled''"

fun node_status_value :: "node_status \<Rightarrow> string" where
  "node_status_value N_PENDING = ''pending''"
| "node_status_value N_READY = ''ready''"
| "node_status_value N_RUNNING = ''running''"
| "node_status_value N_WAITING = ''waiting''"
| "node_status_value N_RETRYING = ''retrying''"
| "node_status_value N_CANCELLING = ''cancelling''"
| "node_status_value N_COMPENSATING = ''compensating''"
| "node_status_value N_SUCCEEDED = ''succeeded''"
| "node_status_value N_FAILED = ''failed''"
| "node_status_value N_CANCELLED = ''cancelled''"
| "node_status_value N_SKIPPED = ''skipped''"
| "node_status_value N_COMPENSATED = ''compensated''"

definition execution_status_of_value :: "string \<Rightarrow> execution_status res" where
  "execution_status_of_value = enum_of_value execution_status_value
     [PENDING, PLANNING, RUNNING, WAITING, RETRYING, CANCELLING, COMPENSATING, SUCCEEDED, FAILED, CANCELLED]"

definition node_status_of_value :: "string \<Rightarrow> node_status res" where
  "node_status_of_value = enum_of_value node_status_value
     [N_PENDING, N_READY, N_RUNNING, N_WAITING, N_RETRYING, N_CANCELLING, N_COMPENSATING, N_SUCCEEDED,
      N_FAILED, N_CANCELLED, N_SKIPPED, N_COMPENSATED]"

lemma execution_status_roundtrip [simp]: "execution_status_of_value (execution_status_value s) = Inr s"
  by (cases s) (simp_all add: execution_status_of_value_def enum_of_value_def)

lemma node_status_roundtrip [simp]: "node_status_of_value (node_status_value s) = Inr s"
  by (cases s) (simp_all add: node_status_of_value_def enum_of_value_def)

lemma execution_status_value_inj [simp]: "execution_status_value a = execution_status_value b \<longleftrightarrow> a = b"
  by (metis execution_status_roundtrip sum.inject(2))

section \<open>Legal transitions\<close>

fun execution_transitions :: "execution_status \<Rightarrow> execution_status list" where
  "execution_transitions PENDING = [PLANNING, CANCELLING]"
| "execution_transitions PLANNING = [RUNNING, WAITING, CANCELLING, FAILED]"
| "execution_transitions RUNNING = [WAITING, RETRYING, CANCELLING, COMPENSATING, SUCCEEDED, FAILED]"
| "execution_transitions WAITING = [RUNNING, CANCELLING, FAILED]"
| "execution_transitions RETRYING = [RUNNING, CANCELLING, FAILED]"
| "execution_transitions CANCELLING = [COMPENSATING, CANCELLED, FAILED]"
| "execution_transitions COMPENSATING = [CANCELLED, FAILED]"
| "execution_transitions SUCCEEDED = []"
| "execution_transitions FAILED = []"
| "execution_transitions CANCELLED = []"

fun node_transitions :: "node_status \<Rightarrow> node_status list" where
  "node_transitions N_PENDING = [N_READY, N_SKIPPED, N_CANCELLED]"
| "node_transitions N_READY = [N_RUNNING, N_SKIPPED, N_CANCELLED]"
| "node_transitions N_RUNNING = [N_WAITING, N_RETRYING, N_CANCELLING, N_COMPENSATING, N_SUCCEEDED, N_FAILED]"
| "node_transitions N_WAITING = [N_RUNNING, N_CANCELLING, N_FAILED]"
| "node_transitions N_RETRYING = [N_RUNNING, N_CANCELLING, N_FAILED]"
| "node_transitions N_CANCELLING = [N_COMPENSATING, N_CANCELLED, N_FAILED]"
| "node_transitions N_COMPENSATING = [N_COMPENSATED, N_FAILED]"
| "node_transitions N_SUCCEEDED = []"
| "node_transitions N_FAILED = []"
| "node_transitions N_CANCELLED = []"
| "node_transitions N_SKIPPED = []"
| "node_transitions N_COMPENSATED = []"

definition can_transition_execution :: "execution_status \<Rightarrow> execution_status \<Rightarrow> bool" where
  "can_transition_execution current target \<longleftrightarrow> target \<in> set (execution_transitions current)"

definition can_transition_node :: "node_status \<Rightarrow> node_status \<Rightarrow> bool" where
  "can_transition_node current target \<longleftrightarrow> target \<in> set (node_transitions current)"

text \<open>A run of legal transitions, as an inductive relation over the predicate the code tests.\<close>

inductive execution_path :: "execution_status \<Rightarrow> execution_status \<Rightarrow> bool" where
  here: "execution_path s s"
| step: "execution_path s t \<Longrightarrow> can_transition_execution t u \<Longrightarrow> execution_path s u"

inductive node_path :: "node_status \<Rightarrow> node_status \<Rightarrow> bool" where
  here: "node_path s s"
| step: "node_path s t \<Longrightarrow> can_transition_node t u \<Longrightarrow> node_path s u"

definition terminal :: "execution_status \<Rightarrow> bool" where
  "terminal s \<longleftrightarrow> s \<in> {SUCCEEDED, FAILED, CANCELLED}"

definition node_terminal :: "node_status \<Rightarrow> bool" where
  "node_terminal s \<longleftrightarrow> s \<in> {N_SUCCEEDED, N_FAILED, N_CANCELLED, N_SKIPPED, N_COMPENSATED}"

lemma terminal_iff_stuck: "terminal s \<longleftrightarrow> (\<forall>t. \<not> can_transition_execution s t)"
  by (cases s) (auto simp: terminal_def can_transition_execution_def)

lemma node_terminal_iff_stuck: "node_terminal s \<longleftrightarrow> (\<forall>t. \<not> can_transition_node s t)"
  by (cases s) (auto simp: node_terminal_def can_transition_node_def)

lemma execution_path_closed:
  assumes "execution_path s t" and "s \<in> A"
    and "\<And>x y. x \<in> A \<Longrightarrow> can_transition_execution x y \<Longrightarrow> y \<in> A"
  shows "t \<in> A"
  using assms by (induction rule: execution_path.induct) auto

lemma node_path_closed:
  assumes "node_path s t" and "s \<in> A" and "\<And>x y. x \<in> A \<Longrightarrow> can_transition_node x y \<Longrightarrow> y \<in> A"
  shows "t \<in> A"
  using assms by (induction rule: node_path.induct) auto

lemma terminal_final: "execution_path s t \<Longrightarrow> terminal s \<Longrightarrow> t = s"
  by (induction rule: execution_path.induct) (auto simp: terminal_iff_stuck)

lemma node_terminal_final: "node_path s t \<Longrightarrow> node_terminal s \<Longrightarrow> t = s"
  by (induction rule: node_path.induct) (auto simp: node_terminal_iff_stuck)

lemma cancelling_path: "execution_path CANCELLING t \<Longrightarrow> t \<in> {CANCELLING, COMPENSATING, CANCELLED, FAILED}"
  by (erule execution_path_closed) (auto simp: can_transition_execution_def)

lemma path_to_cancelled:
  assumes "\<not> terminal s"
  shows "execution_path s CANCELLED"
proof -
  have c: "can_transition_execution CANCELLING CANCELLED" "can_transition_execution COMPENSATING CANCELLED"
    by (simp_all add: can_transition_execution_def)
  consider "can_transition_execution s CANCELLING" | "can_transition_execution s CANCELLED"
    using assms by (cases s) (auto simp: terminal_def can_transition_execution_def)
  then show ?thesis
    by cases (meson c execution_path.intros)+
qed

section \<open>Budgets and specifications\<close>

record budget =
  bg_max_input_tokens :: int
  bg_max_output_tokens :: int
  bg_max_cost_micros :: int
  bg_deadline :: datetime

definition mk_budget :: "budget \<Rightarrow> budget res" where
  "mk_budget b =
     bindE (raise_if (bg_max_input_tokens b < 0) (ValueError ''max_input_tokens must not be negative'')) (\<lambda>_.
     bindE (raise_if (bg_max_output_tokens b < 0) (ValueError ''max_output_tokens must not be negative'')) (\<lambda>_.
     bindE (raise_if (bg_max_cost_micros b < 0) (ValueError ''max_cost_micros must not be negative'')) (\<lambda>_.
     bindE (require_aware (bg_deadline b) ''deadline'') (\<lambda>_. Inr b))))"

definition budget_ok :: "budget \<Rightarrow> bool" where
  "budget_ok b \<longleftrightarrow> 0 \<le> bg_max_input_tokens b \<and> 0 \<le> bg_max_output_tokens b \<and> 0 \<le> bg_max_cost_micros b
     \<and> aware (bg_deadline b)"

lemma mk_budget_Inr: "mk_budget b = Inr b' \<longleftrightarrow> b' = b \<and> budget_ok b"
  by (auto simp: mk_budget_def budget_ok_def bindE_eq_Inr not_less)

record execution_spec =
  sp_id :: execution_id
  sp_scope :: memory_scope
  sp_objective_ref :: artifact_id
  sp_root_agent_id :: agent_definition_id
  sp_memory_query :: "memory_query option"
  sp_budget :: budget
  sp_idempotency_key :: string

definition mk_execution_spec :: "execution_spec \<Rightarrow> execution_spec res" where
  "mk_execution_spec s =
     bindE (require_non_blank (sp_idempotency_key s) ''idempotency_key'') (\<lambda>_.
     bindE (raise_if (case sp_memory_query s of None \<Rightarrow> False | Some q \<Rightarrow> mq_scope q \<noteq> sp_scope s)
              (ValueError ''memory_query.scope must match execution scope'')) (\<lambda>_. Inr s))"

definition spec_ok :: "execution_spec \<Rightarrow> bool" where
  "spec_ok s \<longleftrightarrow> \<not> blank (sp_idempotency_key s) \<and> (\<forall>q. sp_memory_query s = Some q \<longrightarrow> mq_scope q = sp_scope s)"

lemma mk_execution_spec_Inr: "mk_execution_spec s = Inr s' \<longleftrightarrow> s' = s \<and> spec_ok s"
  by (auto simp: mk_execution_spec_def spec_ok_def bindE_eq_Inr split: option.splits)

section \<open>Agents and tools\<close>

text \<open>The module's copy of \<open>_freeze_json_value\<close> is the kernel's text, so it is its function.\<close>

definition freeze_schema :: "pyval \<Rightarrow> string \<Rightarrow> pyval res" where
  "freeze_schema schema field_name =
     bindE (freeze_json_value schema field_name) (\<lambda>frz.
     bindE (raise_if (\<not> is_mapping frz) (TypeError (field_name @ '' must be a mapping''))) (\<lambda>_. Inr frz))"

lemma freeze_schema_frozen: "freeze_schema v n = Inr w \<Longrightarrow> frozen w \<and> is_mapping w"
  by (auto simp: freeze_schema_def bindE_eq_Inr dest: freeze_frozen)

record agent_definition =
  ad_id :: agent_definition_id
  ad_version :: int
  ad_role :: string
  ad_instruction_ref :: artifact_id
  ad_capabilities :: "string list"

definition mk_agent_definition :: "agent_definition \<Rightarrow> agent_definition res" where
  "mk_agent_definition a =
     bindE (raise_if (ad_version a \<le> 0) (ValueError ''version must be positive'')) (\<lambda>_.
     bindE (require_non_blank (ad_role a) ''role'') (\<lambda>_. Inr a))"

record agent_invocation =
  ai_attempt_id :: attempt_id
  ai_execution_id :: execution_id
  ai_node_id :: node_id
  ai_agent_definition_id :: agent_definition_id
  ai_input_refs :: "artifact_id list"
  ai_evidence_ref :: "artifact_id option"
  ai_tool_grants :: "string list"
  ai_expected_output_schema :: pyval
  ai_scope :: memory_scope
  ai_budget :: budget

definition mk_agent_invocation :: "agent_invocation \<Rightarrow> agent_invocation res" where
  "mk_agent_invocation a = bindE (freeze_schema (ai_expected_output_schema a) ''expected_output_schema'')
     (\<lambda>s. Inr (a\<lparr>ai_expected_output_schema := s\<rparr>))"

record failure =
  fl_category :: failure_category
  fl_code :: string
  fl_message :: string
  fl_details_ref :: "artifact_id option"

definition mk_failure :: "failure \<Rightarrow> failure res" where
  "mk_failure f = bindE (require_non_blank (fl_code f) ''code'') (\<lambda>_.
     bindE (require_non_blank (fl_message f) ''message'') (\<lambda>_. Inr f))"

record suspension =
  su_request_id :: string
  su_idempotency_key :: string
  su_execution_id :: execution_id
  su_node_id :: "node_id option"
  su_kind :: suspension_kind
  su_request_ref :: artifact_id
  su_requested_at :: datetime
  su_expires_at :: datetime

definition mk_suspension :: "suspension \<Rightarrow> suspension res" where
  "mk_suspension s =
     bindE (require_non_blank (su_request_id s) ''request_id'') (\<lambda>_.
     bindE (require_non_blank (su_idempotency_key s) ''idempotency_key'') (\<lambda>_.
     bindE (require_aware (su_requested_at s) ''requested_at'') (\<lambda>_.
     bindE (require_aware (su_expires_at s) ''expires_at'') (\<lambda>_.
     bindE (dt_le (su_expires_at s) (su_requested_at s)) (\<lambda>early.
     bindE (raise_if early (ValueError ''expires_at must be later than requested_at'')) (\<lambda>_. Inr s))))))"

lemma mk_suspension_window:
  "mk_suspension s = Inr s' \<Longrightarrow> s' = s \<and> instant (su_requested_at s) < instant (su_expires_at s)"
  by (auto simp: mk_suspension_def bindE_eq_Inr dt_le_def split: if_splits)

record decision =
  de_request_id :: string
  de_idempotency_key :: string
  de_approved :: bool
  de_decided_by :: subject_id
  de_decision_ref :: "artifact_id option"
  de_decided_at :: datetime

definition mk_decision :: "decision \<Rightarrow> decision res" where
  "mk_decision d =
     bindE (require_non_blank (de_request_id d) ''request_id'') (\<lambda>_.
     bindE (require_non_blank (de_idempotency_key d) ''idempotency_key'') (\<lambda>_.
     bindE (require_aware (de_decided_at d) ''decided_at'') (\<lambda>_. Inr d)))"

record tool_descriptor =
  td_name :: string
  td_version :: string
  td_input_schema :: pyval
  td_output_schema :: pyval
  td_required_grants :: "string list"
  td_side_effect_class :: side_effect_class

definition mk_tool_descriptor :: "tool_descriptor \<Rightarrow> tool_descriptor res" where
  "mk_tool_descriptor t =
     bindE (require_non_blank (td_name t) ''name'') (\<lambda>_.
     bindE (require_non_blank (td_version t) ''version'') (\<lambda>_.
     bindE (freeze_schema (td_input_schema t) ''input_schema'') (\<lambda>i.
     bindE (freeze_schema (td_output_schema t) ''output_schema'') (\<lambda>o'.
       Inr (t\<lparr>td_input_schema := i, td_output_schema := o'\<rparr>)))))"

record tool_call =
  tc_effect_id :: effect_id
  tc_attempt_id :: attempt_id
  tc_tool_name :: string
  tc_tool_version :: string
  tc_input_ref :: artifact_id
  tc_grants :: "string list"
  tc_scope :: memory_scope

definition mk_tool_call :: "tool_call \<Rightarrow> tool_call res" where
  "mk_tool_call t = bindE (require_non_blank (tc_tool_name t) ''tool_name'') (\<lambda>_.
     bindE (require_non_blank (tc_tool_version t) ''tool_version'') (\<lambda>_. Inr t))"

record tool_result =
  tr_effect_id :: effect_id
  tr_output_ref :: "artifact_id option"
  tr_failure :: "failure option"

definition mk_tool_result :: "tool_result \<Rightarrow> tool_result res" where
  "mk_tool_result r = bindE (raise_if ((tr_output_ref r = None) = (tr_failure r = None))
     (ValueError ''tool result must contain exactly one of output_ref or failure'')) (\<lambda>_. Inr r)"

record agent_outcome =
  ao_attempt_id :: attempt_id
  ao_output_ref :: "artifact_id option"
  ao_failure :: "failure option"

definition mk_agent_outcome :: "agent_outcome \<Rightarrow> agent_outcome res" where
  "mk_agent_outcome r = bindE (raise_if ((ao_output_ref r = None) = (ao_failure r = None))
     (ValueError ''agent outcome must contain exactly one of output_ref or failure'')) (\<lambda>_. Inr r)"

section \<open>Snapshots\<close>

record execution_snapshot =
  sn_execution_id :: execution_id
  sn_scope :: memory_scope
  sn_revision :: int
  sn_status :: execution_status
  sn_plan_revision :: "int option"
  sn_node_statuses :: "(node_id, node_status) dict"
  sn_suspension :: "suspension option"
  sn_result_ref :: "artifact_id option"
  sn_failure :: "failure option"
  sn_updated_at :: datetime

definition mk_execution_snapshot :: "execution_snapshot \<Rightarrow> execution_snapshot res" where
  "mk_execution_snapshot s =
     bindE (raise_if (sn_revision s < 0) (ValueError ''revision must not be negative'')) (\<lambda>_.
     bindE (raise_if (case sn_plan_revision s of None \<Rightarrow> False | Some r \<Rightarrow> r < 0)
              (ValueError ''plan_revision must not be negative'')) (\<lambda>_.
     bindE (require_aware (sn_updated_at s) ''updated_at'') (\<lambda>_. Inr s)))"

definition snapshot_ok :: "execution_snapshot \<Rightarrow> bool" where
  "snapshot_ok s \<longleftrightarrow> 0 \<le> sn_revision s \<and> (\<forall>r. sn_plan_revision s = Some r \<longrightarrow> 0 \<le> r) \<and> aware (sn_updated_at s)"

lemma mk_execution_snapshot_Inr: "mk_execution_snapshot s = Inr s' \<longleftrightarrow> s' = s \<and> snapshot_ok s"
  by (auto simp: mk_execution_snapshot_def snapshot_ok_def bindE_eq_Inr not_less split: option.splits)

section \<open>Effect payloads\<close>

fun canonical_effect_value :: "pyval \<Rightarrow> string \<Rightarrow> pyval res"
  and canonical_items :: "(pyval \<times> pyval) list \<Rightarrow> string \<Rightarrow> (pyval \<times> pyval) list res"
  and canonical_elems :: "pyval list \<Rightarrow> nat \<Rightarrow> string \<Rightarrow> pyval list res" where
  "canonical_effect_value (VDict kvs) path = bindE (canonical_items kvs path) (\<lambda>r. Inr (VDict r))"
| "canonical_effect_value (VProxy kvs) path = bindE (canonical_items kvs path) (\<lambda>r. Inr (VDict r))"
| "canonical_effect_value (VList vs) path = bindE (canonical_elems vs 0 path) (\<lambda>r. Inr (VList r))"
| "canonical_effect_value (VTuple vs) path = bindE (canonical_elems vs 0 path) (\<lambda>r. Inr (VList r))"
| "canonical_effect_value (VFloat f) path =
     (if \<not> isfinite f then Inl (ValueError (path @ '' must contain only finite numbers''))
      else Inr (VFloat f))"
| "canonical_effect_value (VOther ty) path =
     Inl (TypeError (path @ '' contains unsupported value type '' @ ty))"
| "canonical_effect_value v path = Inr v"
| "canonical_items [] path = Inr []"
| "canonical_items ((VStr key, v) # r) path =
     bindE (canonical_effect_value v (path @ ''.'' @ key)) (\<lambda>v'.
       bindE (canonical_items r path) (\<lambda>r'. Inr ((VStr key, v') # r')))"
| "canonical_items ((k, v) # r) path = Inl (TypeError (path @ '' keys must be strings''))"
| "canonical_elems [] i path = Inr []"
| "canonical_elems (v # vs) i path =
     bindE (canonical_effect_value v (path @ ''['' @ show_nat i @ '']'')) (\<lambda>v'.
       bindE (canonical_elems vs (Suc i) path) (\<lambda>vs'. Inr (v' # vs')))"

text \<open>The canonical value of a payload and of its frozen form are the same JSON value.\<close>

lemma canonical_eq_freeze:
  "canonical_effect_value v path = bindE (freeze_json_value v path) (\<lambda>w. Inr (to_json_value w))"
  "canonical_items kvs path = bindE (freeze_items kvs path)
     (\<lambda>r. Inr (map (\<lambda>kv. (fst kv, to_json_value (snd kv))) r))"
  "canonical_elems vs i path = bindE (freeze_elems vs i path) (\<lambda>r. Inr (map to_json_value r))"
  by (induction v path and kvs path and vs i path
        rule: freeze_json_value_freeze_items_freeze_elems.induct)
     (simp_all add: bindE_def split: sum.splits)

section \<open>Application contracts\<close>

record start_execution_command =
  sc_correlation_id :: correlation_id
  sc_actor_id :: subject_id
  sc_scope :: memory_scope
  sc_objective_ref :: artifact_id
  sc_root_agent_id :: agent_definition_id
  sc_memory_query :: "memory_query option"
  sc_budget :: budget
  sc_idempotency_key :: string

definition mk_start_execution_command :: "start_execution_command \<Rightarrow> start_execution_command res" where
  "mk_start_execution_command c = bindE (require_non_blank (sc_idempotency_key c) ''idempotency_key'') (\<lambda>_. Inr c)"

record start_execution_result =
  sr_snapshot :: execution_snapshot
  sr_created :: bool

record get_execution_snapshot_query =
  ge_actor_id :: subject_id
  ge_scope :: memory_scope
  ge_execution_id :: execution_id

record cancel_execution_command =
  cc_correlation_id :: correlation_id
  cc_actor_id :: subject_id
  cc_scope :: memory_scope
  cc_execution_id :: execution_id
  cc_idempotency_key :: string

definition mk_cancel_execution_command :: "cancel_execution_command \<Rightarrow> cancel_execution_command res" where
  "mk_cancel_execution_command c = bindE (require_non_blank (cc_idempotency_key c) ''idempotency_key'') (\<lambda>_. Inr c)"

record list_executions_query =
  le_actor_id :: subject_id
  le_scope :: memory_scope
  le_limit :: int
  le_cursor :: "string option"

definition mk_list_executions_query :: "list_executions_query \<Rightarrow> list_executions_query res" where
  "mk_list_executions_query q =
     bindE (raise_if (le_limit q \<le> 0 \<or> le_limit q > 100) (ValueError ''limit must be between 1 and 100'')) (\<lambda>_. Inr q)"

record execution_list_item =
  li_execution_id :: execution_id
  li_scope :: memory_scope
  li_revision :: int
  li_status :: execution_status
  li_updated_at :: datetime

record runtime_authorization_request =
  ra_actor_id :: subject_id
  ra_scope :: memory_scope
  ra_action :: string

section \<open>Values for examples\<close>

definition sample_spec :: "execution_id \<Rightarrow> execution_spec" where
  "sample_spec i = \<lparr>sp_id = i, sp_scope = sample_scope, sp_objective_ref = ArtifactId (UUID 5),
     sp_root_agent_id = AgentDefinitionId (UUID 6), sp_memory_query = None,
     sp_budget = \<lparr>bg_max_input_tokens = 1000, bg_max_output_tokens = 500, bg_max_cost_micros = 0,
       bg_deadline = sample_time\<rparr>, sp_idempotency_key = ''start-1''\<rparr>"

definition sample_start :: start_execution_command where
  "sample_start = \<lparr>sc_correlation_id = CorrelationId (UUID 3), sc_actor_id = SubjectId (UUID 2), sc_scope = sample_scope, sc_objective_ref = ArtifactId (UUID 5),
     sc_root_agent_id = AgentDefinitionId (UUID 6), sc_memory_query = None,
     sc_budget = \<lparr>bg_max_input_tokens = 1000, bg_max_output_tokens = 500, bg_max_cost_micros = 0,
       bg_deadline = sample_time\<rparr>, sc_idempotency_key = ''start-1''\<rparr>"

definition sample_event_ids :: "nat \<Rightarrow> event_id" where
  "sample_event_ids n = EventId (UUID (of_nat n + 100))"

lemma sample_spec_ok [simp]: "spec_ok (sample_spec i)"
  by (simp add: spec_ok_def sample_spec_def blank_iff is_space_def)

section \<open>Properties\<close>

text \<open>
  The life cycle of an execution can always end, and ends for good. A status
  admits no transition exactly when it is terminal; from every other one a
  cancellation can still be reached by legal transitions; and nothing but itself is
  reached from a terminal one. Nodes have the same ends.
\<close>

theorem lifecycle_ends:
  "(terminal s \<longleftrightarrow> (\<forall>t. \<not> can_transition_execution s t))
   \<and> (\<not> terminal s \<longrightarrow> execution_path s CANCELLED)
   \<and> (terminal s \<longrightarrow> execution_path s t \<longrightarrow> t = s)
   \<and> (node_terminal n \<longleftrightarrow> (\<forall>m. \<not> can_transition_node n m))
   \<and> (node_terminal n \<longrightarrow> node_path n m \<longrightarrow> m = n)"
  using terminal_iff_stuck path_to_cancelled terminal_final node_terminal_iff_stuck node_terminal_final by blast

theorem lifecycle_ends_witness:
  "execution_path RUNNING CANCELLED \<and> (\<forall>t. \<not> can_transition_execution FAILED t)"
  using lifecycle_ends [of RUNNING RUNNING N_PENDING N_PENDING] lifecycle_ends [of FAILED FAILED N_PENDING N_PENDING]
  by (simp add: terminal_def)

end
