(* ===== verification/Plan_Graph.thy ===== *)
theory Plan_Graph
  imports Runtime_Model
begin

text \<open>
  Execution plans (\<open>runtime/domain/model.py\<close>, \<open>PlanNode\<close> to \<open>PlanDelta\<close>). The
  constructor of \<open>Plan\<close> runs Kahn's algorithm over the edges; this theory models
  the loop as it is written and shows that it accepts exactly the acyclic graphs.
\<close>

section \<open>Nodes and edges\<close>

record plan_node =
  pn_id :: node_id
  pn_kind :: node_kind
  pn_objective_ref :: artifact_id
  pn_agent_definition_id :: "agent_definition_id option"
  pn_join_kind :: "join_kind option"
  pn_input_refs :: "artifact_id list"
  pn_expected_output_schema :: pyval
  pn_tool_grants :: "string list"
  pn_budget :: budget
  pn_side_effect_class :: side_effect_class
  pn_acceptance_criteria :: "string list"

definition mk_plan_node :: "plan_node \<Rightarrow> plan_node res" where
  "mk_plan_node n = bindE (freeze_schema (pn_expected_output_schema n) ''expected_output_schema'')
     (\<lambda>s. Inr (n\<lparr>pn_expected_output_schema := s\<rparr>))"

record plan_edge =
  pe_source :: node_id
  pe_target :: node_id

section \<open>The check of the graph\<close>

type_synonym successors = "(node_id, node_id list) dict"
type_synonym indegree = "(node_id, int) dict"

definition no_key :: exn where
  "no_key = KeyError ''node_id''"

text \<open>The first loop: every edge is checked and recorded.\<close>

fun link_edges :: "node_id set \<Rightarrow> plan_edge list \<Rightarrow> successors \<Rightarrow> indegree \<Rightarrow> (successors \<times> indegree) res" where
  "link_edges known [] succs indeg = Inr (succs, indeg)"
| "link_edges known (e # es) succs indeg =
     (if pe_source e = pe_target e then Inl (ValueError ''plan contains a self edge'')
      else if pe_source e \<notin> known \<or> pe_target e \<notin> known then Inl (ValueError ''plan contains a dangling edge'')
      else bindE (dict_item succs (pe_source e) no_key) (\<lambda>ss.
           bindE (dict_item indeg (pe_target e) no_key) (\<lambda>d.
             link_edges known es (dict_set (pe_source e) (ss @ [pe_target e]) succs)
               (dict_set (pe_target e) (d + 1) indeg))))"

text \<open>The inner loop: the successors of a node that left the \<open>ready\<close> stack.\<close>

fun release :: "node_id list \<Rightarrow> indegree \<Rightarrow> node_id list \<Rightarrow> (indegree \<times> node_id list) res" where
  "release [] indeg ready = Inr (indeg, ready)"
| "release (s # ss) indeg ready =
     bindE (dict_item indeg s no_key) (\<lambda>d.
       release ss (dict_set s (d - 1) indeg) (if d - 1 = 0 then ready @ [s] else ready))"

definition pending :: "indegree \<Rightarrow> nat" where
  "pending indeg = length (filter (\<lambda>kd. 0 < snd kd) indeg)"

lemma pending_set:
  "dict_get indeg k = Some d \<Longrightarrow>
     pending (dict_set k d' indeg) + (if 0 < d then 1 else 0) = pending indeg + (if 0 < d' then 1 else 0)"
  by (induction indeg) (auto simp: pending_def split: if_splits)

text \<open>A node enters the stack only when its count of incoming edges stops being positive.\<close>

lemma release_measure:
  "release ss indeg ready = Inr (indeg', ready') \<Longrightarrow> pending indeg' + length ready' \<le> pending indeg + length ready"
proof (induction ss indeg ready rule: release.induct)
  case (2 s ss indeg ready)
  then obtain d where d: "dict_get indeg s = Some d"
    and r: "release ss (dict_set s (d - 1) indeg) (if d - 1 = 0 then ready @ [s] else ready) = Inr (indeg', ready')"
    by (auto simp: bindE_eq_Inr)
  have "pending (dict_set s (d - 1) indeg) + length (if d - 1 = 0 then ready @ [s] else ready)
      \<le> pending indeg + length ready"
    using pending_set [OF d, of "d - 1"] by (cases "d = 1") (auto split: if_splits)
  with 2(1) r d show ?case by fastforce
qed simp

function drain :: "successors \<Rightarrow> indegree \<Rightarrow> node_id list \<Rightarrow> nat \<Rightarrow> nat res" where
  "drain succs indeg ready visited =
     (if ready = [] then Inr visited
      else bindE (dict_item succs (last ready) no_key) (\<lambda>ss.
        case release ss indeg (butlast ready) of
          Inl e \<Rightarrow> Inl e
        | Inr p \<Rightarrow> drain succs (fst p) (snd p) (Suc visited)))"
  by pat_completeness auto
termination
  by (relation "measure (\<lambda>(succs, indeg, ready, visited). pending indeg + length ready)")
     (auto dest!: release_measure elim!: order.strict_trans1)

declare drain.simps [simp del]

definition validate_dag :: "plan_node list \<Rightarrow> plan_edge list \<Rightarrow> unit res" where
  "validate_dag nodes edges =
     (let node_ids = map pn_id nodes; known_ids = set node_ids in
     bindE (raise_if (card known_ids \<noteq> length node_ids) (ValueError ''plan contains duplicate node ids'')) (\<lambda>_.
     bindE (link_edges known_ids edges (map (\<lambda>i. (i, [])) node_ids) (map (\<lambda>i. (i, 0)) node_ids)) (\<lambda>(succs, indeg).
     bindE (drain succs indeg (map fst (filter (\<lambda>kd. snd kd = 0) indeg)) 0) (\<lambda>visited.
       raise_if (visited \<noteq> length node_ids) (ValueError ''plan contains a cycle'')))))"

record plan =
  pl_execution_id :: execution_id
  pl_revision :: int
  pl_nodes :: "plan_node list"
  pl_edges :: "plan_edge list"

definition mk_plan :: "plan \<Rightarrow> plan res" where
  "mk_plan p =
     bindE (raise_if (pl_revision p < 0) (ValueError ''revision must not be negative'')) (\<lambda>_.
     bindE (validate_dag (pl_nodes p) (pl_edges p)) (\<lambda>_. Inr p))"

section \<open>The loops compute what they mean\<close>

text \<open>\<open>table d K g\<close>: the dictionary \<open>d\<close> holds \<open>g\<close> on the keys \<open>K\<close>.\<close>

definition table :: "('k, 'v) dict \<Rightarrow> 'k set \<Rightarrow> ('k \<Rightarrow> 'v) \<Rightarrow> bool" where
  "table d K g \<longleftrightarrow> (\<forall>k. dict_get d k = (if k \<in> K then Some (g k) else None))"

lemma table_get: "table d K g \<Longrightarrow> k \<in> K \<Longrightarrow> dict_get d k = Some (g k)"
  by (simp add: table_def)

lemma table_set: "table d K g \<Longrightarrow> k \<in> K \<Longrightarrow> table (dict_set k v d) K (g(k := v))"
  by (simp add: table_def)

lemma table_keys: "table d K g \<Longrightarrow> set (dict_keys d) = K"
  by (auto simp: table_def dom_map_of_conv_image_fst [symmetric] split: if_splits)

lemma table_init: "table (map (\<lambda>i. (i, c)) is) (set is) (\<lambda>_. c)"
  by (induction "is") (auto simp: table_def)

definition targets :: "plan_edge list \<Rightarrow> node_id \<Rightarrow> node_id list" where
  "targets edges v = map pe_target (filter (\<lambda>e. pe_source e = v) edges)"

text \<open>The number of edges into \<open>v\<close> whose source satisfies \<open>P\<close>.\<close>

definition incoming :: "(node_id \<Rightarrow> bool) \<Rightarrow> plan_edge list \<Rightarrow> node_id \<Rightarrow> int" where
  "incoming P edges v = int (length (filter (\<lambda>e. pe_target e = v \<and> P (pe_source e)) edges))"

definition edge_ok :: "node_id set \<Rightarrow> plan_edge \<Rightarrow> bool" where
  "edge_ok known e \<longleftrightarrow> pe_source e \<noteq> pe_target e \<and> pe_source e \<in> known \<and> pe_target e \<in> known"

lemma link_edges_ok:
  assumes "\<forall>e \<in> set es. edge_ok K e" and "table succs K h" and "table indeg K g"
    and "distinct (dict_keys indeg)"
  shows "\<exists>succs' indeg'. link_edges K es succs indeg = Inr (succs', indeg')
    \<and> table succs' K (\<lambda>v. h v @ targets es v) \<and> table indeg' K (\<lambda>v. g v + incoming (\<lambda>_. True) es v)
    \<and> distinct (dict_keys indeg')"
  using assms
proof (induction es arbitrary: succs indeg h g)
  case (Cons e es)
  let ?s = "pe_source e" and ?t = "pe_target e"
  have e: "?s \<noteq> ?t" "?s \<in> K" "?t \<in> K" using Cons.prems(1) by (auto simp: edge_ok_def)
  have "\<forall>e \<in> set es. edge_ok K e" using Cons.prems(1) by simp
  from Cons.IH [OF this table_set [OF Cons.prems(2) e(2), of "h ?s @ [?t]"]
      table_set [OF Cons.prems(3) e(3), of "g ?t + 1"]] Cons.prems(4)
  obtain succs' indeg' where r:
    "link_edges K es (dict_set ?s (h ?s @ [?t]) succs) (dict_set ?t (g ?t + 1) indeg) = Inr (succs', indeg')"
    "table succs' K (\<lambda>v. (h(?s := h ?s @ [?t])) v @ targets es v)"
    "table indeg' K (\<lambda>v. (g(?t := g ?t + 1)) v + incoming (\<lambda>_. True) es v)"
    "distinct (dict_keys indeg')" by auto
  have "(\<lambda>v. (h(?s := h ?s @ [?t])) v @ targets es v) = (\<lambda>v. h v @ targets (e # es) v)"
    "(\<lambda>v. (g(?t := g ?t + 1)) v + incoming (\<lambda>_. True) es v) = (\<lambda>v. g v + incoming (\<lambda>_. True) (e # es) v)"
    by (auto simp: targets_def incoming_def)
  with r e Cons.prems(2,3) show ?case by (simp add: dict_item_def table_get [OF Cons.prems(2)] table_get [OF Cons.prems(3)])
qed (simp add: targets_def incoming_def)

text \<open>The first edge that is not in order raises.\<close>

definition edge_error :: "plan_edge \<Rightarrow> exn" where
  "edge_error e = ValueError (if pe_source e = pe_target e then ''plan contains a self edge''
     else ''plan contains a dangling edge'')"

lemma link_edges_bad:
  assumes "find (\<lambda>e. \<not> edge_ok K e) es = Some e" and "table succs K h" and "table indeg K g"
  shows "link_edges K es succs indeg = Inl (edge_error e)"
  using assms
proof (induction es arbitrary: succs indeg h g)
  case (Cons x es)
  show ?case
  proof (cases "edge_ok K x")
    case True
    then have x: "pe_source x \<noteq> pe_target x" "pe_source x \<in> K" "pe_target x \<in> K" by (auto simp: edge_ok_def)
    from Cons.prems(1) True have "find (\<lambda>e. \<not> edge_ok K e) es = Some e" by simp
    from Cons.IH [OF this table_set [OF Cons.prems(2) x(2)] table_set [OF Cons.prems(3) x(3)]] x
    show ?thesis by (simp add: dict_item_def table_get [OF Cons.prems(2)] table_get [OF Cons.prems(3)])
  next
    case False
    with Cons.prems(1) show ?thesis by (auto simp: edge_ok_def edge_error_def)
  qed
qed simp

lemma release_ok:
  assumes "table indeg K g" and "set ss \<subseteq> K" and "\<forall>s \<in> set ss. int (count_list ss s) \<le> g s"
  shows "\<exists>indeg' new. release ss indeg ready = Inr (indeg', ready @ new) \<and> distinct new
    \<and> set new = {v \<in> set ss. g v = int (count_list ss v)}
    \<and> table indeg' K (\<lambda>v. g v - int (count_list ss v))"
  using assms
proof (induction ss arbitrary: indeg g ready)
  case (Cons s ss)
  let ?g = "g(s := g s - 1)" and ?r = "if g s - 1 = 0 then ready @ [s] else ready"
  have s: "s \<in> K" and g: "int (count_list ss s) \<le> g s - 1" using Cons.prems(2,3) by auto
  have "\<forall>v \<in> set ss. int (count_list ss v) \<le> ?g v"
    using Cons.prems(3) by (auto split: if_splits)
  from Cons.IH [OF table_set [OF Cons.prems(1) s] _ this, of ?r] Cons.prems(2)
  obtain indeg' new where r: "release ss (dict_set s (g s - 1) indeg) ?r = Inr (indeg', ?r @ new)"
    "distinct new" "set new = {v \<in> set ss. ?g v = int (count_list ss v)}"
    "table indeg' K (\<lambda>v. ?g v - int (count_list ss v))" by auto
  have t: "(\<lambda>v. ?g v - int (count_list ss v)) = (\<lambda>v. g v - int (count_list (s # ss) v))" by auto
  have rel: "release (s # ss) indeg ready = Inr (indeg', ?r @ new)"
    using r(1) table_get [OF Cons.prems(1) s] by (simp add: dict_item_def)
  from r(4) have tab: "table indeg' K (\<lambda>v. g v - int (count_list (s # ss) v))" unfolding t .
  let ?new = "if g s - 1 = 0 then s # new else new"
  have app: "?r @ new = ready @ ?new" by simp
  have zero: "g s - 1 = 0 \<Longrightarrow> s \<notin> set ss" using g by (metis count_list_0_iff of_nat_le_0_iff)
  have pos: "g s - 1 = int (count_list ss s) \<Longrightarrow> s \<notin> set ss \<Longrightarrow> g s - 1 = 0" by simp
  have "distinct ?new" using r(2,3) zero by auto
  moreover have "set ?new = {v \<in> set (s # ss). g v = int (count_list (s # ss) v)}"
    unfolding set_eq_iff
  proof
    fix v
    show "v \<in> set ?new \<longleftrightarrow> v \<in> {v \<in> set (s # ss). g v = int (count_list (s # ss) v)}"
      using r(3) zero pos by (cases "v = s") auto
  qed
  ultimately show ?case using rel tab unfolding app by blast
qed auto

section \<open>The main loop\<close>

text \<open>Every edge into a node of \<open>order\<close> comes from an earlier one.\<close>

definition topological :: "plan_edge list \<Rightarrow> node_id list \<Rightarrow> bool" where
  "topological edges order \<longleftrightarrow>
     (\<forall>i < length order. \<forall>e \<in> set edges. pe_target e = order ! i \<longrightarrow> pe_source e \<in> set (take i order))"

text \<open>
  What holds at the head of the loop, for the nodes \<open>old\<close> that already left the
  stack: the counts are those of the edges that still hold a node back, and a
  node is on the stack or gone exactly when its count is zero.
\<close>

definition drain_inv :: "plan_edge list \<Rightarrow> node_id set \<Rightarrow> node_id list \<Rightarrow> node_id list \<Rightarrow> bool" where
  "drain_inv edges K old ready \<longleftrightarrow> distinct (old @ ready) \<and> set (old @ ready) \<subseteq> K \<and> topological edges old
     \<and> (\<forall>v \<in> K. incoming (\<lambda>u. u \<notin> set old) edges v = 0 \<longleftrightarrow> v \<in> set (old @ ready))"

lemma incoming_zero: "incoming P edges v = 0 \<longleftrightarrow> (\<forall>e \<in> set edges. pe_target e = v \<longrightarrow> \<not> P (pe_source e))"
  by (auto simp: incoming_def filter_empty_conv)

lemma incoming_step:
  assumes "n \<notin> set old"
  shows "incoming (\<lambda>u. u \<notin> set (old @ [n])) edges v
    = incoming (\<lambda>u. u \<notin> set old) edges v - int (count_list (targets edges n) v)"
  using assms by (induction edges) (auto simp: incoming_def targets_def)

lemma targets_bound: "int (count_list (targets edges n) v) \<le> incoming P edges v" if "P n"
  using that by (induction edges) (auto simp: incoming_def targets_def)

lemma topological_snoc:
  assumes "topological edges old" and "incoming (\<lambda>u. u \<notin> set old) edges n = 0"
  shows "topological edges (old @ [n])"
  using assms by (auto simp: topological_def incoming_zero nth_append less_Suc_eq)

lemma drain_inv_step:
  assumes inv: "drain_inv edges K old (rest @ [n])" and succs: "set (targets edges n) \<subseteq> K"
    and new: "distinct new"
      "set new = {v \<in> set (targets edges n). incoming (\<lambda>u. u \<notin> set old) edges v = int (count_list (targets edges n) v)}"
  shows "drain_inv edges K (old @ [n]) (rest @ new)"
proof -
  have n: "n \<notin> set old" "n \<in> K" "incoming (\<lambda>u. u \<notin> set old) edges n = 0"
    using inv by (auto simp: drain_inv_def)
  note step = incoming_step [OF n(1)]
  have pos: "0 < incoming (\<lambda>u. u \<notin> set old) edges v" if v: "v \<in> set (targets edges n)" for v
  proof -
    have "0 < int (count_list (targets edges n) v)" using v by (meson count_list_0_iff not_gr0 of_nat_0_less_iff)
    also have "\<dots> \<le> incoming (\<lambda>u. u \<notin> set old) edges v" by (rule targets_bound) (rule n(1))
    finally show ?thesis .
  qed
  have fresh: "set new \<inter> set (old @ rest @ [n]) = {}"
  proof (intro equals0I, elim IntE)
    fix v assume "v \<in> set new" and old: "v \<in> set (old @ rest @ [n])"
    then have "v \<in> set (targets edges n)" using new(2) by blast
    then have "0 < incoming (\<lambda>u. u \<notin> set old) edges v" "v \<in> K" using pos succs by auto
    with inv old show False by (auto simp: drain_inv_def)
  qed
  have "v \<in> K \<Longrightarrow> incoming (\<lambda>u. u \<notin> set (old @ [n])) edges v = 0 \<longleftrightarrow> v \<in> set ((old @ [n]) @ rest @ new)" for v
  proof (cases "v \<in> set (targets edges n)")
    case True
    assume "v \<in> K"
    then have "v \<notin> set (old @ rest @ [n])" using pos [OF True] inv by (auto simp: drain_inv_def)
    then show ?thesis using True new(2) step [of edges v] by auto
  next
    case False
    assume "v \<in> K"
    then show ?thesis using False inv new(2) step [of edges v] by (auto simp: drain_inv_def)
  qed
  then show ?thesis
    using inv fresh new(1,2) succs n topological_snoc [OF _ n(3)]
    unfolding drain_inv_def by (intro conjI) (auto simp del: in_set_conv_nth)
qed

lemma drain_ok:
  assumes "table succs K (targets edges)" and "\<forall>e \<in> set edges. edge_ok K e"
    and "drain_inv edges K old ready" and "table indeg K (incoming (\<lambda>u. u \<notin> set old) edges)"
  shows "\<exists>old'. drain succs indeg ready (length old) = Inr (length old') \<and> drain_inv edges K old' []"
  using assms
proof (induction succs indeg ready "length old" arbitrary: old rule: drain.induct)
  case (1 succs indeg ready)
  show ?case
  proof (cases "ready = []")
    case True
    with 1(4) show ?thesis by (subst drain.simps) auto
  next
    case False
    define n where "n = last ready"
    define rest where "rest = butlast ready"
    have ready: "ready = rest @ [n]" using False by (simp add: n_def rest_def)
    have n: "n \<in> K" "n \<notin> set old" using 1(4) ready by (auto simp: drain_inv_def)
    have sub: "set (targets edges n) \<subseteq> K" using 1(3) by (auto simp: targets_def edge_ok_def)
    have bnd: "\<forall>s \<in> set (targets edges n). int (count_list (targets edges n) s) \<le> incoming (\<lambda>u. u \<notin> set old) edges s"
      using targets_bound [where P = "\<lambda>u. u \<notin> set old" and n = n] n(2) by auto
    from release_ok [OF 1(5) sub bnd, of rest] obtain indeg' new where
      r: "release (targets edges n) indeg rest = Inr (indeg', rest @ new)" "distinct new"
        "set new = {v \<in> set (targets edges n). incoming (\<lambda>u. u \<notin> set old) edges v = int (count_list (targets edges n) v)}"
        "table indeg' K (\<lambda>v. incoming (\<lambda>u. u \<notin> set old) edges v - int (count_list (targets edges n) v))"
      by blast
    have inv: "drain_inv edges K (old @ [n]) (rest @ new)"
      using 1(4) sub r(2,3) unfolding ready by (rule drain_inv_step)
    have tab: "table indeg' K (incoming (\<lambda>u. u \<notin> set (old @ [n])) edges)"
      using r(4) by (simp only: incoming_step [OF n(2), abs_def])
    have it: "dict_item succs (last ready) no_key = Inr (targets edges n)"
      using table_get [OF 1(2) n(1)] by (simp add: n_def)
    have rel: "release (targets edges n) indeg (butlast ready) = Inr (indeg', rest @ new)"
      using r(1) by (simp add: rest_def)
    have "\<exists>old'. drain succs (fst (indeg', rest @ new)) (snd (indeg', rest @ new)) (length (old @ [n])) = Inr (length old')
        \<and> drain_inv edges K old' []"
      by (rule 1(1) [OF False it rel]) (use 1(2,3) inv tab in auto)
    then show ?thesis using it rel False by (subst drain.simps) (simp add: dict_item_def)
  qed
qed

section \<open>Acceptance\<close>

definition edge_rel :: "plan_edge list \<Rightarrow> node_id rel" where
  "edge_rel edges = (\<lambda>e. (pe_source e, pe_target e)) ` set edges"

lemma topological_acyclic:
  assumes "topological edges order" and "distinct order" and "pe_target ` set edges \<subseteq> set order"
  shows "acyclic (edge_rel edges)"
proof -
  define rank where "rank v = length (takeWhile (\<lambda>u. u \<noteq> v) order)" for v
  have rank: "rank (order ! i) = i" if "i < length order" for i
    unfolding rank_def using that assms(2)
    by (intro takeWhile_eq_take_P_nth [THEN arg_cong [where f = length], THEN trans])
       (auto simp: nth_eq_iff_index_eq)
  have "rank (pe_source e) < rank (pe_target e)" if e: "e \<in> set edges" for e
  proof -
    from e assms(3) obtain i where i: "i < length order" "pe_target e = order ! i"
      by (metis image_subset_iff in_set_conv_nth)
    with e assms(1) have "pe_source e \<in> set (take i order)" by (simp add: topological_def)
    then obtain j where "j < i" "pe_source e = order ! j" using i(1) by (auto simp: in_set_conv_nth)
    with i rank show ?thesis by simp
  qed
  then have "edge_rel edges \<subseteq> measure rank" by (auto simp: edge_rel_def)
  then have "wf (edge_rel edges)" by (rule wf_subset [OF wf_measure])
  then show ?thesis by (rule wf_acyclic)
qed

lemma stuck_cyclic:
  assumes "finite S" and "S \<noteq> {}" and "\<forall>v \<in> S. \<exists>u \<in> S. (u, v) \<in> R"
  shows "\<not> acyclic R"
proof
  assume "acyclic R"
  then have "acyclic (R \<inter> S \<times> S)" by (rule acyclic_subset) simp
  moreover have "finite (R \<inter> S \<times> S)" using assms(1) by simp
  ultimately have "wf (R \<inter> S \<times> S)" by (simp add: finite_acyclic_wf)
  with assms(2) obtain v where "v \<in> S" "\<forall>u. (u, v) \<in> R \<inter> S \<times> S \<longrightarrow> u \<notin> S"
    by (metis ex_in_conv wf_eq_minimal)
  with assms(3) show False by blast
qed

text \<open>What a plan's constructor promises about its graph.\<close>

definition dag_spec :: "plan_node list \<Rightarrow> plan_edge list \<Rightarrow> unit res" where
  "dag_spec nodes edges =
     (if \<not> distinct (map pn_id nodes) then Inl (ValueError ''plan contains duplicate node ids'')
      else case find (\<lambda>e. \<not> edge_ok (pn_id ` set nodes) e) edges of
        Some e \<Rightarrow> Inl (edge_error e)
      | None \<Rightarrow> if acyclic (edge_rel edges) then Inr () else Inl (ValueError ''plan contains a cycle''))"

lemma drained_iff_acyclic:
  assumes inv: "drain_inv edges (set ids) old []" and "distinct ids" and ok: "\<forall>e \<in> set edges. edge_ok (set ids) e"
  shows "length old = length ids \<longleftrightarrow> acyclic (edge_rel edges)"
proof
  have old: "distinct old" "set old \<subseteq> set ids" "topological edges old"
    "\<And>v. v \<in> set ids \<Longrightarrow> incoming (\<lambda>u. u \<notin> set old) edges v = 0 \<longleftrightarrow> v \<in> set old"
    using inv by (auto simp: drain_inv_def)
  show "acyclic (edge_rel edges)" if "length old = length ids"
  proof (rule topological_acyclic [OF old(3,1)])
    have "set old = set ids" using that assms(2) old(1,2)
      by (metis List.finite_set card_subset_eq distinct_card)
    then show "pe_target ` set edges \<subseteq> set old" using ok by (auto simp: edge_ok_def)
  qed
  show "length old = length ids" if ac: "acyclic (edge_rel edges)"
  proof (rule ccontr)
    assume "length old \<noteq> length ids"
    then have "set ids - set old \<noteq> {}" using assms(2) old(1,2)
      by (metis Diff_eq_empty_iff distinct_card subset_antisym)
    moreover have "\<exists>u \<in> set ids - set old. (u, v) \<in> edge_rel edges" if "v \<in> set ids - set old" for v
    proof -
      from that old(4) have "incoming (\<lambda>u. u \<notin> set old) edges v \<noteq> 0" by blast
      then obtain e where "e \<in> set edges" "pe_target e = v" "pe_source e \<notin> set old"
        by (auto simp: incoming_zero)
      with ok show ?thesis by (force simp: edge_rel_def edge_ok_def)
    qed
    ultimately have "\<not> acyclic (edge_rel edges)" by (intro stuck_cyclic [of "set ids - set old"]) auto
    with ac show False by simp
  qed
qed

lemma validate_dag_graph:
  assumes d: "distinct ids" and ok: "\<forall>e \<in> set edges. edge_ok (set ids) e"
  shows "\<exists>succs indeg visited. link_edges (set ids) edges (map (\<lambda>i. (i, [])) ids) (map (\<lambda>i. (i, 0)) ids) = Inr (succs, indeg)
    \<and> drain succs indeg (map fst (filter (\<lambda>kd. snd kd = 0) indeg)) 0 = Inr visited
    \<and> (visited = length ids \<longleftrightarrow> acyclic (edge_rel edges))"
proof -
  have "distinct (dict_keys (map (\<lambda>i. (i, 0 :: int)) ids))" using d by (simp add: comp_def)
  from link_edges_ok [OF ok table_init [where c = "[]"] table_init this] obtain succs indeg where
    l: "link_edges (set ids) edges (map (\<lambda>i. (i, [])) ids) (map (\<lambda>i. (i, 0)) ids) = Inr (succs, indeg)"
      "table succs (set ids) (targets edges)" "table indeg (set ids) (incoming (\<lambda>_. True) edges)"
      "distinct (dict_keys indeg)" by auto
  let ?ready = "map fst (filter (\<lambda>kd. snd kd = 0) indeg)"
  have mem: "v \<in> set ?ready \<longleftrightarrow> v \<in> set ids \<and> incoming (\<lambda>_. True) edges v = 0" for v
  proof -
    have "v \<in> set ?ready \<longleftrightarrow> dict_get indeg v = Some 0" using dict_get_iff_mem [OF l(4), of v 0] by force
    then show ?thesis using l(3) by (auto simp: table_def)
  qed
  have dr: "distinct ?ready" using l(4) by (simp add: distinct_map_filter)
  have "drain_inv edges (set ids) [] ?ready"
    unfolding drain_inv_def using dr mem by (auto simp: topological_def)
  from drain_ok [OF l(2) ok this] l(3) obtain old where
    "drain succs indeg ?ready 0 = Inr (length old)" "drain_inv edges (set ids) old []" by auto
  with drained_iff_acyclic [OF _ d ok] l(1) show ?thesis by blast
qed

lemma validate_dag_refines: "validate_dag nodes edges = dag_spec nodes edges"
proof (cases "distinct (map pn_id nodes)")
  case d: True
  let ?ids = "map pn_id nodes"
  show ?thesis
  proof (cases "find (\<lambda>e. \<not> edge_ok (set ?ids) e) edges")
    case None
    then have "\<forall>e \<in> set edges. edge_ok (set ?ids) e" by (simp add: find_None_iff)
    from validate_dag_graph [OF d this] d None distinct_card [OF d] show ?thesis
      by (auto simp: validate_dag_def dag_spec_def)
  next
    case (Some e)
    from link_edges_bad [OF Some table_init table_init] d Some distinct_card [OF d] show ?thesis
      by (auto simp: validate_dag_def dag_spec_def)
  qed
next
  case False
  then have "card (set (map pn_id nodes)) \<noteq> length (map pn_id nodes)" using card_distinct by blast
  then show ?thesis using False by (simp add: validate_dag_def dag_spec_def Let_def)
qed

section \<open>Plans that exist\<close>

definition plan_ok :: "plan \<Rightarrow> bool" where
  "plan_ok p \<longleftrightarrow> 0 \<le> pl_revision p \<and> distinct (map pn_id (pl_nodes p))
     \<and> (\<forall>e \<in> set (pl_edges p). edge_ok (pn_id ` set (pl_nodes p)) e) \<and> acyclic (edge_rel (pl_edges p))"

lemma dag_spec_Inr:
  "dag_spec nodes edges = Inr u \<longleftrightarrow> distinct (map pn_id nodes)
     \<and> (\<forall>e \<in> set edges. edge_ok (pn_id ` set nodes) e) \<and> acyclic (edge_rel edges)"
  by (auto simp: dag_spec_def find_None_iff find_Some_iff split: option.splits)

lemma mk_plan_Inr: "mk_plan p = Inr p' \<longleftrightarrow> p' = p \<and> plan_ok p"
  by (auto simp: mk_plan_def bindE_eq_Inr validate_dag_refines dag_spec_Inr plan_ok_def not_less)

section \<open>Changes of a plan\<close>

text \<open>The kind of an operation is a plain string at run time: any other text is refused.\<close>

record plan_operation =
  po_kind :: string
  po_node :: "plan_node option"
  po_node_id :: "node_id option"
  po_edge :: "plan_edge option"

definition expected_target :: "plan_operation \<Rightarrow> (string, bool list) dict" where
  "expected_target p =
     [(''add_node'', [po_node p \<noteq> None, po_node_id p = None, po_edge p = None]),
      (''remove_node'', [po_node p = None, po_node_id p \<noteq> None, po_edge p = None]),
      (''add_edge'', [po_node p = None, po_node_id p = None, po_edge p \<noteq> None]),
      (''remove_edge'', [po_node p = None, po_node_id p = None, po_edge p \<noteq> None])]"

definition mk_plan_operation :: "plan_operation \<Rightarrow> plan_operation res" where
  "mk_plan_operation p =
     bindE (raise_if (case dict_get (expected_target p) (po_kind p) of None \<Rightarrow> True | Some bs \<Rightarrow> \<not> list_all id bs)
       (ValueError ''plan operation must carry exactly the target required by its kind'')) (\<lambda>_. Inr p)"

definition add_node :: "plan_node \<Rightarrow> plan_operation res" where
  "add_node n = mk_plan_operation \<lparr>po_kind = ''add_node'', po_node = Some n, po_node_id = None, po_edge = None\<rparr>"

definition remove_node :: "node_id \<Rightarrow> plan_operation res" where
  "remove_node i = mk_plan_operation \<lparr>po_kind = ''remove_node'', po_node = None, po_node_id = Some i, po_edge = None\<rparr>"

definition add_edge :: "plan_edge \<Rightarrow> plan_operation res" where
  "add_edge e = mk_plan_operation \<lparr>po_kind = ''add_edge'', po_node = None, po_node_id = None, po_edge = Some e\<rparr>"

definition remove_edge :: "plan_edge \<Rightarrow> plan_operation res" where
  "remove_edge e = mk_plan_operation \<lparr>po_kind = ''remove_edge'', po_node = None, po_node_id = None, po_edge = Some e\<rparr>"

text \<open>The operations that exist are the images of the four class methods.\<close>

lemma mk_plan_operation_Inr:
  "mk_plan_operation p = Inr p' \<longleftrightarrow> p' = p \<and>
     ((\<exists>n. p = \<lparr>po_kind = ''add_node'', po_node = Some n, po_node_id = None, po_edge = None\<rparr>)
    \<or> (\<exists>i. p = \<lparr>po_kind = ''remove_node'', po_node = None, po_node_id = Some i, po_edge = None\<rparr>)
    \<or> (\<exists>k e. k \<in> {''add_edge'', ''remove_edge''} \<and>
         p = \<lparr>po_kind = k, po_node = None, po_node_id = None, po_edge = Some e\<rparr>))"
proof (cases p)
  case (fields k n i e)
  show ?thesis
    unfolding fields mk_plan_operation_def bindE_eq_Inr expected_target_def
    by (cases n; cases i; cases e) auto
qed

record plan_delta =
  pd_expected_revision :: int
  pd_operations :: "plan_operation list"

definition mk_plan_delta :: "plan_delta \<Rightarrow> plan_delta res" where
  "mk_plan_delta d =
     bindE (raise_if (pd_expected_revision d < 0) (ValueError ''expected_revision must not be negative'')) (\<lambda>_.
     bindE (raise_if (pd_operations d = []) (ValueError ''operations must contain at least one operation'')) (\<lambda>_. Inr d))"

section \<open>Properties\<close>

text \<open>
  C1. The constructor of a plan accepts a graph exactly when its identifiers are
  distinct, its edges join two different nodes of the plan and it has no cycle;
  otherwise it raises the error of the first of these that fails, and no
  \<open>KeyError\<close> escapes from the loops, which always end.
\<close>

theorem plan_accepts_exactly_dags:
  "mk_plan p =
     bindE (raise_if (pl_revision p < 0) (ValueError ''revision must not be negative'')) (\<lambda>_.
     bindE (dag_spec (pl_nodes p) (pl_edges p)) (\<lambda>_. Inr p))"
  by (simp add: mk_plan_def validate_dag_refines)

end
