(* ===== verification/Text.thy ===== *)
theory Text
  imports Kernel
begin

text \<open>
  The texts the codecs exchange: fixed-width numerals, the canonical text of a
  UUID with the reading of \<open>UUID(text)\<close>, and \<open>datetime.isoformat\<close> with the
  reading of \<open>datetime.fromisoformat\<close> over the proleptic Gregorian calendar.
  The reader takes the grammar \<open>isoformat\<close> writes and the suffix \<open>Z\<close>; the other
  spellings of ISO 8601 that the library also reads are outside the model.
\<close>

section \<open>Fixed-width numerals\<close>

fun digit_val :: "char \<Rightarrow> nat option" where
  "digit_val c = (let n = of_char c :: nat in
     if 48 \<le> n \<and> n \<le> 57 then Some (n - 48)
     else if 97 \<le> n \<and> n \<le> 102 then Some (n - 87)
     else if 65 \<le> n \<and> n \<le> 70 then Some (n - 55)
     else None)"

definition hex_char :: "nat \<Rightarrow> char" where
  "hex_char d = ''0123456789abcdef'' ! d"

fun fixed :: "nat \<Rightarrow> nat \<Rightarrow> nat \<Rightarrow> string" where
  "fixed b 0 n = []"
| "fixed b (Suc k) n = fixed b k (n div b) @ [hex_char (n mod b)]"

fun take_num :: "nat \<Rightarrow> nat \<Rightarrow> nat \<Rightarrow> string \<Rightarrow> (nat \<times> string) option" where
  "take_num b 0 acc s = Some (acc, s)"
| "take_num b (Suc k) acc [] = None"
| "take_num b (Suc k) acc (c # cs) =
     (case digit_val c of
        None \<Rightarrow> None
      | Some d \<Rightarrow> if d < b then take_num b k (acc * b + d) cs else None)"

lemma below_16: "(d::nat) < 16 \<Longrightarrow> d \<in> {0,1,2,3,4,5,6,7,8,9,10,11,12,13,14,15}"
  unfolding insert_iff empty_iff by presburger

lemma digit_val_hex_char: "d < 16 \<Longrightarrow> digit_val (hex_char d) = Some d"
  by (drule below_16, elim insertE) (simp_all add: hex_char_def Let_def)

lemma length_fixed [simp]: "length (fixed b k n) = k"
  by (induction k arbitrary: n) auto

lemma fixed_digits: "0 < b \<Longrightarrow> b \<le> 16 \<Longrightarrow> c \<in> set (fixed b k n) \<Longrightarrow> \<exists>d < b. c = hex_char d"
  by (induction k arbitrary: n) (auto intro: mod_less_divisor)

lemma take_num_snoc:
  assumes "length s = k" and "take_num b k acc (s @ [c] @ t) = Some (a, [c] @ t)"
    and "digit_val c = Some d" and "d < b"
  shows "take_num b (Suc k) acc (s @ [c] @ t) = Some (a * b + d, t)"
  using assms
proof (induction k arbitrary: s acc)
  case 0
  then show ?case by simp
next
  case (Suc k)
  then obtain x s' where s: "s = x # s'" "length s' = k" by (cases s) auto
  with Suc.prems(2) obtain e where e: "digit_val x = Some e" "e < b"
      "take_num b k (acc * b + e) (s' @ [c] @ t) = Some (a, [c] @ t)"
    by (auto split: option.splits if_splits simp del: digit_val.simps)
  from Suc.IH [OF s(2) e(3) Suc.prems(3,4)] s(1) e(1,2) show ?case
    by (simp del: digit_val.simps)
qed

lemma take_num_fixed:
  assumes "0 < b" "b \<le> 16" "n < b ^ k"
  shows "take_num b k acc (fixed b k n @ t) = Some (acc * b ^ k + n, t)"
  using assms(3)
proof (induction k arbitrary: n t)
  case 0
  then show ?case by simp
next
  case (Suc k)
  from Suc.prems have "n div b < b ^ k"
    using assms(1) by (simp add: less_mult_imp_div_less mult.commute)
  then have ih: "take_num b k acc (fixed b k (n div b) @ [hex_char (n mod b)] @ t)
      = Some (acc * b ^ k + n div b, [hex_char (n mod b)] @ t)"
    by (rule Suc.IH)
  have m: "n mod b < b" using assms(1) by simp
  then have d: "digit_val (hex_char (n mod b)) = Some (n mod b)"
    using assms(2) by (intro digit_val_hex_char) simp
  have "take_num b (Suc k) acc (fixed b k (n div b) @ [hex_char (n mod b)] @ t)
      = Some ((acc * b ^ k + n div b) * b + n mod b, t)"
    by (rule take_num_snoc [OF _ ih d m]) simp
  moreover have "(acc * b ^ k + n div b) * b + n mod b = acc * b ^ Suc k + n"
    by (simp add: algebra_simps)
  ultimately show ?case by simp
qed

section \<open>UUID text\<close>

definition uuid_text :: "uuid \<Rightarrow> string" where
  "uuid_text u = (let h = fixed 16 32 (unat (uuid_int u)) in
     take 8 h @ ''-'' @ take 4 (drop 8 h) @ ''-'' @ take 4 (drop 12 h) @ ''-''
       @ take 4 (drop 16 h) @ ''-'' @ drop 20 h)"

text \<open>\<open>str.replace(pat, '')\<close> for a non-empty pattern.\<close>

fun remove_all :: "string \<Rightarrow> nat \<Rightarrow> string \<Rightarrow> string" where
  "remove_all pat skip [] = []"
| "remove_all pat (Suc skip) (c # cs) = remove_all pat skip cs"
| "remove_all pat 0 (c # cs) =
     (if take (length pat) (c # cs) = pat then remove_all pat (length pat - 1) cs
      else c # remove_all pat 0 cs)"

definition strip_braces :: "string \<Rightarrow> string" where
  "strip_braces s = (let b = (\<lambda>c. c = CHR ''{'' \<or> c = CHR ''}'')
     in rev (dropWhile b (rev (dropWhile b s))))"

text \<open>\<open>int(text, 16)\<close>: white space around, a sign, a prefix, single underscores between digits.\<close>

fun parse_hex :: "bool \<Rightarrow> nat \<Rightarrow> string \<Rightarrow> nat option" where
  "parse_hex after_digit acc [] = (if after_digit then Some acc else None)"
| "parse_hex after_digit acc (c # cs) =
     (if c = CHR ''_'' then (if after_digit then parse_hex False acc cs else None)
      else case digit_val c of None \<Rightarrow> None | Some d \<Rightarrow> parse_hex True (acc * 16 + d) cs)"

fun drop_hex_prefix :: "string \<Rightarrow> string" where
  "drop_hex_prefix (z # x # r) =
     (if z = CHR ''0'' \<and> (x = CHR ''x'' \<or> x = CHR ''X'')
      then (case r of c # r' \<Rightarrow> if c = CHR ''_'' then r' else r | [] \<Rightarrow> [])
      else z # x # r)"
| "drop_hex_prefix s = s"

fun parse_int16 :: "string \<Rightarrow> int option" where
  "parse_int16 s = (case strip s of
       [] \<Rightarrow> None
     | c # r \<Rightarrow>
         if c = CHR ''-'' then map_option (\<lambda>n. - int n) (parse_hex False 0 (drop_hex_prefix r))
         else map_option int (parse_hex False 0
                (drop_hex_prefix (if c = CHR ''+'' then r else c # r))))"

definition parse_uuid :: "string \<Rightarrow> uuid res" where
  "parse_uuid text =
     (let hex = filter (\<lambda>c. c \<noteq> CHR ''-'')
                  (strip_braces (remove_all ''uuid:'' 0 (remove_all ''urn:'' 0 text)))
      in if length hex \<noteq> 32 then Inl (ValueError ''badly formed hexadecimal UUID string'')
         else case parse_int16 hex of
             None \<Rightarrow> Inl (ValueError ''invalid literal for int() with base 16'')
           | Some n \<Rightarrow> if n < 0 \<or> 2 ^ 128 \<le> n
               then Inl (ValueError ''int is out of range (need a 128-bit value)'')
               else Inr (UUID (of_int n)))"

lemma remove_all_id: "pat \<noteq> [] \<Longrightarrow> hd pat \<notin> set s \<Longrightarrow> remove_all pat 0 s = s"
  by (induction s) (cases pat, auto)+

lemma dropWhile_none: "\<forall>c \<in> set s. \<not> P c \<Longrightarrow> dropWhile P s = s"
  by (cases s) auto

lemma strip_id: "\<forall>c \<in> set s. \<not> is_space c \<Longrightarrow> strip s = s"
  by (simp add: strip_def dropWhile_none)

lemma strip_braces_id: "CHR ''{'' \<notin> set s \<Longrightarrow> CHR ''}'' \<notin> set s \<Longrightarrow> strip_braces s = s"
  unfolding strip_braces_def Let_def by (subst dropWhile_none, force)+ simp

lemma hex_char_enum: "d < 16 \<Longrightarrow> hex_char d \<in> set ''0123456789abcdef''"
  unfolding hex_char_def by (rule nth_mem) simp

lemma hex_char_facts:
  assumes "d < 16"
  shows "\<not> is_space (hex_char d)" "hex_char d \<notin> set ''-+_{}xXu''"
  using hex_char_enum [OF assms] by (auto simp: is_space_def)

lemma parse_hex_take_num:
  "take_num 16 k acc s = Some (n, []) \<Longrightarrow> CHR ''_'' \<notin> set s \<Longrightarrow> 0 < k \<Longrightarrow> parse_hex a acc s = Some n"
proof (induction k arbitrary: a acc s)
  case 0
  then show ?case by simp
next
  case (Suc k)
  then obtain c cs d where s: "s = c # cs" "digit_val c = Some d"
      "take_num 16 k (acc * 16 + d) cs = Some (n, [])"
    by (cases s) (auto split: option.splits if_splits simp del: digit_val.simps)
  show ?case
  proof (cases k)
    case 0
    with s Suc.prems show ?thesis by (auto simp del: digit_val.simps)
  next
    case (Suc j)
    with Suc.IH [OF s(3), of True] s Suc.prems show ?thesis by (auto simp del: digit_val.simps)
  qed
qed

lemma fixed_no:
  assumes "c \<in> set (fixed 16 k n)"
  shows "\<not> is_space c \<and> c \<notin> set ''-+_{}xXu''"
proof -
  obtain d where "d < 16" "c = hex_char d" using fixed_digits [OF _ _ assms] by auto
  then show ?thesis using hex_char_facts by blast
qed

lemma parse_int16_fixed:
  assumes "n < 16 ^ k" "1 < k"
  shows "parse_int16 (fixed 16 k n) = Some (int n)"
proof -
  let ?s = "fixed 16 k n"
  have sp: "strip ?s = ?s" by (rule strip_id) (use fixed_no in blast)
  obtain c x r where s: "?s = c # x # r"
    using assms(2) length_fixed [of 16 k n]
    by (metis (no_types, lifting) One_nat_def length_0_conv length_Cons less_numeral_extra(4) list.exhaust not_one_less_zero)
  have "c \<notin> set ''-+_{}xXu''" "x \<notin> set ''-+_{}xXu''"
    using s fixed_no [of c k n] fixed_no [of x k n] by auto
  then have "drop_hex_prefix (c # x # r) = c # x # r" "c \<noteq> CHR ''-''" "c \<noteq> CHR ''+''"
    by auto
  moreover have "parse_hex False 0 ?s = Some n"
  proof (rule parse_hex_take_num)
    show "take_num 16 k 0 ?s = Some (n, [])"
      using take_num_fixed [of 16 n k 0 "[]"] assms by simp
    show "CHR ''_'' \<notin> set ?s" using fixed_no by fastforce
  qed (use assms in simp)
  ultimately show ?thesis using s sp by simp
qed

theorem parse_uuid_text: "parse_uuid (uuid_text u) = Inr u"
proof -
  let ?n = "unat (uuid_int u)"
  let ?h = "fixed 16 32 ?n"
  have n: "?n < 16 ^ 32" using unsigned_less [of "uuid_int u", where 'a = nat] by simp
  have no: "c \<notin> set ''+_{}xXu'' \<and> (c \<noteq> CHR ''-'' \<longrightarrow> c \<in> set ?h)"
    if "c \<in> set (uuid_text u)" for c
    using that fixed_no [of c 32 ?n]
    by (auto simp: uuid_text_def Let_def dest: in_set_takeD in_set_dropD)
  have "remove_all ''urn:'' 0 (uuid_text u) = uuid_text u"
    "remove_all ''uuid:'' 0 (uuid_text u) = uuid_text u"
    by (rule remove_all_id; use no in fastforce)+
  moreover have "strip_braces (uuid_text u) = uuid_text u"
    by (rule strip_braces_id) (use no in fastforce)+
  moreover have "filter (\<lambda>c. c \<noteq> CHR ''-'') (uuid_text u) = ?h"
  proof -
    have dash: "filter (\<lambda>c. c \<noteq> CHR ''-'') t = t" if "set t \<subseteq> set ?h" for t
      using that fixed_no by (fastforce simp: filter_id_conv)
    have parts: "filter (\<lambda>c. c \<noteq> CHR ''-'') (take i (drop j ?h)) = take i (drop j ?h)"
      "filter (\<lambda>c. c \<noteq> CHR ''-'') (drop j ?h) = drop j ?h" for i j
      by (rule dash; meson subset_trans set_take_subset set_drop_subset)+
    have "filter (\<lambda>c. c \<noteq> CHR ''-'') (uuid_text u)
        = take 8 ?h @ take 4 (drop 8 ?h) @ take 4 (drop 12 ?h) @ take 4 (drop 16 ?h) @ drop 20 ?h"
      using parts(1) [of 8 0] by (simp add: uuid_text_def Let_def parts)
    also have "\<dots> = ?h"
      using append_take_drop_id [of 4 "drop 8 ?h"] append_take_drop_id [of 4 "drop 12 ?h"]
        append_take_drop_id [of 4 "drop 16 ?h"] append_take_drop_id [of 8 ?h] by simp
    finally show ?thesis .
  qed
  moreover have "parse_int16 ?h = Some (int ?n)"
    by (rule parse_int16_fixed [OF n]) simp
  ultimately show ?thesis
    using unsigned_less [of "uuid_int u", where 'a = int]
    by (cases u) (simp add: parse_uuid_def Let_def word_of_int_uint not_le del: parse_int16.simps)
qed

end
