(* ===== verification/Calendar.thy ===== *)
theory Calendar
  imports Text "HOL-Library.Monad_Syntax"
begin

text \<open>
  \<open>datetime.isoformat\<close> and \<open>datetime.fromisoformat\<close>: the wall clock of a date is
  split into a day of the proleptic Gregorian calendar and a time of day, printed
  and read back. The main fact is that reading returns the printed value.
\<close>

section \<open>Years and months\<close>

definition leap :: "nat \<Rightarrow> bool" where
  "leap y \<longleftrightarrow> y mod 4 = 0 \<and> (y mod 100 \<noteq> 0 \<or> y mod 400 = 0)"

text \<open>The days of the first \<open>p\<close> years, and how many whole years the first \<open>k\<close> days fill.\<close>

definition days_before :: "nat \<Rightarrow> nat" where
  "days_before p = p * 365 + p div 4 + p div 400 - p div 100"

lemma days_before_Suc:
  "days_before (Suc p) = days_before p + (if leap (Suc p) then 366 else 365)"
proof -
  define a b c where "a = p div 4" and "b = p div 100" and "c = p div 400"
  have le: "b \<le> p * 365" unfolding b_def by (rule le_trans [of _ p]) auto
  have dv: "Suc p mod 400 = 0 \<Longrightarrow> Suc p mod 100 = 0" "Suc p mod 100 = 0 \<Longrightarrow> Suc p mod 4 = 0"
    by presburger+
  have s: "days_before (Suc p) = 365 + p * 365 + (if Suc p mod 4 = 0 then Suc a else a)
      + (if Suc p mod 400 = 0 then Suc c else c) - (if Suc p mod 100 = 0 then Suc b else b)"
    by (simp only: days_before_def div_Suc a_def b_def c_def mult_Suc)
  have r: "days_before p = p * 365 + a + c - b"
    by (simp only: days_before_def a_def b_def c_def)
  show ?thesis unfolding s r leap_def using le dv
    by (cases "Suc p mod 4 = 0"; cases "Suc p mod 100 = 0"; cases "Suc p mod 400 = 0") simp_all
qed

function years_from :: "nat \<Rightarrow> nat \<Rightarrow> nat" where
  "years_from p k = (if days_before (Suc p) \<le> k then years_from (Suc p) k else p)"
  by pat_completeness auto
termination
  by (relation "measure (\<lambda>(p, k). Suc k - days_before p)") (auto simp: days_before_Suc)

declare years_from.simps [simp del]

lemma years_from_bounds:
  "days_before p \<le> k \<Longrightarrow> days_before (years_from p k) \<le> k \<and> k < days_before (Suc (years_from p k))"
proof (induction p k rule: years_from.induct)
  case (1 p k)
  then show ?case by (cases "days_before (Suc p) \<le> k") (simp_all add: years_from.simps [of p k])
qed

lemma days_before_mono: "p \<le> q \<Longrightarrow> days_before p \<le> days_before q"
  by (rule lift_Suc_mono_le) (simp add: days_before_Suc)

lemma days_before_le: "days_before p \<le> p * 366"
  by (induction p) (auto simp: days_before_Suc, simp add: days_before_def)

definition year_of_day :: "nat \<Rightarrow> nat" where
  "year_of_day k = years_from (k div 366) k"

lemma year_of_day_bounds:
  "days_before (year_of_day k) \<le> k \<and> k < days_before (Suc (year_of_day k))"
proof -
  have "days_before (k div 366) \<le> k div 366 * 366" by (rule days_before_le)
  also have "\<dots> \<le> k" by simp
  finally show ?thesis unfolding year_of_day_def by (rule years_from_bounds)
qed

definition month_lengths :: "nat \<Rightarrow> nat list" where
  "month_lengths y = [31, if leap y then 29 else 28, 31, 30, 31, 30, 31, 31, 30, 31, 30, 31]"

fun split_days :: "nat list \<Rightarrow> nat \<Rightarrow> nat \<times> nat" where
  "split_days [] j = (0, j)"
| "split_days (l # ls) j = (if j < l then (0, j) else let (m, d) = split_days ls (j - l) in (Suc m, d))"

lemma split_days_spec:
  "split_days ls j = (m, d) \<Longrightarrow> j < sum_list ls \<Longrightarrow>
     m < length ls \<and> d < ls ! m \<and> sum_list (take m ls) + d = j"
proof (induction ls arbitrary: j m)
  case Nil
  then show ?case by simp
next
  case (Cons l ls)
  show ?case
  proof (cases "j < l")
    case True
    with Cons.prems show ?thesis by auto
  next
    case False
    then obtain m' where m': "split_days ls (j - l) = (m', d)" "m = Suc m'"
      using Cons.prems(1) by (auto split: prod.splits)
    from Cons.prems(2) False have "j - l < sum_list ls" by simp
    from Cons.IH [OF m'(1) this] False m'(2) show ?thesis by auto
  qed
qed

lemma sum_month_lengths: "days_before (Suc p) = days_before p + sum_list (month_lengths (Suc p))"
  by (simp add: days_before_Suc month_lengths_def)

text \<open>Year, month and day of the \<open>k\<close>-th day, counting from 0001-01-01, and back.\<close>

definition civil_of_day :: "nat \<Rightarrow> nat \<times> nat \<times> nat" where
  "civil_of_day k = (let p = year_of_day k; (m, d) = split_days (month_lengths (Suc p)) (k - days_before p)
     in (Suc p, Suc m, Suc d))"

definition day_of_civil :: "nat \<Rightarrow> nat \<Rightarrow> nat \<Rightarrow> nat" where
  "day_of_civil y m d = days_before (y - 1) + sum_list (take (m - 1) (month_lengths y)) + (d - 1)"

definition civil_ok :: "nat \<Rightarrow> nat \<Rightarrow> nat \<Rightarrow> bool" where
  "civil_ok y m d \<longleftrightarrow> 1 \<le> y \<and> y \<le> 9999 \<and> 1 \<le> m \<and> m \<le> 12 \<and> 1 \<le> d \<and> d \<le> month_lengths y ! (m - 1)"

definition max_days :: nat where
  "max_days = 3652059"

lemma max_days_eq: "days_before 9999 = max_days"
  by (simp add: days_before_def max_days_def)

lemma civil_of_day:
  assumes "civil_of_day k = (y, m, d)"
  shows "day_of_civil y m d = k" and "k < max_days \<Longrightarrow> civil_ok y m d"
proof -
  let ?p = "year_of_day k"
  obtain i j where ij: "split_days (month_lengths (Suc ?p)) (k - days_before ?p) = (i, j)"
    by fastforce
  have b: "days_before ?p \<le> k" "k < days_before (Suc ?p)" using year_of_day_bounds by auto
  then have lt: "k - days_before ?p < sum_list (month_lengths (Suc ?p))"
    using sum_month_lengths [of ?p] by simp
  from split_days_spec [OF ij lt] have s: "i < 12" "j < month_lengths (Suc ?p) ! i"
      "sum_list (take i (month_lengths (Suc ?p))) + j = k - days_before ?p"
    by (auto simp: month_lengths_def)
  have e: "y = Suc ?p" "m = Suc i" "d = Suc j" using assms ij by (auto simp: civil_of_day_def)
  show "day_of_civil y m d = k" using s(3) b(1) by (simp add: e day_of_civil_def)
  assume "k < max_days"
  then have "Suc ?p \<le> 9999"
    using b(1) days_before_mono [of 9999 ?p] max_days_eq by (cases "9999 \<le> ?p") auto
  then show "civil_ok y m d" using s by (simp add: e civil_ok_def)
qed

section \<open>The clock\<close>

definition clock_text :: "bool \<Rightarrow> nat \<Rightarrow> string" where
  "clock_text force t =
     (let us = t mod 1000000; secs = t div 1000000; s = secs mod 60; mi = secs div 60 mod 60; h = secs div 3600
      in fixed 10 2 h @ '':'' @ fixed 10 2 mi
         @ (if force \<or> s \<noteq> 0 \<or> us \<noteq> 0 then '':'' @ fixed 10 2 s else [])
         @ (if us \<noteq> 0 then ''.'' @ fixed 10 6 us else []))"

fun expect :: "char \<Rightarrow> string \<Rightarrow> string option" where
  "expect c [] = None"
| "expect c (x # s) = (if x = c then Some s else None)"

definition clock_value :: "nat \<Rightarrow> nat \<Rightarrow> nat \<Rightarrow> nat \<Rightarrow> nat option" where
  "clock_value h mi s us = (if h < 24 \<and> mi < 60 \<and> s < 60
     then Some (((h * 60 + mi) * 60 + s) * 1000000 + us) else None)"

definition parse_clock :: "string \<Rightarrow> (nat \<times> string) option" where
  "parse_clock s0 = do {
     (h, s1) \<leftarrow> take_num 10 2 0 s0;
     s2 \<leftarrow> expect (CHR '':'') s1;
     (mi, s3) \<leftarrow> take_num 10 2 0 s2;
     (s, s5) \<leftarrow> (case expect (CHR '':'') s3 of None \<Rightarrow> Some (0, s3) | Some s4 \<Rightarrow> take_num 10 2 0 s4);
     (us, s7) \<leftarrow> (case expect (CHR ''.'') s5 of None \<Rightarrow> Some (0, s5) | Some s6 \<Rightarrow> take_num 10 6 0 s6);
     t \<leftarrow> clock_value h mi s us;
     Some (t, s7)
   }"

definition day_us :: nat where
  "day_us = 86400 * 1000000"

lemma take_num_dec: "n < 10 ^ k \<Longrightarrow> take_num 10 k 0 (fixed 10 k n @ t) = Some (n, t)"
  using take_num_fixed [of 10 n k 0 t] by simp

lemma parse_clock_text:
  assumes "t < day_us" and "expect (CHR '':'') r = None" and "expect (CHR ''.'') r = None"
  shows "parse_clock (clock_text force t @ r) = Some (t, r)"
proof -
  define us where "us = t mod 1000000"
  define s where "s = t div 1000000 mod 60"
  define mi where "mi = t div 1000000 div 60 mod 60"
  define h where "h = t div 1000000 div 3600"
  note d = us_def s_def mi_def h_def
  have b: "us < 10 ^ 6" "s < 60" "mi < 60" "h < 24"
    using assms(1) by (simp_all add: d day_us_def less_mult_imp_div_less div_mult2_eq [symmetric])
  have "h = t div 1000000 div 60 div 60" by (simp add: d div_mult2_eq [symmetric])
  then have "t = ((h * 60 + mi) * 60 + s) * 1000000 + us" by (simp add: d)
  then have v: "clock_value h mi s us = Some t" using b by (simp add: clock_value_def)
  have n: "h < 10 ^ 2" "mi < 10 ^ 2" "s < 10 ^ 2" using b by auto
  have ct: "clock_text force t = fixed 10 2 h @ '':'' @ fixed 10 2 mi
      @ (if force \<or> s \<noteq> 0 \<or> us \<noteq> 0 then '':'' @ fixed 10 2 s else [])
      @ (if us \<noteq> 0 then ''.'' @ fixed 10 6 us else [])"
    by (simp add: clock_text_def Let_def d)
  show ?thesis
    unfolding ct parse_clock_def
    using assms(2,3) v n b(1)
    by (cases "us = 0"; cases "s = 0") (auto simp: take_num_dec [of _ 2] take_num_dec [of _ 6])
qed

section \<open>ISO 8601 text\<close>

definition date_text :: "nat \<Rightarrow> string" where
  "date_text k = (case civil_of_day k of (y, m, d) \<Rightarrow>
     fixed 10 4 y @ ''-'' @ fixed 10 2 m @ ''-'' @ fixed 10 2 d)"

definition offset_text :: "int option \<Rightarrow> string" where
  "offset_text o' = (case o' of None \<Rightarrow> []
     | Some off \<Rightarrow> (if off < 0 then ''-'' else ''+'') @ clock_text False (nat \<bar>off\<bar>))"

definition isoformat :: "datetime \<Rightarrow> string" where
  "isoformat d = (let w = nat (wall d) in
     date_text (w div day_us) @ ''T'' @ clock_text True (w mod day_us) @ offset_text (utcoffset d))"

definition parse_date :: "string \<Rightarrow> (nat \<times> string) option" where
  "parse_date s0 = do {
     (y, s1) \<leftarrow> take_num 10 4 0 s0;
     s2 \<leftarrow> expect (CHR ''-'') s1;
     (m, s3) \<leftarrow> take_num 10 2 0 s2;
     s4 \<leftarrow> expect (CHR ''-'') s3;
     (d, s5) \<leftarrow> take_num 10 2 0 s4;
     if civil_ok y m d then Some (day_of_civil y m d, s5) else None
   }"

definition parse_offset :: "string \<Rightarrow> int option option" where
  "parse_offset s0 = (case s0 of [] \<Rightarrow> Some None
     | c # s1 \<Rightarrow>
         if c = CHR ''Z'' then (if s1 = [] then Some (Some 0) else None)
         else if c = CHR ''+'' \<or> c = CHR ''-'' then
           (case parse_clock s1 of None \<Rightarrow> None
             | Some (t, r) \<Rightarrow> if r = [] then Some (Some (if c = CHR ''-'' then - int t else int t)) else None)
         else None)"

definition fromisoformat :: "string \<Rightarrow> datetime res" where
  "fromisoformat s = (case (do {
       (k, s1) \<leftarrow> parse_date s;
       s2 \<leftarrow> expect (CHR ''T'') s1;
       (t, s3) \<leftarrow> parse_clock s2;
       off \<leftarrow> parse_offset s3;
       Some (DateTime (int (k * day_us + t)) off)
     }) of None \<Rightarrow> Inl (ValueError ''Invalid isoformat string'') | Some d \<Rightarrow> Inr d)"

text \<open>The values a \<open>datetime\<close> object can have.\<close>

definition valid_datetime :: "datetime \<Rightarrow> bool" where
  "valid_datetime d \<longleftrightarrow> in_range (wall d)
     \<and> (case utcoffset d of None \<Rightarrow> True | Some off \<Rightarrow> \<bar>off\<bar> < int day_us)"

lemma parse_date_text:
  assumes "k < max_days"
  shows "parse_date (date_text k @ t) = Some (k, t)"
proof -
  obtain y m d where c: "civil_of_day k = (y, m, d)" by (cases "civil_of_day k")
  note ok = civil_of_day(2) [OF c assms]
  have "month_lengths y ! (m - 1) \<le> 31"
  proof -
    have "month_lengths y ! (m - 1) \<in> set (month_lengths y)"
      using ok by (intro nth_mem) (auto simp: civil_ok_def month_lengths_def)
    then show ?thesis by (auto simp: month_lengths_def split: if_splits)
  qed
  then have "y < 10 ^ 4" "m < 10 ^ 2" "d < 10 ^ 2" using ok by (auto simp: civil_ok_def)
  then show ?thesis
    using ok civil_of_day(1) [OF c]
    by (simp add: date_text_def c parse_date_def take_num_dec [of _ 2] take_num_dec [of _ 4])
qed

lemma parse_offset_text:
  assumes "case o' of None \<Rightarrow> True | Some off \<Rightarrow> \<bar>off\<bar> < int day_us"
  shows "parse_offset (offset_text o') = Some o'"
proof (cases o')
  case None
  then show ?thesis by (simp add: offset_text_def parse_offset_def)
next
  case (Some off)
  have "parse_clock (clock_text False (nat \<bar>off\<bar>) @ []) = Some (nat \<bar>off\<bar>, [])"
    using assms Some by (intro parse_clock_text) auto
  then show ?thesis using Some by (auto simp: offset_text_def parse_offset_def)
qed

lemma offset_text_head:
  "expect (CHR '':'') (offset_text o') = None" "expect (CHR ''.'') (offset_text o') = None"
  by (auto simp: offset_text_def split: option.splits)

theorem fromisoformat_isoformat:
  assumes "valid_datetime d"
  shows "fromisoformat (isoformat d) = Inr d"
proof -
  define w where "w = nat (wall d)"
  have w: "int w = wall d" "w < max_days * day_us"
    using assms by (auto simp: w_def valid_datetime_def in_range_def max_wall_def max_days_def day_us_def)
  have k: "w div day_us < max_days" using w(2) by (simp add: less_mult_imp_div_less)
  have t: "w mod day_us < day_us" by (simp add: day_us_def)
  have "parse_clock (clock_text True (w mod day_us) @ offset_text (utcoffset d))
      = Some (w mod day_us, offset_text (utcoffset d))"
    by (rule parse_clock_text [OF t]) (simp_all add: offset_text_head)
  moreover have "parse_offset (offset_text (utcoffset d)) = Some (utcoffset d)"
    using assms by (intro parse_offset_text) (simp add: valid_datetime_def)
  moreover have "isoformat d = date_text (w div day_us) @ ''T'' @ clock_text True (w mod day_us)
      @ offset_text (utcoffset d)"
    by (simp add: isoformat_def Let_def w_def)
  moreover have "int (w div day_us * day_us + w mod day_us) = wall d"
    using w(1) by (simp only: div_mult_mod_eq)
  then have "DateTime (int (w div day_us) * int day_us + int (w mod day_us)) (utcoffset d) = d"
    by (simp only: of_nat_add of_nat_mult datetime.collapse)
  ultimately show ?thesis
    using parse_date_text [OF k] by (simp add: fromisoformat_def)
qed

end
