(* ===== verification/Json_Text.thy ===== *)
theory Json_Text
  imports Calendar "HOL-Library.List_Lexorder" "HOL-Library.Char_ord"
begin

text \<open>
  The text layers of the list cursors: \<open>base64.urlsafe_b64encode\<close> and its lenient
  decoder, and JSON text. \<open>dumps_flat\<close> is \<open>json.dumps\<close> with sorted keys and compact
  separators on a dictionary of strings, the only one the cursors write;
  \<open>json_loads\<close> reads any JSON text. Code points above 255 are outside the model:
  their UTF-8 sequences are rejected and their escapes read as \<open>?\<close>, and the value
  of a JSON number with a fraction or an exponent is kept exactly.
\<close>

section \<open>Base64\<close>

definition b64_alphabet :: string where
  "b64_alphabet = ''ABCDEFGHIJKLMNOPQRSTUVWXYZabcdefghijklmnopqrstuvwxyz0123456789-_''"

fun b64_sextets :: "nat list \<Rightarrow> nat list" where
  "b64_sextets [] = []"
| "b64_sextets [a] = [a div 4, a mod 4 * 16]"
| "b64_sextets [a, b] = [a div 4, a mod 4 * 16 + b div 16, b mod 16 * 4]"
| "b64_sextets (a # b # c # r) =
     [a div 4, a mod 4 * 16 + b div 16, b mod 16 * 4 + c div 64, c mod 64] @ b64_sextets r"

text \<open>\<open>urlsafe_b64encode\<close> pads to a multiple of four; the cursors strip the padding.\<close>

definition b64_encode :: "string \<Rightarrow> string" where
  "b64_encode s = map (\<lambda>i. b64_alphabet ! i) (b64_sextets (map of_char s))
     @ replicate (nat (- int (length s) mod 3)) (CHR ''='')"

definition rstrip_pad :: "string \<Rightarrow> string" where
  "rstrip_pad s = rev (dropWhile (\<lambda>c. c = CHR ''='') (rev s))"

fun b64_val :: "char \<Rightarrow> nat option" where
  "b64_val c = (let n = of_char c :: nat in
     if 65 \<le> n \<and> n \<le> 90 then Some (n - 65)
     else if 97 \<le> n \<and> n \<le> 122 then Some (n - 71)
     else if 48 \<le> n \<and> n \<le> 57 then Some (n + 4)
     else if n = 45 \<or> n = 43 then Some 62
     else if n = 95 \<or> n = 47 then Some 63
     else None)"

text \<open>
  The lenient decoder: characters outside the alphabet are skipped, a complete
  padding ends the input, and a partial group at the end is an error. \<open>q\<close> is the
  position in the group, \<open>l\<close> the bits left over, \<open>pads\<close> the padding seen.
\<close>

fun b64_loop :: "nat \<Rightarrow> nat \<Rightarrow> nat \<Rightarrow> string \<Rightarrow> nat list option" where
  "b64_loop q l pads [] = (if q = 0 then Some [] else None)"
| "b64_loop q l pads (c # cs) =
     (if c = CHR ''='' then
        (if 2 \<le> q \<and> 4 \<le> q + Suc pads then Some []
         else b64_loop q l (if 2 \<le> q then Suc pads else pads) cs)
      else case b64_val c of
          None \<Rightarrow> b64_loop q l pads cs
        | Some v \<Rightarrow>
            if q = 0 then b64_loop 1 v 0 cs
            else if q = 1 then map_option (Cons (l * 4 + v div 16)) (b64_loop 2 (v mod 16) 0 cs)
            else if q = 2 then map_option (Cons (l * 16 + v div 4)) (b64_loop 3 (v mod 4) 0 cs)
            else map_option (Cons (l * 64 + v)) (b64_loop 0 0 0 cs))"

definition b64_decode :: "string \<Rightarrow> nat list res" where
  "b64_decode s = (if \<exists>c \<in> set s. (of_char c :: nat) \<ge> 128
       then Inl (ValueError ''string argument should contain only ASCII characters'')
     else case b64_loop 0 0 0 s of
         None \<Rightarrow> Inl (ValueError ''Incorrect padding'')
       | Some bs \<Rightarrow> Inr bs)"

declare b64_loop.simps [simp del] b64_val.simps [simp del]

lemma alphabet_all:
  "list_all2 (\<lambda>c i. b64_val c = Some i \<and> c \<noteq> CHR ''='' \<and> (of_char c :: nat) < 128) b64_alphabet [0..<64]"
  by (simp add: b64_alphabet_def upt_conv_Cons [of 0 64] upt_conv_Cons [of "Suc 0" 64]
      numeral_2_eq_2 [symmetric] upt_rec_numeral b64_val.simps Let_def)

lemma alphabet_facts:
  assumes "i < 64"
  shows "b64_val (b64_alphabet ! i) = Some i" "b64_alphabet ! i \<noteq> CHR ''=''"
    "(of_char (b64_alphabet ! i) :: nat) < 128"
  using list_all2_nthD2 [OF alphabet_all, of i] assms by simp_all

lemma b64_loop_step:
  assumes "v < 64"
  shows "b64_loop 0 l p (b64_alphabet ! v # cs) = b64_loop 1 v 0 cs"
    "b64_loop 1 l p (b64_alphabet ! v # cs) = map_option (Cons (l * 4 + v div 16)) (b64_loop 2 (v mod 16) 0 cs)"
    "b64_loop 2 l p (b64_alphabet ! v # cs) = map_option (Cons (l * 16 + v div 4)) (b64_loop 3 (v mod 4) 0 cs)"
    "b64_loop 3 l p (b64_alphabet ! v # cs) = map_option (Cons (l * 64 + v)) (b64_loop 0 0 0 cs)"
  using alphabet_facts [OF assms] by (simp_all add: b64_loop.simps)

lemma b64_loop_end:
  "b64_loop 0 l p [] = Some []" "b64_loop 3 l 0 [CHR ''=''] = Some []"
  "b64_loop 2 l 0 [CHR ''='', CHR ''=''] = Some []"
  by (simp_all add: b64_loop.simps)

lemma sextets_bound: "(\<forall>b \<in> set bs. b < 256) \<Longrightarrow> \<forall>i \<in> set (b64_sextets bs). i < 64"
  by (induction bs rule: b64_sextets.induct) (auto; presburger)+

definition pad_of :: "nat \<Rightarrow> string" where
  "pad_of n = replicate ((3 - n mod 3) mod 3) (CHR ''='')"

lemma pad_of_short: "pad_of 0 = []" "pad_of (Suc 0) = ''==''" "pad_of (Suc (Suc 0)) = ''=''"
  by (simp_all add: pad_of_def numeral_2_eq_2)

lemma pad_of_step: "pad_of (Suc (Suc (Suc n))) = pad_of n"
proof -
  have "Suc (Suc (Suc n)) mod 3 = n mod 3" by presburger
  then show ?thesis by (simp add: pad_of_def)
qed

lemma b64_loop_sextets:
  "(\<forall>b \<in> set bs. b < 256) \<Longrightarrow>
     b64_loop 0 l p (map (\<lambda>i. b64_alphabet ! i) (b64_sextets bs) @ pad_of (length bs)) = Some bs"
proof (induction bs arbitrary: l p rule: b64_sextets.induct)
  case 1
  then show ?case by (simp add: pad_of_short b64_loop_end)
next
  case (2 a)
  then have "a div 4 < 64" "a mod 4 * 16 < 64" "a div 4 * 4 + a mod 4 * 16 div 16 = a"
    by auto
  then show ?case by (simp add: b64_loop_step b64_loop_step(2) [unfolded One_nat_def] b64_loop_end pad_of_short)
next
  case (3 a b)
  then have "a div 4 < 64" "a mod 4 * 16 + b div 16 < 64" "b mod 16 * 4 < 64"
    "a div 4 * 4 + (a mod 4 * 16 + b div 16) div 16 = a"
    "(a mod 4 * 16 + b div 16) mod 16 * 16 + b mod 16 * 4 div 4 = b"
    by auto
  then show ?case by (simp add: b64_loop_step b64_loop_step(2) [unfolded One_nat_def] b64_loop_end pad_of_short)
next
  case (4 a b c r)
  then have ih: "b64_loop 0 0 0 (map (\<lambda>i. b64_alphabet ! i) (b64_sextets r) @ pad_of (length r)) = Some r"
    by simp
  from "4.prems" have "a div 4 < 64" "a mod 4 * 16 + b div 16 < 64" "b mod 16 * 4 + c div 64 < 64"
    "c mod 64 < 64" "a div 4 * 4 + (a mod 4 * 16 + b div 16) div 16 = a"
    "(a mod 4 * 16 + b div 16) mod 16 * 16 + (b mod 16 * 4 + c div 64) div 4 = b"
    "(b mod 16 * 4 + c div 64) mod 4 * 64 + c mod 64 = c"
    by auto
  with ih show ?case by (simp add: b64_loop_step b64_loop_step(2) [unfolded One_nat_def] pad_of_step)
qed

text \<open>Stripping the padding and putting back \<open>"=" * (-len(cursor) % 4)\<close> gives the encoded text.\<close>

definition pad_cursor :: "string \<Rightarrow> string" where
  "pad_cursor c = c @ replicate (nat (- int (length c) mod 4)) (CHR ''='')"

lemma length_sextets: "length (b64_sextets bs) = (4 * length bs + 2) div 3"
  by (induction bs rule: b64_sextets.induct) auto

lemma thirds:
  obtains k where "n = 3 * k" | k where "n = 3 * k + 1" | k where "n = 3 * k + (2::nat)"
proof -
  have "n = 3 * (n div 3) + n mod 3" by simp
  moreover have "n mod 3 = 0 \<or> n mod 3 = 1 \<or> n mod 3 = 2" by linarith
  ultimately show thesis using that by (metis add.right_neutral)
qed

lemma neg_mod:
  assumes "r < m"
  shows "nat (- int (m * k + r) mod int m) = (m - r) mod m"
proof -
  have "- int (m * k + r) = int (m - r) + int m * (- int k - 1)"
    using assms by (simp add: of_nat_diff algebra_simps)
  then have "- int (m * k + r) mod int m = int ((m - r) mod m)"
    by (simp only: mod_mult_self2 zmod_int)
  then show ?thesis by (simp only: nat_int)
qed

lemma neg_mod3: "nat (- int n mod 3) = (3 - n mod 3) mod 3"
  using neg_mod [of "n mod 3" 3 "n div 3"] by (simp only: mult_div_mod_eq) simp

lemma b64_encode_pad: "b64_encode s = map (\<lambda>i. b64_alphabet ! i) (b64_sextets (map of_char s)) @ pad_of (length s)"
  by (simp only: b64_encode_def pad_of_def neg_mod3)

lemma pad_count: "nat (- int ((4 * n + 2) div 3) mod 4) = (3 - n mod 3) mod 3"
proof (cases n rule: thirds)
  case (1 k)
  then have h: "(4 * n + 2) div 3 = 4 * k + 0" "n mod 3 = 0" by simp_all
  show ?thesis using neg_mod [of 0 4 k] unfolding h by simp
next
  case (2 k)
  then have h: "(4 * n + 2) div 3 = 4 * k + 2" "n mod 3 = 1" by (simp, presburger)
  show ?thesis using neg_mod [of 2 4 k] unfolding h by simp
next
  case (3 k)
  then have h: "(4 * n + 2) div 3 = 4 * k + 3" "n mod 3 = 2" by (simp, presburger)
  show ?thesis using neg_mod [of 3 4 k] unfolding h by simp
qed

lemma code_bound: "\<forall>b \<in> set (map of_char s). b < (256 :: nat)"
  by (induction s) auto

lemma rstrip_encode:
  "rstrip_pad (b64_encode s) = map (\<lambda>i. b64_alphabet ! i) (b64_sextets (map of_char s))"
proof -
  let ?m = "map (\<lambda>i. b64_alphabet ! i) (b64_sextets (map of_char s))"
  have "\<forall>c \<in> set ?m. c \<noteq> CHR ''=''"
    using sextets_bound [OF code_bound [of s]] alphabet_facts(2) by auto
  then have "dropWhile (\<lambda>c. c = CHR ''='') (rev ?m) = rev ?m"
    by (intro dropWhile_none) auto
  moreover have "dropWhile (\<lambda>c. c = CHR ''='') (replicate k (CHR ''='') @ r)
      = dropWhile (\<lambda>c. c = CHR ''='') r" for k r
    by (induction k) auto
  ultimately show ?thesis
    by (simp add: rstrip_pad_def b64_encode_pad pad_of_def del: rev_map)
qed

lemma pad_cursor_encode: "pad_cursor (rstrip_pad (b64_encode s)) = b64_encode s"
  unfolding pad_cursor_def rstrip_encode
  unfolding b64_encode_pad length_map length_sextets pad_count pad_of_def by (rule refl)

theorem b64_roundtrip: "b64_decode (pad_cursor (rstrip_pad (b64_encode s))) = Inr (map of_char s)"
proof -
  have "\<forall>c \<in> set (b64_encode s). (of_char c :: nat) < 128"
    using sextets_bound [OF code_bound [of s]] alphabet_facts(3)
    by (auto simp: b64_encode_pad pad_of_def)
  moreover have "b64_loop 0 0 0 (b64_encode s) = Some (map of_char s)"
    using b64_loop_sextets [OF code_bound [of s], of 0 0] by (simp add: b64_encode_pad)
  ultimately show ?thesis by (auto simp: b64_decode_def pad_cursor_encode not_le [symmetric])
qed

section \<open>UTF-8\<close>

fun utf8_decode :: "nat list \<Rightarrow> string res" where
  "utf8_decode [] = Inr []"
| "utf8_decode (b # bs) =
     (if b < 128 then bindE (utf8_decode bs) (\<lambda>s. Inr (char_of b # s))
      else case bs of
          b' # bs' \<Rightarrow>
            if (b = 194 \<or> b = 195) \<and> 128 \<le> b' \<and> b' < 192
            then bindE (utf8_decode bs') (\<lambda>s. Inr (char_of ((b - 192) * 64 + (b' - 128)) # s))
            else Inl (ValueError ''invalid utf-8'')
        | [] \<Rightarrow> Inl (ValueError ''invalid utf-8''))"

lemma utf8_decode_ascii:
  "(\<forall>c \<in> set s. (of_char c :: nat) < 128) \<Longrightarrow> utf8_decode (map of_char s) = Inr s"
  by (induction s) auto

section \<open>JSON text\<close>

definition json_escape :: "char \<Rightarrow> string" where
  "json_escape c = (let n = of_char c :: nat in
     if c = CHR 0x22 then [CHR 0x5C, CHR 0x22]
     else if c = CHR 0x5C then [CHR 0x5C, CHR 0x5C]
     else if n = 10 then CHR 0x5C # ''n''
     else if n = 13 then CHR 0x5C # ''r''
     else if n = 9 then CHR 0x5C # ''t''
     else if n = 8 then CHR 0x5C # ''b''
     else if n = 12 then CHR 0x5C # ''f''
     else if n < 32 \<or> 126 < n then CHR 0x5C # ''u'' @ fixed 16 4 n
     else [c])"

definition json_string :: "string \<Rightarrow> string" where
  "json_string s = CHR 0x22 # concat (map json_escape s) @ [CHR 0x22]"

fun join :: "string \<Rightarrow> string list \<Rightarrow> string" where
  "join sep [] = []"
| "join sep [x] = x"
| "join sep (x # y # r) = x @ sep @ join sep (y # r)"

definition dumps_flat :: "(string \<times> string) list \<Rightarrow> string" where
  "dumps_flat fs = ''{'' @ join '','' (map (\<lambda>(k, v). json_string k @ '':'' @ json_string v)
     (sort_key fst fs)) @ ''}''"

fun skip_ws :: "string \<Rightarrow> string" where
  "skip_ws [] = []"
| "skip_ws (c # cs) = (if c = CHR '' '' \<or> (of_char c :: nat) \<in> {9, 10, 13} then skip_ws cs else c # cs)"

text \<open>The rest of a string literal after its opening quote.\<close>

definition unescape :: "char \<Rightarrow> char option" where
  "unescape e = (if e = CHR 0x22 \<or> e = CHR 0x5C \<or> e = CHR ''/'' then Some e
     else if e = CHR ''n'' then Some (char_of (10::nat)) else if e = CHR ''r'' then Some (char_of (13::nat))
     else if e = CHR ''t'' then Some (char_of (9::nat)) else if e = CHR ''b'' then Some (char_of (8::nat))
     else if e = CHR ''f'' then Some (char_of (12::nat)) else None)"

function json_rest :: "string \<Rightarrow> (string \<times> string) option" where
  "json_rest s = (case s of [] \<Rightarrow> None
     | c # cs \<Rightarrow>
         if c = CHR 0x22 then Some ([], cs)
         else if c = CHR 0x5C then
           (case cs of [] \<Rightarrow> None
             | e # r \<Rightarrow>
                 if e = CHR ''u'' then
                   (case take_num 16 4 0 r of None \<Rightarrow> None
                     | Some (n, _) \<Rightarrow> map_option (\<lambda>(t, q). ((if n < 256 then char_of n else CHR ''?'') # t, q))
                         (json_rest (drop 4 r)))
                 else (case unescape e of None \<Rightarrow> None
                     | Some x \<Rightarrow> map_option (\<lambda>(t, q). (x # t, q)) (json_rest r)))
         else if (of_char c :: nat) < 32 then None
         else map_option (\<lambda>(t, q). (c # t, q)) (json_rest cs))"
  by pat_completeness auto
termination
  by (relation "measure length") auto

declare json_rest.simps [simp del]

text \<open>Numbers: an optional sign, digits without a leading zero, a fraction, an exponent.\<close>

definition is_digit :: "char \<Rightarrow> bool" where
  "is_digit c \<longleftrightarrow> 48 \<le> (of_char c :: nat) \<and> (of_char c :: nat) \<le> 57"

definition dec_val :: "string \<Rightarrow> nat" where
  "dec_val ds = foldl (\<lambda>a c. a * 10 + (of_char c - 48)) 0 ds"

definition json_frac :: "string \<Rightarrow> string \<times> string" where
  "json_frac s = (case s of c # r \<Rightarrow>
       if c = CHR ''.'' \<and> takeWhile is_digit r \<noteq> [] then (takeWhile is_digit r, dropWhile is_digit r) else ([], s)
     | [] \<Rightarrow> ([], s))"

definition json_exp :: "string \<Rightarrow> int option \<times> string" where
  "json_exp s = (case s of c # r \<Rightarrow>
       if c = CHR ''e'' \<or> c = CHR ''E'' then
         (let neg = (case r of x # _ \<Rightarrow> x = CHR ''-'' | [] \<Rightarrow> False);
              r' = (case r of x # q \<Rightarrow> if x = CHR ''-'' \<or> x = CHR ''+'' then q else r | [] \<Rightarrow> r);
              ds = takeWhile is_digit r'
          in if ds = [] then (None, s)
             else (Some (if neg then - int (dec_val ds) else int (dec_val ds)), dropWhile is_digit r'))
       else (None, s)
     | [] \<Rightarrow> (None, s))"

definition json_number :: "string \<Rightarrow> (pyval \<times> string) option" where
  "json_number s0 =
     (let neg = (case s0 of x # _ \<Rightarrow> x = CHR ''-'' | [] \<Rightarrow> False);
          s = (if neg then tl s0 else s0);
          ds = (case s of x # _ \<Rightarrow> if x = CHR ''0'' then [x] else takeWhile is_digit s | [] \<Rightarrow> []);
          r = drop (length ds) s;
          (fs, r1) = json_frac r;
          (ex, r2) = json_exp r1;
          sg = (if neg then -1 else 1 :: int)
      in if ds = [] then None
         else if fs = [] \<and> ex = None then Some (VInt (sg * int (dec_val ds)), r2)
         else Some (VFloat (Finite (of_int (sg * int (dec_val (ds @ fs)))
                      * (case ex of None \<Rightarrow> 1 | Some e \<Rightarrow> power_int 10 e) / 10 ^ length fs)), r2))"

definition literals :: "(string \<times> pyval) list" where
  "literals = [(''null'', VNone), (''true'', VBool True), (''false'', VBool False), (''NaN'', VFloat NaN),
     (''Infinity'', VFloat PosInf), (''-Infinity'', VFloat NegInf)]"

fun json_literal :: "(string \<times> pyval) list \<Rightarrow> string \<Rightarrow> (pyval \<times> string) option" where
  "json_literal [] s = json_number s"
| "json_literal ((w, v) # ls) s =
     (if take (length w) s = w then Some (v, drop (length w) s) else json_literal ls s)"

text \<open>
  Values, array elements and object members. Every call reads at least one
  character before it recurses, so the length of the text is enough fuel.
\<close>

fun json_value :: "nat \<Rightarrow> string \<Rightarrow> (pyval \<times> string) option"
  and json_elems :: "nat \<Rightarrow> pyval list \<Rightarrow> string \<Rightarrow> (pyval \<times> string) option"
  and json_members :: "nat \<Rightarrow> (pyval, pyval) dict \<Rightarrow> string \<Rightarrow> (pyval \<times> string) option" where
  "json_value 0 s = None"
| "json_value (Suc f) s = (case skip_ws s of [] \<Rightarrow> None
     | c # r \<Rightarrow>
         if c = CHR 0x22 then map_option (\<lambda>(t, q). (VStr t, q)) (json_rest r)
         else if c = CHR ''['' then
           (case expect (CHR '']'') (skip_ws r) of Some q \<Rightarrow> Some (VList [], q) | None \<Rightarrow> json_elems f [] r)
         else if c = CHR ''{'' then
           (case expect (CHR ''}'') (skip_ws r) of Some q \<Rightarrow> Some (VDict [], q) | None \<Rightarrow> json_members f [] r)
         else json_literal literals (c # r))"
| "json_elems 0 acc s = None"
| "json_elems (Suc f) acc s = (case json_value f s of None \<Rightarrow> None
     | Some (v, r) \<Rightarrow>
         (case expect (CHR '','') (skip_ws r) of
            Some q \<Rightarrow> json_elems f (acc @ [v]) q
          | None \<Rightarrow> map_option (\<lambda>q. (VList (acc @ [v]), q)) (expect (CHR '']'') (skip_ws r))))"
| "json_members 0 acc s = None"
| "json_members (Suc f) acc s = (case expect (CHR 0x22) (skip_ws s) of None \<Rightarrow> None
     | Some r0 \<Rightarrow> (case json_rest r0 of None \<Rightarrow> None
     | Some (k, r1) \<Rightarrow> (case expect (CHR '':'') (skip_ws r1) of None \<Rightarrow> None
     | Some r2 \<Rightarrow> (case json_value f r2 of None \<Rightarrow> None
     | Some (v, r3) \<Rightarrow>
         (case expect (CHR '','') (skip_ws r3) of
            Some q \<Rightarrow> json_members f (dict_set (VStr k) v acc) q
          | None \<Rightarrow> map_option (\<lambda>q. (VDict (dict_set (VStr k) v acc), q)) (expect (CHR ''}'') (skip_ws r3)))))))"

definition json_loads :: "string \<Rightarrow> pyval res" where
  "json_loads s = (case json_value (2 * length s + 2) s of
       Some (v, r) \<Rightarrow> if skip_ws r = [] then Inr v else Inl (ValueError ''Extra data'')
     | None \<Rightarrow> Inl (ValueError ''Expecting value''))"

definition plain :: "char \<Rightarrow> bool" where
  "plain c \<longleftrightarrow> 32 \<le> (of_char c :: nat) \<and> (of_char c :: nat) \<le> 126 \<and> c \<noteq> CHR 0x22 \<and> c \<noteq> CHR 0x5C"

lemma json_escape_plain: "\<forall>c \<in> set s. plain c \<Longrightarrow> concat (map json_escape s) = s"
  by (induction s) (auto simp: json_escape_def plain_def Let_def)

lemma json_rest_plain: "\<forall>c \<in> set s. plain c \<Longrightarrow> json_rest (s @ CHR 0x22 # r) = Some (s, r)"
  by (induction s) (auto simp: json_rest.simps [of "_ # _"] plain_def)

lemma json_rest_string: "\<forall>c \<in> set s. plain c \<Longrightarrow> json_rest (tl (json_string s @ r)) = Some (s, r)"
  by (simp add: json_string_def json_escape_plain json_rest_plain)

lemma json_loads_two:
  assumes "\<forall>c \<in> set (k1 @ v1 @ k2 @ v2). plain c" and "k1 \<noteq> k2"
  shows "json_loads (''{'' @ json_string k1 @ '':'' @ json_string v1 @ '',''
           @ json_string k2 @ '':'' @ json_string v2 @ ''}'') = Inr (obj [(k1, VStr v1), (k2, VStr v2)])"
proof -
  have p: "\<forall>c \<in> set k1. plain c" "\<forall>c \<in> set v1. plain c" "\<forall>c \<in> set k2. plain c" "\<forall>c \<in> set v2. plain c"
    using assms(1) by auto
  let ?t = "''{'' @ json_string k1 @ '':'' @ json_string v1 @ '','' @ json_string k2 @ '':'' @ json_string v2 @ ''}''"
  have "json_value (Suc (Suc (Suc (Suc n)))) ?t = Some (VDict [(VStr k1, VStr v1), (VStr k2, VStr v2)], [])" for n
    using assms(2) p by (simp add: json_string_def json_escape_plain json_rest_plain)
  moreover obtain n where "2 * length ?t + 2 = Suc (Suc (Suc (Suc n)))"
    by (rule that [of "2 * length ?t - 2"]) (simp add: json_string_def)
  ultimately show ?thesis by (simp only: json_loads_def obj_def) simp
qed

end
