(* ===== verification/Cursor.thy ===== *)
theory Cursor
  imports Json_Text
begin

text \<open>
  The opaque keyset cursors of the three listings
  (\<open>memory/domain/episode_cursor.py\<close>, \<open>memory/domain/claim_cursor.py\<close>,
  \<open>runtime/domain/execution_cursor.py\<close>): a JSON object with the sort key of the
  last row of a page, in URL-safe base64 without padding. The contract between a
  store and its readers is the locale \<open>cursor_codec\<close>.
\<close>

section \<open>The shared shape\<close>

definition encode_cursor :: "string \<Rightarrow> string \<Rightarrow> datetime \<Rightarrow> uuid \<Rightarrow> string res" where
  "encode_cursor at_key id_key ts u =
     bindE (canonical_utc ts at_key) (\<lambda>t.
       Inr (rstrip_pad (b64_encode (dumps_flat [(at_key, isoformat t), (id_key, uuid_text u)]))))"

text \<open>
  Subscripting the loaded value, \<open>datetime.fromisoformat(x)\<close> and \<open>UUID(x)\<close> on a
  value of any JSON type: the constructor of \<open>UUID\<close> calls \<open>x.replace\<close>, so a value
  that is neither text nor \<open>None\<close> raises \<open>AttributeError\<close>.
\<close>

fun subscript :: "pyval \<Rightarrow> string \<Rightarrow> pyval res" where
  "subscript (VDict kvs) key = vitem (VDict kvs) key"
| "subscript v key = Inl (TypeError ''not subscriptable by a string'')"

fun fromisoformat_val :: "pyval \<Rightarrow> datetime res" where
  "fromisoformat_val (VStr s) = fromisoformat s"
| "fromisoformat_val v = Inl (TypeError ''fromisoformat: argument must be str'')"

fun uuid_val :: "pyval \<Rightarrow> uuid res" where
  "uuid_val (VStr s) = parse_uuid s"
| "uuid_val VNone = Inl (TypeError ''one of the hex, bytes, bytes_le, fields, or int arguments must be given'')"
| "uuid_val v = Inl AttributeError"

fun caught_by_decode :: "exn \<Rightarrow> bool" where
  "caught_by_decode (KeyError k) = True"
| "caught_by_decode (TypeError m) = True"
| "caught_by_decode (ValueError m) = True"
| "caught_by_decode _ = False"

definition decode_payload :: "string \<Rightarrow> string \<Rightarrow> string \<Rightarrow> (datetime \<times> uuid) res" where
  "decode_payload at_key id_key cursor =
     bindE (b64_decode (pad_cursor cursor)) (\<lambda>raw.
     bindE (utf8_decode raw) (\<lambda>text.
     bindE (json_loads text) (\<lambda>payload.
     bindE (subscript payload at_key) (\<lambda>a.
     bindE (fromisoformat_val a) (\<lambda>ts.
     bindE (subscript payload id_key) (\<lambda>i.
     bindE (uuid_val i) (\<lambda>u. Inr (ts, u))))))))"

text \<open>The conversion to UTC is outside the \<open>try\<close> block: what it raises is not translated.\<close>

definition decode_cursor :: "string \<Rightarrow> string \<Rightarrow> exn \<Rightarrow> string \<Rightarrow> (datetime \<times> uuid) res" where
  "decode_cursor at_key id_key invalid cursor =
     (case decode_payload at_key id_key cursor of
        Inl e \<Rightarrow> Inl (if caught_by_decode e then invalid else e)
      | Inr (ts, u) \<Rightarrow> bindE (canonical_utc ts at_key) (\<lambda>t. Inr (t, u)))"

section \<open>Printing and reading\<close>

lemma plain_hex_char: "d < 16 \<Longrightarrow> plain (hex_char d)"
  using hex_char_enum [of d] by (auto simp: plain_def)

lemma plain_fixed: "c \<in> set (fixed 10 k n) \<Longrightarrow> plain c" "c \<in> set (fixed 16 k n) \<Longrightarrow> plain c"
  using fixed_digits [of 10 c k n] fixed_digits [of 16 c k n] by (auto intro: plain_hex_char)

lemma plain_marks: "plain (CHR ''-'')" "plain (CHR '':'')" "plain (CHR ''.'')" "plain (CHR ''T'')" "plain (CHR ''+'')"
  by (simp_all add: plain_def)

lemma plain_uuid_text: "c \<in> set (uuid_text u) \<Longrightarrow> plain c"
  by (auto simp: uuid_text_def Let_def plain_marks dest!: in_set_takeD in_set_dropD dest: plain_fixed)

lemma plain_clock_text: "c \<in> set (clock_text force t) \<Longrightarrow> plain c"
  by (auto simp: clock_text_def Let_def plain_marks dest: plain_fixed split: if_splits)

lemma plain_isoformat: "c \<in> set (isoformat d) \<Longrightarrow> plain c"
  by (auto simp: isoformat_def Let_def date_text_def offset_text_def plain_marks
      split: prod.splits option.splits if_splits dest: plain_fixed plain_clock_text)

lemma plain_ascii: "plain c \<Longrightarrow> (of_char c :: nat) < 128"
  by (simp add: plain_def)

text \<open>
  Decoding the text of any two fields gives back the fields, whatever their order
  in the text: this is the part of the codecs that is the same for a good and for
  a forged cursor.
\<close>

definition cursor_text :: "string \<Rightarrow> string \<Rightarrow> string \<Rightarrow> string \<Rightarrow> string" where
  "cursor_text at_key id_key at_val id_val =
     rstrip_pad (b64_encode (dumps_flat [(at_key, at_val), (id_key, id_val)]))"

lemma sort_two: "sort_key f [x, y] = (if f x \<le> f y then [x, y] else [y, x])"
  by simp

lemma decode_cursor_text:
  assumes "at_key \<noteq> id_key" and "\<forall>c \<in> set (at_key @ id_key @ at_val @ id_val). plain c"
  shows "decode_payload at_key id_key (cursor_text at_key id_key at_val id_val)
    = bindE (fromisoformat at_val) (\<lambda>ts. bindE (parse_uuid id_val) (\<lambda>u. Inr (ts, u)))"
proof -
  let ?t = "dumps_flat [(at_key, at_val), (id_key, id_val)]"
  have p: "\<forall>c \<in> set (json_string s). plain c \<or> c = CHR 0x22"
    if "s \<in> {at_key, id_key, at_val, id_val}" for s
  proof -
    have "\<forall>c \<in> set s. plain c" using assms(2) that by auto
    then show ?thesis by (auto simp: json_string_def json_escape_plain)
  qed
  have "\<forall>c \<in> set ?t. (of_char c :: nat) < 128"
    using p [of at_key] p [of id_key] p [of at_val] p [of id_val]
    by (auto simp: dumps_flat_def sort_two dest: plain_ascii split: if_splits)
  then have u: "utf8_decode (map of_char ?t) = Inr ?t" by (rule utf8_decode_ascii)
  have l: "json_loads ?t = Inr (obj [(at_key, VStr at_val), (id_key, VStr id_val)])
      \<or> json_loads ?t = Inr (obj [(id_key, VStr id_val), (at_key, VStr at_val)])"
    using json_loads_two [of at_key at_val id_key id_val] json_loads_two [of id_key id_val at_key at_val] assms
    by (auto simp: dumps_flat_def sort_two)
  from l u assms(1) show ?thesis
    by (auto simp: decode_payload_def cursor_text_def b64_roundtrip obj_def vget_def vitem_def)
qed

lemma decode_encode:
  assumes "encode_cursor at_key id_key ts u = Inr c"
    and "at_key \<noteq> id_key" and "\<forall>c \<in> set (at_key @ id_key). plain c"
  shows "decode_cursor at_key id_key invalid c = Inr (DateTime (instant ts) (Some 0), u)"
proof -
  from assms(1) obtain t where t: "canonical_utc ts at_key = Inr t"
      "c = cursor_text at_key id_key (isoformat t) (uuid_text u)"
    by (auto simp: encode_cursor_def bindE_eq_Inr cursor_text_def)
  then have t': "t = DateTime (instant ts) (Some 0)" "in_range (instant ts)"
    by (auto simp: canonical_utc_Inr)
  then have "valid_datetime t" by (simp add: valid_datetime_def day_us_def)
  then have "fromisoformat (isoformat t) = Inr t" by (rule fromisoformat_isoformat)
  moreover have "\<forall>c \<in> set (at_key @ id_key @ isoformat t @ uuid_text u). plain c"
    using assms(3) plain_isoformat plain_uuid_text by auto
  ultimately have "decode_payload at_key id_key c = Inr (t, u)"
    using decode_cursor_text [OF assms(2)] t(2) by (simp add: parse_uuid_text)
  then show ?thesis
    using t' by (simp add: decode_cursor_def canonical_utc_def aware_def astimezone_utc_def instant_def)
qed

section \<open>The three cursors\<close>

definition encode_episode_cursor :: "datetime \<Rightarrow> memory_id \<Rightarrow> string res" where
  "encode_episode_cursor ingested_at episode_id =
     encode_cursor ''ingested_at'' ''episode_id'' ingested_at (memory_uuid episode_id)"

definition decode_episode_cursor :: "string \<Rightarrow> (datetime \<times> memory_id) res" where
  "decode_episode_cursor cursor =
     bindE (decode_cursor ''ingested_at'' ''episode_id'' InvalidEpisodeCursor cursor)
       (\<lambda>(t, u). Inr (t, MemoryId u))"

definition encode_claim_cursor :: "datetime \<Rightarrow> memory_id \<Rightarrow> string res" where
  "encode_claim_cursor recorded_from claim_id =
     encode_cursor ''recorded_from'' ''claim_id'' recorded_from (memory_uuid claim_id)"

definition decode_claim_cursor :: "string \<Rightarrow> (datetime \<times> memory_id) res" where
  "decode_claim_cursor cursor =
     bindE (decode_cursor ''recorded_from'' ''claim_id'' InvalidClaimCursor cursor)
       (\<lambda>(t, u). Inr (t, MemoryId u))"

definition encode_execution_cursor :: "datetime \<Rightarrow> execution_id \<Rightarrow> string res" where
  "encode_execution_cursor updated_at execution_id =
     encode_cursor ''updated_at'' ''execution_id'' updated_at (execution_uuid execution_id)"

definition decode_execution_cursor :: "string \<Rightarrow> (datetime \<times> execution_id) res" where
  "decode_execution_cursor cursor =
     bindE (decode_cursor ''updated_at'' ''execution_id'' InvalidExecutionCursor cursor)
       (\<lambda>(t, u). Inr (t, ExecutionId u))"

text \<open>What a listing needs of its cursors: the position that went in comes out.\<close>

locale cursor_codec =
  fixes enc :: "datetime \<Rightarrow> 'i \<Rightarrow> string res"
    and dec :: "string \<Rightarrow> (datetime \<times> 'i) res"
  assumes dec_enc: "enc ts i = Inr c \<Longrightarrow> dec c = Inr (DateTime (instant ts) (Some 0), i)"
    and enc_total: "aware ts \<Longrightarrow> in_range (instant ts) \<Longrightarrow> \<exists>c. enc ts i = Inr c"
begin

lemma dec_position: "enc ts i = Inr c \<Longrightarrow> \<exists>t. dec c = Inr (t, i) \<and> instant t = instant ts \<and> aware t"
  by (auto dest!: dec_enc simp: instant_def aware_def)

lemma enc_inj: "enc ts i = Inr c \<Longrightarrow> enc ts' i' = Inr c \<Longrightarrow> i = i' \<and> instant ts = instant ts'"
  by (auto dest!: dec_enc)

end

lemma encode_cursor_total:
  "aware ts \<Longrightarrow> in_range (instant ts) \<Longrightarrow> \<exists>c. encode_cursor at_key id_key ts u = Inr c"
  by (simp add: encode_cursor_def canonical_utc_def astimezone_utc_def)

interpretation episode_codec: cursor_codec encode_episode_cursor decode_episode_cursor
proof
  fix ts i c
  assume "encode_episode_cursor ts i = Inr c"
  then show "decode_episode_cursor c = Inr (DateTime (instant ts) (Some 0), i)"
    using decode_encode [of "''ingested_at''" "''episode_id''" ts "memory_uuid i" c InvalidEpisodeCursor]
    by (simp add: encode_episode_cursor_def decode_episode_cursor_def plain_def)
qed (simp add: encode_episode_cursor_def encode_cursor_total)

interpretation claim_codec: cursor_codec encode_claim_cursor decode_claim_cursor
proof
  fix ts i c
  assume "encode_claim_cursor ts i = Inr c"
  then show "decode_claim_cursor c = Inr (DateTime (instant ts) (Some 0), i)"
    using decode_encode [of "''recorded_from''" "''claim_id''" ts "memory_uuid i" c InvalidClaimCursor]
    by (simp add: encode_claim_cursor_def decode_claim_cursor_def plain_def)
qed (simp add: encode_claim_cursor_def encode_cursor_total)

interpretation execution_codec: cursor_codec encode_execution_cursor decode_execution_cursor
proof
  fix ts i c
  assume "encode_execution_cursor ts i = Inr c"
  then show "decode_execution_cursor c = Inr (DateTime (instant ts) (Some 0), i)"
    using decode_encode [of "''updated_at''" "''execution_id''" ts "execution_uuid i" c InvalidExecutionCursor]
    by (simp add: encode_execution_cursor_def decode_execution_cursor_def plain_def)
qed (simp add: encode_execution_cursor_def encode_cursor_total)

text \<open>
  A forged cursor whose date has no offset is not reported as an invalid cursor:
  the conversion after the \<open>try\<close> block raises a plain \<open>ValueError\<close>.
\<close>

lemma decode_naive_date:
  assumes "valid_datetime d" and "\<not> aware d" and "at_key \<noteq> id_key" and "\<forall>c \<in> set (at_key @ id_key). plain c"
  shows "decode_cursor at_key id_key invalid (cursor_text at_key id_key (isoformat d) (uuid_text u))
    = Inl (ValueError (at_key @ '' must be timezone-aware''))"
proof -
  have "\<forall>c \<in> set (at_key @ id_key @ isoformat d @ uuid_text u). plain c"
    using assms(4) plain_isoformat plain_uuid_text by auto
  then have "decode_payload at_key id_key (cursor_text at_key id_key (isoformat d) (uuid_text u)) = Inr (d, u)"
    using decode_cursor_text [OF assms(3)] fromisoformat_isoformat [OF assms(1)] by (simp add: parse_uuid_text)
  then show ?thesis using assms(2) by (simp add: decode_cursor_def canonical_utc_def)
qed

section \<open>Properties\<close>

text \<open>
  C33. Every position that a listing can end at has a cursor, and the cursor decodes
  to that position: the same identifier and the same instant, in UTC. This holds
  for the three listings, whose cursors are text of the same form.
\<close>

theorem cursor_roundtrip:
  assumes "aware ts" and "in_range (instant ts)"
  shows "(\<exists>c. encode_episode_cursor ts m = Inr c \<and> decode_episode_cursor c = Inr (DateTime (instant ts) (Some 0), m))
    \<and> (\<exists>c. encode_claim_cursor ts m = Inr c \<and> decode_claim_cursor c = Inr (DateTime (instant ts) (Some 0), m))
    \<and> (\<exists>c. encode_execution_cursor ts e = Inr c \<and> decode_execution_cursor c = Inr (DateTime (instant ts) (Some 0), e))"
  using episode_codec.enc_total [OF assms, of m] claim_codec.enc_total [OF assms, of m]
    execution_codec.enc_total [OF assms, of e] episode_codec.dec_enc claim_codec.dec_enc execution_codec.dec_enc
  by blast

theorem cursor_roundtrip_witness:
  "\<exists>c. encode_episode_cursor (DateTime 7200000000 (Some 3600000000)) (MemoryId (UUID 9)) = Inr c
    \<and> decode_episode_cursor c = Inr (DateTime 3600000000 (Some 0), MemoryId (UUID 9))"
proof -
  let ?t = "DateTime 7200000000 (Some 3600000000)"
  have "aware ?t" "in_range (instant ?t)" by (simp_all add: aware_def instant_def in_range_def max_wall_def)
  from cursor_roundtrip [OF this, of "MemoryId (UUID 9)"] show ?thesis by (simp add: instant_def)
qed

text \<open>
  A cursor whose date has no offset escapes the error of the listing: the
  decoders answer a plain \<open>ValueError\<close> where every other malformed date is
  reported as an invalid cursor.
\<close>

theorem naive_cursor_date:
  assumes "valid_datetime d" and "\<not> aware d"
  shows "decode_episode_cursor (cursor_text ''ingested_at'' ''episode_id'' (isoformat d) (uuid_text u))
      = Inl (ValueError ''ingested_at must be timezone-aware'')
    \<and> decode_execution_cursor (cursor_text ''updated_at'' ''execution_id'' (isoformat d) (uuid_text u))
      = Inl (ValueError ''updated_at must be timezone-aware'')"
  using decode_naive_date [OF assms, of "''ingested_at''" "''episode_id''" InvalidEpisodeCursor u]
    decode_naive_date [OF assms, of "''updated_at''" "''execution_id''" InvalidExecutionCursor u]
  by (simp add: decode_episode_cursor_def decode_execution_cursor_def plain_def)

theorem naive_cursor_date_witness:
  "decode_episode_cursor (cursor_text ''ingested_at'' ''episode_id'' (isoformat (DateTime 0 None)) (uuid_text (UUID 1)))
    = Inl (ValueError ''ingested_at must be timezone-aware'')"
proof -
  have "valid_datetime (DateTime 0 None)" "\<not> aware (DateTime 0 None)"
    by (simp_all add: valid_datetime_def in_range_def max_wall_def aware_def)
  from naive_cursor_date [OF this] show ?thesis by blast
qed

end
