(* ===== verification/Paging.thy ===== *)
theory Paging
  imports Memory_Model "HOL-Library.Multiset"
begin

text \<open>
  Keyset pagination, shared by the listings of episodes, claims and executions:
  the descending sort and the cursor filter of the stores, the page the handlers
  cut, and the contract \<open>keyset_listing\<close> under which a client that follows the
  cursors reads every row once and in order.
\<close>

section \<open>Sorting and filtering\<close>

text \<open>\<open>list.sort(key=k, reverse=True)\<close>: descending, equal keys in their old order.\<close>

definition sort_desc :: "('r \<Rightarrow> 'k::linorder) \<Rightarrow> 'r list \<Rightarrow> 'r list" where
  "sort_desc k rows = rev (sort_key k (rev rows))"

text \<open>\<open>rows[:limit]\<close> where \<open>limit\<close> is \<open>None\<close> or positive.\<close>

definition slice :: "int option \<Rightarrow> 'r list \<Rightarrow> 'r list" where
  "slice limit rows = (case limit of None \<Rightarrow> rows | Some n \<Rightarrow> take (nat n) rows)"

text \<open>The arguments that the \<open>stream\<close> methods refuse before they read.\<close>

definition check_stream_args :: "int option \<Rightarrow> string option \<Rightarrow> unit res" where
  "check_stream_args limit cursor =
     bindE (raise_if (cursor \<noteq> None \<and> limit = None) (ValueError ''cursor requires limit'')) (\<lambda>_.
     raise_if (\<exists>n. limit = Some n \<and> n \<le> 0) (ValueError ''limit must be positive''))"

lemma check_stream_args_Inr [simp]:
  "check_stream_args limit cursor = Inr u \<longleftrightarrow> (cursor = None \<or> limit \<noteq> None) \<and> (\<forall>n. limit = Some n \<longrightarrow> 0 < n)"
  by (auto simp: check_stream_args_def bindE_eq_Inr not_le)

lemma set_sort_desc [simp]: "set (sort_desc k rows) = set rows"
  by (simp add: sort_desc_def)

lemma length_sort_desc [simp]: "length (sort_desc k rows) = length rows"
  by (simp add: sort_desc_def)

lemma distinct_sort_desc [simp]: "distinct (sort_desc k rows) = distinct rows"
  by (simp add: sort_desc_def)

lemma distinct_map_sort_desc [simp]: "distinct (map f (sort_desc k rows)) = distinct (map f rows)"
proof -
  have "mset (map f (sort_desc k rows)) = mset (map f rows)" by (simp add: sort_desc_def)
  then show ?thesis by (metis mset_eq_imp_distinct_iff)
qed

lemma sorted_sort_desc: "sorted_wrt (\<lambda>a b. k b \<le> k a) (sort_desc k rows)"
  using sorted_sort_key [of k "rev rows"] by (simp add: sort_desc_def sorted_wrt_rev sorted_wrt_map)

lemma sort_desc_strict:
  assumes "distinct (map k rows)"
  shows "sorted_wrt (\<lambda>a b. k b < k a) (sort_desc k rows)"
proof -
  let ?s = "sort_desc k rows"
  have d: "distinct (map k ?s)" using assms by simp
  have "k (?s ! j) < k (?s ! i)" if "i < j" "j < length ?s" for i j
  proof -
    have "map k ?s ! i \<noteq> map k ?s ! j" using nth_eq_iff_index_eq [OF d, of i j] that by simp
    moreover have "k (?s ! j) \<le> k (?s ! i)"
      using sorted_wrt_nth_less [OF sorted_sort_desc [of k rows], of i j] that by simp
    ultimately show ?thesis using that by simp
  qed
  then show ?thesis by (simp add: sorted_wrt_iff_nth_less)
qed

text \<open>A strictly descending list is determined by its rows.\<close>

lemma strict_desc_unique:
  assumes "sorted_wrt (\<lambda>a b. k b < (k a :: 'k::linorder)) xs" and "sorted_wrt (\<lambda>a b. k b < k a) ys" and "set xs = set ys"
  shows "xs = ys"
  using assms
proof (induction xs arbitrary: ys)
  case (Cons x xs)
  then obtain y ys' where ys: "ys = y # ys'" by (cases ys) auto
  have "x = y"
  proof (rule ccontr)
    assume "x \<noteq> y"
    with Cons.prems ys have "x \<in> set ys'" "y \<in> set xs" by (metis list.set_intros(1) set_ConsD)+
    with Cons.prems ys show False by fastforce
  qed
  moreover from Cons.prems ys \<open>x = y\<close> have "set xs = set ys'" by (auto simp: set_eq_iff)
  ultimately show ?case using Cons ys by simp
qed simp

lemma filter_desc:
  "sorted_wrt (\<lambda>a b. k b < k a) xs \<Longrightarrow> sorted_wrt (\<lambda>a b. k b < k a) (filter P xs)"
  by (rule sorted_wrt_filter)

text \<open>
  Listings are descending or ascending: \<open>lt\<close> is the strict order of the keys or
  its converse. After the first \<open>n\<close> rows of a sorted list come the rows beyond
  the last of them.
\<close>

definition strict_order :: "('k \<Rightarrow> 'k \<Rightarrow> bool) \<Rightarrow> bool" where
  "strict_order lt \<longleftrightarrow> (\<forall>a. \<not> lt a a) \<and> (\<forall>a b c. lt a b \<longrightarrow> lt b c \<longrightarrow> lt a c)"

lemma strict_order_less [simp]: "strict_order ((<) :: 'k::order \<Rightarrow> 'k \<Rightarrow> bool)"
  by (auto simp: strict_order_def)

lemma strict_order_greater [simp]: "strict_order ((>) :: 'k::order \<Rightarrow> 'k \<Rightarrow> bool)"
  by (auto simp: strict_order_def)

lemma drop_below:
  assumes "strict_order lt" and "sorted_wrt (\<lambda>a b. lt (k b) (k a)) xs" and "0 < n" and "n \<le> length xs"
  shows "filter (\<lambda>r. lt (k r) (k (last (take n xs)))) xs = drop n xs"
proof -
  have nn: "take n xs \<noteq> []" using assms(3,4) by auto
  have ap: "sorted_wrt (\<lambda>a b. lt (k b) (k a)) (take n xs @ drop n xs)" using assms(2) by simp
  have up: "\<forall>r \<in> set (take n xs). \<not> lt (k r) (k (last (take n xs)))"
  proof
    fix r assume "r \<in> set (take n xs)"
    with nn have "r \<in> set (butlast (take n xs)) \<or> r = last (take n xs)"
      by (metis append_butlast_last_id UnE empty_iff empty_set set_ConsD set_append)
    moreover have "sorted_wrt (\<lambda>a b. lt (k b) (k a)) (butlast (take n xs) @ [last (take n xs)])"
      using ap nn by (simp add: sorted_wrt_append)
    ultimately show "\<not> lt (k r) (k (last (take n xs)))"
      using assms(1) unfolding strict_order_def sorted_wrt_append by (metis list.set_intros(1))
  qed
  have low: "\<forall>r \<in> set (drop n xs). lt (k r) (k (last (take n xs)))"
    using ap last_in_set [OF nn] unfolding sorted_wrt_append by blast
  let ?P = "\<lambda>r. lt (k r) (k (last (take n xs)))"
  have "filter ?P (take n xs) = []" using up by (auto simp: filter_empty_conv)
  moreover have "filter ?P (drop n xs) = drop n xs" using low by (auto simp: filter_id_conv)
  ultimately have "filter ?P (take n xs @ drop n xs) = drop n xs" unfolding filter_append by simp
  then show ?thesis by (simp only: append_take_drop_id)
qed

section \<open>One page\<close>

text \<open>
  The end of the three listing handlers: one row more than the limit was asked
  for; when it came, the page is cut and the last row of it makes the cursor.
\<close>

definition cut_page :: "('r \<Rightarrow> 'i) \<Rightarrow> ('r \<Rightarrow> string res) \<Rightarrow> int \<Rightarrow> 'r list \<Rightarrow> 'i list_result res" where
  "cut_page to_item encode limit rows =
     (if int (length rows) > limit then
        let page = take (nat limit) rows in
        bindE (encode (last page)) (\<lambda>c. Inr \<lparr>lr_items = map to_item page, lr_next_cursor = Some c\<rparr>)
      else Inr \<lparr>lr_items = map to_item rows, lr_next_cursor = None\<rparr>)"

section \<open>Following the cursors\<close>

text \<open>A client that asks for the next page until there is none.\<close>

fun walk :: "nat \<Rightarrow> (string option \<Rightarrow> 'i list_result res) \<Rightarrow> string option \<Rightarrow> 'i list res" where
  "walk 0 page cursor = Inl StopIteration"
| "walk (Suc fuel) page cursor =
     bindE (page cursor) (\<lambda>r. case lr_next_cursor r of
       None \<Rightarrow> Inr (lr_items r)
     | Some c \<Rightarrow> bindE (walk fuel page (Some c)) (\<lambda>rest. Inr (lr_items r @ rest)))"

text \<open>
  What a listing promises: its rows are in the order of their keys, a page
  after a position holds the rows beyond it, and the cursor it returns stands for
  the key of its last row.
\<close>

definition rows_after :: "('k \<Rightarrow> 'k \<Rightarrow> bool) \<Rightarrow> ('r \<Rightarrow> 'k) \<Rightarrow> 'k option \<Rightarrow> 'r list \<Rightarrow> 'r list" where
  "rows_after lt key p rows = (case p of None \<Rightarrow> rows | Some k \<Rightarrow> filter (\<lambda>r. lt (key r) k) rows)"

lemma rows_after_twice:
  assumes "strict_order lt" and "x \<in> set (rows_after lt key p rows)"
  shows "filter (\<lambda>r. lt (key r) (key x)) rows = filter (\<lambda>r. lt (key r) (key x)) (rows_after lt key p rows)"
proof (cases p)
  case (Some k)
  with assms have "lt (key x) k" by (simp add: rows_after_def)
  with assms(1) have "lt (key r) (key x) \<longleftrightarrow> lt (key r) k \<and> lt (key r) (key x)" for r
    unfolding strict_order_def by blast
  with Some show ?thesis by (simp add: rows_after_def conj_commute)
qed (simp add: rows_after_def)

locale keyset_listing =
  fixes valid :: "'s \<Rightarrow> bool"
    and rows :: "'s \<Rightarrow> memory_scope \<Rightarrow> 'r list"
    and lt :: "'k \<Rightarrow> 'k \<Rightarrow> bool"
    and key :: "'r \<Rightarrow> 'k"
    and item :: "'r \<Rightarrow> 'i"
    and position :: "string \<Rightarrow> 'k option"
    and page :: "'s \<Rightarrow> memory_scope \<Rightarrow> int \<Rightarrow> string option \<Rightarrow> 'i list_result res"
  assumes order: "strict_order lt"
    and ordered: "valid s \<Longrightarrow> sorted_wrt (\<lambda>a b. lt (key b) (key a)) (rows s scope)"
    and page_cut: "valid s \<Longrightarrow> 0 < n \<Longrightarrow> cursor = None \<or> (\<exists>c k. cursor = Some c \<and> position c = Some k) \<Longrightarrow>
      rest = rows_after lt key (Option.bind cursor position) (rows s scope) \<Longrightarrow>
      \<exists>nxt. page s scope n cursor = Inr \<lparr>lr_items = map item (take (nat n) rest), lr_next_cursor = nxt\<rparr>
        \<and> (if length rest \<le> nat n then nxt = None
           else \<exists>c. nxt = Some c \<and> position c = Some (key (last (take (nat n) rest))))"
begin

lemma walk_rest:
  assumes "valid s" and "0 < n" and "cursor = None \<or> (\<exists>c k. cursor = Some c \<and> position c = Some k)"
    and "rest = rows_after lt key (Option.bind cursor position) (rows s scope)" and "length rest < fuel"
  shows "walk fuel (page s scope n) cursor = Inr (map item rest)"
  using assms(3-5)
proof (induction fuel arbitrary: cursor rest)
  case (Suc fuel)
  let ?now = "take (nat n) rest"
  from page_cut [OF assms(1,2) Suc.prems(1,2)] obtain nxt where
    p: "page s scope n cursor = Inr \<lparr>lr_items = map item ?now, lr_next_cursor = nxt\<rparr>"
      "if length rest \<le> nat n then nxt = None else \<exists>c. nxt = Some c \<and> position c = Some (key (last ?now))"
    by blast
  show ?case
  proof (cases "length rest \<le> nat n")
    case True
    with p show ?thesis by simp
  next
    case False
    with p obtain c where c: "nxt = Some c" "position c = Some (key (last ?now))" by auto
    have desc: "sorted_wrt (\<lambda>a b. lt (key b) (key a)) rest"
      using ordered [OF assms(1)] Suc.prems(2) by (auto simp: rows_after_def sorted_wrt_filter split: option.splits)
    have mem: "last ?now \<in> set rest" using False assms(2)
      by (intro in_set_takeD [OF last_in_set]) auto
    have "rows_after lt key (Option.bind (Some c) position) (rows s scope) = filter (\<lambda>r. lt (key r) (key (last ?now))) rest"
      using rows_after_twice [OF order mem [unfolded Suc.prems(2)]] c(2) Suc.prems(2) by (simp add: rows_after_def)
    also have "\<dots> = drop (nat n) rest"
      using drop_below [OF order desc, of "nat n"] assms(2) False by simp
    finally have r: "drop (nat n) rest = rows_after lt key (Option.bind (Some c) position) (rows s scope)" by simp
    have "length (drop (nat n) rest) < fuel" using Suc.prems(3) assms(2) False by simp
    from Suc.IH [OF _ r this] c p(1) have
      "walk (Suc fuel) (page s scope n) cursor = Inr (map item ?now @ map item (drop (nat n) rest))" by auto
    then show ?thesis by (metis append_take_drop_id map_append)
  qed
qed simp

theorem walk_all:
  assumes "valid s" and "0 < n"
  shows "walk (Suc (length (rows s scope))) (page s scope n) None = Inr (map item (rows s scope))"
  by (rule walk_rest [OF assms]) (simp_all add: rows_after_def)

end

text \<open>
  What a store gives to a handler: \<open>stream\<close> answers with the first rows after a
  position, and the row a page ends with can be encoded. Cutting pages from it is
  then a keyset listing.
\<close>

locale keyset_store =
  fixes valid :: "'s \<Rightarrow> bool"
    and rows :: "'s \<Rightarrow> memory_scope \<Rightarrow> 'r list"
    and lt :: "'k \<Rightarrow> 'k \<Rightarrow> bool"
    and key :: "'r \<Rightarrow> 'k"
    and position :: "string \<Rightarrow> 'k option"
    and stream :: "'s \<Rightarrow> memory_scope \<Rightarrow> int option \<Rightarrow> string option \<Rightarrow> 'r list res"
    and encode :: "'r \<Rightarrow> string res"
  assumes key_order: "strict_order lt"
    and rows_ordered: "valid s \<Longrightarrow> sorted_wrt (\<lambda>a b. lt (key b) (key a)) (rows s scope)"
    and stream_rows: "valid s \<Longrightarrow> 0 < n \<Longrightarrow> cursor = None \<or> (\<exists>c k. cursor = Some c \<and> position c = Some k) \<Longrightarrow>
      stream s scope (Some n) cursor = Inr (take (nat n) (rows_after lt key (Option.bind cursor position) (rows s scope)))"
    and encode_row: "valid s \<Longrightarrow> r \<in> set (rows s scope) \<Longrightarrow> \<exists>c. encode r = Inr c \<and> position c = Some (key r)"

definition store_page ::
    "('s \<Rightarrow> memory_scope \<Rightarrow> int option \<Rightarrow> string option \<Rightarrow> 'r list res) \<Rightarrow> ('r \<Rightarrow> string res) \<Rightarrow> ('r \<Rightarrow> 'i)
      \<Rightarrow> 's \<Rightarrow> memory_scope \<Rightarrow> int \<Rightarrow> string option \<Rightarrow> 'i list_result res" where
  "store_page stream encode item s scope limit cursor =
     bindE (stream s scope (Some (limit + 1)) cursor) (cut_page item encode limit)"

lemma rows_after_subset: "set (rows_after lt key p rows) \<subseteq> set rows"
  by (auto simp: rows_after_def split: option.splits)

sublocale keyset_store \<subseteq> keyset_listing valid rows lt key "\<lambda>r. r" position "store_page stream encode (\<lambda>r. r)"
proof
  fix s scope n cursor rest
  assume v: "valid s" and n: "(0 :: int) < n" and c: "cursor = None \<or> (\<exists>c k. cursor = Some c \<and> position c = Some k)"
    and rest: "rest = rows_after lt key (Option.bind cursor position) (rows s scope)"
  let ?page = "store_page stream encode (\<lambda>r. r) s scope n cursor"
  have st: "?page = cut_page (\<lambda>r. r) encode n (take (Suc (nat n)) rest)"
    using stream_rows [OF v _ c, of "n + 1"] n rest by (simp add: store_page_def nat_add_distrib)
  show "\<exists>nxt. ?page = Inr \<lparr>lr_items = map (\<lambda>r. r) (take (nat n) rest), lr_next_cursor = nxt\<rparr>
      \<and> (if length rest \<le> nat n then nxt = None
         else \<exists>c. nxt = Some c \<and> position c = Some (key (last (take (nat n) rest))))"
  proof (cases "length rest \<le> nat n")
    case True
    with n have "int (length rest) \<le> n" by linarith
    with True n st show ?thesis by (simp add: cut_page_def)
  next
    case False
    then have "take (nat n) rest \<noteq> []" using n by auto
    moreover have "set rest \<subseteq> set (rows s scope)" unfolding rest by (rule rows_after_subset)
    ultimately have "last (take (nat n) rest) \<in> set (rows s scope)" by (meson in_set_takeD last_in_set subsetD)
    from encode_row [OF v this] obtain c where
      "encode (last (take (nat n) rest)) = Inr c" "position c = Some (key (last (take (nat n) rest)))" by blast
    moreover have "n < int (length rest)" using False n by linarith
    ultimately show ?thesis using False n st by (simp add: cut_page_def min_def)
  qed
qed (rule key_order, rule rows_ordered)

lemma cut_page_map:
  "cut_page item encode limit rows = bindE (cut_page (\<lambda>r. r) encode limit rows)
     (\<lambda>p. Inr \<lparr>lr_items = map item (lr_items p), lr_next_cursor = lr_next_cursor p\<rparr>)"
  by (simp add: cut_page_def Let_def bindE_assoc)

lemma store_page_map:
  "store_page stream encode item s scope limit cursor = bindE (store_page stream encode (\<lambda>r. r) s scope limit cursor)
     (\<lambda>p. Inr \<lparr>lr_items = map item (lr_items p), lr_next_cursor = lr_next_cursor p\<rparr>)"
  by (cases "stream s scope (Some (limit + 1)) cursor") (simp_all add: store_page_def cut_page_map [of item])

lemma walk_map:
  assumes "\<And>cursor. page cursor = bindE (page' cursor)
     (\<lambda>p. Inr \<lparr>lr_items = map item (lr_items p), lr_next_cursor = lr_next_cursor p\<rparr>)"
  shows "walk fuel page cursor = bindE (walk fuel page' cursor) (\<lambda>rs. Inr (map item rs))"
proof (induction fuel arbitrary: cursor)
  case (Suc fuel)
  show ?case
  proof (cases "page' cursor")
    case (Inr p)
    then show ?thesis by (simp add: assms [of cursor] Suc.IH bindE_assoc split: option.splits)
  qed (simp add: assms [of cursor])
qed simp

end
