(* ===== verification/Memory_InMemory.thy ===== *)
theory Memory_InMemory
  imports Memory_Model Cursor Paging
begin

text \<open>
  The in-memory memory adapter: the committed state of
  \<open>memory/adapters/in_memory/database.py\<close> and the copy-on-write transactions of
  \<open>unit_of_work.py\<close>, with the lock of the database, the life cycle of a unit of
  work and its episode store, claim store and outbox.
\<close>

section \<open>State\<close>

record committed_memory_state =
  cm_episodes :: "episode list"
  cm_idempotency_index :: "(tenant_id \<times> string, memory_id) dict"
  cm_events :: "event_envelope list"

definition empty_memory_state :: committed_memory_state where
  "empty_memory_state = \<lparr>cm_episodes = [], cm_idempotency_index = [], cm_events = []\<rparr>"

record memory_database =
  md_locked :: bool
  md_state :: committed_memory_state

definition md_replace :: "episode list \<Rightarrow> (tenant_id \<times> string, memory_id) dict \<Rightarrow> event_envelope list
    \<Rightarrow> memory_database \<Rightarrow> memory_database" where
  "md_replace eps index evs db =
     db\<lparr>md_state := \<lparr>cm_episodes = eps, cm_idempotency_index = index, cm_events = evs\<rparr>\<rparr>"

text \<open>The transaction state: a copy of the committed state, with its two flags.\<close>

record memory_tx =
  tx_active :: bool
  tx_committed :: bool
  tx_episodes :: "episode list"
  tx_idempotency_index :: "(tenant_id \<times> string, memory_id) dict"
  tx_events :: "event_envelope list"

definition tx_begin :: "committed_memory_state \<Rightarrow> memory_tx" where
  "tx_begin s = \<lparr>tx_active = True, tx_committed = False, tx_episodes = cm_episodes s,
     tx_idempotency_index = cm_idempotency_index s, tx_events = cm_events s\<rparr>"

definition not_active :: exn where "not_active = RuntimeError ''memory transaction is not active''"
definition already_entered :: exn where
  "already_entered = RuntimeError ''memory transaction cannot be entered more than once''"
definition already_committed :: exn where
  "already_committed = RuntimeError ''memory transaction has already been committed''"

definition tx_require_usable :: "memory_tx \<Rightarrow> unit res" where
  "tx_require_usable tx =
     bindE (raise_if (\<not> tx_active tx) not_active) (\<lambda>_. raise_if (tx_committed tx) already_committed)"

section \<open>The episode store\<close>

definition same_episode_request :: "episode \<Rightarrow> episode \<Rightarrow> bool" where
  "same_episode_request a b \<longleftrightarrow> ep_scope a = ep_scope b \<and> ep_actor_id a = ep_actor_id b
     \<and> ep_source_type a = ep_source_type b \<and> ep_content_ref a = ep_content_ref b
     \<and> dt_eq (ep_observed_at a) (ep_observed_at b) \<and> ep_content_hash a = ep_content_hash b
     \<and> ep_sensitivity a = ep_sensitivity b \<and> ep_retention_class a = ep_retention_class b
     \<and> ep_consent_basis a = ep_consent_basis b"

text \<open>The scope in which an idempotency key is unique: the tenant.\<close>

definition episode_key :: "episode \<Rightarrow> tenant_id \<times> string" where
  "episode_key e = (ms_tenant_id (ep_scope e), ep_idempotency_key e)"

text \<open>\<open>next(\<dots>)\<close> without a default raises \<open>StopIteration\<close>, which a coroutine turns into a \<open>RuntimeError\<close>.\<close>

definition tx_append :: "memory_tx \<Rightarrow> episode \<Rightarrow> (append_result \<times> memory_tx) res" where
  "tx_append tx e =
     bindE (tx_require_usable tx) (\<lambda>_.
       case dict_get (tx_idempotency_index tx) (episode_key e) of
         Some existing_id \<Rightarrow>
           (case find (\<lambda>item. ep_id item = existing_id) (tx_episodes tx) of
              None \<Rightarrow> Inl (RuntimeError ''coroutine raised StopIteration'')
            | Some existing \<Rightarrow>
                if \<not> same_episode_request existing e then Inl EpisodeIdempotencyConflict
                else Inr (\<lparr>ar_episode_id = existing_id, ar_created = False\<rparr>, tx))
       | None \<Rightarrow> Inr (\<lparr>ar_episode_id = ep_id e, ar_created = True\<rparr>,
           tx\<lparr>tx_episodes := tx_episodes tx @ [e],
              tx_idempotency_index := dict_set (episode_key e) (ep_id e) (tx_idempotency_index tx)\<rparr>))"

definition tx_get :: "memory_tx \<Rightarrow> memory_scope \<Rightarrow> memory_id \<Rightarrow> episode option res" where
  "tx_get tx scope i = bindE (tx_require_usable tx) (\<lambda>_.
     Inr (find (\<lambda>e. ep_id e = i \<and> ep_scope e = scope) (tx_episodes tx)))"

definition stamp_key :: "datetime \<Rightarrow> uuid \<Rightarrow> int \<times> uuid" where
  "stamp_key ts u = (instant ts, u)"

definition ingest_key :: "episode \<Rightarrow> int \<times> uuid" where
  "ingest_key e = stamp_key (ep_ingested_at e) (memory_uuid (ep_id e))"

definition tx_stream :: "memory_tx \<Rightarrow> memory_scope \<Rightarrow> int option \<Rightarrow> string option \<Rightarrow> episode list res" where
  "tx_stream tx scope limit cursor =
     bindE (tx_require_usable tx) (\<lambda>_.
     bindE (check_stream_args limit cursor) (\<lambda>_.
       let rows = sort_key ingest_key (filter (\<lambda>e. ep_scope e = scope) (tx_episodes tx)) in
       bindE (case cursor of
           None \<Rightarrow> Inr rows
         | Some c \<Rightarrow> bindE (decode_episode_cursor c) (\<lambda>(cursor_at, cursor_id).
             Inr (filter (\<lambda>e. ingest_key e > stamp_key cursor_at (memory_uuid cursor_id)) rows)))
         (\<lambda>rows. Inr (slice limit rows))))"

section \<open>Claims and outbox\<close>

text \<open>Claims need the relational store: every operation of this one raises.\<close>

definition tx_claims_unavailable :: "memory_tx \<Rightarrow> 'a res" where
  "tx_claims_unavailable tx = bindE (tx_require_usable tx) (\<lambda>_. Inl ClaimsUnavailable)"

definition episode_recorded :: string where "episode_recorded = ''memory.episode-recorded''"
definition claim_proposed :: string where "claim_proposed = ''memory.claim-proposed''"
definition aggregate_unknown :: exn where
  "aggregate_unknown = ValueError ''outbox episode event aggregate is unknown''"
definition tenant_mismatch :: exn where
  "tenant_mismatch = ValueError ''outbox event tenant does not match episode tenant''"

definition tx_publish :: "memory_tx \<Rightarrow> event_envelope \<Rightarrow> memory_tx res" where
  "tx_publish tx event =
     bindE (tx_require_usable tx) (\<lambda>_.
     bindE (if ev_event_type event = episode_recorded then
         (case find (\<lambda>e. OfMemory (ep_id e) = ev_aggregate_id event) (tx_episodes tx) of
            None \<Rightarrow> Inl aggregate_unknown
          | Some aggregate \<Rightarrow> raise_if (ms_tenant_id (ep_scope aggregate) \<noteq> ev_tenant_id event) tenant_mismatch)
       else Inr ())
     (\<lambda>_. Inr (tx\<lparr>tx_events := tx_events tx @ [event]\<rparr>)))"

section \<open>The unit of work\<close>

text \<open>
  A unit of work and the database it holds a reference to. Entering waits while
  another unit of work holds the lock: \<open>None\<close> is the coroutine that waits.
\<close>

record memory_uow =
  uw_database :: memory_database
  uw_entered :: bool
  uw_state :: "memory_tx option"

definition uow_create :: "memory_database \<Rightarrow> memory_uow" where
  "uow_create db = \<lparr>uw_database = db, uw_entered = False, uw_state = None\<rparr>"

definition uow_enter :: "memory_uow \<Rightarrow> memory_uow res option" where
  "uow_enter u =
     (if uw_entered u then Some (Inl already_entered)
      else if md_locked (uw_database u) then None
      else Some (Inr \<lparr>uw_database = (uw_database u)\<lparr>md_locked := True\<rparr>, uw_entered = True,
             uw_state = Some (tx_begin (md_state (uw_database u)))\<rparr>))"

definition uow_exit :: "memory_uow \<Rightarrow> memory_uow res" where
  "uow_exit u = (case uw_state u of
       None \<Rightarrow> Inl not_active
     | Some tx \<Rightarrow> if \<not> tx_active tx then Inl not_active
         else Inr (u\<lparr>uw_database := (uw_database u)\<lparr>md_locked := False\<rparr>,
                     uw_state := Some (tx\<lparr>tx_active := False\<rparr>)\<rparr>))"

definition uow_require_usable :: "memory_uow \<Rightarrow> memory_tx res" where
  "uow_require_usable u = (case uw_state u of
       None \<Rightarrow> Inl not_active
     | Some tx \<Rightarrow> bindE (tx_require_usable tx) (\<lambda>_. Inr tx))"

text \<open>The stores of a unit of work share its transaction: an operation updates it in place.\<close>

definition uow_run :: "memory_uow \<Rightarrow> (memory_tx \<Rightarrow> ('a \<times> memory_tx) res) \<Rightarrow> ('a \<times> memory_uow) res" where
  "uow_run u f = bindE (uow_require_usable u) (\<lambda>tx. bindE (f tx) (\<lambda>(r, tx'). Inr (r, u\<lparr>uw_state := Some tx'\<rparr>)))"

definition uow_commit :: "memory_uow \<Rightarrow> memory_uow res" where
  "uow_commit u = bindE (uow_require_usable u) (\<lambda>tx.
     Inr (u\<lparr>uw_database := md_replace (tx_episodes tx) (tx_idempotency_index tx) (tx_events tx) (uw_database u),
            uw_state := Some (tx\<lparr>tx_committed := True\<rparr>)\<rparr>))"

section \<open>Life cycle\<close>

definition usable :: "memory_tx \<Rightarrow> bool" where
  "usable tx \<longleftrightarrow> tx_active tx \<and> \<not> tx_committed tx"

lemma tx_require_usable_Inr [simp]: "tx_require_usable tx = Inr u \<longleftrightarrow> usable tx"
  by (auto simp: tx_require_usable_def usable_def bindE_eq_Inr)

lemma usable_begin [simp]: "usable (tx_begin s)"
  by (simp add: usable_def tx_begin_def)

lemma tx_require_usable_ok [simp]: "usable tx \<Longrightarrow> tx_require_usable tx = Inr ()"
  by simp

text \<open>A unit of work is used once: it cannot be entered again, nor used after its commit or exit.\<close>

lemma uow_single_use:
  "uow_enter u = Some (Inr u') \<Longrightarrow> uow_enter u' = Some (Inl already_entered)"
  "uow_commit u = Inr u' \<Longrightarrow> uow_run u' f = Inl already_committed \<and> uow_commit u' = Inl already_committed"
  "uow_exit u = Inr u' \<Longrightarrow> uow_run u' f = Inl not_active \<and> uow_commit u' = Inl not_active \<and> uow_exit u' = Inl not_active"
  by (auto simp: uow_enter_def uow_commit_def uow_exit_def uow_run_def uow_require_usable_def bindE_eq_Inr
      tx_require_usable_def usable_def split: if_splits option.splits)

text \<open>While one unit of work is inside, another on the same database waits.\<close>

lemma uow_mutex:
  "uow_enter u = Some (Inr u') \<Longrightarrow> uow_enter (uow_create (uw_database u')) = None"
  by (auto simp: uow_enter_def uow_create_def split: if_splits)

text \<open>The database changes by a commit only: what is not committed is dropped by the exit.\<close>

lemma uow_run_database: "uow_run u f = Inr (r, u') \<Longrightarrow> uw_database u' = uw_database u"
  by (auto simp: uow_run_def bindE_eq_Inr)

lemma uow_exit_state: "uow_exit u = Inr u' \<Longrightarrow> md_state (uw_database u') = md_state (uw_database u)
    \<and> \<not> md_locked (uw_database u')"
  by (auto simp: uow_exit_def split: option.splits if_splits)

section \<open>The index and the episodes agree\<close>

text \<open>
  Identifiers are unique, and the index leads from a tenant's key to the one
  episode that was recorded under it.
\<close>

definition store_ok :: "episode list \<Rightarrow> (tenant_id \<times> string, memory_id) dict \<Rightarrow> bool" where
  "store_ok eps index \<longleftrightarrow> distinct (map ep_id eps) \<and> (\<forall>e \<in> set eps. episode_ok e)
     \<and> (\<forall>k i. dict_get index k = Some i \<longleftrightarrow> (\<exists>e \<in> set eps. ep_id e = i \<and> episode_key e = k))"

definition tx_ok :: "memory_tx \<Rightarrow> bool" where
  "tx_ok tx \<longleftrightarrow> usable tx \<and> store_ok (tx_episodes tx) (tx_idempotency_index tx)"

definition memory_ok :: "committed_memory_state \<Rightarrow> bool" where
  "memory_ok s \<longleftrightarrow> store_ok (cm_episodes s) (cm_idempotency_index s)"

lemma empty_memory_ok: "memory_ok empty_memory_state"
  by (simp add: memory_ok_def store_ok_def empty_memory_state_def)

lemma tx_begin_ok: "memory_ok s \<Longrightarrow> tx_ok (tx_begin s)"
  by (simp add: memory_ok_def tx_ok_def) (simp add: tx_begin_def)

lemma store_ok_unique_id:
  "store_ok eps index \<Longrightarrow> a \<in> set eps \<Longrightarrow> b \<in> set eps \<Longrightarrow> ep_id a = ep_id b \<Longrightarrow> a = b"
  by (auto simp: store_ok_def distinct_map inj_on_def)

lemma store_ok_get:
  "store_ok eps index \<Longrightarrow> dict_get index k = Some i \<longleftrightarrow> (\<exists>e \<in> set eps. ep_id e = i \<and> episode_key e = k)"
  unfolding store_ok_def by blast

lemma store_ok_unique_key:
  assumes "store_ok eps index" and "a \<in> set eps" and "b \<in> set eps" and "episode_key a = episode_key b"
  shows "a = b"
proof -
  have "dict_get index (episode_key a) = Some (ep_id a)" "dict_get index (episode_key b) = Some (ep_id b)"
    using assms(1-3) unfolding store_ok_def by blast+
  with assms(4) have "ep_id a = ep_id b" by simp
  then show ?thesis using store_ok_unique_id [OF assms(1-3)] by blast
qed

lemma find_by_id:
  assumes "distinct (map ep_id eps)" and "e \<in> set eps" and "ep_id e = i" and "P e"
  shows "find (\<lambda>x. ep_id x = i \<and> P x) eps = Some e"
proof -
  have u: "x = e" if "x \<in> set eps" "ep_id x = i" for x
    using assms(1-3) that by (auto simp: distinct_map inj_on_def)
  obtain x where x: "find (\<lambda>x. ep_id x = i \<and> P x) eps = Some x"
    using assms(2-4) by (cases "find (\<lambda>x. ep_id x = i \<and> P x) eps") (auto simp: find_None_iff)
  then have "x \<in> set eps" "ep_id x = i" by (auto simp: find_Some_iff)
  with u x show ?thesis by simp
qed

lemma tx_append_old:
  assumes "tx_ok tx" and "old \<in> set (tx_episodes tx)" and "episode_key old = episode_key e"
  shows "tx_append tx e = (if same_episode_request old e then Inr (\<lparr>ar_episode_id = ep_id old, ar_created = False\<rparr>, tx)
     else Inl EpisodeIdempotencyConflict)"
proof -
  have ix: "dict_get (tx_idempotency_index tx) (episode_key e) = Some (ep_id old)"
    using store_ok_get [of "tx_episodes tx" "tx_idempotency_index tx" "episode_key e" "ep_id old"] assms
    unfolding tx_ok_def by blast
  have "find (\<lambda>x. ep_id x = ep_id old) (tx_episodes tx) = Some old"
    using find_by_id [of "tx_episodes tx" old "ep_id old" "\<lambda>_. True"] assms(1,2) by (simp add: tx_ok_def store_ok_def)
  with ix assms(1) show ?thesis by (simp add: tx_append_def tx_ok_def)
qed

lemma tx_append_new:
  assumes "tx_ok tx" and "\<forall>x \<in> set (tx_episodes tx). episode_key x \<noteq> episode_key e"
  shows "tx_append tx e = Inr (\<lparr>ar_episode_id = ep_id e, ar_created = True\<rparr>,
      tx\<lparr>tx_episodes := tx_episodes tx @ [e],
         tx_idempotency_index := dict_set (episode_key e) (ep_id e) (tx_idempotency_index tx)\<rparr>)"
proof -
  have "dict_get (tx_idempotency_index tx) (episode_key e) = None"
    using store_ok_get [of "tx_episodes tx" "tx_idempotency_index tx" "episode_key e"] assms
    by (cases "dict_get (tx_idempotency_index tx) (episode_key e)") (auto simp: tx_ok_def)
  with assms(1) show ?thesis by (simp add: tx_append_def tx_ok_def)
qed

lemma store_ok_add:
  assumes "store_ok eps index" and "\<forall>x \<in> set eps. episode_key x \<noteq> episode_key e" and "ep_id e \<notin> ep_id ` set eps"
    and "episode_ok e"
  shows "store_ok (eps @ [e]) (dict_set (episode_key e) (ep_id e) index)"
  unfolding store_ok_def
proof (intro conjI allI)
  fix k i
  show "dict_get (dict_set (episode_key e) (ep_id e) index) k = Some i \<longleftrightarrow>
      (\<exists>x \<in> set (eps @ [e]). ep_id x = i \<and> episode_key x = k)"
  proof (cases "k = episode_key e")
    case True
    then show ?thesis using assms(2) by auto
  next
    case False
    have "dict_get index k = Some i \<longleftrightarrow> (\<exists>x \<in> set eps. ep_id x = i \<and> episode_key x = k)"
      using assms(1) unfolding store_ok_def by blast
    with False show ?thesis by auto
  qed
qed (use assms in \<open>auto simp: store_ok_def\<close>)

lemma tx_append_ok:
  assumes "tx_ok tx" and "episode_ok e" and "ep_id e \<notin> ep_id ` set (tx_episodes tx)"
    and "tx_append tx e = Inr (r, tx')"
  shows "tx_ok tx'"
proof (cases "\<exists>old \<in> set (tx_episodes tx). episode_key old = episode_key e")
  case True
  with tx_append_old [OF assms(1)] assms(1,4) show ?thesis by (auto split: if_splits)
next
  case False
  with tx_append_new [OF assms(1)] assms(4) have "tx' = tx\<lparr>tx_episodes := tx_episodes tx @ [e],
      tx_idempotency_index := dict_set (episode_key e) (ep_id e) (tx_idempotency_index tx)\<rparr>" by auto
  with store_ok_add [of "tx_episodes tx" "tx_idempotency_index tx" e] False assms(1-3) show ?thesis
    by (auto simp: tx_ok_def usable_def)
qed

lemma tx_get_eq:
  assumes "tx_ok tx" and "e \<in> set (tx_episodes tx)"
  shows "tx_get tx scope (ep_id e) = Inr (if ep_scope e = scope then Some e else None)"
proof -
  have d: "distinct (map ep_id (tx_episodes tx))" using assms(1) by (simp add: tx_ok_def store_ok_def)
  show ?thesis
  proof (cases "ep_scope e = scope")
    case True
    with find_by_id [OF d assms(2) refl, of "\<lambda>x. ep_scope x = scope"] assms(1) show ?thesis
      by (simp add: tx_get_def tx_ok_def)
  next
    case False
    have "\<forall>x \<in> set (tx_episodes tx). ep_id x = ep_id e \<longrightarrow> x = e"
      using d assms(2) by (auto simp: distinct_map inj_on_def)
    with False have "find (\<lambda>x. ep_id x = ep_id e \<and> ep_scope x = scope) (tx_episodes tx) = None"
      by (auto simp: find_None_iff)
    with False assms(1) show ?thesis by (simp add: tx_get_def tx_ok_def)
  qed
qed

text \<open>An event of another type, or of an episode of its tenant, is appended to the outbox.\<close>

lemma tx_publish_known:
  assumes "tx_ok tx" and "e \<in> set (tx_episodes tx)" and "ev_aggregate_id ev = OfMemory (ep_id e)"
    and "ev_tenant_id ev = ms_tenant_id (ep_scope e)"
  shows "tx_publish tx ev = Inr (tx\<lparr>tx_events := tx_events tx @ [ev]\<rparr>)"
proof -
  have "find (\<lambda>x. OfMemory (ep_id x) = ev_aggregate_id ev) (tx_episodes tx) = Some e"
    using find_by_id [of "tx_episodes tx" e "ep_id e" "\<lambda>_. True"] assms by (simp add: tx_ok_def store_ok_def)
  with assms show ?thesis by (simp add: tx_publish_def tx_ok_def)
qed

lemma tx_publish_unknown:
  assumes "usable tx" and "ev_event_type ev = episode_recorded" and "\<forall>e \<in> set (tx_episodes tx). ev_aggregate_id ev \<noteq> OfMemory (ep_id e)"
  shows "tx_publish tx ev = Inl aggregate_unknown"
proof -
  have "find (\<lambda>x. OfMemory (ep_id x) = ev_aggregate_id ev) (tx_episodes tx) = None"
    using assms(3) by (force simp: find_None_iff)
  with assms(1,2) show ?thesis by (simp add: tx_publish_def)
qed

section \<open>The listing of episodes\<close>

definition visible_episodes :: "memory_tx \<Rightarrow> memory_scope \<Rightarrow> episode list" where
  "visible_episodes tx scope = sort_key ingest_key (filter (\<lambda>e. ep_scope e = scope) (tx_episodes tx))"

definition episodes_listable :: "memory_tx \<Rightarrow> bool" where
  "episodes_listable tx \<longleftrightarrow> tx_ok tx \<and> (\<forall>e \<in> set (tx_episodes tx). in_range (instant (ep_ingested_at e)))"

definition episode_position :: "string \<Rightarrow> (int \<times> uuid) option" where
  "episode_position c = (case decode_episode_cursor c of Inl e \<Rightarrow> None
     | Inr (ts, i) \<Rightarrow> Some (stamp_key ts (memory_uuid i)))"

lemma episode_position_Some:
  "episode_position c = Some k \<Longrightarrow>
     \<exists>ts i. decode_episode_cursor c = Inr (ts, i) \<and> k = stamp_key ts (memory_uuid i)"
  unfolding episode_position_def by (cases "decode_episode_cursor c") auto

lemma sort_key_strict:
  assumes "distinct (map k rows)"
  shows "sorted_wrt (\<lambda>a b. k a < k b) (sort_key k rows)"
proof -
  have "distinct (map k (sort_key k rows))"
    using assms by (metis mset_eq_imp_distinct_iff mset_map mset_sort)
  then show ?thesis
    using sorted_wrt_map [of "(<)" k "sort_key k rows"] sorted_sort_key [of k rows] strict_sorted_iff by blast
qed

lemma encode_position:
  assumes "aware ts" and "in_range (instant ts)"
  shows "\<exists>c. encode_episode_cursor ts i = Inr c \<and> episode_position c = Some (stamp_key ts (memory_uuid i))"
proof -
  obtain c where c: "encode_episode_cursor ts i = Inr c" using episode_codec.enc_total [OF assms] by blast
  from episode_codec.dec_position [OF c] c show ?thesis by (auto simp: episode_position_def stamp_key_def)
qed

interpretation memory_episodes: keyset_store episodes_listable visible_episodes "(>)" ingest_key episode_position
    tx_stream "\<lambda>e. encode_episode_cursor (ep_ingested_at e) (ep_id e)"
proof
  show "strict_order ((>) :: int \<times> uuid \<Rightarrow> int \<times> uuid \<Rightarrow> bool)" by simp
next
  fix tx scope
  assume "episodes_listable tx"
  then have "distinct (map ep_id (tx_episodes tx))" by (simp add: episodes_listable_def tx_ok_def store_ok_def)
  then have "distinct (map ingest_key (filter (\<lambda>e. ep_scope e = scope) (tx_episodes tx)))"
    by (auto simp: distinct_map inj_on_def ingest_key_def stamp_key_def intro: memory_id.expand)
  then show "sorted_wrt (\<lambda>a b. ingest_key a < ingest_key b) (visible_episodes tx scope)"
    unfolding visible_episodes_def by (rule sort_key_strict)
next
  fix tx scope n cursor
  assume "episodes_listable tx" and n: "(0 :: int) < n"
    and "cursor = None \<or> (\<exists>c k. cursor = Some c \<and> episode_position c = Some k)"
  then consider "cursor = None"
    | c ts i where "cursor = Some c" "decode_episode_cursor c = Inr (ts, i)"
        "episode_position c = Some (stamp_key ts (memory_uuid i))"
    using episode_position_Some by metis
  moreover have "usable tx" using \<open>episodes_listable tx\<close> by (simp add: episodes_listable_def tx_ok_def)
  ultimately show "tx_stream tx scope (Some n) cursor
      = Inr (take (nat n) (rows_after (>) ingest_key (Option.bind cursor episode_position) (visible_episodes tx scope)))"
    using n by cases (simp_all add: tx_stream_def visible_episodes_def rows_after_def slice_def check_stream_args_def)
next
  fix tx scope e
  assume "episodes_listable tx" and "e \<in> set (visible_episodes tx scope)"
  then have "aware (ep_ingested_at e)" "in_range (instant (ep_ingested_at e))"
    by (auto simp: episodes_listable_def visible_episodes_def tx_ok_def store_ok_def episode_ok_def)
  then show "\<exists>c. encode_episode_cursor (ep_ingested_at e) (ep_id e) = Inr c \<and> episode_position c = Some (ingest_key e)"
    unfolding ingest_key_def by (rule encode_position)
qed

section \<open>Properties\<close>

text \<open>The work of a body: any operations of the stores that succeed, one after the other.\<close>

inductive uow_work :: "memory_uow \<Rightarrow> memory_uow \<Rightarrow> bool" where
  nothing: "uow_work u u"
| more: "uow_work u u' \<Longrightarrow> uow_run u' f = Inr ((), u'') \<Longrightarrow> uow_work u u''"

lemma uow_work_keeps:
  "uow_work u u' \<Longrightarrow> uw_database u' = uw_database u \<and> uw_entered u' = uw_entered u"
  by (induction rule: uow_work.induct) (auto simp: uow_run_def bindE_eq_Inr)

lemma uow_enter_Inr: "uow_enter u = Some (Inr u1) \<longleftrightarrow> \<not> uw_entered u \<and> \<not> md_locked (uw_database u)
    \<and> u1 = \<lparr>uw_database = (uw_database u)\<lparr>md_locked := True\<rparr>, uw_entered = True,
         uw_state = Some (tx_begin (md_state (uw_database u)))\<rparr>"
  by (auto simp: uow_enter_def)

text \<open>
  C26. The protocol of a unit of work. From its entry on, whatever its body did, it
  cannot be entered again and another one on the database waits. Leaving it without
  a commit drops everything the body did; a commit puts the episodes, the index and
  the events of the body in place together, once. Either way leaving frees the
  database, and nothing works on it afterwards.
\<close>

theorem unit_of_work_protocol:
  assumes "uow_enter u = Some (Inr u1)" and "uow_work u1 u2"
  shows "uow_enter u2 = Some (Inl already_entered) \<and> uow_enter (uow_create (uw_database u2)) = None
    \<and> (\<forall>u3. uow_exit u2 = Inr u3 \<longrightarrow> uw_database u3 = uw_database u \<and> uow_run u3 f = Inl not_active)
    \<and> (\<forall>u3 tx. uow_commit u2 = Inr u3 \<longrightarrow> uw_state u2 = Some tx \<longrightarrow>
         md_state (uw_database u3) = \<lparr>cm_episodes = tx_episodes tx,
           cm_idempotency_index = tx_idempotency_index tx, cm_events = tx_events tx\<rparr>
         \<and> uow_run u3 f = Inl already_committed \<and> uow_commit u3 = Inl already_committed
         \<and> (\<exists>u4. uow_exit u3 = Inr u4 \<and> \<not> md_locked (uw_database u4)
              \<and> md_state (uw_database u4) = md_state (uw_database u3) \<and> uow_run u4 f = Inl not_active))"
proof -
  have db: "uw_database u2 = (uw_database u)\<lparr>md_locked := True\<rparr>" "uw_entered u2" "\<not> md_locked (uw_database u)"
    using uow_work_keeps [OF assms(2)] assms(1) by (auto simp: uow_enter_Inr)
  then have "(uw_database u2)\<lparr>md_locked := False\<rparr> = uw_database u" by (cases "uw_database u") simp
  with db show ?thesis
    by (auto simp: uow_enter_def uow_create_def uow_exit_def uow_commit_def uow_run_def uow_require_usable_def
        tx_require_usable_def md_replace_def bindE_eq_Inr split: option.splits if_splits)
qed

theorem unit_of_work_protocol_witness:
  "\<exists>u1 u3. uow_enter (uow_create \<lparr>md_locked = False, md_state = empty_memory_state\<rparr>) = Some (Inr u1)
    \<and> uow_exit u1 = Inr u3 \<and> uw_database u3 = \<lparr>md_locked = False, md_state = empty_memory_state\<rparr>"
proof -
  let ?u = "uow_create \<lparr>md_locked = False, md_state = empty_memory_state\<rparr>"
  obtain u1 where u1: "uow_enter ?u = Some (Inr u1)" by (simp add: uow_enter_def uow_create_def)
  then obtain u3 where u3: "uow_exit u1 = Inr u3"
    by (auto simp: uow_enter_Inr uow_exit_def uow_create_def tx_begin_def)
  from unit_of_work_protocol [OF u1 uow_work.nothing] u1 u3 show ?thesis by (auto simp: uow_create_def)
qed

end
