(* ===== verification/Memory_App.thy ===== *)
theory Memory_App
  imports Memory_InMemory
begin

text \<open>
  The use cases of the memory module (\<open>memory/application/*.py\<close>) and the
  deterministic extractor, over the port of a unit of work. What recording an
  episode needs of a unit of work is the locale \<open>episode_recording\<close>; the
  in-memory adapter is interpreted here, the relational one in its own theory.
\<close>

section \<open>The port\<close>

text \<open>
  \<open>'d\<close> is the database, \<open>'u\<close> an entered unit of work on it; \<open>up_exit\<close> is the
  database that \<open>__aexit__\<close> leaves behind.
\<close>

record ('d, 'u) uow_port =
  up_enter :: "'d \<Rightarrow> 'u res"
  up_append :: "'u \<Rightarrow> episode \<Rightarrow> (append_result \<times> 'u) res"
  up_get :: "'u \<Rightarrow> memory_scope \<Rightarrow> memory_id \<Rightarrow> episode option res"
  up_stream :: "'u \<Rightarrow> memory_scope \<Rightarrow> int option \<Rightarrow> string option \<Rightarrow> episode list res"
  up_add_proposal :: "'u \<Rightarrow> claim \<Rightarrow> (add_proposal_result \<times> 'u) res"
  up_history :: "'u \<Rightarrow> memory_scope \<Rightarrow> memory_id \<Rightarrow> claim list res"
  up_claim_stream :: "'u \<Rightarrow> memory_scope \<Rightarrow> int option \<Rightarrow> string option \<Rightarrow> claim list res"
  up_publish :: "'u \<Rightarrow> event_envelope \<Rightarrow> 'u res"
  up_commit :: "'u \<Rightarrow> 'u res"
  up_exit :: "'u \<Rightarrow> 'd"

text \<open>
  \<open>async with factory.create() as unit_of_work: body\<close>. No body below raises after
  its commit, so an exception means that nothing was committed.
\<close>

definition with_uow :: "('d, 'u) uow_port \<Rightarrow> 'd \<Rightarrow> ('u \<Rightarrow> ('a \<times> 'u) res) \<Rightarrow> 'a res \<times> 'd" where
  "with_uow port db body = (case up_enter port db of
       Inl e \<Rightarrow> (Inl e, db)
     | Inr u \<Rightarrow> (case body u of
           Inl e \<Rightarrow> (Inl e, db)
         | Inr (r, u') \<Rightarrow> (Inr r, up_exit port u')))"

section \<open>Recording an episode\<close>

definition scope_payload :: "memory_scope \<Rightarrow> pyval" where
  "scope_payload s = obj
     [(''subject_id'', VStr (uuid_text (subject_uuid (ms_subject_id s)))),
      (''workspace_id'', opt_val VStr (ms_workspace_id s)),
      (''agent_id'', opt_val (\<lambda>a. VStr (uuid_text (agent_instance_uuid a))) (ms_agent_id s))]"

definition episode_recorded_payload :: "record_episode_command \<Rightarrow> memory_id \<Rightarrow> datetime \<Rightarrow> datetime \<Rightarrow> pyval" where
  "episode_recorded_payload c episode_id observed_at ingested_at = obj
     [(''episode_id'', VStr (uuid_text (memory_uuid episode_id))),
      (''scope'', scope_payload (rc_scope c)),
      (''actor_id'', VStr (uuid_text (subject_uuid (rc_actor_id c)))),
      (''source_type'', VStr (source_type_value (rc_source_type c))),
      (''content_ref'', VStr (uuid_text (artifact_uuid (rc_content_ref c)))),
      (''observed_at'', VStr (isoformat observed_at)),
      (''ingested_at'', VStr (isoformat ingested_at)),
      (''content_hash'', VStr (rc_content_hash c)),
      (''idempotency_key'', VStr (rc_idempotency_key c)),
      (''sensitivity'', VStr (sensitivity_value (rc_sensitivity c))),
      (''retention_class'', VStr (retention_class_value (rc_retention_class c))),
      (''consent_basis'', VStr (rc_consent_basis c))]"

definition command_episode :: "record_episode_command \<Rightarrow> memory_id \<Rightarrow> datetime \<Rightarrow> datetime \<Rightarrow> episode" where
  "command_episode c new_id observed_at ingested_at =
     \<lparr>ep_id = new_id, ep_scope = rc_scope c, ep_actor_id = rc_actor_id c, ep_source_type = rc_source_type c,
      ep_content_ref = rc_content_ref c, ep_observed_at = observed_at, ep_ingested_at = ingested_at,
      ep_content_hash = rc_content_hash c, ep_idempotency_key = rc_idempotency_key c,
      ep_sensitivity = rc_sensitivity c, ep_retention_class = rc_retention_class c,
      ep_consent_basis = rc_consent_basis c\<rparr>"

definition command_event :: "record_episode_command \<Rightarrow> event_id \<Rightarrow> memory_id \<Rightarrow> datetime \<Rightarrow> datetime \<Rightarrow> event_envelope" where
  "command_event c new_event_id episode_id observed_at ingested_at =
     \<lparr>ev_event_id = new_event_id, ev_event_type = episode_recorded, ev_schema_version = 1,
      ev_tenant_id = ms_tenant_id (rc_scope c), ev_aggregate_id = OfMemory episode_id, ev_aggregate_version = 1,
      ev_correlation_id = rc_correlation_id c, ev_causation_id = None, ev_occurred_at = ingested_at,
      ev_payload = episode_recorded_payload c episode_id observed_at ingested_at\<rparr>"

definition record_episode_handle ::
    "('d, 'u) uow_port \<Rightarrow> (authorization_request \<Rightarrow> bool) \<Rightarrow> datetime \<Rightarrow> memory_id \<Rightarrow> event_id \<Rightarrow> 'd
      \<Rightarrow> record_episode_command \<Rightarrow> record_episode_result res \<times> 'd" where
  "record_episode_handle port authorize now new_id new_event_id db c =
     (if \<not> authorize \<lparr>rq_actor_id = rc_actor_id c, rq_scope = rc_scope c, rq_action = ''record_episode'',
           rq_sensitivity = rc_sensitivity c\<rparr>
      then (Inl EpisodeAuthorizationDenied, db)
      else case bindE (canonical_utc now ''clock now'') (\<lambda>ingested_at.
             bindE (canonical_utc (rc_observed_at c) ''observed_at'') (\<lambda>observed_at.
             bindE (mk_episode (command_episode c new_id observed_at ingested_at)) (\<lambda>e. Inr (observed_at, ingested_at, e)))) of
          Inl e \<Rightarrow> (Inl e, db)
        | Inr (observed_at, ingested_at, e) \<Rightarrow>
            with_uow port db (\<lambda>u.
              bindE (up_append port u e) (\<lambda>(r, u1).
              bindE (raise_if (ar_created r \<and> ar_episode_id r \<noteq> ep_id e)
                       (RuntimeError ''created episode ID does not match generated episode ID'')) (\<lambda>_.
              bindE (if ar_created r then
                       bindE (mk_event (command_event c new_event_id (ar_episode_id r) observed_at ingested_at))
                         (up_publish port u1)
                     else Inr u1) (\<lambda>u2.
              bindE (up_commit port u2) (\<lambda>u3.
                Inr (\<lparr>rr_episode_id = ar_episode_id r, rr_created = ar_created r\<rparr>, u3)))))))"

section \<open>Reading\<close>

definition read_request :: "get_query \<Rightarrow> string \<Rightarrow> authorization_request" where
  "read_request q action = \<lparr>rq_actor_id = gq_actor_id q, rq_scope = gq_scope q, rq_action = action, rq_sensitivity = INTERNAL\<rparr>"

definition list_request :: "list_query \<Rightarrow> string \<Rightarrow> authorization_request" where
  "list_request q action = \<lparr>rq_actor_id = lq_actor_id q, rq_scope = lq_scope q, rq_action = action, rq_sensitivity = INTERNAL\<rparr>"

text \<open>The readers do not commit: what their unit of work leaves is what it found.\<close>

definition get_episode_handle ::
    "('d, 'u) uow_port \<Rightarrow> (authorization_request \<Rightarrow> bool) \<Rightarrow> 'd \<Rightarrow> get_query \<Rightarrow> episode res" where
  "get_episode_handle port authorize db q =
     (if \<not> authorize (read_request q ''read_episode'') then Inl EpisodeReadAuthorizationDenied
      else bindE (fst (with_uow port db (\<lambda>u. bindE (up_get port u (gq_scope q) (gq_id q)) (\<lambda>r. Inr (r, u))))) (\<lambda>r.
        case r of None \<Rightarrow> Inl EpisodeNotFound | Some e \<Rightarrow> Inr e))"

definition list_episodes_handle ::
    "('d, 'u) uow_port \<Rightarrow> (authorization_request \<Rightarrow> bool) \<Rightarrow> 'd \<Rightarrow> list_query \<Rightarrow> episode list_result res" where
  "list_episodes_handle port authorize db q =
     (if \<not> authorize (list_request q ''read_episode'') then Inl EpisodeReadAuthorizationDenied
      else bindE (fst (with_uow port db (\<lambda>u.
          bindE (up_stream port u (lq_scope q) (Some (lq_limit q + 1)) (lq_cursor q)) (\<lambda>rows. Inr (rows, u)))))
        (cut_page (\<lambda>e. e) (\<lambda>e. encode_episode_cursor (ep_ingested_at e) (ep_id e)) (lq_limit q)))"

definition get_claim_handle ::
    "('d, 'u) uow_port \<Rightarrow> (authorization_request \<Rightarrow> bool) \<Rightarrow> 'd \<Rightarrow> get_query \<Rightarrow> claim res" where
  "get_claim_handle port authorize db q =
     (if \<not> authorize (read_request q ''read_claim'') then Inl ClaimReadAuthorizationDenied
      else bindE (fst (with_uow port db (\<lambda>u. bindE (up_history port u (gq_scope q) (gq_id q)) (\<lambda>r. Inr (r, u))))) (\<lambda>r.
        case r of [] \<Rightarrow> Inl ClaimNotFound | c # cs \<Rightarrow> Inr c))"

definition list_claims_handle ::
    "('d, 'u) uow_port \<Rightarrow> (authorization_request \<Rightarrow> bool) \<Rightarrow> 'd \<Rightarrow> list_query \<Rightarrow> claim list_result res" where
  "list_claims_handle port authorize db q =
     (if \<not> authorize (list_request q ''read_claim'') then Inl ClaimReadAuthorizationDenied
      else bindE (fst (with_uow port db (\<lambda>u.
          bindE (up_claim_stream port u (lq_scope q) (Some (lq_limit q + 1)) (lq_cursor q)) (\<lambda>rows. Inr (rows, u)))))
        (cut_page (\<lambda>c. c) (\<lambda>c. encode_claim_cursor (cl_recorded_from c) (cl_id c)) (lq_limit q)))"

section \<open>Extracting claims\<close>

text \<open>
  \<open>UUID(str(v))\<close>: the text of a float, a truth value, \<open>None\<close> or a container is never
  32 hexadecimal digits; the decimal text of an integer can be.
\<close>

definition show_int :: "int \<Rightarrow> string" where
  "show_int n = (if n < 0 then ''-'' else []) @ show_nat (nat \<bar>n\<bar>)"

fun uuid_of_str :: "pyval \<Rightarrow> uuid res" where
  "uuid_of_str (VStr s) = parse_uuid s"
| "uuid_of_str (VInt n) = parse_uuid (show_int n)"
| "uuid_of_str v = Inl (ValueError ''badly formed hexadecimal UUID string'')"

text \<open>A workspace identifier that is neither text nor \<open>None\<close> has no \<open>strip\<close>.\<close>

fun workspace_of :: "pyval option \<Rightarrow> string option res" where
  "workspace_of None = Inr None"
| "workspace_of (Some VNone) = Inr None"
| "workspace_of (Some (VStr s)) = Inr (Some s)"
| "workspace_of (Some v) = Inl AttributeError"

definition scope_from_episode_recorded_event :: "event_envelope \<Rightarrow> (memory_scope \<times> memory_id) res" where
  "scope_from_episode_recorded_event event =
     (let payload = ev_payload event in
     bindE (vitem payload ''scope'') (\<lambda>scope_raw.
     bindE (raise_if (\<not> is_mapping scope_raw) (TypeError ''payload.scope must be an object'')) (\<lambda>_.
     bindE (raise_if (vget scope_raw ''tenant_id'' \<noteq> None)
              (ValueError ''payload.scope must not contain tenant_id'')) (\<lambda>_.
     bindE (vitem scope_raw ''subject_id'') (\<lambda>subject_raw.
     bindE (uuid_of_str subject_raw) (\<lambda>subject.
     bindE (case vget scope_raw ''agent_id'' of
         None \<Rightarrow> Inr None
       | Some VNone \<Rightarrow> Inr None
       | Some v \<Rightarrow> bindE (uuid_of_str v) (\<lambda>a. Inr (Some (AgentInstanceId a)))) (\<lambda>agent.
     bindE (workspace_of (vget scope_raw ''workspace_id'')) (\<lambda>workspace.
     bindE (mk_memory_scope \<lparr>ms_tenant_id = ev_tenant_id event, ms_subject_id = SubjectId subject,
         ms_workspace_id = workspace, ms_agent_id = agent\<rparr>) (\<lambda>scope.
     bindE (vitem payload ''episode_id'') (\<lambda>episode_raw.
     bindE (uuid_of_str episode_raw) (\<lambda>episode.
       Inr (scope, MemoryId episode))))))))))))"

definition claim_proposed_payload :: "claim \<Rightarrow> memory_id \<Rightarrow> pyval res" where
  "claim_proposed_payload c episode_id = (case cl_evidence c of
       [] \<Rightarrow> Inl IndexError
     | evidence # _ \<Rightarrow>
     bindE (raise_if (er_episode_id evidence \<noteq> episode_id)
              (ValueError ''episode_id must match claim evidence episode_id'')) (\<lambda>_.
     Inr (obj
       [(''claim_id'', VStr (uuid_text (memory_uuid (cl_id c)))),
        (''episode_id'', VStr (uuid_text (memory_uuid episode_id))),
        (''scope'', scope_payload (cl_scope c)),
        (''subject'', VStr (cl_subject c)),
        (''predicate'', VStr (cl_predicate c)),
        (''object_value'', VStr (cl_object_value c)),
        (''polarity'', VBool (cl_polarity c)),
        (''epistemic_kind'', VStr (epistemic_kind_value (cl_epistemic_kind c))),
        (''confidence'', VFloat (cl_confidence c)),
        (''valid_from'', VStr (isoformat (cl_valid_from c))),
        (''valid_to'', opt_val (\<lambda>d. VStr (isoformat d)) (cl_valid_to c)),
        (''recorded_from'', VStr (isoformat (cl_recorded_from c))),
        (''status'', VStr (claim_status_value (cl_status c))),
        (''extractor_version'', VStr (er_extractor_version evidence)),
        (''evidence'', VList [obj
          [(''episode_id'', VStr (uuid_text (memory_uuid (er_episode_id evidence)))),
           (''source_span'', VStr (er_source_span evidence)),
           (''extractor_version'', VStr (er_extractor_version evidence))]])])))"

text \<open>The loop over the proposals: \<open>mids n\<close> and \<open>eids n\<close> are what the \<open>n\<close>-th draw of each kind gives.\<close>

fun persist_proposals ::
    "('d, 'u) uow_port \<Rightarrow> (nat \<Rightarrow> memory_id) \<Rightarrow> (nat \<Rightarrow> event_id) \<Rightarrow> event_envelope \<Rightarrow> memory_id
      \<Rightarrow> nat \<Rightarrow> nat \<Rightarrow> claim list \<Rightarrow> 'u \<Rightarrow> 'u res" where
  "persist_proposals port mids eids event episode_id m n [] u = Inr u"
| "persist_proposals port mids eids event episode_id m n (p # ps) u =
     bindE (mk_claim (p\<lparr>cl_id := mids m\<rparr>)) (\<lambda>c.
     bindE (up_add_proposal port u c) (\<lambda>(r, u1).
       if apr_created r then
         bindE (claim_proposed_payload c episode_id) (\<lambda>payload.
         bindE (mk_event \<lparr>ev_event_id = eids n, ev_event_type = claim_proposed, ev_schema_version = 1,
             ev_tenant_id = ms_tenant_id (cl_scope c), ev_aggregate_id = OfMemory (apr_claim_id r),
             ev_aggregate_version = 1, ev_correlation_id = ev_correlation_id event,
             ev_causation_id = Some (ev_event_id event), ev_occurred_at = cl_recorded_from c,
             ev_payload = payload\<rparr>) (\<lambda>e.
         bindE (up_publish port u1 e) (\<lambda>u2.
           persist_proposals port mids eids event episode_id (Suc m) (Suc n) ps u2)))
       else persist_proposals port mids eids event episode_id (Suc m) n ps u1))"

definition extract_claims_handle ::
    "('d, 'u) uow_port \<Rightarrow> (episode \<Rightarrow> claim list res) \<Rightarrow> (nat \<Rightarrow> memory_id) \<Rightarrow> (nat \<Rightarrow> event_id) \<Rightarrow> bool
      \<Rightarrow> 'd \<Rightarrow> event_envelope \<Rightarrow> unit res \<times> 'd" where
  "extract_claims_handle port propose mids eids enabled db event =
     (if \<not> enabled then (Inr (), db)
      else case scope_from_episode_recorded_event event of
          Inl e \<Rightarrow> (Inl e, db)
        | Inr (scope, episode_id) \<Rightarrow>
            with_uow port db (\<lambda>u.
              bindE (up_get port u scope episode_id) (\<lambda>found.
              case found of
                None \<Rightarrow> Inl (ValueError (''episode '' @ uuid_text (memory_uuid episode_id)
                          @ '' not found for claim extraction''))
              | Some e \<Rightarrow>
                  bindE (propose e) (\<lambda>proposals.
                  bindE (persist_proposals port mids eids event episode_id 0 0 proposals u) (\<lambda>u1.
                  bindE (up_commit port u1) (\<lambda>u2. Inr ((), u2)))))))"

definition sentinel_claim_id :: memory_id where
  "sentinel_claim_id = MemoryId (UUID 0)"

definition deterministic_propose :: "string \<Rightarrow> episode \<Rightarrow> claim list res" where
  "deterministic_propose extractor_version e =
     bindE (mk_evidence_ref \<lparr>er_episode_id = ep_id e, er_source_span = ''metadata'',
         er_extractor_version = extractor_version, er_model_ref = None, er_prompt_version = None\<rparr>) (\<lambda>ref.
     bindE (mk_claim \<lparr>cl_id = sentinel_claim_id, cl_scope = ep_scope e,
         cl_subject = uuid_text (subject_uuid (ms_subject_id (ep_scope e))),
         cl_predicate = ''observed_content_hash'', cl_object_value = ep_content_hash e, cl_polarity = True,
         cl_epistemic_kind = EXTRACTED, cl_confidence = Finite 1, cl_valid_from = ep_observed_at e,
         cl_valid_to = None, cl_recorded_from = ep_ingested_at e, cl_recorded_to = None,
         cl_status = PROPOSED, cl_evidence = [ref]\<rparr>) (\<lambda>c. Inr [c]))"

section \<open>Consuming events\<close>

definition required_payload_fields :: "string list" where
  "required_payload_fields = [''episode_id'', ''scope'', ''actor_id'', ''source_type'', ''content_ref'', ''observed_at'',
     ''ingested_at'', ''content_hash'', ''idempotency_key'', ''sensitivity'', ''retention_class'', ''consent_basis'']"

fun require_fields :: "pyval \<Rightarrow> string \<Rightarrow> string list \<Rightarrow> unit res" where
  "require_fields v what [] = Inr ()"
| "require_fields v what (f # fs) =
     bindE (raise_if (vget v f = None) (ValueError (what @ '' missing required field '' @ [CHR 0x27] @ f @ [CHR 0x27])))
       (\<lambda>_. require_fields v what fs)"

definition processor_supports :: "string \<Rightarrow> bool" where
  "processor_supports event_type \<longleftrightarrow> event_type = episode_recorded"

text \<open>The checks of \<open>EpisodeRecordedProcessor.process\<close> before it calls the extraction.\<close>

definition check_episode_recorded :: "event_envelope \<Rightarrow> unit res" where
  "check_episode_recorded event =
     (let payload = ev_payload event in
     bindE (raise_if (ev_event_type event \<noteq> episode_recorded)
              (ValueError (''expected event_type '' @ [CHR 0x27] @ episode_recorded @ [CHR 0x27]))) (\<lambda>_.
     bindE (raise_if (ev_schema_version event \<noteq> 1) (ValueError ''schema_version must be 1'')) (\<lambda>_.
     bindE (require_fields payload ''payload'' required_payload_fields) (\<lambda>_.
     bindE (raise_if (vget payload ''episode_id'' \<noteq> Some (VStr (uuid_text (uuid_value_uuid (ev_aggregate_id event)))))
              (ValueError ''aggregate_id must match payload episode_id'')) (\<lambda>_.
     bindE (vitem payload ''scope'') (\<lambda>scope.
     bindE (raise_if (\<not> is_mapping scope) (TypeError ''payload.scope must be an object'')) (\<lambda>_.
     bindE (raise_if (vget scope ''tenant_id'' \<noteq> None)
              (ValueError ''payload.scope must not contain tenant_id'')) (\<lambda>_.
       require_fields scope ''payload.scope'' [''subject_id'']))))))))"

definition episode_recorded_process ::
    "('w \<Rightarrow> event_envelope \<Rightarrow> unit res \<times> 'w) \<Rightarrow> 'w \<Rightarrow> event_envelope \<Rightarrow> unit res \<times> 'w" where
  "episode_recorded_process extraction w event = (case check_episode_recorded event of
       Inl e \<Rightarrow> (Inl e, w)
     | Inr _ \<Rightarrow> extraction w event)"

section \<open>The contract of a unit of work\<close>

text \<open>
  The part of an event that every adapter keeps: a row forgets the class of the
  aggregate's identifier.
\<close>

definition event_digest :: "event_envelope \<Rightarrow> event_id \<times> string \<times> tenant_id \<times> uuid" where
  "event_digest e = (ev_event_id e, ev_event_type e, ev_tenant_id e, uuid_value_uuid (ev_aggregate_id e))"

definition scope_ok :: "memory_scope \<Rightarrow> bool" where
  "scope_ok s \<longleftrightarrow> (\<forall>w. ms_workspace_id s = Some w \<longrightarrow> \<not> blank w)"

definition in_utc :: "datetime \<Rightarrow> bool" where
  "in_utc d \<longleftrightarrow> utcoffset d = Some 0 \<and> in_range (wall d)"

text \<open>
  \<open>eps\<close> and \<open>evs\<close> are the episodes and the outbox that a unit of work sees, \<open>deps\<close>
  and \<open>devs\<close> those of the database.
\<close>

locale episode_recording =
  fixes port :: "('d, 'u) uow_port"
    and ok :: "'d \<Rightarrow> bool" and uok :: "'u \<Rightarrow> bool"
    and deps :: "'d \<Rightarrow> episode set" and eps :: "'u \<Rightarrow> episode set"
    and devs :: "'d \<Rightarrow> (event_id \<times> string \<times> tenant_id \<times> uuid) list"
    and evs :: "'u \<Rightarrow> (event_id \<times> string \<times> tenant_id \<times> uuid) list"
  assumes enter: "ok d \<Longrightarrow> \<exists>u. up_enter port d = Inr u \<and> uok u \<and> eps u = deps d \<and> evs u = devs d"
    and append_old: "uok u \<Longrightarrow> old \<in> eps u \<Longrightarrow> episode_key old = episode_key e \<Longrightarrow>
      up_append port u e = (if same_episode_request old e then Inr (\<lparr>ar_episode_id = ep_id old, ar_created = False\<rparr>, u)
        else Inl EpisodeIdempotencyConflict)"
    and append_new: "uok u \<Longrightarrow> episode_ok e \<Longrightarrow> scope_ok (ep_scope e) \<Longrightarrow> in_utc (ep_observed_at e) \<Longrightarrow> in_utc (ep_ingested_at e) \<Longrightarrow>
      \<forall>x \<in> eps u. episode_key x \<noteq> episode_key e \<Longrightarrow> ep_id e \<notin> ep_id ` eps u \<Longrightarrow>
      \<exists>u'. up_append port u e = Inr (\<lparr>ar_episode_id = ep_id e, ar_created = True\<rparr>, u') \<and> uok u'
        \<and> eps u' = insert e (eps u) \<and> evs u' = evs u"
    and publish: "uok u \<Longrightarrow> e \<in> eps u \<Longrightarrow> event_ok ev \<Longrightarrow> in_utc (ev_occurred_at ev) \<Longrightarrow>
      ev_event_type ev = episode_recorded \<Longrightarrow> ev_aggregate_id ev = OfMemory (ep_id e) \<Longrightarrow>
      ev_tenant_id ev = ms_tenant_id (ep_scope e) \<Longrightarrow> ev_event_id ev \<notin> fst ` set (evs u) \<Longrightarrow>
      \<exists>u'. up_publish port u ev = Inr u' \<and> uok u' \<and> eps u' = eps u \<and> evs u' = evs u @ [event_digest ev]"
    and commit: "uok u \<Longrightarrow> \<exists>u'. up_commit port u = Inr u' \<and> ok (up_exit port u')
      \<and> deps (up_exit port u') = eps u \<and> devs (up_exit port u') = evs u"

lemma canonical_in_utc: "canonical_utc d n = Inr u \<Longrightarrow> in_utc u \<and> aware u"
  by (auto simp: canonical_utc_Inr in_utc_def aware_def)

text \<open>
  A command that can be recorded at \<open>now\<close>: it and its scope passed their
  constructors, and the dates are in range.
\<close>

definition recordable :: "record_episode_command \<Rightarrow> datetime \<Rightarrow> bool" where
  "recordable c now \<longleftrightarrow> command_ok c \<and> scope_ok (rc_scope c) \<and> aware now \<and> in_range (instant now) \<and> in_range (instant (rc_observed_at c))"

definition utc :: "datetime \<Rightarrow> datetime" where
  "utc d = DateTime (instant d) (Some 0)"

definition record_request :: "record_episode_command \<Rightarrow> authorization_request" where
  "record_request c = \<lparr>rq_actor_id = rc_actor_id c, rq_scope = rc_scope c, rq_action = ''record_episode'',
     rq_sensitivity = rc_sensitivity c\<rparr>"

definition new_episode :: "record_episode_command \<Rightarrow> memory_id \<Rightarrow> datetime \<Rightarrow> episode" where
  "new_episode c i now = command_episode c i (utc (rc_observed_at c)) (utc now)"

lemma recordable_new_episode:
  assumes "recordable c now"
  shows "canonical_utc now n = Inr (utc now)" "canonical_utc (rc_observed_at c) n = Inr (utc (rc_observed_at c))"
    and "mk_episode (new_episode c i now) = Inr (new_episode c i now)" "episode_ok (new_episode c i now)"
    and "scope_ok (ep_scope (new_episode c i now))"
    and "in_utc (ep_observed_at (new_episode c i now))" "in_utc (ep_ingested_at (new_episode c i now))"
proof -
  have "aware (utc d)" for d by (simp add: aware_def utc_def)
  with assms show "episode_ok (new_episode c i now)"
    by (simp add: episode_ok_def new_episode_def command_episode_def recordable_def command_ok_def)
  then show "mk_episode (new_episode c i now) = Inr (new_episode c i now)" by (simp add: mk_episode_Inr)
  show "canonical_utc now n = Inr (utc now)" "canonical_utc (rc_observed_at c) n = Inr (utc (rc_observed_at c))"
    using assms by (auto simp: canonical_utc_Inr utc_def recordable_def command_ok_def)
  show "scope_ok (ep_scope (new_episode c i now))"
    using assms by (simp add: new_episode_def command_episode_def recordable_def)
  show "in_utc (ep_observed_at (new_episode c i now))" "in_utc (ep_ingested_at (new_episode c i now))"
    using assms by (auto simp: new_episode_def command_episode_def in_utc_def utc_def recordable_def)
qed

definition new_event :: "record_episode_command \<Rightarrow> event_id \<Rightarrow> memory_id \<Rightarrow> datetime \<Rightarrow> event_envelope" where
  "new_event c ei i now = (command_event c ei i (utc (rc_observed_at c)) (utc now))
     \<lparr>ev_payload := (case freeze_json_value (episode_recorded_payload c i (utc (rc_observed_at c)) (utc now)) ''payload''
        of Inr p \<Rightarrow> p | Inl _ \<Rightarrow> VNone)\<rparr>"

lemma freeze_scope_payload: "\<exists>p. freeze_json_value (scope_payload s) path = Inr p"
  by (cases "ms_workspace_id s"; cases "ms_agent_id s") (simp_all add: scope_payload_def obj_def opt_val_def)

lemma freeze_recorded_payload:
  "\<exists>p. freeze_json_value (episode_recorded_payload c i o' t) path = Inr p \<and> is_mapping p"
proof -
  obtain q where "freeze_json_value (scope_payload (rc_scope c)) (path @ ''.'' @ ''scope'') = Inr q"
    using freeze_scope_payload by blast
  then show ?thesis by (simp add: episode_recorded_payload_def obj_def)
qed

lemma recorded_event_made:
  assumes "recordable c now"
  shows "mk_event (command_event c ei i (utc (rc_observed_at c)) (utc now)) = Inr (new_event c ei i now)"
    and "event_ok (new_event c ei i now)" "in_utc (ev_occurred_at (new_event c ei i now))"
    and "ev_event_type (new_event c ei i now) = episode_recorded"
    "ev_aggregate_id (new_event c ei i now) = OfMemory i" "ev_event_id (new_event c ei i now) = ei"
    "ev_tenant_id (new_event c ei i now) = ms_tenant_id (rc_scope c)"
proof -
  obtain p where "freeze_json_value (episode_recorded_payload c i (utc (rc_observed_at c)) (utc now)) ''payload'' = Inr p"
    "is_mapping p" using freeze_recorded_payload by blast
  moreover have "\<not> blank episode_recorded" by (simp add: episode_recorded_def blank_iff is_space_def)
  ultimately show mk: "mk_event (command_event c ei i (utc (rc_observed_at c)) (utc now)) = Inr (new_event c ei i now)"
    by (simp add: mk_event_eq_Inr new_event_def command_event_def) (simp add: utc_def aware_def)
  then show "event_ok (new_event c ei i now)" by (rule mk_event_ok)
  show "in_utc (ev_occurred_at (new_event c ei i now))" "ev_event_type (new_event c ei i now) = episode_recorded"
    "ev_aggregate_id (new_event c ei i now) = OfMemory i" "ev_event_id (new_event c ei i now) = ei"
    "ev_tenant_id (new_event c ei i now) = ms_tenant_id (rc_scope c)"
    using assms by (simp_all add: new_event_def command_event_def in_utc_def utc_def recordable_def)
qed

context episode_recording
begin

text \<open>The first request of a key: one episode and its one event, committed together.\<close>

lemma record_new:
  assumes "ok d" and "authorize (record_request c)" and "recordable c now"
    and "\<forall>x \<in> deps d. episode_key x \<noteq> (ms_tenant_id (rc_scope c), rc_idempotency_key c)"
    and "i \<notin> ep_id ` deps d" and "ei \<notin> fst ` set (devs d)"
  shows "\<exists>d'. record_episode_handle port authorize now i ei d c = (Inr \<lparr>rr_episode_id = i, rr_created = True\<rparr>, d')
    \<and> ok d' \<and> deps d' = insert (new_episode c i now) (deps d)
    \<and> devs d' = devs d @ [event_digest (new_event c ei i now)]"
proof -
  let ?e = "new_episode c i now" and ?ev = "new_event c ei i now"
  note e = recordable_new_episode(1,2) [OF assms(3)] recordable_new_episode(3-7) [OF assms(3), where i = i]
  note ev = recorded_event_made [OF assms(3), where i = i and ei = ei]
  have e': "ep_id ?e = i" "ep_scope ?e = rc_scope c" "episode_key ?e = (ms_tenant_id (rc_scope c), rc_idempotency_key c)"
    by (simp_all add: new_episode_def command_episode_def episode_key_def)
  from enter [OF assms(1)] obtain u where u: "up_enter port d = Inr u" "uok u" "eps u = deps d" "evs u = devs d" by blast
  from append_new [OF u(2) e(4-7)] u(3) e' assms(4,5) obtain u1 where
    u1: "up_append port u ?e = Inr (\<lparr>ar_episode_id = i, ar_created = True\<rparr>, u1)" "uok u1"
      "eps u1 = insert ?e (deps d)" "evs u1 = devs d" using u(4) by auto
  from publish [OF u1(2) _ ev(2-4), of ?e] ev(5-7) e' u1(3,4) assms(6) obtain u2 where
    u2: "up_publish port u1 ?ev = Inr u2" "uok u2" "eps u2 = insert ?e (deps d)" "evs u2 = devs d @ [event_digest ?ev]"
    by auto
  from commit [OF u2(2)] obtain u3 where
    u3: "up_commit port u2 = Inr u3" "ok (up_exit port u3)" "deps (up_exit port u3) = eps u2" "devs (up_exit port u3) = evs u2"
    by blast
  have "record_episode_handle port authorize now i ei d c
      = (Inr \<lparr>rr_episode_id = i, rr_created = True\<rparr>, up_exit port u3)"
    using assms(2) u(1) u1(1) u2(1) u3(1) e(1-3) e'(1) ev(1)
    by (simp add: record_episode_handle_def record_request_def with_uow_def new_episode_def [symmetric])
  with u2 u3 show ?thesis by auto
qed

text \<open>A replay finds the episode of the key; nothing is added.\<close>

lemma record_replay:
  assumes "ok d" and "authorize (record_request c)" and "recordable c now" and "old \<in> deps d"
    and "episode_key old = (ms_tenant_id (rc_scope c), rc_idempotency_key c)"
    and "same_episode_request old (new_episode c i now)"
  shows "\<exists>d'. record_episode_handle port authorize now i ei d c
      = (Inr \<lparr>rr_episode_id = ep_id old, rr_created = False\<rparr>, d') \<and> ok d' \<and> deps d' = deps d \<and> devs d' = devs d"
proof -
  let ?e = "new_episode c i now"
  note e = recordable_new_episode(1,2) [OF assms(3)] recordable_new_episode(3-7) [OF assms(3), where i = i]
  have key: "episode_key old = episode_key ?e" using assms(5) by (simp add: new_episode_def command_episode_def episode_key_def)
  from enter [OF assms(1)] obtain u where u: "up_enter port d = Inr u" "uok u" "eps u = deps d" "evs u = devs d" by blast
  from append_old [OF u(2) _ key] u(3) assms(4,6) have
    a: "up_append port u ?e = Inr (\<lparr>ar_episode_id = ep_id old, ar_created = False\<rparr>, u)" by simp
  from commit [OF u(2)] obtain u3 where
    u3: "up_commit port u = Inr u3" "ok (up_exit port u3)" "deps (up_exit port u3) = eps u" "devs (up_exit port u3) = evs u"
    by blast
  have "record_episode_handle port authorize now i ei d c
      = (Inr \<lparr>rr_episode_id = ep_id old, rr_created = False\<rparr>, up_exit port u3)"
    using assms(2) u(1) a u3(1) e(1-3)
    by (simp add: record_episode_handle_def record_request_def with_uow_def new_episode_def [symmetric])
  with u u3 show ?thesis by auto
qed

lemma record_conflict:
  assumes "ok d" and "authorize (record_request c)" and "recordable c now" and "old \<in> deps d"
    and "episode_key old = (ms_tenant_id (rc_scope c), rc_idempotency_key c)"
    and "\<not> same_episode_request old (new_episode c i now)"
  shows "record_episode_handle port authorize now i ei d c = (Inl EpisodeIdempotencyConflict, d)"
proof -
  let ?e = "new_episode c i now"
  note e = recordable_new_episode(1,2) [OF assms(3)] recordable_new_episode(3-7) [OF assms(3), where i = i]
  have key: "episode_key old = episode_key ?e" using assms(5) by (simp add: new_episode_def command_episode_def episode_key_def)
  from enter [OF assms(1)] obtain u where u: "up_enter port d = Inr u" "uok u" "eps u = deps d" by blast
  from append_old [OF u(2) _ key] u(3) assms(4,6) have a: "up_append port u ?e = Inl EpisodeIdempotencyConflict" by simp
  show ?thesis
    using assms(2) u(1) a e(1-3)
    by (simp add: record_episode_handle_def record_request_def with_uow_def new_episode_def [symmetric])
qed

end

section \<open>The contract as a reference model\<close>

text \<open>
  What recording promises, without units of work: a list of episodes and the digests
  of the events, changed by one request at a time. A request carries what it draws
  from outside: the clock, the identifiers of the episode and of the event.
\<close>

type_synonym ledger = "episode list \<times> (event_id \<times> string \<times> tenant_id \<times> uuid) list"
type_synonym recording = "datetime \<times> memory_id \<times> event_id \<times> record_episode_command"

definition ledger_record ::
    "(authorization_request \<Rightarrow> bool) \<Rightarrow> recording \<Rightarrow> ledger \<Rightarrow> record_episode_result res \<times> ledger" where
  "ledger_record authorize q l = (case q of (now, i, ei, c) \<Rightarrow>
     if \<not> authorize (record_request c) then (Inl EpisodeAuthorizationDenied, l)
     else (case find (\<lambda>e. episode_key e = (ms_tenant_id (rc_scope c), rc_idempotency_key c)) (fst l) of
         None \<Rightarrow> (Inr \<lparr>rr_episode_id = i, rr_created = True\<rparr>,
             fst l @ [new_episode c i now], snd l @ [event_digest (new_event c ei i now)])
       | Some old \<Rightarrow>
           (if same_episode_request old (new_episode c i now) then Inr \<lparr>rr_episode_id = ep_id old, rr_created = False\<rparr>
            else Inl EpisodeIdempotencyConflict, l)))"

fun ledger_run ::
    "(authorization_request \<Rightarrow> bool) \<Rightarrow> recording list \<Rightarrow> ledger \<Rightarrow> record_episode_result res list \<times> ledger" where
  "ledger_run authorize [] l = ([], l)"
| "ledger_run authorize (q # qs) l = (case ledger_record authorize q l of (r, l') \<Rightarrow>
     (case ledger_run authorize qs l' of (rs, l'') \<Rightarrow> (r # rs, l'')))"

fun record_run ::
    "('d, 'u) uow_port \<Rightarrow> (authorization_request \<Rightarrow> bool) \<Rightarrow> recording list \<Rightarrow> 'd \<Rightarrow> record_episode_result res list \<times> 'd" where
  "record_run port authorize [] d = ([], d)"
| "record_run port authorize ((now, i, ei, c) # qs) d = (case record_episode_handle port authorize now i ei d c of (r, d') \<Rightarrow>
     (case record_run port authorize qs d' of (rs, d'') \<Rightarrow> (r # rs, d'')))"

text \<open>The requests that are recordable and draw identifiers that are new to the ledger and to each other.\<close>

fun fresh_run :: "memory_id set \<Rightarrow> event_id set \<Rightarrow> recording list \<Rightarrow> bool" where
  "fresh_run ids eids [] = True"
| "fresh_run ids eids ((now, i, ei, c) # qs) =
     (recordable c now \<and> i \<notin> ids \<and> ei \<notin> eids \<and> fresh_run (insert i ids) (insert ei eids) qs)"

lemma fresh_run_mono: "fresh_run ids eids qs \<Longrightarrow> ids' \<subseteq> ids \<Longrightarrow> eids' \<subseteq> eids \<Longrightarrow> fresh_run ids' eids' qs"
proof (induction qs arbitrary: ids eids ids' eids')
  case (Cons q qs)
  obtain now i ei c where q: "q = (now, i, ei, c)" by (cases q) auto
  from Cons.prems have "fresh_run (insert i ids') (insert ei eids') qs"
    using Cons.IH [of "insert i ids" "insert ei eids" "insert i ids'" "insert ei eids'"] by (auto simp: q)
  with Cons.prems show ?case by (auto simp: q)
qed simp

lemma ledger_record_ids:
  assumes "ledger_record authorize (now, i, ei, c) l = (r, l')"
  shows "ep_id ` set (fst l') \<subseteq> insert i (ep_id ` set (fst l))" "fst ` set (snd l') \<subseteq> insert ei (fst ` set (snd l))"
  using assms
  by (auto simp: ledger_record_def new_episode_def command_episode_def event_digest_def new_event_def command_event_def
      split: if_splits option.splits)

context episode_recording
begin

text \<open>The handler refines one request of the reference model, and a run of requests a run of it.\<close>

lemma record_refines:
  assumes "ok d" and "recordable c now" and "i \<notin> ep_id ` deps d" and "ei \<notin> fst ` set (devs d)"
    and "deps d = set (fst l)" and "devs d = snd l" and l': "ledger_record authorize (now, i, ei, c) l = (r, l')"
  shows "\<exists>d'. record_episode_handle port authorize now i ei d c = (r, d') \<and> ok d'
    \<and> deps d' = set (fst l') \<and> devs d' = snd l'"
proof (cases "authorize (record_request c)")
  case False
  then show ?thesis using assms by (simp add: record_episode_handle_def record_request_def ledger_record_def)
next
  case auth: True
  let ?key = "(ms_tenant_id (rc_scope c), rc_idempotency_key c)"
  show ?thesis
  proof (cases "find (\<lambda>e. episode_key e = ?key) (fst l)")
    case None
    then have "\<forall>x \<in> deps d. episode_key x \<noteq> ?key" using assms(5) by (simp add: find_None_iff)
    from record_new [of d authorize c now i ei, OF assms(1) auth assms(2) this assms(3,4)] None auth l' assms(5,6)
    show ?thesis by (auto simp: ledger_record_def)
  next
    case (Some old)
    then have old: "old \<in> deps d" "episode_key old = ?key" using assms(5) by (auto simp: find_Some_iff)
    show ?thesis
    proof (cases "same_episode_request old (new_episode c i now)")
      case True
      from record_replay [of d authorize c now old i ei, OF assms(1) auth assms(2) old True] True Some auth l' assms(5,6)
      show ?thesis by (auto simp: ledger_record_def)
    next
      case False
      from record_conflict [of d authorize c now old i ei, OF assms(1) auth assms(2) old False] False Some auth l' assms
      show ?thesis by (auto simp: ledger_record_def)
    qed
  qed
qed

lemma run_refines:
  assumes "ok d" and "deps d = set (fst l)" and "devs d = snd l"
    and "fresh_run (ep_id ` set (fst l)) (fst ` set (snd l)) qs"
    and "ledger_run authorize qs l = (rs, l')"
  shows "\<exists>d'. record_run port authorize qs d = (rs, d') \<and> ok d' \<and> deps d' = set (fst l') \<and> devs d' = snd l'"
  using assms
proof (induction qs arbitrary: d l rs)
  case (Cons q qs)
  obtain now i ei c where q: "q = (now, i, ei, c)" by (cases q) auto
  obtain r m where m: "ledger_record authorize (now, i, ei, c) l = (r, m)"
    by (cases "ledger_record authorize (now, i, ei, c) l")
  obtain rest where rest: "ledger_run authorize qs m = (rest, l')" "rs = r # rest"
    using Cons.prems(5) m by (auto simp: q split: prod.splits)
  have "recordable c now" "i \<notin> ep_id ` deps d" "ei \<notin> fst ` set (devs d)"
    using Cons.prems(2-4) by (auto simp: q)
  from record_refines [OF Cons.prems(1) this Cons.prems(2,3) m] obtain d1 where
    d1: "record_episode_handle port authorize now i ei d c = (r, d1)" "ok d1" "deps d1 = set (fst m)" "devs d1 = snd m"
    by blast
  have "fresh_run (insert i (ep_id ` set (fst l))) (insert ei (fst ` set (snd l))) qs"
    using Cons.prems(4) by (simp add: q)
  then have "fresh_run (ep_id ` set (fst m)) (fst ` set (snd m)) qs"
    using ledger_record_ids [OF m] by (rule fresh_run_mono)
  from Cons.IH [OF d1(2-4) this rest(1)] d1(1) rest(2) show ?case by (auto simp: q)
qed simp

end

section \<open>The in-memory unit of work keeps the contract\<close>

definition in_memory_port :: "(committed_memory_state, memory_uow) uow_port" where
  "in_memory_port = \<lparr>
     up_enter = (\<lambda>d. case uow_enter (uow_create \<lparr>md_locked = False, md_state = d\<rparr>) of
        None \<Rightarrow> Inl not_active | Some r \<Rightarrow> r),
     up_append = (\<lambda>u e. uow_run u (\<lambda>tx. tx_append tx e)),
     up_get = (\<lambda>u scope i. bindE (uow_require_usable u) (\<lambda>tx. tx_get tx scope i)),
     up_stream = (\<lambda>u scope limit cursor. bindE (uow_require_usable u) (\<lambda>tx. tx_stream tx scope limit cursor)),
     up_add_proposal = (\<lambda>u c. uow_run u (\<lambda>tx. tx_claims_unavailable tx)),
     up_history = (\<lambda>u scope i. bindE (uow_require_usable u) tx_claims_unavailable),
     up_claim_stream = (\<lambda>u scope limit cursor. bindE (uow_require_usable u) tx_claims_unavailable),
     up_publish = (\<lambda>u ev. bindE (uow_run u (\<lambda>tx. bindE (tx_publish tx ev) (\<lambda>tx'. Inr ((), tx')))) (\<lambda>(_, u'). Inr u')),
     up_commit = uow_commit,
     up_exit = (\<lambda>u. md_state (uw_database u))\<rparr>"

definition memory_uow_ok :: "memory_uow \<Rightarrow> bool" where
  "memory_uow_ok u \<longleftrightarrow> (\<exists>tx. uw_state u = Some tx \<and> tx_ok tx)"

definition uow_episodes :: "memory_uow \<Rightarrow> episode set" where
  "uow_episodes u = (case uw_state u of None \<Rightarrow> {} | Some tx \<Rightarrow> set (tx_episodes tx))"

definition uow_events :: "memory_uow \<Rightarrow> (event_id \<times> string \<times> tenant_id \<times> uuid) list" where
  "uow_events u = (case uw_state u of None \<Rightarrow> [] | Some tx \<Rightarrow> map event_digest (tx_events tx))"

lemma uow_run_usable:
  "uw_state u = Some tx \<Longrightarrow> tx_ok tx \<Longrightarrow>
     uow_run u f = bindE (f tx) (\<lambda>(r, tx'). Inr (r, u\<lparr>uw_state := Some tx'\<rparr>))"
  by (simp add: uow_run_def uow_require_usable_def tx_ok_def)

interpretation memory_recording: episode_recording in_memory_port memory_ok memory_uow_ok
    "\<lambda>d. set (cm_episodes d)" uow_episodes "\<lambda>d. map event_digest (cm_events d)" uow_events
proof
  fix d assume "memory_ok d"
  then show "\<exists>u. up_enter in_memory_port d = Inr u \<and> memory_uow_ok u \<and> uow_episodes u = set (cm_episodes d)
      \<and> uow_events u = map event_digest (cm_events d)"
    using tx_begin_ok [of d]
    by (simp add: in_memory_port_def uow_enter_def uow_create_def memory_uow_ok_def uow_episodes_def uow_events_def)
       (simp add: tx_begin_def)
next
  fix u old e
  assume "memory_uow_ok u" "old \<in> uow_episodes u" "episode_key old = episode_key e"
  then obtain tx where tx: "uw_state u = Some tx" "tx_ok tx" "old \<in> set (tx_episodes tx)"
    by (auto simp: memory_uow_ok_def uow_episodes_def)
  have "u\<lparr>uw_state := Some tx\<rparr> = u" using tx(1) by (cases u) simp
  with tx tx_append_old [OF tx(2,3) \<open>episode_key old = episode_key e\<close>]
  show "up_append in_memory_port u e = (if same_episode_request old e
      then Inr (\<lparr>ar_episode_id = ep_id old, ar_created = False\<rparr>, u) else Inl EpisodeIdempotencyConflict)"
    by (simp add: in_memory_port_def uow_run_usable)
next
  fix u e
  assume u: "memory_uow_ok u" and e: "episode_ok e" "\<forall>x \<in> uow_episodes u. episode_key x \<noteq> episode_key e"
    "ep_id e \<notin> ep_id ` uow_episodes u"
  from u obtain tx where tx: "uw_state u = Some tx" "tx_ok tx" by (auto simp: memory_uow_ok_def)
  with e have k: "\<forall>x \<in> set (tx_episodes tx). episode_key x \<noteq> episode_key e" "ep_id e \<notin> ep_id ` set (tx_episodes tx)"
    by (auto simp: uow_episodes_def)
  note new = tx_append_new [OF tx(2) k(1)]
  note ok = tx_append_ok [OF tx(2) e(1) k(2) new]
  show "\<exists>u'. up_append in_memory_port u e = Inr (\<lparr>ar_episode_id = ep_id e, ar_created = True\<rparr>, u') \<and> memory_uow_ok u'
      \<and> uow_episodes u' = insert e (uow_episodes u) \<and> uow_events u' = uow_events u"
    using new ok tx by (simp add: in_memory_port_def uow_run_usable memory_uow_ok_def uow_episodes_def uow_events_def)
next
  fix u and e :: episode and ev :: event_envelope
  assume "memory_uow_ok u" "e \<in> uow_episodes u" "ev_aggregate_id ev = OfMemory (ep_id e)"
    "ev_tenant_id ev = ms_tenant_id (ep_scope e)"
  then obtain tx where tx: "uw_state u = Some tx" "tx_ok tx" "e \<in> set (tx_episodes tx)"
    by (auto simp: memory_uow_ok_def uow_episodes_def)
  have "tx_publish tx ev = Inr (tx\<lparr>tx_events := tx_events tx @ [ev]\<rparr>)"
    by (rule tx_publish_known [OF tx(2,3)]) fact+
  with tx show "\<exists>u'. up_publish in_memory_port u ev = Inr u' \<and> memory_uow_ok u' \<and> uow_episodes u' = uow_episodes u
      \<and> uow_events u' = uow_events u @ [event_digest ev]"
    by (simp add: in_memory_port_def uow_run_usable memory_uow_ok_def uow_episodes_def uow_events_def tx_ok_def usable_def)
next
  fix u assume "memory_uow_ok u"
  then obtain tx where tx: "uw_state u = Some tx" "tx_ok tx" by (auto simp: memory_uow_ok_def)
  then show "\<exists>u'. up_commit in_memory_port u = Inr u' \<and> memory_ok (up_exit in_memory_port u')
      \<and> set (cm_episodes (up_exit in_memory_port u')) = uow_episodes u
      \<and> map event_digest (cm_events (up_exit in_memory_port u')) = uow_events u"
    by (simp add: in_memory_port_def uow_commit_def uow_require_usable_def tx_ok_def memory_ok_def md_replace_def
        uow_episodes_def uow_events_def)
qed

section \<open>Every episode has its event\<close>

text \<open>The outbox invariant of the transactional recording: one event per episode, with its tenant.\<close>

definition recorded_once :: "episode set \<Rightarrow> (event_id \<times> string \<times> tenant_id \<times> uuid) list \<Rightarrow> bool" where
  "recorded_once eps evs \<longleftrightarrow> distinct (map fst evs)
     \<and> (\<forall>e \<in> eps. length (filter (\<lambda>(_, ty, t, a). ty = episode_recorded \<and> a = memory_uuid (ep_id e)) evs) = 1)
     \<and> (\<forall>(_, ty, t, a) \<in> set evs. ty = episode_recorded \<longrightarrow>
          (\<exists>e \<in> eps. memory_uuid (ep_id e) = a \<and> ms_tenant_id (ep_scope e) = t))"

lemma recorded_once_new:
  assumes "recorded_once eps evs" and "recordable c now" and "i \<notin> ep_id ` eps" and "ei \<notin> fst ` set evs"
  shows "recorded_once (insert (new_episode c i now) eps) (evs @ [event_digest (new_event c ei i now)])"
proof -
  let ?e = "new_episode c i now"
  note ev = recorded_event_made [OF assms(2), where i = i and ei = ei]
  have dig: "event_digest (new_event c ei i now) = (ei, episode_recorded, ms_tenant_id (rc_scope c), memory_uuid i)"
    using ev by (simp add: event_digest_def)
  have e: "ep_id ?e = i" "ep_scope ?e = rc_scope c" by (simp_all add: new_episode_def command_episode_def)
  let ?of = "\<lambda>x (_, ty, t :: tenant_id, a). ty = episode_recorded \<and> a = memory_uuid (ep_id x)"
  have "filter (?of ?e) evs = []"
  proof (rule ccontr)
    assume "filter (?of ?e) evs \<noteq> []"
    then obtain k t where "(k, episode_recorded, t, memory_uuid i) \<in> set evs" using e by (auto simp: filter_empty_conv)
    with assms(1) obtain x where "x \<in> eps" "memory_uuid (ep_id x) = memory_uuid i"
      unfolding recorded_once_def by fastforce
    with assms(3) show False by (metis image_eqI memory_id.expand)
  qed
  moreover have "filter (?of x) (evs @ [(ei, episode_recorded, ms_tenant_id (rc_scope c), memory_uuid i)]) = filter (?of x) evs"
    if "x \<in> eps" for x
  proof -
    have "memory_uuid i \<noteq> memory_uuid (ep_id x)" using that assms(3) by (metis image_eqI memory_id.expand)
    then show ?thesis by simp
  qed
  ultimately show ?thesis
    using assms(1,4) e unfolding recorded_once_def dig by (auto simp: image_iff)
qed

lemma ledger_record_once:
  assumes "recorded_once (set (fst l)) (snd l)" and "recordable c now"
    and "i \<notin> ep_id ` set (fst l)" and "ei \<notin> fst ` set (snd l)"
    and "ledger_record authorize (now, i, ei, c) l = (r, l')"
  shows "recorded_once (set (fst l')) (snd l')"
  using assms recorded_once_new [OF assms(1-4)]
  by (auto simp: ledger_record_def split: if_splits option.splits)

lemma ledger_run_once:
  assumes "recorded_once (set (fst l)) (snd l)" and "fresh_run (ep_id ` set (fst l)) (fst ` set (snd l)) qs"
    and "ledger_run authorize qs l = (rs, l')"
  shows "recorded_once (set (fst l')) (snd l')"
  using assms
proof (induction qs arbitrary: l rs)
  case (Cons q qs)
  obtain now i ei c where q: "q = (now, i, ei, c)" by (cases q) auto
  obtain r m where m: "ledger_record authorize (now, i, ei, c) l = (r, m)"
    by (cases "ledger_record authorize (now, i, ei, c) l")
  obtain rest where rest: "ledger_run authorize qs m = (rest, l')"
    using Cons.prems(3) m by (auto simp: q split: prod.splits)
  have f: "recordable c now" "i \<notin> ep_id ` set (fst l)" "ei \<notin> fst ` set (snd l)"
    "fresh_run (insert i (ep_id ` set (fst l))) (insert ei (fst ` set (snd l))) qs"
    using Cons.prems(2) by (auto simp: q)
  have "fresh_run (ep_id ` set (fst m)) (fst ` set (snd m)) qs"
    using f(4) ledger_record_ids [OF m] by (rule fresh_run_mono)
  from Cons.IH [OF ledger_record_once [OF Cons.prems(1) f(1-3) m] this rest] show ?case .
qed simp

section \<open>The consumer understands the producer\<close>

text \<open>An event as it comes back from a row: its aggregate has the base class of the identifiers.\<close>

definition stored_event :: "event_envelope \<Rightarrow> event_envelope" where
  "stored_event e = e\<lparr>ev_aggregate_id := UUIDValue (uuid_value_uuid (ev_aggregate_id e))\<rparr>"

definition frozen_scope :: "memory_scope \<Rightarrow> pyval" where
  "frozen_scope s = VProxy (mapping_items (scope_payload s))"

lemma freeze_scope: "freeze_json_value (scope_payload s) path = Inr (frozen_scope s)"
  by (cases "ms_workspace_id s"; cases "ms_agent_id s")
     (simp_all add: frozen_scope_def scope_payload_def obj_def opt_val_def)

lemma scope_values:
  "is_mapping (frozen_scope s)" "vget (frozen_scope s) ''tenant_id'' = None"
  "vget (frozen_scope s) ''subject_id'' = Some (VStr (uuid_text (subject_uuid (ms_subject_id s))))"
  "vget (frozen_scope s) ''workspace_id'' = Some (opt_val VStr (ms_workspace_id s))"
  "vget (frozen_scope s) ''agent_id'' = Some (opt_val (\<lambda>a. VStr (uuid_text (agent_instance_uuid a))) (ms_agent_id s))"
  by (simp_all add: scope_payload_def frozen_scope_def obj_def vget_def)

lemma new_event_fields:
  assumes "ev \<in> {new_event c ei i now, stored_event (new_event c ei i now)}"
  shows "vget (ev_payload ev) ''scope'' = Some (frozen_scope (rc_scope c))"
    and "vget (ev_payload ev) ''episode_id'' = Some (VStr (uuid_text (memory_uuid i)))"
    and "require_fields (ev_payload ev) what required_payload_fields = Inr ()"
    and "ev_tenant_id ev = ms_tenant_id (rc_scope c)" "ev_event_type ev = episode_recorded"
    "ev_schema_version ev = 1" "uuid_value_uuid (ev_aggregate_id ev) = memory_uuid i" "ev_event_id ev = ei"
proof -
  have "ev_payload ev = ev_payload (new_event c ei i now)" using assms by (auto simp: stored_event_def)
  then show "vget (ev_payload ev) ''scope'' = Some (frozen_scope (rc_scope c))"
    "vget (ev_payload ev) ''episode_id'' = Some (VStr (uuid_text (memory_uuid i)))"
    "require_fields (ev_payload ev) what required_payload_fields = Inr ()"
    by (simp_all add: new_event_def episode_recorded_payload_def obj_def freeze_scope vget_def required_payload_fields_def)
  show "ev_tenant_id ev = ms_tenant_id (rc_scope c)" "ev_event_type ev = episode_recorded"
    "ev_schema_version ev = 1" "uuid_value_uuid (ev_aggregate_id ev) = memory_uuid i" "ev_event_id ev = ei"
    using assms by (auto simp: new_event_def stored_event_def command_event_def)
qed

lemma scope_roundtrip:
  assumes "ev \<in> {new_event c ei i now, stored_event (new_event c ei i now)}" and "scope_ok (rc_scope c)"
  shows "check_episode_recorded ev = Inr ()"
    and "scope_from_episode_recorded_event ev = Inr (rc_scope c, i)"
proof -
  note f = new_event_fields [OF assms(1)]
  have it: "vitem v k = (case vget v k of None \<Rightarrow> Inl (KeyError k) | Some x \<Rightarrow> Inr x)" for v k
    by (simp add: vitem_def)
  show "check_episode_recorded ev = Inr ()"
    using f scope_values by (simp add: check_episode_recorded_def it)
  have ws: "workspace_of (Some (opt_val VStr (ms_workspace_id (rc_scope c)))) = Inr (ms_workspace_id (rc_scope c))"
    by (cases "ms_workspace_id (rc_scope c)") (simp_all add: opt_val_def)
  have mk: "mk_memory_scope \<lparr>ms_tenant_id = ms_tenant_id (rc_scope c), ms_subject_id = ms_subject_id (rc_scope c),
      ms_workspace_id = ms_workspace_id (rc_scope c), ms_agent_id = a\<rparr> = Inr (rc_scope c)"
    if "ms_agent_id (rc_scope c) = a" for a
    using assms(2) that by (cases "rc_scope c") (simp add: mk_memory_scope_Inr scope_ok_def)
  show "scope_from_episode_recorded_event ev = Inr (rc_scope c, i)"
    using f scope_values [of "rc_scope c"] ws mk
    by (cases "ms_agent_id (rc_scope c)")
       (simp_all add: scope_from_episode_recorded_event_def it opt_val_def parse_uuid_text)
qed

section \<open>The episode listing\<close>

definition memory_listable :: "committed_memory_state \<Rightarrow> bool" where
  "memory_listable d \<longleftrightarrow> memory_ok d \<and> (\<forall>e \<in> set (cm_episodes d). in_range (instant (ep_ingested_at e)))"

definition episode_page ::
    "('d, 'u) uow_port \<Rightarrow> subject_id \<Rightarrow> 'd \<Rightarrow> memory_scope \<Rightarrow> int \<Rightarrow> string option \<Rightarrow> episode list_result res" where
  "episode_page port actor d scope limit cursor = list_episodes_handle port (\<lambda>_. True) d
     \<lparr>lq_actor_id = actor, lq_scope = scope, lq_limit = limit, lq_cursor = cursor\<rparr>"

lemma in_memory_page: "episode_page in_memory_port actor d scope limit cursor =
    store_page tx_stream (\<lambda>e. encode_episode_cursor (ep_ingested_at e) (ep_id e)) (\<lambda>e. e) (tx_begin d) scope limit cursor"
proof -
  let ?u = "\<lparr>uw_database = \<lparr>md_locked = True, md_state = d\<rparr>, uw_entered = True, uw_state = Some (tx_begin d)\<rparr>"
  have "up_enter in_memory_port d = Inr ?u" by (simp add: in_memory_port_def uow_enter_def uow_create_def)
  moreover have "up_stream in_memory_port ?u scope l cursor = tx_stream (tx_begin d) scope l cursor" for l
    by (simp add: in_memory_port_def uow_require_usable_def usable_def tx_begin_def)
  moreover have "fst (with_uow in_memory_port d (\<lambda>u. bindE (up_stream in_memory_port u scope l cursor) (\<lambda>rows. Inr (rows, u))))
      = up_stream in_memory_port ?u scope l cursor" for l
    using calculation(1) by (cases "up_stream in_memory_port ?u scope l cursor") (simp_all add: with_uow_def)
  ultimately show ?thesis by (simp add: episode_page_def list_episodes_handle_def store_page_def)
qed

lemma in_memory_walk:
  assumes "memory_listable d" and "0 < n"
  shows "walk (Suc (length (visible_episodes (tx_begin d) scope))) (episode_page in_memory_port actor d scope n) None
    = Inr (visible_episodes (tx_begin d) scope)"
proof -
  have "episodes_listable (tx_begin d)"
    using assms(1) tx_begin_ok [of d] by (auto simp: memory_listable_def episodes_listable_def) (simp add: tx_begin_def)
  from memory_episodes.walk_all [OF this assms(2)] show ?thesis
    by (simp add: in_memory_page [abs_def])
qed

section \<open>Properties\<close>

definition sample_recording :: recording where
  "sample_recording = (sample_time, MemoryId (UUID 10), EventId (UUID 11), sample_command)"

definition sample_retry :: recording where
  "sample_retry = (sample_time, MemoryId (UUID 12), EventId (UUID 13), sample_command)"

lemma sample_recordable: "recordable sample_command sample_time"
  by (simp add: recordable_def command_ok_def sample_command_def scope_ok_def sample_scope_def blank_iff is_space_def
      aware_def in_range_def instant_def max_wall_def sample_time_def)

lemma sample_fresh: "fresh_run {} {} [sample_recording, sample_retry]"
  by (simp add: sample_recording_def sample_retry_def sample_recordable)

definition sample_episode :: episode where
  "sample_episode = new_episode sample_command (MemoryId (UUID 10)) sample_time"

definition sample_memory :: committed_memory_state where
  "sample_memory = snd (record_run in_memory_port (\<lambda>_. True) [sample_recording] empty_memory_state)"

lemma sample_ledger:
  "ledger_run (\<lambda>_. True) [sample_recording] ([], [])
     = ([Inr \<lparr>rr_episode_id = MemoryId (UUID 10), rr_created = True\<rparr>], [sample_episode],
        [event_digest (new_event sample_command (EventId (UUID 11)) (MemoryId (UUID 10)) sample_time)])"
  by (simp add: sample_recording_def ledger_record_def sample_episode_def)

lemma distinct_singleton: "distinct xs \<Longrightarrow> set xs = {x} \<Longrightarrow> xs = [x]"
proof (cases xs)
  case (Cons y ys)
  assume "distinct xs" "set xs = {x}"
  with Cons have "y = x" "set ys \<subseteq> {x}" "x \<notin> set ys" by auto
  then have "ys = []" by (cases ys) auto
  with Cons \<open>y = x\<close> show ?thesis by simp
qed simp

lemma sample_memory_facts: "memory_listable sample_memory" "cm_episodes sample_memory = [sample_episode]"
proof -
  have "fresh_run {} {} [sample_recording]" by (simp add: sample_recording_def sample_recordable)
  then obtain d where "snd (record_run in_memory_port (\<lambda>_. True) [sample_recording] empty_memory_state) = d"
      "memory_ok d" "set (cm_episodes d) = {sample_episode}"
    using memory_recording.run_refines [OF empty_memory_ok _ _ _ sample_ledger] by (force simp: empty_memory_state_def)
  then have m: "memory_ok sample_memory" "set (cm_episodes sample_memory) = {sample_episode}"
    by (simp_all add: sample_memory_def)
  have "distinct (cm_episodes sample_memory)"
    using m(1) by (simp add: memory_ok_def store_ok_def distinct_map)
  then show "cm_episodes sample_memory = [sample_episode]"
    by (rule distinct_singleton [OF _ m(2)])
  have "instant (ep_ingested_at sample_episode) = instant sample_time"
    by (simp add: sample_episode_def new_episode_def command_episode_def utc_def instant_def)
  with m show "memory_listable sample_memory" by (simp add: memory_listable_def sample_time_facts)
qed

text \<open>
  C9. Recording episodes over the in-memory adapter refines the reference model.
  Any run of requests that draw fresh identifiers returns what the model returns, in
  every case (denied, created, replayed, in conflict), and leaves the episodes and
  the events of the model, with the index in agreement.
\<close>

theorem in_memory_recording_refines:
  assumes "fresh_run {} {} qs" and "ledger_run authorize qs ([], []) = (rs, l)"
  shows "\<exists>d. record_run in_memory_port authorize qs empty_memory_state = (rs, d) \<and> memory_ok d
    \<and> set (cm_episodes d) = set (fst l) \<and> map event_digest (cm_events d) = snd l"
  using memory_recording.run_refines [OF empty_memory_ok, of "([], [])" qs authorize rs l] assms
  by (simp add: empty_memory_state_def)

theorem in_memory_recording_refines_witness:
  "\<exists>d. record_run in_memory_port (\<lambda>_. True) [sample_recording, sample_retry] empty_memory_state
      = ([Inr \<lparr>rr_episode_id = MemoryId (UUID 10), rr_created = True\<rparr>,
          Inr \<lparr>rr_episode_id = MemoryId (UUID 10), rr_created = False\<rparr>], d)
    \<and> length (cm_events d) = 1"
proof -
  let ?e = "new_episode sample_command (MemoryId (UUID 10)) sample_time"
  let ?l = "([?e], [event_digest (new_event sample_command (EventId (UUID 11)) (MemoryId (UUID 10)) sample_time)])"
  have k: "episode_key ?e = (ms_tenant_id (rc_scope sample_command), rc_idempotency_key sample_command)"
    "ep_id ?e = MemoryId (UUID 10)"
    by (simp_all add: episode_key_def new_episode_def command_episode_def)
  have "same_episode_request ?e (new_episode sample_command (MemoryId (UUID 12)) sample_time)"
    by (simp add: same_episode_request_def new_episode_def command_episode_def dt_eq_def)
  then have "ledger_run (\<lambda>_. True) [sample_recording, sample_retry] ([], [])
      = ([Inr \<lparr>rr_episode_id = MemoryId (UUID 10), rr_created = True\<rparr>,
          Inr \<lparr>rr_episode_id = MemoryId (UUID 10), rr_created = False\<rparr>], ?l)"
    by (simp add: sample_recording_def sample_retry_def ledger_record_def k)
  from in_memory_recording_refines [OF sample_fresh this] show ?thesis
    by (metis length_map One_nat_def length_0_conv length_Suc_conv snd_conv)
qed

text \<open>
  Every recorded episode has exactly one recording event, of its tenant, and
  every recording event has its episode, after any run of requests with fresh
  identifiers: new ones, replays, conflicts and denied ones.
\<close>

theorem every_episode_has_one_event:
  assumes "fresh_run {} {} qs" and "record_run in_memory_port authorize qs empty_memory_state = (rs, d)"
  shows "recorded_once (set (cm_episodes d)) (map event_digest (cm_events d))"
proof -
  obtain rs' l where l: "ledger_run authorize qs ([], []) = (rs', l)"
    by (cases "ledger_run authorize qs ([], [])")
  have "recorded_once (set (fst l)) (snd l)"
    by (rule ledger_run_once [OF _ _ l]) (simp_all add: recorded_once_def assms(1))
  moreover from memory_recording.run_refines [OF empty_memory_ok, of "([], [])" qs authorize rs' l] l assms
  have "set (cm_episodes d) = set (fst l)" "map event_digest (cm_events d) = snd l"
    by (auto simp: empty_memory_state_def)
  ultimately show ?thesis by simp
qed

theorem every_episode_has_one_event_witness:
  "recorded_once (set (cm_episodes (snd (record_run in_memory_port (\<lambda>_. True) [sample_recording, sample_retry] empty_memory_state))))
     (map event_digest (cm_events (snd (record_run in_memory_port (\<lambda>_. True) [sample_recording, sample_retry] empty_memory_state))))"
  by (rule every_episode_has_one_event [OF sample_fresh]) (rule prod.collapse [symmetric])

text \<open>
  The consumer understands the producer. The event that recording an episode
  publishes, as it is or as it comes back from storage, passes the checks of the
  episode processor, and the scope and the episode that it reads from the payload
  are those of the command.
\<close>

theorem recorded_event_understood:
  assumes "scope_ok (rc_scope c)" and "ev \<in> {new_event c ei i now, stored_event (new_event c ei i now)}"
  shows "check_episode_recorded ev = Inr () \<and> scope_from_episode_recorded_event ev = Inr (rc_scope c, i)"
  using scope_roundtrip [OF assms(2,1)] by blast

theorem recorded_event_understood_witness:
  "scope_from_episode_recorded_event (stored_event (new_event sample_command (EventId (UUID 11)) (MemoryId (UUID 10)) sample_time))
     = Inr (sample_scope, MemoryId (UUID 10))"
  using recorded_event_understood [of sample_command
      "stored_event (new_event sample_command (EventId (UUID 11)) (MemoryId (UUID 10)) sample_time)"
      "EventId (UUID 11)" "MemoryId (UUID 10)" sample_time] sample_recordable
  by (simp add: recordable_def) (simp add: sample_command_def)

text \<open>
  Walking the pages of the episode listing gives every episode of the scope
  exactly once, in the order of ingestion, and ends.
\<close>

theorem episode_pages_complete:
  assumes "memory_listable d" and "0 < n"
  shows "walk (Suc (length (visible_episodes (tx_begin d) scope))) (episode_page in_memory_port actor d scope n) None
    = Inr (visible_episodes (tx_begin d) scope)"
  by (rule in_memory_walk [OF assms])

theorem episode_pages_complete_witness:
  "walk 2 (episode_page in_memory_port (SubjectId (UUID 2)) sample_memory sample_scope 1) None = Inr [sample_episode]"
proof -
  have "ep_scope sample_episode = sample_scope"
    by (simp add: sample_episode_def new_episode_def command_episode_def sample_command_def)
  then have "visible_episodes (tx_begin sample_memory) sample_scope = [sample_episode]"
    by (simp add: visible_episodes_def tx_begin_def sample_memory_facts)
  with episode_pages_complete [OF sample_memory_facts(1), of 1 sample_scope "SubjectId (UUID 2)"] show ?thesis
    by (simp add: numeral_2_eq_2)
qed

end
