(* ===== verification/Rows.thy ===== *)
theory Rows
  imports Memory_App
begin

text \<open>
  Database rows and the mappers of \<open>memory/adapters/postgres/mappers.py\<close>. A row is
  a dictionary of column values as the driver returns them; each mapper is
  translated with its conversions and the errors they raise, and shown to read
  back what it wrote.
\<close>

section \<open>Column values\<close>

datatype db_value = DNull | DUuid uuid | DText string | DInt int | DBool bool | DFloat pyfloat
  | DTime datetime | DJson pyval

type_synonym row = "(string, db_value) dict"

definition col :: "row \<Rightarrow> string \<Rightarrow> db_value res" where
  "col r k = (case dict_get r k of None \<Rightarrow> Inl (KeyError k) | Some v \<Rightarrow> Inr v)"

definition db_opt :: "('a \<Rightarrow> db_value) \<Rightarrow> 'a option \<Rightarrow> db_value" where
  "db_opt f x = (case x of None \<Rightarrow> DNull | Some y \<Rightarrow> f y)"

lemma db_opt_simps [simp]: "db_opt f None = DNull" "db_opt f (Some y) = f y"
  by (simp_all add: db_opt_def)

fun as_uuid :: "db_value \<Rightarrow> uuid res" where
  "as_uuid (DUuid u) = Inr u"
| "as_uuid (DText s) = parse_uuid s"
| "as_uuid v = Inl (TypeError ''expected UUID or UUID text'')"

fun as_datetime :: "db_value \<Rightarrow> datetime res" where
  "as_datetime (DTime d) = Inr d"
| "as_datetime v = Inl (TypeError ''expected datetime'')"

text \<open>
  The readings of a number from text are Python's \<open>int\<close> and \<open>float\<close>: arguments,
  because the columns they apply to hold numbers.
\<close>

fun as_int :: "(string \<Rightarrow> int res) \<Rightarrow> db_value \<Rightarrow> int res" where
  "as_int int_of (DInt n) = Inr n"
| "as_int int_of (DText s) = int_of s"
| "as_int int_of v = Inl (TypeError ''expected int'')"

fun as_float :: "(string \<Rightarrow> pyfloat res) \<Rightarrow> db_value \<Rightarrow> pyfloat res" where
  "as_float float_of (DFloat f) = Inr f"
| "as_float float_of (DInt n) = Inr (Finite (of_int n))"
| "as_float float_of (DText s) = float_of s"
| "as_float float_of v = Inl (TypeError ''expected float'')"

text \<open>\<open>str(value)\<close> and \<open>bool(value)\<close> on the types that a text and a boolean column can hold.\<close>

fun text_of :: "db_value \<Rightarrow> string res" where
  "text_of (DText s) = Inr s"
| "text_of DNull = Inr ''None''"
| "text_of (DUuid u) = Inr (uuid_text u)"
| "text_of (DInt n) = Inr (show_int n)"
| "text_of (DBool b) = Inr (if b then ''True'' else ''False'')"
| "text_of v = Inl (BackendError ''a text column holds text'')"

fun truth_of :: "db_value \<Rightarrow> bool res" where
  "truth_of (DBool b) = Inr b"
| "truth_of DNull = Inr False"
| "truth_of (DInt n) = Inr (n \<noteq> 0)"
| "truth_of (DText s) = Inr (s \<noteq> [])"
| "truth_of v = Inl (BackendError ''a boolean column holds booleans'')"

fun optional_text :: "db_value \<Rightarrow> string option res" where
  "optional_text DNull = Inr None"
| "optional_text v = bindE (text_of v) (\<lambda>s. Inr (Some s))"

fun optional_uuid :: "db_value \<Rightarrow> uuid option res" where
  "optional_uuid DNull = Inr None"
| "optional_uuid v = bindE (as_uuid v) (\<lambda>u. Inr (Some u))"

fun optional_datetime :: "db_value \<Rightarrow> datetime option res" where
  "optional_datetime DNull = Inr None"
| "optional_datetime v = bindE (as_datetime v) (\<lambda>d. Inr (Some d))"

lemma optional_of_db_opt [simp]:
  "optional_text (db_opt DText w) = Inr w"
  "optional_uuid (db_opt (\<lambda>a. DUuid (f a)) x) = Inr (map_option f x)"
  "optional_datetime (db_opt DTime t) = Inr t"
  by (cases w, simp_all, cases x, simp_all, cases t, simp_all)

section \<open>Episodes\<close>

definition episode_to_row :: "episode \<Rightarrow> row" where
  "episode_to_row e =
     [(''tenant_id'', DUuid (tenant_uuid (ms_tenant_id (ep_scope e)))),
      (''episode_id'', DUuid (memory_uuid (ep_id e))),
      (''subject_id'', DUuid (subject_uuid (ms_subject_id (ep_scope e)))),
      (''workspace_id'', db_opt DText (ms_workspace_id (ep_scope e))),
      (''agent_id'', db_opt (\<lambda>a. DUuid (agent_instance_uuid a)) (ms_agent_id (ep_scope e))),
      (''actor_id'', DUuid (subject_uuid (ep_actor_id e))),
      (''source_type'', DText (source_type_value (ep_source_type e))),
      (''content_ref'', DUuid (artifact_uuid (ep_content_ref e))),
      (''observed_at'', DTime (ep_observed_at e)),
      (''ingested_at'', DTime (ep_ingested_at e)),
      (''content_hash'', DText (ep_content_hash e)),
      (''idempotency_key'', DText (ep_idempotency_key e)),
      (''sensitivity'', DText (sensitivity_value (ep_sensitivity e))),
      (''retention_class'', DText (retention_class_value (ep_retention_class e))),
      (''consent_basis'', DText (ep_consent_basis e))]"

text \<open>The scope columns, which every table of the module has.\<close>

definition row_scope :: "row \<Rightarrow> memory_scope res" where
  "row_scope r =
     bindE (col r ''tenant_id'') (\<lambda>t. bindE (as_uuid t) (\<lambda>tenant.
     bindE (col r ''subject_id'') (\<lambda>s. bindE (as_uuid s) (\<lambda>subject.
     bindE (col r ''workspace_id'') (\<lambda>w. bindE (optional_text w) (\<lambda>workspace.
     bindE (col r ''agent_id'') (\<lambda>a. bindE (optional_uuid a) (\<lambda>agent.
       mk_memory_scope \<lparr>ms_tenant_id = TenantId tenant, ms_subject_id = SubjectId subject,
         ms_workspace_id = workspace, ms_agent_id = map_option AgentInstanceId agent\<rparr>))))))))"

definition row_to_episode :: "row \<Rightarrow> episode res" where
  "row_to_episode r =
     bindE (col r ''agent_id'') (\<lambda>_.
     bindE (bindE (col r ''episode_id'') as_uuid) (\<lambda>i.
     bindE (row_scope r) (\<lambda>scope.
     bindE (bindE (col r ''actor_id'') as_uuid) (\<lambda>actor.
     bindE (bindE (bindE (col r ''source_type'') text_of) source_type_of_value) (\<lambda>src.
     bindE (bindE (col r ''content_ref'') as_uuid) (\<lambda>content.
     bindE (bindE (col r ''observed_at'') as_datetime) (\<lambda>observed_at.
     bindE (bindE (col r ''ingested_at'') as_datetime) (\<lambda>ingested_at.
     bindE (bindE (col r ''content_hash'') text_of) (\<lambda>content_hash.
     bindE (bindE (col r ''idempotency_key'') text_of) (\<lambda>idempotency_key.
     bindE (bindE (bindE (col r ''sensitivity'') text_of) sensitivity_of_value) (\<lambda>sens.
     bindE (bindE (bindE (col r ''retention_class'') text_of) retention_class_of_value) (\<lambda>ret.
     bindE (bindE (col r ''consent_basis'') text_of) (\<lambda>consent.
       mk_episode \<lparr>ep_id = MemoryId i, ep_scope = scope, ep_actor_id = SubjectId actor, ep_source_type = src,
         ep_content_ref = ArtifactId content, ep_observed_at = observed_at, ep_ingested_at = ingested_at,
         ep_content_hash = content_hash, ep_idempotency_key = idempotency_key, ep_sensitivity = sens,
         ep_retention_class = ret, ep_consent_basis = consent\<rparr>)))))))))))))"

lemma col_Cons [simp]: "col ((k, v) # r) k' = (if k' = k then Inr v else col r k')"
  by (simp add: col_def)

lemma row_scope_columns:
  assumes "col r ''tenant_id'' = Inr (DUuid (tenant_uuid (ms_tenant_id s)))"
    and "col r ''subject_id'' = Inr (DUuid (subject_uuid (ms_subject_id s)))"
    and "col r ''workspace_id'' = Inr (db_opt DText (ms_workspace_id s))"
    and "col r ''agent_id'' = Inr (db_opt (\<lambda>a. DUuid (agent_instance_uuid a)) (ms_agent_id s))"
    and "scope_ok s"
  shows "row_scope r = Inr s"
proof -
  have "map_option AgentInstanceId (map_option agent_instance_uuid (ms_agent_id s)) = ms_agent_id s"
    by (cases "ms_agent_id s") simp_all
  then have "\<lparr>ms_tenant_id = TenantId (tenant_uuid (ms_tenant_id s)), ms_subject_id = SubjectId (subject_uuid (ms_subject_id s)),
      ms_workspace_id = ms_workspace_id s,
      ms_agent_id = map_option AgentInstanceId (map_option agent_instance_uuid (ms_agent_id s))\<rparr> = s" by simp
  moreover have "mk_memory_scope s = Inr s" using assms(5) by (simp add: mk_memory_scope_Inr scope_ok_def)
  ultimately show ?thesis using assms(1-4) by (simp add: row_scope_def)
qed

lemma episode_roundtrip:
  assumes "episode_ok e" and "scope_ok (ep_scope e)"
  shows "row_to_episode (episode_to_row e) = Inr e"
proof -
  have "row_scope (episode_to_row e) = Inr (ep_scope e)"
    by (rule row_scope_columns) (simp_all add: episode_to_row_def assms(2))
  then show ?thesis
    using assms(1) by (simp add: row_to_episode_def) (simp add: episode_to_row_def mk_episode_Inr episode_ok_def)
qed

section \<open>Events\<close>

definition event_to_row :: "event_envelope \<Rightarrow> row" where
  "event_to_row e =
     [(''event_id'', DUuid (event_uuid (ev_event_id e))),
      (''event_type'', DText (ev_event_type e)),
      (''schema_version'', DInt (ev_schema_version e)),
      (''tenant_id'', DUuid (tenant_uuid (ev_tenant_id e))),
      (''aggregate_id'', DUuid (uuid_value_uuid (ev_aggregate_id e))),
      (''aggregate_version'', DInt (ev_aggregate_version e)),
      (''correlation_id'', DUuid (correlation_uuid (ev_correlation_id e))),
      (''causation_id'', db_opt (\<lambda>i. DUuid (event_uuid i)) (ev_causation_id e)),
      (''occurred_at'', DTime (ev_occurred_at e)),
      (''payload'', DJson (to_json_value (ev_payload e)))]"

fun json_mapping :: "db_value \<Rightarrow> pyval res" where
  "json_mapping (DJson v) = (if is_mapping v then Inr (VDict (mapping_items v))
     else Inl (TypeError ''payload must be a mapping''))"
| "json_mapping v = Inl (TypeError ''payload must be a mapping'')"

definition row_to_event :: "(string \<Rightarrow> int res) \<Rightarrow> row \<Rightarrow> event_envelope res" where
  "row_to_event int_of r =
     bindE (col r ''causation_id'') (\<lambda>causation.
     bindE (bindE (col r ''payload'') json_mapping) (\<lambda>payload.
     bindE (bindE (col r ''event_id'') as_uuid) (\<lambda>i.
     bindE (bindE (col r ''event_type'') text_of) (\<lambda>ty.
     bindE (bindE (col r ''schema_version'') (as_int int_of)) (\<lambda>sv.
     bindE (bindE (col r ''tenant_id'') as_uuid) (\<lambda>tenant.
     bindE (bindE (col r ''aggregate_id'') as_uuid) (\<lambda>agg.
     bindE (bindE (col r ''aggregate_version'') (as_int int_of)) (\<lambda>av.
     bindE (bindE (col r ''correlation_id'') as_uuid) (\<lambda>corr.
     bindE (optional_uuid causation) (\<lambda>caus.
     bindE (bindE (col r ''occurred_at'') as_datetime) (\<lambda>occurred_at.
       mk_event \<lparr>ev_event_id = EventId i, ev_event_type = ty, ev_schema_version = sv, ev_tenant_id = TenantId tenant,
         ev_aggregate_id = UUIDValue agg, ev_aggregate_version = av, ev_correlation_id = CorrelationId corr,
         ev_causation_id = map_option EventId caus, ev_occurred_at = occurred_at, ev_payload = payload\<rparr>)))))))))))"

lemma json_mapping_frozen:
  "is_mapping v \<Longrightarrow> json_mapping (DJson (to_json_value v)) = Inr (to_json_value v)"
  by (cases v) auto

text \<open>The row keeps the event, except for the class of the aggregate's identifier.\<close>

lemma event_roundtrip:
  assumes "event_ok e"
  shows "row_to_event int_of (event_to_row e) = Inr (stored_event e)"
proof -
  have caus: "map_option EventId (map_option event_uuid (ev_causation_id e)) = ev_causation_id e"
    by (cases "ev_causation_id e") simp_all
  have "json_mapping (DJson (to_json_value (ev_payload e))) = Inr (to_json_value (ev_payload e))"
    using assms by (simp add: json_mapping_frozen event_ok_def del: json_mapping.simps)
  moreover have "freeze_json_value (to_json_value (ev_payload e)) ''payload'' = Inr (ev_payload e)"
    using assms by (simp add: freeze_to_json event_ok_def)
  ultimately show ?thesis
    using assms caus by (simp add: row_to_event_def event_to_row_def mk_event_eq_Inr event_ok_def stored_event_def del: json_mapping.simps)
qed

section \<open>Claims\<close>

definition evidence_json :: "evidence_ref \<Rightarrow> pyval" where
  "evidence_json i = obj
     [(''episode_id'', VStr (uuid_text (memory_uuid (er_episode_id i)))),
      (''source_span'', VStr (er_source_span i)),
      (''extractor_version'', VStr (er_extractor_version i)),
      (''model_ref'', opt_val VStr (er_model_ref i)),
      (''prompt_version'', opt_val VStr (er_prompt_version i))]"

definition claim_to_row :: "claim \<Rightarrow> memory_id \<Rightarrow> row res" where
  "claim_to_row c episode_id = (case cl_evidence c of [] \<Rightarrow> Inl IndexError | evidence # _ \<Rightarrow> Inr
     [(''tenant_id'', DUuid (tenant_uuid (ms_tenant_id (cl_scope c)))),
      (''claim_id'', DUuid (memory_uuid (cl_id c))),
      (''episode_id'', DUuid (memory_uuid episode_id)),
      (''subject_id'', DUuid (subject_uuid (ms_subject_id (cl_scope c)))),
      (''workspace_id'', db_opt DText (ms_workspace_id (cl_scope c))),
      (''agent_id'', db_opt (\<lambda>a. DUuid (agent_instance_uuid a)) (ms_agent_id (cl_scope c))),
      (''subject'', DText (cl_subject c)),
      (''predicate'', DText (cl_predicate c)),
      (''object_value'', DText (cl_object_value c)),
      (''polarity'', DBool (cl_polarity c)),
      (''epistemic_kind'', DText (epistemic_kind_value (cl_epistemic_kind c))),
      (''confidence'', DFloat (cl_confidence c)),
      (''valid_from'', DTime (cl_valid_from c)),
      (''valid_to'', db_opt DTime (cl_valid_to c)),
      (''recorded_from'', DTime (cl_recorded_from c)),
      (''recorded_to'', db_opt DTime (cl_recorded_to c)),
      (''status'', DText (claim_status_value (cl_status c))),
      (''evidence'', DJson (VList (map evidence_json (cl_evidence c)))),
      (''extractor_version'', DText (er_extractor_version evidence))])"

text \<open>\<open>_as_uuid\<close>, \<open>str\<close> and \<open>_optional_text\<close> on the members of a JSON object.\<close>

fun json_uuid :: "pyval \<Rightarrow> uuid res" where
  "json_uuid (VStr s) = parse_uuid s"
| "json_uuid v = Inl (TypeError ''expected UUID or UUID text'')"

fun json_text :: "pyval \<Rightarrow> string res" where
  "json_text (VStr s) = Inr s"
| "json_text VNone = Inr ''None''"
| "json_text (VBool b) = Inr (if b then ''True'' else ''False'')"
| "json_text (VInt n) = Inr (show_int n)"
| "json_text v = Inl (BackendError ''text expected in evidence'')"

fun json_optional_text :: "pyval option \<Rightarrow> string option res" where
  "json_optional_text None = Inr None"
| "json_optional_text (Some VNone) = Inr None"
| "json_optional_text (Some v) = bindE (json_text v) (\<lambda>s. Inr (Some s))"

definition evidence_of_json :: "pyval \<Rightarrow> evidence_ref res" where
  "evidence_of_json v =
     bindE (bindE (vitem v ''episode_id'') json_uuid) (\<lambda>i.
     bindE (bindE (vitem v ''source_span'') json_text) (\<lambda>span.
     bindE (bindE (vitem v ''extractor_version'') json_text) (\<lambda>version.
     bindE (json_optional_text (vget v ''model_ref'')) (\<lambda>model.
     bindE (json_optional_text (vget v ''prompt_version'')) (\<lambda>prompt.
       mk_evidence_ref \<lparr>er_episode_id = MemoryId i, er_source_span = span, er_extractor_version = version,
         er_model_ref = model, er_prompt_version = prompt\<rparr>)))))"

fun evidence_list :: "db_value \<Rightarrow> pyval list res" where
  "evidence_list (DJson (VList vs)) = Inr vs"
| "evidence_list v = Inl (TypeError ''evidence must be a list'')"

definition row_to_claim :: "(string \<Rightarrow> pyfloat res) \<Rightarrow> row \<Rightarrow> claim res" where
  "row_to_claim float_of r =
     bindE (bindE (col r ''evidence'') evidence_list) (\<lambda>raw.
     bindE (mapE evidence_of_json raw) (\<lambda>evidence.
     bindE (col r ''agent_id'') (\<lambda>_.
     bindE (bindE (col r ''claim_id'') as_uuid) (\<lambda>i.
     bindE (row_scope r) (\<lambda>scope.
     bindE (bindE (col r ''subject'') text_of) (\<lambda>subject.
     bindE (bindE (col r ''predicate'') text_of) (\<lambda>predicate.
     bindE (bindE (col r ''object_value'') text_of) (\<lambda>object_value.
     bindE (bindE (col r ''polarity'') truth_of) (\<lambda>polarity.
     bindE (bindE (bindE (col r ''epistemic_kind'') text_of) epistemic_kind_of_value) (\<lambda>kind.
     bindE (bindE (col r ''confidence'') (as_float float_of)) (\<lambda>confidence.
     bindE (bindE (col r ''valid_from'') as_datetime) (\<lambda>valid_from.
     bindE (bindE (col r ''valid_to'') optional_datetime) (\<lambda>valid_to.
     bindE (bindE (col r ''recorded_from'') as_datetime) (\<lambda>recorded_from.
     bindE (bindE (col r ''recorded_to'') optional_datetime) (\<lambda>recorded_to.
     bindE (bindE (bindE (col r ''status'') text_of) claim_status_of_value) (\<lambda>status.
       mk_claim \<lparr>cl_id = MemoryId i, cl_scope = scope, cl_subject = subject, cl_predicate = predicate,
         cl_object_value = object_value, cl_polarity = polarity, cl_epistemic_kind = kind,
         cl_confidence = confidence, cl_valid_from = valid_from, cl_valid_to = valid_to,
         cl_recorded_from = recorded_from, cl_recorded_to = recorded_to, cl_status = status,
         cl_evidence = evidence\<rparr>))))))))))))))))"

definition evidence_ok :: "evidence_ref \<Rightarrow> bool" where
  "evidence_ok r \<longleftrightarrow> \<not> blank (er_source_span r) \<and> \<not> blank (er_extractor_version r)"

lemma mk_evidence_ref_Inr: "mk_evidence_ref r = Inr r' \<longleftrightarrow> r' = r \<and> evidence_ok r"
  by (auto simp: mk_evidence_ref_def evidence_ok_def bindE_eq_Inr)

lemma json_optional_text_opt [simp]: "json_optional_text (Some (opt_val VStr w)) = Inr w"
  by (cases w) (simp_all add: opt_val_def)

lemma evidence_roundtrip: "evidence_ok r \<Longrightarrow> evidence_of_json (evidence_json r) = Inr r"
  by (simp add: evidence_of_json_def evidence_json_def parse_uuid_text mk_evidence_ref_Inr evidence_ok_def)

lemma claim_roundtrip:
  assumes "claim_ok c" and "scope_ok (cl_scope c)" and "\<forall>r \<in> set (cl_evidence c). evidence_ok r"
  shows "\<exists>row. claim_to_row c i = Inr row \<and> row_to_claim float_of row = Inr c"
proof -
  obtain ev evs where ev: "cl_evidence c = ev # evs" using assms(1) by (cases "cl_evidence c") (auto simp: claim_ok_def)
  then obtain row where row: "claim_to_row c i = Inr row" by (simp add: claim_to_row_def)
  have scope: "row_scope row = Inr (cl_scope c)"
    by (rule row_scope_columns) (use row ev assms(2) in \<open>auto simp: claim_to_row_def\<close>)
  have "mapE evidence_of_json (map evidence_json (cl_evidence c)) = Inr (map id (cl_evidence c))"
    unfolding mapE_map by (rule mapE_Inr) (use assms(3) in \<open>simp add: evidence_roundtrip\<close>)
  then have evs: "mapE evidence_of_json (map evidence_json (cl_evidence c)) = Inr (cl_evidence c)" by simp
  have cols: "col row ''evidence'' = Inr (DJson (VList (map evidence_json (cl_evidence c))))"
    "col row ''claim_id'' = Inr (DUuid (memory_uuid (cl_id c)))"
    "col row ''subject'' = Inr (DText (cl_subject c))" "col row ''predicate'' = Inr (DText (cl_predicate c))"
    "col row ''object_value'' = Inr (DText (cl_object_value c))" "col row ''polarity'' = Inr (DBool (cl_polarity c))"
    "col row ''epistemic_kind'' = Inr (DText (epistemic_kind_value (cl_epistemic_kind c)))"
    "col row ''confidence'' = Inr (DFloat (cl_confidence c))" "col row ''valid_from'' = Inr (DTime (cl_valid_from c))"
    "col row ''valid_to'' = Inr (db_opt DTime (cl_valid_to c))" "col row ''recorded_from'' = Inr (DTime (cl_recorded_from c))"
    "col row ''recorded_to'' = Inr (db_opt DTime (cl_recorded_to c))"
    "col row ''status'' = Inr (DText (claim_status_value (cl_status c)))"
    "\<exists>a. col row ''agent_id'' = Inr a"
    using row ev by (auto simp: claim_to_row_def)
  then obtain a where a: "col row ''agent_id'' = Inr a" by blast
  have eta: "\<lparr>cl_id = cl_id c, cl_scope = cl_scope c, cl_subject = cl_subject c, cl_predicate = cl_predicate c,
      cl_object_value = cl_object_value c, cl_polarity = cl_polarity c, cl_epistemic_kind = cl_epistemic_kind c,
      cl_confidence = cl_confidence c, cl_valid_from = cl_valid_from c, cl_valid_to = cl_valid_to c,
      cl_recorded_from = cl_recorded_from c, cl_recorded_to = cl_recorded_to c, cl_status = cl_status c,
      cl_evidence = cl_evidence c\<rparr> = c" by (cases c) simp
  have "row_to_claim float_of row = mk_claim c"
    by (simp add: row_to_claim_def scope evs cols a eta)
  with row assms(1) show ?thesis by (simp add: mk_claim_Inr)
qed

section \<open>Request fingerprints\<close>

type_synonym episode_fingerprint = "tenant_id \<times> subject_id \<times> string option \<times> agent_instance_id option \<times> subject_id
  \<times> source_type \<times> artifact_id \<times> datetime \<times> string \<times> sensitivity \<times> retention_class \<times> string"

definition episode_request_fingerprint :: "episode \<Rightarrow> episode_fingerprint" where
  "episode_request_fingerprint e = (ms_tenant_id (ep_scope e), ms_subject_id (ep_scope e), ms_workspace_id (ep_scope e),
     ms_agent_id (ep_scope e), ep_actor_id e, ep_source_type e, ep_content_ref e, ep_observed_at e,
     ep_content_hash e, ep_sensitivity e, ep_retention_class e, ep_consent_basis e)"

definition episode_request_fingerprint_from_row :: "row \<Rightarrow> episode_fingerprint res" where
  "episode_request_fingerprint_from_row r =
     bindE (col r ''agent_id'') (\<lambda>a.
     bindE (bindE (col r ''tenant_id'') as_uuid) (\<lambda>tenant.
     bindE (bindE (col r ''subject_id'') as_uuid) (\<lambda>subject.
     bindE (bindE (col r ''workspace_id'') optional_text) (\<lambda>workspace.
     bindE (optional_uuid a) (\<lambda>agent.
     bindE (bindE (col r ''actor_id'') as_uuid) (\<lambda>actor.
     bindE (bindE (bindE (col r ''source_type'') text_of) source_type_of_value) (\<lambda>src.
     bindE (bindE (col r ''content_ref'') as_uuid) (\<lambda>content.
     bindE (bindE (col r ''observed_at'') as_datetime) (\<lambda>observed_at.
     bindE (bindE (col r ''content_hash'') text_of) (\<lambda>content_hash.
     bindE (bindE (bindE (col r ''sensitivity'') text_of) sensitivity_of_value) (\<lambda>sens.
     bindE (bindE (bindE (col r ''retention_class'') text_of) retention_class_of_value) (\<lambda>ret.
     bindE (bindE (col r ''consent_basis'') text_of) (\<lambda>consent.
       Inr (TenantId tenant, SubjectId subject, workspace, map_option AgentInstanceId agent, SubjectId actor,
            src, ArtifactId content, observed_at, content_hash, sens, ret, consent))))))))))))))"

text \<open>Tuples compare component by component, and the dates by their instants.\<close>

fun fingerprint_eq :: "episode_fingerprint \<Rightarrow> episode_fingerprint \<Rightarrow> bool" where
  "fingerprint_eq (t, s, w, a, ac, st, c, ob, h, se, re, co) (t', s', w', a', ac', st', c', ob', h', se', re', co') =
     (t = t' \<and> s = s' \<and> w = w' \<and> a = a' \<and> ac = ac' \<and> st = st' \<and> c = c' \<and> dt_eq ob ob' \<and> h = h' \<and> se = se' \<and> re = re' \<and> co = co')"

lemma fingerprint_same_episode_request:
  "fingerprint_eq (episode_request_fingerprint a) (episode_request_fingerprint b) \<longleftrightarrow> same_episode_request a b"
proof -
  have "ep_scope a = ep_scope b \<longleftrightarrow> ms_tenant_id (ep_scope a) = ms_tenant_id (ep_scope b)
      \<and> ms_subject_id (ep_scope a) = ms_subject_id (ep_scope b) \<and> ms_workspace_id (ep_scope a) = ms_workspace_id (ep_scope b)
      \<and> ms_agent_id (ep_scope a) = ms_agent_id (ep_scope b)"
    by (auto intro: memory_scope.equality)
  then show ?thesis by (auto simp: episode_request_fingerprint_def same_episode_request_def)
qed

lemma same_episode_request_sym: "same_episode_request a b = same_episode_request b a"
  by (auto simp: same_episode_request_def dt_eq_def)

section \<open>Properties\<close>

text \<open>
  Episodes survive storage: the row of a valid episode reads back as that very
  episode, its optional fields and its dates included.
\<close>

theorem episode_row_roundtrip:
  assumes "mk_episode e = Inr e'" and "mk_memory_scope (ep_scope e) = Inr s"
  shows "row_to_episode (episode_to_row e) = Inr e"
  using assms by (intro episode_roundtrip) (auto simp: mk_episode_Inr mk_memory_scope_Inr scope_ok_def)

theorem episode_row_roundtrip_witness:
  "row_to_episode (episode_to_row sample_episode) = Inr sample_episode"
proof -
  have "mk_episode sample_episode = Inr sample_episode"
    using recordable_new_episode(3) [OF sample_recordable] by (simp add: sample_episode_def)
  moreover have "mk_memory_scope (ep_scope sample_episode) = Inr (ep_scope sample_episode)"
    using recordable_new_episode(5) [OF sample_recordable]
    by (simp add: mk_memory_scope_Inr scope_ok_def sample_episode_def)
  ultimately show ?thesis by (rule episode_row_roundtrip)
qed

text \<open>
  Events survive storage up to the class of their aggregate: the row of a valid
  event reads back with every field as it was, but the aggregate's identifier comes
  back as the base class, without saying what it identifies.
\<close>

theorem event_row_roundtrip:
  assumes "mk_event e = Inr e'"
  shows "row_to_event int_of (event_to_row e') = Inr (stored_event e')"
  by (rule event_roundtrip [OF mk_event_ok [OF assms]])

theorem event_row_roundtrip_witness:
  "row_to_event (\<lambda>_. Inr 0) (event_to_row (new_event sample_command (EventId (UUID 11)) (MemoryId (UUID 10)) sample_time))
     = Inr (stored_event (new_event sample_command (EventId (UUID 11)) (MemoryId (UUID 10)) sample_time))"
  by (rule event_row_roundtrip [OF recorded_event_made(1) [OF sample_recordable]])

text \<open>
  Claims survive storage: a claim with evidence has a row, and the row reads
  back as the claim with all its evidence, though only the first piece of evidence
  fills the row's own column.
\<close>

theorem claim_row_roundtrip:
  assumes "mk_claim c = Inr c'" and "mk_memory_scope (cl_scope c) = Inr s"
    and "\<forall>r \<in> set (cl_evidence c). mk_evidence_ref r = Inr r"
  shows "\<exists>row. claim_to_row c i = Inr row \<and> row_to_claim float_of row = Inr c"
  using assms by (intro claim_roundtrip) (auto simp: mk_claim_Inr mk_memory_scope_Inr scope_ok_def mk_evidence_ref_Inr)

definition sample_evidence :: evidence_ref where
  "sample_evidence = \<lparr>er_episode_id = MemoryId (UUID 10), er_source_span = ''0:5'', er_extractor_version = ''v1'',
     er_model_ref = None, er_prompt_version = Some ''p1''\<rparr>"

definition sample_claim :: claim where
  "sample_claim = \<lparr>cl_id = MemoryId (UUID 20), cl_scope = sample_scope, cl_subject = ''s'', cl_predicate = ''p'',
     cl_object_value = ''o'', cl_polarity = True, cl_epistemic_kind = EXTRACTED, cl_confidence = Finite (1 / 2),
     cl_valid_from = sample_time, cl_valid_to = None, cl_recorded_from = sample_time, cl_recorded_to = None,
     cl_status = PROPOSED, cl_evidence = [sample_evidence]\<rparr>"

lemma sample_claim_ok: "mk_claim sample_claim = Inr sample_claim" "mk_memory_scope (cl_scope sample_claim) = Inr sample_scope"
    "mk_evidence_ref sample_evidence = Inr sample_evidence"
  by (simp_all add: mk_claim_Inr claim_ok_def sample_claim_def blank_iff is_space_def sample_time_facts
      mk_memory_scope_Inr sample_scope_def mk_evidence_ref_Inr evidence_ok_def sample_evidence_def)

theorem claim_row_roundtrip_witness:
  "\<exists>row. claim_to_row sample_claim (MemoryId (UUID 10)) = Inr row \<and> row_to_claim (\<lambda>_. Inr NaN) row = Inr sample_claim"
proof -
  have "\<forall>r \<in> set (cl_evidence sample_claim). mk_evidence_ref r = Inr r"
    using sample_claim_ok(3) by (simp add: sample_claim_def)
  from claim_row_roundtrip [OF sample_claim_ok(1,2) this] show ?thesis .
qed

end
