(* ===== verification/Delivery.thy ===== *)
theory Delivery
  imports Memory_App
begin

text \<open>
  Getting events out and in: the relay of a transactional outbox
  (\<open>memory/application/relay_outbox.py\<close> and its twin in \<open>runtime/application\<close>) and
  the deduplicating consumer (\<open>memory/application/process_inbox_event.py\<close> over
  \<open>memory/adapters/postgres/inbox_store.py\<close>). The relay delivers at least once, the
  inbox makes the effect happen once.
\<close>

section \<open>The inbox\<close>

record inbox_row =
  ib_consumer_name :: string
  ib_event_type :: string
  ib_tenant_id :: tenant_id
  ib_processed_at :: datetime

type_synonym inbox = "(event_id, inbox_row) dict"

text \<open>\<open>INSERT \<dots> ON CONFLICT (event_id) DO NOTHING RETURNING event_id\<close>: whether a row came back.\<close>

definition try_record :: "inbox \<Rightarrow> event_id \<Rightarrow> string \<Rightarrow> string \<Rightarrow> tenant_id \<Rightarrow> datetime \<Rightarrow> bool \<times> inbox" where
  "try_record inbox i consumer ty tenant ts = (case dict_get inbox i of
       Some _ \<Rightarrow> (False, inbox)
     | None \<Rightarrow> (True, dict_set i \<lparr>ib_consumer_name = consumer, ib_event_type = ty, ib_tenant_id = tenant,
                   ib_processed_at = ts\<rparr> inbox))"

definition remove_record :: "inbox \<Rightarrow> event_id \<Rightarrow> inbox" where
  "remove_record inbox i = dict_pop i inbox"

type_synonym 'w processor = "(string \<Rightarrow> bool) \<times> ('w \<Rightarrow> event_envelope \<Rightarrow> unit res \<times> 'w)"

definition processor_for :: "'w processor list \<Rightarrow> string \<Rightarrow> 'w processor option" where
  "processor_for processors event_type = find (\<lambda>p. fst p event_type) processors"

definition process_inbox_handle ::
    "'w processor list \<Rightarrow> string \<Rightarrow> datetime \<Rightarrow> inbox \<times> 'w \<Rightarrow> event_envelope
      \<Rightarrow> process_inbox_event_result res \<times> inbox \<times> 'w" where
  "process_inbox_handle processors consumer now s event =
     (case processor_for processors (ev_event_type event) of
        None \<Rightarrow> (Inr \<lparr>pi_processed = False, pi_skipped = True\<rparr>, s)
      | Some processor \<Rightarrow>
          (case try_record (fst s) (ev_event_id event) consumer (ev_event_type event) (ev_tenant_id event) now of
             (False, inbox) \<Rightarrow> (Inr \<lparr>pi_processed = False, pi_skipped = True\<rparr>, inbox, snd s)
           | (True, inbox) \<Rightarrow>
               (case snd processor (snd s) event of
                  (Inl e, w) \<Rightarrow> (Inl e, remove_record inbox (ev_event_id event), w)
                | (Inr _, w) \<Rightarrow> (Inr \<lparr>pi_processed = True, pi_skipped = False\<rparr>, inbox, w))))"

text \<open>A failed event leaves the inbox as it was, so that a later delivery runs it again.\<close>

lemma remove_try: "dict_get inbox i = None \<Longrightarrow> remove_record (dict_set i v inbox) i = inbox"
  by (induction inbox) (auto simp: remove_record_def split: if_splits)

lemma process_failed:
  assumes "process_inbox_handle processors consumer now (inbox, w) event = (Inl e, inbox', w')"
  shows "inbox' = inbox \<and> dict_get inbox (ev_event_id event) = None"
  using assms remove_try
  by (auto simp: process_inbox_handle_def try_record_def split: option.splits sum.splits prod.splits bool.splits)

lemma process_again:
  assumes "process_inbox_handle processors consumer now s event = (Inr r, s')"
  shows "process_inbox_handle processors consumer' now' s' event = (Inr \<lparr>pi_processed = False, pi_skipped = True\<rparr>, s')"
  using assms
  by (auto simp: process_inbox_handle_def try_record_def split: option.splits sum.splits prod.splits bool.splits)

text \<open>Many deliveries: each event runs once, at its first delivery.\<close>

fun deliver_all :: "'w processor list \<Rightarrow> string \<Rightarrow> datetime \<Rightarrow> event_envelope list \<Rightarrow> inbox \<times> 'w \<Rightarrow> inbox \<times> 'w" where
  "deliver_all processors consumer now [] s = s"
| "deliver_all processors consumer now (e # es) s =
     deliver_all processors consumer now es (snd (process_inbox_handle processors consumer now s e))"

fun first_deliveries :: "event_id set \<Rightarrow> event_envelope list \<Rightarrow> event_envelope list" where
  "first_deliveries seen [] = []"
| "first_deliveries seen (e # es) = (if ev_event_id e \<in> seen then first_deliveries seen es
     else e # first_deliveries (insert (ev_event_id e) seen) es)"

lemma deliver_once:
  assumes "\<And>w e. run w e = (Inr (), effect w e)" and "\<forall>e \<in> set es. supports (ev_event_type e)"
  shows "snd (deliver_all [(supports, run)] consumer now es (inbox, w))
    = foldl effect w (first_deliveries (set (dict_keys inbox)) es)"
  using assms(2)
proof (induction es arbitrary: inbox w)
  case (Cons e es)
  then have sup: "processor_for [(supports, run)] (ev_event_type e) = Some (supports, run)"
    by (simp add: processor_for_def)
  show ?case
  proof (cases "dict_get inbox (ev_event_id e)")
    case None
    let ?row = "\<lparr>ib_consumer_name = consumer, ib_event_type = ev_event_type e, ib_tenant_id = ev_tenant_id e, ib_processed_at = now\<rparr>"
    have step: "process_inbox_handle [(supports, run)] consumer now (inbox, w) e
        = (Inr \<lparr>pi_processed = True, pi_skipped = False\<rparr>, dict_set (ev_event_id e) ?row inbox, effect w e)"
      using None sup assms(1) by (simp add: process_inbox_handle_def try_record_def)
    have keys: "set (dict_keys (dict_set (ev_event_id e) ?row inbox)) = insert (ev_event_id e) (set (dict_keys inbox))"
      using None by (simp add: dict_set_new)
    from None have "ev_event_id e \<notin> set (dict_keys inbox)" by (simp add: dict_get_None_iff del: set_map)
    with step keys Cons.IH [of "dict_set (ev_event_id e) ?row inbox" "effect w e"] Cons.prems
    show ?thesis by (simp del: set_map)
  next
    case (Some r)
    then have "ev_event_id e \<in> set (dict_keys inbox)" using dict_get_None_iff [of inbox "ev_event_id e"] by (simp del: set_map)
    moreover have "process_inbox_handle [(supports, run)] consumer now (inbox, w) e
        = (Inr \<lparr>pi_processed = False, pi_skipped = True\<rparr>, inbox, w)"
      using Some sup by (simp add: process_inbox_handle_def try_record_def)
    ultimately show ?thesis using Cons by (simp del: set_map)
  qed
qed simp

text \<open>Redelivering any prefix of a batch changes nothing: this is all a crashed relay does.\<close>

lemma first_deliveries_again:
  "set (map ev_event_id es) \<subseteq> seen \<Longrightarrow> first_deliveries seen (es @ fs) = first_deliveries seen fs"
  by (induction es) auto

lemma first_deliveries_append:
  "first_deliveries seen (es @ fs) = first_deliveries seen es @ first_deliveries (seen \<union> set (map ev_event_id es)) fs"
  by (induction es arbitrary: seen) (auto simp: insert_absorb)

lemma first_deliveries_distinct:
  "distinct (map ev_event_id es) \<Longrightarrow> set (map ev_event_id es) \<inter> seen = {} \<Longrightarrow> first_deliveries seen es = es"
  by (induction es arbitrary: seen) auto

section \<open>The relay\<close>

record 's relay_store =
  rs_fetch :: "'s \<Rightarrow> int \<Rightarrow> event_envelope list res"
  rs_mark :: "'s \<Rightarrow> event_id list \<Rightarrow> datetime \<Rightarrow> 's"
  rs_count :: "'s \<Rightarrow> nat"

fun publish_all :: "('w \<Rightarrow> event_envelope \<Rightarrow> unit res \<times> 'w) \<Rightarrow> event_envelope list \<Rightarrow> nat \<Rightarrow> 'w \<Rightarrow> nat res \<times> 'w" where
  "publish_all publish [] dispatched w = (Inr dispatched, w)"
| "publish_all publish (e # es) dispatched w = (case publish w e of
       (Inl x, w') \<Rightarrow> (Inl x, w')
     | (Inr _, w') \<Rightarrow> publish_all publish es (Suc dispatched) w')"

definition relay_outbox_handle ::
    "'s relay_store \<Rightarrow> ('w \<Rightarrow> event_envelope \<Rightarrow> unit res \<times> 'w) \<Rightarrow> datetime \<Rightarrow> int \<Rightarrow> 's \<times> 'w
      \<Rightarrow> relay_outbox_result res \<times> 's \<times> 'w" where
  "relay_outbox_handle store publish now batch_size s =
     (case rs_fetch store (fst s) batch_size of
        Inl e \<Rightarrow> (Inl e, s)
      | Inr events \<Rightarrow>
          if events = [] then
            (Inr \<lparr>ro_fetched = 0, ro_dispatched = 0, ro_published = 0,
                  ro_remaining_unpublished = rs_count store (fst s)\<rparr>, s)
          else (case publish_all publish events 0 (snd s) of
              (Inl e, w) \<Rightarrow> (Inl e, fst s, w)
            | (Inr dispatched, w) \<Rightarrow>
                let st = rs_mark store (fst s) (map ev_event_id events) now in
                (Inr \<lparr>ro_fetched = length events, ro_dispatched = dispatched, ro_published = length events,
                      ro_remaining_unpublished = rs_count store st\<rparr>, st, w)))"

text \<open>What the relay needs of its store: \<open>pending\<close> is its unpublished part, in the order of the queries.\<close>

locale outbox_store =
  fixes store :: "'s relay_store"
    and ok :: "'s \<Rightarrow> bool"
    and pending :: "'s \<Rightarrow> event_envelope list"
  assumes fetch: "ok s \<Longrightarrow> 0 \<le> n \<Longrightarrow> rs_fetch store s n = Inr (take (nat n) (pending s))"
    and mark_ok: "ok s \<Longrightarrow> ok (rs_mark store s ids ts)"
    and mark: "ok s \<Longrightarrow> pending (rs_mark store s ids ts) = filter (\<lambda>e. ev_event_id e \<notin> set ids) (pending s)"
    and count: "ok s \<Longrightarrow> rs_count store s = length (pending s)"
    and pending_distinct: "ok s \<Longrightarrow> distinct (map ev_event_id (pending s))"
begin

lemma mark_batch:
  assumes "ok s"
  shows "pending (rs_mark store s (map ev_event_id (take n (pending s))) ts) = drop n (pending s)"
proof -
  let ?ids = "set (map ev_event_id (take n (pending s)))"
  have d: "distinct (map ev_event_id (take n (pending s) @ drop n (pending s)))" using pending_distinct [OF assms] by simp
  have "filter (\<lambda>e. ev_event_id e \<notin> ?ids) (take n (pending s)) = []" by (auto simp: filter_empty_conv)
  moreover have "filter (\<lambda>e. ev_event_id e \<notin> ?ids) (drop n (pending s)) = drop n (pending s)"
    using d unfolding map_append distinct_append by (auto simp: filter_id_conv)
  ultimately have "filter (\<lambda>e. ev_event_id e \<notin> ?ids) (take n (pending s) @ drop n (pending s)) = drop n (pending s)"
    unfolding filter_append by simp
  with mark [OF assms] show ?thesis by (simp del: set_map)
qed

text \<open>A batch that was published is marked, and the rest stays in order.\<close>

lemma relay_batch:
  assumes "ok s" and "0 \<le> n" and "publish_all publish (take (nat n) (pending s)) 0 w = (Inr k, w')"
  shows "\<exists>s' r. relay_outbox_handle store publish ts n (s, w) = (Inr r, s', w') \<and> ok s'
    \<and> pending s' = drop (nat n) (pending s) \<and> ro_remaining_unpublished r = length (pending s) - nat n
    \<and> ro_fetched r = min (nat n) (length (pending s))"
proof (cases "take (nat n) (pending s) = []")
  case True
  then have "relay_outbox_handle store publish ts n (s, w) = (Inr \<lparr>ro_fetched = 0, ro_dispatched = 0, ro_published = 0,
      ro_remaining_unpublished = rs_count store s\<rparr>, s, w)"
    using fetch [OF assms(1,2)] by (simp add: relay_outbox_handle_def)
  moreover have "w' = w" "drop (nat n) (pending s) = pending s" "min (nat n) (length (pending s)) = 0"
    using assms(3) True by auto
  moreover have "length (pending s) - nat n = length (pending s)" using True by auto
  ultimately show ?thesis using assms(1) count [OF assms(1)] by simp
next
  case False
  let ?s' = "rs_mark store s (map ev_event_id (take (nat n) (pending s))) ts"
  have "ok ?s'" by (rule mark_ok [OF assms(1)])
  then have "rs_count store ?s' = length (drop (nat n) (pending s))" using count mark_batch [OF assms(1)] by simp
  with False \<open>ok ?s'\<close> show ?thesis
    using fetch [OF assms(1,2)] assms(3) mark_batch [OF assms(1), of "nat n" ts]
    by (simp add: relay_outbox_handle_def Let_def min.commute)
qed

text \<open>A publisher that raises leaves every event of the batch pending.\<close>

lemma relay_failed:
  assumes "ok s" and "0 \<le> n" and "publish_all publish (take (nat n) (pending s)) 0 w = (Inl e, w')"
  shows "relay_outbox_handle store publish ts n (s, w) = (Inl e, s, w')"
proof -
  have "take (nat n) (pending s) \<noteq> []" using assms(3) by auto
  with assms(3) fetch [OF assms(1,2)] show ?thesis by (simp add: relay_outbox_handle_def)
qed

end

text \<open>Polling rounds, as the worker runs them.\<close>

fun relay_rounds ::
    "nat \<Rightarrow> 's relay_store \<Rightarrow> ('w \<Rightarrow> event_envelope \<Rightarrow> unit res \<times> 'w) \<Rightarrow> datetime \<Rightarrow> int \<Rightarrow> 's \<times> 'w \<Rightarrow> 's \<times> 'w" where
  "relay_rounds 0 store publish now batch s = s"
| "relay_rounds (Suc k) store publish now batch s =
     relay_rounds k store publish now batch (snd (relay_outbox_handle store publish now batch s))"

lemma publish_all_effect:
  "(\<And>w e. publish w e = (Inr (), effect w e)) \<Longrightarrow>
     publish_all publish es k w = (Inr (k + length es), foldl effect w es)"
  by (induction es arbitrary: k w) auto

context outbox_store
begin

text \<open>Enough rounds publish every pending event once, in order, and empty the outbox.\<close>

lemma relay_drains:
  assumes "\<And>w e. publish w e = (Inr (), effect w e)" and "ok s" and "0 < n" and "length (pending s) \<le> k * nat n"
  shows "\<exists>s'. relay_rounds k store publish ts n (s, w) = (s', foldl effect w (pending s)) \<and> ok s' \<and> pending s' = []"
  using assms(2,4)
proof (induction k arbitrary: s w)
  case (Suc k)
  let ?b = "take (nat n) (pending s)"
  have "publish_all publish ?b 0 w = (Inr (length ?b), foldl effect w ?b)"
    using publish_all_effect [of publish effect ?b 0 w] assms(1) by simp
  from relay_batch [OF Suc.prems(1) less_imp_le [OF assms(3)] this, of ts] obtain s' r where
    r: "relay_outbox_handle store publish ts n (s, w) = (Inr r, s', foldl effect w ?b)" "ok s'"
      "pending s' = drop (nat n) (pending s)" by blast
  have "length (pending s') \<le> k * nat n" using Suc.prems(2) r(3) by simp
  from Suc.IH [OF r(2) this, of "foldl effect w ?b"] r(1,3) show ?case
    by (simp flip: foldl_append)
qed simp

end

section \<open>Relaying into the inbox\<close>

text \<open>
  The publisher of the running program: an event goes through the inbox and then to
  a delegate. Its world is the inbox with the consumer's state, and the delegate's.
\<close>

definition inbox_publish ::
    "'w processor list \<Rightarrow> string \<Rightarrow> datetime \<Rightarrow> ('v \<Rightarrow> event_envelope \<Rightarrow> unit res \<times> 'v)
      \<Rightarrow> (inbox \<times> 'w) \<times> 'v \<Rightarrow> event_envelope \<Rightarrow> unit res \<times> (inbox \<times> 'w) \<times> 'v" where
  "inbox_publish processors consumer now delegate s event =
     (case process_inbox_handle processors consumer now (fst s) event of
        (Inl e, t) \<Rightarrow> (Inl e, t, snd s)
      | (Inr _, t) \<Rightarrow> (case delegate (snd s) event of (r, v) \<Rightarrow> (r, t, v)))"

definition logging_publish :: "event_envelope list \<Rightarrow> event_envelope \<Rightarrow> unit res \<times> event_envelope list" where
  "logging_publish published event = (Inr (), published @ [event])"

text \<open>
  Attempts at relaying, each with its own behaviour of the processor and of the
  delegate: either may fail at any event. A processor that fails leaves its state as
  it was (its unit of work is not committed).
\<close>

fun relay_attempts ::
    "'s relay_store \<Rightarrow> string \<Rightarrow> (string \<Rightarrow> bool) \<Rightarrow> datetime \<Rightarrow> int
      \<Rightarrow> (('w \<Rightarrow> event_envelope \<Rightarrow> unit res \<times> 'w) \<times> ('v \<Rightarrow> event_envelope \<Rightarrow> unit res \<times> 'v)) list
      \<Rightarrow> 's \<times> (inbox \<times> 'w) \<times> 'v \<Rightarrow> 's \<times> (inbox \<times> 'w) \<times> 'v" where
  "relay_attempts store consumer supports now batch [] s = s"
| "relay_attempts store consumer supports now batch ((run, delegate) # attempts) s =
     relay_attempts store consumer supports now batch attempts
       (snd (relay_outbox_handle store (inbox_publish [(supports, run)] consumer now delegate) now batch s))"

definition transient :: "('w \<Rightarrow> event_envelope \<Rightarrow> 'w) \<Rightarrow> ('w \<Rightarrow> event_envelope \<Rightarrow> unit res \<times> 'w) \<Rightarrow> bool" where
  "transient effect run \<longleftrightarrow> (\<forall>w e. run w e = (Inr (), effect w e) \<or> (\<exists>x. run w e = (Inl x, w)))"

text \<open>The inbox and the consumer after the first \<open>j\<close> events of \<open>ps\<close>.\<close>

definition consumed :: "event_id set \<Rightarrow> ('w \<Rightarrow> event_envelope \<Rightarrow> 'w) \<Rightarrow> 'w \<Rightarrow> event_envelope list \<Rightarrow> nat \<Rightarrow> inbox \<times> 'w \<Rightarrow> bool" where
  "consumed seen effect w0 ps j s \<longleftrightarrow> j \<le> length ps
     \<and> set (dict_keys (fst s)) = seen \<union> set (map ev_event_id (take j ps)) \<and> snd s = foldl effect w0 (take j ps)"

lemma consume_step:
  assumes "transient effect run" and "distinct (map ev_event_id ps)" and "seen \<inter> set (map ev_event_id ps) = {}"
    and c: "consumed seen effect w0 ps j s" and m: "m \<le> j" "m < length ps" and "supports (ev_event_type (ps ! m))"
    and h: "process_inbox_handle [(supports, run)] consumer now s (ps ! m) = (r, s')"
  shows "\<exists>j' \<ge> j. consumed seen effect w0 ps j' s' \<and> (\<forall>y. r = Inr y \<longrightarrow> m < j')"
proof -
  let ?e = "ps ! m"
  have sup: "processor_for [(supports, run)] (ev_event_type ?e) = Some (supports, run)"
    using assms(7) by (simp add: processor_for_def)
  have keys: "set (dict_keys (fst s)) = seen \<union> set (map ev_event_id (take j ps))" using c by (simp add: consumed_def del: set_map)
  show ?thesis
  proof (cases "m < j")
    case True
    then have "?e \<in> set (take j ps)" using m(2) by (auto simp: in_set_conv_nth)
    then have "ev_event_id ?e \<in> set (dict_keys (fst s))" unfolding keys by auto
    then obtain row where "dict_get (fst s) (ev_event_id ?e) = Some row"
      using dict_get_None_iff [of "fst s" "ev_event_id ?e"] by (cases "dict_get (fst s) (ev_event_id ?e)") (auto simp del: set_map)
    with h sup have "s' = s" by (cases s) (auto simp: process_inbox_handle_def try_record_def)
    with c True show ?thesis by auto
  next
    case False
    with m have [simp]: "m = j" by simp
    have take: "take (Suc j) ps = take j ps @ [?e]" using m(2) by (simp add: take_Suc_conv_app_nth)
    have "ev_event_id ?e \<notin> set (map ev_event_id (take j ps))"
    proof -
      have "distinct (map ev_event_id (take (Suc j) ps))" using assms(2) by (simp flip: take_map)
      then show ?thesis unfolding take by simp
    qed
    moreover have "ev_event_id ?e \<notin> seen" using assms(3) m(2) by (auto simp: disjoint_iff)
    ultimately have new: "dict_get (fst s) (ev_event_id ?e) = None"
      using keys dict_get_None_iff [of "fst s" "ev_event_id ?e"] by (simp del: set_map)
    let ?row = "\<lparr>ib_consumer_name = consumer, ib_event_type = ev_event_type ?e, ib_tenant_id = ev_tenant_id ?e, ib_processed_at = now\<rparr>"
    from assms(1) consider "run (snd s) ?e = (Inr (), effect (snd s) ?e)" | x where "run (snd s) ?e = (Inl x, snd s)"
      unfolding transient_def by blast
    then show ?thesis
    proof cases
      case 1
      with h sup new have "s' = (dict_set (ev_event_id ?e) ?row (fst s), effect (snd s) ?e)"
        by (auto simp: process_inbox_handle_def try_record_def)
      moreover have "set (dict_keys (dict_set (ev_event_id ?e) ?row (fst s))) = insert (ev_event_id ?e) (set (dict_keys (fst s)))"
        using new by (simp add: dict_set_new)
      ultimately have "consumed seen effect w0 ps (Suc j) s'"
        using c m(2) unfolding consumed_def take by auto
      then show ?thesis by (intro exI [of _ "Suc j"]) simp
    next
      case (2 x)
      with h sup new have "r = Inl x" "s' = s"
        by (cases s; auto simp: process_inbox_handle_def try_record_def remove_try)+
      with c show ?thesis by auto
    qed
  qed
qed

lemma consume_batch:
  assumes "transient effect run" and "distinct (map ev_event_id ps)" and "seen \<inter> set (map ev_event_id ps) = {}"
    and "\<forall>e \<in> set ps. supports (ev_event_type e)"
    and "consumed seen effect w0 ps j (fst s)" and "m \<le> j" and "es = take n (drop m ps)"
    and "publish_all (inbox_publish [(supports, run)] consumer now delegate) es k s = (r, s')"
  shows "\<exists>j' \<ge> j. consumed seen effect w0 ps j' (fst s') \<and> (\<forall>y. r = Inr y \<longrightarrow> m + length es \<le> j')"
  using assms(5-8)
proof (induction es arbitrary: j s m n k)
  case Nil
  then show ?case by auto
next
  case (Cons e es)
  then have m: "m < length ps" "n \<noteq> 0" by (auto simp: not_le intro: ccontr)
  then have e: "e = ps ! m" and es: "es = take (n - 1) (drop (Suc m) ps)"
    using Cons.prems(3) by (cases n; simp flip: Cons_nth_drop_Suc)+
  have sup: "supports (ev_event_type (ps ! m))" using assms(4) m(1) by simp
  obtain r1 t where h: "process_inbox_handle [(supports, run)] consumer now (fst s) (ps ! m) = (r1, t)"
    by (cases "process_inbox_handle [(supports, run)] consumer now (fst s) (ps ! m)")
  from consume_step [OF assms(1-3) Cons.prems(1,2) m(1) sup h] obtain j1 where
    j1: "j \<le> j1" "consumed seen effect w0 ps j1 t" "\<forall>y. r1 = Inr y \<longrightarrow> m < j1" by blast
  show ?case
  proof (cases r1)
    case (Inl x)
    then have "r = Inl x" "fst s' = t" using Cons.prems(4) h by (auto simp: inbox_publish_def e)
    with j1 show ?thesis by auto
  next
    case (Inr y)
    then have lt: "Suc m \<le> j1" using j1(3) by auto
    obtain r2 v where d: "delegate (snd s) (ps ! m) = (r2, v)" by (cases "delegate (snd s) (ps ! m)")
    show ?thesis
    proof (cases r2)
      case (Inl x)
      then have "r = Inl x" "fst s' = t" using Cons.prems(4) h d Inr by (auto simp: inbox_publish_def e)
      with j1 show ?thesis by auto
    next
      case (Inr u)
      then have "inbox_publish [(supports, run)] consumer now delegate s e = (Inr (), t, v)"
        using h d \<open>r1 = Inr y\<close> by (simp add: inbox_publish_def e)
      with Cons.prems(4) have "publish_all (inbox_publish [(supports, run)] consumer now delegate) es (Suc k) (t, v) = (r, s')"
        by simp
      from Cons.IH [OF _ lt es this] j1(2) obtain j2 where
        "j1 \<le> j2" "consumed seen effect w0 ps j2 (fst s')" "\<forall>y. r = Inr y \<longrightarrow> Suc m + length es \<le> j2" by auto
      with j1(1) show ?thesis by (intro exI [of _ j2]) auto
    qed
  qed
qed

context outbox_store
begin

text \<open>At-least-once delivery with the inbox is exactly-once processing, in the order of the outbox.\<close>

lemma attempts_exactly_once:
  assumes "\<forall>a \<in> set attempts. transient effect (fst a)" and "distinct (map ev_event_id ps)"
    and "seen \<inter> set (map ev_event_id ps) = {}" and "\<forall>e \<in> set ps. supports (ev_event_type e)" and "0 \<le> batch"
    and "ok s" and "pending s = drop k ps" and "k \<le> j" and "consumed seen effect w0 ps j x"
    and "relay_attempts store consumer supports now batch attempts (s, x, v) = (s', x', v')"
  shows "\<exists>k' j'. ok s' \<and> pending s' = drop k' ps \<and> k' \<le> j' \<and> consumed seen effect w0 ps j' x'"
  using assms(1,6-10)
proof (induction attempts arbitrary: s x v k j)
  case Nil
  then show ?case by auto
next
  case (Cons a attempts)
  obtain run delegate where a: "a = (run, delegate)" by (cases a)
  let ?pub = "inbox_publish [(supports, run)] consumer now delegate"
  let ?es = "take (nat batch) (pending s)"
  obtain r y where p: "publish_all ?pub ?es 0 (x, v) = (r, y)" by (cases "publish_all ?pub ?es 0 (x, v)")
  have tr: "transient effect run" using Cons.prems(1) a by simp
  from consume_batch [OF tr assms(2-4) _ Cons.prems(4), of w0 "(x, v)" ?es "nat batch" consumer now delegate 0 r y]
    p Cons.prems(3,5) obtain j1 where
    j1: "j \<le> j1" "consumed seen effect w0 ps j1 (fst y)" "\<forall>z. r = Inr z \<longrightarrow> k + length ?es \<le> j1" by auto
  have "\<exists>s1 k1. snd (relay_outbox_handle store ?pub now batch (s, x, v)) = (s1, y) \<and> ok s1 \<and> pending s1 = drop k1 ps \<and> k1 \<le> j1"
  proof (cases r)
    case (Inl e)
    with relay_failed [OF Cons.prems(2) assms(5)] p Cons.prems(2-4) j1(1) show ?thesis by force
  next
    case (Inr z)
    from relay_batch [OF Cons.prems(2) assms(5) p [unfolded Inr], of now] obtain s1 q where
      q: "relay_outbox_handle store ?pub now batch (s, x, v) = (Inr q, s1, y)" "ok s1" "pending s1 = drop (nat batch) (pending s)"
      by blast
    show ?thesis
    proof (cases "nat batch \<le> length (pending s)")
      case True
      with q Inr j1(3) Cons.prems(3) show ?thesis by (intro exI [of _ s1] exI [of _ "k + nat batch"]) (auto simp: add.commute)
    next
      case False
      then have "drop (nat batch) (pending s) = drop (k + length ?es) ps"
        using Cons.prems(3) by simp
      with q Inr j1(3) show ?thesis by (intro exI [of _ s1] exI [of _ "k + length ?es"]) auto
    qed
  qed
  then obtain s1 k1 where s1: "snd (relay_outbox_handle store ?pub now batch (s, x, v)) = (s1, y)" "ok s1"
    "pending s1 = drop k1 ps" "k1 \<le> j1" by blast
  have "relay_attempts store consumer supports now batch attempts (s1, fst y, snd y) = (s', x', v')"
    using Cons.prems(6) s1(1) a by simp
  from Cons.IH [OF _ s1(2-4) j1(2) this] Cons.prems(1) show ?case by auto
qed

end

section \<open>Properties\<close>

definition sample_event :: "128 word \<Rightarrow> event_envelope" where
  "sample_event n = \<lparr>ev_event_id = EventId (UUID n), ev_event_type = ''memory.episode.recorded.v1'', ev_schema_version = 1,
     ev_tenant_id = TenantId (UUID 1), ev_aggregate_id = OfMemory (MemoryId (UUID n)), ev_aggregate_version = 1,
     ev_correlation_id = CorrelationId (UUID 3), ev_causation_id = None, ev_occurred_at = sample_time,
     ev_payload = VProxy []\<rparr>"

text \<open>
  Delivering events through the inbox runs the processor once for each event
  identifier, at its first delivery and in the order of the first deliveries, however
  often and in whatever order the events are delivered again.
\<close>

theorem inbox_processes_once:
  assumes "\<And>w e. run w e = (Inr (), effect w e)" and "\<forall>e \<in> set es. supports (ev_event_type e)"
  shows "snd (deliver_all [(supports, run)] consumer now es (inbox, w))
    = foldl effect w (first_deliveries (set (dict_keys inbox)) es)"
  by (rule deliver_once [OF assms])

theorem inbox_processes_once_witness:
  "snd (deliver_all [(\<lambda>_. True, \<lambda>w e. (Inr (), w @ [e]))] ''c'' sample_time
      [sample_event 1, sample_event 2, sample_event 1] ([], [])) = [sample_event 1, sample_event 2]"
  using inbox_processes_once [of "\<lambda>w e. (Inr (), w @ [e])" "\<lambda>w e. w @ [e]"
      "[sample_event 1, sample_event 2, sample_event 1]" "\<lambda>_. True" "''c''" sample_time "[]" "[]"]
  by (simp add: sample_event_def)

text \<open>
  A failed delivery can be repeated. When the processor raises, the inbox is as
  it was before, so the next delivery runs the processor again; once it succeeds,
  every further delivery is skipped.
\<close>

theorem inbox_failure_repeats:
  assumes "process_inbox_handle processors consumer now (inbox, w) event = (Inl e, inbox', w')"
    and "processor_for processors (ev_event_type event) = Some processor"
    and "snd processor w' event = (Inr u, w'')"
  shows "inbox' = inbox \<and> (\<exists>inbox''.
      process_inbox_handle processors consumer now' (inbox', w') event
        = (Inr \<lparr>pi_processed = True, pi_skipped = False\<rparr>, inbox'', w'')
    \<and> process_inbox_handle processors consumer now'' (inbox'', w'') event
        = (Inr \<lparr>pi_processed = False, pi_skipped = True\<rparr>, inbox'', w''))"
  using process_failed [OF assms(1)] assms(2,3) by (auto simp: process_inbox_handle_def try_record_def)

theorem inbox_failure_repeats_witness:
  "\<exists>inbox''. process_inbox_handle [(\<lambda>_. True, \<lambda>w e. if w = 0 then (Inl StopIteration, 1) else (Inr (), w + 1 :: int))]
      ''c'' sample_time ([], 1) (sample_event 1) = (Inr \<lparr>pi_processed = True, pi_skipped = False\<rparr>, inbox'', 2)"
  using inbox_failure_repeats [of "[(\<lambda>_. True, \<lambda>w e. if w = 0 then (Inl StopIteration, 1) else (Inr (), w + 1 :: int))]"
      "''c''" sample_time "[]" 0 "sample_event 1" StopIteration "[]" 1
      "(\<lambda>_. True, \<lambda>w e. if w = 0 then (Inl StopIteration, 1) else (Inr (), w + 1 :: int))" "()" 2 sample_time]
  by (simp add: process_inbox_handle_def try_record_def processor_for_def remove_record_def)

end
