(* ===== verification/Memory_Postgres.thy ===== *)
theory Memory_Postgres
  imports Rows Delivery
begin

text \<open>
  The relational memory adapter (\<open>memory/adapters/postgres/unit_of_work.py\<close>,
  \<open>outbox_relay.py\<close>): its statements over the tables that the migrations create,
  and the life cycle of its unit of work. A statement is translated as the list
  operation that its text denotes, a transaction as a working copy of the tables.
  The driver returns a timestamp in UTC, the table keeps its instant.
\<close>

section \<open>Tables and statements\<close>

record pg_memory =
  pg_episodes :: "row list"
  pg_idempotency :: "row list"
  pg_outbox :: "row list"
  pg_claims :: "row list"

fun stored_value :: "db_value \<Rightarrow> db_value" where
  "stored_value (DTime d) = DTime (utc d)"
| "stored_value v = v"

definition stored_row :: "row \<Rightarrow> row" where
  "stored_row r = map (\<lambda>(k, v). (k, stored_value v)) r"

definition same_cols :: "string list \<Rightarrow> row \<Rightarrow> row \<Rightarrow> bool" where
  "same_cols ks a b \<longleftrightarrow> list_all (\<lambda>k. dict_get a k = dict_get b k) ks"

definition unique_violation :: exn where "unique_violation = BackendError ''unique violation''"
definition foreign_key_violation :: exn where "foreign_key_violation = BackendError ''foreign key violation''"

text \<open>\<open>INSERT\<close> under the unique keys of the table, each a list of columns.\<close>

definition sql_insert :: "string list list \<Rightarrow> row \<Rightarrow> row list \<Rightarrow> row list res" where
  "sql_insert keys r table = (if list_ex (\<lambda>ks. list_ex (same_cols ks (stored_row r)) table) keys
     then Inl unique_violation else Inr (table @ [stored_row r]))"

definition row_is :: "row \<Rightarrow> string \<Rightarrow> db_value \<Rightarrow> bool" where
  "row_is r k v \<longleftrightarrow> dict_get r k = Some v"

definition scope_params :: "memory_scope \<Rightarrow> row" where
  "scope_params s =
     [(''tenant_id'', DUuid (tenant_uuid (ms_tenant_id s))),
      (''subject_id'', DUuid (subject_uuid (ms_subject_id s))),
      (''workspace_id'', db_opt DText (ms_workspace_id s)),
      (''agent_id'', db_opt (\<lambda>a. DUuid (agent_instance_uuid a)) (ms_agent_id s))]"

definition in_scope :: "memory_scope \<Rightarrow> row \<Rightarrow> bool" where
  "in_scope s r \<longleftrightarrow> list_all (\<lambda>(k, v). row_is r k v) (scope_params s)"

text \<open>The pair of a timestamp and an identifier that the listings order by.\<close>

definition row_stamp :: "string \<Rightarrow> string \<Rightarrow> row \<Rightarrow> int \<times> uuid" where
  "row_stamp ts i r = (case (dict_get r ts, dict_get r i) of
       (Some (DTime d), Some (DUuid u)) \<Rightarrow> stamp_key d u
     | _ \<Rightarrow> (0, UUID 0))"

section \<open>The transaction\<close>

record pg_tx =
  pt_active :: bool
  pt_committed :: bool
  pt_tables :: pg_memory

definition pt_require_usable :: "pg_tx \<Rightarrow> unit res" where
  "pt_require_usable tx =
     bindE (raise_if (\<not> pt_active tx) not_active) (\<lambda>_. raise_if (pt_committed tx) already_committed)"

definition idempotency_row :: "episode \<Rightarrow> row" where
  "idempotency_row e = (let r = episode_to_row e in
     map (\<lambda>k. (k, the (dict_get r k)))
       [''tenant_id'', ''idempotency_key'', ''episode_id'', ''subject_id'', ''workspace_id'', ''agent_id'',
        ''actor_id'', ''source_type'', ''content_ref'', ''observed_at'', ''content_hash'', ''sensitivity'',
        ''retention_class'', ''consent_basis''])"

definition find_idempotency :: "pg_memory \<Rightarrow> episode \<Rightarrow> row option" where
  "find_idempotency t e = find (\<lambda>r. row_is r ''tenant_id'' (DUuid (tenant_uuid (ms_tenant_id (ep_scope e))))
     \<and> row_is r ''idempotency_key'' (DText (ep_idempotency_key e))) (pg_idempotency t)"

text \<open>What a stored row answers to a request under its key.\<close>

definition replay_row :: "episode \<Rightarrow> row \<Rightarrow> append_result res" where
  "replay_row e existing =
     bindE (episode_request_fingerprint_from_row existing) (\<lambda>fp.
     bindE (raise_if (\<not> fingerprint_eq (episode_request_fingerprint e) fp) EpisodeIdempotencyConflict) (\<lambda>_.
     bindE (bindE (col existing ''episode_id'') as_uuid) (\<lambda>i.
       Inr \<lparr>ar_episode_id = MemoryId i, ar_created = False\<rparr>)))"

text \<open>
  The advisory lock serialises the transactions of one key, so the statements of
  \<open>append\<close> see the tables of one moment. The conflict of the second insert is
  kept as the code has it.
\<close>

definition pt_append :: "pg_tx \<Rightarrow> episode \<Rightarrow> (append_result \<times> pg_tx) res" where
  "pt_append tx e =
     bindE (pt_require_usable tx) (\<lambda>_.
       let t = pt_tables tx in
       case find_idempotency t e of
         Some existing \<Rightarrow> bindE (replay_row e existing) (\<lambda>r. Inr (r, tx))
       | None \<Rightarrow>
           bindE (sql_insert [[''tenant_id'', ''episode_id''], [''tenant_id'', ''idempotency_key'']]
                    (episode_to_row e) (pg_episodes t)) (\<lambda>eps.
           let t1 = t\<lparr>pg_episodes := eps\<rparr> in
           (case sql_insert [[''tenant_id'', ''idempotency_key'']] (idempotency_row e) (pg_idempotency t) of
              Inr idem \<Rightarrow> Inr (\<lparr>ar_episode_id = ep_id e, ar_created = True\<rparr>,
                tx\<lparr>pt_tables := t1\<lparr>pg_idempotency := idem\<rparr>\<rparr>)
            | Inl _ \<Rightarrow>
                (case find_idempotency t1 e of
                   None \<Rightarrow> Inl (RuntimeError ''idempotency insert conflict without a stored row'')
                 | Some conflicting \<Rightarrow> bindE (replay_row e conflicting) (\<lambda>r. Inr (r, tx\<lparr>pt_tables := t1\<rparr>))))))"

definition pt_get :: "pg_tx \<Rightarrow> memory_scope \<Rightarrow> memory_id \<Rightarrow> episode option res" where
  "pt_get tx scope i =
     bindE (pt_require_usable tx) (\<lambda>_.
       case find (\<lambda>r. row_is r ''episode_id'' (DUuid (memory_uuid i)) \<and> in_scope scope r) (pg_episodes (pt_tables tx)) of
         None \<Rightarrow> Inr None
       | Some r \<Rightarrow> bindE (row_to_episode r) (\<lambda>e. Inr (Some e)))"

definition episode_stamp :: "row \<Rightarrow> int \<times> uuid" where
  "episode_stamp = row_stamp ''ingested_at'' ''episode_id''"

definition pt_stream :: "pg_tx \<Rightarrow> memory_scope \<Rightarrow> int option \<Rightarrow> string option \<Rightarrow> episode list res" where
  "pt_stream tx scope limit cursor =
     bindE (pt_require_usable tx) (\<lambda>_.
     bindE (check_stream_args limit cursor) (\<lambda>_.
     bindE (case cursor of
         None \<Rightarrow> Inr (\<lambda>r. True)
       | Some c \<Rightarrow> bindE (decode_episode_cursor c) (\<lambda>(cursor_at, cursor_id).
           Inr (\<lambda>r. episode_stamp r > stamp_key cursor_at (memory_uuid cursor_id)))) (\<lambda>beyond.
       mapE row_to_episode (slice limit (sort_key episode_stamp
         (filter (\<lambda>r. in_scope scope r \<and> beyond r) (pg_episodes (pt_tables tx))))))))"

section \<open>Claims\<close>

definition proposal_key :: "string list" where
  "proposal_key = [''tenant_id'', ''episode_id'', ''extractor_version'']"

definition pt_add_proposal :: "pg_tx \<Rightarrow> claim \<Rightarrow> (add_proposal_result \<times> pg_tx) res" where
  "pt_add_proposal tx c =
     bindE (pt_require_usable tx) (\<lambda>_.
     bindE (case cl_evidence c of [] \<Rightarrow> Inl IndexError | ev # _ \<Rightarrow> Inr ev) (\<lambda>ev.
     bindE (claim_to_row c (er_episode_id ev)) (\<lambda>r.
       let t = pt_tables tx in
       if list_ex (same_cols proposal_key (stored_row r)) (pg_claims t) then
         (case find (\<lambda>x. row_is x ''tenant_id'' (DUuid (tenant_uuid (ms_tenant_id (cl_scope c))))
              \<and> row_is x ''episode_id'' (DUuid (memory_uuid (er_episode_id ev)))
              \<and> row_is x ''extractor_version'' (DText (er_extractor_version ev))) (pg_claims t) of
            None \<Rightarrow> Inl (RuntimeError ''claim proposal conflict without a stored row'')
          | Some existing \<Rightarrow> bindE (bindE (col existing ''claim_id'') as_uuid) (\<lambda>i.
              Inr (\<lparr>apr_claim_id = MemoryId i, apr_created = False\<rparr>, tx)))
       else
         bindE (raise_if (\<not> list_ex (same_cols [''tenant_id'', ''episode_id''] r) (pg_episodes t)) foreign_key_violation) (\<lambda>_.
         bindE (sql_insert [[''tenant_id'', ''claim_id'']] r (pg_claims t)) (\<lambda>cls.
           Inr (\<lparr>apr_claim_id = cl_id c, apr_created = True\<rparr>, tx\<lparr>pt_tables := t\<lparr>pg_claims := cls\<rparr>\<rparr>))))))"

definition claim_stamp :: "row \<Rightarrow> int \<times> uuid" where
  "claim_stamp = row_stamp ''recorded_from'' ''claim_id''"

text \<open>The proposals that are open: status \<open>proposed\<close> and no end of their recording.\<close>

definition open_claim :: "row \<Rightarrow> bool" where
  "open_claim r \<longleftrightarrow> row_is r ''status'' (DText ''proposed'') \<and> row_is r ''recorded_to'' DNull"

definition pt_current :: "(string \<Rightarrow> pyfloat res) \<Rightarrow> pg_tx \<Rightarrow> memory_query \<Rightarrow> claim list res" where
  "pt_current float_of tx q =
     bindE (pt_require_usable tx) (\<lambda>_.
       mapE (row_to_claim float_of) (slice (Some (mq_limit q)) (sort_desc claim_stamp
         (filter (\<lambda>r. in_scope (mq_scope q) r \<and> open_claim r) (pg_claims (pt_tables tx))))))"

definition pt_history :: "(string \<Rightarrow> pyfloat res) \<Rightarrow> pg_tx \<Rightarrow> memory_scope \<Rightarrow> memory_id \<Rightarrow> claim list res" where
  "pt_history float_of tx scope i =
     bindE (pt_require_usable tx) (\<lambda>_.
       mapE (row_to_claim float_of) (filter (\<lambda>r. row_is r ''claim_id'' (DUuid (memory_uuid i)) \<and> in_scope scope r)
         (pg_claims (pt_tables tx))))"

definition pt_claim_stream ::
    "(string \<Rightarrow> pyfloat res) \<Rightarrow> pg_tx \<Rightarrow> memory_scope \<Rightarrow> int option \<Rightarrow> string option \<Rightarrow> claim list res" where
  "pt_claim_stream float_of tx scope limit cursor =
     bindE (pt_require_usable tx) (\<lambda>_.
     bindE (check_stream_args limit cursor) (\<lambda>_.
     bindE (case cursor of
         None \<Rightarrow> Inr (\<lambda>r. True)
       | Some c \<Rightarrow> bindE (decode_claim_cursor c) (\<lambda>(cursor_at, cursor_id).
           Inr (\<lambda>r. claim_stamp r < stamp_key cursor_at (memory_uuid cursor_id)))) (\<lambda>beyond.
       mapE (row_to_claim float_of) (slice limit (sort_desc claim_stamp
         (filter (\<lambda>r. in_scope scope r \<and> open_claim r \<and> beyond r) (pg_claims (pt_tables tx))))))))"

section \<open>The outbox\<close>

definition check_aggregate :: "row list \<Rightarrow> string \<Rightarrow> event_envelope \<Rightarrow> unit res" where
  "check_aggregate table id_col ev =
     (let tenants = filter (\<lambda>r. row_is r id_col (DUuid (uuid_value_uuid (ev_aggregate_id ev)))) table in
      bindE (raise_if (tenants = []) aggregate_unknown) (\<lambda>_.
      raise_if (\<not> list_ex (\<lambda>r. row_is r ''tenant_id'' (DUuid (tenant_uuid (ev_tenant_id ev)))) tenants) tenant_mismatch))"

definition pt_publish :: "pg_tx \<Rightarrow> event_envelope \<Rightarrow> pg_tx res" where
  "pt_publish tx ev =
     bindE (pt_require_usable tx) (\<lambda>_.
       let t = pt_tables tx in
       bindE (if ev_event_type ev = episode_recorded then check_aggregate (pg_episodes t) ''episode_id'' ev
              else if ev_event_type ev = claim_proposed then check_aggregate (pg_claims t) ''claim_id'' ev
              else Inr ()) (\<lambda>_.
       bindE (sql_insert [[''event_id'']] (event_to_row ev @ [(''published_at'', DNull)]) (pg_outbox t)) (\<lambda>out.
         Inr (tx\<lparr>pt_tables := t\<lparr>pg_outbox := out\<rparr>\<rparr>))))"

section \<open>The unit of work\<close>

record pg_uow =
  pu_database :: pg_memory
  pu_entered :: bool
  pu_state :: "pg_tx option"

definition pu_create :: "pg_memory \<Rightarrow> pg_uow" where
  "pu_create db = \<lparr>pu_database = db, pu_entered = False, pu_state = None\<rparr>"

definition pu_enter :: "pg_uow \<Rightarrow> pg_uow res" where
  "pu_enter u = (if pu_entered u then Inl already_entered
     else Inr (u\<lparr>pu_entered := True,
       pu_state := Some \<lparr>pt_active = True, pt_committed = False, pt_tables = pu_database u\<rparr>\<rparr>))"

text \<open>Leaving without a commit rolls back: the tables of the database stay as they were.\<close>

definition pu_exit :: "pg_uow \<Rightarrow> pg_uow res" where
  "pu_exit u = (case pu_state u of
       None \<Rightarrow> Inl not_active
     | Some tx \<Rightarrow> if \<not> pt_active tx then Inl not_active else Inr (u\<lparr>pu_state := Some (tx\<lparr>pt_active := False\<rparr>)\<rparr>))"

definition pu_require_usable :: "pg_uow \<Rightarrow> pg_tx res" where
  "pu_require_usable u = (case pu_state u of
       None \<Rightarrow> Inl not_active
     | Some tx \<Rightarrow> bindE (pt_require_usable tx) (\<lambda>_. Inr tx))"

definition pu_run :: "pg_uow \<Rightarrow> (pg_tx \<Rightarrow> ('a \<times> pg_tx) res) \<Rightarrow> ('a \<times> pg_uow) res" where
  "pu_run u f = bindE (pu_require_usable u) (\<lambda>tx. bindE (f tx) (\<lambda>(r, tx'). Inr (r, u\<lparr>pu_state := Some tx'\<rparr>)))"

definition pu_commit :: "pg_uow \<Rightarrow> pg_uow res" where
  "pu_commit u = bindE (pu_require_usable u) (\<lambda>tx.
     Inr (u\<lparr>pu_database := pt_tables tx, pu_state := Some (tx\<lparr>pt_committed := True\<rparr>)\<rparr>))"

definition postgres_port :: "(string \<Rightarrow> pyfloat res) \<Rightarrow> (pg_memory, pg_uow) uow_port" where
  "postgres_port float_of = \<lparr>
     up_enter = (\<lambda>d. pu_enter (pu_create d)),
     up_append = (\<lambda>u e. pu_run u (\<lambda>tx. pt_append tx e)),
     up_get = (\<lambda>u scope i. bindE (pu_require_usable u) (\<lambda>tx. pt_get tx scope i)),
     up_stream = (\<lambda>u scope limit cursor. bindE (pu_require_usable u) (\<lambda>tx. pt_stream tx scope limit cursor)),
     up_add_proposal = (\<lambda>u c. pu_run u (\<lambda>tx. pt_add_proposal tx c)),
     up_history = (\<lambda>u scope i. bindE (pu_require_usable u) (\<lambda>tx. pt_history float_of tx scope i)),
     up_claim_stream = (\<lambda>u scope limit cursor. bindE (pu_require_usable u)
       (\<lambda>tx. pt_claim_stream float_of tx scope limit cursor)),
     up_publish = (\<lambda>u ev. bindE (pu_run u (\<lambda>tx. bindE (pt_publish tx ev) (\<lambda>tx'. Inr ((), tx')))) (\<lambda>(_, u'). Inr u')),
     up_commit = pu_commit,
     up_exit = pu_database\<rparr>"

section \<open>The polling store of the relay\<close>

definition unpublished :: "row \<Rightarrow> bool" where
  "unpublished r \<longleftrightarrow> row_is r ''published_at'' DNull"

definition outbox_stamp :: "row \<Rightarrow> int \<times> uuid" where
  "outbox_stamp = row_stamp ''occurred_at'' ''event_id''"

definition fetch_unpublished :: "(string \<Rightarrow> int res) \<Rightarrow> row list \<Rightarrow> int \<Rightarrow> event_envelope list res" where
  "fetch_unpublished int_of table limit =
     (if limit < 0 then Inl (BackendError ''LIMIT must not be negative'')
      else mapE (row_to_event int_of) (take (nat limit) (sort_key outbox_stamp (filter unpublished table))))"

definition mark_published :: "row list \<Rightarrow> event_id list \<Rightarrow> datetime \<Rightarrow> row list" where
  "mark_published table event_ids published_at =
     (if event_ids = [] then table
      else map (\<lambda>r. if list_ex (\<lambda>i. row_is r ''event_id'' (DUuid (event_uuid i))) event_ids \<and> unpublished r
        then dict_set ''published_at'' (DTime (utc published_at)) r else r) table)"

definition count_unpublished :: "row list \<Rightarrow> nat" where
  "count_unpublished table = length (filter unpublished table)"

definition postgres_relay_store :: "(string \<Rightarrow> int res) \<Rightarrow> row list relay_store" where
  "postgres_relay_store int_of =
     \<lparr>rs_fetch = fetch_unpublished int_of, rs_mark = mark_published, rs_count = count_unpublished\<rparr>"

section \<open>Rows of episodes\<close>

text \<open>An episode as the handler makes it: checked, with its dates in UTC.\<close>

definition canonical_episode :: "episode \<Rightarrow> bool" where
  "canonical_episode e \<longleftrightarrow> episode_ok e \<and> scope_ok (ep_scope e) \<and> in_utc (ep_observed_at e) \<and> in_utc (ep_ingested_at e)"

lemma utc_in_utc: "in_utc d \<Longrightarrow> utc d = d"
  by (cases d) (auto simp: in_utc_def utc_def instant_def)

lemma stored_db_opt [simp]:
  "stored_value (db_opt DText w) = db_opt DText w"
  "stored_value (db_opt (\<lambda>a. DUuid (f a)) x) = db_opt (\<lambda>a. DUuid (f a)) x"
  "stored_value (db_opt DTime t) = db_opt DTime (map_option utc t)"
  by (cases w, simp_all, cases x, simp_all, cases t, simp_all)

lemma stored_episode: "canonical_episode e \<Longrightarrow> stored_row (episode_to_row e) = episode_to_row e"
  by (simp add: stored_row_def episode_to_row_def canonical_episode_def utc_in_utc)

lemma stored_idempotency: "canonical_episode e \<Longrightarrow> stored_row (idempotency_row e) = idempotency_row e"
  by (simp add: stored_row_def idempotency_row_def episode_to_row_def canonical_episode_def utc_in_utc Let_def)

lemma find_map: "find P (map f xs) = map_option f (find (\<lambda>x. P (f x)) xs)"
  by (induction xs) auto

lemma episode_key_iff: "episode_key a = episode_key b \<longleftrightarrow>
    ms_tenant_id (ep_scope a) = ms_tenant_id (ep_scope b) \<and> ep_idempotency_key a = ep_idempotency_key b"
  by (simp add: episode_key_def)

lemma tenant_uuid_eq [simp]: "tenant_uuid a = tenant_uuid b \<longleftrightarrow> a = b"
  by (auto intro: tenant_id.expand)

lemma memory_uuid_eq [simp]: "memory_uuid a = memory_uuid b \<longleftrightarrow> a = b"
  by (auto intro: memory_id.expand)

lemma subject_uuid_eq [simp]: "subject_uuid a = subject_uuid b \<longleftrightarrow> a = b"
  by (auto intro: subject_id.expand)

lemma event_uuid_eq [simp]: "event_uuid a = event_uuid b \<longleftrightarrow> a = b"
  by (auto intro: event_id.expand)

lemma db_opt_eq [simp]:
  "db_opt DText a = db_opt DText b \<longleftrightarrow> a = b"
  "db_opt (\<lambda>a. DUuid (agent_instance_uuid a)) c = db_opt (\<lambda>a. DUuid (agent_instance_uuid a)) d \<longleftrightarrow> c = d"
  by (cases a; cases b; simp) (cases c; cases d; auto intro: agent_instance_id.expand)

lemma in_scope_episode: "in_scope scope (episode_to_row e) \<longleftrightarrow> ep_scope e = scope"
proof -
  have "ep_scope e = scope \<longleftrightarrow> ms_tenant_id (ep_scope e) = ms_tenant_id scope
      \<and> ms_subject_id (ep_scope e) = ms_subject_id scope \<and> ms_workspace_id (ep_scope e) = ms_workspace_id scope
      \<and> ms_agent_id (ep_scope e) = ms_agent_id scope"
    by (auto intro: memory_scope.equality)
  then show ?thesis by (simp add: in_scope_def scope_params_def row_is_def episode_to_row_def)
qed

lemma find_idempotency_rows:
  "pg_idempotency t = map idempotency_row eps \<Longrightarrow>
     find_idempotency t e = map_option idempotency_row (find (\<lambda>x. episode_key x = episode_key e) eps)"
  by (simp add: find_idempotency_def find_map)
     (simp add: idempotency_row_def episode_to_row_def row_is_def episode_key_iff Let_def)

lemma replay_stored:
  "replay_row e (idempotency_row x) = (if same_episode_request x e
     then Inr \<lparr>ar_episode_id = ep_id x, ar_created = False\<rparr> else Inl EpisodeIdempotencyConflict)"
proof -
  have "map_option AgentInstanceId (map_option agent_instance_uuid a) = a" for a by (cases a) simp_all
  then have "episode_request_fingerprint_from_row (idempotency_row x) = Inr (episode_request_fingerprint x)"
    by (simp add: episode_request_fingerprint_from_row_def idempotency_row_def episode_to_row_def Let_def
        episode_request_fingerprint_def)
  moreover have "col (idempotency_row x) ''episode_id'' = Inr (DUuid (memory_uuid (ep_id x)))"
    by (simp add: idempotency_row_def episode_to_row_def Let_def)
  ultimately show ?thesis
    by (simp add: replay_row_def fingerprint_same_episode_request same_episode_request_sym [of e x])
qed

section \<open>The relational unit of work refines the in-memory one\<close>

text \<open>\<open>refines tx m\<close>: the tables hold the rows of the episodes of the in-memory transaction \<open>m\<close>.\<close>

definition refines :: "pg_tx \<Rightarrow> memory_tx \<Rightarrow> bool" where
  "refines tx m \<longleftrightarrow> pt_active tx = tx_active m \<and> pt_committed tx = tx_committed m
     \<and> pg_episodes (pt_tables tx) = map episode_to_row (tx_episodes m)
     \<and> pg_idempotency (pt_tables tx) = map idempotency_row (tx_episodes m)
     \<and> (\<forall>e \<in> set (tx_episodes m). canonical_episode e) \<and> tx_ok m"

lemma refines_usable: "refines tx m \<Longrightarrow> pt_require_usable tx = Inr ()"
  by (simp add: refines_def pt_require_usable_def tx_ok_def usable_def)

lemma pt_append_old:
  assumes "refines tx m" and "old \<in> set (tx_episodes m)" and "episode_key old = episode_key e"
  shows "pt_append tx e = (if same_episode_request old e then Inr (\<lparr>ar_episode_id = ep_id old, ar_created = False\<rparr>, tx)
    else Inl EpisodeIdempotencyConflict)"
proof -
  obtain x where x: "find (\<lambda>x. episode_key x = episode_key e) (tx_episodes m) = Some x"
    using assms(2,3) by (cases "find (\<lambda>x. episode_key x = episode_key e) (tx_episodes m)") (auto simp: find_None_iff)
  then have "x \<in> set (tx_episodes m)" "episode_key x = episode_key e" by (auto simp: find_Some_iff)
  then have "x = old" using assms store_ok_unique_key by (auto simp: refines_def tx_ok_def)
  with x assms(1) have "find_idempotency (pt_tables tx) e = Some (idempotency_row old)"
    by (simp add: find_idempotency_rows [of _ "tx_episodes m"] refines_def)
  then show ?thesis using refines_usable [OF assms(1)] by (simp add: pt_append_def replay_stored)
qed

lemma pt_append_new:
  assumes r: "refines tx m" and e: "canonical_episode e" and key: "\<forall>x \<in> set (tx_episodes m). episode_key x \<noteq> episode_key e"
    and id: "ep_id e \<notin> ep_id ` set (tx_episodes m)"
  shows "\<exists>tx' m'. pt_append tx e = Inr (\<lparr>ar_episode_id = ep_id e, ar_created = True\<rparr>, tx') \<and> refines tx' m'
    \<and> tx_append m e = Inr (\<lparr>ar_episode_id = ep_id e, ar_created = True\<rparr>, m')
    \<and> tx_episodes m' = tx_episodes m @ [e]
    \<and> pg_outbox (pt_tables tx') = pg_outbox (pt_tables tx) \<and> pg_claims (pt_tables tx') = pg_claims (pt_tables tx)"
proof -
  have m: "tx_ok m" and eps: "pg_episodes (pt_tables tx) = map episode_to_row (tx_episodes m)"
    and idem: "pg_idempotency (pt_tables tx) = map idempotency_row (tx_episodes m)" using r by (auto simp: refines_def)
  have none: "find_idempotency (pt_tables tx) e = None"
    using key by (auto simp: find_idempotency_rows [OF idem] find_None_iff)
  have i1: "sql_insert [[''tenant_id'', ''episode_id''], [''tenant_id'', ''idempotency_key'']] (episode_to_row e)
      (pg_episodes (pt_tables tx)) = Inr (map episode_to_row (tx_episodes m @ [e]))"
    using key id unfolding eps sql_insert_def stored_episode [OF e]
    by (auto simp: list_ex_iff same_cols_def episode_to_row_def episode_key_iff image_iff)
  have i2: "sql_insert [[''tenant_id'', ''idempotency_key'']] (idempotency_row e) (pg_idempotency (pt_tables tx))
      = Inr (map idempotency_row (tx_episodes m @ [e]))"
    using key unfolding idem sql_insert_def stored_idempotency [OF e]
    by (auto simp: list_ex_iff same_cols_def idempotency_row_def episode_to_row_def episode_key_iff Let_def)
  let ?tx' = "tx\<lparr>pt_tables := (pt_tables tx)\<lparr>pg_episodes := map episode_to_row (tx_episodes m @ [e]),
      pg_idempotency := map idempotency_row (tx_episodes m @ [e])\<rparr>\<rparr>"
  have pt: "pt_append tx e = Inr (\<lparr>ar_episode_id = ep_id e, ar_created = True\<rparr>, ?tx')"
    using refines_usable [OF r] none i1 i2 by (simp add: pt_append_def Let_def)
  let ?m' = "m\<lparr>tx_episodes := tx_episodes m @ [e],
      tx_idempotency_index := dict_set (episode_key e) (ep_id e) (tx_idempotency_index m)\<rparr>"
  note mm = tx_append_new [OF m key]
  have "episode_ok e" using e by (simp add: canonical_episode_def)
  from tx_append_ok [OF m this id mm] have "refines ?tx' ?m'" using r e by (simp add: refines_def)
  with pt mm show ?thesis by (intro exI [of _ ?tx'] exI [of _ ?m']) simp
qed

lemma canonical_row: "canonical_episode e \<Longrightarrow> row_to_episode (episode_to_row e) = Inr e"
  by (rule episode_roundtrip) (simp_all add: canonical_episode_def)

lemma pt_get_refines:
  assumes r: "refines tx m"
  shows "pt_get tx scope i = tx_get m scope i"
proof -
  have P: "(row_is (episode_to_row e) ''episode_id'' (DUuid (memory_uuid i)) \<and> in_scope scope (episode_to_row e))
      \<longleftrightarrow> ep_id e = i \<and> ep_scope e = scope" for e
    by (simp add: in_scope_episode) (simp add: row_is_def episode_to_row_def)
  have f: "find (\<lambda>r. row_is r ''episode_id'' (DUuid (memory_uuid i)) \<and> in_scope scope r) (pg_episodes (pt_tables tx))
      = map_option episode_to_row (find (\<lambda>e. ep_id e = i \<and> ep_scope e = scope) (tx_episodes m))"
    using r by (simp add: refines_def find_map P)
  have u: "usable m" using r by (simp add: refines_def tx_ok_def)
  show ?thesis
  proof (cases "find (\<lambda>e. ep_id e = i \<and> ep_scope e = scope) (tx_episodes m)")
    case None
    then show ?thesis using refines_usable [OF r] u f by (simp add: pt_get_def tx_get_def)
  next
    case (Some e)
    then have "e \<in> set (tx_episodes m)" by (auto simp: find_Some_iff)
    with r have "row_to_episode (episode_to_row e) = Inr e" by (simp add: refines_def canonical_row)
    with Some show ?thesis using refines_usable [OF r] u f by (simp add: pt_get_def tx_get_def)
  qed
qed

lemma insort_key_map: "insort_key f (g x) (map g xs) = map g (insort_key (\<lambda>y. f (g y)) x xs)"
  by (induction xs) auto

lemma sort_key_map: "sort_key f (map g xs) = map g (sort_key (\<lambda>y. f (g y)) xs)"
  by (induction xs) (simp_all add: insort_key_map)

lemma sort_desc_map: "sort_desc k (map g xs) = map g (sort_desc (\<lambda>x. k (g x)) xs)"
  by (simp add: sort_desc_def rev_map sort_key_map)

lemma slice_map: "slice limit (map g xs) = map g (slice limit xs)"
  by (simp add: slice_def take_map split: option.splits)

lemma mapE_back: "\<forall>x \<in> set xs. f (g x) = Inr x \<Longrightarrow> mapE f (map g xs) = Inr xs"
  by (induction xs) auto

lemma distinct_map_sort: "distinct (map f (sort_key k xs)) = distinct (map f xs)"
proof -
  have "mset (map f (sort_key k xs)) = mset (map f xs)" by simp
  then show ?thesis by (rule mset_eq_imp_distinct_iff)
qed

lemma set_slice: "set (slice limit xs) \<subseteq> set xs"
  by (auto simp: slice_def dest: in_set_takeD split: option.splits)

lemma episode_stamp_row: "episode_stamp (episode_to_row e) = ingest_key e"
  by (simp add: episode_stamp_def row_stamp_def ingest_key_def episode_to_row_def)

lemma pt_stream_refines:
  assumes r: "refines tx m"
  shows "pt_stream tx scope limit cursor = tx_stream m scope limit cursor"
proof -
  have u: "usable m" using r by (simp add: refines_def tx_ok_def)
  have rows: "mapE row_to_episode (slice limit (sort_key episode_stamp
      (filter (\<lambda>r. in_scope scope r \<and> beyond (episode_stamp r)) (pg_episodes (pt_tables tx)))))
    = Inr (slice limit (filter (\<lambda>e. beyond (ingest_key e)) (sort_key ingest_key
        (filter (\<lambda>e. ep_scope e = scope) (tx_episodes m)))))" for beyond
  proof -
    let ?es = "slice limit (sort_key ingest_key (filter (\<lambda>e. ep_scope e = scope \<and> beyond (ingest_key e)) (tx_episodes m)))"
    have "slice limit (sort_key episode_stamp (filter (\<lambda>r. in_scope scope r \<and> beyond (episode_stamp r)) (pg_episodes (pt_tables tx))))
        = map episode_to_row ?es"
      using r by (simp add: refines_def filter_map comp_def in_scope_episode episode_stamp_row sort_key_map slice_map)
    moreover have "\<forall>e \<in> set ?es. row_to_episode (episode_to_row e) = Inr e"
      using r set_slice [of limit] by (fastforce simp: refines_def intro: canonical_row)
    ultimately have "mapE row_to_episode (slice limit (sort_key episode_stamp
        (filter (\<lambda>r. in_scope scope r \<and> beyond (episode_stamp r)) (pg_episodes (pt_tables tx))))) = Inr ?es"
      using mapE_back [of ?es row_to_episode episode_to_row] by simp
    then show ?thesis by (simp add: filter_sort conj_commute)
  qed
  show ?thesis
  proof (cases "check_stream_args limit cursor")
    case (Inl e)
    then show ?thesis using refines_usable [OF r] u by (simp add: pt_stream_def tx_stream_def)
  next
    case ok: (Inr _)
    show ?thesis
    proof (cases cursor)
      case None
      then show ?thesis using refines_usable [OF r] u ok rows [of "\<lambda>_. True"] by (simp add: pt_stream_def tx_stream_def)
    next
      case (Some c)
      then show ?thesis
        using refines_usable [OF r] u ok
        by (cases "decode_episode_cursor c")
           (auto simp: pt_stream_def tx_stream_def rows Let_def split: prod.splits)
    qed
  qed
qed

section \<open>Rows of events\<close>

definition event_row :: "event_envelope \<times> db_value \<Rightarrow> row" where
  "event_row p = event_to_row (fst p) @ [(''published_at'', snd p)]"

definition canonical_event :: "event_envelope \<Rightarrow> bool" where
  "canonical_event e \<longleftrightarrow> event_ok e \<and> in_utc (ev_occurred_at e)"

text \<open>The rows of an outbox: canonical events under distinct identifiers, published or not.\<close>

definition outbox_rows :: "row list \<Rightarrow> (event_envelope \<times> db_value) list \<Rightarrow> bool" where
  "outbox_rows table evs \<longleftrightarrow> table = map event_row evs \<and> (\<forall>p \<in> set evs. canonical_event (fst p))
     \<and> distinct (map (\<lambda>p. ev_event_id (fst p)) evs)"

lemma stored_event_row: "canonical_event e \<Longrightarrow> stored_row (event_to_row e @ [(''published_at'', DNull)]) = event_row (e, DNull)"
  by (simp add: stored_row_def event_row_def event_to_row_def canonical_event_def utc_in_utc)

lemma insert_event_row:
  assumes "outbox_rows table evs" and "canonical_event e" and "ev_event_id e \<notin> (\<lambda>p. ev_event_id (fst p)) ` set evs"
  shows "sql_insert [[''event_id'']] (event_to_row e @ [(''published_at'', DNull)]) table = Inr (table @ [event_row (e, DNull)])
    \<and> outbox_rows (table @ [event_row (e, DNull)]) (evs @ [(e, DNull)])"
proof -
  have "\<not> list_ex (same_cols [''event_id''] (event_row (e, DNull))) table"
    using assms by (auto simp: outbox_rows_def list_ex_iff same_cols_def event_row_def event_to_row_def image_iff)
  then show ?thesis
    using assms by (auto simp: sql_insert_def stored_event_row outbox_rows_def)
qed

definition row_digest :: "row \<Rightarrow> event_id \<times> string \<times> tenant_id \<times> uuid" where
  "row_digest r = (case (dict_get r ''event_id'', dict_get r ''event_type'', dict_get r ''tenant_id'', dict_get r ''aggregate_id'') of
       (Some (DUuid i), Some (DText ty), Some (DUuid t), Some (DUuid a)) \<Rightarrow> (EventId i, ty, TenantId t, a)
     | _ \<Rightarrow> (EventId (UUID 0), [], TenantId (UUID 0), UUID 0))"

lemma row_digest_event [simp]: "row_digest (event_row (e, p)) = event_digest e"
  by (simp add: row_digest_def event_row_def event_to_row_def event_digest_def)

lemma digests_of: "outbox_rows table evs \<Longrightarrow> map row_digest table = map (\<lambda>p. event_digest (fst p)) evs"
  by (auto simp: outbox_rows_def)

lemma pt_publish_episode:
  assumes r: "refines tx m" and o: "outbox_rows (pg_outbox (pt_tables tx)) evs" and e: "e \<in> set (tx_episodes m)"
    and ev: "canonical_event ev" "ev_event_type ev = episode_recorded" "uuid_value_uuid (ev_aggregate_id ev) = memory_uuid (ep_id e)"
      "ev_tenant_id ev = ms_tenant_id (ep_scope e)" and fresh: "ev_event_id ev \<notin> (\<lambda>p. ev_event_id (fst p)) ` set evs"
  shows "\<exists>tx'. pt_publish tx ev = Inr tx' \<and> refines tx' m \<and> outbox_rows (pg_outbox (pt_tables tx')) (evs @ [(ev, DNull)])"
proof -
  let ?rows = "filter (\<lambda>r. row_is r ''episode_id'' (DUuid (uuid_value_uuid (ev_aggregate_id ev)))) (pg_episodes (pt_tables tx))"
  have mem: "episode_to_row e \<in> set ?rows"
  proof -
    have "dict_get (episode_to_row e) ''episode_id'' = Some (DUuid (memory_uuid (ep_id e)))" by (simp add: episode_to_row_def)
    moreover have "episode_to_row e \<in> set (pg_episodes (pt_tables tx))" using r e by (simp add: refines_def)
    ultimately show ?thesis using ev(3) by (simp add: row_is_def)
  qed
  moreover have "row_is (episode_to_row e) ''tenant_id'' (DUuid (tenant_uuid (ev_tenant_id ev)))"
    using ev(4) by (simp add: row_is_def episode_to_row_def)
  ultimately have "check_aggregate (pg_episodes (pt_tables tx)) ''episode_id'' ev = Inr ()"
  proof -
    assume t: "row_is (episode_to_row e) ''tenant_id'' (DUuid (tenant_uuid (ev_tenant_id ev)))"
    have "?rows \<noteq> []" using mem by (metis empty_iff empty_set)
    moreover have "list_ex (\<lambda>r. row_is r ''tenant_id'' (DUuid (tenant_uuid (ev_tenant_id ev)))) ?rows"
      unfolding list_ex_iff using mem t by blast
    ultimately show ?thesis unfolding check_aggregate_def Let_def by simp
  qed
  moreover note insert_event_row [OF o ev(1) fresh]
  ultimately show ?thesis
    using refines_usable [OF r] r ev(2) by (simp add: pt_publish_def Let_def refines_def)
qed

section \<open>The contract of recording, for the relational adapter\<close>

definition pg_ok :: "pg_memory \<Rightarrow> bool" where
  "pg_ok d \<longleftrightarrow> (\<exists>m evs. refines \<lparr>pt_active = True, pt_committed = False, pt_tables = d\<rparr> m \<and> outbox_rows (pg_outbox d) evs)"

definition pg_uow_ok :: "pg_uow \<Rightarrow> bool" where
  "pg_uow_ok u \<longleftrightarrow> (\<exists>tx m evs. pu_state u = Some tx \<and> refines tx m \<and> outbox_rows (pg_outbox (pt_tables tx)) evs)"

definition table_episodes :: "row list \<Rightarrow> episode set" where
  "table_episodes table = {e. Inr e \<in> row_to_episode ` set table}"

definition pu_tables :: "pg_uow \<Rightarrow> pg_memory" where
  "pu_tables u = (case pu_state u of None \<Rightarrow> pu_database u | Some tx \<Rightarrow> pt_tables tx)"

lemma refines_episodes: "refines tx m \<Longrightarrow> table_episodes (pg_episodes (pt_tables tx)) = set (tx_episodes m)"
  by (force simp: refines_def table_episodes_def image_iff canonical_row)

lemma pu_run_usable:
  "pu_state u = Some tx \<Longrightarrow> refines tx m \<Longrightarrow>
     pu_run u f = bindE (f tx) (\<lambda>(r, tx'). Inr (r, u\<lparr>pu_state := Some tx'\<rparr>))"
  by (simp add: pu_run_def pu_require_usable_def refines_usable)

interpretation postgres_recording: episode_recording "postgres_port float_of" pg_ok pg_uow_ok
    "\<lambda>d. table_episodes (pg_episodes d)" "\<lambda>u. table_episodes (pg_episodes (pu_tables u))"
    "\<lambda>d. map row_digest (pg_outbox d)" "\<lambda>u. map row_digest (pg_outbox (pu_tables u))" for float_of
proof
  fix d assume "pg_ok d"
  then show "\<exists>u. up_enter (postgres_port float_of) d = Inr u \<and> pg_uow_ok u
      \<and> table_episodes (pg_episodes (pu_tables u)) = table_episodes (pg_episodes d)
      \<and> map row_digest (pg_outbox (pu_tables u)) = map row_digest (pg_outbox d)"
    by (auto simp: postgres_port_def pu_enter_def pu_create_def pg_uow_ok_def pg_ok_def pu_tables_def)
next
  fix u old e
  assume u: "pg_uow_ok u" and old: "old \<in> table_episodes (pg_episodes (pu_tables u))" and key: "episode_key old = episode_key e"
  then obtain tx m where tx: "pu_state u = Some tx" "refines tx m" by (auto simp: pg_uow_ok_def)
  with old have "old \<in> set (tx_episodes m)" by (simp add: pu_tables_def refines_episodes)
  from pt_append_old [OF tx(2) this key] tx
  have "pu_run u (\<lambda>tx. pt_append tx e) = (if same_episode_request old e
      then Inr (\<lparr>ar_episode_id = ep_id old, ar_created = False\<rparr>, u\<lparr>pu_state := Some tx\<rparr>) else Inl EpisodeIdempotencyConflict)"
    by (simp add: pu_run_usable)
  moreover have "u\<lparr>pu_state := Some tx\<rparr> = u" using tx(1) by (cases u) simp
  ultimately show "up_append (postgres_port float_of) u e = (if same_episode_request old e
      then Inr (\<lparr>ar_episode_id = ep_id old, ar_created = False\<rparr>, u) else Inl EpisodeIdempotencyConflict)"
    by (simp add: postgres_port_def)
next
  fix u e
  assume u: "pg_uow_ok u" and e: "episode_ok e" "scope_ok (ep_scope e)" "in_utc (ep_observed_at e)" "in_utc (ep_ingested_at e)"
    and key: "\<forall>x \<in> table_episodes (pg_episodes (pu_tables u)). episode_key x \<noteq> episode_key e"
    and id: "ep_id e \<notin> ep_id ` table_episodes (pg_episodes (pu_tables u))"
  then obtain tx m evs where tx: "pu_state u = Some tx" "refines tx m" "outbox_rows (pg_outbox (pt_tables tx)) evs"
    by (auto simp: pg_uow_ok_def)
  have c: "canonical_episode e" using e by (simp add: canonical_episode_def)
  have "\<forall>x \<in> set (tx_episodes m). episode_key x \<noteq> episode_key e" "ep_id e \<notin> ep_id ` set (tx_episodes m)"
    using key id tx by (auto simp: pu_tables_def refines_episodes)
  from pt_append_new [OF tx(2) c this] obtain tx' m' where
    t: "pt_append tx e = Inr (\<lparr>ar_episode_id = ep_id e, ar_created = True\<rparr>, tx')" "refines tx' m'"
      "tx_episodes m' = tx_episodes m @ [e]" "pg_outbox (pt_tables tx') = pg_outbox (pt_tables tx)" by blast
  have "up_append (postgres_port float_of) u e = Inr (\<lparr>ar_episode_id = ep_id e, ar_created = True\<rparr>, u\<lparr>pu_state := Some tx'\<rparr>)"
    using t(1) tx by (simp add: postgres_port_def pu_run_usable)
  moreover have "pg_uow_ok (u\<lparr>pu_state := Some tx'\<rparr>)" using t tx(3) by (auto simp: pg_uow_ok_def)
  ultimately show "\<exists>u'. up_append (postgres_port float_of) u e = Inr (\<lparr>ar_episode_id = ep_id e, ar_created = True\<rparr>, u')
      \<and> pg_uow_ok u' \<and> table_episodes (pg_episodes (pu_tables u')) = insert e (table_episodes (pg_episodes (pu_tables u)))
      \<and> map row_digest (pg_outbox (pu_tables u')) = map row_digest (pg_outbox (pu_tables u))"
    using t tx by (intro exI [of _ "u\<lparr>pu_state := Some tx'\<rparr>"]) (simp add: pu_tables_def refines_episodes)
next
  fix u and e :: episode and ev :: event_envelope
  assume u: "pg_uow_ok u" and e: "e \<in> table_episodes (pg_episodes (pu_tables u))" and ev: "event_ok ev" "in_utc (ev_occurred_at ev)"
    "ev_event_type ev = episode_recorded" "ev_aggregate_id ev = OfMemory (ep_id e)" "ev_tenant_id ev = ms_tenant_id (ep_scope e)"
    and fresh: "ev_event_id ev \<notin> fst ` set (map row_digest (pg_outbox (pu_tables u)))"
  then obtain tx m evs where tx: "pu_state u = Some tx" "refines tx m" "outbox_rows (pg_outbox (pt_tables tx)) evs"
    by (auto simp: pg_uow_ok_def)
  have em: "e \<in> set (tx_episodes m)" using e tx by (simp add: pu_tables_def refines_episodes)
  have fr: "ev_event_id ev \<notin> (\<lambda>p. ev_event_id (fst p)) ` set evs"
    using fresh tx(1) unfolding pu_tables_def by (simp add: digests_of [OF tx(3)] image_image event_digest_def)
  from pt_publish_episode [OF tx(2,3) em _ ev(3) _ ev(5) fr] ev obtain tx' where
    t: "pt_publish tx ev = Inr tx'" "refines tx' m" "outbox_rows (pg_outbox (pt_tables tx')) (evs @ [(ev, DNull)])"
    by (auto simp: canonical_event_def)
  have "up_publish (postgres_port float_of) u ev = Inr (u\<lparr>pu_state := Some tx'\<rparr>)"
    using t(1) tx by (simp add: postgres_port_def pu_run_usable)
  moreover have "pg_uow_ok (u\<lparr>pu_state := Some tx'\<rparr>)" using t by (auto simp: pg_uow_ok_def)
  ultimately show "\<exists>u'. up_publish (postgres_port float_of) u ev = Inr u' \<and> pg_uow_ok u'
      \<and> table_episodes (pg_episodes (pu_tables u')) = table_episodes (pg_episodes (pu_tables u))
      \<and> map row_digest (pg_outbox (pu_tables u')) = map row_digest (pg_outbox (pu_tables u)) @ [event_digest ev]"
    using t tx by (intro exI [of _ "u\<lparr>pu_state := Some tx'\<rparr>"])
      (simp add: pu_tables_def refines_episodes digests_of)
next
  fix u assume "pg_uow_ok u"
  then obtain tx m evs where tx: "pu_state u = Some tx" "refines tx m" "outbox_rows (pg_outbox (pt_tables tx)) evs"
    by (auto simp: pg_uow_ok_def)
  then have "\<lparr>pt_active = True, pt_committed = False, pt_tables = pt_tables tx\<rparr> = tx"
    by (cases tx) (simp add: refines_def tx_ok_def usable_def)
  with tx have "pg_ok (pt_tables tx)" by (auto simp: pg_ok_def)
  with tx show "\<exists>u'. up_commit (postgres_port float_of) u = Inr u' \<and> pg_ok (up_exit (postgres_port float_of) u')
      \<and> table_episodes (pg_episodes (up_exit (postgres_port float_of) u')) = table_episodes (pg_episodes (pu_tables u))
      \<and> map row_digest (pg_outbox (up_exit (postgres_port float_of) u')) = map row_digest (pg_outbox (pu_tables u))"
    by (simp add: postgres_port_def pu_commit_def pu_require_usable_def refines_usable pu_tables_def)
qed

section \<open>The polling store keeps the contract of the relay\<close>

definition pending_events :: "(string \<Rightarrow> int res) \<Rightarrow> row list \<Rightarrow> event_envelope list" where
  "pending_events int_of table =
     (case mapE (row_to_event int_of) (sort_key outbox_stamp (filter unpublished table)) of Inr es \<Rightarrow> es | Inl _ \<Rightarrow> [])"

definition waiting :: "(event_envelope \<times> db_value) list \<Rightarrow> (event_envelope \<times> db_value) list" where
  "waiting evs = sort_key (\<lambda>p. stamp_key (ev_occurred_at (fst p)) (event_uuid (ev_event_id (fst p))))
     (filter (\<lambda>p. snd p = DNull) evs)"

lemma unpublished_row [simp]: "unpublished (event_row p) \<longleftrightarrow> snd p = DNull"
  by (cases p) (simp add: unpublished_def row_is_def event_row_def event_to_row_def)

lemma outbox_stamp_row [simp]:
  "outbox_stamp (event_row p) = stamp_key (ev_occurred_at (fst p)) (event_uuid (ev_event_id (fst p)))"
  by (cases p) (simp add: outbox_stamp_def row_stamp_def event_row_def event_to_row_def)

lemma read_event_row: "canonical_event (fst p) \<Longrightarrow> row_to_event int_of (event_row p) = Inr (stored_event (fst p))"
proof -
  assume "canonical_event (fst p)"
  moreover have "row_to_event int_of (event_row p) = row_to_event int_of (event_to_row (fst p))"
    by (simp add: row_to_event_def event_row_def event_to_row_def del: json_mapping.simps)
  ultimately show ?thesis by (simp add: event_roundtrip canonical_event_def)
qed

lemma waiting_rows:
  assumes "outbox_rows table evs"
  shows "sort_key outbox_stamp (filter unpublished table) = map event_row (waiting evs)"
    and "mapE (row_to_event int_of) (take n (map event_row (waiting evs))) = Inr (map (\<lambda>p. stored_event (fst p)) (take n (waiting evs)))"
    and "pending_events int_of table = map (\<lambda>p. stored_event (fst p)) (waiting evs)"
proof -
  show s: "sort_key outbox_stamp (filter unpublished table) = map event_row (waiting evs)"
    using assms by (simp add: outbox_rows_def filter_map comp_def sort_key_map waiting_def)
  have "set (waiting evs) \<subseteq> set evs" by (auto simp: waiting_def)
  then have c: "canonical_event (fst p)" if "p \<in> set (waiting evs)" for p using assms that by (auto simp: outbox_rows_def)
  have m: "mapE (row_to_event int_of) (map event_row ps) = Inr (map (\<lambda>p. stored_event (fst p)) ps)"
    if "set ps \<subseteq> set (waiting evs)" for ps
    unfolding mapE_map by (rule mapE_Inr) (use that c in \<open>auto simp: read_event_row\<close>)
  show "mapE (row_to_event int_of) (take n (map event_row (waiting evs))) = Inr (map (\<lambda>p. stored_event (fst p)) (take n (waiting evs)))"
    unfolding take_map by (rule m) (rule set_take_subset)
  show "pending_events int_of table = map (\<lambda>p. stored_event (fst p)) (waiting evs)"
    using m [of "waiting evs"] by (simp add: pending_events_def s)
qed

definition outbox_ok :: "row list \<Rightarrow> bool" where
  "outbox_ok table \<longleftrightarrow> (\<exists>evs. outbox_rows table evs)"

definition marked :: "event_id list \<Rightarrow> datetime \<Rightarrow> event_envelope \<times> db_value \<Rightarrow> event_envelope \<times> db_value" where
  "marked ids ts p = (if ev_event_id (fst p) \<in> set ids \<and> snd p = DNull then (fst p, DTime (utc ts)) else p)"

lemma mark_event_row:
  "(if list_ex (\<lambda>i. row_is (event_row p) ''event_id'' (DUuid (event_uuid i))) ids \<and> unpublished (event_row p)
    then dict_set ''published_at'' (DTime (utc ts)) (event_row p) else event_row p) = event_row (marked ids ts p)"
proof -
  have "list_ex (\<lambda>i. row_is (event_row p) ''event_id'' (DUuid (event_uuid i))) ids \<longleftrightarrow> ev_event_id (fst p) \<in> set ids"
    by (auto simp: list_ex_iff row_is_def event_row_def event_to_row_def)
  then show ?thesis by (auto simp: marked_def) (simp add: event_row_def event_to_row_def)
qed

lemma mark_rows:
  assumes "outbox_rows table evs"
  shows "outbox_rows (mark_published table ids ts) (map (marked ids ts) evs)"
proof -
  have fst: "fst (marked ids ts p) = fst p" for p by (simp add: marked_def)
  have "mark_published table ids ts = map event_row (map (marked ids ts) evs)"
  proof (cases "ids = []")
    case True
    have "marked [] ts = id" by (auto simp: marked_def)
    with True assms show ?thesis by (simp add: mark_published_def outbox_rows_def)
  next
    case False
    with assms show ?thesis by (simp add: mark_published_def outbox_rows_def mark_event_row del: unpublished_row)
  qed
  then show ?thesis using assms by (auto simp: outbox_rows_def fst comp_def)
qed

lemma marked_waiting:
  "waiting (map (marked ids ts) evs) = filter (\<lambda>p. ev_event_id (fst p) \<notin> set ids) (waiting evs)"
proof -
  have "filter (\<lambda>p. snd p = DNull) (map (marked ids ts) evs)
      = filter (\<lambda>p. ev_event_id (fst p) \<notin> set ids) (filter (\<lambda>p. snd p = DNull) evs)"
    by (induction evs) (auto simp: marked_def)
  then show ?thesis by (simp add: waiting_def filter_sort)
qed

interpretation postgres_relay: outbox_store "postgres_relay_store int_of" outbox_ok "pending_events int_of" for int_of
proof
  fix s n assume "outbox_ok s" and n: "(0 :: int) \<le> n"
  then obtain evs where o: "outbox_rows s evs" by (auto simp: outbox_ok_def)
  show "rs_fetch (postgres_relay_store int_of) s n = Inr (take (nat n) (pending_events int_of s))"
    using n waiting_rows [OF o] by (simp add: postgres_relay_store_def fetch_unpublished_def take_map)
next
  fix s ids ts assume "outbox_ok s"
  then show "outbox_ok (rs_mark (postgres_relay_store int_of) s ids ts)"
    by (auto simp: outbox_ok_def postgres_relay_store_def intro: mark_rows)
next
  fix s ids ts assume "outbox_ok s"
  then obtain evs where o: "outbox_rows s evs" by (auto simp: outbox_ok_def)
  have "ev_event_id (stored_event e) = ev_event_id e" for e by (simp add: stored_event_def)
  then show "pending_events int_of (rs_mark (postgres_relay_store int_of) s ids ts)
      = filter (\<lambda>e. ev_event_id e \<notin> set ids) (pending_events int_of s)"
    using waiting_rows(3) [OF o, of int_of] waiting_rows(3) [OF mark_rows [OF o], of int_of ids ts]
    by (simp add: postgres_relay_store_def marked_waiting filter_map comp_def)
next
  fix s assume "outbox_ok s"
  then obtain evs where o: "outbox_rows s evs" by (auto simp: outbox_ok_def)
  have "length (filter unpublished s) = length (waiting evs)"
    using waiting_rows(1) [OF o] by (metis length_map length_sort)
  then show "rs_count (postgres_relay_store int_of) s = length (pending_events int_of s)"
    using waiting_rows(3) [OF o] by (simp add: postgres_relay_store_def count_unpublished_def)
next
  fix s assume "outbox_ok s"
  then obtain evs where o: "outbox_rows s evs" by (auto simp: outbox_ok_def)
  have "distinct (map (\<lambda>p. ev_event_id (fst p)) (filter (\<lambda>p. snd p = DNull) evs))"
    using o by (auto simp: outbox_rows_def distinct_map_filter)
  then have "distinct (map (\<lambda>p. ev_event_id (fst p)) (waiting evs))"
    by (simp add: waiting_def distinct_map_sort)
  then show "distinct (map ev_event_id (pending_events int_of s))"
    by (simp add: waiting_rows(3) [OF o] comp_def stored_event_def)
qed

section \<open>Properties\<close>

definition empty_tables :: pg_memory where
  "empty_tables = \<lparr>pg_episodes = [], pg_idempotency = [], pg_outbox = [], pg_claims = []\<rparr>"

definition in_transaction :: "pg_memory \<Rightarrow> pg_tx" where
  "in_transaction d = \<lparr>pt_active = True, pt_committed = False, pt_tables = d\<rparr>"

lemma refines_empty: "refines (in_transaction empty_tables) (tx_begin empty_memory_state)"
  using tx_begin_ok [OF empty_memory_ok]
  by (simp add: refines_def in_transaction_def empty_tables_def) (simp add: tx_begin_def empty_memory_state_def)

lemma empty_tables_ok: "pg_ok empty_tables"
  using refines_empty by (auto simp: pg_ok_def outbox_rows_def in_transaction_def empty_tables_def)

text \<open>
  C10. The two adapters are interchangeable for recording. From empty stores, any run
  of requests that draw fresh identifiers gives the same results over the relational
  adapter as over the in-memory one, and leaves the same episodes and the same events.
\<close>

theorem recording_adapters_agree:
  assumes "fresh_run {} {} qs"
  shows "\<exists>rs d t. record_run in_memory_port authorize qs empty_memory_state = (rs, d)
    \<and> record_run (postgres_port float_of) authorize qs empty_tables = (rs, t)
    \<and> table_episodes (pg_episodes t) = set (cm_episodes d)
    \<and> map row_digest (pg_outbox t) = map event_digest (cm_events d)"
proof -
  obtain rs l where l: "ledger_run authorize qs ([], []) = (rs, l)" by (cases "ledger_run authorize qs ([], [])")
  from memory_recording.run_refines [OF empty_memory_ok, of "([], [])" qs authorize rs l] l assms
  obtain d where d: "record_run in_memory_port authorize qs empty_memory_state = (rs, d)"
    "set (cm_episodes d) = set (fst l)" "map event_digest (cm_events d) = snd l" by (auto simp: empty_memory_state_def)
  from postgres_recording.run_refines [OF empty_tables_ok, of "([], [])" qs authorize rs l float_of] l assms
  obtain t where t: "record_run (postgres_port float_of) authorize qs empty_tables = (rs, t)"
    "table_episodes (pg_episodes t) = set (fst l)" "map row_digest (pg_outbox t) = snd l"
    by (auto simp: empty_tables_def table_episodes_def)
  from d t show ?thesis by auto
qed

theorem recording_adapters_agree_witness:
  "\<exists>rs d t. record_run in_memory_port (\<lambda>_. True) [sample_recording, sample_retry] empty_memory_state = (rs, d)
    \<and> record_run (postgres_port (\<lambda>_. Inr NaN)) (\<lambda>_. True) [sample_recording, sample_retry] empty_tables = (rs, t)
    \<and> table_episodes (pg_episodes t) = set (cm_episodes d)
    \<and> map row_digest (pg_outbox t) = map event_digest (cm_events d)"
  by (rule recording_adapters_agree [OF sample_fresh])

text \<open>
  C27. Reads agree as well. While the tables hold the episodes of the in-memory
  transaction, a lookup and a page of the listing give the same answer in both, for
  every scope, limit and cursor, malformed cursors and wrong limits included.
\<close>

theorem relational_reads_refine:
  assumes "refines tx m"
  shows "pt_get tx scope i = tx_get m scope i \<and> pt_stream tx scope limit cursor = tx_stream m scope limit cursor"
  using pt_get_refines [OF assms] pt_stream_refines [OF assms] by blast

theorem relational_reads_refine_witness:
  "\<exists>tx. pg_episodes (pt_tables tx) = [episode_to_row sample_episode]
    \<and> pt_get tx sample_scope (MemoryId (UUID 10)) = Inr (Some sample_episode)
    \<and> pt_stream tx sample_scope (Some 5) None = Inr [sample_episode]
    \<and> pt_stream tx sample_scope (Some 0) None = Inl (ValueError ''limit must be positive'')"
proof -
  let ?tx = "in_transaction \<lparr>pg_episodes = [episode_to_row sample_episode], pg_idempotency = [idempotency_row sample_episode],
    pg_outbox = [], pg_claims = []\<rparr>" and ?m = "tx_begin sample_memory"
  have e: "episode_ok sample_episode" "scope_ok (ep_scope sample_episode)" "in_utc (ep_observed_at sample_episode)" "in_utc (ep_ingested_at sample_episode)"
    using recordable_new_episode [OF sample_recordable] by (simp_all add: sample_episode_def)
  have "tx_ok ?m" using sample_memory_facts(1) tx_begin_ok by (simp add: memory_listable_def)
  with e have r: "refines ?tx ?m"
    by (simp add: refines_def in_transaction_def canonical_episode_def) (simp add: tx_begin_def sample_memory_facts)
  have m: "tx_require_usable ?m = Inr ()" "tx_episodes ?m = [sample_episode]"
    by (simp_all add: tx_require_usable_def tx_begin_def sample_memory_facts)
  have s: "ep_id sample_episode = MemoryId (UUID 10)" "ep_scope sample_episode = sample_scope"
    by (simp_all add: sample_episode_def new_episode_def command_episode_def sample_command_def)
  show ?thesis
    using relational_reads_refine [OF r, of sample_scope "MemoryId (UUID 10)" "Some 5" None]
      relational_reads_refine [OF r, of sample_scope "MemoryId (UUID 10)" "Some 0" None]
    by (intro exI [of _ ?tx]) (simp add: tx_get_def tx_stream_def check_stream_args_def m s slice_def, simp add: in_transaction_def)
qed

text \<open>
  C18. Relaying the outbox into the inbox processes every event exactly once. Whatever
  attempts are made, each with its own failures of the processor or of the delegate
  publisher, the consumer has always processed a prefix of the events that were
  pending, each once and in their order, never less than what the outbox marks as
  published; so when the outbox is empty every event has been processed once.
\<close>

theorem relay_processes_exactly_once:
  assumes "\<forall>a \<in> set attempts. transient effect (fst a)"
    and "\<forall>e \<in> set (pending_events int_of table). supports (ev_event_type e)" and "0 \<le> batch" and "outbox_ok table"
    and "relay_attempts (postgres_relay_store int_of) consumer supports now batch attempts (table, ([], w), v)
      = (table', (inbox', w'), v')"
  shows "outbox_ok table' \<and> (\<exists>k j. k \<le> j \<and> j \<le> length (pending_events int_of table)
      \<and> pending_events int_of table' = drop k (pending_events int_of table)
      \<and> w' = foldl effect w (take j (pending_events int_of table)))
    \<and> (pending_events int_of table' = [] \<longrightarrow> w' = foldl effect w (pending_events int_of table))"
proof -
  let ?ps = "pending_events int_of table"
  have "consumed {} effect w ?ps 0 ([], w)" by (simp add: consumed_def)
  from postgres_relay.attempts_exactly_once [OF assms(1) postgres_relay.pending_distinct [OF assms(4)] _ assms(2-4),
      where k = 0 and seen = "{}", OF _ _ _ this assms(5)]
  obtain k j where kj: "outbox_ok table'" "pending_events int_of table' = drop k ?ps" "k \<le> j"
    "consumed {} effect w ?ps j (inbox', w')" by auto
  then have j: "j \<le> length ?ps" "w' = foldl effect w (take j ?ps)" by (auto simp: consumed_def)
  moreover have "w' = foldl effect w ?ps" if "drop k ?ps = []"
    using that kj(3) j by simp
  ultimately show ?thesis using kj by auto
qed


definition sample_outbox :: "row list" where
  "sample_outbox = [event_row (sample_event 5, DNull)]"

lemma sample_outbox_facts: "outbox_ok sample_outbox" "pending_events int_of sample_outbox = [stored_event (sample_event 5)]"
proof -
  have "event_ok (sample_event 5)"
    by (simp add: event_ok_def sample_event_def blank_iff is_space_def sample_time_facts)
  then have r: "outbox_rows sample_outbox [(sample_event 5, DNull)]"
    by (simp add: outbox_rows_def sample_outbox_def canonical_event_def in_utc_def sample_event_def sample_time_facts)
       (simp add: in_range_def max_wall_def)
  then show "outbox_ok sample_outbox" by (auto simp: outbox_ok_def)
  show "pending_events int_of sample_outbox = [stored_event (sample_event 5)]"
    using waiting_rows [OF r] by (simp add: pending_events_def waiting_def)
qed

theorem relay_processes_exactly_once_witness:
  "snd (fst (snd (relay_attempts (postgres_relay_store (\<lambda>_. Inr 0)) ''c'' (\<lambda>_. True) sample_time 10
      [(\<lambda>w e. (Inr (), w @ [ev_event_id e]), \<lambda>v e. (Inl StopIteration, v)),
       (\<lambda>w e. (Inr (), w @ [ev_event_id e]), logging_publish)] (sample_outbox, ([], []), [])))) \<in> {[], [EventId (UUID 5)]}"
proof -
  let ?run = "\<lambda>w e. (Inr (), w @ [ev_event_id e])"
  let ?as = "[(?run, \<lambda>v e. (Inl StopIteration, v)), (?run, logging_publish)]"
  let ?st = "postgres_relay_store (\<lambda>_. Inr 0)"
  obtain t x u v where r: "relay_attempts ?st ''c'' (\<lambda>_. True) sample_time 10 ?as (sample_outbox, ([], []), []) = (t, (x, u), v)"
    by (cases "relay_attempts ?st ''c'' (\<lambda>_. True) sample_time 10 ?as (sample_outbox, ([], []), [])") auto
  have "\<forall>a \<in> set ?as. transient (\<lambda>w e. w @ [ev_event_id e]) (fst a)" by (simp add: transient_def)
  note once = relay_processes_exactly_once [OF this _ _ sample_outbox_facts(1) r]
  obtain j :: nat where "u = foldl (\<lambda>w e. w @ [ev_event_id e]) [] (take j [stored_event (sample_event 5)])" "j \<le> 1"
    using once by (auto simp: sample_outbox_facts(2))
  then have "u \<in> {[], [EventId (UUID 5)]}" by (cases j) (auto simp: stored_event_def sample_event_def)
  then show ?thesis unfolding r by simp
qed

end
