(* ===== verification/Memory_Claims.thy ===== *)
theory Memory_Claims
  imports Memory_Postgres
begin

text \<open>
  The claims of the relational adapter: one proposal per tenant, episode and
  extractor version, their keyset listing, and the extraction from a recorded
  episode, which a redelivered event cannot repeat.
\<close>

section \<open>Rows of claims\<close>

definition claim_episode :: "claim \<Rightarrow> memory_id" where
  "claim_episode c = er_episode_id (hd (cl_evidence c))"

definition claim_version :: "claim \<Rightarrow> string" where
  "claim_version c = er_extractor_version (hd (cl_evidence c))"

definition claim_row :: "claim \<Rightarrow> row" where
  "claim_row c = (case claim_to_row c (claim_episode c) of Inr r \<Rightarrow> r | Inl _ \<Rightarrow> [])"

text \<open>A claim as the extractor makes it from a recorded episode: checked, its dates in UTC.\<close>

definition canonical_claim :: "claim \<Rightarrow> bool" where
  "canonical_claim c \<longleftrightarrow> claim_ok c \<and> scope_ok (cl_scope c) \<and> (\<forall>r \<in> set (cl_evidence c). evidence_ok r)
     \<and> in_utc (cl_valid_from c) \<and> in_utc (cl_recorded_from c)
     \<and> (\<forall>d. cl_valid_to c = Some d \<longrightarrow> in_utc d) \<and> (\<forall>d. cl_recorded_to c = Some d \<longrightarrow> in_utc d)"

definition claim_key :: "claim \<Rightarrow> tenant_id \<times> memory_id \<times> string" where
  "claim_key c = (ms_tenant_id (cl_scope c), claim_episode c, claim_version c)"

definition claim_rows :: "row list \<Rightarrow> claim list \<Rightarrow> bool" where
  "claim_rows table cls \<longleftrightarrow> table = map claim_row cls \<and> (\<forall>c \<in> set cls. canonical_claim c)
     \<and> distinct (map claim_key cls) \<and> distinct (map cl_id cls)"

lemma claim_evidence: "canonical_claim c \<Longrightarrow> \<exists>ev evs. cl_evidence c = ev # evs"
  by (cases "cl_evidence c") (auto simp: canonical_claim_def claim_ok_def)

lemma claim_to_row_ok: "canonical_claim c \<Longrightarrow> claim_to_row c (claim_episode c) = Inr (claim_row c)"
  using claim_evidence [of c] by (auto simp: claim_row_def claim_to_row_def)

lemma claim_row_cols:
  assumes "canonical_claim c"
  shows "dict_get (claim_row c) ''tenant_id'' = Some (DUuid (tenant_uuid (ms_tenant_id (cl_scope c))))"
    "dict_get (claim_row c) ''claim_id'' = Some (DUuid (memory_uuid (cl_id c)))"
    "dict_get (claim_row c) ''episode_id'' = Some (DUuid (memory_uuid (claim_episode c)))"
    "dict_get (claim_row c) ''extractor_version'' = Some (DText (claim_version c))"
    "dict_get (claim_row c) ''subject_id'' = Some (DUuid (subject_uuid (ms_subject_id (cl_scope c))))"
    "dict_get (claim_row c) ''workspace_id'' = Some (db_opt DText (ms_workspace_id (cl_scope c)))"
    "dict_get (claim_row c) ''agent_id'' = Some (db_opt (\<lambda>a. DUuid (agent_instance_uuid a)) (ms_agent_id (cl_scope c)))"
    "dict_get (claim_row c) ''recorded_from'' = Some (DTime (cl_recorded_from c))"
    "dict_get (claim_row c) ''recorded_to'' = Some (db_opt DTime (cl_recorded_to c))"
    "dict_get (claim_row c) ''status'' = Some (DText (claim_status_value (cl_status c)))"
  using claim_evidence [OF assms]
  by (auto simp: claim_row_def claim_to_row_def claim_version_def)

lemma stored_claim: "canonical_claim c \<Longrightarrow> stored_row (claim_row c) = claim_row c"
proof -
  assume c: "canonical_claim c"
  have t: "map_option utc d = d" if "\<forall>x. d = Some x \<longrightarrow> in_utc x" for d
    using that by (cases d) (auto simp: utc_in_utc)
  from c claim_evidence [OF c] show ?thesis
    by (auto simp: stored_row_def claim_row_def claim_to_row_def canonical_claim_def utc_in_utc t)
qed

lemma read_claim_row: "canonical_claim c \<Longrightarrow> row_to_claim float_of (claim_row c) = Inr c"
  using claim_roundtrip [of c "claim_episode c" float_of] claim_to_row_ok [of c] by (auto simp: canonical_claim_def)

lemma in_scope_claim: "canonical_claim c \<Longrightarrow> in_scope scope (claim_row c) \<longleftrightarrow> cl_scope c = scope"
proof -
  assume c: "canonical_claim c"
  have "cl_scope c = scope \<longleftrightarrow> ms_tenant_id (cl_scope c) = ms_tenant_id scope
      \<and> ms_subject_id (cl_scope c) = ms_subject_id scope \<and> ms_workspace_id (cl_scope c) = ms_workspace_id scope
      \<and> ms_agent_id (cl_scope c) = ms_agent_id scope"
    by (auto intro: memory_scope.equality)
  then show ?thesis by (simp add: in_scope_def scope_params_def row_is_def claim_row_cols [OF c])
qed

lemma same_proposal:
  assumes "canonical_claim a" and "canonical_claim b"
  shows "same_cols proposal_key (claim_row a) (claim_row b) \<longleftrightarrow> claim_key a = claim_key b"
  by (auto simp: same_cols_def proposal_key_def claim_row_cols [OF assms(1)] claim_row_cols [OF assms(2)] claim_key_def)

section \<open>One proposal per episode and extractor version\<close>

definition usable_tx :: "pg_tx \<Rightarrow> bool" where
  "usable_tx tx \<longleftrightarrow> pt_active tx \<and> \<not> pt_committed tx"

lemma usable_tx_ok [simp]: "usable_tx tx \<Longrightarrow> pt_require_usable tx = Inr ()"
  by (simp add: usable_tx_def pt_require_usable_def)

lemma add_proposal_again:
  assumes "usable_tx tx" and t: "claim_rows (pg_claims (pt_tables tx)) cls" and c: "canonical_claim c"
    and old: "old \<in> set cls" "claim_key old = claim_key c"
  shows "pt_add_proposal tx c = Inr (\<lparr>apr_claim_id = cl_id old, apr_created = False\<rparr>, tx)"
proof -
  obtain ev evs where ev: "cl_evidence c = ev # evs" using claim_evidence [OF c] by blast
  then have epi: "er_episode_id ev = claim_episode c" "er_extractor_version ev = claim_version c"
    by (simp_all add: claim_episode_def claim_version_def)
  have cl: "\<forall>x \<in> set cls. canonical_claim x" and tab: "pg_claims (pt_tables tx) = map claim_row cls"
    and dist: "distinct (map claim_key cls)" using t by (auto simp: claim_rows_def)
  have conflict: "list_ex (same_cols proposal_key (stored_row (claim_row c))) (pg_claims (pt_tables tx))"
    unfolding stored_claim [OF c] tab list_ex_iff using same_proposal [OF c] cl old by fastforce
  let ?P = "\<lambda>x. row_is x ''tenant_id'' (DUuid (tenant_uuid (ms_tenant_id (cl_scope c))))
      \<and> row_is x ''episode_id'' (DUuid (memory_uuid (claim_episode c)))
      \<and> row_is x ''extractor_version'' (DText (claim_version c))"
  have P: "?P (claim_row x) \<longleftrightarrow> claim_key x = claim_key c" if "x \<in> set cls" for x
    using cl that by (auto simp: row_is_def claim_row_cols claim_key_def)
  have "find ?P (pg_claims (pt_tables tx)) = Some (claim_row old)"
  proof -
    obtain r where r: "find ?P (pg_claims (pt_tables tx)) = Some r"
      using P [OF old(1)] old tab by (cases "find ?P (pg_claims (pt_tables tx))") (auto simp: find_None_iff)
    have "r \<in> set (pg_claims (pt_tables tx))" "?P r" using r by (auto simp: find_Some_iff)
    then obtain x where x: "r = claim_row x" "x \<in> set cls" "claim_key x = claim_key c"
      using P unfolding tab by auto
    then have "x = old" using dist old by (auto simp: distinct_map inj_on_def)
    with r x show ?thesis by simp
  qed
  moreover have "claim_to_row c (claim_episode c) = Inr (claim_row c)" by (rule claim_to_row_ok [OF c])
  moreover have "col (claim_row old) ''claim_id'' = Inr (DUuid (memory_uuid (cl_id old)))"
    using claim_row_cols [of old] cl old by (simp add: col_def)
  ultimately show ?thesis
    using assms(1) conflict ev epi by (simp add: pt_add_proposal_def Let_def)
qed

lemma add_proposal_new:
  assumes "usable_tx tx" and t: "claim_rows (pg_claims (pt_tables tx)) cls" and c: "canonical_claim c"
    and key: "claim_key c \<notin> claim_key ` set cls" and id: "cl_id c \<notin> cl_id ` set cls"
    and epi: "e \<in> set eps" "pg_episodes (pt_tables tx) = map episode_to_row eps" "ep_id e = claim_episode c"
      "ms_tenant_id (ep_scope e) = ms_tenant_id (cl_scope c)"
  shows "pt_add_proposal tx c = Inr (\<lparr>apr_claim_id = cl_id c, apr_created = True\<rparr>,
      tx\<lparr>pt_tables := (pt_tables tx)\<lparr>pg_claims := pg_claims (pt_tables tx) @ [claim_row c]\<rparr>\<rparr>)
    \<and> claim_rows (pg_claims (pt_tables tx) @ [claim_row c]) (cls @ [c])"
proof -
  obtain ev evs where ev: "cl_evidence c = ev # evs" using claim_evidence [OF c] by blast
  then have evid: "er_episode_id ev = claim_episode c" by (simp add: claim_episode_def)
  have cl: "\<forall>x \<in> set cls. canonical_claim x" and tab: "pg_claims (pt_tables tx) = map claim_row cls"
    using t by (auto simp: claim_rows_def)
  have fresh: "\<not> list_ex (same_cols proposal_key (stored_row (claim_row c))) (pg_claims (pt_tables tx))"
    unfolding stored_claim [OF c] tab list_ex_iff using same_proposal [OF c] cl key by force
  have fk: "list_ex (same_cols [''tenant_id'', ''episode_id''] (claim_row c)) (pg_episodes (pt_tables tx))"
    unfolding list_ex_iff epi(2) using epi(1,3,4)
    by (auto simp: same_cols_def claim_row_cols [OF c] intro!: bexI [of _ e]) (simp_all add: episode_to_row_def)
  have ins: "sql_insert [[''tenant_id'', ''claim_id'']] (claim_row c) (pg_claims (pt_tables tx))
      = Inr (pg_claims (pt_tables tx) @ [claim_row c])"
  proof -
    have "\<not> same_cols [''tenant_id'', ''claim_id''] (claim_row c) (claim_row x)" if "x \<in> set cls" for x
      using cl that id by (auto simp: same_cols_def claim_row_cols c)
    then show ?thesis unfolding sql_insert_def stored_claim [OF c] tab by (auto simp: list_ex_iff)
  qed
  have "pt_add_proposal tx c = Inr (\<lparr>apr_claim_id = cl_id c, apr_created = True\<rparr>,
      tx\<lparr>pt_tables := (pt_tables tx)\<lparr>pg_claims := pg_claims (pt_tables tx) @ [claim_row c]\<rparr>\<rparr>)"
    using assms(1) fresh fk ins ev evid claim_to_row_ok [OF c]
    by (simp add: pt_add_proposal_def Let_def)
  then show ?thesis using t c key id by (auto simp: claim_rows_def)
qed

section \<open>The listing of claims\<close>

definition recorded_key :: "claim \<Rightarrow> int \<times> uuid" where
  "recorded_key c = stamp_key (cl_recorded_from c) (memory_uuid (cl_id c))"

definition open_proposal :: "claim \<Rightarrow> bool" where
  "open_proposal c \<longleftrightarrow> cl_status c = PROPOSED \<and> cl_recorded_to c = None"

lemma claim_stamp_row: "canonical_claim c \<Longrightarrow> claim_stamp (claim_row c) = recorded_key c"
  by (simp add: claim_stamp_def row_stamp_def recorded_key_def claim_row_cols)

lemma open_claim_row: "canonical_claim c \<Longrightarrow> open_claim (claim_row c) \<longleftrightarrow> open_proposal c"
proof -
  assume c: "canonical_claim c"
  have "claim_status_value s = ''proposed'' \<longleftrightarrow> s = PROPOSED" for s by (cases s) simp_all
  moreover have "db_opt DTime d = DNull \<longleftrightarrow> d = None" for d by (cases d) simp_all
  ultimately show ?thesis by (simp add: open_claim_def open_proposal_def row_is_def claim_row_cols [OF c])
qed

lemma sort_desc_filter: "sort_desc k (filter P xs) = filter P (sort_desc k xs)"
  by (simp add: sort_desc_def filter_sort flip: rev_filter)

lemma insort_key_cong:
  "(\<And>y. y \<in> insert x (set xs) \<Longrightarrow> k y = k' y) \<Longrightarrow> insort_key k x xs = insort_key k' x xs"
  by (induction xs) auto

lemma sort_key_cong: "(\<And>x. x \<in> set xs \<Longrightarrow> k x = k' x) \<Longrightarrow> sort_key k xs = sort_key k' xs"
proof (induction xs)
  case (Cons x xs)
  have "sort_key k xs = sort_key k' xs" by (rule Cons.IH) (simp add: Cons.prems)
  moreover have "insort_key k x (sort_key k' xs) = insort_key k' x (sort_key k' xs)"
    by (rule insort_key_cong) (use Cons.prems in auto)
  ultimately show ?case by simp
qed simp

lemma sort_desc_cong: "(\<And>x. x \<in> set xs \<Longrightarrow> k x = k' x) \<Longrightarrow> sort_desc k xs = sort_desc k' xs"
proof -
  assume eq: "\<And>x. x \<in> set xs \<Longrightarrow> k x = k' x"
  have "sort_key k (rev xs) = sort_key k' (rev xs)" by (rule sort_key_cong) (simp add: eq)
  then show ?thesis by (simp add: sort_desc_def)
qed

definition visible_claims :: "claim list \<Rightarrow> memory_scope \<Rightarrow> claim list" where
  "visible_claims cls scope = sort_desc recorded_key (filter (\<lambda>c. cl_scope c = scope \<and> open_proposal c) cls)"

lemma claim_query:
  assumes "claim_rows table cls"
  shows "mapE (row_to_claim float_of) (slice limit (sort_desc claim_stamp
      (filter (\<lambda>r. in_scope scope r \<and> open_claim r \<and> beyond (claim_stamp r)) table)))
    = Inr (slice limit (filter (\<lambda>c. beyond (recorded_key c)) (visible_claims cls scope)))"
proof -
  have cl: "\<forall>c \<in> set cls. canonical_claim c" and tab: "table = map claim_row cls" using assms by (auto simp: claim_rows_def)
  have f: "filter (\<lambda>r. in_scope scope r \<and> open_claim r \<and> beyond (claim_stamp r)) table
      = map claim_row (filter (\<lambda>c. cl_scope c = scope \<and> open_proposal c \<and> beyond (recorded_key c)) cls)"
    unfolding tab filter_map comp_def
    by (rule arg_cong [where f = "map claim_row"], rule filter_cong [OF refl])
       (use cl in \<open>simp add: in_scope_claim open_claim_row claim_stamp_row\<close>)
  let ?cs = "sort_desc recorded_key (filter (\<lambda>c. cl_scope c = scope \<and> open_proposal c \<and> beyond (recorded_key c)) cls)"
  have "sort_desc claim_stamp (map claim_row (filter (\<lambda>c. cl_scope c = scope \<and> open_proposal c \<and> beyond (recorded_key c)) cls))
      = map claim_row ?cs"
    unfolding sort_desc_map by (rule arg_cong [where f = "map claim_row"], rule sort_desc_cong)
      (use cl in \<open>simp add: claim_stamp_row\<close>)
  moreover have "\<forall>c \<in> set (slice limit ?cs). row_to_claim float_of (claim_row c) = Inr c"
    using cl set_slice [of limit ?cs] by (auto intro: read_claim_row)
  ultimately have "mapE (row_to_claim float_of) (slice limit (sort_desc claim_stamp
      (filter (\<lambda>r. in_scope scope r \<and> open_claim r \<and> beyond (claim_stamp r)) table))) = Inr (slice limit ?cs)"
    unfolding f by (simp add: slice_map mapE_back)
  moreover have "?cs = filter (\<lambda>c. beyond (recorded_key c)) (visible_claims cls scope)"
  proof -
    have "filter (\<lambda>c. cl_scope c = scope \<and> open_proposal c \<and> beyond (recorded_key c)) cls
        = filter (\<lambda>c. beyond (recorded_key c)) (filter (\<lambda>c. cl_scope c = scope \<and> open_proposal c) cls)"
      unfolding filter_filter by (rule filter_cong [OF refl]) blast
    then show ?thesis unfolding visible_claims_def by (simp only: sort_desc_filter)
  qed
  ultimately show ?thesis by (simp only:)
qed

text \<open>The claims that a table holds, and the states whose claims can be listed.\<close>

definition table_claims :: "(string \<Rightarrow> pyfloat res) \<Rightarrow> row list \<Rightarrow> claim list" where
  "table_claims float_of table = (case mapE (row_to_claim float_of) table of Inr cs \<Rightarrow> cs | Inl _ \<Rightarrow> [])"

definition claims_listable :: "pg_tx \<Rightarrow> bool" where
  "claims_listable tx \<longleftrightarrow> usable_tx tx \<and> (\<exists>cls. claim_rows (pg_claims (pt_tables tx)) cls)"

lemma table_claims_rows: "claim_rows table cls \<Longrightarrow> table_claims float_of table = cls"
  using mapE_back [of cls "row_to_claim float_of" claim_row]
  by (simp add: claim_rows_def table_claims_def read_claim_row)

definition claim_position :: "string \<Rightarrow> (int \<times> uuid) option" where
  "claim_position c = (case decode_claim_cursor c of Inl e \<Rightarrow> None
     | Inr (ts, i) \<Rightarrow> Some (stamp_key ts (memory_uuid i)))"

lemma claim_position_Some:
  "claim_position c = Some k \<Longrightarrow> \<exists>ts i. decode_claim_cursor c = Inr (ts, i) \<and> k = stamp_key ts (memory_uuid i)"
  unfolding claim_position_def by (cases "decode_claim_cursor c") auto

interpretation postgres_claims: keyset_store claims_listable
    "\<lambda>tx. visible_claims (table_claims float_of (pg_claims (pt_tables tx)))" "(<)" recorded_key claim_position
    "pt_claim_stream float_of" "\<lambda>c. encode_claim_cursor (cl_recorded_from c) (cl_id c)" for float_of
proof
  show "strict_order ((<) :: int \<times> uuid \<Rightarrow> int \<times> uuid \<Rightarrow> bool)" by simp
next
  fix tx scope
  assume "claims_listable tx"
  then obtain cls where c: "claim_rows (pg_claims (pt_tables tx)) cls" by (auto simp: claims_listable_def)
  then have "distinct (map cl_id cls)" by (simp add: claim_rows_def)
  then have "distinct (map recorded_key (filter (\<lambda>c. cl_scope c = scope \<and> open_proposal c) cls))"
    by (auto simp: distinct_map inj_on_def recorded_key_def stamp_key_def)
  then show "sorted_wrt (\<lambda>a b. recorded_key b < recorded_key a)
      (visible_claims (table_claims float_of (pg_claims (pt_tables tx))) scope)"
    unfolding table_claims_rows [OF c] visible_claims_def by (rule sort_desc_strict)
next
  fix tx scope n cursor
  assume l: "claims_listable tx" and n: "(0 :: int) < n"
    and "cursor = None \<or> (\<exists>c k. cursor = Some c \<and> claim_position c = Some k)"
  then have cur: "cursor = None \<or> (\<exists>c ts i. cursor = Some c \<and> decode_claim_cursor c = Inr (ts, i)
      \<and> claim_position c = Some (stamp_key ts (memory_uuid i)))"
    using claim_position_Some by metis
  from l obtain cls where c: "claim_rows (pg_claims (pt_tables tx)) cls" by (auto simp: claims_listable_def)
  have u: "usable_tx tx" using l by (simp add: claims_listable_def)
  note q = claim_query [OF c, where float_of = float_of and limit = "Some n" and scope = scope]
  from cur show "pt_claim_stream float_of tx scope (Some n) cursor = Inr (take (nat n)
      (rows_after (<) recorded_key (Option.bind cursor claim_position)
        (visible_claims (table_claims float_of (pg_claims (pt_tables tx))) scope)))"
  proof (elim disjE exE conjE)
    assume "cursor = None"
    then show ?thesis using n u q [of "\<lambda>_. True"]
      by (simp add: pt_claim_stream_def check_stream_args_def table_claims_rows [OF c] rows_after_def slice_def)
  next
    fix k ts i
    assume "cursor = Some k" "decode_claim_cursor k = Inr (ts, i)" "claim_position k = Some (stamp_key ts (memory_uuid i))"
    then show ?thesis using n u q [of "\<lambda>x. x < stamp_key ts (memory_uuid i)"]
      by (simp add: pt_claim_stream_def check_stream_args_def table_claims_rows [OF c] rows_after_def slice_def)
  qed
next
  fix tx scope c
  assume "claims_listable tx" and "c \<in> set (visible_claims (table_claims float_of (pg_claims (pt_tables tx))) scope)"
  then have "canonical_claim c" by (auto simp: claims_listable_def table_claims_rows visible_claims_def claim_rows_def)
  then have "aware (cl_recorded_from c)" "in_range (instant (cl_recorded_from c))"
    by (auto simp: canonical_claim_def claim_ok_def in_utc_def instant_def)
  then obtain k where k: "encode_claim_cursor (cl_recorded_from c) (cl_id c) = Inr k" using claim_codec.enc_total by blast
  from claim_codec.dec_position [OF k] k
  show "\<exists>k. encode_claim_cursor (cl_recorded_from c) (cl_id c) = Inr k \<and> claim_position k = Some (recorded_key c)"
    by (auto simp: claim_position_def recorded_key_def stamp_key_def)
qed

section \<open>Extraction\<close>

text \<open>The claim that the deterministic extractor makes of an episode, under the identifier \<open>i\<close>.\<close>

definition extracted_claim :: "string \<Rightarrow> episode \<Rightarrow> memory_id \<Rightarrow> claim" where
  "extracted_claim v e i = \<lparr>cl_id = i, cl_scope = ep_scope e,
     cl_subject = uuid_text (subject_uuid (ms_subject_id (ep_scope e))),
     cl_predicate = ''observed_content_hash'', cl_object_value = ep_content_hash e, cl_polarity = True,
     cl_epistemic_kind = EXTRACTED, cl_confidence = Finite 1, cl_valid_from = ep_observed_at e,
     cl_valid_to = None, cl_recorded_from = ep_ingested_at e, cl_recorded_to = None, cl_status = PROPOSED,
     cl_evidence = [\<lparr>er_episode_id = ep_id e, er_source_span = ''metadata'', er_extractor_version = v,
       er_model_ref = None, er_prompt_version = None\<rparr>]\<rparr>"

lemma extracted_claim_ok:
  assumes "canonical_episode e" and "\<not> blank v"
  shows "canonical_claim (extracted_claim v e i)" "claim_ok (extracted_claim v e i)"
    "claim_key (extracted_claim v e i) = (ms_tenant_id (ep_scope e), ep_id e, v)"
    "claim_episode (extracted_claim v e i) = ep_id e"
    "deterministic_propose v e = Inr [extracted_claim v e sentinel_claim_id]"
proof -
  have d: "aware (ep_observed_at e)" "aware (ep_ingested_at e)" "in_utc (ep_observed_at e)" "in_utc (ep_ingested_at e)"
    "scope_ok (ep_scope e)"
    using assms(1) by (auto simp: canonical_episode_def episode_ok_def)
  have span: "\<not> blank ''metadata''" by (simp add: blank_iff is_space_def)
  from d show ok: "claim_ok (extracted_claim v e i)" for i by (simp add: claim_ok_def extracted_claim_def)
  from ok [of i] d show "canonical_claim (extracted_claim v e i)"
    using assms(2) span by (simp add: canonical_claim_def evidence_ok_def) (simp add: extracted_claim_def evidence_ok_def)
  show "claim_key (extracted_claim v e i) = (ms_tenant_id (ep_scope e), ep_id e, v)"
    "claim_episode (extracted_claim v e i) = ep_id e"
    by (simp_all add: claim_key_def claim_episode_def claim_version_def extracted_claim_def)
  show "deterministic_propose v e = Inr [extracted_claim v e sentinel_claim_id]"
    using ok [of sentinel_claim_id] assms(2) span
    by (simp add: deterministic_propose_def mk_evidence_ref_def require_non_blank_def
        mk_claim_Inr [THEN iffD2] flip: extracted_claim_def)
qed

lemma extracted_claim_id [simp]: "(extracted_claim v e i)\<lparr>cl_id := j\<rparr> = extracted_claim v e j"
  "cl_id (extracted_claim v e i) = i" "cl_scope (extracted_claim v e i) = ep_scope e"
  "cl_recorded_from (extracted_claim v e i) = ep_ingested_at e"
  by (simp_all add: extracted_claim_def)

lemma check_aggregate_ok:
  assumes "r \<in> set table" and "row_is r col_name (DUuid (uuid_value_uuid (ev_aggregate_id ev)))"
    and "row_is r ''tenant_id'' (DUuid (tenant_uuid (ev_tenant_id ev)))"
  shows "check_aggregate table col_name ev = Inr ()"
proof -
  let ?rows = "filter (\<lambda>r. row_is r col_name (DUuid (uuid_value_uuid (ev_aggregate_id ev)))) table"
  have r: "r \<in> set ?rows" using assms(1,2) by simp
  then have "?rows \<noteq> []" by (metis empty_iff empty_set)
  moreover have "list_ex (\<lambda>r. row_is r ''tenant_id'' (DUuid (tenant_uuid (ev_tenant_id ev)))) ?rows"
    unfolding list_ex_iff using r assms(3) by blast
  ultimately show ?thesis unfolding check_aggregate_def Let_def by simp
qed

lemma publish_claim:
  assumes "usable_tx tx" and "c \<in> set cls" and t: "claim_rows (pg_claims (pt_tables tx)) cls"
    and o: "outbox_rows (pg_outbox (pt_tables tx)) evs" and ev: "canonical_event ev" "ev_event_type ev = claim_proposed"
      "uuid_value_uuid (ev_aggregate_id ev) = memory_uuid (cl_id c)" "ev_tenant_id ev = ms_tenant_id (cl_scope c)"
    and fresh: "ev_event_id ev \<notin> (\<lambda>p. ev_event_id (fst p)) ` set evs"
  shows "pt_publish tx ev = Inr (tx\<lparr>pt_tables := (pt_tables tx)\<lparr>pg_outbox := pg_outbox (pt_tables tx) @ [event_row (ev, DNull)]\<rparr>\<rparr>)
    \<and> outbox_rows (pg_outbox (pt_tables tx) @ [event_row (ev, DNull)]) (evs @ [(ev, DNull)])"
proof -
  have c: "canonical_claim c" "claim_row c \<in> set (pg_claims (pt_tables tx))" using assms(2) t by (auto simp: claim_rows_def)
  have "check_aggregate (pg_claims (pt_tables tx)) ''claim_id'' ev = Inr ()"
    using ev(3,4) by (intro check_aggregate_ok [OF c(2)]) (simp_all add: row_is_def claim_row_cols [OF c(1)])
  moreover have "claim_proposed \<noteq> episode_recorded" by (simp add: claim_proposed_def episode_recorded_def)
  moreover note insert_event_row [OF o ev(1) fresh]
  ultimately show ?thesis
    using assms(1) ev(2) by (simp add: pt_publish_def Let_def event_row_def)
qed

text \<open>The event of a new claim.\<close>

definition claim_event :: "event_envelope \<Rightarrow> event_id \<Rightarrow> episode \<Rightarrow> claim \<Rightarrow> pyval \<Rightarrow> event_envelope" where
  "claim_event cause ei e c payload = \<lparr>ev_event_id = ei, ev_event_type = claim_proposed, ev_schema_version = 1,
     ev_tenant_id = ms_tenant_id (ep_scope e), ev_aggregate_id = OfMemory (cl_id c), ev_aggregate_version = 1,
     ev_correlation_id = ev_correlation_id cause, ev_causation_id = Some (ev_event_id cause),
     ev_occurred_at = ep_ingested_at e, ev_payload = payload\<rparr>"

lemma claim_event_made:
  assumes "canonical_episode e" and "c = extracted_claim v e i"
  shows "\<exists>payload frozen. claim_proposed_payload c (ep_id e) = Inr payload
    \<and> mk_event (claim_event cause ei e c payload) = Inr (claim_event cause ei e c frozen)
    \<and> canonical_event (claim_event cause ei e c frozen)"
proof -
  obtain payload where p: "claim_proposed_payload c (ep_id e) = Inr payload"
    "\<exists>q. freeze_json_value payload ''payload'' = Inr q \<and> is_mapping q"
    by (simp add: assms(2) claim_proposed_payload_def extracted_claim_def obj_def opt_val_def freeze_scope)
  then obtain q where q: "freeze_json_value payload ''payload'' = Inr q" "is_mapping q" by blast
  have d: "aware (ep_ingested_at e)" "in_utc (ep_ingested_at e)"
    using assms(1) by (auto simp: canonical_episode_def episode_ok_def)
  have "\<not> blank claim_proposed" by (simp add: claim_proposed_def blank_iff is_space_def)
  then have "mk_event (claim_event cause ei e c payload) = Inr (claim_event cause ei e c q)"
    using q d by (simp add: mk_event_eq_Inr claim_event_def)
  moreover from mk_event_ok [OF this] d(2) have "canonical_event (claim_event cause ei e c q)"
    by (simp add: canonical_event_def) (simp add: claim_event_def)
  ultimately show ?thesis using p(1) by blast
qed

definition entered :: "pg_memory \<Rightarrow> pg_tx \<Rightarrow> pg_uow" where
  "entered d tx = \<lparr>pu_database = d, pu_entered = True, pu_state = Some tx\<rparr>"

lemma usable_in_transaction [simp]: "usable_tx (in_transaction d)" "pt_tables (in_transaction d) = d"
  by (simp_all add: usable_tx_def in_transaction_def)

lemma port_enter: "up_enter (postgres_port f) d = Inr (entered d (in_transaction d))"
  by (simp add: postgres_port_def pu_enter_def pu_create_def entered_def in_transaction_def)

lemma port_steps:
  assumes "usable_tx tx"
  shows "up_get (postgres_port f) (entered d tx) scope i = pt_get tx scope i"
    "up_add_proposal (postgres_port f) (entered d tx) c = bindE (pt_add_proposal tx c) (\<lambda>(r, tx'). Inr (r, entered d tx'))"
    "up_publish (postgres_port f) (entered d tx) ev = bindE (pt_publish tx ev) (\<lambda>tx'. Inr (entered d tx'))"
    "\<exists>u. up_commit (postgres_port f) (entered d tx) = Inr u \<and> up_exit (postgres_port f) u = pt_tables tx"
  using assms
  by (simp_all add: postgres_port_def entered_def pu_run_def pu_require_usable_def pu_commit_def bindE_assoc)

text \<open>The state of the tables: recorded episodes, and the proposals of claims.\<close>

definition extractable :: "pg_memory \<Rightarrow> episode list \<Rightarrow> (event_envelope \<times> db_value) list \<Rightarrow> claim list \<Rightarrow> bool" where
  "extractable d eps evs cls \<longleftrightarrow> (\<exists>m. refines (in_transaction d) m \<and> tx_episodes m = eps)
     \<and> outbox_rows (pg_outbox d) evs \<and> claim_rows (pg_claims d) cls"

lemma extractable_get:
  assumes "extractable d eps evs cls" and "e \<in> set eps"
  shows "pt_get (in_transaction d) (ep_scope e) (ep_id e) = Inr (Some e)" "canonical_episode e"
    "pg_episodes d = map episode_to_row eps"
proof -
  from assms(1) obtain m where m: "refines (in_transaction d) m" "tx_episodes m = eps" by (auto simp: extractable_def)
  then have "tx_ok m" by (simp add: refines_def)
  with tx_get_eq [of m e "ep_scope e"] m assms(2) show "pt_get (in_transaction d) (ep_scope e) (ep_id e) = Inr (Some e)"
    by (simp add: pt_get_refines [OF m(1)])
  show "canonical_episode e" using m assms(2) by (auto simp: refines_def)
  show "pg_episodes d = map episode_to_row eps" using m by (simp add: refines_def)
qed

lemma extract_again:
  assumes x: "extractable d eps evs cls" and e: "e \<in> set eps" and v: "\<not> blank v"
    and sc: "scope_from_episode_recorded_event ev = Inr (ep_scope e, ep_id e)"
    and old: "old \<in> set cls" "claim_key old = (ms_tenant_id (ep_scope e), ep_id e, v)"
  shows "extract_claims_handle (postgres_port f) (deterministic_propose v) mids eids True d ev = (Inr (), d)"
proof -
  let ?tx = "in_transaction d" and ?c = "extracted_claim v e (mids 0)"
  note get = extractable_get [OF x e]
  note c = extracted_claim_ok [OF get(2) v]
  have t: "claim_rows (pg_claims (pt_tables ?tx)) cls" using x by (simp add: extractable_def)
  have "pt_add_proposal ?tx ?c = Inr (\<lparr>apr_claim_id = cl_id old, apr_created = False\<rparr>, ?tx)"
    by (rule add_proposal_again [OF usable_in_transaction(1) t c(1) old(1)]) (simp add: old(2) c(3))
  moreover have "mk_claim ?c = Inr ?c" using c(2) by (simp add: mk_claim_Inr)
  moreover obtain u where "up_commit (postgres_port f) (entered d ?tx) = Inr u" "up_exit (postgres_port f) u = d"
    using port_steps(4) [OF usable_in_transaction(1), where f = f and d = d] by auto
  ultimately show ?thesis
    by (simp add: extract_claims_handle_def sc with_uow_def port_enter port_steps get c(5))
qed

lemma extract_new:
  assumes x: "extractable d eps evs cls" and e: "e \<in> set eps" and v: "\<not> blank v"
    and sc: "scope_from_episode_recorded_event ev = Inr (ep_scope e, ep_id e)"
    and new: "(ms_tenant_id (ep_scope e), ep_id e, v) \<notin> claim_key ` set cls"
    and ids: "mids 0 \<notin> cl_id ` set cls" "eids 0 \<notin> (\<lambda>p. ev_event_id (fst p)) ` set evs"
  shows "\<exists>d' ce. extract_claims_handle (postgres_port f) (deterministic_propose v) mids eids True d ev = (Inr (), d')
    \<and> extractable d' eps (evs @ [(ce, DNull)]) (cls @ [extracted_claim v e (mids 0)])
    \<and> event_digest ce = (eids 0, claim_proposed, ms_tenant_id (ep_scope e), memory_uuid (mids 0))
    \<and> ev_causation_id ce = Some (ev_event_id ev)"
proof -
  let ?tx = "in_transaction d" and ?c = "extracted_claim v e (mids 0)"
  note get = extractable_get [OF x e]
  note c = extracted_claim_ok [OF get(2) v]
  have t: "claim_rows (pg_claims (pt_tables ?tx)) cls" and o: "outbox_rows (pg_outbox d) evs"
    using x by (auto simp: extractable_def)
  let ?d1 = "d\<lparr>pg_claims := pg_claims d @ [claim_row ?c]\<rparr>"
  let ?tx1 = "?tx\<lparr>pt_tables := ?d1\<rparr>"
  have "claim_key ?c \<notin> claim_key ` set cls" "cl_id ?c \<notin> cl_id ` set cls" using new ids(1) by (simp_all add: c(3))
  note a = add_proposal_new [OF usable_in_transaction(1) t c(1) this e]
  have a': "pg_episodes (pt_tables ?tx) = map episode_to_row eps" "ep_id e = claim_episode ?c"
    "ms_tenant_id (ep_scope e) = ms_tenant_id (cl_scope ?c)"
    using get(3) c(4) by simp_all
  have add: "pt_add_proposal ?tx ?c = Inr (\<lparr>apr_claim_id = mids 0, apr_created = True\<rparr>, ?tx1)"
    "claim_rows (pg_claims d @ [claim_row ?c]) (cls @ [?c])"
    using a [OF a'] by (simp_all only: usable_in_transaction extracted_claim_id)
  obtain payload q where p: "claim_proposed_payload ?c (ep_id e) = Inr payload"
    "mk_event (claim_event ev (eids 0) e ?c payload) = Inr (claim_event ev (eids 0) e ?c q)"
    "canonical_event (claim_event ev (eids 0) e ?c q)"
    using claim_event_made [OF get(2) refl] by blast
  define ce where "ce = claim_event ev (eids 0) e ?c q"
  have ce: "ev_event_type ce = claim_proposed" "uuid_value_uuid (ev_aggregate_id ce) = memory_uuid (mids 0)"
    "ev_tenant_id ce = ms_tenant_id (ep_scope e)" "ev_event_id ce = eids 0" "ev_causation_id ce = Some (ev_event_id ev)"
    by (simp_all add: ce_def claim_event_def)
  have u1: "usable_tx ?tx1" by (simp add: usable_tx_def in_transaction_def)
  let ?d2 = "?d1\<lparr>pg_outbox := pg_outbox d @ [event_row (ce, DNull)]\<rparr>"
  from publish_claim [OF u1, of ?c "cls @ [?c]" evs ce] add(2) o p(3) ce ids(2)
  have pub: "pt_publish ?tx1 ce = Inr (?tx1\<lparr>pt_tables := ?d2\<rparr>)"
    "outbox_rows (pg_outbox d @ [event_row (ce, DNull)]) (evs @ [(ce, DNull)])"
    by (simp_all flip: ce_def)
  have tx2: "?tx1\<lparr>pt_tables := ?d2\<rparr> = in_transaction ?d2" by (simp add: in_transaction_def)
  obtain u where u: "up_commit (postgres_port f) (entered d (in_transaction ?d2)) = Inr u" "up_exit (postgres_port f) u = ?d2"
    using port_steps(4) [OF usable_in_transaction(1), where f = f and d = d] by auto
  have mk: "mk_claim ?c = Inr ?c" using c(2) by (simp add: mk_claim_Inr)
  have run: "extract_claims_handle (postgres_port f) (deterministic_propose v) mids eids True d ev = (Inr (), ?d2)"
    using p(1,2) pub(1) mk add(1) u tx2
    by (simp add: extract_claims_handle_def sc with_uow_def port_enter port_steps get c(5) u1 claim_event_def ce_def)
  have "extractable ?d2 eps (evs @ [(ce, DNull)]) (cls @ [?c])"
    using x pub(2) add(2) by (auto simp: extractable_def refines_def in_transaction_def)
  with run ce show ?thesis by (auto simp: event_digest_def)
qed

section \<open>Pages of claims\<close>

definition claim_page ::
    "(string \<Rightarrow> pyfloat res) \<Rightarrow> subject_id \<Rightarrow> pg_memory \<Rightarrow> memory_scope \<Rightarrow> int \<Rightarrow> string option \<Rightarrow> claim list_result res" where
  "claim_page float_of actor d scope limit cursor = list_claims_handle (postgres_port float_of) (\<lambda>_. True) d
     \<lparr>lq_actor_id = actor, lq_scope = scope, lq_limit = limit, lq_cursor = cursor\<rparr>"

lemma claim_page_store: "claim_page float_of actor d scope limit cursor =
    store_page (pt_claim_stream float_of) (\<lambda>c. encode_claim_cursor (cl_recorded_from c) (cl_id c)) (\<lambda>c. c)
      (in_transaction d) scope limit cursor"
proof -
  let ?u = "entered d (in_transaction d)"
  have st: "up_claim_stream (postgres_port float_of) ?u scope l cursor = pt_claim_stream float_of (in_transaction d) scope l cursor" for l
    by (simp add: postgres_port_def entered_def pu_require_usable_def)
  have "fst (with_uow (postgres_port float_of) d (\<lambda>u. bindE (up_claim_stream (postgres_port float_of) u scope l cursor) (\<lambda>rows. Inr (rows, u))))
      = pt_claim_stream float_of (in_transaction d) scope l cursor" for l
    by (cases "pt_claim_stream float_of (in_transaction d) scope l cursor") (simp_all add: with_uow_def port_enter st)
  then show ?thesis by (simp add: claim_page_def list_claims_handle_def store_page_def)
qed

lemma claim_walk:
  assumes "claim_rows (pg_claims d) cls" and "0 < n"
  shows "walk (Suc (length (visible_claims cls scope))) (claim_page float_of actor d scope n) None = Inr (visible_claims cls scope)"
proof -
  have "claims_listable (in_transaction d)" using assms(1) by (auto simp: claims_listable_def)
  from postgres_claims.walk_all [OF this assms(2), of float_of scope] show ?thesis
    by (simp add: claim_page_store [abs_def] table_claims_rows [OF assms(1)])
qed

section \<open>Properties\<close>

definition sample_tables :: pg_memory where
  "sample_tables = \<lparr>pg_episodes = [episode_to_row sample_episode], pg_idempotency = [idempotency_row sample_episode],
     pg_outbox = [], pg_claims = []\<rparr>"

lemma sample_canonical: "canonical_episode sample_episode"
  using recordable_new_episode(4-7) [OF sample_recordable] by (simp add: canonical_episode_def sample_episode_def)

lemma sample_extractable: "extractable sample_tables [sample_episode] [] []"
proof -
  have m: "memory_ok sample_memory" using sample_memory_facts(1) by (simp add: memory_listable_def)
  have "refines (in_transaction sample_tables) (tx_begin sample_memory)"
    using tx_begin_ok [OF m] sample_canonical
    by (simp add: refines_def in_transaction_def sample_tables_def) (simp add: tx_begin_def sample_memory_facts)
  moreover have "tx_episodes (tx_begin sample_memory) = [sample_episode]" by (simp add: tx_begin_def sample_memory_facts)
  ultimately show ?thesis
    by (auto simp: extractable_def outbox_rows_def claim_rows_def) (simp_all add: sample_tables_def)
qed

text \<open>
  C25. Extraction happens once. Processing the event of a recorded episode adds the
  extracted claim and its event, caused by the recording event, in one transaction;
  processing any event of that episode again, with other identifiers, changes nothing.
\<close>

theorem extraction_happens_once:
  assumes "extractable d eps evs cls" and "e \<in> set eps" and "\<not> blank v"
    and "scope_from_episode_recorded_event ev = Inr (ep_scope e, ep_id e)"
    and "(ms_tenant_id (ep_scope e), ep_id e, v) \<notin> claim_key ` set cls"
    and "mids 0 \<notin> cl_id ` set cls" and "eids 0 \<notin> (\<lambda>p. ev_event_id (fst p)) ` set evs"
  shows "\<exists>d' ce. extract_claims_handle (postgres_port f) (deterministic_propose v) mids eids True d ev = (Inr (), d')
    \<and> extractable d' eps (evs @ [(ce, DNull)]) (cls @ [extracted_claim v e (mids 0)])
    \<and> event_digest ce = (eids 0, claim_proposed, ms_tenant_id (ep_scope e), memory_uuid (mids 0))
    \<and> ev_causation_id ce = Some (ev_event_id ev)
    \<and> (\<forall>ev' mids' eids'. scope_from_episode_recorded_event ev' = Inr (ep_scope e, ep_id e) \<longrightarrow>
         extract_claims_handle (postgres_port f) (deterministic_propose v) mids' eids' True d' ev' = (Inr (), d'))"
proof -
  obtain d' ce where d': "extract_claims_handle (postgres_port f) (deterministic_propose v) mids eids True d ev = (Inr (), d')"
    "extractable d' eps (evs @ [(ce, DNull)]) (cls @ [extracted_claim v e (mids 0)])"
    "event_digest ce = (eids 0, claim_proposed, ms_tenant_id (ep_scope e), memory_uuid (mids 0))"
    "ev_causation_id ce = Some (ev_event_id ev)"
    using extract_new [where f = f and mids = mids and eids = eids, OF assms] by blast
  have "claim_key (extracted_claim v e (mids 0)) = (ms_tenant_id (ep_scope e), ep_id e, v)"
    by (rule extracted_claim_ok(3) [OF extractable_get(2) [OF assms(1,2)] assms(3)])
  then have "scope_from_episode_recorded_event ev' = Inr (ep_scope e, ep_id e) \<Longrightarrow>
      extract_claims_handle (postgres_port f) (deterministic_propose v) mids' eids' True d' ev' = (Inr (), d')" for ev' mids' eids'
    by (intro extract_again [OF d'(2) assms(2,3), of ev' "extracted_claim v e (mids 0)"]) simp_all
  with d' show ?thesis by blast
qed

theorem extraction_happens_once_witness:
  "\<exists>d'. extract_claims_handle (postgres_port (\<lambda>_. Inr NaN)) (deterministic_propose ''v1'') (\<lambda>n. MemoryId (UUID 20))
      (\<lambda>n. EventId (UUID 21)) True sample_tables
      (new_event sample_command (EventId (UUID 11)) (MemoryId (UUID 10)) sample_time) = (Inr (), d')
    \<and> extract_claims_handle (postgres_port (\<lambda>_. Inr NaN)) (deterministic_propose ''v1'') (\<lambda>n. MemoryId (UUID 22))
      (\<lambda>n. EventId (UUID 23)) True d'
      (new_event sample_command (EventId (UUID 11)) (MemoryId (UUID 10)) sample_time) = (Inr (), d')"
proof -
  let ?ev = "new_event sample_command (EventId (UUID 11)) (MemoryId (UUID 10)) sample_time"
  have "scope_ok (rc_scope sample_command)" using sample_recordable by (simp add: recordable_def)
  then have sc: "scope_from_episode_recorded_event ?ev = Inr (ep_scope sample_episode, ep_id sample_episode)"
    using scope_roundtrip(2) [of ?ev sample_command "EventId (UUID 11)" "MemoryId (UUID 10)" sample_time]
    by (simp add: sample_episode_def new_episode_def command_episode_def)
  have "\<not> blank ''v1''" by (simp add: blank_iff is_space_def)
  from extraction_happens_once [OF sample_extractable _ this sc, of "\<lambda>n. MemoryId (UUID 20)" "\<lambda>n. EventId (UUID 21)" "\<lambda>_. Inr NaN"] sc
  show ?thesis by auto
qed

text \<open>
  A tenant has one proposal of an extractor version for an episode. When one is
  stored, proposing another, whatever it says, is answered with the stored one's
  identifier and stores nothing.
\<close>

theorem one_proposal_per_extractor:
  assumes "usable_tx tx" and "claim_rows (pg_claims (pt_tables tx)) cls" and "canonical_claim c"
    and "old \<in> set cls" and "claim_key old = claim_key c"
  shows "pt_add_proposal tx c = Inr (\<lparr>apr_claim_id = cl_id old, apr_created = False\<rparr>, tx)"
  by (rule add_proposal_again [OF assms])

definition stored_proposal :: pg_memory where
  "stored_proposal = sample_tables\<lparr>pg_claims := [claim_row (extracted_claim ''v1'' sample_episode (MemoryId (UUID 20)))]\<rparr>"

lemma stored_proposal_rows:
  "claim_rows (pg_claims stored_proposal) [extracted_claim ''v1'' sample_episode (MemoryId (UUID 20))]"
  using extracted_claim_ok(1) [OF sample_canonical, of "''v1''" "MemoryId (UUID 20)"]
  by (simp add: claim_rows_def stored_proposal_def blank_iff is_space_def)

theorem one_proposal_per_extractor_witness:
  "pt_add_proposal (in_transaction stored_proposal) (extracted_claim ''v1'' sample_episode (MemoryId (UUID 22)))
     = Inr (\<lparr>apr_claim_id = MemoryId (UUID 20), apr_created = False\<rparr>, in_transaction stored_proposal)"
proof -
  have v: "\<not> blank ''v1''" by (simp add: blank_iff is_space_def)
  note ok = extracted_claim_ok [OF sample_canonical v]
  have rows: "claim_rows (pg_claims (pt_tables (in_transaction stored_proposal)))
      [extracted_claim ''v1'' sample_episode (MemoryId (UUID 20))]" using stored_proposal_rows by simp
  from one_proposal_per_extractor [OF usable_in_transaction(1) rows ok(1), of "extracted_claim ''v1'' sample_episode (MemoryId (UUID 20))"]
  show ?thesis by (simp add: ok(3))
qed

text \<open>
  Walking the pages of the claim listing gives every open proposal of the scope
  exactly once, the most recently recorded first, and ends.
\<close>

theorem claim_pages_complete:
  assumes "claim_rows (pg_claims d) cls" and "0 < n"
  shows "walk (Suc (length (visible_claims cls scope))) (claim_page float_of actor d scope n) None = Inr (visible_claims cls scope)"
  by (rule claim_walk [OF assms])

theorem claim_pages_complete_witness:
  "walk 2 (claim_page (\<lambda>_. Inr NaN) (SubjectId (UUID 2)) stored_proposal sample_scope 1) None
     = Inr [extracted_claim ''v1'' sample_episode (MemoryId (UUID 20))]"
proof -
  let ?c = "extracted_claim ''v1'' sample_episode (MemoryId (UUID 20))"
  have "ep_scope sample_episode = sample_scope"
    by (simp add: sample_episode_def new_episode_def command_episode_def sample_command_def)
  then have "visible_claims [?c] sample_scope = [?c]"
    by (simp add: visible_claims_def sort_desc_def open_proposal_def) (simp add: extracted_claim_def)
  with claim_pages_complete [OF stored_proposal_rows, of 1 sample_scope "\<lambda>_. Inr NaN" "SubjectId (UUID 2)"] show ?thesis
    by (simp add: numeral_2_eq_2)
qed

end
