(* ===== verification/Runtime_Db.thy ===== *)
theory Runtime_Db
  imports Runtime_Model Cursor Paging
begin

text \<open>
  The committed state of the runtime module (\<open>runtime/runtime_state.py\<close>), its
  in-memory database (\<open>adapters/in_memory/database.py\<close>), the monotone snapshot
  writer, the outbox writer (\<open>adapters/in_memory/*_writer.py\<close>) and the
  status-changed events (\<open>adapters/shared/status_changed_event.py\<close>).
\<close>

section \<open>Committed state\<close>

text \<open>
  A fingerprint is a tuple of the fields of a specification. Python compares two
  of them component by component, and dates by their instants. \<open>FpRaw\<close> is a
  JSON value that no fingerprint is made of, but that a stored one may hold.
\<close>

datatype fp_value = FpNone | FpInt int | FpStr string | FpDate datetime | FpTenant tenant_id
  | FpSubject subject_id | FpInstance agent_instance_id | FpDefinition agent_definition_id
  | FpExecution execution_id | FpNode node_id | FpArtifact artifact_id | FpTuple "fp_value list" | FpRaw pyval

fun fp_eq :: "fp_value \<Rightarrow> fp_value \<Rightarrow> bool"
  and fps_eq :: "fp_value list \<Rightarrow> fp_value list \<Rightarrow> bool" where
  "fp_eq (FpDate a) (FpDate b) = dt_eq a b"
| "fp_eq (FpTuple as) (FpTuple bs) = fps_eq as bs"
| "fp_eq a b = (a = b)"
| "fps_eq [] [] = True"
| "fps_eq (a # as) (b # bs) = (fp_eq a b \<and> fps_eq as bs)"
| "fps_eq as bs = False"

text \<open>Two fingerprints are equal when their normal forms are, with every date in UTC.\<close>

fun fp_norm :: "fp_value \<Rightarrow> fp_value" where
  "fp_norm (FpDate d) = FpDate (DateTime (instant d) (if aware d then Some 0 else None))"
| "fp_norm (FpTuple vs) = FpTuple (map fp_norm vs)"
| "fp_norm v = v"

lemma fp_norm_iff [simp]:
  "fp_norm v = FpNone \<longleftrightarrow> v = FpNone" "FpNone = fp_norm v \<longleftrightarrow> FpNone = v"
  "fp_norm v = FpInt x \<longleftrightarrow> v = FpInt x" "FpInt x = fp_norm v \<longleftrightarrow> FpInt x = v"
  "fp_norm v = FpStr y \<longleftrightarrow> v = FpStr y" "FpStr y = fp_norm v \<longleftrightarrow> FpStr y = v"
  "fp_norm v = FpTenant z \<longleftrightarrow> v = FpTenant z" "FpTenant z = fp_norm v \<longleftrightarrow> FpTenant z = v"
  "fp_norm v = FpSubject w \<longleftrightarrow> v = FpSubject w" "FpSubject w = fp_norm v \<longleftrightarrow> FpSubject w = v"
  "fp_norm v = FpInstance u \<longleftrightarrow> v = FpInstance u" "FpInstance u = fp_norm v \<longleftrightarrow> FpInstance u = v"
  "fp_norm v = FpDefinition t \<longleftrightarrow> v = FpDefinition t" "FpDefinition t = fp_norm v \<longleftrightarrow> FpDefinition t = v"
  "fp_norm v = FpArtifact s \<longleftrightarrow> v = FpArtifact s" "FpArtifact s = fp_norm v \<longleftrightarrow> FpArtifact s = v"
  "fp_norm v = FpExecution q \<longleftrightarrow> v = FpExecution q" "FpExecution q = fp_norm v \<longleftrightarrow> FpExecution q = v"
  "fp_norm v = FpNode r \<longleftrightarrow> v = FpNode r" "FpNode r = fp_norm v \<longleftrightarrow> FpNode r = v"
  "fp_norm v = FpRaw j \<longleftrightarrow> v = FpRaw j" "FpRaw j = fp_norm v \<longleftrightarrow> FpRaw j = v"
  by (cases v; auto)+

lemma fp_eq_norm:
  "fp_eq a b \<longleftrightarrow> fp_norm a = fp_norm b"
  "fps_eq as bs \<longleftrightarrow> map fp_norm as = map fp_norm bs"
proof (induction a b and as bs rule: fp_eq_fps_eq.induct)
  case (1 a b)
  show ?case by (auto simp: dt_eq_def)
qed simp_all

lemma fps_eq_refl [simp]: "fps_eq as as"
  by (simp add: fp_eq_norm)

lemma fps_eq_sym: "fps_eq as bs \<Longrightarrow> fps_eq bs as"
  by (simp add: fp_eq_norm)

lemma fps_eq_trans: "fps_eq as bs \<Longrightarrow> fps_eq bs cs \<Longrightarrow> fps_eq as cs"
  by (simp add: fp_eq_norm)

record committed_runtime_state =
  cr_snapshots :: "(execution_id, execution_snapshot) dict"
  cr_idempotency_index :: "(tenant_id \<times> string, execution_id) dict"
  cr_fingerprints :: "(execution_id, fp_value list) dict"
  cr_outbox_events :: "event_envelope list"

definition empty_runtime_state :: committed_runtime_state where
  "empty_runtime_state = \<lparr>cr_snapshots = [], cr_idempotency_index = [], cr_fingerprints = [], cr_outbox_events = []\<rparr>"

section \<open>Reading and writing\<close>

text \<open>
  A callback of \<open>write\<close> takes the state and the buffering outbox, here the list
  of the events published so far, and returns both, or raises.
\<close>

type_synonym write_callback =
  "committed_runtime_state \<Rightarrow> event_envelope list \<Rightarrow> (committed_runtime_state \<times> event_envelope list) res"

definition outbox_publish :: "event_envelope list \<Rightarrow> event_envelope \<Rightarrow> event_envelope list" where
  "outbox_publish buffer event = buffer @ [event]"

definition db_read :: "committed_runtime_state \<Rightarrow> (committed_runtime_state \<Rightarrow> 'a) \<Rightarrow> 'a" where
  "db_read db callback = callback db"

definition db_write :: "committed_runtime_state \<Rightarrow> write_callback \<Rightarrow> unit res \<times> committed_runtime_state" where
  "db_write db callback = (case callback db [] of
       Inl e \<Rightarrow> (Inl e, db)
     | Inr (result, buffer) \<Rightarrow>
         (Inr (), result\<lparr>cr_outbox_events := cr_outbox_events result @ buffer\<rparr>))"

definition replace_snapshot_for_tests :: "committed_runtime_state \<Rightarrow> execution_snapshot \<Rightarrow> committed_runtime_state" where
  "replace_snapshot_for_tests db s = db\<lparr>cr_snapshots := dict_set (sn_execution_id s) s (cr_snapshots db)\<rparr>"

text \<open>A write that raises leaves the committed state as it was.\<close>

lemma db_write_Inl: "db_write db f = (Inl e, db') \<Longrightarrow> db' = db \<and> f db [] = Inl e"
  by (auto simp: db_write_def split: sum.splits)

lemma db_write_Inr:
  "db_write db f = (Inr u, db') \<longleftrightarrow> (\<exists>r buf. f db [] = Inr (r, buf)
     \<and> db' = r\<lparr>cr_outbox_events := cr_outbox_events r @ buf\<rparr>)"
  by (auto simp: db_write_def split: sum.splits)

section \<open>The listing\<close>

definition execution_key :: "execution_snapshot \<Rightarrow> int \<times> uuid" where
  "execution_key s = (instant (sn_updated_at s), execution_uuid (sn_execution_id s))"

definition cursor_key :: "datetime \<Rightarrow> uuid \<Rightarrow> int \<times> uuid" where
  "cursor_key ts u = (instant ts, u)"

definition execution_stream ::
    "committed_runtime_state \<Rightarrow> memory_scope \<Rightarrow> int option \<Rightarrow> string option \<Rightarrow> execution_snapshot list res" where
  "execution_stream db scope limit cursor =
     bindE (check_stream_args limit cursor) (\<lambda>_.
       let rows = sort_desc execution_key (filter (\<lambda>s. sn_scope s = scope) (dict_values (cr_snapshots db))) in
       bindE (case cursor of
           None \<Rightarrow> Inr rows
         | Some c \<Rightarrow> bindE (decode_execution_cursor c) (\<lambda>(cursor_at, cursor_id).
             Inr (filter (\<lambda>s. execution_key s < cursor_key cursor_at (execution_uuid cursor_id)) rows)))
         (\<lambda>rows. Inr (slice limit rows)))"

section \<open>Status-changed events\<close>

definition status_changed_payload :: "execution_status option \<Rightarrow> execution_snapshot \<Rightarrow> pyval" where
  "status_changed_payload previous_status s = obj
     [(''execution_id'', VStr (uuid_text (execution_uuid (sn_execution_id s)))),
      (''revision'', VInt (sn_revision s)),
      (''previous_status'', opt_val (VStr \<circ> execution_status_value) previous_status),
      (''status'', VStr (execution_status_value (sn_status s))),
      (''updated_at'', VStr (isoformat (sn_updated_at s)))]"

definition build_execution_status_changed_event ::
    "event_id \<Rightarrow> correlation_id \<Rightarrow> event_id option \<Rightarrow> execution_status option \<Rightarrow> execution_snapshot
      \<Rightarrow> event_envelope res" where
  "build_execution_status_changed_event event_id correlation_id causation_id previous_status s = mk_event
     \<lparr>ev_event_id = event_id, ev_event_type = ''runtime.execution-status-changed'', ev_schema_version = 1,
      ev_tenant_id = ms_tenant_id (sn_scope s), ev_aggregate_id = OfExecution (sn_execution_id s),
      ev_aggregate_version = sn_revision s, ev_correlation_id = correlation_id, ev_causation_id = causation_id,
      ev_occurred_at = sn_updated_at s, ev_payload = status_changed_payload previous_status s\<rparr>"

text \<open>The event that is built when it is: only the revision and the date can be refused.\<close>

definition status_changed_event ::
    "event_id \<Rightarrow> correlation_id \<Rightarrow> event_id option \<Rightarrow> execution_status option \<Rightarrow> execution_snapshot \<Rightarrow> event_envelope" where
  "status_changed_event event_id correlation_id causation_id previous_status s =
     \<lparr>ev_event_id = event_id, ev_event_type = ''runtime.execution-status-changed'', ev_schema_version = 1,
      ev_tenant_id = ms_tenant_id (sn_scope s), ev_aggregate_id = OfExecution (sn_execution_id s),
      ev_aggregate_version = sn_revision s, ev_correlation_id = correlation_id, ev_causation_id = causation_id,
      ev_occurred_at = sn_updated_at s, ev_payload = VProxy (mapping_items (status_changed_payload previous_status s))\<rparr>"

lemma build_event_Inr:
  "build_execution_status_changed_event i c z p s = Inr e \<longleftrightarrow>
     0 < sn_revision s \<and> aware (sn_updated_at s) \<and> e = status_changed_event i c z p s"
proof -
  have "freeze_json_value (status_changed_payload p s) path
      = Inr (VProxy (mapping_items (status_changed_payload p s)))" for path
    by (cases p) (simp_all add: status_changed_payload_def obj_def opt_val_def)
  moreover have "\<not> blank ''runtime.execution-status-changed''" by (simp add: blank_iff is_space_def)
  ultimately show ?thesis
    by (auto simp: build_execution_status_changed_event_def status_changed_event_def mk_event_eq_Inr)
qed

section \<open>The snapshot writer\<close>

text \<open>
  A worker may deliver the snapshots of an execution late, twice or out of order:
  a writer keeps the one with the highest revision. This is the interface of
  \<open>RuntimeSnapshotWriterPort\<close>; the row store implements it by its upsert.
\<close>

record snapshot_writer =
  sw_snapshots :: "(execution_id, execution_snapshot) dict"
  sw_upsert_history :: "execution_snapshot list"

definition upsert_snapshot :: "snapshot_writer \<Rightarrow> execution_snapshot \<Rightarrow> snapshot_writer" where
  "upsert_snapshot w s = (case dict_get (sw_snapshots w) (sn_execution_id s) of
       Some existing \<Rightarrow> if sn_revision existing \<ge> sn_revision s then w
         else \<lparr>sw_snapshots = dict_set (sn_execution_id s) s (sw_snapshots w),
               sw_upsert_history = sw_upsert_history w @ [s]\<rparr>
     | None \<Rightarrow> \<lparr>sw_snapshots = dict_set (sn_execution_id s) s (sw_snapshots w),
               sw_upsert_history = sw_upsert_history w @ [s]\<rparr>)"

record outbox_writer =
  ow_events :: "event_envelope list"

definition publish_status_changed ::
    "event_id \<Rightarrow> outbox_writer \<Rightarrow> execution_status option \<Rightarrow> execution_snapshot \<Rightarrow> correlation_id \<Rightarrow> outbox_writer res" where
  "publish_status_changed new_id w previous_status s correlation_id =
     bindE (build_execution_status_changed_event new_id correlation_id None previous_status s)
       (\<lambda>e. Inr (w\<lparr>ow_events := ow_events w @ [e]\<rparr>))"

text \<open>
  \<open>valid\<close> are the states of the store and \<open>ok\<close> the snapshots that it can hold; of
  an execution it answers with \<open>current\<close>.
\<close>

locale snapshot_upsert =
  fixes valid :: "'w \<Rightarrow> bool"
    and ok :: "execution_snapshot \<Rightarrow> bool"
    and current :: "'w \<Rightarrow> execution_id \<Rightarrow> execution_snapshot option"
    and upsert :: "'w \<Rightarrow> execution_snapshot \<Rightarrow> 'w"
  assumes upsert_valid: "valid w \<Longrightarrow> ok s \<Longrightarrow> valid (upsert w s)"
    and upsert_current: "valid w \<Longrightarrow> ok s \<Longrightarrow> current (upsert w s) i =
      (if i = sn_execution_id s \<and> (\<forall>old. current w i = Some old \<longrightarrow> sn_revision old < sn_revision s)
       then Some s else current w i)"
begin

lemma upserts_valid: "valid w \<Longrightarrow> \<forall>s \<in> set ss. ok s \<Longrightarrow> valid (foldl upsert w ss)"
  by (induction ss arbitrary: w) (simp_all add: upsert_valid)

text \<open>The revision kept for an execution never goes back.\<close>

lemma upsert_monotone:
  "valid w \<Longrightarrow> ok s \<Longrightarrow> current w i = Some old \<Longrightarrow>
     \<exists>new. current (upsert w s) i = Some new \<and> sn_revision old \<le> sn_revision new"
  by (auto simp: upsert_current)

lemma upserts_monotone:
  "valid w \<Longrightarrow> \<forall>s \<in> set ss. ok s \<Longrightarrow> current w i = Some old \<Longrightarrow>
     \<exists>new. current (foldl upsert w ss) i = Some new \<and> sn_revision old \<le> sn_revision new"
proof (induction ss arbitrary: w old)
  case (Cons s ss)
  from upsert_monotone [OF Cons.prems(1) _ Cons.prems(3), of s] Cons.prems(2) obtain mid where
    "current (upsert w s) i = Some mid" "sn_revision old \<le> sn_revision mid" by auto
  with Cons.IH [OF upsert_valid [OF Cons.prems(1)], of s mid] Cons.prems(2) show ?case by force
qed simp

lemma upsert_again: "valid w \<Longrightarrow> ok s \<Longrightarrow> current (upsert (upsert w s) s) i = current (upsert w s) i"
  by (auto simp: upsert_current upsert_valid)

text \<open>After any deliveries the kept snapshot is one of the highest revision among them.\<close>

lemma upserts_maximal:
  assumes "valid w" and "\<forall>s \<in> set ss. ok s" and "current w i = None"
  shows "case current (foldl upsert w ss) i of
      None \<Rightarrow> (\<forall>t \<in> set ss. sn_execution_id t \<noteq> i)
    | Some s \<Rightarrow> s \<in> set ss \<and> sn_execution_id s = i
        \<and> (\<forall>t \<in> set ss. sn_execution_id t = i \<longrightarrow> sn_revision t \<le> sn_revision s)"
  using assms(2)
proof (induction ss rule: rev_induct)
  case (snoc s ss)
  then have IH: "case current (foldl upsert w ss) i of
      None \<Rightarrow> (\<forall>t \<in> set ss. sn_execution_id t \<noteq> i)
    | Some s \<Rightarrow> s \<in> set ss \<and> sn_execution_id s = i
        \<and> (\<forall>t \<in> set ss. sn_execution_id t = i \<longrightarrow> sn_revision t \<le> sn_revision s)" by simp
  have u: "valid (foldl upsert w ss)" "ok s" using assms(1) snoc.prems by (auto intro: upserts_valid)
  show ?case
  proof (cases "current (foldl upsert w ss) i")
    case None
    with IH u show ?thesis by (cases "i = sn_execution_id s") (auto simp: upsert_current)
  next
    case (Some old)
    with IH u show ?thesis
      by (cases "i = sn_execution_id s"; cases "sn_revision old < sn_revision s") (fastforce simp: upsert_current)+
  qed
qed (simp add: assms(3))

text \<open>
  So deliveries in any order and number end in the same snapshots, when a revision
  of an execution determines its snapshot.
\<close>

lemma upserts_commute:
  assumes "valid w" and "\<forall>s \<in> set ss. ok s" and "set ss = set ts" and "current w i = None"
    and "\<forall>s \<in> set ss. \<forall>t \<in> set ss. sn_execution_id s = sn_execution_id t \<longrightarrow> sn_revision s = sn_revision t \<longrightarrow> s = t"
  shows "current (foldl upsert w ss) i = current (foldl upsert w ts) i"
proof -
  have ok': "\<forall>s \<in> set ts. ok s" using assms(2,3) by simp
  note ms = upserts_maximal [OF assms(1,2,4)] and mt = upserts_maximal [OF assms(1) ok' assms(4)]
  show ?thesis
  proof (cases "current (foldl upsert w ss) i")
    case None
    then show ?thesis using ms mt assms(3) by (auto split: option.splits)
  next
    case (Some s)
    with ms have s: "s \<in> set ss" "sn_execution_id s = i"
      "\<forall>t \<in> set ss. sn_execution_id t = i \<longrightarrow> sn_revision t \<le> sn_revision s" by auto
    with mt assms(3) obtain t where
      t: "current (foldl upsert w ts) i = Some t" "t \<in> set ss" "sn_execution_id t = i"
         "\<forall>u \<in> set ss. sn_execution_id u = i \<longrightarrow> sn_revision u \<le> sn_revision t"
      by (auto split: option.splits)
    with s assms(5) have "s = t" by (simp add: order_antisym)
    with Some t show ?thesis by simp
  qed
qed

end

interpretation memory_writer: snapshot_upsert "\<lambda>_. True" "\<lambda>_. True" "\<lambda>w. dict_get (sw_snapshots w)" upsert_snapshot
  by unfold_locales (auto simp: upsert_snapshot_def split: option.splits)

text \<open>The history of the in-memory writer holds growing revisions of each execution.\<close>

lemma upsert_history_grows:
  assumes "\<forall>s \<in> set (sw_upsert_history w). \<exists>c. dict_get (sw_snapshots w) (sn_execution_id s) = Some c \<and> sn_revision s \<le> sn_revision c"
    and "sorted_wrt (\<lambda>s t. sn_execution_id s = sn_execution_id t \<longrightarrow> sn_revision s < sn_revision t) (sw_upsert_history w)"
  shows "sorted_wrt (\<lambda>s t. sn_execution_id s = sn_execution_id t \<longrightarrow> sn_revision s < sn_revision t)
    (sw_upsert_history (upsert_snapshot w s))"
  using assms by (auto simp: upsert_snapshot_def sorted_wrt_append split: option.splits; force)

section \<open>Properties\<close>

definition no_snapshots :: snapshot_writer where
  "no_snapshots = \<lparr>sw_snapshots = [], sw_upsert_history = []\<rparr>"

text \<open>
  The writer keeps the latest revision. After any sequence of deliveries, with
  repetitions and out of order, what it holds of an execution is one of the
  delivered snapshots, of the highest revision among them; it holds nothing only
  when nothing was delivered.
\<close>

theorem snapshot_writer_keeps_latest:
  "case dict_get (sw_snapshots (foldl upsert_snapshot no_snapshots ss)) i of
      None \<Rightarrow> (\<forall>t \<in> set ss. sn_execution_id t \<noteq> i)
    | Some s \<Rightarrow> s \<in> set ss \<and> sn_execution_id s = i
        \<and> (\<forall>t \<in> set ss. sn_execution_id t = i \<longrightarrow> sn_revision t \<le> sn_revision s)"
  by (rule memory_writer.upserts_maximal) (simp_all add: no_snapshots_def)

definition sample_snapshot_at :: "int \<Rightarrow> execution_status \<Rightarrow> execution_snapshot" where
  "sample_snapshot_at n st = \<lparr>sn_execution_id = ExecutionId (UUID 7), sn_scope = sample_scope, sn_revision = n,
     sn_status = st, sn_plan_revision = None, sn_node_statuses = [], sn_suspension = None, sn_result_ref = None, sn_failure = None,
     sn_updated_at = sample_time\<rparr>"

theorem snapshot_writer_keeps_latest_witness:
  "\<exists>s. dict_get (sw_snapshots (foldl upsert_snapshot no_snapshots
      [sample_snapshot_at 2 PLANNING, sample_snapshot_at 1 PENDING, sample_snapshot_at 2 PLANNING])) (ExecutionId (UUID 7)) = Some s
    \<and> s \<in> {sample_snapshot_at 2 PLANNING, sample_snapshot_at 1 PENDING} \<and> 2 \<le> sn_revision s"
  using snapshot_writer_keeps_latest [of
      "[sample_snapshot_at 2 PLANNING, sample_snapshot_at 1 PENDING, sample_snapshot_at 2 PLANNING]" "ExecutionId (UUID 7)"]
  by (auto simp: sample_snapshot_at_def split: option.splits)

text \<open>
  The deliveries commute. When a revision of an execution determines its
  snapshot, two sequences that deliver the same snapshots, in whatever order and
  number, end with the same snapshots.
\<close>

theorem snapshot_writes_commute:
  assumes "set ss = set ts"
    and "\<forall>s \<in> set ss. \<forall>t \<in> set ss. sn_execution_id s = sn_execution_id t \<longrightarrow> sn_revision s = sn_revision t \<longrightarrow> s = t"
  shows "dict_get (sw_snapshots (foldl upsert_snapshot no_snapshots ss)) i
    = dict_get (sw_snapshots (foldl upsert_snapshot no_snapshots ts)) i"
  by (rule memory_writer.upserts_commute [OF _ _ assms(1) _ assms(2)]) (simp_all add: no_snapshots_def)

theorem snapshot_writes_commute_witness:
  "dict_get (sw_snapshots (foldl upsert_snapshot no_snapshots [sample_snapshot_at 1 PENDING, sample_snapshot_at 2 PLANNING])) (ExecutionId (UUID 7))
    = dict_get (sw_snapshots (foldl upsert_snapshot no_snapshots
        [sample_snapshot_at 2 PLANNING, sample_snapshot_at 1 PENDING, sample_snapshot_at 2 PLANNING])) (ExecutionId (UUID 7))"
  by (rule snapshot_writes_commute) (auto simp: sample_snapshot_at_def)

end
