(* ===== verification/Runtime_Orchestrator.thy ===== *)
theory Runtime_Orchestrator
  imports Runtime_Db
begin

text \<open>
  The in-memory orchestrator (\<open>adapters/in_memory/orchestrator.py\<close>): start with
  its idempotency index, lookup and cancel. The clock's answer and the drawn
  event identifiers are arguments: \<open>ids n\<close> is what the \<open>n\<close>-th call of
  \<open>new_event_id\<close> within one operation returns.
\<close>

section \<open>Fingerprints\<close>

text \<open>\<open>repr\<close> of a string, of a \<open>UUIDValue\<close> subclass and of a \<open>MemoryScope\<close>.\<close>

definition hex_byte :: "nat \<Rightarrow> string" where
  "hex_byte n = [hex_char (n div 16), hex_char (n mod 16)]"

definition repr_char :: "char \<Rightarrow> char \<Rightarrow> string" where
  "repr_char quote c = (let n = of_char c :: nat in
     if c = quote \<or> c = CHR 0x5C then [CHR 0x5C, c]
     else if n = 9 then [CHR 0x5C, CHR ''t'']
     else if n = 10 then [CHR 0x5C, CHR ''n'']
     else if n = 13 then [CHR 0x5C, CHR ''r'']
     else if n < 32 \<or> (127 \<le> n \<and> n \<le> 160) \<or> n = 173 then [CHR 0x5C, CHR ''x''] @ hex_byte n
     else [c])"

definition repr_str :: "string \<Rightarrow> string" where
  "repr_str s = (let quote = (if CHR 0x27 \<in> set s \<and> CHR 0x22 \<notin> set s then CHR 0x22 else CHR 0x27) in
     [quote] @ concat (map (repr_char quote) s) @ [quote])"

definition repr_id :: "string \<Rightarrow> uuid \<Rightarrow> string" where
  "repr_id cls u = cls @ ''(value=UUID('' @ [CHR 0x27] @ uuid_text u @ [CHR 0x27] @ ''))''"

definition repr_scope :: "memory_scope \<Rightarrow> string" where
  "repr_scope s =
     ''MemoryScope(tenant_id='' @ repr_id ''TenantId'' (tenant_uuid (ms_tenant_id s)) @
     '', subject_id='' @ repr_id ''SubjectId'' (subject_uuid (ms_subject_id s)) @
     '', workspace_id='' @ (case ms_workspace_id s of None \<Rightarrow> ''None'' | Some w \<Rightarrow> repr_str w) @
     '', agent_id='' @ (case ms_agent_id s of None \<Rightarrow> ''None''
        | Some a \<Rightarrow> repr_id ''AgentInstanceId'' (agent_instance_uuid a)) @ '')''"

definition fp_opt :: "('a \<Rightarrow> fp_value) \<Rightarrow> 'a option \<Rightarrow> fp_value" where
  "fp_opt f x = (case x of None \<Rightarrow> FpNone | Some y \<Rightarrow> f y)"

definition spec_fingerprint :: "execution_spec \<Rightarrow> fp_value list" where
  "spec_fingerprint spec =
     (let mq_part = (case sp_memory_query spec of
          None \<Rightarrow> [FpNone]
        | Some mq \<Rightarrow> [FpStr (mq_query_id mq), FpStr (mq_text mq), FpInt (mq_limit mq),
            FpStr (repr_scope (mq_scope mq)), fp_opt FpDate (mq_valid_at mq), fp_opt FpDate (mq_recorded_at mq)])
      in [FpTenant (ms_tenant_id (sp_scope spec)), FpSubject (ms_subject_id (sp_scope spec)),
          fp_opt FpStr (ms_workspace_id (sp_scope spec)), fp_opt FpInstance (ms_agent_id (sp_scope spec)),
          FpArtifact (sp_objective_ref spec), FpDefinition (sp_root_agent_id spec), FpTuple mq_part,
          FpInt (bg_max_input_tokens (sp_budget spec)), FpInt (bg_max_output_tokens (sp_budget spec)),
          FpInt (bg_max_cost_micros (sp_budget spec)), FpDate (bg_deadline (sp_budget spec)),
          FpStr (sp_idempotency_key spec)])"

text \<open>Two specifications with equal fingerprints ask for the same work.\<close>

definition query_equiv :: "memory_query \<Rightarrow> memory_query \<Rightarrow> bool" where
  "query_equiv p q \<longleftrightarrow> mq_query_id p = mq_query_id q \<and> mq_text p = mq_text q \<and> mq_limit p = mq_limit q
     \<and> rel_option dt_eq (mq_valid_at p) (mq_valid_at q) \<and> rel_option dt_eq (mq_recorded_at p) (mq_recorded_at q)"

definition same_request :: "execution_spec \<Rightarrow> execution_spec \<Rightarrow> bool" where
  "same_request a b \<longleftrightarrow> sp_scope a = sp_scope b \<and> sp_objective_ref a = sp_objective_ref b
     \<and> sp_root_agent_id a = sp_root_agent_id b \<and> rel_option query_equiv (sp_memory_query a) (sp_memory_query b)
     \<and> bg_max_input_tokens (sp_budget a) = bg_max_input_tokens (sp_budget b)
     \<and> bg_max_output_tokens (sp_budget a) = bg_max_output_tokens (sp_budget b)
     \<and> bg_max_cost_micros (sp_budget a) = bg_max_cost_micros (sp_budget b)
     \<and> dt_eq (bg_deadline (sp_budget a)) (bg_deadline (sp_budget b))
     \<and> sp_idempotency_key a = sp_idempotency_key b"

lemma fp_opt_eq:
  "fp_eq (fp_opt FpStr a) (fp_opt FpStr b) \<longleftrightarrow> a = b"
  "fp_eq (fp_opt FpInstance c) (fp_opt FpInstance d) \<longleftrightarrow> c = d"
  "fp_eq (fp_opt FpDate e) (fp_opt FpDate f) \<longleftrightarrow> rel_option dt_eq e f"
  by (auto simp: fp_opt_def split: option.splits)

lemma fingerprint_same_request:
  assumes "spec_ok a" and "spec_ok b"
  shows "fps_eq (spec_fingerprint a) (spec_fingerprint b) \<longleftrightarrow> same_request a b"
proof -
  have scope: "sp_scope a = sp_scope b \<longleftrightarrow> ms_tenant_id (sp_scope a) = ms_tenant_id (sp_scope b)
      \<and> ms_subject_id (sp_scope a) = ms_subject_id (sp_scope b)
      \<and> ms_workspace_id (sp_scope a) = ms_workspace_id (sp_scope b)
      \<and> ms_agent_id (sp_scope a) = ms_agent_id (sp_scope b)"
    by (auto intro: memory_scope.equality)
  show ?thesis
  proof (cases "sp_scope a = sp_scope b")
    case True
    with assms show ?thesis
      by (auto simp: spec_fingerprint_def same_request_def query_equiv_def fp_opt_eq spec_ok_def
          split: option.splits)
  next
    case False
    then show ?thesis
      using scope by (auto simp: spec_fingerprint_def same_request_def fp_opt_eq Let_def)
  qed
qed

section \<open>Lookup\<close>

definition snapshot_for_scope ::
    "committed_runtime_state \<Rightarrow> memory_scope \<Rightarrow> execution_id \<Rightarrow> execution_snapshot res" where
  "snapshot_for_scope state scope execution_id = (case dict_get (cr_snapshots state) execution_id of
       None \<Rightarrow> Inl ExecutionNotFound
     | Some s \<Rightarrow> if sn_scope s \<noteq> scope then Inl ExecutionNotFound else Inr s)"

definition commit_snapshot :: "committed_runtime_state \<Rightarrow> execution_snapshot \<Rightarrow> committed_runtime_state" where
  "commit_snapshot state s = state\<lparr>cr_snapshots := dict_set (sn_execution_id s) s (cr_snapshots state)\<rparr>"

definition get_snapshot :: "committed_runtime_state \<Rightarrow> memory_scope \<Rightarrow> execution_id \<Rightarrow> execution_snapshot res" where
  "get_snapshot db scope execution_id = db_read db (\<lambda>state. snapshot_for_scope state scope execution_id)"

section \<open>Start\<close>

definition initial_snapshot :: "execution_spec \<Rightarrow> datetime \<Rightarrow> execution_snapshot" where
  "initial_snapshot spec updated_at =
     \<lparr>sn_execution_id = sp_id spec, sn_scope = sp_scope spec, sn_revision = 1, sn_status = PENDING,
      sn_plan_revision = None, sn_node_statuses = [], sn_suspension = None, sn_result_ref = None,
      sn_failure = None, sn_updated_at = updated_at\<rparr>"

definition emit_transition ::
    "event_id \<Rightarrow> event_envelope list \<Rightarrow> correlation_id \<Rightarrow> event_id option \<Rightarrow> execution_status option
      \<Rightarrow> execution_snapshot \<Rightarrow> event_envelope list res" where
  "emit_transition new_id outbox correlation_id causation_id previous_status s =
     bindE (build_execution_status_changed_event new_id correlation_id causation_id previous_status s)
       (\<lambda>e. Inr (outbox_publish outbox e))"

definition index_key :: "execution_spec \<Rightarrow> tenant_id \<times> string" where
  "index_key spec = (ms_tenant_id (sp_scope spec), sp_idempotency_key spec)"

text \<open>The new state is built from its three dictionaries alone: its outbox is the empty default.\<close>

definition start_callback :: "(nat \<Rightarrow> event_id) \<Rightarrow> datetime \<Rightarrow> execution_spec \<Rightarrow> write_callback" where
  "start_callback ids updated_at spec state outbox =
     (case dict_get (cr_idempotency_index state) (index_key spec) of
        Some existing_id \<Rightarrow>
          (case dict_get (cr_fingerprints state) existing_id of
             None \<Rightarrow> Inl ExecutionIdempotencyConflict
           | Some stored \<Rightarrow> if \<not> fps_eq stored (spec_fingerprint spec) then Inl ExecutionIdempotencyConflict
               else Inr (state, outbox))
      | None \<Rightarrow>
          bindE (mk_execution_snapshot (initial_snapshot spec updated_at)) (\<lambda>s.
          bindE (emit_transition (ids 0) outbox (CorrelationId (execution_uuid (sp_id spec))) None None s) (\<lambda>outbox'.
            Inr (\<lparr>cr_snapshots = dict_set (sn_execution_id s) s (cr_snapshots state),
                  cr_idempotency_index = dict_set (index_key spec) (sn_execution_id s) (cr_idempotency_index state),
                  cr_fingerprints = dict_set (sn_execution_id s) (spec_fingerprint spec) (cr_fingerprints state),
                  cr_outbox_events = []\<rparr>, outbox'))))"

definition start ::
    "(nat \<Rightarrow> event_id) \<Rightarrow> datetime \<Rightarrow> committed_runtime_state \<Rightarrow> execution_spec
      \<Rightarrow> execution_snapshot res \<times> committed_runtime_state" where
  "start ids now db spec = (case db_write db (start_callback ids now spec) of
       (Inl e, db') \<Rightarrow> (Inl e, db')
     | (Inr _, db') \<Rightarrow>
         (db_read db' (\<lambda>state. bindE (dict_item (cr_idempotency_index state) (index_key spec) (KeyError ''index_key''))
            (\<lambda>i. snapshot_for_scope state (sp_scope spec) i)), db'))"

section \<open>Cancel\<close>

definition cancel_transitions ::
    "execution_snapshot \<Rightarrow> datetime \<Rightarrow> (execution_status \<times> execution_snapshot) list res" where
  "cancel_transitions s updated_at =
     (if sn_status s \<in> {CANCELLED, FAILED} then Inr []
      else if sn_status s = SUCCEEDED then Inl InvalidExecutionTransition
      else if sn_status s = CANCELLING then
        bindE (raise_if (\<not> can_transition_execution CANCELLING CANCELLED) InvalidExecutionTransition) (\<lambda>_.
        bindE (mk_execution_snapshot (s\<lparr>sn_status := CANCELLED, sn_revision := sn_revision s + 1, sn_updated_at := updated_at\<rparr>))
          (\<lambda>cancelled. Inr [(CANCELLING, cancelled)]))
      else
        bindE (raise_if (\<not> can_transition_execution (sn_status s) CANCELLING) InvalidExecutionTransition) (\<lambda>_.
        bindE (mk_execution_snapshot (s\<lparr>sn_status := CANCELLING, sn_revision := sn_revision s + 1, sn_updated_at := updated_at\<rparr>))
          (\<lambda>cancelling.
        bindE (raise_if (\<not> can_transition_execution CANCELLING CANCELLED) InvalidExecutionTransition) (\<lambda>_.
        bindE (mk_execution_snapshot (cancelling\<lparr>sn_status := CANCELLED, sn_revision := sn_revision cancelling + 1,
            sn_updated_at := updated_at\<rparr>))
          (\<lambda>cancelled. Inr [(sn_status s, cancelling), (CANCELLING, cancelled)])))))"

fun emit_all ::
    "(nat \<Rightarrow> event_id) \<Rightarrow> nat \<Rightarrow> correlation_id \<Rightarrow> (execution_status \<times> execution_snapshot) list
      \<Rightarrow> committed_runtime_state \<Rightarrow> event_envelope list \<Rightarrow> (committed_runtime_state \<times> event_envelope list) res" where
  "emit_all ids n correlation_id [] committed outbox = Inr (committed, outbox)"
| "emit_all ids n correlation_id ((previous_status, next_snapshot) # ts) committed outbox =
     bindE (emit_transition (ids n) outbox correlation_id None (Some previous_status) next_snapshot) (\<lambda>outbox'.
       emit_all ids (Suc n) correlation_id ts (commit_snapshot committed next_snapshot) outbox')"

definition cancel_callback ::
    "(nat \<Rightarrow> event_id) \<Rightarrow> datetime \<Rightarrow> memory_scope \<Rightarrow> execution_id \<Rightarrow> write_callback" where
  "cancel_callback ids updated_at scope execution_id state outbox =
     bindE (snapshot_for_scope state scope execution_id) (\<lambda>s.
     bindE (cancel_transitions s updated_at) (\<lambda>transitions.
       if transitions = [] then Inr (state, outbox)
       else emit_all ids 0 (CorrelationId (execution_uuid execution_id)) transitions state outbox))"

text \<open>The idempotency key of a cancellation is an argument that the code deletes.\<close>

definition cancel ::
    "(nat \<Rightarrow> event_id) \<Rightarrow> datetime \<Rightarrow> committed_runtime_state \<Rightarrow> memory_scope \<Rightarrow> execution_id \<Rightarrow> string
      \<Rightarrow> execution_snapshot res \<times> committed_runtime_state" where
  "cancel ids now db scope execution_id idempotency_key =
     (case db_write db (cancel_callback ids now scope execution_id) of
        (Inl e, db') \<Rightarrow> (Inl e, db')
      | (Inr _, db') \<Rightarrow> (db_read db' (\<lambda>state. snapshot_for_scope state scope execution_id), db'))"

section \<open>What a committed state satisfies\<close>

text \<open>
  Every snapshot is filed under its own identifier, and every idempotency key
  leads to a snapshot of its tenant and to the fingerprint of the specification
  that started it.
\<close>

definition indexed_spec :: "committed_runtime_state \<Rightarrow> tenant_id \<times> string \<Rightarrow> execution_id \<Rightarrow> execution_spec \<Rightarrow> bool" where
  "indexed_spec db k i spec \<longleftrightarrow> spec_ok spec \<and> sp_id spec = i \<and> index_key spec = k
     \<and> dict_get (cr_fingerprints db) i = Some (spec_fingerprint spec)
     \<and> (\<exists>s. dict_get (cr_snapshots db) i = Some s \<and> sn_scope s = sp_scope spec)"

definition snapshots_ok :: "(execution_id, execution_snapshot) dict \<Rightarrow> bool" where
  "snapshots_ok d \<longleftrightarrow> distinct (dict_keys d)
     \<and> (\<forall>i s. dict_get d i = Some s \<longrightarrow> sn_execution_id s = i \<and> snapshot_ok s)"

definition db_ok :: "committed_runtime_state \<Rightarrow> bool" where
  "db_ok db \<longleftrightarrow> snapshots_ok (cr_snapshots db) \<and> distinct (dict_keys (cr_idempotency_index db))
     \<and> (\<forall>k i. dict_get (cr_idempotency_index db) k = Some i \<longrightarrow> (\<exists>spec. indexed_spec db k i spec))"

lemma empty_db_ok: "db_ok empty_runtime_state"
  by (simp add: db_ok_def snapshots_ok_def empty_runtime_state_def)

lemma snapshots_ok_set:
  "snapshots_ok d \<Longrightarrow> snapshot_ok s \<Longrightarrow> snapshots_ok (dict_set (sn_execution_id s) s d)"
  by (auto simp: snapshots_ok_def distinct_keys_set split: if_splits)

lemma snapshot_for_scope_Inr [simp]:
  "snapshot_for_scope db scope i = Inr s \<longleftrightarrow> dict_get (cr_snapshots db) i = Some s \<and> sn_scope s = scope"
  by (auto simp: snapshot_for_scope_def split: option.splits)

lemma snapshot_for_scope_Inl:
  "snapshot_for_scope db scope i = Inl e \<longleftrightarrow>
     e = ExecutionNotFound \<and> (\<forall>s. dict_get (cr_snapshots db) i = Some s \<longrightarrow> sn_scope s \<noteq> scope)"
  by (auto simp: snapshot_for_scope_def split: option.splits)

lemma initial_snapshot_ok: "snapshot_ok (initial_snapshot spec now) \<longleftrightarrow> aware now"
  by (simp add: snapshot_ok_def initial_snapshot_def)

section \<open>Start: new, again, conflict\<close>

definition started_state :: "(nat \<Rightarrow> event_id) \<Rightarrow> datetime \<Rightarrow> committed_runtime_state \<Rightarrow> execution_spec \<Rightarrow> committed_runtime_state" where
  "started_state ids now db spec =
     \<lparr>cr_snapshots = dict_set (sp_id spec) (initial_snapshot spec now) (cr_snapshots db),
      cr_idempotency_index = dict_set (index_key spec) (sp_id spec) (cr_idempotency_index db),
      cr_fingerprints = dict_set (sp_id spec) (spec_fingerprint spec) (cr_fingerprints db),
      cr_outbox_events = [status_changed_event (ids 0) (CorrelationId (execution_uuid (sp_id spec))) None None
        (initial_snapshot spec now)]\<rparr>"

lemma start_new:
  assumes "dict_get (cr_idempotency_index db) (index_key spec) = None" and "aware now"
  shows "start ids now db spec = (Inr (initial_snapshot spec now), started_state ids now db spec)"
proof -
  let ?s = "initial_snapshot spec now"
  have "mk_execution_snapshot ?s = Inr ?s" using assms(2) by (simp add: mk_execution_snapshot_Inr initial_snapshot_ok)
  moreover have "build_execution_status_changed_event i c z p ?s = Inr (status_changed_event i c z p ?s)" for i c z p
    using assms(2) by (simp add: build_event_Inr initial_snapshot_def)
  ultimately show ?thesis
    using assms(1)
    by (simp add: start_def db_write_def start_callback_def emit_transition_def outbox_publish_def db_read_def
        started_state_def dict_item_def snapshot_for_scope_def initial_snapshot_def)
qed

lemma start_naive_clock:
  assumes "dict_get (cr_idempotency_index db) (index_key spec) = None" and "\<not> aware now"
  shows "start ids now db spec = (Inl (ValueError ''updated_at must be timezone-aware''), db)"
  using assms
  by (simp add: start_def db_write_def start_callback_def mk_execution_snapshot_def initial_snapshot_def require_aware_def)

text \<open>A key that is taken: the same request finds the execution, another one is refused.\<close>

lemma start_taken:
  assumes "db_ok db" and "spec_ok spec" and "dict_get (cr_idempotency_index db) (index_key spec) = Some i"
  shows "\<exists>old s. indexed_spec db (index_key spec) i old \<and> dict_get (cr_snapshots db) i = Some s \<and> sn_execution_id s = i
    \<and> start ids now db spec = ((if same_request old spec then Inr s else Inl ExecutionIdempotencyConflict), db)"
proof -
  from assms(1,3) obtain old where old: "indexed_spec db (index_key spec) i old" unfolding db_ok_def by blast
  then obtain s where s: "dict_get (cr_snapshots db) i = Some s" "sn_scope s = sp_scope old"
    "dict_get (cr_fingerprints db) i = Some (spec_fingerprint old)" "spec_ok old"
    by (auto simp: indexed_spec_def)
  have fp: "fps_eq (spec_fingerprint old) (spec_fingerprint spec) \<longleftrightarrow> same_request old spec"
    by (rule fingerprint_same_request [OF s(4) assms(2)])
  have "start ids now db spec = ((if same_request old spec then Inr s else Inl ExecutionIdempotencyConflict), db)"
    using s assms(3) fp
    by (auto simp: start_def db_write_def start_callback_def db_read_def dict_item_def snapshot_for_scope_def
        same_request_def)
  moreover have "sn_execution_id s = i" using assms(1) s(1) by (simp add: db_ok_def snapshots_ok_def)
  ultimately show ?thesis using old s(1) by blast
qed

lemma started_state_ok:
  assumes db: "db_ok db" and spec: "spec_ok spec" "aware now"
    and fresh: "dict_get (cr_snapshots db) (sp_id spec) = None"
    and free: "dict_get (cr_idempotency_index db) (index_key spec) = None"
  shows "db_ok (started_state ids now db spec)"
proof -
  let ?db = "started_state ids now db spec"
  have "snapshots_ok (cr_snapshots ?db)"
    using db spec snapshots_ok_set [of "cr_snapshots db" "initial_snapshot spec now"]
    by (simp add: started_state_def db_ok_def initial_snapshot_ok) (simp add: initial_snapshot_def)
  moreover have "\<exists>sp. indexed_spec ?db k i sp" if ki: "dict_get (cr_idempotency_index ?db) k = Some i" for k i
  proof (cases "k = index_key spec")
    case True
    with ki spec have "indexed_spec ?db k i spec"
      by (simp add: indexed_spec_def started_state_def initial_snapshot_def)
    then show ?thesis ..
  next
    case False
    with ki have "dict_get (cr_idempotency_index db) k = Some i" by (simp add: started_state_def)
    with db obtain sp where sp: "indexed_spec db k i sp" unfolding db_ok_def by blast
    with fresh have "i \<noteq> sp_id spec" by (auto simp: indexed_spec_def)
    with sp have "indexed_spec ?db k i sp" by (simp add: indexed_spec_def started_state_def)
    then show ?thesis ..
  qed
  ultimately show ?thesis using db by (simp add: db_ok_def started_state_def distinct_keys_set)
qed

lemma start_ok:
  assumes "db_ok db" and "spec_ok spec" and "dict_get (cr_snapshots db) (sp_id spec) = None"
  shows "db_ok (snd (start ids now db spec))"
proof (cases "dict_get (cr_idempotency_index db) (index_key spec)")
  case None
  then show ?thesis
    using started_state_ok [OF assms(1,2) _ assms(3) None] start_new [OF None, of now ids] start_naive_clock [OF None, of now ids] assms(1)
    by (cases "aware now") auto
next
  case (Some i)
  from start_taken [OF assms(1,2) Some, of ids now] assms(1) show ?thesis by auto
qed

section \<open>Cancel: what each status gives\<close>

definition moved :: "execution_snapshot \<Rightarrow> execution_status \<Rightarrow> int \<Rightarrow> datetime \<Rightarrow> execution_snapshot" where
  "moved s st n now = s\<lparr>sn_status := st, sn_revision := sn_revision s + n, sn_updated_at := now\<rparr>"

definition cancel_steps :: "execution_snapshot \<Rightarrow> datetime \<Rightarrow> (execution_status \<times> execution_snapshot) list" where
  "cancel_steps s now = (if sn_status s = CANCELLING then [(CANCELLING, moved s CANCELLED 1 now)]
     else [(sn_status s, moved s CANCELLING 1 now), (CANCELLING, moved s CANCELLED 2 now)])"

lemma moved_simps [simp]:
  "sn_execution_id (moved s st n now) = sn_execution_id s" "sn_scope (moved s st n now) = sn_scope s"
  "sn_status (moved s st n now) = st" "sn_revision (moved s st n now) = sn_revision s + n"
  "sn_updated_at (moved s st n now) = now"
  by (simp_all add: moved_def)

lemma moved_ok: "snapshot_ok s \<Longrightarrow> aware now \<Longrightarrow> 0 \<le> n \<Longrightarrow> snapshot_ok (moved s st n now)"
  by (simp add: snapshot_ok_def moved_def)

lemma cancel_transitions_eq:
  assumes "snapshot_ok s" and "aware now"
  shows "cancel_transitions s now =
    (if sn_status s \<in> {CANCELLED, FAILED} then Inr []
     else if sn_status s \<in> {SUCCEEDED, COMPENSATING} then Inl InvalidExecutionTransition
     else Inr (cancel_steps s now))"
proof -
  have mk: "snapshot_ok t \<Longrightarrow> mk_execution_snapshot t = Inr t" for t by (simp add: mk_execution_snapshot_Inr)
  from assms show ?thesis
    by (cases "sn_status s")
       (simp_all add: cancel_transitions_def cancel_steps_def can_transition_execution_def moved_def mk snapshot_ok_def)
qed

text \<open>Every step of a cancellation is legal and moves the revision by one.\<close>

fun legal_steps :: "execution_snapshot \<Rightarrow> (execution_status \<times> execution_snapshot) list \<Rightarrow> bool" where
  "legal_steps s [] = True"
| "legal_steps s ((p, t) # ts) = (p = sn_status s \<and> can_transition_execution p (sn_status t)
     \<and> sn_revision t = sn_revision s + 1 \<and> sn_execution_id t = sn_execution_id s \<and> sn_scope t = sn_scope s \<and> legal_steps t ts)"

lemma cancel_steps_legal:
  "sn_status s \<notin> {CANCELLED, FAILED, SUCCEEDED, COMPENSATING} \<Longrightarrow> legal_steps s (cancel_steps s now)"
  by (cases "sn_status s") (auto simp: cancel_steps_def can_transition_execution_def)

definition transition_events ::
    "(nat \<Rightarrow> event_id) \<Rightarrow> nat \<Rightarrow> correlation_id \<Rightarrow> (execution_status \<times> execution_snapshot) list \<Rightarrow> event_envelope list" where
  "transition_events ids n c ts =
     map (\<lambda>(k, (p, t)). status_changed_event (ids k) c None (Some p) t) (zip [n..<n + length ts] ts)"

lemma transition_events_Cons:
  "transition_events ids n c ((p, t) # ts) =
     status_changed_event (ids n) c None (Some p) t # transition_events ids (Suc n) c ts"
  by (simp add: transition_events_def upt_rec)

lemma emit_all_eq:
  assumes "\<forall>(p, t) \<in> set ts. 0 < sn_revision t \<and> aware (sn_updated_at t)"
  shows "emit_all ids n c ts db outbox =
    Inr (foldl commit_snapshot db (map snd ts), outbox @ transition_events ids n c ts)"
  using assms
proof (induction ids n c ts db outbox rule: emit_all.induct)
  case (2 ids n c p t ts db outbox)
  then have "emit_transition (ids n) outbox c None (Some p) t
      = Inr (outbox @ [status_changed_event (ids n) c None (Some p) t])"
    by (simp add: emit_transition_def outbox_publish_def build_event_Inr [THEN iffD2])
  with 2 show ?case by (simp add: transition_events_Cons)
qed (simp add: transition_events_def)

text \<open>The state after the steps: the last snapshot in place, the events at the end of the outbox.\<close>

definition cancelled_state :: "(nat \<Rightarrow> event_id) \<Rightarrow> datetime \<Rightarrow> committed_runtime_state \<Rightarrow> execution_snapshot \<Rightarrow> committed_runtime_state" where
  "cancelled_state ids now db s = db\<lparr>
     cr_snapshots := dict_set (sn_execution_id s) (snd (last (cancel_steps s now))) (cr_snapshots db),
     cr_outbox_events := cr_outbox_events db
       @ transition_events ids 0 (CorrelationId (execution_uuid (sn_execution_id s))) (cancel_steps s now)\<rparr>"

definition cancel_result :: "execution_snapshot \<Rightarrow> datetime \<Rightarrow> execution_snapshot res" where
  "cancel_result s now =
     (if sn_status s \<in> {CANCELLED, FAILED} then Inr s
      else if sn_status s \<in> {SUCCEEDED, COMPENSATING} then Inl InvalidExecutionTransition
      else Inr (moved s CANCELLED (if sn_status s = CANCELLING then 1 else 2) now))"

lemma last_cancel_step:
  "snd (last (cancel_steps s now)) = moved s CANCELLED (if sn_status s = CANCELLING then 1 else 2) now"
  by (simp add: cancel_steps_def)

lemma dict_set_twice: "dict_set k v (dict_set k u d) = dict_set k v d"
  by (induction d) auto

lemma cancel_found:
  assumes "db_ok db" and "aware now" and s: "dict_get (cr_snapshots db) i = Some s" "sn_scope s = scope"
  shows "cancel ids now db scope i key = (cancel_result s now,
    if sn_status s \<in> {CANCELLED, FAILED, SUCCEEDED, COMPENSATING} then db else cancelled_state ids now db s)"
proof -
  have ok: "snapshot_ok s" "sn_execution_id s = i" using assms(1) s(1) by (auto simp: db_ok_def snapshots_ok_def)
  have look: "snapshot_for_scope db scope i = Inr s" using s by simp
  note tr = cancel_transitions_eq [OF ok(1) assms(2)]
  show ?thesis
  proof (cases "sn_status s \<in> {CANCELLED, FAILED, SUCCEEDED, COMPENSATING}")
    case True
    then show ?thesis
      by (auto simp: cancel_def db_write_def cancel_callback_def look tr cancel_result_def db_read_def)
  next
    case False
    have "\<forall>(p, t) \<in> set (cancel_steps s now). 0 < sn_revision t \<and> aware (sn_updated_at t)"
      using ok(1) assms(2) by (auto simp: cancel_steps_def snapshot_ok_def)
    note em = emit_all_eq [OF this]
    have fold: "foldl commit_snapshot db (map snd (cancel_steps s now))
        = db\<lparr>cr_snapshots := dict_set i (snd (last (cancel_steps s now))) (cr_snapshots db)\<rparr>"
      using ok(2) by (simp add: cancel_steps_def commit_snapshot_def dict_set_twice)
    have ne: "cancel_steps s now \<noteq> []" by (simp add: cancel_steps_def)
    have w: "db_write db (cancel_callback ids now scope i) = (Inr (), cancelled_state ids now db s)"
      using False ne ok(2)
      by (simp add: db_write_def cancel_callback_def look tr em fold cancelled_state_def)
    have "snapshot_for_scope (cancelled_state ids now db s) scope i = cancel_result s now"
      using False ok(2) s(2) by (simp add: snapshot_for_scope_def cancelled_state_def cancel_result_def last_cancel_step)
    with w False show ?thesis by (simp add: cancel_def db_read_def)
  qed
qed

lemma cancel_missing:
  assumes "snapshot_for_scope db scope i = Inl e"
  shows "cancel ids now db scope i key = (Inl ExecutionNotFound, db)"
proof -
  have "e = ExecutionNotFound" using assms by (simp add: snapshot_for_scope_Inl)
  with assms show ?thesis by (simp add: cancel_def db_write_def cancel_callback_def)
qed

lemma cancelled_state_ok:
  assumes "db_ok db" and "aware now" and s: "dict_get (cr_snapshots db) i = Some s"
  shows "db_ok (cancelled_state ids now db s)"
proof -
  have ok: "snapshot_ok s" "sn_execution_id s = i" using assms(1) s(1) by (auto simp: db_ok_def snapshots_ok_def)
  define t where "t = moved s CANCELLED (if sn_status s = CANCELLING then 1 else 2) now"
  have t: "snapshot_ok t" "sn_execution_id t = i" "sn_scope t = sn_scope s"
    using moved_ok [OF ok(1) assms(2)] ok(2) by (auto simp: t_def)
  have snaps: "cr_snapshots (cancelled_state ids now db s) = dict_set i t (cr_snapshots db)"
    using ok(2) by (simp add: cancelled_state_def last_cancel_step t_def)
  have "snapshots_ok (dict_set i t (cr_snapshots db))"
    using snapshots_ok_set [of _ t] t assms(1) by (simp add: db_ok_def)
  moreover have "indexed_spec (cancelled_state ids now db s) k j sp" if "indexed_spec db k j sp" for k j sp
    using that s t(3) unfolding indexed_spec_def snaps by (auto simp: cancelled_state_def)
  moreover have "cr_idempotency_index (cancelled_state ids now db s) = cr_idempotency_index db"
    by (simp add: cancelled_state_def)
  ultimately show ?thesis
    using assms(1) unfolding db_ok_def snaps by metis
qed

lemma cancel_ok:
  assumes "db_ok db" and "aware now"
  shows "db_ok (snd (cancel ids now db scope i key))"
proof (cases "snapshot_for_scope db scope i")
  case (Inl e)
  with assms(1) show ?thesis by (simp add: cancel_missing)
next
  case (Inr s)
  with cancel_found [OF assms, of i s scope ids key] cancelled_state_ok [OF assms, of i s ids] assms(1)
  show ?thesis by auto
qed

section \<open>Lifecycle\<close>

text \<open>
  The lock of the database makes every write one step. Between the writes of one
  caller any steps of others may come: a start, a cancellation, or the progress
  of an execution by one legal transition.
\<close>

inductive orch_step :: "committed_runtime_state \<Rightarrow> committed_runtime_state \<Rightarrow> bool" where
  start: "spec_ok spec \<Longrightarrow> aware now \<Longrightarrow> dict_get (cr_snapshots db) (sp_id spec) = None \<Longrightarrow>
    orch_step db (snd (start ids now db spec))"
| cancel: "aware now \<Longrightarrow> orch_step db (snd (cancel ids now db scope i key))"
| progress: "dict_get (cr_snapshots db) i = Some s \<Longrightarrow> can_transition_execution (sn_status s) st \<Longrightarrow> aware now \<Longrightarrow>
    orch_step db (replace_snapshot_for_tests db (moved s st 1 now))"

inductive_cases orch_step_cases: "orch_step db db'"

inductive orch_steps :: "committed_runtime_state \<Rightarrow> committed_runtime_state \<Rightarrow> bool" where
  refl: "orch_steps db db"
| trans: "orch_steps db db' \<Longrightarrow> orch_step db' db'' \<Longrightarrow> orch_steps db db''"

lemma progress_ok:
  assumes "db_ok db" and s: "dict_get (cr_snapshots db) i = Some s" and "aware now"
  shows "db_ok (replace_snapshot_for_tests db (moved s st 1 now))"
proof -
  let ?t = "moved s st 1 now"
  have ok: "snapshot_ok s" "sn_execution_id s = i" using assms(1) s(1) by (auto simp: db_ok_def snapshots_ok_def)
  have snaps: "cr_snapshots (replace_snapshot_for_tests db ?t) = dict_set i ?t (cr_snapshots db)"
    using ok(2) by (simp add: replace_snapshot_for_tests_def)
  have "snapshots_ok (dict_set i ?t (cr_snapshots db))"
    using snapshots_ok_set [of "cr_snapshots db" ?t] moved_ok [OF ok(1) assms(3)] ok(2) assms(1) by (simp add: db_ok_def)
  moreover have "indexed_spec (replace_snapshot_for_tests db ?t) k j sp" if "indexed_spec db k j sp" for k j sp
    using that s unfolding indexed_spec_def snaps by (auto simp: replace_snapshot_for_tests_def)
  moreover have "cr_idempotency_index (replace_snapshot_for_tests db ?t) = cr_idempotency_index db"
    by (simp add: replace_snapshot_for_tests_def)
  ultimately show ?thesis using assms(1) unfolding db_ok_def snaps by metis
qed

lemma orch_step_ok: "orch_step db db' \<Longrightarrow> db_ok db \<Longrightarrow> db_ok db'"
  by (induction rule: orch_step.induct) (auto intro: start_ok cancel_ok progress_ok)

lemma orch_steps_ok: "orch_steps db db' \<Longrightarrow> db_ok db \<Longrightarrow> db_ok db'"
  by (induction rule: orch_steps.induct) (auto intro: orch_step_ok)

text \<open>
  What no step undoes: a key keeps its execution, an execution keeps its scope,
  its revision never goes back and its status only moves along legal transitions.
\<close>

definition later :: "execution_snapshot \<Rightarrow> execution_snapshot \<Rightarrow> bool" where
  "later s t \<longleftrightarrow> sn_execution_id t = sn_execution_id s \<and> sn_scope t = sn_scope s
     \<and> sn_revision s \<le> sn_revision t \<and> execution_path (sn_status s) (sn_status t)"

definition evolves :: "committed_runtime_state \<Rightarrow> committed_runtime_state \<Rightarrow> bool" where
  "evolves db db' \<longleftrightarrow>
     (\<forall>k i. dict_get (cr_idempotency_index db) k = Some i \<longrightarrow> dict_get (cr_idempotency_index db') k = Some i)
   \<and> (\<forall>i s. dict_get (cr_snapshots db) i = Some s \<longrightarrow> (\<exists>t. dict_get (cr_snapshots db') i = Some t \<and> later s t))"

lemma execution_path_trans: "execution_path t u \<Longrightarrow> execution_path s t \<Longrightarrow> execution_path s u"
  by (induction rule: execution_path.induct) (auto intro: execution_path.step)

lemma later_refl [simp]: "later s s"
  by (simp add: later_def execution_path.here)

lemma later_trans: "later s t \<Longrightarrow> later t u \<Longrightarrow> later s u"
  by (auto simp: later_def intro: execution_path_trans)

lemma evolves_refl [simp]: "evolves db db"
  by (auto simp: evolves_def intro: later_refl)

lemma evolves_trans: "evolves a b \<Longrightarrow> evolves b c \<Longrightarrow> evolves a c"
  unfolding evolves_def by (meson later_trans)

lemma evolves_set:
  assumes "dict_get (cr_snapshots db) i = Some s" and "later s t"
    and "cr_snapshots db' = dict_set i t (cr_snapshots db)" and "cr_idempotency_index db' = cr_idempotency_index db"
  shows "evolves db db'"
  unfolding evolves_def assms(3,4) using assms(1,2) by (auto intro: later_refl)

lemma moved_later: "can_transition_execution (sn_status s) st \<Longrightarrow> later s (moved s st 1 now)"
  by (auto simp: later_def intro: execution_path.intros)

lemma cancelled_later:
  assumes "sn_status s \<notin> {CANCELLED, FAILED, SUCCEEDED, COMPENSATING}"
  shows "later s (moved s CANCELLED (if sn_status s = CANCELLING then 1 else 2) now)"
  using assms path_to_cancelled [of "sn_status s"] by (auto simp: later_def terminal_def)

lemma start_evolves:
  assumes "db_ok db" and "spec_ok spec" and "aware now" and "dict_get (cr_snapshots db) (sp_id spec) = None"
  shows "evolves db (snd (start ids now db spec))"
proof (cases "dict_get (cr_idempotency_index db) (index_key spec)")
  case None
  have "evolves db (started_state ids now db spec)"
    unfolding evolves_def using None assms(4) by (auto simp: started_state_def intro: later_refl)
  then show ?thesis by (simp add: start_new [OF None assms(3)])
next
  case (Some i)
  from start_taken [OF assms(1,2) Some, of ids now] show ?thesis by auto
qed

lemma cancel_evolves:
  assumes "db_ok db" and "aware now"
  shows "evolves db (snd (cancel ids now db scope i key))"
proof (cases "snapshot_for_scope db scope i")
  case (Inl e)
  then show ?thesis by (simp add: cancel_missing)
next
  case (Inr s)
  then have s: "dict_get (cr_snapshots db) i = Some s" "sn_scope s = scope" by auto
  then have i: "sn_execution_id s = i" using assms(1) by (auto simp: db_ok_def snapshots_ok_def)
  have "evolves db (cancelled_state ids now db s)" if "sn_status s \<notin> {CANCELLED, FAILED, SUCCEEDED, COMPENSATING}"
    by (rule evolves_set [OF s(1) cancelled_later [OF that, of now]])
       (simp_all add: cancelled_state_def last_cancel_step i)
  with cancel_found [OF assms s, of ids key] show ?thesis by simp
qed

lemma orch_step_evolves: "orch_step db db' \<Longrightarrow> db_ok db \<Longrightarrow> evolves db db'"
proof (induction rule: orch_step.induct)
  case (progress db i s st now)
  then have "sn_execution_id s = i" by (auto simp: db_ok_def snapshots_ok_def)
  with progress show ?case
    by (intro evolves_set [OF progress(1) moved_later]) (simp_all add: replace_snapshot_for_tests_def)
qed (auto intro: start_evolves cancel_evolves)

lemma orch_steps_evolves: "orch_steps db db' \<Longrightarrow> db_ok db \<Longrightarrow> evolves db db'"
proof (induction rule: orch_steps.induct)
  case (trans db db' db'')
  then show ?case using orch_step_evolves orch_steps_ok evolves_trans by metis
qed simp

text \<open>
  A cancellation that returned is final: whatever happens next, the execution is
  found in its scope and still cancelled (or failed, when it had failed before).
\<close>

lemma cancel_final:
  assumes "db_ok db" and "aware now" and "cancel ids now db scope i key = (Inr s, db')" and "orch_steps db' db''"
  shows "\<exists>t. get_snapshot db'' scope i = Inr t \<and> sn_status t = sn_status s \<and> sn_status s \<in> {CANCELLED, FAILED}"
proof -
  have ok: "db_ok db'" using cancel_ok [OF assms(1,2), of ids scope i key] assms(3) by simp
  have s: "dict_get (cr_snapshots db') i = Some s \<and> sn_scope s = scope \<and> sn_status s \<in> {CANCELLED, FAILED}"
  proof (cases "snapshot_for_scope db scope i")
    case (Inl e)
    then show ?thesis using assms(3) by (simp add: cancel_missing)
  next
    case (Inr old)
    then have old: "dict_get (cr_snapshots db) i = Some old" "sn_scope old = scope" by auto
    then have "sn_execution_id old = i" using assms(1) by (auto simp: db_ok_def snapshots_ok_def)
    with cancel_found [OF assms(1,2) old, of ids key] assms(3) old show ?thesis
      by (auto simp: cancel_result_def cancelled_state_def last_cancel_step split: if_splits)
  qed
  with orch_steps_evolves [OF assms(4) ok] obtain t where
    t: "dict_get (cr_snapshots db'') i = Some t" "later s t" unfolding evolves_def by blast
  have "sn_status t = sn_status s" using t(2) s terminal_final by (auto simp: later_def terminal_def)
  with s t show ?thesis by (auto simp: get_snapshot_def db_read_def snapshot_for_scope_def later_def)
qed

text \<open>After a start has written, its read finds the execution, whatever came in between.\<close>

lemma start_read_found:
  assumes "db_ok db" and "spec_ok spec" and "dict_get (cr_snapshots db) (sp_id spec) = None"
    and "db_write db (start_callback ids now spec) = (Inr u, db')" and "orch_steps db' db''"
  shows "\<exists>i s. dict_get (cr_idempotency_index db'') (index_key spec) = Some i
    \<and> snapshot_for_scope db'' (sp_scope spec) i = Inr s"
proof -
  have st: "snd (start ids now db spec) = db'" using assms(4) by (simp add: start_def)
  have ok: "db_ok db'" using start_ok [OF assms(1-3), of ids now] st by simp
  have ran: "\<exists>s. fst (start ids now db spec) = Inr s"
  proof (cases "dict_get (cr_idempotency_index db) (index_key spec)")
    case None
    have "aware now"
    proof (rule ccontr)
      assume "\<not> aware now"
      with None assms(4) show False
        by (simp add: db_write_def start_callback_def mk_execution_snapshot_def initial_snapshot_def require_aware_def)
    qed
    then show ?thesis by (simp add: start_new [OF None])
  next
    case (Some i)
    from start_taken [OF assms(1,2) Some, of ids now] obtain old s where
      "dict_get (cr_snapshots db) i = Some s" "indexed_spec db (index_key spec) i old"
      "start ids now db spec = ((if same_request old spec then Inr s else Inl ExecutionIdempotencyConflict), db)"
      by blast
    moreover have "same_request old spec"
    proof (rule ccontr)
      assume "\<not> same_request old spec"
      with fingerprint_same_request [of old spec] assms(2) \<open>indexed_spec db (index_key spec) i old\<close>
      have "\<not> fps_eq (spec_fingerprint old) (spec_fingerprint spec)" by (auto simp: indexed_spec_def)
      with assms(4) Some \<open>indexed_spec db (index_key spec) i old\<close> show False
        by (auto simp: db_write_def start_callback_def indexed_spec_def)
    qed
    ultimately show ?thesis by simp
  qed
  then obtain i s where found: "dict_get (cr_idempotency_index db') (index_key spec) = Some i"
    "dict_get (cr_snapshots db') i = Some s" "sn_scope s = sp_scope spec"
    using assms(4) by (auto simp: start_def db_read_def bindE_eq_Inr)
  from orch_steps_evolves [OF assms(5) ok] found obtain t where
    "dict_get (cr_idempotency_index db'') (index_key spec) = Some i" "dict_get (cr_snapshots db'') i = Some t" "later s t"
    unfolding evolves_def by blast
  with found(3) show ?thesis by (auto simp: later_def)
qed

section \<open>Properties\<close>

text \<open>The states that the orchestrator reaches from the empty one, and an example of them.\<close>

definition reachable_runtime :: "committed_runtime_state \<Rightarrow> bool" where
  "reachable_runtime db \<longleftrightarrow> orch_steps empty_runtime_state db"

lemma reachable_ok: "reachable_runtime db \<Longrightarrow> db_ok db"
  unfolding reachable_runtime_def using orch_steps_ok empty_db_ok by blast

definition sample_db :: committed_runtime_state where
  "sample_db = started_state sample_event_ids sample_time empty_runtime_state (sample_spec (ExecutionId (UUID 7)))"

lemma sample_started:
  "start sample_event_ids sample_time empty_runtime_state (sample_spec (ExecutionId (UUID 7)))
    = (Inr (initial_snapshot (sample_spec (ExecutionId (UUID 7))) sample_time), sample_db)"
  unfolding sample_db_def by (rule start_new) (simp_all add: empty_runtime_state_def sample_time_facts)

lemma sample_reachable: "reachable_runtime sample_db"
proof -
  have "orch_step empty_runtime_state
      (snd (start sample_event_ids sample_time empty_runtime_state (sample_spec (ExecutionId (UUID 7)))))"
    by (rule orch_step.start) (simp_all add: sample_time_facts empty_runtime_state_def)
  then show ?thesis
    unfolding reachable_runtime_def using orch_steps.trans [OF orch_steps.refl] by (simp add: sample_started)
qed

lemma sample_snapshot:
  "dict_get (cr_snapshots sample_db) (ExecutionId (UUID 7))
     = Some (initial_snapshot (sample_spec (ExecutionId (UUID 7))) sample_time)"
  "sn_scope (initial_snapshot (sample_spec i) t) = sample_scope"
  "sn_status (initial_snapshot (sample_spec i) t) = PENDING"
  "dict_get (cr_idempotency_index sample_db) (index_key (sample_spec i)) = Some (ExecutionId (UUID 7))"
  by (simp_all add: sample_db_def started_state_def sample_spec_def initial_snapshot_def index_key_def)

text \<open>
  C2. A cancellation that returned is final. In every state the orchestrator can
  reach, when \<open>cancel\<close> returns a snapshot, every later state (whatever starts,
  cancellations and legal transitions of other callers follow) still gives this
  execution in its scope, with the terminal status that the cancellation returned.
\<close>

theorem cancel_is_final:
  assumes "reachable_runtime db" and "aware now"
    and "cancel ids now db scope i key = (Inr s, db')" and "orch_steps db' db''"
  shows "\<exists>t. get_snapshot db'' scope i = Inr t \<and> sn_status t = sn_status s \<and> sn_status s \<in> {CANCELLED, FAILED}"
  by (rule cancel_final [OF reachable_ok [OF assms(1)] assms(2-4)])

theorem cancel_is_final_witness:
  "\<exists>s db'. cancel sample_event_ids sample_time sample_db sample_scope (ExecutionId (UUID 7)) ''c'' = (Inr s, db')
    \<and> (\<exists>t. get_snapshot db' sample_scope (ExecutionId (UUID 7)) = Inr t \<and> sn_status t = sn_status s
        \<and> sn_status s \<in> {CANCELLED, FAILED})"
proof -
  note c = cancel_found [OF reachable_ok [OF sample_reachable] sample_time_facts(1) sample_snapshot(1,2),
      of sample_event_ids "''c''"]
  obtain s db' where r: "cancel sample_event_ids sample_time sample_db sample_scope (ExecutionId (UUID 7)) ''c'' = (Inr s, db')"
    using c by (auto simp: cancel_result_def sample_snapshot)
  from cancel_is_final [OF sample_reachable sample_time_facts(1) r orch_steps.refl] r show ?thesis by blast
qed

text \<open>
  C5. \<open>cancel\<close> on every branch. An execution that is missing or belongs to
  another scope is not found. One that is cancelled or failed is returned as it is,
  one that succeeded or compensates is refused, both without a change. Any other is
  moved to cancelled, through cancelling when it was not there yet: every step is a
  legal transition that raises the revision by one, and publishes one event.
\<close>

theorem cancel_on_every_branch:
  assumes "reachable_runtime db" and "aware now"
  shows "cancel ids now db scope i key = (case dict_get (cr_snapshots db) i of
      None \<Rightarrow> (Inl ExecutionNotFound, db)
    | Some s \<Rightarrow>
        if sn_scope s \<noteq> scope then (Inl ExecutionNotFound, db)
        else if sn_status s \<in> {CANCELLED, FAILED} then (Inr s, db)
        else if sn_status s \<in> {SUCCEEDED, COMPENSATING} then (Inl InvalidExecutionTransition, db)
        else (Inr (snd (last (cancel_steps s now))), cancelled_state ids now db s))
    \<and> (\<forall>s. sn_status s \<notin> {CANCELLED, FAILED, SUCCEEDED, COMPENSATING} \<longrightarrow> legal_steps s (cancel_steps s now))"
proof (intro conjI)
  note ok = reachable_ok [OF assms(1)]
  show "cancel ids now db scope i key = (case dict_get (cr_snapshots db) i of
      None \<Rightarrow> (Inl ExecutionNotFound, db)
    | Some s \<Rightarrow>
        if sn_scope s \<noteq> scope then (Inl ExecutionNotFound, db)
        else if sn_status s \<in> {CANCELLED, FAILED} then (Inr s, db)
        else if sn_status s \<in> {SUCCEEDED, COMPENSATING} then (Inl InvalidExecutionTransition, db)
        else (Inr (snd (last (cancel_steps s now))), cancelled_state ids now db s))"
  proof (cases "snapshot_for_scope db scope i")
    case (Inl e)
    then show ?thesis
      using cancel_missing [OF Inl] by (auto simp: snapshot_for_scope_Inl split: option.splits)
  next
    case (Inr t)
    then show ?thesis
      using cancel_found [OF ok assms(2), of i t scope ids key]
      by (auto simp: cancel_result_def last_cancel_step)
  qed
qed (use cancel_steps_legal in blast)

theorem cancel_on_every_branch_witness:
  "cancel sample_event_ids sample_time sample_db sample_scope (ExecutionId (UUID 8)) ''c'' = (Inl ExecutionNotFound, sample_db)
   \<and> fst (cancel sample_event_ids sample_time sample_db sample_scope (ExecutionId (UUID 7)) ''c'')
     = Inr (snd (last (cancel_steps (initial_snapshot (sample_spec (ExecutionId (UUID 7))) sample_time) sample_time)))"
proof -
  have "dict_get (cr_snapshots sample_db) (ExecutionId (UUID 8)) = None"
    by (simp add: sample_db_def started_state_def sample_spec_def empty_runtime_state_def)
  then show ?thesis
    by (simp add: cancel_on_every_branch [OF sample_reachable sample_time_facts(1), THEN conjunct1] sample_snapshot)
qed

text \<open>
  C6. \<open>start\<close> on every branch. A key that is free creates the execution in its
  first revision, with the fingerprint of the request, or fails without a change
  when the clock is naive. A key that is taken finds the execution that was started
  under it when the two specifications are the same request (dates compared as
  instants), and is a conflict otherwise; neither changes the state.
\<close>

theorem start_on_every_branch:
  assumes "reachable_runtime db" and "spec_ok spec"
  shows "case dict_get (cr_idempotency_index db) (index_key spec) of
      None \<Rightarrow> start ids now db spec = (if aware now
          then (Inr (initial_snapshot spec now), started_state ids now db spec)
          else (Inl (ValueError ''updated_at must be timezone-aware''), db))
    | Some i \<Rightarrow> \<exists>old s. indexed_spec db (index_key spec) i old \<and> dict_get (cr_snapshots db) i = Some s
        \<and> sn_execution_id s = i
        \<and> start ids now db spec = ((if same_request old spec then Inr s else Inl ExecutionIdempotencyConflict), db)"
proof (cases "dict_get (cr_idempotency_index db) (index_key spec)")
  case None
  then show ?thesis using start_new [OF None] start_naive_clock [OF None] by simp
next
  case (Some i)
  show ?thesis unfolding Some option.case by (rule start_taken [OF reachable_ok [OF assms(1)] assms(2) Some])
qed

theorem start_on_every_branch_witness:
  "\<exists>r. start sample_event_ids sample_time sample_db (sample_spec (ExecutionId (UUID 9))) = (r, sample_db)"
  using start_on_every_branch [OF sample_reachable sample_spec_ok,
      of sample_event_ids sample_time "ExecutionId (UUID 9)"]
  by (auto simp: sample_snapshot(4))

text \<open>
  C7. What every step keeps. In a reachable state each snapshot is filed under its
  own identifier and well formed, and every key leads to the execution and the
  fingerprint it started; and no step takes a key from its execution, moves an
  execution to another scope, lowers its revision or makes an illegal transition.
\<close>

theorem steps_keep_executions:
  assumes "reachable_runtime db" and "orch_steps db db'"
  shows "db_ok db' \<and> evolves db db'"
  using orch_steps_ok [OF assms(2)] orch_steps_evolves [OF assms(2)] reachable_ok [OF assms(1)] by blast

theorem steps_keep_executions_witness:
  "db_ok sample_db \<and> evolves empty_runtime_state sample_db"
  using steps_keep_executions [of empty_runtime_state sample_db] sample_reachable
  by (simp add: reachable_runtime_def orch_steps.refl)

text \<open>
  Starting an execution drops the outbox: whatever events the state held, after
  a start that creates an execution the outbox holds the event of that start alone.
\<close>

theorem start_replaces_outbox:
  assumes "dict_get (cr_idempotency_index db) (index_key spec) = None" and "aware now"
  shows "cr_outbox_events (snd (start ids now db spec)) =
    [status_changed_event (ids 0) (CorrelationId (execution_uuid (sp_id spec))) None None (initial_snapshot spec now)]"
  by (simp add: start_new [OF assms] started_state_def)

definition other_spec :: execution_spec where
  "other_spec = (sample_spec (ExecutionId (UUID 9)))\<lparr>sp_idempotency_key := ''start-2''\<rparr>"

theorem start_replaces_outbox_witness:
  "length (cr_outbox_events sample_db) = 1
   \<and> length (cr_outbox_events (snd (start sample_event_ids sample_time sample_db other_spec))) = 1
   \<and> length (cr_snapshots (snd (start sample_event_ids sample_time sample_db other_spec))) = 2"
proof -
  have free: "dict_get (cr_idempotency_index sample_db) (index_key other_spec) = None"
    by (simp add: sample_db_def started_state_def index_key_def other_spec_def sample_spec_def empty_runtime_state_def)
  show ?thesis
    using start_replaces_outbox [OF free sample_time_facts(1), of sample_event_ids] start_new [OF free sample_time_facts(1)]
    by (simp add: sample_db_def started_state_def empty_runtime_state_def other_spec_def sample_spec_def)
qed

text \<open>
  The snapshot a start returns is read in a second step, after the lock was
  released. Whatever other callers do in between, the read finds the execution.
\<close>

theorem start_reads_its_execution:
  assumes "reachable_runtime db" and "spec_ok spec" and "dict_get (cr_snapshots db) (sp_id spec) = None"
    and "db_write db (start_callback ids now spec) = (Inr u, db')" and "orch_steps db' db''"
  shows "\<exists>i s. dict_get (cr_idempotency_index db'') (index_key spec) = Some i
    \<and> snapshot_for_scope db'' (sp_scope spec) i = Inr s"
  by (rule start_read_found [OF reachable_ok [OF assms(1)] assms(2-5)])

theorem start_reads_its_execution_witness:
  "\<exists>i s. dict_get (cr_idempotency_index sample_db) (index_key (sample_spec (ExecutionId (UUID 7)))) = Some i
    \<and> snapshot_for_scope sample_db (sp_scope (sample_spec (ExecutionId (UUID 7)))) i = Inr s"
proof -
  let ?w = "db_write empty_runtime_state (start_callback sample_event_ids sample_time (sample_spec (ExecutionId (UUID 7))))"
  have "snd ?w = sample_db" using sample_started by (simp add: start_def split: prod.splits sum.splits)
  moreover obtain u where "fst ?w = Inr u"
    using sample_started by (cases ?w; cases "fst ?w") (auto simp: start_def)
  ultimately have w: "?w = (Inr u, sample_db)" by (cases ?w) simp
  have "reachable_runtime empty_runtime_state" by (simp add: reachable_runtime_def orch_steps.refl)
  from start_reads_its_execution [OF this sample_spec_ok _ w orch_steps.refl] show ?thesis
    by (simp add: empty_runtime_state_def)
qed

end
