(* ===== verification/Codec.thy ===== *)
theory Codec
  imports Runtime_Orchestrator Rows
begin

text \<open>
  The JSON codec of execution snapshots and fingerprints
  (\<open>runtime/adapters/shared/snapshot_codec.py\<close>), which the relational store and the
  workflow payloads share. JSON documents are the plain values of \<open>pyval\<close>.
\<close>

section \<open>Reading JSON\<close>

fun require_mapping :: "pyval \<Rightarrow> string \<Rightarrow> (pyval \<times> pyval) list res" where
  "require_mapping (VDict kvs) field_name = Inr kvs"
| "require_mapping v field_name = Inl (TypeError (field_name @ '' must be a mapping''))"

fun require_str :: "pyval \<Rightarrow> string \<Rightarrow> string res" where
  "require_str (VStr s) field_name = Inr s"
| "require_str v field_name = Inl (TypeError (field_name @ '' must be a string''))"

fun require_int :: "pyval \<Rightarrow> string \<Rightarrow> int res" where
  "require_int (VInt n) field_name = Inr n"
| "require_int v field_name = Inl (TypeError (field_name @ '' must be an integer''))"

text \<open>The identifier classes are applied by the callers.\<close>

definition parse_uuid_value :: "pyval \<Rightarrow> string \<Rightarrow> uuid res" where
  "parse_uuid_value v field_name = bindE (require_str v field_name) parse_uuid"

text \<open>\<open>mapping.get(key)\<close>\<close>

definition vget_none :: "pyval \<Rightarrow> string \<Rightarrow> pyval" where
  "vget_none v key = (case vget v key of None \<Rightarrow> VNone | Some x \<Rightarrow> x)"

definition parse_optional_uuid_value :: "pyval \<Rightarrow> string \<Rightarrow> uuid option res" where
  "parse_optional_uuid_value v field_name =
     (if v = VNone then Inr None else bindE (parse_uuid_value v field_name) (\<lambda>u. Inr (Some u)))"

definition parse_datetime :: "pyval \<Rightarrow> string \<Rightarrow> datetime res" where
  "parse_datetime v field_name =
     bindE (require_str v field_name) (\<lambda>text.
     bindE (fromisoformat text) (\<lambda>parsed.
     bindE (raise_if (\<not> aware parsed) (ValueError (field_name @ '' must be timezone-aware''))) (\<lambda>_. Inr parsed)))"

definition parse_optional_datetime :: "pyval \<Rightarrow> string \<Rightarrow> datetime option res" where
  "parse_optional_datetime v field_name =
     (if v = VNone then Inr None else bindE (parse_datetime v field_name) (\<lambda>d. Inr (Some d)))"

section \<open>Scopes\<close>

definition scope_to_payload :: "memory_scope \<Rightarrow> pyval" where
  "scope_to_payload s = obj
     [(''tenant_id'', VStr (uuid_text (tenant_uuid (ms_tenant_id s)))),
      (''subject_id'', VStr (uuid_text (subject_uuid (ms_subject_id s)))),
      (''workspace_id'', opt_val VStr (ms_workspace_id s)),
      (''agent_id'', opt_val (\<lambda>a. VStr (uuid_text (agent_instance_uuid a))) (ms_agent_id s))]"

text \<open>The workspace is cast, not checked: the scope's constructor calls \<open>strip\<close> on it.\<close>

fun cast_workspace :: "pyval \<Rightarrow> string option res" where
  "cast_workspace VNone = Inr None"
| "cast_workspace (VStr s) = Inr (Some s)"
| "cast_workspace v = Inl AttributeError"

definition scope_from_payload :: "pyval \<Rightarrow> memory_scope res" where
  "scope_from_payload payload =
     bindE (require_mapping payload ''scope'') (\<lambda>_.
     bindE (bindE (vitem payload ''tenant_id'') (\<lambda>v. parse_uuid_value v ''scope.tenant_id'')) (\<lambda>tenant.
     bindE (bindE (vitem payload ''subject_id'') (\<lambda>v. parse_uuid_value v ''scope.subject_id'')) (\<lambda>subject.
     bindE (parse_optional_uuid_value (vget_none payload ''agent_id'') ''scope.agent_id'') (\<lambda>agent.
     bindE (cast_workspace (vget_none payload ''workspace_id'')) (\<lambda>workspace.
       mk_memory_scope \<lparr>ms_tenant_id = TenantId tenant, ms_subject_id = SubjectId subject,
         ms_workspace_id = workspace, ms_agent_id = map_option AgentInstanceId agent\<rparr>)))))"

section \<open>Snapshots\<close>

definition snapshot_to_json :: "execution_snapshot \<Rightarrow> pyval" where
  "snapshot_to_json s = obj
     [(''execution_id'', VStr (uuid_text (execution_uuid (sn_execution_id s)))),
      (''scope'', scope_to_payload (sn_scope s)),
      (''revision'', VInt (sn_revision s)),
      (''status'', VStr (execution_status_value (sn_status s))),
      (''plan_revision'', opt_val VInt (sn_plan_revision s)),
      (''node_statuses'', obj (map (\<lambda>(i, st). (uuid_text (node_uuid i), VStr (node_status_value st))) (sn_node_statuses s))),
      (''suspension'', VNone),
      (''result_ref'', opt_val (\<lambda>a. VStr (uuid_text (artifact_uuid a))) (sn_result_ref s)),
      (''failure'', VNone),
      (''updated_at'', VStr (isoformat (sn_updated_at s)))]"

text \<open>
  \<open>NodeStatus(text)\<close> and \<open>ExecutionStatus(text)\<close> with their errors renamed;
  \<open>UUID(key)\<close> of a key that is not text fails on its \<open>replace\<close>.
\<close>

definition renamed :: "'a res \<Rightarrow> string \<Rightarrow> 'a res" where
  "renamed r msg = (case r of Inl (ValueError _) \<Rightarrow> Inl (ValueError msg) | _ \<Rightarrow> r)"

fun read_node_statuses :: "(pyval \<times> pyval) list \<Rightarrow> (node_id, node_status) dict \<Rightarrow> (node_id, node_status) dict res" where
  "read_node_statuses [] d = Inr d"
| "read_node_statuses ((k, v) # kvs) d =
     bindE (require_str v ''node_statuses.value'') (\<lambda>text.
     bindE (renamed (node_status_of_value text) ''node_statuses values must be valid node statuses'') (\<lambda>st.
     bindE (case k of VStr s \<Rightarrow> parse_uuid s | _ \<Rightarrow> Inl AttributeError) (\<lambda>u.
       read_node_statuses kvs (dict_set (NodeId u) st d))))"

text \<open>
  The plan revision is cast, not checked: the constructor compares it with zero,
  which text and containers refuse. A truth value passes as the number it is; a
  float, which no writer produces, has no place in the field's type.
\<close>

fun cast_plan_revision :: "pyval \<Rightarrow> int option res" where
  "cast_plan_revision VNone = Inr None"
| "cast_plan_revision (VInt n) = Inr (Some n)"
| "cast_plan_revision (VBool b) = Inr (Some (if b then 1 else 0))"
| "cast_plan_revision (VFloat f) = Inl (BackendError ''plan_revision is not an integer'')"
| "cast_plan_revision v = Inl (TypeError ''plan_revision is not a number'')"

definition snapshot_from_json :: "pyval \<Rightarrow> execution_snapshot res" where
  "snapshot_from_json payload =
     bindE (bindE (vitem payload ''status'') (\<lambda>v. require_str v ''status'')) (\<lambda>status_text.
     bindE (renamed (execution_status_of_value status_text) ''status must be a valid execution status'') (\<lambda>status.
     bindE (require_mapping (case vget payload ''node_statuses'' of None \<Rightarrow> VDict [] | Some v \<Rightarrow> v) ''node_statuses'') (\<lambda>nodes.
     bindE (read_node_statuses nodes []) (\<lambda>node_statuses.
     bindE (bindE (vitem payload ''execution_id'') (\<lambda>v. parse_uuid_value v ''execution_id'')) (\<lambda>i.
     bindE (bindE (vitem payload ''scope'') scope_from_payload) (\<lambda>scope.
     bindE (bindE (vitem payload ''revision'') (\<lambda>v. require_int v ''revision'')) (\<lambda>revision.
     bindE (parse_optional_uuid_value (vget_none payload ''result_ref'') ''result_ref'') (\<lambda>result_ref.
     bindE (bindE (vitem payload ''updated_at'') (\<lambda>v. parse_datetime v ''updated_at'')) (\<lambda>updated_at.
     bindE (raise_if (revision < 0) (ValueError ''revision must not be negative'')) (\<lambda>_.
     bindE (cast_plan_revision (vget_none payload ''plan_revision'')) (\<lambda>plan_revision.
       mk_execution_snapshot \<lparr>sn_execution_id = ExecutionId i, sn_scope = scope, sn_revision = revision,
         sn_status = status, sn_plan_revision = plan_revision, sn_node_statuses = node_statuses,
         sn_suspension = None, sn_result_ref = map_option ArtifactId result_ref, sn_failure = None,
         sn_updated_at = updated_at\<rparr>)))))))))))"

section \<open>Fingerprints\<close>

definition tagged :: "string \<Rightarrow> string \<Rightarrow> pyval" where
  "tagged tag v = obj [(''$'', VStr tag), (''v'', VStr v)]"

fun fingerprint_encode_value :: "fp_value \<Rightarrow> pyval res" where
  "fingerprint_encode_value (FpTenant i) = Inr (tagged ''TenantId'' (uuid_text (tenant_uuid i)))"
| "fingerprint_encode_value (FpSubject i) = Inr (tagged ''SubjectId'' (uuid_text (subject_uuid i)))"
| "fingerprint_encode_value (FpInstance i) = Inr (tagged ''AgentInstanceId'' (uuid_text (agent_instance_uuid i)))"
| "fingerprint_encode_value (FpDefinition i) = Inr (tagged ''AgentDefinitionId'' (uuid_text (agent_definition_uuid i)))"
| "fingerprint_encode_value (FpExecution i) = Inr (tagged ''ExecutionId'' (uuid_text (execution_uuid i)))"
| "fingerprint_encode_value (FpNode i) = Inr (tagged ''NodeId'' (uuid_text (node_uuid i)))"
| "fingerprint_encode_value (FpArtifact i) = Inr (tagged ''ArtifactId'' (uuid_text (artifact_uuid i)))"
| "fingerprint_encode_value (FpDate d) =
     bindE (raise_if (\<not> aware d) (ValueError ''fingerprint datetime must be timezone-aware'')) (\<lambda>_.
     Inr (tagged ''datetime'' (isoformat d)))"
| "fingerprint_encode_value (FpTuple vs) = bindE (mapE fingerprint_encode_value vs) (\<lambda>js. Inr (VList js))"
| "fingerprint_encode_value FpNone = Inr VNone"
| "fingerprint_encode_value (FpInt n) = Inr (VInt n)"
| "fingerprint_encode_value (FpStr s) = Inr (VStr s)"
| "fingerprint_encode_value (FpRaw (VBool b)) = Inr (VBool b)"
| "fingerprint_encode_value (FpRaw v) = Inl (TypeError ''unsupported fingerprint value type'')"

definition decode_tagged :: "pyval \<Rightarrow> fp_value res" where
  "decode_tagged v =
     bindE (bindE (vitem v ''$'') (\<lambda>t. require_str t ''fingerprint tag'')) (\<lambda>tag.
     bindE (vitem v ''v'') (\<lambda>raw.
       if tag = ''datetime'' then bindE (parse_datetime raw ''fingerprint datetime'') (\<lambda>d. Inr (FpDate d))
       else (case map_of
           [(''TenantId'', \<lambda>u. FpTenant (TenantId u)), (''SubjectId'', \<lambda>u. FpSubject (SubjectId u)),
            (''AgentDefinitionId'', \<lambda>u. FpDefinition (AgentDefinitionId u)),
            (''AgentInstanceId'', \<lambda>u. FpInstance (AgentInstanceId u)),
            (''ExecutionId'', \<lambda>u. FpExecution (ExecutionId u)), (''NodeId'', \<lambda>u. FpNode (NodeId u)),
            (''ArtifactId'', \<lambda>u. FpArtifact (ArtifactId u))] tag of
           None \<Rightarrow> Inl (ValueError (''unknown fingerprint tag: '' @ tag))
         | Some id_type \<Rightarrow> bindE (bindE (require_str raw ''fingerprint id'') parse_uuid) (\<lambda>u. Inr (id_type u)))))"

fun fingerprint_decode_value :: "pyval \<Rightarrow> fp_value res" where
  "fingerprint_decode_value (VList vs) = bindE (mapE fingerprint_decode_value vs) (\<lambda>r. Inr (FpTuple r))"
| "fingerprint_decode_value (VDict kvs) =
     (if vget (VDict kvs) ''$'' \<noteq> None then decode_tagged (VDict kvs) else Inr (FpRaw (VDict kvs)))"
| "fingerprint_decode_value VNone = Inr FpNone"
| "fingerprint_decode_value (VInt n) = Inr (FpInt n)"
| "fingerprint_decode_value (VStr s) = Inr (FpStr s)"
| "fingerprint_decode_value v = Inr (FpRaw v)"

definition fingerprint_to_json :: "fp_value list \<Rightarrow> pyval list res" where
  "fingerprint_to_json fp = mapE fingerprint_encode_value fp"

definition fingerprint_from_json :: "pyval list \<Rightarrow> fp_value list res" where
  "fingerprint_from_json js = mapE fingerprint_decode_value js"

section \<open>Round trips\<close>

lemma vget_none_obj [simp]: "vget_none (obj fs) key = (case map_of fs key of None \<Rightarrow> VNone | Some v \<Rightarrow> v)"
  by (simp add: vget_none_def)

lemma require_mapping_obj [simp]: "require_mapping (obj fs) n = Inr (map (\<lambda>(k, v). (VStr k, v)) fs)"
  by (simp add: obj_def)

lemma parse_uuid_value_text [simp]: "parse_uuid_value (VStr (uuid_text u)) n = Inr u"
  by (simp add: parse_uuid_value_def parse_uuid_text)

lemma parse_optional_uuid_opt [simp]:
  "parse_optional_uuid_value (opt_val (\<lambda>a. VStr (uuid_text (f a))) x) n = Inr (map_option f x)"
  by (cases x) (simp_all add: opt_val_def parse_optional_uuid_value_def)

lemma parse_datetime_iso: "valid_datetime d \<Longrightarrow> aware d \<Longrightarrow> parse_datetime (VStr (isoformat d)) n = Inr d"
  by (simp add: parse_datetime_def fromisoformat_isoformat)

lemma parse_optional_datetime_iso:
  "(\<forall>d. x = Some d \<longrightarrow> valid_datetime d \<and> aware d) \<Longrightarrow> parse_optional_datetime (opt_val (\<lambda>d. VStr (isoformat d)) x) n = Inr x"
  by (cases x) (simp_all add: opt_val_def parse_optional_datetime_def parse_datetime_iso)

lemma cast_workspace_opt [simp]: "cast_workspace (opt_val VStr w) = Inr w"
  by (cases w) (simp_all add: opt_val_def)

lemma cast_plan_revision_opt [simp]: "cast_plan_revision (opt_val VInt r) = Inr r"
  by (cases r) (simp_all add: opt_val_def)

lemma scope_payload_roundtrip:
  assumes "scope_ok s"
  shows "scope_from_payload (scope_to_payload s) = Inr s"
proof -
  have "mk_memory_scope s = Inr s" using assms by (simp add: mk_memory_scope_Inr scope_ok_def)
  then show ?thesis
    by (cases s; cases "ms_agent_id s") (simp_all add: scope_from_payload_def scope_to_payload_def)
qed

lemma read_node_statuses_json:
  "distinct (map fst (d @ xs)) \<Longrightarrow>
     read_node_statuses (map (\<lambda>(k, v). (VStr k, v)) (map (\<lambda>(i, st). (uuid_text (node_uuid i), VStr (node_status_value st))) xs)) d
       = Inr (d @ xs)"
proof (induction xs arbitrary: d)
  case (Cons x xs)
  obtain i st where x: "x = (i, st)" by (cases x)
  have "dict_set i st d = d @ [(i, st)]"
    using Cons.prems x by (intro dict_set_new) (simp add: dict_get_None_iff image_iff)
  moreover have "read_node_statuses (map (\<lambda>(k, v). (VStr k, v)) (map (\<lambda>(i, st). (uuid_text (node_uuid i), VStr (node_status_value st))) xs))
      (d @ [(i, st)]) = Inr (d @ x # xs)"
    using Cons.IH [of "d @ [(i, st)]"] Cons.prems x by simp
  ultimately show ?case by (simp add: x parse_uuid_text renamed_def)
qed simp

text \<open>What a stored snapshot keeps: everything but its suspension and its failure.\<close>

definition without_details :: "execution_snapshot \<Rightarrow> execution_snapshot" where
  "without_details s = s\<lparr>sn_suspension := None, sn_failure := None\<rparr>"

definition storable :: "execution_snapshot \<Rightarrow> bool" where
  "storable s \<longleftrightarrow> snapshot_ok s \<and> scope_ok (sn_scope s) \<and> valid_datetime (sn_updated_at s) \<and> distinct (dict_keys (sn_node_statuses s))"

lemma snapshot_json_roundtrip:
  assumes "storable s"
  shows "snapshot_from_json (snapshot_to_json s) = Inr (without_details s)"
proof -
  have s: "snapshot_ok s" "scope_from_payload (scope_to_payload (sn_scope s)) = Inr (sn_scope s)"
    "parse_datetime (VStr (isoformat (sn_updated_at s))) ''updated_at'' = Inr (sn_updated_at s)"
    using assms by (auto simp: storable_def snapshot_ok_def scope_payload_roundtrip parse_datetime_iso)
  have nodes: "read_node_statuses (map (\<lambda>(k, v). (VStr k, v))
      (map (\<lambda>(i, st). (uuid_text (node_uuid i), VStr (node_status_value st))) (sn_node_statuses s))) [] = Inr (sn_node_statuses s)"
    using read_node_statuses_json [of "[]" "sn_node_statuses s"] assms by (simp add: storable_def)
  have mk: "mk_execution_snapshot (without_details s) = Inr (without_details s)" "\<not> sn_revision s < 0"
    using s(1) by (auto simp: mk_execution_snapshot_Inr snapshot_ok_def without_details_def)
  have ref: "map_option ArtifactId (map_option artifact_uuid r) = r" for r by (cases r) simp_all
  show ?thesis
    unfolding snapshot_from_json_def snapshot_to_json_def
    by (simp add: s nodes renamed_def ref mk(2) del: map_map) (use mk(1) in \<open>cases s; simp add: without_details_def\<close>)
qed

fun fp_storable :: "fp_value \<Rightarrow> bool" where
  "fp_storable (FpDate d) = (valid_datetime d \<and> aware d)"
| "fp_storable (FpTuple vs) = (\<forall>v \<in> set vs. fp_storable v)"
| "fp_storable (FpRaw v) = False"
| "fp_storable _ = True"

lemma mapE_back_all:
  "(\<And>v. v \<in> set vs \<Longrightarrow> \<exists>j. f v = Inr j \<and> g j = Inr v) \<Longrightarrow> \<exists>js. mapE f vs = Inr js \<and> mapE g js = Inr vs"
proof (induction vs)
  case (Cons v vs)
  then obtain j js where "f v = Inr j" "g j = Inr v" "mapE f vs = Inr js" "mapE g js = Inr vs" by (meson list.set_intros)
  then show ?case by simp
qed simp

lemma fingerprint_value_roundtrip:
  "fp_storable v \<Longrightarrow> \<exists>j. fingerprint_encode_value v = Inr j \<and> fingerprint_decode_value j = Inr v"
proof (induction v)
  case (FpTuple vs)
  then have "\<And>v. v \<in> set vs \<Longrightarrow> \<exists>j. fingerprint_encode_value v = Inr j \<and> fingerprint_decode_value j = Inr v" by simp
  then have "\<exists>js. mapE fingerprint_encode_value vs = Inr js \<and> mapE fingerprint_decode_value js = Inr vs" by (rule mapE_back_all)
  then show ?case by auto
qed (simp_all add: tagged_def obj_def decode_tagged_def vget_def vitem_def parse_uuid_text parse_datetime_iso)

lemma fingerprint_json_roundtrip:
  "(\<forall>v \<in> set fp. fp_storable v) \<Longrightarrow> \<exists>js. fingerprint_to_json fp = Inr js \<and> fingerprint_from_json js = Inr fp"
  unfolding fingerprint_to_json_def fingerprint_from_json_def
  by (rule mapE_back_all) (use fingerprint_value_roundtrip in blast)

text \<open>The fingerprint of a specification whose dates are aware can be stored.\<close>

definition spec_dates_ok :: "execution_spec \<Rightarrow> bool" where
  "spec_dates_ok spec \<longleftrightarrow> (\<forall>d \<in> insert (bg_deadline (sp_budget spec)) (case sp_memory_query spec of None \<Rightarrow> {}
     | Some q \<Rightarrow> set_option (mq_valid_at q) \<union> set_option (mq_recorded_at q)). valid_datetime d \<and> aware d)"

lemma spec_fingerprint_storable:
  assumes "spec_dates_ok spec"
  shows "\<forall>v \<in> set (spec_fingerprint spec). fp_storable v"
  using assms
  by (cases "sp_memory_query spec") (auto simp: spec_dates_ok_def spec_fingerprint_def fp_opt_def split: option.splits)

section \<open>Properties\<close>

text \<open>
  A snapshot that is written as JSON and read back keeps its identity, scope,
  revision, status, plan, nodes, result and time; its suspension and its failure are
  lost, whatever they were.
\<close>

theorem snapshot_json_forgets_details:
  assumes "mk_execution_snapshot s = Inr s" and "mk_memory_scope (sn_scope s) = Inr (sn_scope s)"
    and "valid_datetime (sn_updated_at s)" and "distinct (dict_keys (sn_node_statuses s))"
  shows "snapshot_from_json (snapshot_to_json s) = Inr (s\<lparr>sn_suspension := None, sn_failure := None\<rparr>)"
  using snapshot_json_roundtrip [of s] assms
  by (simp add: storable_def mk_execution_snapshot_Inr mk_memory_scope_Inr scope_ok_def without_details_def)

definition failed_snapshot :: execution_snapshot where
  "failed_snapshot = (initial_snapshot (sample_spec (ExecutionId (UUID 7))) sample_time)
     \<lparr>sn_revision := 4, sn_status := FAILED, sn_node_statuses := [(NodeId (UUID 30), N_FAILED), (NodeId (UUID 31), N_SKIPPED)],
      sn_failure := Some \<lparr>fl_category = PERMANENT, fl_code = ''E1'', fl_message = ''no route'', fl_details_ref = None\<rparr>\<rparr>"

theorem snapshot_json_forgets_details_witness:
  "snapshot_from_json (snapshot_to_json failed_snapshot) = Inr (failed_snapshot\<lparr>sn_failure := None\<rparr>)
   \<and> sn_failure failed_snapshot \<noteq> None"
proof -
  have s: "mk_execution_snapshot failed_snapshot = Inr failed_snapshot"
    by (simp add: mk_execution_snapshot_Inr snapshot_ok_def failed_snapshot_def initial_snapshot_def sample_time_facts)
  have "mk_memory_scope (sn_scope failed_snapshot) = Inr (sn_scope failed_snapshot)"
    by (simp add: mk_memory_scope_Inr failed_snapshot_def sample_snapshot(2) sample_scope_def blank_iff is_space_def)
  moreover have "valid_datetime (sn_updated_at failed_snapshot)" "distinct (dict_keys (sn_node_statuses failed_snapshot))"
    "sn_suspension failed_snapshot = None"
    by (simp_all add: failed_snapshot_def initial_snapshot_def valid_datetime_def sample_time_def in_range_def max_wall_def day_us_def)
  moreover have "failed_snapshot\<lparr>sn_suspension := None, sn_failure := None\<rparr> = failed_snapshot\<lparr>sn_failure := None\<rparr>"
    using \<open>sn_suspension failed_snapshot = None\<close> by (cases failed_snapshot) simp
  ultimately show ?thesis
    using snapshot_json_forgets_details [OF s] by (simp add: failed_snapshot_def)
qed

text \<open>
  C34. The fingerprint of every specification with aware dates can be written as JSON
  and reads back as the fingerprint, component by component, with the classes of its
  identifiers; so a stored fingerprint still tells a repeated request from another.
\<close>

theorem fingerprint_json_faithful:
  assumes "spec_dates_ok spec"
  shows "\<exists>js. fingerprint_to_json (spec_fingerprint spec) = Inr js \<and> fingerprint_from_json js = Inr (spec_fingerprint spec)"
  by (rule fingerprint_json_roundtrip [OF spec_fingerprint_storable [OF assms]])

theorem fingerprint_json_faithful_witness:
  "\<exists>js. fingerprint_to_json (spec_fingerprint (sample_spec (ExecutionId (UUID 7)))) = Inr js
    \<and> fingerprint_from_json js = Inr (spec_fingerprint (sample_spec (ExecutionId (UUID 7))))"
  by (rule fingerprint_json_faithful)
     (simp add: spec_dates_ok_def sample_spec_def valid_datetime_def sample_time_def in_range_def max_wall_def aware_def day_us_def)

end
