(* ===== verification/Runtime_App.thy ===== *)
theory Runtime_App
  imports Runtime_Orchestrator
begin

text \<open>
  The use cases of the runtime module (\<open>runtime/application/*.py\<close>): start, get,
  cancel and list, over an authorization port, an orchestrator and a snapshot
  store. What the handlers need of an orchestrator is the locale
  \<open>orchestrator\<close>; the in-memory orchestrator and store are its interpretation.
\<close>

section \<open>The handlers\<close>

definition start_execution_handle ::
    "(runtime_authorization_request \<Rightarrow> bool) \<Rightarrow> execution_id \<Rightarrow> ('db \<Rightarrow> execution_spec \<Rightarrow> execution_snapshot res \<times> 'db)
      \<Rightarrow> 'db \<Rightarrow> start_execution_command \<Rightarrow> start_execution_result res \<times> 'db" where
  "start_execution_handle authorize new_id orch_start db c =
     (if \<not> authorize \<lparr>ra_actor_id = sc_actor_id c, ra_scope = sc_scope c, ra_action = ''start_execution''\<rparr>
      then (Inl ExecutionAuthorizationDenied, db)
      else case mk_execution_spec
          \<lparr>sp_id = new_id, sp_scope = sc_scope c, sp_objective_ref = sc_objective_ref c,
           sp_root_agent_id = sc_root_agent_id c, sp_memory_query = sc_memory_query c, sp_budget = sc_budget c,
           sp_idempotency_key = sc_idempotency_key c\<rparr> of
        Inl e \<Rightarrow> (Inl e, db)
      | Inr spec \<Rightarrow> (case orch_start db spec of
            (Inl e, db') \<Rightarrow> (Inl e, db')
          | (Inr s, db') \<Rightarrow>
              (Inr \<lparr>sr_snapshot = s, sr_created = (sn_execution_id s = new_id)\<rparr>, db')))"

definition get_execution_snapshot_handle ::
    "(runtime_authorization_request \<Rightarrow> bool) \<Rightarrow> (memory_scope \<Rightarrow> execution_id \<Rightarrow> execution_snapshot res)
      \<Rightarrow> get_execution_snapshot_query \<Rightarrow> execution_snapshot res" where
  "get_execution_snapshot_handle authorize orch_get q =
     (if \<not> authorize \<lparr>ra_actor_id = ge_actor_id q, ra_scope = ge_scope q, ra_action = ''get_execution''\<rparr>
      then Inl ExecutionAuthorizationDenied
      else orch_get (ge_scope q) (ge_execution_id q))"

definition cancel_execution_handle ::
    "(runtime_authorization_request \<Rightarrow> bool)
      \<Rightarrow> ('db \<Rightarrow> memory_scope \<Rightarrow> execution_id \<Rightarrow> string \<Rightarrow> execution_snapshot res \<times> 'db)
      \<Rightarrow> 'db \<Rightarrow> cancel_execution_command \<Rightarrow> execution_snapshot res \<times> 'db" where
  "cancel_execution_handle authorize orch_cancel db c =
     (if \<not> authorize \<lparr>ra_actor_id = cc_actor_id c, ra_scope = cc_scope c, ra_action = ''cancel_execution''\<rparr>
      then (Inl ExecutionAuthorizationDenied, db)
      else orch_cancel db (cc_scope c) (cc_execution_id c) (cc_idempotency_key c))"

definition to_list_item :: "execution_snapshot \<Rightarrow> execution_list_item" where
  "to_list_item s = \<lparr>li_execution_id = sn_execution_id s, li_scope = sn_scope s, li_revision = sn_revision s,
     li_status = sn_status s, li_updated_at = sn_updated_at s\<rparr>"

definition list_executions_handle ::
    "(runtime_authorization_request \<Rightarrow> bool)
      \<Rightarrow> (memory_scope \<Rightarrow> int option \<Rightarrow> string option \<Rightarrow> execution_snapshot list res)
      \<Rightarrow> list_executions_query \<Rightarrow> execution_list_item list_result res" where
  "list_executions_handle authorize stream q =
     (if \<not> authorize \<lparr>ra_actor_id = le_actor_id q, ra_scope = le_scope q, ra_action = ''get_execution''\<rparr>
      then Inl ExecutionAuthorizationDenied
      else bindE (stream (le_scope q) (Some (le_limit q + 1)) (le_cursor q)) (\<lambda>rows.
        cut_page to_list_item (\<lambda>s. encode_execution_cursor (sn_updated_at s) (sn_execution_id s)) (le_limit q) rows))"

text \<open>A denied actor reads and changes nothing.\<close>

lemma denied:
  "\<not> authorize \<lparr>ra_actor_id = sc_actor_id c, ra_scope = sc_scope c, ra_action = ''start_execution''\<rparr> \<Longrightarrow>
     start_execution_handle authorize i orch_start db c = (Inl ExecutionAuthorizationDenied, db)"
  "\<not> authorize \<lparr>ra_actor_id = cc_actor_id cc, ra_scope = cc_scope cc, ra_action = ''cancel_execution''\<rparr> \<Longrightarrow>
     cancel_execution_handle authorize orch_cancel db cc = (Inl ExecutionAuthorizationDenied, db)"
  by (simp_all add: start_execution_handle_def cancel_execution_handle_def)

section \<open>The contract of an orchestrator\<close>

definition command_spec :: "execution_id \<Rightarrow> start_execution_command \<Rightarrow> execution_spec" where
  "command_spec i c = \<lparr>sp_id = i, sp_scope = sc_scope c, sp_objective_ref = sc_objective_ref c,
     sp_root_agent_id = sc_root_agent_id c, sp_memory_query = sc_memory_query c, sp_budget = sc_budget c,
     sp_idempotency_key = sc_idempotency_key c\<rparr>"

lemma command_spec_id: "same_request (command_spec i c) (command_spec j c)"
  by (simp add: same_request_def command_spec_def query_equiv_def option.rel_refl)

text \<open>
  \<open>'e\<close> is what a call draws from the outside: the clock's answer and the event
  identifiers. \<open>fresh\<close> says that an identifier is not in use yet.
\<close>

locale orchestrator =
  fixes ok :: "'db \<Rightarrow> bool"
    and fresh :: "'db \<Rightarrow> execution_id \<Rightarrow> bool"
    and find :: "'db \<Rightarrow> memory_scope \<Rightarrow> execution_id \<Rightarrow> execution_snapshot res"
    and run_start :: "'e \<Rightarrow> 'db \<Rightarrow> execution_spec \<Rightarrow> execution_snapshot res \<times> 'db"
  assumes start_keeps: "ok db \<Longrightarrow> spec_ok a \<Longrightarrow> fresh db (sp_id a) \<Longrightarrow> ok (snd (run_start e db a))"
    and start_fails: "ok db \<Longrightarrow> spec_ok a \<Longrightarrow> run_start e db a = (Inl x, db') \<Longrightarrow> db' = db"
    and start_finds: "ok db \<Longrightarrow> spec_ok a \<Longrightarrow> fresh db (sp_id a) \<Longrightarrow> run_start e db a = (Inr s, db') \<Longrightarrow>
      find db' (sp_scope a) (sn_execution_id s) = Inr s"
    and start_again: "ok db \<Longrightarrow> spec_ok a \<Longrightarrow> spec_ok b \<Longrightarrow> fresh db (sp_id a) \<Longrightarrow> same_request a b \<Longrightarrow>
      run_start e db a = (Inr s, db') \<Longrightarrow> run_start e' db' b = (Inr s, db')"
begin

text \<open>A retried command finds the execution of the first one and creates nothing.\<close>

lemma retry:
  assumes "ok db" and "fresh db i"
    and first: "start_execution_handle authorize i (run_start e) db c = (Inr r, db')"
  shows "start_execution_handle authorize j (run_start e') db' c
    = (Inr (r\<lparr>sr_created := (sn_execution_id (sr_snapshot r) = j)\<rparr>), db')"
proof -
  let ?a = "command_spec i c" and ?b = "command_spec j c"
  have auth: "authorize \<lparr>ra_actor_id = sc_actor_id c, ra_scope = sc_scope c, ra_action = ''start_execution''\<rparr>"
    using first by (simp add: start_execution_handle_def split: if_splits)
  from first auth obtain spec s where spec: "mk_execution_spec ?a = Inr spec"
    and s: "run_start e db spec = (Inr s, db')" "r = \<lparr>sr_snapshot = s, sr_created = (sn_execution_id s = i)\<rparr>"
    by (auto simp: start_execution_handle_def command_spec_def split: sum.splits prod.splits)
  from spec have a: "spec = ?a" "spec_ok ?a" by (auto simp: mk_execution_spec_Inr)
  then have b: "spec_ok ?b" by (simp add: spec_ok_def command_spec_def)
  have fr: "fresh db (sp_id ?a)" using assms(2) by (simp add: command_spec_def)
  have "run_start e' db' ?b = (Inr s, db')"
    using start_again [OF assms(1) a(2) b fr command_spec_id] s(1) a(1) by blast
  moreover have "mk_execution_spec ?b = Inr ?b" using b by (simp add: mk_execution_spec_Inr)
  ultimately show ?thesis
    using auth s(2) by (simp add: start_execution_handle_def command_spec_def)
qed

text \<open>What a successful command returned can be read back in its scope.\<close>

lemma started_readable:
  assumes "ok db" and "fresh db i"
    and "start_execution_handle authorize i (run_start e) db c = (Inr r, db')"
    and "authorize \<lparr>ra_actor_id = actor, ra_scope = sc_scope c, ra_action = ''get_execution''\<rparr>"
  shows "get_execution_snapshot_handle authorize (find db')
      \<lparr>ge_actor_id = actor, ge_scope = sc_scope c, ge_execution_id = sn_execution_id (sr_snapshot r)\<rparr> = Inr (sr_snapshot r)"
proof -
  from assms(3) obtain spec s where spec: "mk_execution_spec (command_spec i c) = Inr spec"
    and s: "run_start e db spec = (Inr s, db')" "sr_snapshot r = s"
    by (auto simp: start_execution_handle_def command_spec_def split: sum.splits prod.splits if_splits)
  from spec have a: "spec = command_spec i c" "spec_ok spec" by (auto simp: mk_execution_spec_Inr)
  have "find db' (sc_scope c) (sn_execution_id s) = Inr s"
    using start_finds [OF assms(1) a(2) _ s(1)] assms(2) a(1) by (simp add: command_spec_def)
  with assms(4) s(2) show ?thesis by (simp add: get_execution_snapshot_handle_def)
qed

end

text \<open>The in-memory orchestrator keeps the contract.\<close>

lemma start_fails_unchanged: "start ids now db spec = (Inl x, db') \<Longrightarrow> db_ok db \<Longrightarrow> spec_ok spec \<Longrightarrow> db' = db"
proof (cases "dict_get (cr_idempotency_index db) (index_key spec)")
  case None
  assume "start ids now db spec = (Inl x, db')"
  then show ?thesis
    using start_new [OF None, of now ids] start_naive_clock [OF None, of now ids] by (cases "aware now") auto
next
  case (Some i)
  assume "start ids now db spec = (Inl x, db')" "db_ok db" "spec_ok spec"
  with start_taken [OF _ _ Some, of ids now] show ?thesis by auto
qed

lemma start_finds_it:
  assumes "db_ok db" and "spec_ok a" and "start ids now db a = (Inr s, db')"
  shows "get_snapshot db' (sp_scope a) (sn_execution_id s) = Inr s
    \<and> dict_get (cr_idempotency_index db') (index_key a) = Some (sn_execution_id s)
    \<and> (\<exists>old. indexed_spec db' (index_key a) (sn_execution_id s) old \<and> same_request old a)"
proof (cases "dict_get (cr_idempotency_index db) (index_key a)")
  case None
  have "aware now" using start_naive_clock [OF None, of now ids] assms(3) by auto
  from start_new [OF None this] assms(2,3) have eq: "s = initial_snapshot a now" "db' = started_state ids now db a"
    by auto
  have "same_request a a" by (simp add: same_request_def query_equiv_def option.rel_refl)
  moreover have "indexed_spec db' (index_key a) (sn_execution_id s) a"
    using assms(2) eq by (simp add: indexed_spec_def started_state_def initial_snapshot_def)
  ultimately show ?thesis
    using eq by (auto simp: get_snapshot_def db_read_def snapshot_for_scope_def started_state_def initial_snapshot_def)
next
  case (Some i)
  from start_taken [OF assms(1,2) Some, of ids now] obtain old t where
    t: "indexed_spec db (index_key a) i old" "dict_get (cr_snapshots db) i = Some t" "sn_execution_id t = i"
      "start ids now db a = ((if same_request old a then Inr t else Inl ExecutionIdempotencyConflict), db)" by blast
  with assms(3) have eq: "same_request old a" "s = t" "db' = db" by (auto split: if_splits)
  with t(1,2) have "sn_scope t = sp_scope a" by (auto simp: indexed_spec_def same_request_def)
  with t eq Some show ?thesis by (auto simp: get_snapshot_def db_read_def snapshot_for_scope_def)
qed

lemma same_request_trans:
  "spec_ok a \<Longrightarrow> spec_ok b \<Longrightarrow> spec_ok c \<Longrightarrow> same_request a b \<Longrightarrow> same_request b c \<Longrightarrow> same_request a c"
  by (metis fingerprint_same_request fps_eq_trans)

lemma start_twice:
  assumes "db_ok db" and "spec_ok a" and "spec_ok b" and "dict_get (cr_snapshots db) (sp_id a) = None"
    and "same_request a b" and "start ids now db a = (Inr s, db')"
  shows "start ids' now' db' b = (Inr s, db')"
proof -
  have ok: "db_ok db'" using start_ok [OF assms(1,2,4), of ids now] assms(6) by simp
  from start_finds_it [OF assms(1,2,6)] obtain old where
    f: "get_snapshot db' (sp_scope a) (sn_execution_id s) = Inr s"
      "dict_get (cr_idempotency_index db') (index_key a) = Some (sn_execution_id s)"
      "indexed_spec db' (index_key a) (sn_execution_id s) old" "same_request old a" by blast
  have key: "index_key b = index_key a" using assms(5) by (simp add: same_request_def index_key_def)
  from start_taken [OF ok assms(3), of "sn_execution_id s" ids' now'] f(2) key obtain old' t where
    t: "indexed_spec db' (index_key a) (sn_execution_id s) old'" "dict_get (cr_snapshots db') (sn_execution_id s) = Some t"
      "start ids' now' db' b = ((if same_request old' b then Inr t else Inl ExecutionIdempotencyConflict), db')" by auto
  have "t = s" using f(1) t(2) by (simp add: get_snapshot_def db_read_def)
  moreover have "same_request old' b"
  proof -
    have o: "spec_ok old" "spec_ok old'" "spec_fingerprint old' = spec_fingerprint old"
      using f(3) t(1) by (auto simp: indexed_spec_def)
    then have "same_request old' old" using fingerprint_same_request [OF o(2,1)] by simp
    with o f(4) assms(2,3,5) show ?thesis by (meson same_request_trans)
  qed
  ultimately show ?thesis using t(3) by simp
qed

interpretation memory_orchestrator: orchestrator db_ok "\<lambda>db i. dict_get (cr_snapshots db) i = None" get_snapshot
    "\<lambda>e. start (fst e) (snd e)"
  by unfold_locales (auto simp: start_ok start_fails_unchanged start_twice dest: start_finds_it)

section \<open>Listing over the in-memory store\<close>

definition visible_executions :: "committed_runtime_state \<Rightarrow> memory_scope \<Rightarrow> execution_snapshot list" where
  "visible_executions db scope =
     sort_desc execution_key (filter (\<lambda>s. sn_scope s = scope) (dict_values (cr_snapshots db)))"

text \<open>\<open>datetime\<close> values are in range by their type.\<close>

definition listable :: "committed_runtime_state \<Rightarrow> bool" where
  "listable db \<longleftrightarrow> db_ok db \<and> (\<forall>s \<in> set (dict_values (cr_snapshots db)). in_range (instant (sn_updated_at s)))"

definition execution_position :: "string \<Rightarrow> (int \<times> uuid) option" where
  "execution_position c = (case decode_execution_cursor c of Inl e \<Rightarrow> None
     | Inr (ts, i) \<Rightarrow> Some (cursor_key ts (execution_uuid i)))"

lemma execution_position_Some:
  "execution_position c = Some k \<Longrightarrow>
     \<exists>ts i. decode_execution_cursor c = Inr (ts, i) \<and> k = cursor_key ts (execution_uuid i)"
  unfolding execution_position_def by (cases "decode_execution_cursor c") auto

lemma snapshots_distinct_keys:
  assumes "snapshots_ok d"
  shows "distinct (map execution_key (filter P (dict_values d)))"
proof -
  have kv: "\<forall>(i, s) \<in> set d. sn_execution_id s = i"
    using assms by (auto simp: snapshots_ok_def dict_get_iff_mem)
  then have "map sn_execution_id (dict_values d) = dict_keys d" by (induction d) auto
  moreover have "distinct (dict_keys d)" using assms by (simp add: snapshots_ok_def)
  ultimately have "distinct (map sn_execution_id (dict_values d))" by metis
  then have "distinct (map sn_execution_id (filter P (dict_values d)))" by (rule distinct_map_filter)
  then show ?thesis
    by (auto simp: distinct_map inj_on_def execution_key_def intro: execution_id.expand)
qed

interpretation execution_store: keyset_store listable visible_executions "(<)" execution_key execution_position
    execution_stream "\<lambda>s. encode_execution_cursor (sn_updated_at s) (sn_execution_id s)"
proof
  show "strict_order ((<) :: int \<times> uuid \<Rightarrow> int \<times> uuid \<Rightarrow> bool)" by simp
next
  fix db :: committed_runtime_state and scope
  assume "listable db"
  then have "snapshots_ok (cr_snapshots db)" by (simp add: listable_def db_ok_def)
  then show "sorted_wrt (\<lambda>a b. execution_key b < execution_key a) (visible_executions db scope)"
    unfolding visible_executions_def by (intro sort_desc_strict snapshots_distinct_keys)
next
  fix db scope n cursor
  assume n: "(0 :: int) < n" and "cursor = None \<or> (\<exists>c k. cursor = Some c \<and> execution_position c = Some k)"
  then consider "cursor = None"
    | c ts i where "cursor = Some c" "decode_execution_cursor c = Inr (ts, i)"
        "execution_position c = Some (cursor_key ts (execution_uuid i))"
    using execution_position_Some by metis
  then show "execution_stream db scope (Some n) cursor
      = Inr (take (nat n) (rows_after (<) execution_key (Option.bind cursor execution_position) (visible_executions db scope)))"
    using n by cases (simp_all add: execution_stream_def visible_executions_def rows_after_def slice_def
      check_stream_args_def)
next
  fix db scope s
  assume l: "listable db" and s: "s \<in> set (visible_executions db scope)"
  then obtain i where "(i, s) \<in> set (cr_snapshots db)" by (auto simp: visible_executions_def)
  with l have "dict_get (cr_snapshots db) i = Some s"
    by (simp add: listable_def db_ok_def snapshots_ok_def dict_get_iff_mem)
  with l have "aware (sn_updated_at s)" unfolding listable_def db_ok_def snapshots_ok_def snapshot_ok_def by blast
  moreover have "in_range (instant (sn_updated_at s))" using l s by (auto simp: listable_def visible_executions_def)
  ultimately obtain c where c: "encode_execution_cursor (sn_updated_at s) (sn_execution_id s) = Inr c"
    using execution_codec.enc_total by blast
  from execution_codec.dec_position [OF c] obtain t where
    "decode_execution_cursor c = Inr (t, sn_execution_id s)" "instant t = instant (sn_updated_at s)" by blast
  with c show "\<exists>c. encode_execution_cursor (sn_updated_at s) (sn_execution_id s) = Inr c
      \<and> execution_position c = Some (execution_key s)"
    by (simp add: execution_position_def cursor_key_def execution_key_def)
qed

definition execution_page ::
    "subject_id \<Rightarrow> committed_runtime_state \<Rightarrow> memory_scope \<Rightarrow> int \<Rightarrow> string option \<Rightarrow> execution_list_item list_result res" where
  "execution_page actor db scope limit cursor = list_executions_handle (\<lambda>_. True) (execution_stream db)
     \<lparr>le_actor_id = actor, le_scope = scope, le_limit = limit, le_cursor = cursor\<rparr>"

lemma execution_page_store: "execution_page actor db scope limit cursor =
    store_page execution_stream (\<lambda>s. encode_execution_cursor (sn_updated_at s) (sn_execution_id s)) to_list_item db scope limit cursor"
  by (simp add: execution_page_def list_executions_handle_def store_page_def)

lemma execution_walk:
  assumes "listable db" and "0 < n"
  shows "walk (Suc (length (visible_executions db scope))) (execution_page actor db scope n) None
    = Inr (map to_list_item (visible_executions db scope))"
proof -
  let ?e = "\<lambda>s. encode_execution_cursor (sn_updated_at s) (sn_execution_id s)"
  have "execution_page actor db scope n cursor = bindE (store_page execution_stream ?e (\<lambda>r. r) db scope n cursor)
     (\<lambda>p. Inr \<lparr>lr_items = map to_list_item (lr_items p), lr_next_cursor = lr_next_cursor p\<rparr>)" for cursor
    unfolding execution_page_store by (rule store_page_map)
  from walk_map [OF this] execution_store.walk_all [OF assms] show ?thesis by simp
qed

section \<open>Properties\<close>

definition sample_first_start :: "start_execution_result res \<times> committed_runtime_state" where
  "sample_first_start = start_execution_handle (\<lambda>_. True) (ExecutionId (UUID 7)) (start sample_event_ids sample_time)
     empty_runtime_state sample_start"

lemma sample_first_start_ok:
  "\<exists>r db'. sample_first_start = (Inr r, db')"
  unfolding sample_first_start_def
  by (simp add: start_execution_handle_def sample_start_def mk_execution_spec_def require_non_blank_def blank_iff is_space_def
      start_new [OF _ sample_time_facts(1)] empty_runtime_state_def)

text \<open>
  A start command may be retried. When the first call succeeded, a second
  call with the same command, whatever identifier, clock and event identifiers it
  draws, returns the same execution, says that it did not create it (unless the
  identifier drawn again is the execution's), and leaves the state as it is.
\<close>

theorem start_retry:
  assumes "reachable_runtime db" and "dict_get (cr_snapshots db) i = None"
    and "start_execution_handle authorize i (start ids now) db c = (Inr r, db')"
  shows "start_execution_handle authorize j (start ids' now') db' c
    = (Inr (r\<lparr>sr_created := (sn_execution_id (sr_snapshot r) = j)\<rparr>), db')"
  using memory_orchestrator.retry [OF reachable_ok [OF assms(1)], of i authorize "(ids, now)" c r db' j "(ids', now')"]
    assms(2,3) by simp

theorem start_retry_witness:
  "\<exists>r db'. sample_first_start = (Inr r, db')
    \<and> start_execution_handle (\<lambda>_. True) (ExecutionId (UUID 8)) (start sample_event_ids sample_time) db' sample_start
      = (Inr (r\<lparr>sr_created := (sn_execution_id (sr_snapshot r) = ExecutionId (UUID 8))\<rparr>), db')"
proof -
  obtain r db' where r: "sample_first_start = (Inr r, db')" using sample_first_start_ok by blast
  have "reachable_runtime empty_runtime_state" by (simp add: reachable_runtime_def orch_steps.refl)
  from start_retry [OF this _ r [unfolded sample_first_start_def], of "ExecutionId (UUID 8)" sample_event_ids sample_time] r
  show ?thesis by (intro exI conjI) (simp_all add: empty_runtime_state_def)
qed

text \<open>
  What a successful start command returned can be read back: a query in the
  command's scope by an authorized actor gives the very snapshot.
\<close>

theorem started_execution_readable:
  assumes "reachable_runtime db" and "dict_get (cr_snapshots db) i = None"
    and "start_execution_handle authorize i (start ids now) db c = (Inr r, db')"
    and "authorize \<lparr>ra_actor_id = actor, ra_scope = sc_scope c, ra_action = ''get_execution''\<rparr>"
  shows "get_execution_snapshot_handle authorize (get_snapshot db')
      \<lparr>ge_actor_id = actor, ge_scope = sc_scope c, ge_execution_id = sn_execution_id (sr_snapshot r)\<rparr> = Inr (sr_snapshot r)"
  using memory_orchestrator.started_readable [OF reachable_ok [OF assms(1)], of i authorize "(ids, now)" c r db' actor]
    assms(2-4) by simp

theorem started_execution_readable_witness:
  "\<exists>r db'. sample_first_start = (Inr r, db')
    \<and> get_execution_snapshot_handle (\<lambda>_. True) (get_snapshot db')
        \<lparr>ge_actor_id = SubjectId (UUID 2), ge_scope = sample_scope, ge_execution_id = sn_execution_id (sr_snapshot r)\<rparr>
      = Inr (sr_snapshot r)"
proof -
  obtain r db' where r: "sample_first_start = (Inr r, db')" using sample_first_start_ok by blast
  have "reachable_runtime empty_runtime_state" by (simp add: reachable_runtime_def orch_steps.refl)
  from started_execution_readable [OF this _ r [unfolded sample_first_start_def], of "SubjectId (UUID 2)"] r
  show ?thesis by (intro exI conjI) (simp_all add: empty_runtime_state_def sample_start_def)
qed

text \<open>
  C32. Walking the pages of the execution listing, from no cursor and from each
  page's next cursor on, gives every execution of the scope exactly once, the most
  recently updated first, and ends after at most as many pages as there are rows.
\<close>

theorem execution_pages_complete:
  assumes "listable db" and "0 < n"
  shows "walk (Suc (length (visible_executions db scope))) (execution_page actor db scope n) None
    = Inr (map to_list_item (visible_executions db scope))"
  by (rule execution_walk [OF assms])

theorem execution_pages_complete_witness:
  "walk 2 (execution_page (SubjectId (UUID 2)) sample_db sample_scope 1) None
     = Inr [to_list_item (initial_snapshot (sample_spec (ExecutionId (UUID 7))) sample_time)]"
proof -
  have snaps: "cr_snapshots sample_db
      = [(ExecutionId (UUID 7), initial_snapshot (sample_spec (ExecutionId (UUID 7))) sample_time)]"
    by (simp add: sample_db_def started_state_def sample_spec_def empty_runtime_state_def)
  then have "listable sample_db"
    using reachable_ok [OF sample_reachable] sample_time_facts(2)
    by (simp add: listable_def initial_snapshot_def)
  moreover have "visible_executions sample_db sample_scope
      = [initial_snapshot (sample_spec (ExecutionId (UUID 7))) sample_time]"
    by (simp add: visible_executions_def snaps sample_snapshot sort_desc_def)
  ultimately show ?thesis
    using execution_pages_complete [of sample_db 1 sample_scope "SubjectId (UUID 2)"] by (simp add: numeral_2_eq_2)
qed

end
