(* ===== verification/Runtime_Postgres.thy ===== *)
theory Runtime_Postgres
  imports Codec Memory_Postgres Runtime_App
begin

text \<open>
  The relational runtime adapter (\<open>runtime/adapters/postgres/*.py\<close>): row mappers,
  the load and the write-back of the committed state with the retry on a lost
  insert, the snapshot and outbox writers, the listing and the relay store. The
  module has its own copies of the memory adapter's event mappers and relay; they
  are the same code, so the definitions of \<open>Rows\<close> and \<open>Memory_Postgres\<close> serve for
  both. The orchestrator runs over this database as over the in-memory one.
\<close>

section \<open>Rows\<close>

record pg_runtime =
  pr_idempotency :: "row list"
  pr_snapshots :: "row list"
  pr_outbox :: "row list"

definition snapshot_to_row :: "execution_snapshot \<Rightarrow> row" where
  "snapshot_to_row s =
     [(''tenant_id'', DUuid (tenant_uuid (ms_tenant_id (sn_scope s)))),
      (''execution_id'', DUuid (execution_uuid (sn_execution_id s))),
      (''subject_id'', DUuid (subject_uuid (ms_subject_id (sn_scope s)))),
      (''workspace_id'', db_opt DText (ms_workspace_id (sn_scope s))),
      (''agent_id'', db_opt (\<lambda>a. DUuid (agent_instance_uuid a)) (ms_agent_id (sn_scope s))),
      (''revision'', DInt (sn_revision s)),
      (''status'', DText (execution_status_value (sn_status s))),
      (''snapshot'', DJson (snapshot_to_json s)),
      (''updated_at'', DTime (sn_updated_at s))]"

fun json_object :: "db_value \<Rightarrow> pyval res" where
  "json_object (DJson v) = (if is_mapping v then Inr (VDict (mapping_items v))
     else Inl (TypeError ''snapshot must be a mapping''))"
| "json_object v = Inl (TypeError ''snapshot must be a mapping'')"

definition row_to_snapshot :: "row \<Rightarrow> execution_snapshot res" where
  "row_to_snapshot r = bindE (bindE (col r ''snapshot'') json_object) snapshot_from_json"

definition idempotency_to_row ::
    "tenant_id \<Rightarrow> string \<Rightarrow> execution_id \<Rightarrow> fp_value list \<Rightarrow> datetime \<Rightarrow> row res" where
  "idempotency_to_row tenant key execution_id fingerprint created_at =
     bindE (fingerprint_to_json fingerprint) (\<lambda>js. Inr
       [(''tenant_id'', DUuid (tenant_uuid tenant)),
        (''idempotency_key'', DText key),
        (''execution_id'', DUuid (execution_uuid execution_id)),
        (''fingerprint'', DJson (VList js)),
        (''created_at'', DTime created_at)])"

fun json_list :: "db_value \<Rightarrow> pyval list res" where
  "json_list (DJson (VList js)) = Inr js"
| "json_list v = Inl (TypeError ''fingerprint must be a list'')"

definition row_to_fingerprint :: "row \<Rightarrow> fp_value list res" where
  "row_to_fingerprint r = bindE (bindE (col r ''fingerprint'') json_list) fingerprint_from_json"

text \<open>\<open>Jsonb(to_json_value(row[...]))\<close> for the JSON column of a row that is written.\<close>

fun json_param :: "db_value \<Rightarrow> db_value" where
  "json_param (DJson v) = DJson (to_json_value v)"
| "json_param v = v"

definition json_params :: "row \<Rightarrow> row" where
  "json_params r = map (\<lambda>(k, v). (k, json_param v)) r"

section \<open>Loading the committed state\<close>

fun load_idempotency ::
    "row list \<Rightarrow> (tenant_id \<times> string, execution_id) dict \<times> (execution_id, fp_value list) dict
      \<Rightarrow> ((tenant_id \<times> string, execution_id) dict \<times> (execution_id, fp_value list) dict) res" where
  "load_idempotency [] d = Inr d"
| "load_idempotency (r # rows) (index, fingerprints) =
     bindE (bindE (col r ''tenant_id'') as_uuid) (\<lambda>tenant.
     bindE (bindE (col r ''idempotency_key'') text_of) (\<lambda>key.
     bindE (bindE (col r ''execution_id'') as_uuid) (\<lambda>i.
     bindE (row_to_fingerprint r) (\<lambda>fp.
       load_idempotency rows
         (dict_set (TenantId tenant, key) (ExecutionId i) index, dict_set (ExecutionId i) fp fingerprints)))))"

fun load_snapshots :: "row list \<Rightarrow> (execution_id, execution_snapshot) dict \<Rightarrow> (execution_id, execution_snapshot) dict res" where
  "load_snapshots [] d = Inr d"
| "load_snapshots (r # rows) d =
     bindE (bindE (col r ''execution_id'') as_uuid) (\<lambda>i.
     bindE (row_to_snapshot r) (\<lambda>s. load_snapshots rows (dict_set (ExecutionId i) s d)))"

definition load_state :: "pg_runtime \<Rightarrow> committed_runtime_state res" where
  "load_state t =
     bindE (load_idempotency (pr_idempotency t) ([], [])) (\<lambda>(index, fingerprints).
     bindE (load_snapshots (pr_snapshots t) []) (\<lambda>snapshots.
       if index = [] \<and> snapshots = [] then Inr empty_runtime_state
       else Inr \<lparr>cr_snapshots = snapshots, cr_idempotency_index = index, cr_fingerprints = fingerprints,
                 cr_outbox_events = []\<rparr>))"

section \<open>Writing the changes back\<close>

text \<open>
  \<open>_IdempotencyInsertRaceError\<close> is caught inside the transaction, so what was
  written before it stays: \<open>Raced\<close> carries the tables. Python walks the sets of
  keys in the order of their hashes; here it is the order of the dictionaries.
\<close>

datatype 'a persisted = Persisted 'a | Raced 'a

definition key_row :: "tenant_id \<times> string \<Rightarrow> row \<Rightarrow> bool" where
  "key_row k r \<longleftrightarrow> row_is r ''tenant_id'' (DUuid (tenant_uuid (fst k))) \<and> row_is r ''idempotency_key'' (DText (snd k))"

fun insert_keys ::
    "datetime \<Rightarrow> committed_runtime_state \<Rightarrow> (tenant_id \<times> string) list \<Rightarrow> row list \<Rightarrow> row list persisted res" where
  "insert_keys created_at after [] table = Inr (Persisted table)"
| "insert_keys created_at after (k # ks) table =
     bindE (dict_item (cr_idempotency_index after) k (KeyError ''key'')) (\<lambda>i.
     bindE (dict_item (cr_fingerprints after) i (KeyError ''execution_id'')) (\<lambda>fp.
     bindE (idempotency_to_row (fst k) (snd k) i fp created_at) (\<lambda>r.
       case sql_insert [[''tenant_id'', ''idempotency_key'']] (json_params r) table of
         Inl _ \<Rightarrow> Inr (Raced table)
       | Inr table' \<Rightarrow> insert_keys created_at after ks table')))"

fun update_keys ::
    "committed_runtime_state \<Rightarrow> committed_runtime_state \<Rightarrow> (tenant_id \<times> string) list \<Rightarrow> row list \<Rightarrow> row list res" where
  "update_keys before after [] table = Inr table"
| "update_keys before after (k # ks) table =
     bindE (dict_item (cr_idempotency_index before) k (KeyError ''key'')) (\<lambda>i.
     bindE (dict_item (cr_idempotency_index after) k (KeyError ''key'')) (\<lambda>i'.
     bindE (dict_item (cr_fingerprints after) i' (KeyError ''execution_id'')) (\<lambda>fp'.
       if i = i' \<and> (case dict_get (cr_fingerprints before) i of None \<Rightarrow> False | Some fp \<Rightarrow> fps_eq fp fp')
       then update_keys before after ks table
       else bindE (fingerprint_to_json fp') (\<lambda>js. update_keys before after ks
         (map (\<lambda>r. if key_row k r
            then dict_set ''fingerprint'' (DJson (to_json_value (VList js)))
                   (dict_set ''execution_id'' (DUuid (execution_uuid i')) r)
            else r) table)))))"

definition persist_idempotency ::
    "datetime \<Rightarrow> committed_runtime_state \<Rightarrow> committed_runtime_state \<Rightarrow> row list \<Rightarrow> row list persisted res" where
  "persist_idempotency created_at before after table =
     (let before_keys = dict_keys (cr_idempotency_index before); after_keys = dict_keys (cr_idempotency_index after);
          kept = filter (\<lambda>r. \<not> list_ex (\<lambda>k. key_row k r) (filter (\<lambda>k. k \<notin> set after_keys) before_keys)) table in
      bindE (insert_keys created_at after (filter (\<lambda>k. k \<notin> set before_keys) after_keys) kept) (\<lambda>p.
        case p of
          Raced table' \<Rightarrow> Inr (Raced table')
        | Persisted table' \<Rightarrow> bindE (update_keys before after (filter (\<lambda>k. k \<in> set after_keys) before_keys) table')
            (\<lambda>table''. Inr (Persisted table''))))"

text \<open>\<open>==\<close> of two snapshots: dates by instant, dictionaries without their order.\<close>

definition suspension_eq :: "suspension \<Rightarrow> suspension \<Rightarrow> bool" where
  "suspension_eq a b \<longleftrightarrow> a\<lparr>su_requested_at := su_requested_at b, su_expires_at := su_expires_at b\<rparr> = b
     \<and> dt_eq (su_requested_at a) (su_requested_at b) \<and> dt_eq (su_expires_at a) (su_expires_at b)"

definition dict_eq :: "('k, 'v) dict \<Rightarrow> ('k, 'v) dict \<Rightarrow> bool" where
  "dict_eq a b \<longleftrightarrow> list_all (\<lambda>k. dict_get a k = dict_get b k) (dict_keys a @ dict_keys b)"

definition snapshot_eq :: "execution_snapshot \<Rightarrow> execution_snapshot \<Rightarrow> bool" where
  "snapshot_eq a b \<longleftrightarrow> sn_execution_id a = sn_execution_id b \<and> sn_scope a = sn_scope b \<and> sn_revision a = sn_revision b
     \<and> sn_status a = sn_status b \<and> sn_plan_revision a = sn_plan_revision b
     \<and> dict_eq (sn_node_statuses a) (sn_node_statuses b)
     \<and> (case (sn_suspension a, sn_suspension b) of
          (None, None) \<Rightarrow> True | (Some x, Some y) \<Rightarrow> suspension_eq x y | _ \<Rightarrow> False)
     \<and> sn_result_ref a = sn_result_ref b \<and> sn_failure a = sn_failure b \<and> dt_eq (sn_updated_at a) (sn_updated_at b)"

definition execution_row :: "tenant_id \<Rightarrow> execution_id \<Rightarrow> row \<Rightarrow> bool" where
  "execution_row tenant i r \<longleftrightarrow> row_is r ''tenant_id'' (DUuid (tenant_uuid tenant))
     \<and> row_is r ''execution_id'' (DUuid (execution_uuid i))"

text \<open>\<open>SET subject_id = ..., updated_at = ...\<close>: every column but the key.\<close>

definition assign_columns :: "string list \<Rightarrow> row \<Rightarrow> row \<Rightarrow> row" where
  "assign_columns cols new r =
     foldl (\<lambda>r k. case dict_get new k of None \<Rightarrow> r | Some v \<Rightarrow> dict_set k v r) r cols"

definition snapshot_columns :: "string list" where
  "snapshot_columns = [''subject_id'', ''workspace_id'', ''agent_id'', ''revision'', ''status'', ''snapshot'', ''updated_at'']"

definition update_snapshot_row :: "execution_snapshot \<Rightarrow> row list \<Rightarrow> row list" where
  "update_snapshot_row s table =
     map (\<lambda>r. if execution_row (ms_tenant_id (sn_scope s)) (sn_execution_id s) r
       then assign_columns snapshot_columns (stored_row (json_params (snapshot_to_row s))) r else r) table"

fun delete_snapshots :: "committed_runtime_state \<Rightarrow> execution_id list \<Rightarrow> row list \<Rightarrow> row list res" where
  "delete_snapshots before [] table = Inr table"
| "delete_snapshots before (i # is) table =
     bindE (dict_item (cr_snapshots before) i (KeyError ''execution_id'')) (\<lambda>s.
       delete_snapshots before is (filter (\<lambda>r. \<not> execution_row (ms_tenant_id (sn_scope s)) i r) table))"

fun insert_snapshots :: "committed_runtime_state \<Rightarrow> execution_id list \<Rightarrow> row list \<Rightarrow> row list res" where
  "insert_snapshots after [] table = Inr table"
| "insert_snapshots after (i # is) table =
     bindE (dict_item (cr_snapshots after) i (KeyError ''execution_id'')) (\<lambda>s.
     bindE (sql_insert [[''tenant_id'', ''execution_id'']] (json_params (snapshot_to_row s)) table) (\<lambda>table'.
       insert_snapshots after is table'))"

fun update_snapshots :: "committed_runtime_state \<Rightarrow> committed_runtime_state \<Rightarrow> execution_id list \<Rightarrow> row list \<Rightarrow> row list res" where
  "update_snapshots before after [] table = Inr table"
| "update_snapshots before after (i # is) table =
     bindE (dict_item (cr_snapshots before) i (KeyError ''execution_id'')) (\<lambda>s.
     bindE (dict_item (cr_snapshots after) i (KeyError ''execution_id'')) (\<lambda>s'.
       update_snapshots before after is (if snapshot_eq s s' then table else update_snapshot_row s' table)))"

definition persist_snapshots :: "committed_runtime_state \<Rightarrow> committed_runtime_state \<Rightarrow> row list \<Rightarrow> row list res" where
  "persist_snapshots before after table =
     (let before_ids = dict_keys (cr_snapshots before); after_ids = dict_keys (cr_snapshots after) in
      bindE (delete_snapshots before (filter (\<lambda>i. i \<notin> set after_ids) before_ids) table) (\<lambda>t1.
      bindE (insert_snapshots after (filter (\<lambda>i. i \<notin> set before_ids) after_ids) t1) (\<lambda>t2.
        update_snapshots before after (filter (\<lambda>i. i \<in> set after_ids) before_ids) t2)))"

fun persist_outbox :: "event_envelope list \<Rightarrow> row list \<Rightarrow> row list res" where
  "persist_outbox [] table = Inr table"
| "persist_outbox (e # es) table =
     bindE (sql_insert [[''event_id'']] (json_params (event_to_row e) @ [(''published_at'', DNull)]) table)
       (persist_outbox es)"

definition persist_state ::
    "datetime \<Rightarrow> committed_runtime_state \<Rightarrow> committed_runtime_state \<Rightarrow> event_envelope list \<Rightarrow> pg_runtime
      \<Rightarrow> pg_runtime persisted res" where
  "persist_state created_at before after events t =
     bindE (persist_idempotency created_at before after (pr_idempotency t)) (\<lambda>p. case p of
         Raced idem \<Rightarrow> Inr (Raced (t\<lparr>pr_idempotency := idem\<rparr>))
       | Persisted idem \<Rightarrow>
           bindE (persist_snapshots before after (pr_snapshots t)) (\<lambda>snaps.
           bindE (persist_outbox events (pr_outbox t)) (\<lambda>out.
             Inr (Persisted \<lparr>pr_idempotency = idem, pr_snapshots = snaps, pr_outbox = out\<rparr>))))"

section \<open>Reads and writes\<close>

definition pg_read :: "pg_runtime \<Rightarrow> (committed_runtime_state \<Rightarrow> 'a res) \<Rightarrow> 'a res" where
  "pg_read t callback = bindE (load_state t) callback"

text \<open>
  \<open>others k\<close> is what the transactions of other processes commit between the load and
  the write-back of the attempt number \<open>k\<close>: the lock of the database excludes only
  the callers of one process. An exception rolls the attempt back. The callback
  draws its identifiers anew in every attempt.
\<close>

fun pg_attempts ::
    "nat \<Rightarrow> nat \<Rightarrow> (nat \<Rightarrow> pg_runtime \<Rightarrow> pg_runtime) \<Rightarrow> (nat \<Rightarrow> datetime) \<Rightarrow> (nat \<Rightarrow> write_callback)
      \<Rightarrow> pg_runtime \<Rightarrow> unit res \<times> pg_runtime" where
  "pg_attempts 0 k others stamp callback t = (Inl (RuntimeError ''runtime idempotency write exceeded retry limit''), t)"
| "pg_attempts (Suc n) k others stamp callback t =
     (case load_state t of
        Inl e \<Rightarrow> (Inl e, t)
      | Inr before \<Rightarrow>
          (case callback k before [] of
             Inl e \<Rightarrow> (Inl e, others k t)
           | Inr (after, events) \<Rightarrow>
               (case persist_state (stamp k) before after events (others k t) of
                  Inl e \<Rightarrow> (Inl e, others k t)
                | Inr (Persisted t') \<Rightarrow> (Inr (), t')
                | Inr (Raced t') \<Rightarrow> pg_attempts n (Suc k) others stamp callback t')))"

definition pg_write ::
    "(nat \<Rightarrow> pg_runtime \<Rightarrow> pg_runtime) \<Rightarrow> (nat \<Rightarrow> datetime) \<Rightarrow> (nat \<Rightarrow> write_callback) \<Rightarrow> pg_runtime
      \<Rightarrow> unit res \<times> pg_runtime" where
  "pg_write others stamp callback t = pg_attempts 5 0 others stamp callback t"

text \<open>The orchestrator of \<open>in_memory/orchestrator.py\<close> over this database.\<close>

definition pg_get :: "pg_runtime \<Rightarrow> memory_scope \<Rightarrow> execution_id \<Rightarrow> execution_snapshot res" where
  "pg_get t scope execution_id = pg_read t (\<lambda>state. snapshot_for_scope state scope execution_id)"

definition pg_start ::
    "(nat \<Rightarrow> pg_runtime \<Rightarrow> pg_runtime) \<Rightarrow> (nat \<Rightarrow> datetime) \<Rightarrow> (nat \<Rightarrow> nat \<Rightarrow> event_id) \<Rightarrow> datetime \<Rightarrow> pg_runtime
      \<Rightarrow> execution_spec \<Rightarrow> execution_snapshot res \<times> pg_runtime" where
  "pg_start others stamp ids now t spec = (case pg_write others stamp (\<lambda>k. start_callback (ids k) now spec) t of
       (Inl e, t') \<Rightarrow> (Inl e, t')
     | (Inr _, t') \<Rightarrow>
         (pg_read t' (\<lambda>state. bindE (dict_item (cr_idempotency_index state) (index_key spec) (KeyError ''index_key''))
            (\<lambda>i. snapshot_for_scope state (sp_scope spec) i)), t'))"

definition pg_cancel ::
    "(nat \<Rightarrow> pg_runtime \<Rightarrow> pg_runtime) \<Rightarrow> (nat \<Rightarrow> datetime) \<Rightarrow> (nat \<Rightarrow> nat \<Rightarrow> event_id) \<Rightarrow> datetime \<Rightarrow> pg_runtime
      \<Rightarrow> memory_scope \<Rightarrow> execution_id \<Rightarrow> string \<Rightarrow> execution_snapshot res \<times> pg_runtime" where
  "pg_cancel others stamp ids now t scope execution_id idempotency_key =
     (case pg_write others stamp (\<lambda>k. cancel_callback (ids k) now scope execution_id) t of
        (Inl e, t') \<Rightarrow> (Inl e, t')
      | (Inr _, t') \<Rightarrow> (pg_read t' (\<lambda>state. snapshot_for_scope state scope execution_id), t'))"

section \<open>The listing\<close>

definition snapshot_stamp :: "row \<Rightarrow> int \<times> uuid" where
  "snapshot_stamp = row_stamp ''updated_at'' ''execution_id''"

definition pg_execution_stream ::
    "pg_runtime \<Rightarrow> memory_scope \<Rightarrow> int option \<Rightarrow> string option \<Rightarrow> execution_snapshot list res" where
  "pg_execution_stream t scope limit cursor =
     bindE (check_stream_args limit cursor) (\<lambda>_.
     bindE (case cursor of
         None \<Rightarrow> Inr (\<lambda>r. True)
       | Some c \<Rightarrow> bindE (decode_execution_cursor c) (\<lambda>(cursor_at, cursor_id).
           Inr (\<lambda>r. snapshot_stamp r < cursor_key cursor_at (execution_uuid cursor_id)))) (\<lambda>beyond.
       mapE row_to_snapshot (slice limit (sort_desc snapshot_stamp
         (filter (\<lambda>r. in_scope scope r \<and> beyond r) (pr_snapshots t))))))"

section \<open>The writers of the workers\<close>

definition pg_upsert_snapshot :: "row list \<Rightarrow> execution_snapshot \<Rightarrow> row list" where
  "pg_upsert_snapshot table s =
     (let new = stored_row (json_params (snapshot_to_row s)) in
      if list_ex (same_cols [''tenant_id'', ''execution_id''] new) table
      then map (\<lambda>r. if same_cols [''tenant_id'', ''execution_id''] new r
             \<and> (case (dict_get r ''revision'', dict_get new ''revision'') of
                  (Some (DInt a), Some (DInt b)) \<Rightarrow> a < b | _ \<Rightarrow> False)
           then assign_columns snapshot_columns new r else r) table
      else table @ [new])"

definition pg_publish_status_changed ::
    "event_id \<Rightarrow> row list \<Rightarrow> execution_status option \<Rightarrow> execution_snapshot \<Rightarrow> correlation_id \<Rightarrow> row list res" where
  "pg_publish_status_changed new_id table previous_status s correlation_id =
     bindE (build_execution_status_changed_event new_id correlation_id None previous_status s) (\<lambda>e.
       sql_insert [[''event_id'']] (json_params (event_to_row e) @ [(''published_at'', DNull)]) table)"

section \<open>Rows read back\<close>

lemma to_json_twice [simp]: "to_json_value (to_json_value v) = to_json_value v"
  by (induction v) auto

lemma to_json_obj [simp]: "to_json_value (obj fs) = obj (map (\<lambda>(k, v). (k, to_json_value v)) fs)"
  by (simp add: obj_def split_def)

lemma to_json_opt [simp]: "(\<And>x. to_json_value (f x) = f x) \<Longrightarrow> to_json_value (opt_val f x) = opt_val f x"
  by (cases x) (simp_all add: opt_val_def)

lemma to_json_snapshot [simp]: "to_json_value (snapshot_to_json s) = snapshot_to_json s"
  by (simp add: snapshot_to_json_def scope_to_payload_def split_def comp_def)

lemma json_params_event [simp]: "json_params (event_to_row e) = event_to_row e"
  by (cases "ev_causation_id e") (simp_all add: json_params_def event_to_row_def)

text \<open>A snapshot that the tables keep as it is.\<close>

definition kept :: "execution_snapshot \<Rightarrow> bool" where
  "kept s \<longleftrightarrow> storable s \<and> in_utc (sn_updated_at s) \<and> sn_suspension s = None \<and> sn_failure s = None"

lemma json_params_snapshot [simp]: "json_params (snapshot_to_row s) = snapshot_to_row s"
  by (cases "ms_workspace_id (sn_scope s)"; cases "ms_agent_id (sn_scope s)") (simp_all add: json_params_def snapshot_to_row_def)

lemma stored_snapshot: "kept s \<Longrightarrow> stored_row (snapshot_to_row s) = snapshot_to_row s"
  by (simp add: stored_row_def snapshot_to_row_def kept_def utc_in_utc)

lemma json_object_snapshot [simp]: "json_object (DJson (snapshot_to_json s)) = Inr (snapshot_to_json s)"
  by (simp add: snapshot_to_json_def obj_def)

lemma read_snapshot_row: "kept s \<Longrightarrow> row_to_snapshot (snapshot_to_row s) = Inr s"
proof -
  assume k: "kept s"
  have "row_to_snapshot (snapshot_to_row s) = snapshot_from_json (snapshot_to_json s)"
    by (simp add: row_to_snapshot_def snapshot_to_row_def del: json_object.simps)
  also have "\<dots> = Inr (without_details s)" using k by (simp add: snapshot_json_roundtrip kept_def)
  also have "without_details s = s" using k by (cases s) (simp add: without_details_def kept_def)
  finally show ?thesis .
qed

lemma mapE_fixed: "(\<And>v j. v \<in> set vs \<Longrightarrow> f v = Inr j \<Longrightarrow> g j = j) \<Longrightarrow> mapE f vs = Inr js \<Longrightarrow> map g js = js"
proof (induction vs arbitrary: js)
  case (Cons v vs)
  then obtain j js' where j: "f v = Inr j" "mapE f vs = Inr js'" "js = j # js'" by (auto simp: bindE_eq_Inr)
  have "g j = j" by (rule Cons.prems(1) [OF _ j(1)]) simp
  moreover have "map g js' = js'" by (rule Cons.IH [OF _ j(2)]) (use Cons.prems(1) in auto)
  ultimately show ?case using j(3) by simp
qed simp

lemma to_json_encoded: "fingerprint_encode_value v = Inr j \<Longrightarrow> to_json_value j = j"
proof (induction v arbitrary: j)
  case (FpTuple vs)
  then obtain js where js: "mapE fingerprint_encode_value vs = Inr js" "j = VList js" by (auto simp: bindE_eq_Inr)
  have "map to_json_value js = js" by (rule mapE_fixed [OF _ js(1)]) (use FpTuple.IH in blast)
  with js(2) show ?case by simp
next
  case (FpRaw v)
  then show ?case by (cases v) auto
qed (auto simp: tagged_def bindE_eq_Inr)

lemma to_json_fingerprint: "fingerprint_to_json fp = Inr js \<Longrightarrow> map to_json_value js = js"
  unfolding fingerprint_to_json_def by (rule mapE_fixed [where f = fingerprint_encode_value]) (use to_json_encoded in blast)

text \<open>The row of a key: its execution and the fingerprint of it, with some date.\<close>

definition index_row :: "(execution_id, fp_value list) dict \<Rightarrow> row \<Rightarrow> (tenant_id \<times> string) \<times> execution_id \<Rightarrow> bool" where
  "index_row fps r p \<longleftrightarrow> (\<exists>c fp js. dict_get fps (snd p) = Some fp \<and> (\<forall>v \<in> set fp. fp_storable v)
     \<and> fingerprint_to_json fp = Inr js
     \<and> r = [(''tenant_id'', DUuid (tenant_uuid (fst (fst p)))), (''idempotency_key'', DText (snd (fst p))),
            (''execution_id'', DUuid (execution_uuid (snd p))), (''fingerprint'', DJson (VList js)), (''created_at'', DTime c)])"

lemma index_row_reads:
  assumes "index_row fps r ((tenant, key), i)"
  shows "col r ''tenant_id'' = Inr (DUuid (tenant_uuid tenant)) \<and> col r ''idempotency_key'' = Inr (DText key)
    \<and> col r ''execution_id'' = Inr (DUuid (execution_uuid i)) \<and> row_to_fingerprint r = Inr (the (dict_get fps i))"
proof -
  from assms obtain c fp js where r: "dict_get fps i = Some fp" "\<forall>v \<in> set fp. fp_storable v" "fingerprint_to_json fp = Inr js"
    "r = [(''tenant_id'', DUuid (tenant_uuid tenant)), (''idempotency_key'', DText key),
            (''execution_id'', DUuid (execution_uuid i)), (''fingerprint'', DJson (VList js)), (''created_at'', DTime c)]"
    by (auto simp: index_row_def)
  from fingerprint_json_roundtrip [OF r(2)] r(3) have "fingerprint_from_json js = Inr fp" by auto
  with r show ?thesis by (simp add: row_to_fingerprint_def)
qed

lemma index_row_key: "index_row fps r (k, i) \<Longrightarrow> key_row k' r \<longleftrightarrow> k' = k"
  by (cases k; cases k') (auto simp: index_row_def key_row_def row_is_def)

section \<open>Tables that hold a committed state\<close>

definition runtime_ok :: "committed_runtime_state \<Rightarrow> bool" where
  "runtime_ok db \<longleftrightarrow> db_ok db \<and> dict_keys (cr_fingerprints db) = dict_values (cr_idempotency_index db)
     \<and> distinct (dict_keys (cr_fingerprints db)) \<and> (\<forall>s \<in> set (dict_values (cr_snapshots db)). kept s)"

definition stores :: "pg_runtime \<Rightarrow> committed_runtime_state \<Rightarrow> bool" where
  "stores t db \<longleftrightarrow> runtime_ok db \<and> pr_snapshots t = map snapshot_to_row (dict_values (cr_snapshots db))
     \<and> list_all2 (index_row (cr_fingerprints db)) (pr_idempotency t) (cr_idempotency_index db)"

lemma stores_cong: "runtime_ok db' \<Longrightarrow> cr_snapshots db' = cr_snapshots db \<Longrightarrow> cr_idempotency_index db' = cr_idempotency_index db \<Longrightarrow>
    cr_fingerprints db' = cr_fingerprints db \<Longrightarrow> stores t db \<Longrightarrow> stores t db'"
  by (simp add: stores_def)

lemma db_ok_outbox [simp]: "db_ok (db\<lparr>cr_outbox_events := es\<rparr>) = db_ok db"
  by (simp add: db_ok_def indexed_spec_def)

lemma stores_outbox [simp]: "stores t (db\<lparr>cr_outbox_events := es\<rparr>) = stores t db"
  by (simp add: stores_def runtime_ok_def)

lemma load_idempotency_rows:
  assumes "list_all2 (index_row fps) rows index" and "distinct (map fst (index0 @ index))" and "distinct (map fst fp0 @ map snd index)"
  shows "load_idempotency rows (index0, fp0) = Inr (index0 @ index, fp0 @ map (\<lambda>p. (snd p, the (dict_get fps (snd p)))) index)"
  using assms
proof (induction rows index arbitrary: index0 fp0 rule: list_all2_induct)
  case (Cons r rows p index)
  obtain tenant key i where p: "p = ((tenant, key), i)" by (cases p) auto
  note reads = index_row_reads [OF Cons.hyps(1) [unfolded p]]
  have "dict_set (tenant, key) i index0 = index0 @ [p]"
    using Cons.prems(1) p by (simp add: dict_set_new dict_get_None_iff)
  moreover have "dict_set i (the (dict_get fps i)) fp0 = fp0 @ [(i, the (dict_get fps i))]"
    using Cons.prems(2) p by (intro dict_set_new) (auto simp: dict_get_None_iff)
  ultimately show ?case
    using Cons.IH [of "index0 @ [p]" "fp0 @ [(i, the (dict_get fps i))]"] Cons.prems reads p by simp
qed simp

lemma load_snapshots_rows:
  assumes "\<forall>(i, s) \<in> set snaps. sn_execution_id s = i \<and> kept s" and "distinct (map fst (d @ snaps))"
  shows "load_snapshots (map snapshot_to_row (map snd snaps)) d = Inr (d @ snaps)"
  using assms
proof (induction snaps arbitrary: d)
  case (Cons p snaps)
  obtain i s where p: "p = (i, s)" by (cases p)
  have s: "sn_execution_id s = i" "kept s" using Cons.prems(1) p by auto
  have "dict_set i s d = d @ [p]" using Cons.prems(2) p by (simp add: dict_set_new dict_get_None_iff)
  moreover have "col (snapshot_to_row s) ''execution_id'' = Inr (DUuid (execution_uuid i))"
    using s(1) by (simp add: snapshot_to_row_def)
  ultimately show ?case
    using Cons.IH [of "d @ [p]"] Cons.prems read_snapshot_row [OF s(2)] p by simp
qed simp

lemma stores_snapshots: "stores t db \<Longrightarrow> \<forall>(i, s) \<in> set (cr_snapshots db). sn_execution_id s = i \<and> kept s"
  by (auto simp: stores_def runtime_ok_def db_ok_def snapshots_ok_def dict_get_iff_mem)

lemma dict_of_keys:
  assumes "distinct (dict_keys d)"
  shows "map (\<lambda>k. (k, the (dict_get d k))) (dict_keys d) = d"
proof -
  have "(\<lambda>k. (k, the (dict_get d k))) (fst p) = p" if "p \<in> set d" for p
    using that dict_get_iff_mem [OF assms, of "fst p" "snd p"] by (metis option.sel prod.collapse)
  then show ?thesis by (simp add: map_idI)
qed

lemma load_stored:
  assumes "stores t db"
  shows "load_state t = Inr (db\<lparr>cr_outbox_events := []\<rparr>)"
proof -
  have db: "runtime_ok db" "pr_snapshots t = map snapshot_to_row (dict_values (cr_snapshots db))"
    "list_all2 (index_row (cr_fingerprints db)) (pr_idempotency t) (cr_idempotency_index db)"
    using assms by (auto simp: stores_def)
  have "map (\<lambda>i. (i, the (dict_get (cr_fingerprints db) i))) (dict_values (cr_idempotency_index db)) = cr_fingerprints db"
    using db(1) dict_of_keys [of "cr_fingerprints db"] unfolding runtime_ok_def by metis
  then have fps: "map (\<lambda>p. (snd p, the (dict_get (cr_fingerprints db) (snd p)))) (cr_idempotency_index db) = cr_fingerprints db"
    by (simp add: comp_def)
  have d: "distinct (map fst (cr_idempotency_index db))" "distinct (map snd (cr_idempotency_index db))"
    using db(1) unfolding runtime_ok_def db_ok_def by metis+
  have i: "load_idempotency (pr_idempotency t) ([], []) = Inr (cr_idempotency_index db, cr_fingerprints db)"
    using load_idempotency_rows [OF db(3), of "[]" "[]"] d fps by simp
  have s: "load_snapshots (pr_snapshots t) [] = Inr (cr_snapshots db)"
    using load_snapshots_rows [OF stores_snapshots [OF assms], of "[]"] db by (simp add: runtime_ok_def db_ok_def snapshots_ok_def)
  have "cr_idempotency_index db = [] \<Longrightarrow> cr_fingerprints db = []" using db(1) by (simp add: runtime_ok_def)
  then show ?thesis
    by (cases db) (auto simp: load_state_def i s empty_runtime_state_def)
qed

section \<open>What a write leaves in the tables\<close>

lemma snapshot_eq_refl [simp]: "snapshot_eq s s"
  by (simp add: snapshot_eq_def dict_eq_def suspension_eq_def list_all_iff dt_eq_def split: option.split)

lemma filter_kept_all [simp]: "filter (\<lambda>k. k \<notin> set xs) xs = []"
  by (simp add: filter_empty_conv)

lemma update_keys_same:
  assumes "\<forall>k \<in> set ks. \<exists>i fp. dict_get (cr_idempotency_index a) k = Some i \<and> dict_get (cr_idempotency_index b) k = Some i
    \<and> dict_get (cr_fingerprints a) i = Some fp \<and> dict_get (cr_fingerprints b) i = Some fp"
  shows "update_keys a b ks table = Inr table"
  using assms by (induction ks) (auto simp: dict_item_def)

lemma update_snapshots_same:
  assumes "\<forall>i \<in> set is. \<exists>s. dict_get (cr_snapshots a) i = Some s \<and> dict_get (cr_snapshots b) i = Some s"
  shows "update_snapshots a b is table = Inr table"
  using assms by (induction "is") (auto simp: dict_item_def)

lemma runtime_ok_indexed:
  "runtime_ok db \<Longrightarrow> k \<in> set (dict_keys (cr_idempotency_index db)) \<Longrightarrow>
     \<exists>i fp. dict_get (cr_idempotency_index db) k = Some i \<and> dict_get (cr_fingerprints db) i = Some fp"
  by (metis db_ok_def dict_get_None_iff indexed_spec_def not_None_eq runtime_ok_def)

lemma dict_get_mem: "i \<in> set (dict_keys d) \<Longrightarrow> \<exists>v. dict_get d i = Some v"
  by (metis dict_get_None_iff not_None_eq)

text \<open>Nothing changed: nothing is written.\<close>

lemma persist_unchanged:
  assumes "runtime_ok db"
  shows "persist_state c db db [] t = Inr (Persisted t)"
proof -
  have "update_keys db db (filter (\<lambda>k. k \<in> set (dict_keys (cr_idempotency_index db))) (dict_keys (cr_idempotency_index db))) x = Inr x" for x
    by (rule update_keys_same) (use runtime_ok_indexed [OF assms] in auto)
  moreover have "update_snapshots db db (filter (\<lambda>i. i \<in> set (dict_keys (cr_snapshots db))) (dict_keys (cr_snapshots db))) x = Inr x" for x
    by (rule update_snapshots_same) (use dict_get_mem in fastforce)
  ultimately show ?thesis
    by (simp add: persist_state_def persist_idempotency_def persist_snapshots_def Let_def del: set_map)
qed

text \<open>A new key: its row is inserted.\<close>

lemma persist_new_key:
  assumes db: "runtime_ok db" and rows: "list_all2 (index_row (cr_fingerprints db)) table (cr_idempotency_index db)"
    and free: "dict_get (cr_idempotency_index db) k = None" and fresh: "dict_get (cr_fingerprints db) i = None"
    and after: "cr_idempotency_index after = dict_set k i (cr_idempotency_index db)"
      "cr_fingerprints after = dict_set i fp (cr_fingerprints db)"
    and fp: "\<forall>v \<in> set fp. fp_storable v"
  shows "\<exists>r. persist_idempotency c db after table = Inr (Persisted (table @ [r])) \<and> index_row (cr_fingerprints after) r (k, i)"
proof -
  obtain tenant key where k: "k = (tenant, key)" by (cases k)
  from fingerprint_json_roundtrip [OF fp] obtain js where js: "fingerprint_to_json fp = Inr js" by blast
  define r where "r = [(''tenant_id'', DUuid (tenant_uuid tenant)), (''idempotency_key'', DText key),
            (''execution_id'', DUuid (execution_uuid i)), (''fingerprint'', DJson (VList js)), (''created_at'', DTime (utc c))]"
  obtain r0 where r0: "idempotency_to_row tenant key i fp c = Inr r0" "stored_row (json_params r0) = r"
    using js to_json_fingerprint [OF js] by (simp add: idempotency_to_row_def stored_row_def json_params_def r_def)
  have idx: "dict_keys (cr_idempotency_index after) = dict_keys (cr_idempotency_index db) @ [k]"
    using free after(1) by (simp add: dict_set_new)
  have gone: "filter (\<lambda>x. x \<notin> set (dict_keys (cr_idempotency_index after))) (dict_keys (cr_idempotency_index db)) = []"
    unfolding idx by (simp add: filter_empty_conv)
  have new: "filter (\<lambda>x. x \<notin> set (dict_keys (cr_idempotency_index db))) (dict_keys (cr_idempotency_index after)) = [k]"
    unfolding idx using free by (simp add: dict_get_None_iff del: set_map)
  have "\<not> same_cols [''tenant_id'', ''idempotency_key''] r x" if "x \<in> set table" for x
  proof -
    from rows that obtain p where p: "p \<in> set (cr_idempotency_index db)" "index_row (cr_fingerprints db) x p"
      by (metis list_all2_conv_all_nth in_set_conv_nth)
    moreover from free p(1) have "fst p \<noteq> k" by (auto simp: dict_get_None_iff)
    ultimately show ?thesis by (cases p; cases "fst p") (auto simp: index_row_def same_cols_def r_def k)
  qed
  then have ins: "sql_insert [[''tenant_id'', ''idempotency_key'']] (json_params r0) table = Inr (table @ [r])"
    using r0(2) by (auto simp: sql_insert_def list_ex_iff)
  have up: "update_keys db after (filter (\<lambda>x. x \<in> set (dict_keys (cr_idempotency_index after))) (dict_keys (cr_idempotency_index db))) x = Inr x" for x
  proof (rule update_keys_same, rule ballI)
    fix l assume "l \<in> set (filter (\<lambda>x. x \<in> set (dict_keys (cr_idempotency_index after))) (dict_keys (cr_idempotency_index db)))"
    then have "l \<in> set (dict_keys (cr_idempotency_index db))" by simp
    with runtime_ok_indexed [OF db] obtain j fp' where
      "dict_get (cr_idempotency_index db) l = Some j" "dict_get (cr_fingerprints db) j = Some fp'" by blast
    with free fresh show "\<exists>j fp. dict_get (cr_idempotency_index db) l = Some j \<and> dict_get (cr_idempotency_index after) l = Some j
        \<and> dict_get (cr_fingerprints db) j = Some fp \<and> dict_get (cr_fingerprints after) j = Some fp"
      unfolding after by auto
  qed
  have "insert_keys c after [k] table = Inr (Persisted (table @ [r]))"
    using r0(1) ins after k by (simp add: dict_item_def)
  then have "persist_idempotency c db after table = Inr (Persisted (table @ [r]))"
    by (simp add: persist_idempotency_def Let_def gone new up del: set_map)
  moreover have "index_row (cr_fingerprints after) r (k, i)"
    using fp js k unfolding after index_row_def r_def by auto
  ultimately show ?thesis by blast
qed

text \<open>A new execution: its row is inserted.\<close>

lemma execution_row_snapshot:
  "execution_row tenant i (snapshot_to_row s) \<longleftrightarrow> ms_tenant_id (sn_scope s) = tenant \<and> sn_execution_id s = i"
  by (auto simp: execution_row_def row_is_def snapshot_to_row_def intro: execution_id.expand)

lemma persist_new_snapshot:
  assumes snaps: "\<forall>(i, s) \<in> set (cr_snapshots db). sn_execution_id s = i"
    and free: "dict_get (cr_snapshots db) (sn_execution_id s) = None" and s: "kept s"
    and after: "cr_snapshots after = dict_set (sn_execution_id s) s (cr_snapshots db)"
  shows "persist_snapshots db after (map snapshot_to_row (dict_values (cr_snapshots db)))
    = Inr (map snapshot_to_row (dict_values (cr_snapshots after)))"
proof -
  let ?i = "sn_execution_id s" and ?rows = "map snapshot_to_row (dict_values (cr_snapshots db))"
  have app: "cr_snapshots after = cr_snapshots db @ [(?i, s)]" using free after by (simp add: dict_set_new)
  have keys: "dict_keys (cr_snapshots after) = dict_keys (cr_snapshots db) @ [?i]" unfolding app by simp
  have gone: "filter (\<lambda>x. x \<notin> set (dict_keys (cr_snapshots after))) (dict_keys (cr_snapshots db)) = []"
    unfolding keys by (simp add: filter_empty_conv)
  have new: "filter (\<lambda>x. x \<notin> set (dict_keys (cr_snapshots db))) (dict_keys (cr_snapshots after)) = [?i]"
    unfolding keys using free by (simp add: dict_get_None_iff del: set_map)
  have "\<not> same_cols [''tenant_id'', ''execution_id''] (snapshot_to_row s) x" if "x \<in> set ?rows" for x
  proof -
    from that obtain j t where t: "(j, t) \<in> set (cr_snapshots db)" "x = snapshot_to_row t" by auto
    with snaps free have "sn_execution_id t \<noteq> ?i" by (force simp: dict_get_None_iff)
    with t(2) show ?thesis by (auto simp: same_cols_def snapshot_to_row_def dest: execution_id.expand [rotated])
  qed
  then have ins: "sql_insert [[''tenant_id'', ''execution_id'']] (json_params (snapshot_to_row s)) ?rows = Inr (?rows @ [snapshot_to_row s])"
    unfolding json_params_snapshot sql_insert_def stored_snapshot [OF s] by (auto simp: list_ex_iff)
  have up: "update_snapshots db after (filter (\<lambda>x. x \<in> set (dict_keys (cr_snapshots after))) (dict_keys (cr_snapshots db))) x = Inr x" for x
  proof (rule update_snapshots_same, rule ballI)
    fix j assume "j \<in> set (filter (\<lambda>x. x \<in> set (dict_keys (cr_snapshots after))) (dict_keys (cr_snapshots db)))"
    then obtain t where "dict_get (cr_snapshots db) j = Some t" using dict_get_mem [of j "cr_snapshots db"] by auto
    with free show "\<exists>s. dict_get (cr_snapshots db) j = Some s \<and> dict_get (cr_snapshots after) j = Some s"
      unfolding after by auto
  qed
  have "dict_get (cr_snapshots after) ?i = Some s" using after by simp
  then have "insert_snapshots after [?i] ?rows = Inr (?rows @ [snapshot_to_row s])"
    using ins by (simp add: dict_item_def del: json_params_snapshot)
  then have "persist_snapshots db after ?rows = Inr (?rows @ [snapshot_to_row s])"
    unfolding persist_snapshots_def Let_def gone new by (simp add: up del: set_map)
  then show ?thesis unfolding app by simp
qed

text \<open>An execution that moved on: its row is replaced in place.\<close>

lemma assign_snapshot_columns:
  "ms_tenant_id (sn_scope s) = ms_tenant_id (sn_scope s0) \<Longrightarrow> sn_execution_id s = sn_execution_id s0 \<Longrightarrow>
     assign_columns snapshot_columns (snapshot_to_row s) (snapshot_to_row s0) = snapshot_to_row s"
  by (simp add: assign_columns_def snapshot_columns_def snapshot_to_row_def)

lemma update_one_snapshot:
  assumes "distinct is" and "\<forall>j \<in> set is. \<exists>t. dict_get (cr_snapshots db) j = Some t"
    and "cr_snapshots after = dict_set i s (cr_snapshots db)" and "dict_get (cr_snapshots db) i = Some s0" and "\<not> snapshot_eq s0 s"
  shows "update_snapshots db after is table = Inr (if i \<in> set is then update_snapshot_row s table else table)"
  using assms(1,2)
proof (induction "is" arbitrary: table)
  case (Cons j js)
  then obtain t where t: "dict_get (cr_snapshots db) j = Some t" by auto
  have same: "update_snapshots db after js table' = Inr (if i \<in> set js then update_snapshot_row s table' else table')" for table'
    using Cons by auto
  show ?case
  proof (cases "j = i")
    case True
    with Cons.prems assms(3-5) same show ?thesis by (simp add: dict_item_def)
  next
    case False
    with t assms(3) same show ?thesis by (simp add: dict_item_def)
  qed
qed simp

lemma dict_values_set:
  assumes "distinct (dict_keys d)" and "dict_get d i = Some v0"
  shows "dict_values (dict_set i v d) = map (\<lambda>(k, w). if k = i then v else w) d"
  using assms
proof (induction d)
  case (Cons p d)
  show ?case
  proof (cases "fst p = i")
    case True
    with Cons.prems(1) have ne: "\<forall>x \<in> set d. fst x \<noteq> i" by (fastforce simp: image_iff)
    have "(\<lambda>(k, w). if k = i then v else w) x = snd x" if "x \<in> set d" for x
      using ne that by (cases x) auto
    with True show ?thesis by (cases p) simp
  next
    case False
    with Cons show ?thesis by (cases p) simp
  qed
qed simp

lemma update_row_stored:
  assumes snaps: "\<forall>(i, s) \<in> set d. sn_execution_id s = i" "distinct (dict_keys d)"
    and old: "dict_get d i = Some s0" and s: "kept s" "sn_execution_id s = i" "sn_scope s = sn_scope s0"
  shows "update_snapshot_row s (map snapshot_to_row (dict_values d)) = map snapshot_to_row (dict_values (dict_set i s d))"
proof -
  have row: "(if execution_row (ms_tenant_id (sn_scope s)) (sn_execution_id s) (snapshot_to_row w)
      then assign_columns snapshot_columns (stored_row (json_params (snapshot_to_row s))) (snapshot_to_row w) else snapshot_to_row w)
    = snapshot_to_row (if k = i then s else w)" if mem: "(k, w) \<in> set d" for k w
  proof -
    have k: "sn_execution_id w = k" using snaps(1) mem by auto
    have "w = s0" if "k = i" using that old mem dict_get_iff_mem [OF snaps(2), of i w] by simp
    with k s show ?thesis
      by (auto simp: execution_row_snapshot stored_snapshot assign_snapshot_columns)
  qed
  show ?thesis
    unfolding update_snapshot_row_def dict_values_set [OF snaps(2) old] map_map
  proof (rule map_cong [OF HOL.refl])
    fix p assume p: "p \<in> set d"
    obtain k w where kw: "p = (k, w)" by (cases p)
    show "((\<lambda>r. if execution_row (ms_tenant_id (sn_scope s)) (sn_execution_id s) r
          then assign_columns snapshot_columns (stored_row (json_params (snapshot_to_row s))) r else r) \<circ> (snapshot_to_row \<circ> snd)) p
        = (snapshot_to_row \<circ> (\<lambda>(k, y). if k = i then s else y)) p"
      using row [of k w] p kw by (simp only: comp_apply prod.case snd_conv)
  qed
qed

lemma persist_moved_row:
  assumes "distinct (dict_keys (cr_snapshots db))" and old: "dict_get (cr_snapshots db) i = Some s0" and "\<not> snapshot_eq s0 s"
    and after: "cr_snapshots after = dict_set i s (cr_snapshots db)"
  shows "persist_snapshots db after table = Inr (update_snapshot_row s table)"
proof -
  have i: "i \<in> set (dict_keys (cr_snapshots db))" using old by (metis dict_get_None_iff option.simps(3))
  then have keys: "set (dict_keys (cr_snapshots after)) = set (dict_keys (cr_snapshots db))"
    unfolding after by (auto simp: dom_update)
  have none: "filter (\<lambda>x. x \<notin> set (dict_keys (cr_snapshots after))) (dict_keys (cr_snapshots db)) = []"
      "filter (\<lambda>x. x \<notin> set (dict_keys (cr_snapshots db))) (dict_keys (cr_snapshots after)) = []"
    using keys by (auto simp: filter_empty_conv simp del: set_map)
  have all: "filter (\<lambda>x. x \<in> set (dict_keys (cr_snapshots after))) (dict_keys (cr_snapshots db)) = dict_keys (cr_snapshots db)"
    using keys by (auto simp: filter_id_conv simp del: set_map)
  have found: "\<forall>j \<in> set (dict_keys (cr_snapshots db)). \<exists>t. dict_get (cr_snapshots db) j = Some t"
    using dict_get_mem by (intro ballI)
  have "update_snapshots db after (dict_keys (cr_snapshots db)) table = Inr (update_snapshot_row s table)"
    using update_one_snapshot [OF assms(1) found after old assms(3), of table] by (simp only: i if_True)
  then show ?thesis by (simp add: persist_snapshots_def Let_def none all del: set_map)
qed

lemma persist_moved_snapshot:
  assumes snaps: "\<forall>(i, s) \<in> set (cr_snapshots db). sn_execution_id s = i" "distinct (dict_keys (cr_snapshots db))"
    and old: "dict_get (cr_snapshots db) i = Some s0" and s: "kept s" "sn_execution_id s = i" "sn_scope s = sn_scope s0" "\<not> snapshot_eq s0 s"
    and after: "cr_snapshots after = dict_set i s (cr_snapshots db)"
  shows "persist_snapshots db after (map snapshot_to_row (dict_values (cr_snapshots db)))
    = Inr (map snapshot_to_row (dict_values (cr_snapshots after)))"
  using persist_moved_row [OF snaps(2) old s(4) after] update_row_stored [OF snaps old s(1-3)] after by simp

section \<open>The orchestrator over the tables\<close>

definition new_rows :: "event_envelope list \<Rightarrow> (event_envelope \<times> db_value) list" where
  "new_rows es = map (\<lambda>e. (e, DNull)) es"

lemma persist_outbox_rows:
  assumes "outbox_rows table evs" and "\<forall>e \<in> set es. canonical_event e" and "distinct (map ev_event_id es)"
    and "set (map ev_event_id es) \<inter> (\<lambda>p. ev_event_id (fst p)) ` set evs = {}"
  shows "\<exists>table'. persist_outbox es table = Inr table' \<and> outbox_rows table' (evs @ new_rows es)"
  using assms
proof (induction es arbitrary: table evs)
  case (Cons e es)
  have "ev_event_id e \<notin> (\<lambda>p. ev_event_id (fst p)) ` set evs" using Cons.prems(4) by auto
  from insert_event_row [OF Cons.prems(1) _ this] Cons.prems(2) have
    i: "sql_insert [[''event_id'']] (event_to_row e @ [(''published_at'', DNull)]) table = Inr (table @ [event_row (e, DNull)])"
    "outbox_rows (table @ [event_row (e, DNull)]) (evs @ [(e, DNull)])" by auto
  from Cons.IH [OF i(2)] Cons.prems i(1) show ?case by (auto simp: new_rows_def)
qed (simp add: new_rows_def)

lemma status_event_canonical:
  "0 < sn_revision s \<Longrightarrow> in_utc (sn_updated_at s) \<Longrightarrow> canonical_event (status_changed_event i c z p s)"
proof -
  assume s: "0 < sn_revision s" "in_utc (sn_updated_at s)"
  then have "build_execution_status_changed_event i c z p s = Inr (status_changed_event i c z p s)"
    by (simp add: build_event_Inr in_utc_def aware_def)
  then have "event_ok (status_changed_event i c z p s)"
    unfolding build_execution_status_changed_event_def by (rule mk_event_ok)
  then show ?thesis using s(2) by (simp add: canonical_event_def status_changed_event_def)
qed

lemma in_utc_facts: "in_utc d \<Longrightarrow> aware d \<and> valid_datetime d"
  by (auto simp: in_utc_def aware_def valid_datetime_def day_us_def)

lemma runtime_ok_fingerprints:
  assumes "runtime_ok db" and "dict_get (cr_snapshots db) i = None"
  shows "dict_get (cr_fingerprints db) i = None"
proof (rule ccontr)
  assume "dict_get (cr_fingerprints db) i \<noteq> None"
  then have "i \<in> set (dict_values (cr_idempotency_index db))"
    using assms(1) by (metis dict_get_None_iff runtime_ok_def)
  then obtain k where "(k, i) \<in> set (cr_idempotency_index db)" by auto
  then have "dict_get (cr_idempotency_index db) k = Some i" using assms(1) by (simp add: dict_get_iff_mem runtime_ok_def db_ok_def)
  with assms(1) obtain spec where "indexed_spec db k i spec" unfolding runtime_ok_def db_ok_def by blast
  with assms(2) show False by (simp add: indexed_spec_def)
qed

text \<open>A specification as the start handler makes it from a parsed request.\<close>

definition startable :: "execution_spec \<Rightarrow> bool" where
  "startable spec \<longleftrightarrow> spec_ok spec \<and> scope_ok (sp_scope spec) \<and> spec_dates_ok spec"

lemma initial_kept: "startable spec \<Longrightarrow> in_utc now \<Longrightarrow> kept (initial_snapshot spec now)"
  using in_utc_facts by (auto simp: kept_def storable_def initial_snapshot_def startable_def snapshot_ok_def)

lemma started_runtime_ok:
  assumes db: "runtime_ok db" and spec: "startable spec" "in_utc now"
    and fresh: "dict_get (cr_snapshots db) (sp_id spec) = None" and free: "dict_get (cr_idempotency_index db) (index_key spec) = None"
  shows "runtime_ok (started_state ids now db spec)"
proof -
  have "aware now" using in_utc_facts [OF spec(2)] by simp
  then have "db_ok (started_state ids now db spec)"
    using started_state_ok [of db spec now ids] assms by (simp add: runtime_ok_def startable_def)
  then show ?thesis
    using db fresh free initial_kept [OF spec] runtime_ok_fingerprints [OF db fresh]
    by (auto simp: runtime_ok_def started_state_def dict_set_new dict_get_None_iff simp del: set_map)
qed

lemma start_callback_new:
  assumes "dict_get (cr_idempotency_index db) (index_key spec) = None" and "aware now"
  shows "start_callback ids now spec db [] = Inr ((started_state ids now db spec)\<lparr>cr_outbox_events := []\<rparr>,
    cr_outbox_events (started_state ids now db spec))"
proof -
  let ?s = "initial_snapshot spec now"
  have "mk_execution_snapshot ?s = Inr ?s" using assms(2) by (simp add: mk_execution_snapshot_Inr initial_snapshot_ok)
  moreover have "build_execution_status_changed_event i c z p ?s = Inr (status_changed_event i c z p ?s)" for i c z p
    using assms(2) by (simp add: build_event_Inr initial_snapshot_def)
  ultimately show ?thesis
    using assms(1) by (simp add: start_callback_def emit_transition_def outbox_publish_def started_state_def)
       (simp add: initial_snapshot_def)
qed

lemma persist_started:
  assumes st: "stores t db" and o: "outbox_rows (pr_outbox t) evs" and spec: "startable spec" "in_utc now"
    and fresh: "dict_get (cr_snapshots db) (sp_id spec) = None" and free: "dict_get (cr_idempotency_index db) (index_key spec) = None"
    and id: "ids 0 \<notin> (\<lambda>p. ev_event_id (fst p)) ` set evs"
    and after: "after = started_state ids now db spec"
  shows "\<exists>t'. persist_state c (db\<lparr>cr_outbox_events := []\<rparr>) (after\<lparr>cr_outbox_events := []\<rparr>) (cr_outbox_events after) t = Inr (Persisted t')
    \<and> stores t' after \<and> outbox_rows (pr_outbox t') (evs @ new_rows (cr_outbox_events after))"
proof -
  let ?b = "db\<lparr>cr_outbox_events := []\<rparr>" and ?a = "after\<lparr>cr_outbox_events := []\<rparr>"
  have db: "runtime_ok db" "pr_snapshots t = map snapshot_to_row (dict_values (cr_snapshots db))"
    "list_all2 (index_row (cr_fingerprints db)) (pr_idempotency t) (cr_idempotency_index db)"
    using st by (auto simp: stores_def)
  have ok: "runtime_ok after" unfolding after by (rule started_runtime_ok [OF db(1) spec fresh free])
  have fp: "\<forall>v \<in> set (spec_fingerprint spec). fp_storable v" using spec(1) by (intro spec_fingerprint_storable) (simp add: startable_def)
  have nofp: "dict_get (cr_fingerprints db) (sp_id spec) = None" by (rule runtime_ok_fingerprints [OF db(1) fresh])
  from persist_new_key [of ?b "pr_idempotency t" "index_key spec" "sp_id spec" ?a "spec_fingerprint spec" c] db free nofp fp
  obtain r where r: "persist_idempotency c ?b ?a (pr_idempotency t) = Inr (Persisted (pr_idempotency t @ [r]))"
    "index_row (cr_fingerprints after) r (index_key spec, sp_id spec)"
    by (auto simp: after started_state_def runtime_ok_def)
  have s: "persist_snapshots ?b ?a (pr_snapshots t) = Inr (map snapshot_to_row (dict_values (cr_snapshots after)))"
    using persist_new_snapshot [of ?b "initial_snapshot spec now" ?a] stores_snapshots [OF st] fresh initial_kept [OF spec]
    unfolding db(2) by (fastforce simp: after started_state_def initial_snapshot_def)
  have "cr_outbox_events after = [status_changed_event (ids 0) (CorrelationId (execution_uuid (sp_id spec))) None None (initial_snapshot spec now)]"
    by (simp add: after started_state_def)
  moreover have "canonical_event (status_changed_event (ids 0) (CorrelationId (execution_uuid (sp_id spec))) None None (initial_snapshot spec now))"
    by (rule status_event_canonical) (simp_all add: initial_snapshot_def spec(2))
  ultimately obtain out where out: "persist_outbox (cr_outbox_events after) (pr_outbox t) = Inr out"
    "outbox_rows out (evs @ new_rows (cr_outbox_events after))"
    using persist_outbox_rows [OF o, of "cr_outbox_events after"] id by (auto simp: status_changed_event_def)
  let ?t' = "\<lparr>pr_idempotency = pr_idempotency t @ [r], pr_snapshots = map snapshot_to_row (dict_values (cr_snapshots after)), pr_outbox = out\<rparr>"
  have "list_all2 (index_row (cr_fingerprints after)) (pr_idempotency t @ [r]) (cr_idempotency_index after)"
  proof -
    have "list_all2 (index_row (cr_fingerprints after)) (pr_idempotency t) (cr_idempotency_index db)"
      using db(3) by (rule list_all2_mono) (use nofp in \<open>auto simp: index_row_def after started_state_def\<close>)
    with r(2) free show ?thesis by (simp add: after started_state_def dict_set_new list_all2_appendI)
  qed
  then have "stores ?t' after" using ok by (simp add: stores_def)
  with r(1) s out show ?thesis by (simp add: persist_state_def)
qed

lemma pg_attempt_persisted:
  assumes "load_state t = Inr before" and "callback k before [] = Inr (after, events)"
    and "persist_state (stamp k) before after events (others k t) = Inr (Persisted t')"
  shows "pg_attempts (Suc n) k others stamp callback t = (Inr (), t')"
  using assms by simp

lemma load_from: "stores t db \<Longrightarrow> cr_outbox_events db = [] \<Longrightarrow> load_state t = Inr db"
  using load_stored [of t db] by (cases db) simp

lemma pg_get_stored: "stores t db \<Longrightarrow> pg_get t scope i = get_snapshot db scope i"
  by (simp add: pg_get_def pg_read_def load_stored get_snapshot_def db_read_def snapshot_for_scope_def)

text \<open>A callback that leaves the state alone and publishes nothing.\<close>

lemma persist_same:
  "stores t db \<Longrightarrow> persist_state c (db\<lparr>cr_outbox_events := []\<rparr>) (db\<lparr>cr_outbox_events := []\<rparr>) [] t = Inr (Persisted t)"
  by (rule persist_unchanged) (auto simp: stores_def runtime_ok_def)

lemma start_found:
  assumes "db_ok db" and "spec_ok spec" and "dict_get (cr_idempotency_index db) (index_key spec) = Some i"
  shows "start_callback ids now spec db outbox = (case fst (start ids' now' db spec) of
      Inl e \<Rightarrow> Inl e | Inr s \<Rightarrow> Inr (db, outbox)) \<and> snd (start ids' now' db spec) = db
    \<and> (\<forall>s. fst (start ids' now' db spec) = Inr s \<longrightarrow> snapshot_for_scope db (sp_scope spec) i = Inr s)"
proof -
  from start_taken [OF assms, of ids' now'] obtain old s where t: "indexed_spec db (index_key spec) i old"
    "dict_get (cr_snapshots db) i = Some s"
    "start ids' now' db spec = ((if same_request old spec then Inr s else Inl ExecutionIdempotencyConflict), db)" by blast
  have "fps_eq (spec_fingerprint old) (spec_fingerprint spec) \<longleftrightarrow> same_request old spec"
    by (rule fingerprint_same_request) (use t(1) assms(2) in \<open>auto simp: indexed_spec_def\<close>)
  with t assms(3) show ?thesis
    by (auto simp: start_callback_def indexed_spec_def same_request_def)
qed

text \<open>What the tables give when the key is taken: the answer of the in-memory orchestrator, and no change.\<close>

lemma start_ignores_outbox:
  "dict_get (cr_idempotency_index db) (index_key spec) = Some i \<Longrightarrow>
     fst (start ids now (db\<lparr>cr_outbox_events := es\<rparr>) spec) = fst (start ids now db spec)"
  by (simp add: start_def db_write_def start_callback_def db_read_def snapshot_for_scope_def dict_item_def split: option.split sum.split)

lemma attempt_taken:
  assumes st: "stores t db" and spec: "spec_ok spec" and key: "dict_get (cr_idempotency_index db) (index_key spec) = Some i"
    and quiet: "others k t = t"
  shows "pg_attempts (Suc n) k others stamp (\<lambda>k. start_callback (ids k) now spec) t
      = (case fst (start ids' now' db spec) of Inl e \<Rightarrow> Inl e | Inr s \<Rightarrow> Inr (), t)
    \<and> (\<forall>s. fst (start ids' now' db spec) = Inr s \<longrightarrow> snapshot_for_scope db (sp_scope spec) i = Inr s)"
proof -
  let ?db = "db\<lparr>cr_outbox_events := []\<rparr>"
  have ok: "db_ok ?db" using st by (simp add: stores_def runtime_ok_def)
  have key': "dict_get (cr_idempotency_index ?db) (index_key spec) = Some i" using key by simp
  note f = start_found [OF ok spec key', where ids' = ids' and now' = now', unfolded start_ignores_outbox [OF key], of "ids k" now "[]"]
  show ?thesis
  proof (cases "fst (start ids' now' db spec)")
    case (Inl e)
    with f load_stored [OF st] quiet show ?thesis by simp
  next
    case (Inr s)
    with f load_stored [OF st] quiet persist_same [OF st, of "stamp k"] show ?thesis by (simp add: snapshot_for_scope_def)
  qed
qed

lemma read_indexed:
  assumes "stores t db" and "dict_get (cr_idempotency_index db) k = Some i" and "snapshot_for_scope db scope i = Inr s"
  shows "pg_read t (\<lambda>state. bindE (dict_item (cr_idempotency_index state) k e) (\<lambda>i. snapshot_for_scope state scope i)) = Inr s"
  using assms by (simp add: pg_read_def load_stored dict_item_def)

lemma pg_start_taken:
  assumes st: "stores t db" and spec: "spec_ok spec" and key: "dict_get (cr_idempotency_index db) (index_key spec) = Some i"
    and quiet: "others 0 t = t"
  shows "pg_start others stamp ids now t spec = (fst (start ids' now' db spec), t)"
  using attempt_taken [where n = 4 and k = 0 and others = others and stamp = stamp and ids = ids and now = now and ids' = ids' and now' = now', OF assms]
    read_indexed [OF st key]
  by (auto simp: pg_start_def pg_write_def split: sum.splits)

text \<open>
  A lost race: another process committed the key between the load and the insert.
  The attempt changes nothing, and the next one finds the key taken.
\<close>

lemma persist_raced:
  assumes t': "list_all2 (index_row fps) (pr_idempotency t') index" "dict_get index (index_key spec) = Some i"
    and free: "dict_get (cr_idempotency_index db) (index_key spec) = None" and spec: "startable spec"
    and after: "cr_idempotency_index after = dict_set (index_key spec) (sp_id spec) (cr_idempotency_index db)"
      "cr_fingerprints after = dict_set (sp_id spec) (spec_fingerprint spec) (cr_fingerprints db)"
  shows "persist_state c db after events t' = Inr (Raced t')"
proof -
  let ?k = "index_key spec"
  have "\<forall>v \<in> set (spec_fingerprint spec). fp_storable v" using spec by (intro spec_fingerprint_storable) (simp add: startable_def)
  from fingerprint_json_roundtrip [OF this] obtain js where js: "fingerprint_to_json (spec_fingerprint spec) = Inr js" by blast
  have idx: "dict_keys (cr_idempotency_index after) = dict_keys (cr_idempotency_index db) @ [?k]"
    using free after(1) by (simp add: dict_set_new)
  have gone: "filter (\<lambda>x. x \<notin> set (dict_keys (cr_idempotency_index after))) (dict_keys (cr_idempotency_index db)) = []"
    unfolding idx by (simp add: filter_empty_conv)
  have new: "filter (\<lambda>x. x \<notin> set (dict_keys (cr_idempotency_index db))) (dict_keys (cr_idempotency_index after)) = [?k]"
    unfolding idx using free by (simp add: dict_get_None_iff del: set_map)
  obtain r where r: "r \<in> set (pr_idempotency t')" "index_row fps r (?k, i)"
    using t' by (metis list_all2_conv_all_nth in_set_conv_nth map_of_SomeD)
  obtain r0 where r0: "idempotency_to_row (fst ?k) (snd ?k) (sp_id spec) (spec_fingerprint spec) c = Inr r0"
    "same_cols [''tenant_id'', ''idempotency_key''] (stored_row (json_params r0)) r"
    using js r(2) by (auto simp: idempotency_to_row_def stored_row_def json_params_def same_cols_def index_row_def)
  then have "sql_insert [[''tenant_id'', ''idempotency_key'']] (json_params r0) (pr_idempotency t') = Inl unique_violation"
    using r(1) by (auto simp: sql_insert_def list_ex_iff)
  with r0(1) have "insert_keys c after [?k] (pr_idempotency t') = Inr (Raced (pr_idempotency t'))"
    by (simp add: dict_item_def after)
  then show ?thesis by (simp add: persist_state_def persist_idempotency_def Let_def gone new del: set_map)
qed

lemma pg_start_race:
  assumes st: "stores t db" and spec: "startable spec" "aware now" and free: "dict_get (cr_idempotency_index db) (index_key spec) = None"
    and st': "stores t' db'" and key: "dict_get (cr_idempotency_index db') (index_key spec) = Some i"
    and race: "others 0 t = t'" "others 1 t' = t'"
  shows "pg_start others stamp ids now t spec = (fst (start ids' now' db' spec), t')"
proof -
  let ?db = "db\<lparr>cr_outbox_events := []\<rparr>" and ?a = "started_state (ids 0) now db spec"
  have ok: "spec_ok spec" using spec(1) by (simp add: startable_def)
  have "started_state (ids 0) now ?db spec = ?a" by (simp add: started_state_def)
  then have cb: "start_callback (ids 0) now spec ?db [] = Inr (?a\<lparr>cr_outbox_events := []\<rparr>, cr_outbox_events ?a)"
    using start_callback_new [of ?db spec now "ids 0"] free spec(2) by simp
  have "persist_state (stamp 0) ?db (?a\<lparr>cr_outbox_events := []\<rparr>) (cr_outbox_events ?a) t' = Inr (Raced t')"
    by (rule persist_raced [OF _ key _ spec(1)]) (use st' free in \<open>auto simp: stores_def started_state_def\<close>)
  with cb load_stored [OF st] race(1)
  have "pg_attempts 5 0 others stamp (\<lambda>k. start_callback (ids k) now spec) t
      = pg_attempts 4 1 others stamp (\<lambda>k. start_callback (ids k) now spec) t'"
    by (simp add: eval_nat_numeral)
  with attempt_taken [where n = 3 and k = 1 and others = others and stamp = stamp and ids = ids and now = now and ids' = ids' and now' = now', OF st' ok key race(2)]
    read_indexed [OF st' key]
  show ?thesis by (auto simp: pg_start_def pg_write_def split: sum.splits)
qed

lemma pg_start_free:
  assumes st: "stores t db" and o: "outbox_rows (pr_outbox t) evs" and spec: "startable spec" "in_utc now"
    and fresh: "dict_get (cr_snapshots db) (sp_id spec) = None" and free: "dict_get (cr_idempotency_index db) (index_key spec) = None"
    and id: "ids 0 0 \<notin> (\<lambda>p. ev_event_id (fst p)) ` set evs" and quiet: "others 0 t = t"
  shows "\<exists>t'. pg_start others stamp ids now t spec = (Inr (initial_snapshot spec now), t')
    \<and> stores t' (started_state (ids 0) now db spec)
    \<and> outbox_rows (pr_outbox t') (evs @ new_rows (cr_outbox_events (started_state (ids 0) now db spec)))"
proof -
  let ?db = "db\<lparr>cr_outbox_events := []\<rparr>" and ?a = "started_state (ids 0) now db spec"
  have aw: "aware now" using in_utc_facts [OF spec(2)] by simp
  from persist_started [where ids = "ids 0" and c = "stamp 0", OF st o spec fresh free id HOL.refl] obtain t' where
    t': "persist_state (stamp 0) ?db (?a\<lparr>cr_outbox_events := []\<rparr>) (cr_outbox_events ?a) t = Inr (Persisted t')"
    "stores t' ?a" "outbox_rows (pr_outbox t') (evs @ new_rows (cr_outbox_events ?a))" by blast
  have "started_state (ids 0) now ?db spec = ?a" by (simp add: started_state_def)
  then have "start_callback (ids 0) now spec ?db [] = Inr (?a\<lparr>cr_outbox_events := []\<rparr>, cr_outbox_events ?a)"
    using start_callback_new [of ?db spec now "ids 0"] free aw by simp
  with load_stored [OF st] t'(1) quiet
  have "pg_write others stamp (\<lambda>k. start_callback (ids k) now spec) t = (Inr (), t')"
    by (simp add: pg_write_def eval_nat_numeral)
  moreover have "pg_read t' (\<lambda>state. bindE (dict_item (cr_idempotency_index state) (index_key spec) (KeyError ''index_key''))
            (\<lambda>i. snapshot_for_scope state (sp_scope spec) i)) = Inr (initial_snapshot spec now)"
    using load_stored [OF t'(2)]
    by (simp add: pg_read_def dict_item_def snapshot_for_scope_def started_state_def initial_snapshot_def)
  ultimately show ?thesis using t'(2,3) by (auto simp: pg_start_def)
qed

section \<open>Cancellation over the tables\<close>

lemma stores_snapshot:
  "stores t db \<Longrightarrow> dict_get (cr_snapshots db) i = Some s \<Longrightarrow> kept s \<and> sn_execution_id s = i \<and> snapshot_ok s"
  by (auto simp: stores_def runtime_ok_def db_ok_def snapshots_ok_def dict_get_iff_mem)

lemma moved_kept: "kept s \<Longrightarrow> in_utc now \<Longrightarrow> 0 \<le> n \<Longrightarrow> kept (moved s st n now)"
  using in_utc_facts [of now] by (auto simp: kept_def storable_def moved_ok) (auto simp: moved_def)

definition cancelled :: "execution_snapshot \<Rightarrow> datetime \<Rightarrow> execution_snapshot" where
  "cancelled s now = moved s CANCELLED (if sn_status s = CANCELLING then 1 else 2) now"

lemma cancelled_state_simps:
  "cr_snapshots (cancelled_state ids now db s) = dict_set (sn_execution_id s) (cancelled s now) (cr_snapshots db)"
  "cr_idempotency_index (cancelled_state ids now db s) = cr_idempotency_index db"
  "cr_fingerprints (cancelled_state ids now db s) = cr_fingerprints db"
  "cr_outbox_events (cancelled_state ids now db s) = cr_outbox_events db
     @ transition_events ids 0 (CorrelationId (execution_uuid (sn_execution_id s))) (cancel_steps s now)"
  by (simp_all add: cancelled_state_def last_cancel_step cancelled_def)

lemma cancel_callback_active:
  assumes s: "dict_get (cr_snapshots db) i = Some s" "sn_scope s = scope" "snapshot_ok s" "sn_execution_id s = i"
    and now: "aware now" and active: "sn_status s \<notin> {CANCELLED, FAILED, SUCCEEDED, COMPENSATING}"
  shows "cancel_callback ids now scope i db [] = Inr ((cancelled_state ids now db s)\<lparr>cr_outbox_events := cr_outbox_events db\<rparr>,
    transition_events ids 0 (CorrelationId (execution_uuid i)) (cancel_steps s now))"
proof -
  have "\<forall>(p, t) \<in> set (cancel_steps s now). 0 < sn_revision t \<and> aware (sn_updated_at t)"
    using s(3) now by (auto simp: cancel_steps_def snapshot_ok_def)
  note em = emit_all_eq [OF this]
  have "foldl commit_snapshot db (map snd (cancel_steps s now)) = (cancelled_state ids now db s)\<lparr>cr_outbox_events := cr_outbox_events db\<rparr>"
    using s(4) by (simp add: cancel_steps_def commit_snapshot_def dict_set_twice cancelled_state_def)
  moreover have "cancel_steps s now \<noteq> []" by (simp add: cancel_steps_def)
  moreover have look: "snapshot_for_scope db scope i = Inr s" using s by simp
  ultimately show ?thesis
    using cancel_transitions_eq [OF s(3) now] active by (simp add: cancel_callback_def em look)
qed

text \<open>
  \<open>u\<close> are the tables that the write-back finds: those that were loaded, or those
  that another process left in the meantime.
\<close>

lemma persist_cancelled_on:
  assumes st: "stores t db" and o: "outbox_rows (pr_outbox u) evs" and now: "in_utc now"
    and s: "dict_get (cr_snapshots db) i = Some s" and active: "sn_status s \<notin> {CANCELLED, FAILED, SUCCEEDED, COMPENSATING}"
    and id: "{ids 0, ids 1} \<inter> (\<lambda>p. ev_event_id (fst p)) ` set evs = {}" "ids 0 \<noteq> ids (1 :: nat)"
    and events: "events = transition_events ids 0 (CorrelationId (execution_uuid i)) (cancel_steps s now)"
    and idx: "list_all2 (index_row (cr_fingerprints db)) (pr_idempotency u) (cr_idempotency_index db)"
    and up: "update_snapshot_row (cancelled s now) (pr_snapshots u)
      = map snapshot_to_row (dict_values (dict_set i (cancelled s now) (cr_snapshots db)))"
  shows "\<exists>t'. persist_state c (db\<lparr>cr_outbox_events := []\<rparr>) ((cancelled_state ids now db s)\<lparr>cr_outbox_events := []\<rparr>) events u
      = Inr (Persisted t')
    \<and> stores t' (cancelled_state ids now db s) \<and> outbox_rows (pr_outbox t') (evs @ new_rows events)"
proof -
  let ?b = "db\<lparr>cr_outbox_events := []\<rparr>" and ?c = "cancelled_state ids now db s"
  let ?a = "?c\<lparr>cr_outbox_events := []\<rparr>"
  have db: "runtime_ok db" using st by (auto simp: stores_def)
  have k: "kept s" "sn_execution_id s = i" "snapshot_ok s" using stores_snapshot [OF st s] by auto
  have kc: "kept (cancelled s now)" using moved_kept [OF k(1) now] by (simp add: cancelled_def)
  have i: "persist_idempotency c ?b ?a (pr_idempotency u) = Inr (Persisted (pr_idempotency u))"
  proof -
    have "update_keys ?b ?a (filter (\<lambda>k. k \<in> set (dict_keys (cr_idempotency_index db))) (dict_keys (cr_idempotency_index db))) x = Inr x" for x
      by (rule update_keys_same) (use runtime_ok_indexed [OF db] in \<open>auto simp: cancelled_state_simps\<close>)
    then show ?thesis by (simp add: persist_idempotency_def Let_def cancelled_state_simps del: set_map)
  qed
  have "\<not> snapshot_eq s (cancelled s now)" by (simp add: snapshot_eq_def cancelled_def)
  moreover have d: "distinct (dict_keys (cr_snapshots ?b))" using db by (simp add: runtime_ok_def db_ok_def snapshots_ok_def)
  ultimately have sn: "persist_snapshots ?b ?a (pr_snapshots u) = Inr (map snapshot_to_row (dict_values (cr_snapshots ?c)))"
    using persist_moved_row [OF d, of i s "cancelled s now" ?a "pr_snapshots u"] s k(2) up by (simp add: cancelled_state_simps)
  have ev: "\<forall>e \<in> set events. canonical_event e"
    using k(3) now by (auto simp: events transition_events_def cancel_steps_def snapshot_ok_def upt_rec intro!: status_event_canonical)
  have "distinct (map ev_event_id events)" "set (map ev_event_id events) \<subseteq> {ids 0, ids 1}"
    using id(2) by (auto simp: events transition_events_def cancel_steps_def status_changed_event_def upt_rec)
  with persist_outbox_rows [OF o ev] id(1) obtain out where out: "persist_outbox events (pr_outbox u) = Inr out"
    "outbox_rows out (evs @ new_rows events)" by blast
  let ?t' = "\<lparr>pr_idempotency = pr_idempotency u, pr_snapshots = map snapshot_to_row (dict_values (cr_snapshots ?c)), pr_outbox = out\<rparr>"
  have ok: "db_ok ?c" using cancelled_state_ok [of db now i s ids] db s in_utc_facts [OF now] by (simp add: runtime_ok_def)
  have "kept w" if w: "w \<in> set (dict_values (cr_snapshots ?c))" for w
  proof -
    have "distinct (dict_keys (cr_snapshots ?c))" using ok by (simp add: db_ok_def snapshots_ok_def)
    then obtain j where "dict_get (cr_snapshots ?c) j = Some w" using w by (force simp: dict_get_iff_mem)
    with kc stores_snapshot [OF st] show ?thesis by (auto simp: cancelled_state_simps split: if_splits)
  qed
  then have "\<forall>w \<in> set (dict_values (cr_snapshots ?c)). kept w" by blast
  then have "runtime_ok ?c" using ok db unfolding runtime_ok_def cancelled_state_simps(2,3) by blast
  then have "stores ?t' ?c" using idx by (simp add: stores_def cancelled_state_simps)
  with i sn out show ?thesis by (simp add: persist_state_def)
qed

lemma stores_distinct: "stores t db \<Longrightarrow> distinct (dict_keys (cr_snapshots db))"
  by (simp add: stores_def runtime_ok_def db_ok_def snapshots_ok_def)

lemma stores_keyed: "stores t db \<Longrightarrow> \<forall>(i, s) \<in> set (cr_snapshots db). sn_execution_id s = i"
  using stores_snapshots by fastforce

lemma cancelled_facts: "sn_execution_id (cancelled s now) = sn_execution_id s" "sn_scope (cancelled s now) = sn_scope s"
  "kept s \<Longrightarrow> in_utc now \<Longrightarrow> kept (cancelled s now)"
  by (simp_all add: cancelled_def moved_kept)

lemma persist_cancelled:
  assumes st: "stores t db" and "outbox_rows (pr_outbox t) evs" and now: "in_utc now"
    and s: "dict_get (cr_snapshots db) i = Some s" and "sn_status s \<notin> {CANCELLED, FAILED, SUCCEEDED, COMPENSATING}"
    and "{ids 0, ids 1} \<inter> (\<lambda>p. ev_event_id (fst p)) ` set evs = {}" "ids 0 \<noteq> ids (1 :: nat)"
    and "events = transition_events ids 0 (CorrelationId (execution_uuid i)) (cancel_steps s now)"
  shows "\<exists>t'. persist_state c (db\<lparr>cr_outbox_events := []\<rparr>) ((cancelled_state ids now db s)\<lparr>cr_outbox_events := []\<rparr>) events t
      = Inr (Persisted t')
    \<and> stores t' (cancelled_state ids now db s) \<and> outbox_rows (pr_outbox t') (evs @ new_rows events)"
proof (rule persist_cancelled_on [OF assms])
  show "list_all2 (index_row (cr_fingerprints db)) (pr_idempotency t) (cr_idempotency_index db)" using st by (simp add: stores_def)
  show "update_snapshot_row (cancelled s now) (pr_snapshots t)
      = map snapshot_to_row (dict_values (dict_set i (cancelled s now) (cr_snapshots db)))"
    using update_row_stored [OF stores_keyed [OF st] stores_distinct [OF st] s] stores_snapshot [OF st s] now st
    by (simp add: cancelled_facts stores_def)
qed

text \<open>The same write-back after another process has cancelled the execution.\<close>

lemma persist_cancelled_late:
  assumes st: "stores t db" and o: "outbox_rows (pr_outbox u) evs" and now: "in_utc now" "in_utc now'"
    and s: "dict_get (cr_snapshots db) i = Some s" and active: "sn_status s \<notin> {CANCELLED, FAILED, SUCCEEDED, COMPENSATING}"
    and id: "{ids 0, ids 1} \<inter> (\<lambda>p. ev_event_id (fst p)) ` set evs = {}" "ids 0 \<noteq> ids (1 :: nat)"
    and events: "events = transition_events ids 0 (CorrelationId (execution_uuid i)) (cancel_steps s now)"
    and u: "stores u (cancelled_state ids' now' db s)"
  shows "\<exists>t'. persist_state c (db\<lparr>cr_outbox_events := []\<rparr>) ((cancelled_state ids now db s)\<lparr>cr_outbox_events := []\<rparr>) events u
      = Inr (Persisted t')
    \<and> stores t' (cancelled_state ids now db s) \<and> outbox_rows (pr_outbox t') (evs @ new_rows events)"
proof (rule persist_cancelled_on [OF st o now(1) s active id events])
  have i: "sn_execution_id s = i" "kept s" using stores_snapshot [OF st s] by auto
  show "list_all2 (index_row (cr_fingerprints db)) (pr_idempotency u) (cr_idempotency_index db)"
    using u by (simp add: stores_def cancelled_state_simps)
  have "dict_get (cr_snapshots (cancelled_state ids' now' db s)) i = Some (cancelled s now')" by (simp add: cancelled_state_simps i(1))
  from update_row_stored [OF stores_keyed [OF u] stores_distinct [OF u] this, of "cancelled s now"] i u now(1)
  show "update_snapshot_row (cancelled s now) (pr_snapshots u)
      = map snapshot_to_row (dict_values (dict_set i (cancelled s now) (cr_snapshots db)))"
    by (simp add: cancelled_facts stores_def cancelled_state_simps dict_set_twice)
qed

lemma pg_cancel_quiet:
  assumes st: "stores t db" and o: "outbox_rows (pr_outbox t) evs" and now: "in_utc now"
    and id: "{ids 0 0, ids 0 1} \<inter> (\<lambda>p. ev_event_id (fst p)) ` set evs = {}" "ids 0 0 \<noteq> ids 0 1"
    and quiet: "others 0 t = t" and r: "cancel (ids 0) now db scope i key = (r, db')"
  shows "\<exists>t' new. pg_cancel others stamp ids now t scope i key = (r, t') \<and> stores t' db'
    \<and> cr_outbox_events db' = cr_outbox_events db @ new \<and> outbox_rows (pr_outbox t') (evs @ new_rows new)"
proof -
  let ?db = "db\<lparr>cr_outbox_events := []\<rparr>"
  have ok: "db_ok db" "aware now" using st in_utc_facts [OF now] by (auto simp: stores_def runtime_ok_def)
  have sfs: "snapshot_for_scope ?db scope i = snapshot_for_scope db scope i" by (simp add: snapshot_for_scope_def)
  show ?thesis
  proof (cases "snapshot_for_scope db scope i")
    case (Inl e)
    then have "e = ExecutionNotFound" by (simp add: snapshot_for_scope_Inl)
    with Inl load_stored [OF st] quiet have "pg_cancel others stamp ids now t scope i key = (Inl ExecutionNotFound, t)"
      by (simp add: pg_cancel_def pg_write_def eval_nat_numeral cancel_callback_def sfs)
    with st o r cancel_missing [OF Inl, of "ids 0" now key] show ?thesis by (auto simp: new_rows_def)
  next
    case (Inr s)
    then have s: "dict_get (cr_snapshots db) i = Some s" "sn_scope s = scope" by auto
    have k: "sn_execution_id s = i" "snapshot_ok s" using stores_snapshot [OF st s(1)] by auto
    note c = cancel_found [OF ok s, of "ids 0" key]
    show ?thesis
    proof (cases "sn_status s \<in> {CANCELLED, FAILED, SUCCEEDED, COMPENSATING}")
      case True
      with load_stored [OF st] persist_same [OF st, of "stamp 0"] quiet
      have "pg_cancel others stamp ids now t scope i key = (cancel_result s now, t)"
        by (auto simp: pg_cancel_def pg_write_def eval_nat_numeral cancel_callback_def sfs Inr cancel_transitions_eq [OF k(2) ok(2)]
            cancel_result_def pg_read_def)
      with st o r c True show ?thesis by (auto simp: new_rows_def)
    next
      case False
      let ?c = "cancelled_state (ids 0) now db s" and ?ev = "transition_events (ids 0) 0 (CorrelationId (execution_uuid i)) (cancel_steps s now)"
      from persist_cancelled [where ids = "ids 0" and c = "stamp 0", OF st o now s(1) False id HOL.refl] obtain t' where
        t': "persist_state (stamp 0) ?db (?c\<lparr>cr_outbox_events := []\<rparr>) ?ev t = Inr (Persisted t')"
        "stores t' ?c" "outbox_rows (pr_outbox t') (evs @ new_rows ?ev)" by blast
      have "cancel_callback (ids 0) now scope i ?db [] = Inr (?c\<lparr>cr_outbox_events := []\<rparr>, ?ev)"
        using cancel_callback_active [of ?db i s scope now "ids 0"] s k ok(2) False by (simp add: cancelled_state_def)
      with load_stored [OF st] t'(1) quiet have "pg_write others stamp (\<lambda>k. cancel_callback (ids k) now scope i) t = (Inr (), t')"
        by (simp add: pg_write_def eval_nat_numeral)
      moreover have "pg_read t' (\<lambda>state. snapshot_for_scope state scope i) = cancel_result s now"
        using load_stored [OF t'(2)] False k(1) s(2)
        by (simp add: pg_read_def snapshot_for_scope_def cancelled_state_simps cancel_result_def cancelled_def)
      ultimately have "pg_cancel others stamp ids now t scope i key = (cancel_result s now, t')" by (simp add: pg_cancel_def)
      with t'(2,3) r c False k(1) show ?thesis by (auto simp: cancelled_state_simps)
    qed
  qed
qed

section \<open>The listing reads what the in-memory store lists\<close>

lemma in_scope_snapshot: "in_scope scope (snapshot_to_row s) \<longleftrightarrow> sn_scope s = scope"
proof -
  have "sn_scope s = scope \<longleftrightarrow> ms_tenant_id (sn_scope s) = ms_tenant_id scope
      \<and> ms_subject_id (sn_scope s) = ms_subject_id scope \<and> ms_workspace_id (sn_scope s) = ms_workspace_id scope
      \<and> ms_agent_id (sn_scope s) = ms_agent_id scope"
    by (auto intro: memory_scope.equality)
  then show ?thesis by (simp add: in_scope_def scope_params_def row_is_def snapshot_to_row_def)
qed

lemma snapshot_stamp_row [simp]: "snapshot_stamp (snapshot_to_row s) = execution_key s"
  by (simp add: snapshot_stamp_def row_stamp_def snapshot_to_row_def execution_key_def stamp_key_def)

lemma pg_stream_stored:
  assumes "stores t db"
  shows "pg_execution_stream t scope limit cursor = execution_stream db scope limit cursor"
proof -
  have rows: "mapE row_to_snapshot (slice limit (sort_desc snapshot_stamp (filter (\<lambda>r. in_scope scope r \<and> P r) (pr_snapshots t))))
      = Inr (slice limit (filter (\<lambda>s. P (snapshot_to_row s)) (sort_desc execution_key (filter (\<lambda>s. sn_scope s = scope) (dict_values (cr_snapshots db))))))" for P
  proof -
    let ?vs = "filter (\<lambda>s. sn_scope s = scope \<and> P (snapshot_to_row s)) (dict_values (cr_snapshots db))"
    have "filter (\<lambda>r. in_scope scope r \<and> P r) (pr_snapshots t) = map snapshot_to_row ?vs"
      using assms by (simp add: stores_def filter_map comp_def in_scope_snapshot)
    then have "slice limit (sort_desc snapshot_stamp (filter (\<lambda>r. in_scope scope r \<and> P r) (pr_snapshots t)))
        = map snapshot_to_row (slice limit (sort_desc execution_key ?vs))"
      by (simp add: sort_desc_map slice_def take_map split: option.split)
    moreover have "mapE row_to_snapshot (map snapshot_to_row (slice limit (sort_desc execution_key ?vs))) = Inr (slice limit (sort_desc execution_key ?vs))"
    proof -
      have "set (slice limit (sort_desc execution_key ?vs)) \<subseteq> set (dict_values (cr_snapshots db))"
        by (auto simp: slice_def dest!: in_set_takeD split: option.splits)
      then have "kept s" if "s \<in> set (slice limit (sort_desc execution_key ?vs))" for s
        using that assms by (auto simp: stores_def runtime_ok_def)
      then have "mapE (\<lambda>s. row_to_snapshot (snapshot_to_row s)) (slice limit (sort_desc execution_key ?vs))
          = Inr (map (\<lambda>s. s) (slice limit (sort_desc execution_key ?vs)))"
        by (intro mapE_Inr) (simp add: read_snapshot_row)
      then show ?thesis by (simp add: mapE_map comp_def)
    qed
    moreover have "sort_desc execution_key ?vs
        = filter (\<lambda>s. P (snapshot_to_row s)) (sort_desc execution_key (filter (\<lambda>s. sn_scope s = scope) (dict_values (cr_snapshots db))))"
      by (simp add: sort_desc_def filter_sort rev_filter [symmetric] conj_commute)
    ultimately show ?thesis by simp
  qed
  show ?thesis
    unfolding pg_execution_stream_def execution_stream_def
    by (cases cursor) (auto simp: rows bindE_assoc split: prod.split intro!: bindE_cong)
qed

section \<open>The writer of the workers is monotone\<close>

text \<open>
  \<open>owner\<close> is the tenant of an execution, which never changes; the key of the table
  holds both.
\<close>

definition deliverable :: "(execution_id \<Rightarrow> tenant_id) \<Rightarrow> execution_snapshot \<Rightarrow> bool" where
  "deliverable owner s \<longleftrightarrow> storable s \<and> sn_suspension s = None \<and> sn_failure s = None
     \<and> ms_tenant_id (sn_scope s) = owner (sn_execution_id s)"

definition delivered_row :: "execution_snapshot \<Rightarrow> row" where
  "delivered_row s = stored_row (snapshot_to_row s)"

definition snapshot_table :: "(execution_id \<Rightarrow> tenant_id) \<Rightarrow> row list \<Rightarrow> bool" where
  "snapshot_table owner table \<longleftrightarrow> (\<exists>snaps. table = map delivered_row snaps \<and> (\<forall>s \<in> set snaps. deliverable owner s)
     \<and> distinct (map sn_execution_id snaps))"

lemma delivered_columns:
  "dict_get (delivered_row s) ''tenant_id'' = Some (DUuid (tenant_uuid (ms_tenant_id (sn_scope s))))"
  "dict_get (delivered_row s) ''execution_id'' = Some (DUuid (execution_uuid (sn_execution_id s)))"
  "dict_get (delivered_row s) ''revision'' = Some (DInt (sn_revision s))"
  "dict_get (delivered_row s) ''snapshot'' = Some (DJson (snapshot_to_json s))"
  by (simp_all add: delivered_row_def stored_row_def snapshot_to_row_def)

lemma read_delivered_row:
  assumes "deliverable owner s"
  shows "row_to_snapshot (delivered_row s) = Inr s"
proof -
  have "row_to_snapshot (delivered_row s) = snapshot_from_json (snapshot_to_json s)"
    by (simp add: row_to_snapshot_def col_def delivered_columns del: json_object.simps)
  also have "\<dots> = Inr (without_details s)" using assms by (simp add: snapshot_json_roundtrip deliverable_def)
  also have "without_details s = s" using assms by (cases s) (simp add: without_details_def deliverable_def)
  finally show ?thesis .
qed

lemma assign_delivered_columns:
  "ms_tenant_id (sn_scope s) = ms_tenant_id (sn_scope s0) \<Longrightarrow> sn_execution_id s = sn_execution_id s0 \<Longrightarrow>
     assign_columns snapshot_columns (delivered_row s) (delivered_row s0) = delivered_row s"
  by (simp add: delivered_row_def stored_row_def assign_columns_def snapshot_columns_def snapshot_to_row_def)

definition stored_execution :: "row list \<Rightarrow> execution_id \<Rightarrow> execution_snapshot option" where
  "stored_execution table i = (case find (\<lambda>r. row_is r ''execution_id'' (DUuid (execution_uuid i))) table of
       None \<Rightarrow> None | Some r \<Rightarrow> (case row_to_snapshot r of Inl _ \<Rightarrow> None | Inr s \<Rightarrow> Some s))"

lemma stored_execution_rows:
  assumes "\<forall>s \<in> set snaps. deliverable owner s"
  shows "stored_execution (map delivered_row snaps) i = find (\<lambda>s. sn_execution_id s = i) snaps"
proof -
  have "find (\<lambda>r. row_is r ''execution_id'' (DUuid (execution_uuid i))) (map delivered_row snaps)
      = map_option delivered_row (find (\<lambda>s. sn_execution_id s = i) snaps)"
    unfolding find_map by (rule arg_cong [where f = "map_option delivered_row"], rule find_cong)
      (auto simp: row_is_def delivered_columns intro: execution_id.expand)
  moreover have "deliverable owner s" if "find (\<lambda>s. sn_execution_id s = i) snaps = Some s" for s
    using that assms by (auto simp: find_Some_iff)
  ultimately show ?thesis
    by (cases "find (\<lambda>s. sn_execution_id s = i) snaps") (simp_all add: stored_execution_def read_delivered_row)
qed

lemma find_replace:
  assumes "distinct (map sn_execution_id snaps)"
  shows "find (\<lambda>u. sn_execution_id u = i) (map (\<lambda>t. if sn_execution_id t = sn_execution_id s \<and> sn_revision t < sn_revision s then s else t) snaps)
    = (case find (\<lambda>u. sn_execution_id u = i) snaps of None \<Rightarrow> None
       | Some old \<Rightarrow> if i = sn_execution_id s \<and> sn_revision old < sn_revision s then Some s else Some old)"
  by (induction snaps) auto

lemma upsert_rows:
  assumes "\<forall>t \<in> set snaps. deliverable owner t" and s: "deliverable owner s"
  shows "pg_upsert_snapshot (map delivered_row snaps) s = map delivered_row
    (if sn_execution_id s \<in> sn_execution_id ` set snaps
     then map (\<lambda>t. if sn_execution_id t = sn_execution_id s \<and> sn_revision t < sn_revision s then s else t) snaps
     else snaps @ [s])"
proof -
  have new: "stored_row (json_params (snapshot_to_row s)) = delivered_row s" by (simp add: delivered_row_def)
  have same: "same_cols [''tenant_id'', ''execution_id''] (delivered_row s) (delivered_row t) \<longleftrightarrow> sn_execution_id t = sn_execution_id s"
    if "t \<in> set snaps" for t
    using that assms by (auto simp: same_cols_def delivered_columns deliverable_def intro: execution_id.expand)
  have upd: "assign_columns snapshot_columns (delivered_row s) (delivered_row t) = delivered_row s"
    if "t \<in> set snaps" "sn_execution_id t = sn_execution_id s" for t
    using that assms by (intro assign_delivered_columns) (auto simp: deliverable_def)
  have rev: "dict_get (delivered_row t) ''revision'' = Some (DInt (sn_revision t))" for t by (rule delivered_columns)
  have ex: "list_ex (same_cols [''tenant_id'', ''execution_id''] (delivered_row s)) (map delivered_row snaps)
      \<longleftrightarrow> sn_execution_id s \<in> sn_execution_id ` set snaps"
    by (simp add: list_ex_iff image_iff) (metis same)
  show ?thesis
    unfolding pg_upsert_snapshot_def Let_def new ex using same upd by (auto simp: rev)
qed

interpretation postgres_writer: snapshot_upsert "snapshot_table owner" "deliverable owner" stored_execution pg_upsert_snapshot
  for owner
proof
  fix table s assume t: "snapshot_table owner table" and s: "deliverable owner s"
  then obtain snaps where sn: "table = map delivered_row snaps" "\<forall>t \<in> set snaps. deliverable owner t"
    "distinct (map sn_execution_id snaps)" by (auto simp: snapshot_table_def)
  let ?new = "if sn_execution_id s \<in> sn_execution_id ` set snaps
     then map (\<lambda>t. if sn_execution_id t = sn_execution_id s \<and> sn_revision t < sn_revision s then s else t) snaps else snaps @ [s]"
  have rows: "pg_upsert_snapshot table s = map delivered_row ?new" using upsert_rows [OF sn(2) s] sn(1) by simp
  have ids: "map sn_execution_id (map (\<lambda>t. if sn_execution_id t = sn_execution_id s \<and> sn_revision t < sn_revision s then s else t) snaps)
      = map sn_execution_id snaps" by simp
  have "distinct (map sn_execution_id ?new)"
  proof (cases "sn_execution_id s \<in> sn_execution_id ` set snaps")
    case True
    then show ?thesis by (simp only: True if_True ids sn(3))
  next
    case False
    then show ?thesis using sn(3) by simp
  qed
  moreover have del: "\<forall>t \<in> set ?new. deliverable owner t" using sn(2) s by auto
  ultimately show "snapshot_table owner (pg_upsert_snapshot table s)" unfolding snapshot_table_def rows by blast
  fix i
  have after: "stored_execution (pg_upsert_snapshot table s) i = find (\<lambda>u. sn_execution_id u = i) ?new"
    unfolding rows by (rule stored_execution_rows [OF del])
  have before: "stored_execution table i = find (\<lambda>u. sn_execution_id u = i) snaps"
    unfolding sn(1) by (rule stored_execution_rows [OF sn(2)])
  have find: "find (\<lambda>u. sn_execution_id u = j) snaps = None \<longleftrightarrow> j \<notin> sn_execution_id ` set snaps" for j
    by (auto simp: find_None_iff)
  show "stored_execution (pg_upsert_snapshot table s) i = (if i = sn_execution_id s \<and> (\<forall>old. stored_execution table i = Some old
      \<longrightarrow> sn_revision old < sn_revision s) then Some s else stored_execution table i)"
  proof (cases "sn_execution_id s \<in> sn_execution_id ` set snaps")
    case True
    then have "\<exists>old. find (\<lambda>u. sn_execution_id u = sn_execution_id s) snaps = Some old" using find [of "sn_execution_id s"] by blast
    with True show ?thesis
      unfolding after before
      using find_replace [OF sn(3), of i s] by (auto split: option.splits)
  next
    case False
    have app: "find P (snaps @ [s]) = (case find P snaps of None \<Rightarrow> if P s then Some s else None | Some x \<Rightarrow> Some x)" for P
      by (induction snaps) auto
    from False find have n: "find (\<lambda>u. sn_execution_id u = sn_execution_id s) snaps = None" by blast
    show ?thesis
      unfolding after before
      using False n by (auto simp: app split: option.splits)
  qed
qed

section \<open>Runs of requests\<close>

datatype orch_request =
    StartRequest execution_spec "nat \<Rightarrow> event_id" datetime
  | CancelRequest memory_scope execution_id string "nat \<Rightarrow> event_id" datetime

fun memory_serve :: "orch_request \<Rightarrow> committed_runtime_state \<Rightarrow> execution_snapshot res \<times> committed_runtime_state" where
  "memory_serve (StartRequest spec ids now) db = start ids now db spec"
| "memory_serve (CancelRequest scope i key ids now) db = cancel ids now db scope i key"

fun pg_serve :: "(nat \<Rightarrow> datetime) \<Rightarrow> orch_request \<Rightarrow> pg_runtime \<Rightarrow> execution_snapshot res \<times> pg_runtime" where
  "pg_serve stamp (StartRequest spec ids now) t = pg_start (\<lambda>_ t. t) stamp (\<lambda>_. ids) now t spec"
| "pg_serve stamp (CancelRequest scope i key ids now) t = pg_cancel (\<lambda>_ t. t) stamp (\<lambda>_. ids) now t scope i key"

text \<open>The events that a request publishes: what the in-memory outbox gains.\<close>

fun published :: "orch_request \<Rightarrow> committed_runtime_state \<Rightarrow> event_envelope list" where
  "published (StartRequest spec ids now) db =
     (if dict_get (cr_idempotency_index db) (index_key spec) = None then cr_outbox_events (snd (start ids now db spec)) else [])"
| "published (CancelRequest scope i key ids now) db =
     drop (length (cr_outbox_events db)) (cr_outbox_events (snd (cancel ids now db scope i key)))"

fun drawn :: "orch_request \<Rightarrow> event_id set" where
  "drawn (StartRequest spec ids now) = {ids 0}"
| "drawn (CancelRequest scope i key ids now) = {ids 0, ids 1}"

text \<open>Well-formed requests of a UTC clock that draw identifiers which are not in use.\<close>

fun admissible :: "committed_runtime_state \<Rightarrow> event_id set \<Rightarrow> orch_request \<Rightarrow> bool" where
  "admissible db used (StartRequest spec ids now) =
     (startable spec \<and> in_utc now \<and> dict_get (cr_snapshots db) (sp_id spec) = None \<and> ids 0 \<notin> used)"
| "admissible db used (CancelRequest scope i key ids now) = (in_utc now \<and> {ids 0, ids 1} \<inter> used = {} \<and> ids 0 \<noteq> ids 1)"

fun admissible_run :: "committed_runtime_state \<Rightarrow> event_id set \<Rightarrow> orch_request list \<Rightarrow> bool" where
  "admissible_run db used [] = True"
| "admissible_run db used (q # qs) =
     (admissible db used q \<and> admissible_run (snd (memory_serve q db)) (used \<union> drawn q) qs)"

fun memory_run :: "orch_request list \<Rightarrow> committed_runtime_state
    \<Rightarrow> execution_snapshot res list \<times> committed_runtime_state \<times> event_envelope list" where
  "memory_run [] db = ([], db, [])"
| "memory_run (q # qs) db = (case memory_run qs (snd (memory_serve q db)) of
       (rs, db', es) \<Rightarrow> (fst (memory_serve q db) # rs, db', published q db @ es))"

fun pg_run :: "(nat \<Rightarrow> datetime) \<Rightarrow> orch_request list \<Rightarrow> pg_runtime \<Rightarrow> execution_snapshot res list \<times> pg_runtime" where
  "pg_run stamp [] t = ([], t)"
| "pg_run stamp (q # qs) t = (case pg_run stamp qs (snd (pg_serve stamp q t)) of
       (rs, t') \<Rightarrow> (fst (pg_serve stamp q t) # rs, t'))"

lemma new_rows_append [simp]: "new_rows (a @ b) = new_rows a @ new_rows b" "new_rows [] = []"
  by (simp_all add: new_rows_def)

lemma serve_refines:
  assumes st: "stores t db" and o: "outbox_rows (pr_outbox t) evs" and q: "admissible db ((\<lambda>p. ev_event_id (fst p)) ` set evs) q"
  shows "\<exists>t'. pg_serve stamp q t = (fst (memory_serve q db), t') \<and> stores t' (snd (memory_serve q db))
    \<and> outbox_rows (pr_outbox t') (evs @ new_rows (published q db))"
proof (cases q)
  case (StartRequest spec ids now)
  with q have spec: "startable spec" "in_utc now" "dict_get (cr_snapshots db) (sp_id spec) = None"
    "ids 0 \<notin> (\<lambda>p. ev_event_id (fst p)) ` set evs" by auto
  have aw: "aware now" using in_utc_facts [OF spec(2)] by simp
  show ?thesis
  proof (cases "dict_get (cr_idempotency_index db) (index_key spec)")
    case None
    from pg_start_free [where others = "\<lambda>_ t. t" and stamp = stamp and ids = "\<lambda>_. ids", OF st o spec(1-3) None spec(4) HOL.refl]
    show ?thesis unfolding StartRequest using start_new [OF None aw, of ids] None by auto
  next
    case (Some i)
    have ok: "db_ok db" "spec_ok spec" using st spec(1) by (auto simp: stores_def runtime_ok_def startable_def)
    have "pg_start (\<lambda>_ t. t) stamp (\<lambda>_. ids) now t spec = (fst (start ids now db spec), t)"
      by (rule pg_start_taken [where others = "\<lambda>_ t. t", OF st ok(2) Some HOL.refl])
    moreover have "snd (start ids now db spec) = db" using start_taken [OF ok Some, of ids now] by auto
    ultimately show ?thesis using StartRequest Some st o by simp
  qed
next
  case (CancelRequest scope i key ids now)
  with q have c: "in_utc now" "{ids 0, ids 1} \<inter> (\<lambda>p. ev_event_id (fst p)) ` set evs = {}" "ids 0 \<noteq> ids 1" by auto
  obtain r db' where r: "cancel ids now db scope i key = (r, db')" by (cases "cancel ids now db scope i key")
  from pg_cancel_quiet [where others = "\<lambda>_ t. t" and stamp = stamp and ids = "\<lambda>_. ids", OF st o c HOL.refl r]
  obtain t' new where "pg_cancel (\<lambda>_ t. t) stamp (\<lambda>_. ids) now t scope i key = (r, t')" "stores t' db'"
    "cr_outbox_events db' = cr_outbox_events db @ new" "outbox_rows (pr_outbox t') (evs @ new_rows new)" by blast
  with CancelRequest r show ?thesis by simp
qed

lemma published_ids:
  assumes "db_ok db" and "admissible db used q"
  shows "ev_event_id ` set (published q db) \<subseteq> drawn q"
proof (cases q)
  case (StartRequest spec ids now)
  with assms have "aware now" using in_utc_facts by auto
  with StartRequest show ?thesis
    using start_new [of db spec now ids] by (auto simp: started_state_def status_changed_event_def)
next
  case (CancelRequest scope i key ids now)
  with assms have aw: "aware now" using in_utc_facts by auto
  show ?thesis
  proof (cases "snapshot_for_scope db scope i")
    case (Inl e)
    with CancelRequest cancel_missing [OF Inl] show ?thesis by simp
  next
    case (Inr s)
    then have s: "dict_get (cr_snapshots db) i = Some s" "sn_scope s = scope" by auto
    show ?thesis
      using CancelRequest cancel_found [OF assms(1) aw s, of ids key]
      by (auto simp: cancelled_state_simps transition_events_def cancel_steps_def status_changed_event_def upt_rec)
  qed
qed

lemma request_run_refines:
  assumes "stores t db" and "outbox_rows (pr_outbox t) evs" and "(\<lambda>p. ev_event_id (fst p)) ` set evs \<subseteq> used"
    and "admissible_run db used qs" and "memory_run qs db = (rs, db', es)"
  shows "\<exists>t'. pg_run stamp qs t = (rs, t') \<and> stores t' db' \<and> outbox_rows (pr_outbox t') (evs @ new_rows es)"
  using assms
proof (induction qs arbitrary: t db evs used rs es)
  case (Cons q qs)
  have q: "admissible db ((\<lambda>p. ev_event_id (fst p)) ` set evs) q"
    using Cons.prems(3,4) by (cases q) auto
  have ok: "db_ok db" using Cons.prems(1) by (simp add: stores_def runtime_ok_def)
  from serve_refines [OF Cons.prems(1,2) q, of stamp] obtain t1 where
    t1: "pg_serve stamp q t = (fst (memory_serve q db), t1)" "stores t1 (snd (memory_serve q db))"
      "outbox_rows (pr_outbox t1) (evs @ new_rows (published q db))" by blast
  obtain rs1 es1 where m: "memory_run qs (snd (memory_serve q db)) = (rs1, db', es1)" "rs = fst (memory_serve q db) # rs1"
    "es = published q db @ es1" using Cons.prems(5) by (auto split: prod.splits)
  have used: "(\<lambda>p. ev_event_id (fst p)) ` set (evs @ new_rows (published q db)) \<subseteq> used \<union> drawn q"
    using Cons.prems(3) published_ids [OF ok q] by (auto simp: new_rows_def)
  from Cons.IH [OF t1(2,3) used _ m(1)] Cons.prems(4) m t1(1) show ?case by auto
qed simp

text \<open>Two processes that cancel at once: the second write-back does not see the first.\<close>

lemma pg_cancel_late:
  assumes st: "stores t db" and now: "in_utc now" "in_utc now'"
    and s: "dict_get (cr_snapshots db) i = Some s" "sn_scope s = scope" and active: "sn_status s \<notin> {CANCELLED, FAILED, SUCCEEDED, COMPENSATING}"
    and u: "stores u (cancelled_state ids' now' db s)" "outbox_rows (pr_outbox u) evs"
    and id: "{ids 0 0, ids 0 1} \<inter> (\<lambda>p. ev_event_id (fst p)) ` set evs = {}" "ids 0 0 \<noteq> ids 0 1"
    and race: "others 0 t = u"
  shows "\<exists>t'. pg_cancel others stamp ids now t scope i key = (Inr (cancelled s now), t') \<and> stores t' (cancelled_state (ids 0) now db s)
    \<and> outbox_rows (pr_outbox t')
        (evs @ new_rows (transition_events (ids 0) 0 (CorrelationId (execution_uuid i)) (cancel_steps s now)))"
proof -
  let ?db = "db\<lparr>cr_outbox_events := []\<rparr>"
  let ?c = "cancelled_state (ids 0) now db s" and ?ev = "transition_events (ids 0) 0 (CorrelationId (execution_uuid i)) (cancel_steps s now)"
  have k: "sn_execution_id s = i" "snapshot_ok s" using stores_snapshot [OF st s(1)] by auto
  have aw: "aware now" using in_utc_facts [OF now(1)] by simp
  from persist_cancelled_late [where ids = "ids 0" and c = "stamp 0", OF st u(2) now s(1) active id HOL.refl u(1)] obtain t' where
    t': "persist_state (stamp 0) ?db (?c\<lparr>cr_outbox_events := []\<rparr>) ?ev u = Inr (Persisted t')"
    "stores t' ?c" "outbox_rows (pr_outbox t') (evs @ new_rows ?ev)" by blast
  have "cancel_callback (ids 0) now scope i ?db [] = Inr (?c\<lparr>cr_outbox_events := []\<rparr>, ?ev)"
    using cancel_callback_active [of ?db i s scope now "ids 0"] s k aw active by (simp add: cancelled_state_def)
  with load_stored [OF st] t'(1) race have "pg_write others stamp (\<lambda>k. cancel_callback (ids k) now scope i) t = (Inr (), t')"
    by (simp add: pg_write_def eval_nat_numeral)
  moreover have "pg_read t' (\<lambda>state. snapshot_for_scope state scope i) = Inr (cancelled s now)"
    using load_stored [OF t'(2)] k(1) s(2)
    by (simp add: pg_read_def snapshot_for_scope_def cancelled_state_simps cancelled_facts)
  ultimately have "pg_cancel others stamp ids now t scope i key = (Inr (cancelled s now), t')" by (simp add: pg_cancel_def)
  with t'(2,3) show ?thesis by blast
qed

section \<open>Properties\<close>

definition no_rows :: pg_runtime where
  "no_rows = \<lparr>pr_idempotency = [], pr_snapshots = [], pr_outbox = []\<rparr>"

lemma no_rows_stores: "stores no_rows empty_runtime_state" "outbox_rows (pr_outbox no_rows) []"
  using empty_db_ok by (simp_all add: stores_def runtime_ok_def no_rows_def outbox_rows_def) (simp_all add: empty_runtime_state_def)

text \<open>
  C8. The orchestrator runs over the relational database as over the in-memory one.
  From empty stores, any run of starts and cancellations gives the same results;
  afterwards every lookup and every page of the listing agree, and the outbox table
  holds the event of every transition of the run, in order (the in-memory outbox may
  have lost some, see \<open>start_replaces_outbox\<close>).
\<close>

theorem orchestrator_databases_agree:
  assumes "admissible_run empty_runtime_state {} qs" and "memory_run qs empty_runtime_state = (rs, db, es)"
  shows "\<exists>t. pg_run stamp qs no_rows = (rs, t) \<and> (\<forall>scope i. pg_get t scope i = get_snapshot db scope i)
    \<and> (\<forall>scope limit cursor. pg_execution_stream t scope limit cursor = execution_stream db scope limit cursor)
    \<and> map row_digest (pr_outbox t) = map event_digest es"
proof -
  from request_run_refines [OF no_rows_stores _ assms, of stamp] obtain t where
    t: "pg_run stamp qs no_rows = (rs, t)" "stores t db" "outbox_rows (pr_outbox t) (new_rows es)" by auto
  moreover have "map row_digest (pr_outbox t) = map event_digest es"
    using digests_of [OF t(3)] by (simp add: new_rows_def)
  ultimately show ?thesis using pg_get_stored [OF t(2)] pg_stream_stored [OF t(2)] by blast
qed

definition more_event_ids :: "nat \<Rightarrow> event_id" where
  "more_event_ids n = EventId (UUID (of_nat n + 200))"

definition sample_requests :: "orch_request list" where
  "sample_requests = [StartRequest (sample_spec (ExecutionId (UUID 7))) sample_event_ids sample_time,
     CancelRequest sample_scope (ExecutionId (UUID 7)) ''c'' more_event_ids sample_time]"

lemma sample_startable: "startable (sample_spec i)" and sample_utc: "in_utc sample_time"
  by (simp_all add: startable_def spec_dates_ok_def sample_spec_def valid_datetime_def sample_time_def in_range_def max_wall_def
      aware_def day_us_def spec_ok_def blank_iff is_space_def scope_ok_def sample_scope_def in_utc_def)

lemma sample_requests_admissible: "admissible_run empty_runtime_state {} sample_requests"
  by (simp add: sample_requests_def sample_startable sample_utc empty_runtime_state_def sample_event_ids_def more_event_ids_def)

theorem orchestrator_databases_agree_witness:
  "\<exists>rs db es t. memory_run sample_requests empty_runtime_state = (rs, db, es)
    \<and> pg_run (\<lambda>_. sample_time) sample_requests no_rows = (rs, t)
    \<and> pg_get t sample_scope (ExecutionId (UUID 7)) = get_snapshot db sample_scope (ExecutionId (UUID 7))"
proof -
  obtain rs db es where m: "memory_run sample_requests empty_runtime_state = (rs, db, es)"
    by (cases "memory_run sample_requests empty_runtime_state")
  from orchestrator_databases_agree [OF sample_requests_admissible m, of "\<lambda>_. sample_time"] m show ?thesis by auto
qed

text \<open>
  C17. Concurrent starts of one key make one execution. While this process was about to
  insert its key, another process committed a start of the same key; the insert
  conflicts, nothing of this attempt stays, and the next attempt finds the other
  execution: it is returned when the two specifications are the same request and
  refused as a conflict otherwise. The tables are those that the other process left.
\<close>

theorem concurrent_starts_one_execution:
  assumes "stores t db" and "outbox_rows (pr_outbox t) evs" and "dict_get (cr_idempotency_index db) (index_key other) = None"
    and "startable other" "in_utc now'" "dict_get (cr_snapshots db) (sp_id other) = None"
      "ids' 0 0 \<notin> (\<lambda>p. ev_event_id (fst p)) ` set evs"
    and "startable spec" "aware now" "index_key spec = index_key other"
    and "others 0 t = snd (pg_start (\<lambda>_ t. t) stamp' ids' now' t other)" and "others 1 (others 0 t) = others 0 t"
  shows "\<exists>s t'. pg_start (\<lambda>_ t. t) stamp' ids' now' t other = (Inr s, t')
    \<and> pg_start others stamp ids now t spec = (if same_request other spec then Inr s else Inl ExecutionIdempotencyConflict, t')"
proof -
  let ?db = "started_state (ids' 0) now' db other"
  from pg_start_free [where others = "\<lambda>_ t. t" and stamp = stamp' and ids = ids', OF assms(1,2,4,5,6,3,7) HOL.refl] obtain t' where
    t': "pg_start (\<lambda>_ t. t) stamp' ids' now' t other = (Inr (initial_snapshot other now'), t')" "stores t' ?db" by blast
  have o: "others 0 t = t'" "others 1 t' = t'" using assms(11,12) t'(1) by auto
  have ok: "spec_ok other" "spec_ok spec" using assms(4,8) by (auto simp: startable_def)
  have db: "db_ok ?db" using t'(2) by (simp add: stores_def runtime_ok_def)
  have key: "dict_get (cr_idempotency_index ?db) (index_key spec) = Some (sp_id other)"
    using assms(10) by (simp add: started_state_def)
  have free: "dict_get (cr_idempotency_index db) (index_key spec) = None" using assms(3,10) by simp
  from start_taken [OF db ok(2) key, of "ids 0" now] obtain old s where
    old: "indexed_spec ?db (index_key spec) (sp_id other) old" "dict_get (cr_snapshots ?db) (sp_id other) = Some s"
      "start (ids 0) now ?db spec = ((if same_request old spec then Inr s else Inl ExecutionIdempotencyConflict), ?db)" by blast
  have "spec_fingerprint old = spec_fingerprint other" using old(1) by (simp add: indexed_spec_def started_state_def)
  then have "same_request old spec \<longleftrightarrow> same_request other spec"
    using fingerprint_same_request [OF _ ok(2), of old] fingerprint_same_request [OF ok] old(1) by (simp add: indexed_spec_def)
  moreover have "s = initial_snapshot other now'" using old(2) by (simp add: started_state_def)
  ultimately show ?thesis
    using t'(1) old(3) pg_start_race [where others = others and stamp = stamp and ids = ids and ids' = "ids 0" and now' = now,
      OF assms(1,8,9) free t'(2) key o] by simp
qed

theorem concurrent_starts_one_execution_witness:
  "\<exists>s t'. pg_start (\<lambda>_ t. t) (\<lambda>_. sample_time) (\<lambda>_. sample_event_ids) sample_time no_rows (sample_spec (ExecutionId (UUID 7))) = (Inr s, t')
    \<and> pg_start (\<lambda>k t. if k = 0 then snd (pg_start (\<lambda>_ t. t) (\<lambda>_. sample_time) (\<lambda>_. sample_event_ids) sample_time t
          (sample_spec (ExecutionId (UUID 7)))) else t)
        (\<lambda>_. sample_time) (\<lambda>_. more_event_ids) sample_time no_rows (sample_spec (ExecutionId (UUID 9))) = (Inr s, t')"
proof -
  let ?a = "sample_spec (ExecutionId (UUID 7))" and ?b = "sample_spec (ExecutionId (UUID 9))"
  let ?others = "\<lambda>k t. if k = 0 then snd (pg_start (\<lambda>_ t. t) (\<lambda>_. sample_time) (\<lambda>_. sample_event_ids) sample_time t ?a) else t"
  have "index_key ?b = index_key ?a" "same_request ?a ?b"
    by (simp_all add: index_key_def sample_spec_def same_request_def)
  moreover have "dict_get (cr_idempotency_index empty_runtime_state) k = None" "dict_get (cr_snapshots empty_runtime_state) i = None" for k i
    by (simp_all add: empty_runtime_state_def)
  ultimately show ?thesis
    using concurrent_starts_one_execution [where others = ?others and stamp = "\<lambda>_. sample_time" and stamp' = "\<lambda>_. sample_time"
        and ids = "\<lambda>_. more_event_ids" and ids' = "\<lambda>_. sample_event_ids" and other = ?a and spec = ?b and now = sample_time
        and now' = sample_time, OF no_rows_stores] sample_startable sample_utc sample_time_facts(1)
    by simp
qed

text \<open>
  C28. Concurrent cancellations publish twice. A write-back compares the new snapshots
  with the loaded ones, not with the table, so a process that cancels an execution
  which another process has just cancelled succeeds as well: its snapshot replaces
  the other's under the same revision, and the outbox gets a second series of
  status events for revisions that were already published.
\<close>

theorem concurrent_cancels_publish_twice:
  assumes "stores t db" and "outbox_rows (pr_outbox t) evs" and "in_utc now" "in_utc now'"
    and "dict_get (cr_snapshots db) i = Some s" "sn_scope s = scope" "sn_status s \<notin> {CANCELLED, FAILED, SUCCEEDED, COMPENSATING}"
    and "{ids 0 0, ids 0 1, ids' 0 0, ids' 0 1} \<inter> (\<lambda>p. ev_event_id (fst p)) ` set evs = {}"
      "distinct [ids 0 0, ids 0 1, ids' 0 0, ids' 0 1]"
    and "others 0 t = snd (pg_cancel (\<lambda>_ t. t) stamp' ids' now' t scope i key')"
  shows "\<exists>r r' t'. pg_cancel (\<lambda>_ t. t) stamp' ids' now' t scope i key' = (Inr r', others 0 t)
    \<and> pg_cancel others stamp ids now t scope i key = (Inr r, t') \<and> sn_revision r = sn_revision r'
    \<and> outbox_rows (pr_outbox t') (evs @ new_rows
        (transition_events (ids' 0) 0 (CorrelationId (execution_uuid i)) (cancel_steps s now')
         @ transition_events (ids 0) 0 (CorrelationId (execution_uuid i)) (cancel_steps s now)))"
proof -
  have ok: "db_ok db" "aware now'" using assms(1) in_utc_facts [OF assms(4)] by (auto simp: stores_def runtime_ok_def)
  have k: "sn_execution_id s = i" using stores_snapshot [OF assms(1,5)] by simp
  have c: "cancel (ids' 0) now' db scope i key' = (Inr (cancelled s now'), cancelled_state (ids' 0) now' db s)"
    using cancel_found [OF ok assms(5,6), of "ids' 0" key'] assms(7) by (simp add: cancel_result_def cancelled_def)
  have i': "{ids' 0 0, ids' 0 1} \<inter> (\<lambda>p. ev_event_id (fst p)) ` set evs = {}" "ids' 0 0 \<noteq> ids' 0 1" using assms(8,9) by auto
  let ?e' = "transition_events (ids' 0) 0 (CorrelationId (execution_uuid i)) (cancel_steps s now')"
  from pg_cancel_quiet [where others = "\<lambda>_ t. t" and stamp = stamp' and ids = ids', OF assms(1,2,4) i' HOL.refl c] obtain u where
    u: "pg_cancel (\<lambda>_ t. t) stamp' ids' now' t scope i key' = (Inr (cancelled s now'), u)"
      "stores u (cancelled_state (ids' 0) now' db s)" "outbox_rows (pr_outbox u) (evs @ new_rows ?e')"
    by (auto simp: cancelled_state_simps k)
  have new: "(\<lambda>p. ev_event_id (fst p)) ` set (new_rows ?e') \<subseteq> {ids' 0 0, ids' 0 1}"
    by (auto simp: new_rows_def transition_events_def cancel_steps_def status_changed_event_def upt_rec)
  have i: "{ids 0 0, ids 0 1} \<inter> (\<lambda>p. ev_event_id (fst p)) ` set (evs @ new_rows ?e') = {}" "ids 0 0 \<noteq> ids 0 1"
    using assms(8,9) new by auto
  have o: "others 0 t = u" using assms(10) u(1) by simp
  from pg_cancel_late [where others = others and stamp = stamp and ids = ids, OF assms(1,3,4,5,6,7) u(2,3) i o, of key] u(1) o
  show ?thesis by (auto simp: cancelled_def)
qed

lemma sample_tables_started:
  "\<exists>t evs. stores t sample_db \<and> outbox_rows (pr_outbox t) evs \<and> (\<lambda>p. ev_event_id (fst p)) ` set evs = {sample_event_ids 0}"
proof -
  have "dict_get (cr_idempotency_index empty_runtime_state) k = None" "dict_get (cr_snapshots empty_runtime_state) i = None" for k i
    by (simp_all add: empty_runtime_state_def)
  from pg_start_free [where others = "\<lambda>_ t. t" and stamp = "\<lambda>_. sample_time" and ids = "\<lambda>_. sample_event_ids",
      OF no_rows_stores sample_startable [of "ExecutionId (UUID 7)"] sample_utc this(2,1) _ HOL.refl]
  obtain t where "stores t sample_db" "outbox_rows (pr_outbox t) (new_rows (cr_outbox_events sample_db))"
    by (auto simp: sample_db_def)
  moreover have "(\<lambda>p. ev_event_id (fst p)) ` set (new_rows (cr_outbox_events sample_db)) = {sample_event_ids 0}"
    by (simp add: new_rows_def sample_db_def started_state_def status_changed_event_def)
  ultimately show ?thesis by blast
qed

theorem concurrent_cancels_publish_twice_witness:
  "\<exists>t t'. stores t sample_db \<and> (let other = pg_cancel (\<lambda>_ t. t) (\<lambda>_. sample_time) (\<lambda>_ n. EventId (UUID (of_nat n + 300))) sample_time t
        sample_scope (ExecutionId (UUID 7)) ''c'' in
      \<exists>r r'. fst other = Inr r' \<and> pg_cancel (\<lambda>_ _. snd other) (\<lambda>_. sample_time) (\<lambda>_. more_event_ids) sample_time t sample_scope (ExecutionId (UUID 7)) ''d''
        = (Inr r, t') \<and> sn_revision r = sn_revision r' \<and> length (pr_outbox t') = 5)"
proof -
  obtain t evs where t: "stores t sample_db" "outbox_rows (pr_outbox t) evs" "(\<lambda>p. ev_event_id (fst p)) ` set evs = {sample_event_ids 0}"
    using sample_tables_started by blast
  have "length evs = card ((\<lambda>p. ev_event_id (fst p)) ` set evs)"
    using t(2) by (metis distinct_card length_map list.set_map outbox_rows_def)
  then have one: "length evs = 1" using t(3) by simp
  let ?ids' = "\<lambda>_ n. EventId (UUID (of_nat n + 300))"
  let ?other = "pg_cancel (\<lambda>_ t. t) (\<lambda>_. sample_time) ?ids' sample_time t sample_scope (ExecutionId (UUID 7)) ''c''"
  let ?s = "initial_snapshot (sample_spec (ExecutionId (UUID 7))) sample_time"
  have "{more_event_ids 0, more_event_ids 1, EventId (UUID (of_nat 0 + 300)), EventId (UUID (of_nat 1 + 300))}
      \<inter> (\<lambda>p. ev_event_id (fst p)) ` set evs = {}"
    "distinct [more_event_ids 0, more_event_ids 1, EventId (UUID (of_nat 0 + 300)), EventId (UUID (of_nat 1 + 300))]"
    unfolding t(3) by (simp_all add: more_event_ids_def sample_event_ids_def)
  moreover have "sn_status ?s \<notin> {CANCELLED, FAILED, SUCCEEDED, COMPENSATING}" by (simp add: sample_snapshot)
  ultimately obtain r r' t' where r: "?other = (Inr r', snd ?other)" "sn_revision r = sn_revision r'"
      "pg_cancel (\<lambda>_ _. snd ?other) (\<lambda>_. sample_time) (\<lambda>_. more_event_ids) sample_time t sample_scope (ExecutionId (UUID 7)) ''d'' = (Inr r, t')"
      "outbox_rows (pr_outbox t') (evs @ new_rows
        (transition_events (?ids' 0) 0 (CorrelationId (execution_uuid (ExecutionId (UUID 7)))) (cancel_steps ?s sample_time)
         @ transition_events more_event_ids 0 (CorrelationId (execution_uuid (ExecutionId (UUID 7)))) (cancel_steps ?s sample_time)))"
    using concurrent_cancels_publish_twice [where others = "\<lambda>_ _. snd ?other" and stamp = "\<lambda>_. sample_time"
        and stamp' = "\<lambda>_. sample_time" and ids = "\<lambda>_. more_event_ids" and ids' = ?ids' and key = "''d''" and key' = "''c''",
        OF t(1,2) sample_utc sample_utc sample_snapshot(1,2) _ _ _ HOL.refl] by blast
  from r(4) have "length (pr_outbox t') = 5"
    using one by (simp add: outbox_rows_def new_rows_def transition_events_def cancel_steps_def sample_snapshot)
  moreover have "fst ?other = Inr r'" using r(1) by (metis fst_conv)
  ultimately show ?thesis using t(1) r(2,3) by (intro exI [of _ t] exI [of _ t']) (auto simp: Let_def)
qed

text \<open>
  The two snapshot writers agree. Whatever snapshots of executions the workers
  deliver, in any order and number, the table holds of every execution what the
  in-memory writer holds: a snapshot of the highest delivered revision.
\<close>

theorem snapshot_writers_agree:
  assumes "\<forall>s \<in> set ss. deliverable owner s"
  shows "stored_execution (foldl pg_upsert_snapshot [] ss) i = dict_get (sw_snapshots (foldl upsert_snapshot no_snapshots ss)) i"
  using assms
proof (induction ss arbitrary: i rule: rev_induct)
  case Nil
  show ?case by (simp add: stored_execution_def no_snapshots_def)
next
  case (snoc s ss)
  have "snapshot_table owner []" by (simp add: snapshot_table_def)
  from postgres_writer.upserts_valid [OF this, of ss] snoc.prems
  have "snapshot_table owner (foldl pg_upsert_snapshot [] ss)" "deliverable owner s" by auto
  with snoc show ?case by (auto simp: postgres_writer.upsert_current memory_writer.upsert_current)
qed

theorem snapshot_writers_agree_witness:
  "stored_execution (foldl pg_upsert_snapshot [] [sample_snapshot_at 2 PLANNING, sample_snapshot_at 1 PENDING]) (ExecutionId (UUID 7))
    = Some (sample_snapshot_at 2 PLANNING)"
proof -
  have "deliverable (\<lambda>_. ms_tenant_id sample_scope) (sample_snapshot_at n st)" if "0 \<le> n" for n st
    using that sample_utc in_utc_facts [OF sample_utc] sample_startable [of "ExecutionId (UUID 7)"]
    by (simp add: deliverable_def kept_def storable_def snapshot_ok_def sample_snapshot_at_def startable_def sample_spec_def)
  then have "\<forall>s \<in> set [sample_snapshot_at 2 PLANNING, sample_snapshot_at 1 PENDING]. deliverable (\<lambda>_. ms_tenant_id sample_scope) s" by simp
  from snapshot_writers_agree [OF this, of "ExecutionId (UUID 7)"] show ?thesis
    by (simp add: upsert_snapshot_def no_snapshots_def sample_snapshot_at_def)
qed

end
