(* ===== verification/Runtime_Relay.thy ===== *)
theory Runtime_Relay
  imports Runtime_Postgres
begin

text \<open>
  The runtime module's own event mappers, polling store and relay handler
  (\<open>runtime/adapters/postgres/mappers.py\<close>, \<open>outbox_relay.py\<close>,
  \<open>runtime/application/relay_outbox.py\<close>), translated from its files and shown to be
  the memory module's; so the contract of the relay holds for both.
\<close>

section \<open>Event rows\<close>

fun rt_as_uuid :: "db_value \<Rightarrow> uuid res" where
  "rt_as_uuid (DUuid u) = Inr u"
| "rt_as_uuid (DText s) = parse_uuid s"
| "rt_as_uuid v = Inl (TypeError ''expected UUID or UUID text'')"

fun rt_as_datetime :: "db_value \<Rightarrow> datetime res" where
  "rt_as_datetime (DTime d) = Inr d"
| "rt_as_datetime v = Inl (TypeError ''expected datetime'')"

fun rt_as_int :: "(string \<Rightarrow> int res) \<Rightarrow> db_value \<Rightarrow> int res" where
  "rt_as_int int_of (DInt n) = Inr n"
| "rt_as_int int_of (DText s) = int_of s"
| "rt_as_int int_of v = Inl (TypeError ''expected int'')"

definition rt_event_to_row :: "event_envelope \<Rightarrow> row" where
  "rt_event_to_row e =
     [(''event_id'', DUuid (event_uuid (ev_event_id e))),
      (''event_type'', DText (ev_event_type e)),
      (''schema_version'', DInt (ev_schema_version e)),
      (''tenant_id'', DUuid (tenant_uuid (ev_tenant_id e))),
      (''aggregate_id'', DUuid (uuid_value_uuid (ev_aggregate_id e))),
      (''aggregate_version'', DInt (ev_aggregate_version e)),
      (''correlation_id'', DUuid (correlation_uuid (ev_correlation_id e))),
      (''causation_id'', db_opt (\<lambda>i. DUuid (event_uuid i)) (ev_causation_id e)),
      (''occurred_at'', DTime (ev_occurred_at e)),
      (''payload'', DJson (to_json_value (ev_payload e)))]"

definition rt_row_to_event :: "(string \<Rightarrow> int res) \<Rightarrow> row \<Rightarrow> event_envelope res" where
  "rt_row_to_event int_of r =
     bindE (col r ''causation_id'') (\<lambda>causation.
     bindE (bindE (col r ''payload'') json_mapping) (\<lambda>payload.
     bindE (bindE (col r ''event_id'') rt_as_uuid) (\<lambda>i.
     bindE (bindE (col r ''event_type'') text_of) (\<lambda>ty.
     bindE (bindE (col r ''schema_version'') (rt_as_int int_of)) (\<lambda>sv.
     bindE (bindE (col r ''tenant_id'') rt_as_uuid) (\<lambda>tenant.
     bindE (bindE (col r ''aggregate_id'') rt_as_uuid) (\<lambda>agg.
     bindE (bindE (col r ''aggregate_version'') (rt_as_int int_of)) (\<lambda>av.
     bindE (bindE (col r ''correlation_id'') rt_as_uuid) (\<lambda>corr.
     bindE (if causation = DNull then Inr None else bindE (rt_as_uuid causation) (\<lambda>u. Inr (Some u))) (\<lambda>caus.
     bindE (bindE (col r ''occurred_at'') rt_as_datetime) (\<lambda>occurred_at.
       mk_event \<lparr>ev_event_id = EventId i, ev_event_type = ty, ev_schema_version = sv, ev_tenant_id = TenantId tenant,
         ev_aggregate_id = UUIDValue agg, ev_aggregate_version = av, ev_correlation_id = CorrelationId corr,
         ev_causation_id = map_option EventId caus, ev_occurred_at = occurred_at, ev_payload = payload\<rparr>)))))))))))"

lemma rt_columns: "rt_as_uuid = as_uuid" "rt_as_datetime = as_datetime" "rt_as_int = as_int"
proof (rule ext)
  fix v show "rt_as_uuid v = as_uuid v" by (cases v) simp_all
next
  show "rt_as_datetime = as_datetime" by (rule ext, case_tac x) simp_all
next
  show "rt_as_int = as_int" by (rule ext, rule ext, case_tac xa) simp_all
qed

lemma optional_uuid_if: "(if v = DNull then Inr None else bindE (as_uuid v) (\<lambda>u. Inr (Some u))) = optional_uuid v"
  by (cases v) simp_all

lemma rt_rows: "rt_event_to_row = event_to_row" "rt_row_to_event = row_to_event"
  by (intro ext, simp only: rt_event_to_row_def event_to_row_def)
     (intro ext, simp only: rt_row_to_event_def row_to_event_def rt_columns optional_uuid_if)

section \<open>The polling store and the handler\<close>

definition rt_fetch_unpublished :: "(string \<Rightarrow> int res) \<Rightarrow> row list \<Rightarrow> int \<Rightarrow> event_envelope list res" where
  "rt_fetch_unpublished int_of table limit =
     (if limit < 0 then Inl (BackendError ''LIMIT must not be negative'')
      else mapE (rt_row_to_event int_of) (take (nat limit) (sort_key outbox_stamp (filter unpublished table))))"

definition rt_mark_published :: "row list \<Rightarrow> event_id list \<Rightarrow> datetime \<Rightarrow> row list" where
  "rt_mark_published table event_ids published_at =
     (if event_ids = [] then table
      else map (\<lambda>r. if list_ex (\<lambda>i. row_is r ''event_id'' (DUuid (event_uuid i))) event_ids \<and> unpublished r
        then dict_set ''published_at'' (DTime (utc published_at)) r else r) table)"

definition rt_count_unpublished :: "row list \<Rightarrow> nat" where
  "rt_count_unpublished table = length (filter unpublished table)"

definition runtime_relay_store :: "(string \<Rightarrow> int res) \<Rightarrow> row list relay_store" where
  "runtime_relay_store int_of =
     \<lparr>rs_fetch = rt_fetch_unpublished int_of, rs_mark = rt_mark_published, rs_count = rt_count_unpublished\<rparr>"

fun rt_publish_all :: "('w \<Rightarrow> event_envelope \<Rightarrow> unit res \<times> 'w) \<Rightarrow> event_envelope list \<Rightarrow> nat \<Rightarrow> 'w \<Rightarrow> nat res \<times> 'w" where
  "rt_publish_all publish [] dispatched w = (Inr dispatched, w)"
| "rt_publish_all publish (e # es) dispatched w = (case publish w e of
       (Inl x, w') \<Rightarrow> (Inl x, w')
     | (Inr _, w') \<Rightarrow> rt_publish_all publish es (Suc dispatched) w')"

definition relay_runtime_outbox_handle ::
    "'s relay_store \<Rightarrow> ('w \<Rightarrow> event_envelope \<Rightarrow> unit res \<times> 'w) \<Rightarrow> datetime \<Rightarrow> int \<Rightarrow> 's \<times> 'w
      \<Rightarrow> relay_outbox_result res \<times> 's \<times> 'w" where
  "relay_runtime_outbox_handle store publish now batch_size s =
     (case rs_fetch store (fst s) batch_size of
        Inl e \<Rightarrow> (Inl e, s)
      | Inr events \<Rightarrow>
          if events = [] then
            (Inr \<lparr>ro_fetched = 0, ro_dispatched = 0, ro_published = 0,
                  ro_remaining_unpublished = rs_count store (fst s)\<rparr>, s)
          else (case rt_publish_all publish events 0 (snd s) of
              (Inl e, w) \<Rightarrow> (Inl e, fst s, w)
            | (Inr dispatched, w) \<Rightarrow>
                let st = rs_mark store (fst s) (map ev_event_id events) now in
                (Inr \<lparr>ro_fetched = length events, ro_dispatched = dispatched, ro_published = length events,
                      ro_remaining_unpublished = rs_count store st\<rparr>, st, w)))"

definition logging_runtime_publish :: "event_envelope list \<Rightarrow> event_envelope \<Rightarrow> unit res \<times> event_envelope list" where
  "logging_runtime_publish sent event = (Inr (), sent @ [event])"

fun runtime_relay_rounds ::
    "nat \<Rightarrow> 's relay_store \<Rightarrow> ('w \<Rightarrow> event_envelope \<Rightarrow> unit res \<times> 'w) \<Rightarrow> datetime \<Rightarrow> int \<Rightarrow> 's \<times> 'w \<Rightarrow> 's \<times> 'w" where
  "runtime_relay_rounds 0 store publish now batch s = s"
| "runtime_relay_rounds (Suc k) store publish now batch s =
     runtime_relay_rounds k store publish now batch (snd (relay_runtime_outbox_handle store publish now batch s))"

lemma rt_publish_all: "rt_publish_all = publish_all"
proof (intro ext)
  fix publish :: "'w \<Rightarrow> event_envelope \<Rightarrow> unit res \<times> 'w" and es k w
  show "rt_publish_all publish es k w = publish_all publish es k w"
    by (induction es arbitrary: k w) (simp_all split: sum.split prod.split)
qed

lemma rt_relay: "runtime_relay_store = postgres_relay_store" "relay_runtime_outbox_handle = relay_outbox_handle"
proof -
  have "rt_fetch_unpublished = fetch_unpublished" "rt_mark_published = mark_published" "rt_count_unpublished = count_unpublished"
    by (simp_all add: fun_eq_iff rt_fetch_unpublished_def fetch_unpublished_def rt_mark_published_def mark_published_def
        rt_count_unpublished_def count_unpublished_def rt_rows)
  then show "runtime_relay_store = postgres_relay_store"
    by (simp add: fun_eq_iff runtime_relay_store_def postgres_relay_store_def)
  show "relay_runtime_outbox_handle = relay_outbox_handle"
    by (intro ext) (simp only: relay_runtime_outbox_handle_def relay_outbox_handle_def rt_publish_all)
qed

lemma rt_rounds: "runtime_relay_rounds k store publish now batch s = relay_rounds k store publish now batch s"
  by (induction k arbitrary: s) (simp_all add: rt_relay)

section \<open>Property\<close>

text \<open>The order of the poll: by the time of the event, then by its identifier.\<close>

definition oldest_first :: "event_envelope list \<Rightarrow> event_envelope list" where
  "oldest_first es = sort_key (\<lambda>e. stamp_key (ev_occurred_at e) (event_uuid (ev_event_id e))) es"

lemma pending_new_rows:
  assumes "outbox_rows table (new_rows es)"
  shows "pending_events int_of table = map stored_event (oldest_first es)"
proof -
  have "waiting (new_rows es) = map (\<lambda>e. (e, DNull)) (oldest_first es)"
    by (simp add: waiting_def new_rows_def filter_map comp_def sort_key_map oldest_first_def)
  then show ?thesis using waiting_rows(3) [OF assms, of int_of] by simp
qed

text \<open>
  C23. Every transition of an execution is published once, oldest first. After any run
  of starts and cancellations over the relational database, enough rounds of the relay
  (one for each full batch of the events) empty the outbox, and what the publisher has
  got is the list of the events of the run (as the rows keep them), in the order of
  their times, events of one time in the order of their identifiers.
\<close>

theorem runtime_events_published_once:
  assumes "admissible_run empty_runtime_state {} qs" and "memory_run qs empty_runtime_state = (rs, db, es)"
    and "0 < batch" and "length es \<le> k * nat batch"
  shows "\<exists>table sent. runtime_relay_rounds k (runtime_relay_store int_of) logging_runtime_publish now batch
      (pr_outbox (snd (pg_run stamp qs no_rows)), []) = (table, sent)
    \<and> sent = map stored_event (oldest_first es) \<and> mset (oldest_first es) = mset es \<and> rt_count_unpublished table = 0"
proof -
  from request_run_refines [OF no_rows_stores _ assms(1,2), of stamp] obtain t where
    t: "pg_run stamp qs no_rows = (rs, t)" "outbox_rows (pr_outbox t) (new_rows es)" by auto
  note m = pending_new_rows [OF t(2), of int_of]
  have ok: "outbox_ok (pr_outbox t)" using t(2) by (auto simp: outbox_ok_def)
  have len: "length (pending_events int_of (pr_outbox t)) \<le> k * nat batch"
    using assms(4) by (simp add: m oldest_first_def)
  from postgres_relay.relay_drains [where publish = logging_runtime_publish and effect = "\<lambda>w e. w @ [e]" and ts = now and w = "[]",
      OF _ ok assms(3) len]
  obtain table where r: "relay_rounds k (postgres_relay_store int_of) logging_runtime_publish now batch (pr_outbox t, [])
      = (table, foldl (\<lambda>w e. w @ [e]) [] (pending_events int_of (pr_outbox t)))"
    "outbox_ok table" "pending_events int_of table = []" by (auto simp: logging_runtime_publish_def)
  have "foldl (\<lambda>w e. w @ [e]) ws es' = ws @ es'" for ws and es' :: "event_envelope list"
    by (induction es' arbitrary: ws) simp_all
  moreover have "rt_count_unpublished table = 0"
    using postgres_relay.count [OF r(2), of int_of] r(3)
    by (simp add: rt_count_unpublished_def postgres_relay_store_def count_unpublished_def)
  ultimately show ?thesis using t(1) r(1) m by (simp add: rt_rounds rt_relay oldest_first_def)
qed

lemma sample_requests_events: "length (snd (snd (memory_run sample_requests empty_runtime_state))) = 3"
proof -
  let ?s = "initial_snapshot (sample_spec (ExecutionId (UUID 7))) sample_time"
  have ok: "db_ok sample_db" using sample_reachable reachable_ok by blast
  have s: "dict_get (cr_snapshots sample_db) (ExecutionId (UUID 7)) = Some ?s" "sn_scope ?s = sample_scope"
    by (simp_all add: sample_db_def started_state_def empty_runtime_state_def initial_snapshot_def sample_spec_def)
  have c: "cancel more_event_ids sample_time sample_db sample_scope (ExecutionId (UUID 7)) ''c''
      = (cancel_result ?s sample_time, cancelled_state more_event_ids sample_time sample_db ?s)"
    using cancel_found [OF ok sample_time_facts(1) s] by (simp add: initial_snapshot_def)
  have outbox: "length (cr_outbox_events sample_db) = 1" by (simp add: sample_db_def started_state_def)
  then have "length (cr_outbox_events (cancelled_state more_event_ids sample_time sample_db ?s)) = 3"
    by (simp add: cancelled_state_def cancel_steps_def initial_snapshot_def transition_events_def)
  with outbox show ?thesis
    by (simp add: sample_requests_def sample_started c) (simp add: empty_runtime_state_def)
qed

theorem runtime_events_published_once_witness:
  "\<exists>rs db es table sent. memory_run sample_requests empty_runtime_state = (rs, db, es) \<and> length es = 3
    \<and> runtime_relay_rounds 3 (runtime_relay_store (\<lambda>_. Inr 0)) logging_runtime_publish sample_time 1
        (pr_outbox (snd (pg_run (\<lambda>_. sample_time) sample_requests no_rows)), []) = (table, sent)
    \<and> sent = map stored_event (oldest_first es) \<and> length sent = 3 \<and> rt_count_unpublished table = 0"
proof -
  obtain rs db es where m: "memory_run sample_requests empty_runtime_state = (rs, db, es)"
    by (cases "memory_run sample_requests empty_runtime_state")
  from sample_requests_events m have "length es = 3" by simp
  with runtime_events_published_once [OF sample_requests_admissible m, of 1 3 "\<lambda>_. Inr 0" sample_time "\<lambda>_. sample_time"] m
  show ?thesis by (auto simp: oldest_first_def)
qed

end
