(* ===== verification/Temporal_Workflow.thy ===== *)
theory Temporal_Workflow
  imports Codec Runtime_Orchestrator
begin

text \<open>
  The workers' side of the Temporal adapter: the payload mappers
  (\<open>temporal/mappers.py\<close>), the activities (\<open>activities.py\<close>) over optional outbox
  and snapshot writers, and the workflow (\<open>workflows.py\<close>) as a step relation with
  its signal, its activity attempts and their retries.
\<close>

section \<open>Payloads\<close>

definition budget_to_payload :: "budget \<Rightarrow> pyval" where
  "budget_to_payload b = obj
     [(''max_input_tokens'', VInt (bg_max_input_tokens b)),
      (''max_output_tokens'', VInt (bg_max_output_tokens b)),
      (''max_cost_micros'', VInt (bg_max_cost_micros b)),
      (''deadline'', VStr (isoformat (bg_deadline b)))]"

definition budget_from_payload :: "pyval \<Rightarrow> budget res" where
  "budget_from_payload payload =
     bindE (require_mapping payload ''budget'') (\<lambda>_.
     bindE (bindE (vitem payload ''max_input_tokens'') (\<lambda>v. require_int v ''budget.max_input_tokens'')) (\<lambda>i.
     bindE (bindE (vitem payload ''max_output_tokens'') (\<lambda>v. require_int v ''budget.max_output_tokens'')) (\<lambda>out.
     bindE (bindE (vitem payload ''max_cost_micros'') (\<lambda>v. require_int v ''budget.max_cost_micros'')) (\<lambda>c.
     bindE (bindE (vitem payload ''deadline'') (\<lambda>v. parse_datetime v ''budget.deadline'')) (\<lambda>d.
       mk_budget \<lparr>bg_max_input_tokens = i, bg_max_output_tokens = out, bg_max_cost_micros = c, bg_deadline = d\<rparr>)))))"

definition memory_query_to_payload :: "memory_query \<Rightarrow> pyval" where
  "memory_query_to_payload q = obj
     [(''query_id'', VStr (mq_query_id q)),
      (''scope'', scope_to_payload (mq_scope q)),
      (''text'', VStr (mq_text q)),
      (''valid_at'', opt_val (\<lambda>d. VStr (isoformat d)) (mq_valid_at q)),
      (''recorded_at'', opt_val (\<lambda>d. VStr (isoformat d)) (mq_recorded_at q)),
      (''limit'', VInt (mq_limit q))]"

definition memory_query_from_payload :: "pyval \<Rightarrow> memory_query option res" where
  "memory_query_from_payload payload =
     (if payload = VNone then Inr None else
      bindE (require_mapping payload ''memory_query'') (\<lambda>_.
      bindE (bindE (vitem payload ''query_id'') (\<lambda>v. require_str v ''memory_query.query_id'')) (\<lambda>i.
      bindE (bindE (vitem payload ''scope'') scope_from_payload) (\<lambda>scope.
      bindE (bindE (vitem payload ''text'') (\<lambda>v. require_str v ''memory_query.text'')) (\<lambda>t.
      bindE (parse_optional_datetime (vget_none payload ''valid_at'') ''memory_query.valid_at'') (\<lambda>valid_at.
      bindE (parse_optional_datetime (vget_none payload ''recorded_at'') ''memory_query.recorded_at'') (\<lambda>recorded_at.
      bindE (bindE (vitem payload ''limit'') (\<lambda>v. require_int v ''memory_query.limit'')) (\<lambda>n.
      bindE (mk_memory_query \<lparr>mq_query_id = i, mq_scope = scope, mq_text = t, mq_valid_at = valid_at,
         mq_recorded_at = recorded_at, mq_limit = n\<rparr>) (\<lambda>q. Inr (Some q))))))))))"

definition spec_to_payload :: "execution_spec \<Rightarrow> pyval" where
  "spec_to_payload spec = obj
     [(''id'', VStr (uuid_text (execution_uuid (sp_id spec)))),
      (''scope'', scope_to_payload (sp_scope spec)),
      (''objective_ref'', VStr (uuid_text (artifact_uuid (sp_objective_ref spec)))),
      (''root_agent_id'', VStr (uuid_text (agent_definition_uuid (sp_root_agent_id spec)))),
      (''memory_query'', opt_val memory_query_to_payload (sp_memory_query spec)),
      (''budget'', budget_to_payload (sp_budget spec)),
      (''idempotency_key'', VStr (sp_idempotency_key spec))]"

definition snapshot_to_payload :: "execution_snapshot \<Rightarrow> pyval" where
  "snapshot_to_payload s = snapshot_to_json s"

definition payload_to_snapshot :: "pyval \<Rightarrow> execution_snapshot res" where
  "payload_to_snapshot payload = snapshot_from_json payload"

definition initial_snapshot_payload :: "pyval \<Rightarrow> datetime \<Rightarrow> pyval res" where
  "initial_snapshot_payload spec_payload updated_at =
     bindE (vitem spec_payload ''scope'') (\<lambda>scope_payload.
     bindE (case scope_payload of VDict kvs \<Rightarrow> Inr () | _ \<Rightarrow> Inl (TypeError ''scope must be a mapping'')) (\<lambda>_.
     bindE (bindE (vitem spec_payload ''id'') (\<lambda>v. require_str v ''id'')) (\<lambda>i. Inr (obj
       [(''execution_id'', VStr i),
        (''scope'', scope_payload),
        (''revision'', VInt 1),
        (''status'', VStr (execution_status_value PENDING)),
        (''plan_revision'', VNone),
        (''node_statuses'', obj []),
        (''suspension'', VNone),
        (''result_ref'', VNone),
        (''failure'', VNone),
        (''updated_at'', VStr (isoformat updated_at))]))))"

definition workflow_id :: "tenant_id \<Rightarrow> execution_id \<Rightarrow> string" where
  "workflow_id tenant i = uuid_text (tenant_uuid tenant) @ '':'' @ uuid_text (execution_uuid i)"

text \<open>The initial payload of a workflow is the snapshot that the other orchestrator starts with.\<close>

lemma initial_payload:
  "initial_snapshot_payload (spec_to_payload spec) now = Inr (snapshot_to_payload (initial_snapshot spec now))"
proof -
  obtain kvs where s: "scope_to_payload (sp_scope spec) = VDict kvs" by (simp add: scope_to_payload_def obj_def)
  show ?thesis
    by (simp add: initial_snapshot_payload_def spec_to_payload_def snapshot_to_payload_def snapshot_to_json_def initial_snapshot_def
        opt_val_def s)
qed

lemma budget_payload_roundtrip:
  assumes "mk_budget b = Inr b" and "valid_datetime (bg_deadline b)"
  shows "budget_from_payload (budget_to_payload b) = Inr b"
  using assms by (simp add: budget_from_payload_def budget_to_payload_def parse_datetime_iso mk_budget_Inr budget_ok_def)

lemma query_payload_roundtrip:
  assumes "mk_memory_query q = Inr q" and "mk_memory_scope (mq_scope q) = Inr (mq_scope q)"
    and "\<forall>d. mq_valid_at q = Some d \<longrightarrow> valid_datetime d" "\<forall>d. mq_recorded_at q = Some d \<longrightarrow> valid_datetime d"
  shows "memory_query_from_payload (memory_query_to_payload q) = Inr (Some q)"
proof -
  have q: "memory_query_ok q" "scope_ok (mq_scope q)" using assms by (auto simp: mk_memory_query_Inr mk_memory_scope_Inr scope_ok_def)
  then have "parse_optional_datetime (opt_val (\<lambda>d. VStr (isoformat d)) (mq_valid_at q)) n = Inr (mq_valid_at q)"
      "parse_optional_datetime (opt_val (\<lambda>d. VStr (isoformat d)) (mq_recorded_at q)) n = Inr (mq_recorded_at q)" for n
    using assms(3,4) by (auto intro!: parse_optional_datetime_iso simp: memory_query_ok_def)
  moreover have eta: "\<lparr>mq_query_id = mq_query_id q, mq_scope = mq_scope q, mq_text = mq_text q, mq_valid_at = mq_valid_at q,
      mq_recorded_at = mq_recorded_at q, mq_limit = mq_limit q\<rparr> = q" by simp
  moreover have "memory_query_to_payload q \<noteq> VNone" by (simp add: memory_query_to_payload_def obj_def)
  ultimately show ?thesis
    using q assms(1) by (simp add: memory_query_from_payload_def) (simp add: memory_query_to_payload_def scope_payload_roundtrip eta)
qed

text \<open>The parts of a specification read back; two workflows have the same identifier only when they are the same execution.\<close>

lemma uuid_text_inj: "uuid_text a = uuid_text b \<Longrightarrow> a = b"
  using parse_uuid_text by (metis sum.inject(2))

section \<open>Activities\<close>

text \<open>
  The writers that the worker configured, or none; a writer may fail. \<open>'w\<close> is what
  they write to.
\<close>

record 'w activity_writers =
  aw_publish :: "('w \<Rightarrow> execution_status option \<Rightarrow> execution_snapshot \<Rightarrow> correlation_id \<Rightarrow> unit res \<times> 'w) option"
  aw_upsert :: "('w \<Rightarrow> execution_snapshot \<Rightarrow> unit res \<times> 'w) option"

definition parse_updated_at :: "string \<Rightarrow> datetime res" where
  "parse_updated_at updated_at_iso =
     bindE (fromisoformat updated_at_iso) (\<lambda>parsed.
     bindE (raise_if (\<not> aware parsed) (ValueError ''updated_at must be timezone-aware'')) (\<lambda>_. Inr parsed))"

definition activity_publish ::
    "'w activity_writers \<Rightarrow> 'w \<Rightarrow> execution_status option \<Rightarrow> execution_snapshot \<Rightarrow> unit res \<times> 'w" where
  "activity_publish writers w previous_status s = (case aw_publish writers of
       None \<Rightarrow> (Inr (), w)
     | Some publish \<Rightarrow> publish w previous_status s (CorrelationId (execution_uuid (sn_execution_id s))))"

definition activity_upsert :: "'w activity_writers \<Rightarrow> 'w \<Rightarrow> execution_snapshot \<Rightarrow> unit res \<times> 'w" where
  "activity_upsert writers w s = (case aw_upsert writers of None \<Rightarrow> (Inr (), w) | Some upsert \<Rightarrow> upsert w s)"

text \<open>Publish the change, then store the snapshot: the end of every activity.\<close>

definition record_change ::
    "'w activity_writers \<Rightarrow> 'w \<Rightarrow> execution_status \<Rightarrow> execution_snapshot \<Rightarrow> unit res \<times> 'w" where
  "record_change writers w previous_status s = (case activity_publish writers w (Some previous_status) s of
       (Inl e, w') \<Rightarrow> (Inl e, w')
     | (Inr _, w') \<Rightarrow> activity_upsert writers w' s)"

definition advance_status ::
    "'w activity_writers \<Rightarrow> execution_status \<Rightarrow> pyval \<Rightarrow> string \<Rightarrow> 'w \<Rightarrow> pyval res \<times> 'w" where
  "advance_status writers target payload updated_at_iso w =
     (case bindE (payload_to_snapshot payload) (\<lambda>s.
           bindE (raise_if (\<not> can_transition_execution (sn_status s) target)
             (ValueError (''illegal transition from '' @ execution_status_value (sn_status s) @ '' to '' @ execution_status_value target))) (\<lambda>_.
           bindE (parse_updated_at updated_at_iso) (\<lambda>updated_at.
           bindE (mk_execution_snapshot (s\<lparr>sn_status := target, sn_revision := sn_revision s + 1, sn_updated_at := updated_at\<rparr>))
             (\<lambda>advanced. Inr (sn_status s, advanced))))) of
        Inl e \<Rightarrow> (Inl e, w)
      | Inr (previous_status, advanced) \<Rightarrow> (case record_change writers w previous_status advanced of
            (Inl e, w') \<Rightarrow> (Inl e, w')
          | (Inr _, w') \<Rightarrow> (Inr (snapshot_to_payload advanced), w')))"

definition finish_cancel ::
    "'w activity_writers \<Rightarrow> datetime \<Rightarrow> execution_snapshot \<Rightarrow> 'w \<Rightarrow> pyval res \<times> 'w" where
  "finish_cancel writers updated_at s w =
     (if \<not> can_transition_execution (sn_status s) CANCELLED then (Inr (snapshot_to_payload s), w)
      else case mk_execution_snapshot (s\<lparr>sn_status := CANCELLED, sn_revision := sn_revision s + 1, sn_updated_at := updated_at\<rparr>) of
          Inl e \<Rightarrow> (Inl e, w)
        | Inr cancelled \<Rightarrow> (case record_change writers w (sn_status s) cancelled of
            (Inl e, w') \<Rightarrow> (Inl e, w')
          | (Inr _, w') \<Rightarrow> (Inr (snapshot_to_payload cancelled), w')))"

definition apply_cancel :: "'w activity_writers \<Rightarrow> pyval \<Rightarrow> string \<Rightarrow> 'w \<Rightarrow> pyval res \<times> 'w" where
  "apply_cancel writers payload updated_at_iso w =
     (case payload_to_snapshot payload of
        Inl e \<Rightarrow> (Inl e, w)
      | Inr s \<Rightarrow>
          if sn_status s \<in> {SUCCEEDED, FAILED, CANCELLED} then (Inr payload, w)
          else (case parse_updated_at updated_at_iso of
             Inl e \<Rightarrow> (Inl e, w)
           | Inr updated_at \<Rightarrow>
               if sn_status s = CANCELLING then finish_cancel writers updated_at s w
               else if \<not> can_transition_execution (sn_status s) CANCELLING then (Inr payload, w)
               else (case mk_execution_snapshot (s\<lparr>sn_status := CANCELLING, sn_revision := sn_revision s + 1, sn_updated_at := updated_at\<rparr>) of
                   Inl e \<Rightarrow> (Inl e, w)
                 | Inr cancelling \<Rightarrow> (case record_change writers w (sn_status s) cancelling of
                     (Inl e, w') \<Rightarrow> (Inl e, w')
                   | (Inr _, w') \<Rightarrow> finish_cancel writers updated_at cancelling w'))))"

definition advance_to_planning :: "'w activity_writers \<Rightarrow> pyval \<Rightarrow> string \<Rightarrow> 'w \<Rightarrow> pyval res \<times> 'w" where
  "advance_to_planning writers = advance_status writers PLANNING"

definition advance_to_running :: "'w activity_writers \<Rightarrow> pyval \<Rightarrow> string \<Rightarrow> 'w \<Rightarrow> pyval res \<times> 'w" where
  "advance_to_running writers = advance_status writers RUNNING"

definition advance_to_succeeded :: "'w activity_writers \<Rightarrow> pyval \<Rightarrow> string \<Rightarrow> 'w \<Rightarrow> pyval res \<times> 'w" where
  "advance_to_succeeded writers = advance_status writers SUCCEEDED"

definition apply_execution_cancel :: "'w activity_writers \<Rightarrow> pyval \<Rightarrow> string \<Rightarrow> 'w \<Rightarrow> pyval res \<times> 'w" where
  "apply_execution_cancel writers = apply_cancel writers"

section \<open>The workflow\<close>

datatype activity = AdvancePlanning | AdvanceRunning | AdvanceSucceeded | ApplyCancel

text \<open>
  Where the coroutine \<open>run\<close> stands: before its start, waiting for an activity (with
  the time argument it was scheduled with and the attempts that failed), returned,
  or failed with the activity. The snapshot argument is \<open>self._snapshot\<close>, which does
  not change while an activity is awaited.
\<close>

datatype wf_stage = NotStarted | Scheduled activity string nat | Returned | Broken

record workflow =
  wf_stage :: wf_stage
  wf_snapshot :: pyval
  wf_cancel_requested :: bool

definition new_workflow :: workflow where
  "new_workflow = \<lparr>wf_stage = NotStarted, wf_snapshot = VDict [], wf_cancel_requested = False\<rparr>"

definition max_attempts :: nat where "max_attempts = 3"

definition request_cancel :: "workflow \<Rightarrow> workflow" where
  "request_cancel flow = flow\<lparr>wf_cancel_requested := True\<rparr>"

definition current_snapshot :: "workflow \<Rightarrow> pyval" where
  "current_snapshot flow = wf_snapshot flow"

text \<open>\<open>execute_activity(a, args=[self._snapshot, workflow.now().isoformat()])\<close>, or the cancellation when it was asked for.\<close>

definition schedule :: "activity \<Rightarrow> datetime \<Rightarrow> workflow \<Rightarrow> workflow" where
  "schedule a now flow = flow\<lparr>wf_stage := Scheduled a (isoformat now) 0\<rparr>"

definition schedule_unless_cancelled :: "activity \<Rightarrow> datetime \<Rightarrow> workflow \<Rightarrow> workflow" where
  "schedule_unless_cancelled a now flow = schedule (if wf_cancel_requested flow then ApplyCancel else a) now flow"

definition begin_run :: "pyval \<Rightarrow> datetime \<Rightarrow> workflow \<Rightarrow> workflow" where
  "begin_run spec_payload now flow = (case initial_snapshot_payload spec_payload now of
       Inl e \<Rightarrow> flow\<lparr>wf_stage := Broken\<rparr>
     | Inr payload \<Rightarrow> schedule_unless_cancelled AdvancePlanning now (flow\<lparr>wf_snapshot := payload\<rparr>))"

definition resume_run :: "activity \<Rightarrow> pyval \<Rightarrow> datetime \<Rightarrow> workflow \<Rightarrow> workflow" where
  "resume_run a payload now flow = (let flow' = flow\<lparr>wf_snapshot := payload\<rparr> in case a of
       AdvancePlanning \<Rightarrow> schedule_unless_cancelled AdvanceRunning now flow'
     | AdvanceRunning \<Rightarrow> schedule_unless_cancelled AdvanceSucceeded now flow'
     | AdvanceSucceeded \<Rightarrow> flow'\<lparr>wf_stage := Returned\<rparr>
     | ApplyCancel \<Rightarrow> flow'\<lparr>wf_stage := Returned\<rparr>)"

definition run_activity :: "'w activity_writers \<Rightarrow> activity \<Rightarrow> pyval \<Rightarrow> string \<Rightarrow> 'w \<Rightarrow> pyval res \<times> 'w" where
  "run_activity writers a = (case a of
       AdvancePlanning \<Rightarrow> advance_to_planning writers
     | AdvanceRunning \<Rightarrow> advance_to_running writers
     | AdvanceSucceeded \<Rightarrow> advance_to_succeeded writers
     | ApplyCancel \<Rightarrow> apply_execution_cancel writers)"

text \<open>An attempt that raised or whose completion was lost: another one, up to three.\<close>

definition retry_activity :: "activity \<Rightarrow> string \<Rightarrow> nat \<Rightarrow> workflow \<Rightarrow> workflow" where
  "retry_activity a at_iso n flow = flow\<lparr>wf_stage := (if Suc n < max_attempts then Scheduled a at_iso (Suc n) else Broken)\<rparr>"

definition good_now :: "datetime \<Rightarrow> bool" where
  "good_now now \<longleftrightarrow> aware now \<and> valid_datetime now"

text \<open>
  The steps of a workflow in its service. Every attempt has its own writers out of
  \<open>W\<close>: they may fail at any call. \<open>'w\<close> is what all attempts write to.
\<close>

inductive wf_step :: "'w activity_writers set \<Rightarrow> pyval \<Rightarrow> workflow \<times> 'w \<Rightarrow> workflow \<times> 'w \<Rightarrow> bool" for W spec_payload where
  start: "wf_stage flow = NotStarted \<Longrightarrow> good_now now \<Longrightarrow> wf_step W spec_payload (flow, w) (begin_run spec_payload now flow, w)"
| signal: "wf_stage flow \<notin> {Returned, Broken} \<Longrightarrow> wf_step W spec_payload (flow, w) (request_cancel flow, w)"
| complete: "wf_stage flow = Scheduled a at_iso n \<Longrightarrow> writers \<in> W \<Longrightarrow> good_now now \<Longrightarrow>
    run_activity writers a (wf_snapshot flow) at_iso w = (Inr payload, w') \<Longrightarrow>
    wf_step W spec_payload (flow, w) (resume_run a payload now flow, w')"
| retry: "wf_stage flow = Scheduled a at_iso n \<Longrightarrow> writers \<in> W \<Longrightarrow>
    run_activity writers a (wf_snapshot flow) at_iso w = (r, w') \<Longrightarrow>
    wf_step W spec_payload (flow, w) (retry_activity a at_iso n flow, w')"

inductive wf_steps :: "'w activity_writers set \<Rightarrow> pyval \<Rightarrow> workflow \<times> 'w \<Rightarrow> workflow \<times> 'w \<Rightarrow> bool" for W spec_payload where
  stay: "wf_steps W spec_payload c c"
| go: "wf_steps W spec_payload c c' \<Longrightarrow> wf_step W spec_payload c' c'' \<Longrightarrow> wf_steps W spec_payload c c''"

section \<open>What an activity does\<close>

text \<open>A snapshot that the payloads keep as it is.\<close>

definition plain :: "execution_snapshot \<Rightarrow> bool" where
  "plain s \<longleftrightarrow> storable s \<and> sn_suspension s = None \<and> sn_failure s = None"

lemma plain_payload: "plain s \<Longrightarrow> payload_to_snapshot (snapshot_to_payload s) = Inr s"
  using snapshot_json_roundtrip [of s]
  by (cases s) (simp add: plain_def payload_to_snapshot_def snapshot_to_payload_def without_details_def)

lemma plain_moved: "plain s \<Longrightarrow> good_now now \<Longrightarrow> 0 \<le> n \<Longrightarrow> plain (moved s st n now)"
  by (auto simp: plain_def storable_def good_now_def moved_ok) (auto simp: moved_def)

lemma plain_mk: "plain s \<Longrightarrow> good_now now \<Longrightarrow> mk_execution_snapshot (moved s st n now) = Inr (moved s st n now) \<longleftrightarrow> 0 \<le> sn_revision s + n"
  by (auto simp: mk_execution_snapshot_Inr plain_def storable_def snapshot_ok_def good_now_def moved_def)

lemma parse_updated_at_iso: "good_now now \<Longrightarrow> parse_updated_at (isoformat now) = Inr now"
  by (simp add: parse_updated_at_def good_now_def fromisoformat_isoformat)

definition then_return :: "unit res \<times> 'w \<Rightarrow> execution_snapshot \<Rightarrow> pyval res \<times> 'w" where
  "then_return rw s = (case rw of (Inl e, w') \<Rightarrow> (Inl e, w') | (Inr _, w') \<Rightarrow> (Inr (snapshot_to_payload s), w'))"

lemma advance_plain:
  assumes "plain s" and "can_transition_execution (sn_status s) target" and "good_now now"
  shows "advance_status writers target (snapshot_to_payload s) (isoformat now) w
    = then_return (record_change writers w (sn_status s) (moved s target 1 now)) (moved s target 1 now)"
proof -
  have mk: "mk_execution_snapshot (s\<lparr>sn_status := target, sn_revision := sn_revision s + 1, sn_updated_at := now\<rparr>)
      = Inr (moved s target 1 now)"
    using plain_mk [OF assms(1,3), of target 1] assms(1) by (simp add: moved_def plain_def storable_def snapshot_ok_def)
  show ?thesis
    using assms by (simp add: advance_status_def plain_payload parse_updated_at_iso mk then_return_def)
qed

lemma cancel_plain:
  assumes "plain s" and "sn_status s \<in> {PENDING, PLANNING, RUNNING}" and "good_now now"
  shows "apply_cancel writers (snapshot_to_payload s) (isoformat now) w
    = (case record_change writers w (sn_status s) (moved s CANCELLING 1 now) of
         (Inl e, w') \<Rightarrow> (Inl e, w')
       | (Inr _, w') \<Rightarrow> then_return (record_change writers w' CANCELLING (moved s CANCELLED 2 now)) (moved s CANCELLED 2 now))"
proof -
  have rev: "0 \<le> sn_revision s" using assms(1) by (simp add: plain_def storable_def snapshot_ok_def)
  have t: "can_transition_execution (sn_status s) CANCELLING" "can_transition_execution CANCELLING CANCELLED"
    using assms(2) by (auto simp: can_transition_execution_def)
  have mk: "mk_execution_snapshot (s\<lparr>sn_status := CANCELLING, sn_revision := sn_revision s + 1, sn_updated_at := now\<rparr>)
      = Inr (moved s CANCELLING 1 now)"
    using plain_mk [OF assms(1,3), of CANCELLING 1] rev by (simp add: moved_def)
  have "(moved s CANCELLING 1 now)\<lparr>sn_status := CANCELLED, sn_revision := sn_revision (moved s CANCELLING 1 now) + 1, sn_updated_at := now\<rparr>
      = moved s CANCELLED 2 now" by (simp add: moved_def)
  then have mk2: "mk_execution_snapshot ((moved s CANCELLING 1 now)\<lparr>sn_status := CANCELLED,
      sn_revision := sn_revision (moved s CANCELLING 1 now) + 1, sn_updated_at := now\<rparr>) = Inr (moved s CANCELLED 2 now)"
    using plain_mk [OF assms(1,3), of CANCELLED 2] rev by simp
  have fin: "finish_cancel writers now (moved s CANCELLING 1 now) w'
      = then_return (record_change writers w' CANCELLING (moved s CANCELLED 2 now)) (moved s CANCELLED 2 now)" for w'
    unfolding finish_cancel_def mk2 by (simp add: t(2) then_return_def)
  have st: "sn_status s \<notin> {SUCCEEDED, FAILED, CANCELLED}" "sn_status s \<noteq> CANCELLING" using assms(2) by auto
  show ?thesis
    unfolding apply_cancel_def plain_payload [OF assms(1)] parse_updated_at_iso [OF assms(3)] sum.case mk
    using st t(1) by (simp add: fin split: sum.split prod.split)
qed

section \<open>The states a workflow reaches\<close>

fun stage_before :: "activity \<Rightarrow> (execution_status \<times> int) set" where
  "stage_before AdvancePlanning = {(PENDING, 1)}"
| "stage_before AdvanceRunning = {(PLANNING, 2)}"
| "stage_before AdvanceSucceeded = {(RUNNING, 3)}"
| "stage_before ApplyCancel = {(PENDING, 1), (PLANNING, 2), (RUNNING, 3)}"

fun stage_positions :: "wf_stage \<Rightarrow> (execution_status \<times> int) set" where
  "stage_positions NotStarted = {}"
| "stage_positions (Scheduled a at_iso n) = stage_before a"
| "stage_positions Returned = {(SUCCEEDED, 4), (CANCELLED, 3), (CANCELLED, 4), (CANCELLED, 5)}"
| "stage_positions Broken = {(PENDING, 1), (PLANNING, 2), (RUNNING, 3)}"

text \<open>The snapshot that a query of a started workflow gives.\<close>

definition wf_shows :: "execution_spec \<Rightarrow> workflow \<Rightarrow> execution_snapshot \<Rightarrow> bool" where
  "wf_shows spec flow s \<longleftrightarrow> current_snapshot flow = snapshot_to_payload s \<and> plain s \<and> sn_execution_id s = sp_id spec
     \<and> sn_scope s = sp_scope spec \<and> (sn_status s, sn_revision s) \<in> stage_positions (wf_stage flow)"

definition wf_inv :: "execution_spec \<Rightarrow> workflow \<Rightarrow> bool" where
  "wf_inv spec flow \<longleftrightarrow> (wf_stage flow \<noteq> NotStarted \<longrightarrow> (\<exists>s. wf_shows spec flow s
       \<and> (wf_stage flow = Returned \<and> sn_status s = CANCELLED \<longrightarrow> wf_cancel_requested flow)))
     \<and> (\<forall>a at_iso n. wf_stage flow = Scheduled a at_iso n \<longrightarrow> n < max_attempts \<and> (\<exists>now. good_now now \<and> at_iso = isoformat now)
         \<and> (a = ApplyCancel \<longrightarrow> wf_cancel_requested flow))"

lemma wf_inv_shows: "wf_inv spec flow \<Longrightarrow> wf_stage flow \<noteq> NotStarted \<Longrightarrow> \<exists>s. wf_shows spec flow s"
  by (auto simp: wf_inv_def)

lemma wf_shows_unique: "wf_shows spec flow s \<Longrightarrow> wf_shows spec flow t \<Longrightarrow> s = t"
  using plain_payload by (metis sum.inject(2) wf_shows_def)

lemma initial_plain: "scope_ok (sp_scope spec) \<Longrightarrow> good_now now \<Longrightarrow> plain (initial_snapshot spec now)"
  by (simp add: plain_def storable_def snapshot_ok_def initial_snapshot_def good_now_def)

text \<open>What a completed activity hands back.\<close>

lemma record_change_Inr: "then_return rw s = (Inr p, w') \<longleftrightarrow> (\<exists>u. rw = (Inr u, w')) \<and> p = snapshot_to_payload s"
  by (auto simp: then_return_def split: sum.splits prod.splits)

definition activity_result :: "activity \<Rightarrow> execution_snapshot \<Rightarrow> datetime \<Rightarrow> execution_snapshot" where
  "activity_result a s now = (case a of
       AdvancePlanning \<Rightarrow> moved s PLANNING 1 now
     | AdvanceRunning \<Rightarrow> moved s RUNNING 1 now
     | AdvanceSucceeded \<Rightarrow> moved s SUCCEEDED 1 now
     | ApplyCancel \<Rightarrow> moved s CANCELLED 2 now)"

lemma run_activity_result:
  assumes s: "plain s" "(sn_status s, sn_revision s) \<in> stage_before a" and now: "good_now now"
    and r: "run_activity writers a (snapshot_to_payload s) (isoformat now) w = (Inr p, w')"
  shows "p = snapshot_to_payload (activity_result a s now)"
proof -
  have adv: "p = snapshot_to_payload (moved s target 1 now)"
    if "can_transition_execution (sn_status s) target" "advance_status writers target (snapshot_to_payload s) (isoformat now) w = (Inr p, w')"
    for target
    using that by (simp add: advance_plain [OF s(1) that(1) now] record_change_Inr)
  show ?thesis
  proof (cases a)
    case ApplyCancel
    with s(2) have "sn_status s \<in> {PENDING, PLANNING, RUNNING}" by auto
    from cancel_plain [OF s(1) this now, of writers w] r ApplyCancel show ?thesis
      by (auto simp: run_activity_def apply_execution_cancel_def activity_result_def record_change_Inr split: sum.splits prod.splits)
  qed (use s(2) r adv in \<open>auto simp: run_activity_def advance_to_planning_def advance_to_running_def advance_to_succeeded_def
      activity_result_def can_transition_execution_def\<close>)
qed

lemma activity_result_facts:
  assumes "plain s" and "good_now now"
  shows "plain (activity_result a s now)" "sn_execution_id (activity_result a s now) = sn_execution_id s"
    "sn_scope (activity_result a s now) = sn_scope s"
  using assms by (cases a; simp add: activity_result_def plain_moved)+

lemma later_activity:
  assumes "(sn_status s, sn_revision s) \<in> stage_before a"
  shows "later s (activity_result a s now)"
proof -
  have "execution_path (sn_status s) CANCELLED" if "sn_status s \<in> {PENDING, PLANNING, RUNNING}"
    using that path_to_cancelled [of "sn_status s"] by (auto simp: terminal_def)
  moreover have "execution_path PENDING PLANNING" "execution_path PLANNING RUNNING" "execution_path RUNNING SUCCEEDED"
    by (rule execution_path.step [OF execution_path.here], simp add: can_transition_execution_def)+
  ultimately show ?thesis
    using assms by (cases a) (auto simp: later_def activity_result_def)
qed

lemma schedule_inv:
  assumes "good_now now" and "current_snapshot flow = snapshot_to_payload s" and "plain s" "sn_execution_id s = sp_id spec"
    "sn_scope s = sp_scope spec" and "(sn_status s, sn_revision s) \<in> stage_before a" and "a \<noteq> ApplyCancel"
  shows "wf_inv spec (schedule_unless_cancelled a now flow) \<and> wf_shows spec (schedule_unless_cancelled a now flow) s"
proof -
  have sub: "stage_before b \<subseteq> stage_before ApplyCancel" for b by (cases b) auto
  then have "(sn_status s, sn_revision s) \<in> stage_before (if wf_cancel_requested flow then ApplyCancel else a)"
    using assms(6) by (metis (mono_tags) subset_iff)
  then have "wf_shows spec (schedule_unless_cancelled a now flow) s"
    using assms by (simp add: wf_shows_def schedule_unless_cancelled_def schedule_def current_snapshot_def)
  then show ?thesis
    using assms(1,7) by (auto simp: wf_inv_def schedule_unless_cancelled_def schedule_def max_attempts_def)
qed

lemma begin_inv:
  assumes "scope_ok (sp_scope spec)" and "good_now now"
  shows "wf_inv spec (begin_run (spec_to_payload spec) now flow) \<and> wf_shows spec (begin_run (spec_to_payload spec) now flow) (initial_snapshot spec now)"
  unfolding begin_run_def initial_payload sum.case
  by (rule schedule_inv [OF assms(2)])
     (use initial_plain [OF assms] in \<open>simp_all add: current_snapshot_def initial_snapshot_def\<close>)

lemma resume_inv:
  assumes inv: "wf_inv spec flow" and st: "wf_stage flow = Scheduled a at_iso n" and s: "wf_shows spec flow s"
    and now: "good_now now" and r: "run_activity writers a (wf_snapshot flow) at_iso w = (Inr p, w')"
  shows "wf_inv spec (resume_run a p now flow) \<and> (\<exists>t. wf_shows spec (resume_run a p now flow) t \<and> later s t)"
proof -
  from inv st obtain time where time: "good_now time" "at_iso = isoformat time" "a = ApplyCancel \<longrightarrow> wf_cancel_requested flow"
    by (auto simp: wf_inv_def)
  have sh: "wf_snapshot flow = snapshot_to_payload s" "plain s" "sn_execution_id s = sp_id spec" "sn_scope s = sp_scope spec"
    "(sn_status s, sn_revision s) \<in> stage_before a"
    using s st by (auto simp: wf_shows_def current_snapshot_def)
  define t where "t = activity_result a s time"
  have p: "p = snapshot_to_payload t"
    unfolding t_def by (rule run_activity_result [OF sh(2,5) time(1) r [unfolded sh(1) time(2)]])
  note f = activity_result_facts [OF sh(2) time(1), of a, folded t_def]
  have l: "later s t" unfolding t_def by (rule later_activity [OF sh(5)])
  have "wf_inv spec (resume_run a p now flow) \<and> wf_shows spec (resume_run a p now flow) t"
  proof (cases a)
    case AdvancePlanning
    with sh(5) have "(sn_status t, sn_revision t) \<in> stage_before AdvanceRunning" by (simp add: t_def activity_result_def)
    then show ?thesis unfolding AdvancePlanning resume_run_def Let_def activity.case
      by (intro schedule_inv [OF now]) (simp_all add: current_snapshot_def p f sh)
  next
    case AdvanceRunning
    with sh(5) have "(sn_status t, sn_revision t) \<in> stage_before AdvanceSucceeded" by (simp add: t_def activity_result_def)
    then show ?thesis unfolding AdvanceRunning resume_run_def Let_def activity.case
      by (intro schedule_inv [OF now]) (simp_all add: current_snapshot_def p f sh)
  next
    case AdvanceSucceeded
    with sh(5) have "(sn_status t, sn_revision t) = (SUCCEEDED, 4)" by (simp add: t_def activity_result_def)
    then show ?thesis by (auto simp: AdvanceSucceeded resume_run_def wf_inv_def wf_shows_def current_snapshot_def p f sh)
  next
    case ApplyCancel
    with sh(5) have "(sn_status t, sn_revision t) \<in> {(CANCELLED, 3), (CANCELLED, 4), (CANCELLED, 5)}"
      by (auto simp: t_def activity_result_def)
    then show ?thesis using time(3)
      by (auto simp: ApplyCancel resume_run_def wf_inv_def wf_shows_def current_snapshot_def p f sh)
  qed
  with l show ?thesis by blast
qed

lemma retry_inv:
  assumes inv: "wf_inv spec flow" and st: "wf_stage flow = Scheduled a at_iso n"
  shows "wf_inv spec (retry_activity a at_iso n flow) \<and> (\<forall>s. wf_shows spec flow s \<longrightarrow> wf_shows spec (retry_activity a at_iso n flow) s)"
proof -
  have sub: "stage_before b \<subseteq> stage_positions Broken" for b by (cases b) auto
  have sh: "wf_shows spec (retry_activity a at_iso n flow) s" if "wf_shows spec flow s" for s
    using that st sub [of a] by (auto simp: wf_shows_def retry_activity_def current_snapshot_def)
  obtain s where "wf_shows spec flow s" using wf_inv_shows [OF inv] st by auto
  with sh have "\<exists>s. wf_shows spec (retry_activity a at_iso n flow) s" by blast
  then have "wf_inv spec (retry_activity a at_iso n flow)"
    using inv st by (auto simp: wf_inv_def retry_activity_def)
  with sh show ?thesis by blast
qed

lemma signal_inv: "wf_inv spec flow \<Longrightarrow> wf_inv spec (request_cancel flow) \<and> (\<forall>s. wf_shows spec flow s \<longrightarrow> wf_shows spec (request_cancel flow) s)"
  by (auto simp: wf_inv_def wf_shows_def request_cancel_def current_snapshot_def)

lemma step_inv:
  assumes "wf_step W (spec_to_payload spec) (flow, w) (flow', w')" and inv: "wf_inv spec flow" and scope: "scope_ok (sp_scope spec)"
  shows "wf_inv spec flow' \<and> (\<forall>s. wf_shows spec flow s \<longrightarrow> (\<exists>t. wf_shows spec flow' t \<and> later s t))"
  using assms(1)
proof (cases rule: wf_step.cases)
  case (start now)
  then show ?thesis using begin_inv [OF scope, of now flow] by (auto simp: wf_shows_def)
next
  case signal
  then show ?thesis using signal_inv [OF inv] later_refl by blast
next
  case (complete a at_iso n writers now payload)
  from wf_inv_shows [OF inv] complete(2) obtain s where s: "wf_shows spec flow s" by auto
  from resume_inv [OF inv complete(2) s complete(4,5)] s wf_shows_unique complete(1) show ?thesis by metis
next
  case (retry a at_iso n writers r)
  with retry_inv [OF inv retry(2)] later_refl show ?thesis by blast
qed

lemma new_inv: "wf_inv spec new_workflow"
  by (simp add: wf_inv_def new_workflow_def)

lemma steps_inv:
  "wf_steps W (spec_to_payload spec) c c' \<Longrightarrow> scope_ok (sp_scope spec) \<Longrightarrow> wf_inv spec (fst c) \<Longrightarrow>
     wf_inv spec (fst c') \<and> (\<forall>s. wf_shows spec (fst c) s \<longrightarrow> (\<exists>t. wf_shows spec (fst c') t \<and> later s t))"
proof (induction rule: wf_steps.induct)
  case (stay c)
  then show ?case using later_refl by blast
next
  case (go c c' c'')
  then have i: "wf_inv spec (fst c')" "\<forall>s. wf_shows spec (fst c) s \<longrightarrow> (\<exists>t. wf_shows spec (fst c') t \<and> later s t)" by auto
  obtain f w f' w' where c: "c' = (f, w)" "c'' = (f', w')" by (cases c', cases c'')
  from step_inv [OF go(2) [unfolded c] _ go(4)] i c show ?case by (metis fst_conv later_trans)
qed

section \<open>The workflow ends\<close>

definition wf_measure :: "workflow \<Rightarrow> nat" where
  "wf_measure flow = (case wf_stage flow of
       NotStarted \<Rightarrow> 3 * max_attempts + 1
     | Scheduled AdvancePlanning _ n \<Rightarrow> 3 * max_attempts - n
     | Scheduled AdvanceRunning _ n \<Rightarrow> 2 * max_attempts - n
     | Scheduled _ _ n \<Rightarrow> max_attempts - n
     | _ \<Rightarrow> 0)"

definition finished :: "workflow \<Rightarrow> bool" where
  "finished flow \<longleftrightarrow> wf_stage flow \<in> {Returned, Broken}"

lemma schedule_measure:
  "wf_measure (schedule_unless_cancelled AdvancePlanning now flow) \<le> 3 * max_attempts"
  "wf_measure (schedule_unless_cancelled AdvanceRunning now flow) \<le> 2 * max_attempts"
  "wf_measure (schedule_unless_cancelled AdvanceSucceeded now flow) \<le> max_attempts"
  by (simp_all add: wf_measure_def schedule_unless_cancelled_def schedule_def max_attempts_def)

lemma step_measure:
  assumes "wf_step W spec_payload (flow, w) (flow', w')" and inv: "wf_inv spec flow"
  shows "flow' = request_cancel flow \<and> w' = w \<or> wf_measure flow' < wf_measure flow"
  using assms(1)
proof (cases rule: wf_step.cases)
  case (start now)
  have "wf_measure (begin_run spec_payload now flow) \<le> 3 * max_attempts"
  proof (cases "initial_snapshot_payload spec_payload now")
    case (Inl e)
    then show ?thesis by (simp add: begin_run_def wf_measure_def)
  next
    case (Inr p)
    then show ?thesis by (simp add: begin_run_def schedule_measure)
  qed
  moreover have "wf_measure flow = 3 * max_attempts + 1" using start by (simp add: wf_measure_def)
  ultimately show ?thesis using start by simp
next
  case (complete a at_iso n writers now payload)
  with inv have n: "n < max_attempts" by (auto simp: wf_inv_def)
  show ?thesis
  proof (cases a)
    case AdvancePlanning
    have "wf_measure flow' \<le> 2 * max_attempts"
      using complete(1) by (simp add: AdvancePlanning resume_run_def Let_def schedule_measure)
    moreover have "wf_measure flow = 3 * max_attempts - n" using complete(2) by (simp add: AdvancePlanning wf_measure_def)
    ultimately have "wf_measure flow' < wf_measure flow" using n unfolding max_attempts_def by linarith
    then show ?thesis ..
  next
    case AdvanceRunning
    have "wf_measure flow' \<le> max_attempts"
      using complete(1) by (simp add: AdvanceRunning resume_run_def Let_def schedule_measure)
    moreover have "wf_measure flow = 2 * max_attempts - n" using complete(2) by (simp add: AdvanceRunning wf_measure_def)
    ultimately have "wf_measure flow' < wf_measure flow" using n unfolding max_attempts_def by linarith
    then show ?thesis ..
  qed (use complete n in \<open>simp_all add: resume_run_def wf_measure_def\<close>)
next
  case (retry a at_iso n writers r)
  with inv have n: "n < max_attempts" by (auto simp: wf_inv_def)
  with retry show ?thesis by (cases a) (auto simp: retry_activity_def wf_measure_def max_attempts_def)
qed simp

lemma good_sample_time: "good_now sample_time"
  unfolding good_now_def
  by (rule conjI [OF sample_time_facts(1)]) (simp add: valid_datetime_def sample_time_def in_range_def max_wall_def day_us_def)

lemma progress:
  assumes "W \<noteq> {}" and "\<not> finished flow" and inv: "wf_inv spec flow"
  shows "\<exists>flow' w'. wf_step W spec_payload (flow, w) (flow', w') \<and> wf_measure flow' < wf_measure flow"
proof (cases "wf_stage flow")
  case NotStarted
  from wf_step.start [OF NotStarted good_sample_time] have s: "wf_step W spec_payload (flow, w) (begin_run spec_payload sample_time flow, w)" .
  have "begin_run spec_payload sample_time flow \<noteq> request_cancel flow"
    using NotStarted by (auto simp: begin_run_def request_cancel_def schedule_unless_cancelled_def schedule_def split: sum.splits
        dest: arg_cong [of _ _ wf_stage])
  with s step_measure [OF s inv] show ?thesis by blast
next
  case (Scheduled a at_iso n)
  from assms(1) obtain writers where writers: "writers \<in> W" by blast
  obtain r w' where r: "run_activity writers a (wf_snapshot flow) at_iso w = (r, w')" by (cases "run_activity writers a (wf_snapshot flow) at_iso w")
  from wf_step.retry [OF Scheduled writers r] have s: "wf_step W spec_payload (flow, w) (retry_activity a at_iso n flow, w')" .
  have "retry_activity a at_iso n flow \<noteq> request_cancel flow"
    using Scheduled by (auto simp: retry_activity_def request_cancel_def dest: arg_cong [of _ _ wf_stage])
  with s step_measure [OF s inv] show ?thesis by blast
qed (use assms(2) in \<open>simp_all add: finished_def\<close>)

lemma steps_trans: "wf_steps W p b c \<Longrightarrow> wf_steps W p a b \<Longrightarrow> wf_steps W p a c"
  by (induction rule: wf_steps.induct) (auto intro: wf_steps.go)

lemma finishes:
  assumes "W \<noteq> {}" and "scope_ok (sp_scope spec)"
  shows "wf_inv spec flow \<Longrightarrow> \<exists>flow' w'. wf_steps W (spec_to_payload spec) (flow, w) (flow', w') \<and> finished flow'"
proof (induction "wf_measure flow" arbitrary: flow w rule: less_induct)
  case less
  show ?case
  proof (cases "finished flow")
    case True
    then show ?thesis using wf_steps.stay by blast
  next
    case False
    from progress [OF assms(1) False less.prems] obtain flow1 w1 where
      s: "wf_step W (spec_to_payload spec) (flow, w) (flow1, w1)" "wf_measure flow1 < wf_measure flow" by blast
    have "wf_inv spec flow1" using step_inv [OF s(1) less.prems assms(2)] by blast
    from less.hyps [OF s(2) this, of w1] obtain flow' w' where
      "wf_steps W (spec_to_payload spec) (flow1, w1) (flow', w')" "finished flow'" by blast
    with steps_trans [OF this(1) wf_steps.go [OF wf_steps.stay s(1)]] show ?thesis by blast
  qed
qed

section \<open>Cancellation\<close>

text \<open>A cancellation that was asked for before the last activity was scheduled.\<close>

definition will_cancel :: "workflow \<Rightarrow> bool" where
  "will_cancel flow \<longleftrightarrow> wf_cancel_requested flow
     \<and> (case wf_stage flow of Scheduled AdvanceSucceeded _ _ \<Rightarrow> False | Returned \<Rightarrow> False | _ \<Rightarrow> True)"

definition too_late :: "workflow \<Rightarrow> bool" where
  "too_late flow \<longleftrightarrow> (\<exists>at_iso n. wf_stage flow = Scheduled AdvanceSucceeded at_iso n)"

definition shows_status :: "execution_spec \<Rightarrow> execution_status \<Rightarrow> workflow \<Rightarrow> bool" where
  "shows_status spec st flow \<longleftrightarrow> (\<exists>s. wf_shows spec flow s \<and> sn_status s = st)"

lemma resume_cases:
  assumes "wf_inv spec flow" and "wf_stage flow = Scheduled a at_iso n" and "good_now now"
    and "run_activity writers a (wf_snapshot flow) at_iso w = (Inr p, w')" and "wf_stage (resume_run a p now flow) = Returned"
  shows "(a = AdvanceSucceeded \<and> shows_status spec SUCCEEDED (resume_run a p now flow))
    \<or> (a = ApplyCancel \<and> shows_status spec CANCELLED (resume_run a p now flow))"
proof -
  obtain s where s: "wf_shows spec flow s" using wf_inv_shows [OF assms(1)] assms(2) by auto
  from resume_inv [OF assms(1,2) s assms(3,4)] obtain t where t: "wf_shows spec (resume_run a p now flow) t" "later s t" by blast
  have a: "a = AdvanceSucceeded \<or> a = ApplyCancel"
    using assms(5) by (cases a) (auto simp: resume_run_def schedule_unless_cancelled_def schedule_def)
  from assms(1,2) obtain time where time: "good_now time" "at_iso = isoformat time" by (auto simp: wf_inv_def)
  have sh: "wf_snapshot flow = snapshot_to_payload s" "plain s" "(sn_status s, sn_revision s) \<in> stage_before a"
    using s assms(2) by (auto simp: wf_shows_def current_snapshot_def)
  have "p = snapshot_to_payload (activity_result a s time)"
    by (rule run_activity_result [OF sh(2,3) time(1) assms(4) [unfolded sh(1) time(2)]])
  then have "snapshot_to_payload t = snapshot_to_payload (activity_result a s time)"
    using t(1) a by (auto simp: wf_shows_def current_snapshot_def resume_run_def)
  then have "t = activity_result a s time"
    using plain_payload [of t] plain_payload [of "activity_result a s time"] t(1) activity_result_facts(1) [OF sh(2) time(1), of a]
    by (simp add: wf_shows_def)
  with t(1) a show ?thesis by (auto simp: shows_status_def activity_result_def)
qed

lemma will_cancel_step:
  assumes "wf_step W (spec_to_payload spec) (flow, w) (flow', w')" and inv: "wf_inv spec flow" and "scope_ok (sp_scope spec)"
    and "will_cancel flow \<or> wf_stage flow = Returned \<and> shows_status spec CANCELLED flow"
  shows "will_cancel flow' \<or> wf_stage flow' = Returned \<and> shows_status spec CANCELLED flow'"
  using assms(1)
proof (cases rule: wf_step.cases)
  case (start now)
  with assms(4) have "wf_cancel_requested flow" by (auto simp: will_cancel_def)
  with start show ?thesis by (auto simp: will_cancel_def begin_run_def schedule_unless_cancelled_def schedule_def split: sum.split)
next
  case signal
  with assms(4) show ?thesis by (auto simp: will_cancel_def request_cancel_def split: wf_stage.splits)
next
  case (complete a at_iso n writers now payload)
  with assms(4) have c: "wf_cancel_requested flow" "a \<noteq> AdvanceSucceeded" by (auto simp: will_cancel_def)
  show ?thesis
  proof (cases "a = ApplyCancel")
    case True
    with resume_cases [OF inv complete(2,4,5)] complete(1) show ?thesis by (auto simp: resume_run_def)
  next
    case False
    with c complete(1) show ?thesis
      by (cases a) (auto simp: will_cancel_def resume_run_def schedule_unless_cancelled_def schedule_def)
  qed
next
  case (retry a at_iso n writers r)
  with assms(4) show ?thesis by (cases a) (auto simp: will_cancel_def retry_activity_def)
qed

lemma too_late_step:
  assumes "wf_step W (spec_to_payload spec) (flow, w) (flow', w')" and inv: "wf_inv spec flow"
    and "too_late flow \<or> wf_stage flow = Broken \<or> wf_stage flow = Returned \<and> shows_status spec SUCCEEDED flow"
  shows "too_late flow' \<or> wf_stage flow' = Broken \<or> wf_stage flow' = Returned \<and> shows_status spec SUCCEEDED flow'"
  using assms(1)
proof (cases rule: wf_step.cases)
  case (complete a at_iso n writers now payload)
  with assms(3) have "a = AdvanceSucceeded" by (auto simp: too_late_def)
  with resume_cases [OF inv complete(2,4,5)] complete(1) show ?thesis by (auto simp: resume_run_def)
next
  case (retry a at_iso n writers r)
  with assms(3) show ?thesis by (auto simp: too_late_def retry_activity_def)
qed (use assms(3) in \<open>auto simp: too_late_def request_cancel_def\<close>)

section \<open>What the writers have got\<close>

text \<open>
  An attempt of an activity over the configured writers, either of which may be none
  (\<open>outbox\<close> and \<open>snapshots\<close> say which are there). A call of a writer works, fails before
  it did anything, or fails after it took effect.
\<close>

datatype call_fate = Answered | LostBefore | LostAfter

definition with_fate :: "call_fate \<Rightarrow> exn \<Rightarrow> 'w \<Rightarrow> unit res \<times> 'w \<Rightarrow> unit res \<times> 'w" where
  "with_fate fate e w rw = (case fate of Answered \<Rightarrow> rw | LostBefore \<Rightarrow> (Inl e, w) | LostAfter \<Rightarrow> (Inl e, snd rw))"

definition attempt_writers :: "bool \<Rightarrow> bool
    \<Rightarrow> (event_id \<Rightarrow> 'w \<Rightarrow> execution_status option \<Rightarrow> execution_snapshot \<Rightarrow> correlation_id \<Rightarrow> unit res \<times> 'w)
    \<Rightarrow> ('w \<Rightarrow> execution_snapshot \<Rightarrow> unit res \<times> 'w)
    \<Rightarrow> (execution_snapshot \<Rightarrow> event_id) \<Rightarrow> (execution_snapshot \<Rightarrow> call_fate) \<Rightarrow> (execution_snapshot \<Rightarrow> call_fate) \<Rightarrow> 'w activity_writers" where
  "attempt_writers outbox snapshots publish upsert ids publish_fate upsert_fate =
     \<lparr>aw_publish = (if outbox then Some (\<lambda>w previous_status s c.
        with_fate (publish_fate s) (BackendError ''outbox'') w (publish (ids s) w previous_status s c)) else None),
      aw_upsert = (if snapshots then Some (\<lambda>w s. with_fate (upsert_fate s) (BackendError ''snapshots'') w (upsert w s)) else None)\<rparr>"

definition attempts :: "bool \<Rightarrow> bool
    \<Rightarrow> (event_id \<Rightarrow> 'w \<Rightarrow> execution_status option \<Rightarrow> execution_snapshot \<Rightarrow> correlation_id \<Rightarrow> unit res \<times> 'w)
    \<Rightarrow> ('w \<Rightarrow> execution_snapshot \<Rightarrow> unit res \<times> 'w) \<Rightarrow> 'w activity_writers set" where
  "attempts outbox snapshots publish upsert =
     {attempt_writers outbox snapshots publish upsert ids publish_fate upsert_fate |ids publish_fate upsert_fate. True}"

text \<open>
  What is written only grows: \<open>sent w p s\<close> says that the event of the change from status
  \<open>p\<close> to \<open>s\<close> was published, \<open>current\<close> is the snapshot that is stored of an execution.
\<close>

definition grown :: "('w \<Rightarrow> execution_status \<Rightarrow> execution_snapshot \<Rightarrow> bool) \<Rightarrow> ('w \<Rightarrow> execution_id \<Rightarrow> execution_snapshot option) \<Rightarrow> 'w \<Rightarrow> 'w \<Rightarrow> bool" where
  "grown sent current w w' \<longleftrightarrow> (\<forall>p s. sent w p s \<longrightarrow> sent w' p s)
     \<and> (\<forall>i s. current w i = Some s \<longrightarrow> (\<exists>t. current w' i = Some t \<and> sn_revision s \<le> sn_revision t))"

definition stored_from :: "('w \<Rightarrow> execution_id \<Rightarrow> execution_snapshot option) \<Rightarrow> 'w \<Rightarrow> execution_snapshot \<Rightarrow> bool" where
  "stored_from current w s \<longleftrightarrow> (\<exists>t. current w (sn_execution_id s) = Some t \<and> sn_revision s \<le> sn_revision t)"

text \<open>The change to \<open>s\<close> was published as a legal transition, and a snapshot at least as new is stored, as far as writers are configured.\<close>

definition recorded :: "bool \<Rightarrow> bool \<Rightarrow> ('w \<Rightarrow> execution_status \<Rightarrow> execution_snapshot \<Rightarrow> bool)
    \<Rightarrow> ('w \<Rightarrow> execution_id \<Rightarrow> execution_snapshot option) \<Rightarrow> 'w \<Rightarrow> execution_snapshot \<Rightarrow> bool" where
  "recorded outbox snapshots sent current w s \<longleftrightarrow> (outbox \<longrightarrow> (\<exists>p. can_transition_execution p (sn_status s) \<and> sent w p s))
     \<and> (snapshots \<longrightarrow> stored_from current w s)"

lemma grown_refl [simp]: "grown sent current w w"
  by (auto simp: grown_def)

lemma grown_trans: "grown sent current u v \<Longrightarrow> grown sent current v w \<Longrightarrow> grown sent current u w"
  by (fastforce simp: grown_def)

lemma stored_grown: "grown sent current w w' \<Longrightarrow> stored_from current w s \<Longrightarrow> stored_from current w' s"
  by (fastforce simp: grown_def stored_from_def)

lemma recorded_grown: "grown sent current w w' \<Longrightarrow> recorded outbox snapshots sent current w s \<Longrightarrow> recorded outbox snapshots sent current w' s"
  using stored_grown [of sent current w w' s] unfolding recorded_def by (auto simp: grown_def)

text \<open>
  What the activities rely on of their writers: a call keeps what was written, and one
  that works publishes the event, or leaves a snapshot at least as new. \<open>owned\<close> says of
  which executions the store is (an execution keeps its scope).
\<close>

locale activity_recording =
  fixes publish :: "event_id \<Rightarrow> 'w \<Rightarrow> execution_status option \<Rightarrow> execution_snapshot \<Rightarrow> correlation_id \<Rightarrow> unit res \<times> 'w"
    and upsert :: "'w \<Rightarrow> execution_snapshot \<Rightarrow> unit res \<times> 'w"
    and valid :: "'w \<Rightarrow> bool" and owned :: "execution_id \<Rightarrow> memory_scope \<Rightarrow> bool"
    and sent :: "'w \<Rightarrow> execution_status \<Rightarrow> execution_snapshot \<Rightarrow> bool"
    and current :: "'w \<Rightarrow> execution_id \<Rightarrow> execution_snapshot option"
  assumes publish_keeps: "valid w \<Longrightarrow> publish i w (Some p) s c = (r, w') \<Longrightarrow> valid w' \<and> grown sent current w w'"
    and publish_sends: "publish i w (Some p) s (CorrelationId (execution_uuid (sn_execution_id s))) = (Inr (), w') \<Longrightarrow> sent w' p s"
    and upsert_keeps: "valid w \<Longrightarrow> plain s \<Longrightarrow> owned (sn_execution_id s) (sn_scope s) \<Longrightarrow> upsert w s = (r, w') \<Longrightarrow>
      valid w' \<and> grown sent current w w'"
    and upsert_stores: "valid w \<Longrightarrow> plain s \<Longrightarrow> owned (sn_execution_id s) (sn_scope s) \<Longrightarrow> upsert w s = (Inr (), w') \<Longrightarrow>
      stored_from current w' s"
begin

abbreviation fits :: "execution_snapshot \<Rightarrow> bool" where
  "fits s \<equiv> plain s \<and> owned (sn_execution_id s) (sn_scope s)"

abbreviation kept_growing :: "'w \<Rightarrow> 'w \<Rightarrow> bool" where
  "kept_growing w w' \<equiv> valid w' \<and> grown sent current w w'"

lemma with_fate_keeps:
  assumes "with_fate fate e w (r0, w0) = (r, w')" and "kept_growing w w0" and "valid w"
  shows "kept_growing w w'" and "r = Inr () \<Longrightarrow> r0 = Inr () \<and> w' = w0"
  using assms by (cases fate; auto simp: with_fate_def)+

lemma publish_attempt:
  assumes "writers \<in> attempts outbox snapshots publish upsert" and "valid w" and "activity_publish writers w (Some p) s = (r, w')"
  shows "kept_growing w w' \<and> (r = Inr () \<longrightarrow> outbox \<longrightarrow> sent w' p s)"
proof (cases outbox)
  case False
  with assms show ?thesis by (auto simp: attempts_def attempt_writers_def activity_publish_def)
next
  case True
  from assms(1) obtain ids pf uf where w: "writers = attempt_writers outbox snapshots publish upsert ids pf uf" by (auto simp: attempts_def)
  let ?c = "CorrelationId (execution_uuid (sn_execution_id s))"
  obtain r0 w0 where p: "publish (ids s) w (Some p) s ?c = (r0, w0)" by fastforce
  have f: "with_fate (pf s) (BackendError ''outbox'') w (r0, w0) = (r, w')"
    using assms(3) True p by (simp add: w attempt_writers_def activity_publish_def)
  note k = with_fate_keeps [OF f publish_keeps [OF assms(2) p] assms(2)]
  have "sent w' p s" if "r = Inr ()"
    using k(2) [OF that] p publish_sends by simp
  with k(1) show ?thesis by blast
qed

lemma upsert_attempt:
  assumes "writers \<in> attempts outbox snapshots publish upsert" and "valid w" and "fits s" and "activity_upsert writers w s = (r, w')"
  shows "kept_growing w w' \<and> (r = Inr () \<longrightarrow> snapshots \<longrightarrow> stored_from current w' s)"
proof (cases snapshots)
  case False
  with assms show ?thesis by (auto simp: attempts_def attempt_writers_def activity_upsert_def)
next
  case True
  from assms(1) obtain ids pf uf where w: "writers = attempt_writers outbox snapshots publish upsert ids pf uf" by (auto simp: attempts_def)
  obtain r0 w0 where p: "upsert w s = (r0, w0)" by fastforce
  have f: "with_fate (uf s) (BackendError ''snapshots'') w (r0, w0) = (r, w')"
    using assms(4) True p by (simp add: w attempt_writers_def activity_upsert_def)
  have fits: "plain s" "owned (sn_execution_id s) (sn_scope s)" using assms(3) by auto
  note k = with_fate_keeps [OF f upsert_keeps [OF assms(2) fits p] assms(2)]
  have "stored_from current w' s" if "r = Inr ()"
    using k(2) [OF that] p upsert_stores [OF assms(2) fits] by simp
  with k(1) show ?thesis by blast
qed

lemma record_attempt:
  assumes w: "writers \<in> attempts outbox snapshots publish upsert" and "valid w" and "fits s" and "record_change writers w p s = (r, w')"
  shows "kept_growing w w' \<and> (r = Inr () \<longrightarrow> can_transition_execution p (sn_status s) \<longrightarrow> recorded outbox snapshots sent current w' s)"
proof -
  obtain r1 w1 where p: "activity_publish writers w (Some p) s = (r1, w1)" by fastforce
  note g1 = publish_attempt [OF w assms(2) p]
  show ?thesis
  proof (cases r1)
    case (Inl e)
    with p assms(4) g1 show ?thesis by (auto simp: record_change_def)
  next
    case (Inr u)
    with p assms(4) have up: "activity_upsert writers w1 s = (r, w')" by (simp add: record_change_def)
    from g1 have "valid w1" by blast
    note g2 = upsert_attempt [OF w this assms(3) up]
    from g1 g2 have g: "grown sent current w w1" "grown sent current w1 w'" by simp_all
    have "sent w' p s" if outbox using that g1 g(2) Inr by (auto simp: grown_def)
    with g2 grown_trans [OF g] show ?thesis by (auto simp: recorded_def)
  qed
qed

lemma return_attempt:
  assumes w: "writers \<in> attempts outbox snapshots publish upsert" and "valid w" and "fits s"
    and "then_return (record_change writers w p s) s = (r, w')" and "can_transition_execution p (sn_status s)"
  shows "kept_growing w w' \<and> (\<forall>payload. r = Inr payload \<longrightarrow> recorded outbox snapshots sent current w' s)"
proof -
  obtain x w1 where x: "record_change writers w p s = (x, w1)" by fastforce
  from record_attempt [OF w assms(2,3) x] assms(4,5) x show ?thesis by (cases x) (auto simp: then_return_def)
qed

lemma run_attempt:
  assumes w: "writers \<in> attempts outbox snapshots publish upsert" and v: "valid w" and own: "owned (sn_execution_id s) (sn_scope s)"
    and s: "plain s" "(sn_status s, sn_revision s) \<in> stage_before a" and now: "good_now now"
    and r: "run_activity writers a (snapshot_to_payload s) (isoformat now) w = (r, w')"
  shows "kept_growing w w' \<and> (\<forall>payload. r = Inr payload \<longrightarrow> recorded outbox snapshots sent current w' (activity_result a s now))"
proof -
  have fits: "fits (moved s st n now)" if "0 \<le> n" for st n using plain_moved [OF s(1) now that] own by simp
  have adv: "kept_growing w w' \<and> (\<forall>payload. r = Inr payload \<longrightarrow> recorded outbox snapshots sent current w' (moved s target 1 now))"
    if "can_transition_execution (sn_status s) target" "advance_status writers target (snapshot_to_payload s) (isoformat now) w = (r, w')"
    for target
    using return_attempt [OF w v fits, of 1 "sn_status s" target r w'] that
    by (simp add: advance_plain [OF s(1) that(1) now])
  show ?thesis
  proof (cases a)
    case ApplyCancel
    with s(2) have st: "sn_status s \<in> {PENDING, PLANNING, RUNNING}" by auto
    obtain x w1 where x: "record_change writers w (sn_status s) (moved s CANCELLING 1 now) = (x, w1)" by fastforce
    note g = record_attempt [OF w v fits x]
    then have v1: "valid w1" by simp
    have c: "can_transition_execution CANCELLING CANCELLED" by (simp add: can_transition_execution_def)
    show ?thesis
    proof (cases x)
      case (Inl e)
      with r x g cancel_plain [OF s(1) st now, of writers w] ApplyCancel show ?thesis
        by (auto simp: run_activity_def apply_execution_cancel_def)
    next
      case (Inr u)
      with r x cancel_plain [OF s(1) st now, of writers w] ApplyCancel
      have "then_return (record_change writers w1 CANCELLING (moved s CANCELLED 2 now)) (moved s CANCELLED 2 now) = (r, w')"
        by (simp add: run_activity_def apply_execution_cancel_def)
      from return_attempt [OF w v1 fits this] c
      have "kept_growing w1 w' \<and> (\<forall>payload. r = Inr payload \<longrightarrow> recorded outbox snapshots sent current w' (moved s CANCELLED 2 now))" by simp
      moreover have "grown sent current w w1" using g by simp
      ultimately show ?thesis using grown_trans ApplyCancel by (auto simp: activity_result_def)
    qed
  qed (use s(2) r adv in \<open>auto simp: run_activity_def advance_to_planning_def advance_to_running_def advance_to_succeeded_def
      activity_result_def can_transition_execution_def\<close>)
qed

end

text \<open>The state of a workflow and its stores: what it shows past its first snapshot is recorded.\<close>

definition wf_recorded :: "('w \<Rightarrow> execution_snapshot \<Rightarrow> bool) \<Rightarrow> execution_spec \<Rightarrow> workflow \<times> 'w \<Rightarrow> bool" where
  "wf_recorded rec spec c \<longleftrightarrow> (\<forall>s. wf_shows spec (fst c) s \<longrightarrow> 1 < sn_revision s \<longrightarrow> rec (snd c) s)"

context activity_recording begin

abbreviation flow_recorded :: "bool \<Rightarrow> bool \<Rightarrow> execution_spec \<Rightarrow> workflow \<times> 'w \<Rightarrow> bool" where
  "flow_recorded outbox snapshots spec c \<equiv> valid (snd c) \<and> wf_recorded (recorded outbox snapshots sent current) spec c"

lemma recorded_step:
  assumes "wf_step (attempts outbox snapshots publish upsert) (spec_to_payload spec) (flow, w) (flow', w')" and inv: "wf_inv spec flow"
    and scope: "scope_ok (sp_scope spec)" and own: "owned (sp_id spec) (sp_scope spec)" and rec: "flow_recorded outbox snapshots spec (flow, w)"
  shows "flow_recorded outbox snapshots spec (flow', w')"
proof -
  have v: "valid w" using rec by simp
  have keep: "flow_recorded outbox snapshots spec (flow', w')"
    if "kept_growing w w'" "\<And>s. wf_shows spec flow' s \<Longrightarrow> wf_shows spec flow s"
    using that rec recorded_grown by (fastforce simp: wf_recorded_def)
  from assms(1) show ?thesis
  proof (cases rule: wf_step.cases)
    case (start now)
    from begin_inv [OF scope start(4), of flow] start have "wf_shows spec flow' (initial_snapshot spec now)" by simp
    then have "wf_shows spec flow' s \<Longrightarrow> sn_revision s = 1" for s
      using wf_shows_unique by (fastforce simp: initial_snapshot_def)
    with start v show ?thesis by (auto simp: wf_recorded_def)
  next
    case signal
    with v show ?thesis by (intro keep) (auto simp: wf_shows_def request_cancel_def current_snapshot_def)
  next
    case (complete a at_iso n writers now payload)
    from wf_inv_shows [OF inv] complete(2) obtain s where s: "wf_shows spec flow s" by auto
    from inv complete(2) obtain time where time: "good_now time" "at_iso = isoformat time" by (auto simp: wf_inv_def)
    have sh: "wf_snapshot flow = snapshot_to_payload s" "plain s" "(sn_status s, sn_revision s) \<in> stage_before a"
      using s complete(2) by (auto simp: wf_shows_def current_snapshot_def)
    have owned: "owned (sn_execution_id s) (sn_scope s)" using own s by (simp add: wf_shows_def)
    note r = complete(5) [unfolded sh(1) time(2)]
    have p: "payload = snapshot_to_payload (activity_result a s time)" by (rule run_activity_result [OF sh(2,3) time(1) r])
    have "valid w'" "recorded outbox snapshots sent current w' (activity_result a s time)"
      using run_attempt [OF complete(3) v owned sh(2,3) time(1) r] by blast+
    moreover have "t = activity_result a s time" if "wf_shows spec flow' t" for t
    proof -
      have "snapshot_to_payload t = snapshot_to_payload (activity_result a s time)"
        using that complete(1) p by (cases a) (auto simp: wf_shows_def current_snapshot_def resume_run_def schedule_unless_cancelled_def schedule_def)
      then show ?thesis
        using plain_payload [of t] plain_payload [of "activity_result a s time"] that activity_result_facts(1) [OF sh(2) time(1), of a]
        by (simp add: wf_shows_def)
    qed
    ultimately show ?thesis by (auto simp: wf_recorded_def)
  next
    case (retry a at_iso n writers r)
    from wf_inv_shows [OF inv] retry(2) obtain s where s: "wf_shows spec flow s" by auto
    from inv retry(2) obtain time where time: "good_now time" "at_iso = isoformat time" by (auto simp: wf_inv_def)
    have sh: "wf_snapshot flow = snapshot_to_payload s" "plain s" "(sn_status s, sn_revision s) \<in> stage_before a"
      using s retry(2) by (auto simp: wf_shows_def current_snapshot_def)
    have owned: "owned (sn_execution_id s) (sn_scope s)" using own s by (simp add: wf_shows_def)
    have "kept_growing w w'" using run_attempt [OF retry(3) v owned sh(2,3) time(1) retry(4) [unfolded sh(1) time(2)]] by blast
    moreover have "t = s" if "wf_shows spec flow' t" for t
      using retry_inv [OF inv retry(2)] that wf_shows_unique s retry(1) by blast
    ultimately show ?thesis using keep s by blast
  qed
qed

lemma steps_recorded:
  "wf_steps (attempts outbox snapshots publish upsert) (spec_to_payload spec) c c' \<Longrightarrow> scope_ok (sp_scope spec) \<Longrightarrow> wf_inv spec (fst c) \<Longrightarrow>
     owned (sp_id spec) (sp_scope spec) \<Longrightarrow> flow_recorded outbox snapshots spec c \<Longrightarrow> flow_recorded outbox snapshots spec c'"
proof (induction rule: wf_steps.induct)
  case (go c c' c'')
  have i: "wf_inv spec (fst c')" using steps_inv [OF go(1,4,5)] by blast
  obtain f w f' w' where c: "c' = (f, w)" "c'' = (f', w')" by (cases c', cases c'')
  from go(3) [OF go(4-7)] c have "flow_recorded outbox snapshots spec (f, w)" by simp
  from recorded_step [OF go(2) [unfolded c] _ go(4,6) this] i c show ?case by simp
qed

text \<open>What a workflow shows is its first snapshot, or recorded.\<close>

lemma shown_recorded:
  assumes scope: "scope_ok (sp_scope spec)" and own: "owned (sp_id spec) (sp_scope spec)" and "valid w"
    and steps: "wf_steps (attempts outbox snapshots publish upsert) (spec_to_payload spec) (new_workflow, w) (flow, w')"
    and s: "payload_to_snapshot (current_snapshot flow) = Inr s" and "wf_stage flow \<noteq> NotStarted"
  shows "(sn_status s, sn_revision s) = (PENDING, 1) \<or> recorded outbox snapshots sent current w' s"
proof -
  have inv: "wf_inv spec flow" using steps_inv [OF steps scope] new_inv by simp
  from wf_inv_shows [OF inv assms(6)] obtain t where t: "wf_shows spec flow t" by blast
  then have "t = s" using s plain_payload [of t] by (auto simp: wf_shows_def)
  have "\<not> wf_shows spec new_workflow u" for u by (simp add: wf_shows_def new_workflow_def)
  with assms(3) have "flow_recorded outbox snapshots spec (new_workflow, w)" by (simp add: wf_recorded_def)
  from steps_recorded [OF steps scope _ own this] new_inv have rec: "flow_recorded outbox snapshots spec (flow, w')" by simp
  have p: "(sn_status t, sn_revision t) \<in> stage_positions (wf_stage flow)" using t by (simp add: wf_shows_def)
  have "(sn_status t, sn_revision t) = (PENDING, 1) \<or> 1 < sn_revision t"
  proof (cases "wf_stage flow")
    case (Scheduled a at_iso n)
    with p show ?thesis by (cases a) auto
  qed (use p in auto)
  with rec t \<open>t = s\<close> show ?thesis by (auto simp: wf_recorded_def)
qed

end

text \<open>The two in-memory writers, on the outbox and the stored snapshots.\<close>

definition memory_publish ::
    "event_id \<Rightarrow> outbox_writer \<times> snapshot_writer \<Rightarrow> execution_status option \<Rightarrow> execution_snapshot \<Rightarrow> correlation_id
      \<Rightarrow> unit res \<times> outbox_writer \<times> snapshot_writer" where
  "memory_publish i w previous_status s c = (case publish_status_changed i (fst w) previous_status s c of
       Inl e \<Rightarrow> (Inl e, w) | Inr out \<Rightarrow> (Inr (), out, snd w))"

definition memory_upsert ::
    "outbox_writer \<times> snapshot_writer \<Rightarrow> execution_snapshot \<Rightarrow> unit res \<times> outbox_writer \<times> snapshot_writer" where
  "memory_upsert w s = (Inr (), fst w, upsert_snapshot (snd w) s)"

definition memory_sent :: "outbox_writer \<times> snapshot_writer \<Rightarrow> execution_status \<Rightarrow> execution_snapshot \<Rightarrow> bool" where
  "memory_sent w p s \<longleftrightarrow> (\<exists>i. status_changed_event i (CorrelationId (execution_uuid (sn_execution_id s))) None (Some p) s \<in> set (ow_events (fst w)))"

definition memory_current :: "outbox_writer \<times> snapshot_writer \<Rightarrow> execution_id \<Rightarrow> execution_snapshot option" where
  "memory_current w i = dict_get (sw_snapshots (snd w)) i"

definition failing_writers :: "(outbox_writer \<times> snapshot_writer) activity_writers set" where
  "failing_writers = attempts True True memory_publish memory_upsert"

interpretation memory_recording: activity_recording memory_publish memory_upsert "\<lambda>_. True" "\<lambda>_ _. True" memory_sent memory_current
proof
  show "True \<and> grown memory_sent memory_current w w'" if "memory_publish i w (Some p) s c = (r, w')" for w i p s c r w'
    using that by (auto simp: memory_publish_def publish_status_changed_def bindE_eq_Inr grown_def memory_sent_def memory_current_def
        split: sum.splits)
  show "memory_sent w' p s" if "memory_publish i w (Some p) s (CorrelationId (execution_uuid (sn_execution_id s))) = (Inr (), w')" for i w p s w'
    using that by (auto simp: memory_publish_def publish_status_changed_def bindE_eq_Inr build_event_Inr memory_sent_def split: sum.splits)
  show "True \<and> grown memory_sent memory_current w w'" if "memory_upsert w s = (r, w')" for w s r w'
  proof -
    have "\<exists>t. dict_get (sw_snapshots (upsert_snapshot v s)) i = Some t \<and> sn_revision u \<le> sn_revision t"
      if "dict_get (sw_snapshots v) i = Some u" for v u i
      using memory_writer.upsert_monotone [where w = v and s = s and i = i and old = u] that by simp
    with that show ?thesis by (auto simp: memory_upsert_def grown_def memory_sent_def memory_current_def)
  qed
  show "stored_from memory_current w' s" if "memory_upsert w s = (Inr (), w')" for w s w'
    using that by (auto simp: memory_upsert_def stored_from_def memory_current_def memory_writer.upsert_current not_less)
qed

lemma steps_will_cancel:
  "wf_steps W (spec_to_payload spec) c c' \<Longrightarrow> scope_ok (sp_scope spec) \<Longrightarrow> wf_inv spec (fst c) \<Longrightarrow>
     will_cancel (fst c) \<Longrightarrow> will_cancel (fst c') \<or> wf_stage (fst c') = Returned \<and> shows_status spec CANCELLED (fst c')"
proof (induction rule: wf_steps.induct)
  case (go c c' c'')
  have i: "wf_inv spec (fst c')" using steps_inv [OF go(1,4,5)] by blast
  obtain f w f' w' where c: "c' = (f, w)" "c'' = (f', w')" by (cases c', cases c'')
  from will_cancel_step [OF go(2) [unfolded c] _ go(4)] go i c show ?case by simp
qed simp

lemma steps_too_late:
  "wf_steps W (spec_to_payload spec) c c' \<Longrightarrow> scope_ok (sp_scope spec) \<Longrightarrow> wf_inv spec (fst c) \<Longrightarrow> too_late (fst c) \<Longrightarrow>
     too_late (fst c') \<or> wf_stage (fst c') = Broken \<or> wf_stage (fst c') = Returned \<and> shows_status spec SUCCEEDED (fst c')"
proof (induction rule: wf_steps.induct)
  case (go c c' c'')
  have i: "wf_inv spec (fst c')" using steps_inv [OF go(1,4,5)] by blast
  obtain f w f' w' where c: "c' = (f, w)" "c'' = (f', w')" by (cases c', cases c'')
  from too_late_step [OF go(2) [unfolded c]] go i c show ?case by simp
qed simp

lemma workflow_inv:
  "wf_steps W (spec_to_payload spec) (new_workflow, w) (flow, w') \<Longrightarrow> scope_ok (sp_scope spec) \<Longrightarrow> wf_inv spec flow"
  using steps_inv new_inv by fastforce

section \<open>Properties\<close>

lemma scope_constructed: "mk_memory_scope s = Inr s \<Longrightarrow> scope_ok s"
  by (simp add: mk_memory_scope_Inr scope_ok_def)

lemma sample_scope_constructed: "mk_memory_scope (sp_scope (sample_spec i)) = Inr (sp_scope (sample_spec i))"
  by (simp add: mk_memory_scope_Inr sample_spec_def sample_scope_def blank_iff is_space_def)

definition sample_flow :: workflow where
  "sample_flow = begin_run (spec_to_payload (sample_spec (ExecutionId (UUID 7)))) sample_time new_workflow"

lemma sample_flow_steps: "wf_steps W (spec_to_payload (sample_spec (ExecutionId (UUID 7)))) (new_workflow, w) (sample_flow, w)"
  unfolding sample_flow_def
  by (rule wf_steps.go [OF wf_steps.stay wf_step.start]) (simp_all add: new_workflow_def good_sample_time)

lemma sample_flow_stage: "wf_stage sample_flow = Scheduled AdvancePlanning (isoformat sample_time) 0"
  by (simp add: sample_flow_def begin_run_def initial_payload schedule_unless_cancelled_def schedule_def new_workflow_def)

text \<open>
  C15. What a workflow shows is always a legal state of its execution. Whatever
  signals, attempts and losses the service goes through, a started workflow answers a
  query with a snapshot that reads back, of its own execution and scope, whose status
  and revision are those of the stage it is in (pending 1, planning 2, running 3,
  succeeded 4, cancelled at most 5); and what it answers later has moved on from there
  by legal transitions only.
\<close>

theorem workflow_shows_legal_states:
  assumes "mk_memory_scope (sp_scope spec) = Inr (sp_scope spec)"
    and "wf_steps W (spec_to_payload spec) (new_workflow, w) (flow, w')" and "wf_stage flow \<noteq> NotStarted"
    and "wf_steps W (spec_to_payload spec) (flow, w') (flow', w'')"
  shows "\<exists>s t. payload_to_snapshot (current_snapshot flow) = Inr s \<and> payload_to_snapshot (current_snapshot flow') = Inr t
    \<and> sn_execution_id s = sp_id spec \<and> sn_scope s = sp_scope spec
    \<and> (sn_status s, sn_revision s) \<in> stage_positions (wf_stage flow)
    \<and> (sn_status t, sn_revision t) \<in> stage_positions (wf_stage flow') \<and> later s t"
proof -
  note scope = scope_constructed [OF assms(1)]
  have inv: "wf_inv spec flow" by (rule workflow_inv [OF assms(2) scope])
  from wf_inv_shows [OF inv assms(3)] obtain s where s: "wf_shows spec flow s" by blast
  from steps_inv [OF assms(4) scope] inv s obtain t where t: "wf_shows spec flow' t" "later s t" by auto
  from s t show ?thesis by (auto simp: wf_shows_def plain_payload)
qed

theorem workflow_shows_legal_states_witness:
  "\<exists>s. payload_to_snapshot (current_snapshot sample_flow) = Inr s \<and> (sn_status s, sn_revision s) = (PENDING, 1)"
  using workflow_shows_legal_states [OF sample_scope_constructed sample_flow_steps [where W = "{} :: unit activity_writers set" and w = "()"] _ wf_steps.stay]
  by (auto simp: sample_flow_stage)



text \<open>
  When a cancellation takes effect. A signal that arrives before the last activity
  is scheduled decides the outcome: if the workflow returns, it shows cancelled. Once
  the last activity is scheduled a signal is ignored: if the workflow returns, it
  shows succeeded.
\<close>

theorem cancellation_before_last_activity:
  assumes "mk_memory_scope (sp_scope spec) = Inr (sp_scope spec)"
    and "wf_steps W (spec_to_payload spec) (new_workflow, w) (flow, w')"
    and "wf_steps W (spec_to_payload spec) (request_cancel flow, w') (flow', w'')" and "wf_stage flow \<noteq> Returned"
    and "wf_stage flow' = Returned"
  shows "\<exists>s. payload_to_snapshot (current_snapshot flow') = Inr s
    \<and> sn_status s = (if too_late flow then SUCCEEDED else CANCELLED)"
proof -
  note scope = scope_constructed [OF assms(1)]
  have inv: "wf_inv spec (request_cancel flow)" using workflow_inv [OF assms(2) scope] signal_inv by blast
  have "shows_status spec (if too_late flow then SUCCEEDED else CANCELLED) flow'"
  proof (cases "too_late flow")
    case True
    then have "too_late (request_cancel flow)" by (simp add: too_late_def request_cancel_def)
    with steps_too_late [OF assms(3) scope] inv True assms(5) show ?thesis by (auto simp: too_late_def)
  next
    case False
    then have "will_cancel (request_cancel flow)"
      using assms(4) by (auto simp: will_cancel_def too_late_def request_cancel_def split: wf_stage.split activity.split)
    with steps_will_cancel [OF assms(3) scope] inv False assms(5) show ?thesis by (auto simp: will_cancel_def)
  qed
  then show ?thesis by (auto simp: shows_status_def wf_shows_def plain_payload)
qed

definition no_writers :: "unit activity_writers" where
  "no_writers = \<lparr>aw_publish = None, aw_upsert = None\<rparr>"

definition sample_waiting :: workflow where
  "sample_waiting = begin_run (spec_to_payload (sample_spec (ExecutionId (UUID 7)))) sample_time (request_cancel new_workflow)"

abbreviation sample_initial :: execution_snapshot where
  "sample_initial \<equiv> initial_snapshot (sample_spec (ExecutionId (UUID 7))) sample_time"

definition sample_cancelled :: workflow where
  "sample_cancelled = resume_run ApplyCancel (snapshot_to_payload (moved sample_initial CANCELLED 2 sample_time)) sample_time sample_waiting"

lemma sample_plain: "plain sample_initial"
  using initial_plain [OF scope_constructed [OF sample_scope_constructed] good_sample_time] .

lemma sample_waiting_facts:
  "wf_stage sample_waiting = Scheduled ApplyCancel (isoformat sample_time) 0" "wf_snapshot sample_waiting = snapshot_to_payload sample_initial"
  "wf_stage sample_cancelled = Returned"
  by (simp_all add: sample_waiting_def sample_cancelled_def resume_run_def begin_run_def initial_payload schedule_unless_cancelled_def
      schedule_def request_cancel_def)

lemma sample_cancel_runs:
  "run_activity no_writers ApplyCancel (wf_snapshot sample_waiting) (isoformat sample_time) ()
    = (Inr (snapshot_to_payload (moved sample_initial CANCELLED 2 sample_time)), ())"
proof -
  have st: "sn_status sample_initial \<in> {PENDING, PLANNING, RUNNING}" by (simp add: initial_snapshot_def)
  show ?thesis
    unfolding run_activity_def apply_execution_cancel_def activity.case sample_waiting_facts cancel_plain [OF sample_plain st good_sample_time]
    by (simp add: record_change_def activity_publish_def activity_upsert_def no_writers_def then_return_def)
qed

theorem cancellation_before_last_activity_witness:
  "\<exists>flow s. wf_steps {no_writers} (spec_to_payload (sample_spec (ExecutionId (UUID 7)))) (request_cancel new_workflow, ()) (flow, ())
    \<and> wf_stage flow = Returned \<and> payload_to_snapshot (current_snapshot flow) = Inr s \<and> sn_status s = CANCELLED"
proof -
  let ?p = "spec_to_payload (sample_spec (ExecutionId (UUID 7)))"
  have s1: "wf_step {no_writers} ?p (request_cancel new_workflow, ()) (sample_waiting, ())"
    unfolding sample_waiting_def by (rule wf_step.start) (simp_all add: request_cancel_def new_workflow_def good_sample_time)
  have s2: "wf_step {no_writers} ?p (sample_waiting, ()) (sample_cancelled, ())"
    unfolding sample_cancelled_def by (rule wf_step.complete [OF sample_waiting_facts(1) _ good_sample_time sample_cancel_runs]) simp
  have steps: "wf_steps {no_writers} ?p (request_cancel new_workflow, ()) (sample_cancelled, ())"
    by (rule wf_steps.go [OF wf_steps.go [OF wf_steps.stay s1] s2])
  have "\<not> too_late new_workflow" "wf_stage new_workflow \<noteq> Returned" by (simp_all add: too_late_def new_workflow_def)
  then show ?thesis
    using cancellation_before_last_activity [OF sample_scope_constructed wf_steps.stay steps _ sample_waiting_facts(3)] steps
      sample_waiting_facts(3) by auto
qed

text \<open>
  The payload of a specification keeps its parts: scope, budget and memory query
  read back, and the first snapshot that a workflow builds from it is the initial
  snapshot of the execution.
\<close>

theorem spec_payload_faithful:
  assumes "mk_memory_scope (sp_scope spec) = Inr (sp_scope spec)" and "mk_budget (sp_budget spec) = Inr (sp_budget spec)"
    and "mk_execution_spec spec = Inr spec" and "\<forall>q. sp_memory_query spec = Some q \<longrightarrow> mk_memory_query q = Inr q"
    and "spec_dates_ok spec" and "good_now now"
  shows "bindE (vitem (spec_to_payload spec) ''scope'') scope_from_payload = Inr (sp_scope spec)
    \<and> bindE (vitem (spec_to_payload spec) ''budget'') budget_from_payload = Inr (sp_budget spec)
    \<and> bindE (vitem (spec_to_payload spec) ''memory_query'') memory_query_from_payload = Inr (sp_memory_query spec)
    \<and> bindE (initial_snapshot_payload (spec_to_payload spec) now) payload_to_snapshot = Inr (initial_snapshot spec now)"
proof (intro conjI)
  note scope = scope_constructed [OF assms(1)]
  show "bindE (vitem (spec_to_payload spec) ''scope'') scope_from_payload = Inr (sp_scope spec)"
    by (simp add: spec_to_payload_def scope_payload_roundtrip scope)
  have "valid_datetime (bg_deadline (sp_budget spec))" using assms(5) by (simp add: spec_dates_ok_def)
  from budget_payload_roundtrip [OF assms(2) this]
  show "bindE (vitem (spec_to_payload spec) ''budget'') budget_from_payload = Inr (sp_budget spec)" by (simp add: spec_to_payload_def)
  show "bindE (vitem (spec_to_payload spec) ''memory_query'') memory_query_from_payload = Inr (sp_memory_query spec)"
  proof (cases "sp_memory_query spec")
    case None
    then show ?thesis by (simp add: spec_to_payload_def opt_val_def memory_query_from_payload_def)
  next
    case (Some q)
    have "mq_scope q = sp_scope spec" using assms(3) Some by (simp add: mk_execution_spec_Inr spec_ok_def)
    then have "memory_query_from_payload (memory_query_to_payload q) = Inr (Some q)"
      using assms(1,4,5) Some by (intro query_payload_roundtrip) (auto simp: spec_dates_ok_def)
    with Some show ?thesis by (simp add: spec_to_payload_def opt_val_def)
  qed
  show "bindE (initial_snapshot_payload (spec_to_payload spec) now) payload_to_snapshot = Inr (initial_snapshot spec now)"
    by (simp add: initial_payload plain_payload initial_plain scope assms(6))
qed

theorem spec_payload_faithful_witness:
  "bindE (vitem (spec_to_payload (sample_spec (ExecutionId (UUID 7)))) ''budget'') budget_from_payload
    = Inr (sp_budget (sample_spec (ExecutionId (UUID 7))))"
proof -
  let ?s = "sample_spec (ExecutionId (UUID 7))"
  have b: "mk_budget (sp_budget ?s) = Inr (sp_budget ?s)" "\<forall>q. sp_memory_query ?s = Some q \<longrightarrow> mk_memory_query q = Inr q"
    by (simp_all add: mk_budget_Inr budget_ok_def sample_spec_def sample_time_facts)
  have s: "mk_execution_spec ?s = Inr ?s" by (simp add: mk_execution_spec_Inr)
  have "spec_dates_ok ?s" using good_sample_time by (simp add: spec_dates_ok_def sample_spec_def good_now_def)
  from spec_payload_faithful [OF sample_scope_constructed b(1) s b(2) this good_sample_time] show ?thesis by blast
qed

end
