(* ===== verification/Temporal_Orchestrator.thy ===== *)
theory Temporal_Orchestrator
  imports Temporal_Workflow
begin

text \<open>
  The Temporal orchestrator (\<open>temporal/orchestrator.py\<close>): starts with the shared
  idempotency index and its rollback, queries, and cancellation by signal and
  polling. The client library and the service behind it are the record
  \<open>temporal_client\<close>; what the code relies on of them is the locale
  \<open>temporal_service\<close>: workflows only move by their own steps, a start runs again only
  an identifier whose last run is closed, and a query answers with the state of the
  last run.
\<close>

section \<open>The client\<close>

datatype rpc_status = RpcNotFound | RpcOther
datatype start_answer = WorkflowStarted | WorkflowAlreadyStarted | StartRpcError rpc_status
datatype query_answer = QueryAnswer pyval | QueryRpcError rpc_status | QueryFailed string

text \<open>
  A query has an answer, an error of the call, or a failure of the query itself (the
  client's own exception, which the code does not catch); a signal is delivered or not.
  \<open>'c\<close> is the state of the service, which may go on between and during the calls.
\<close>

record 'c temporal_client =
  tc_start :: "'c \<Rightarrow> string \<Rightarrow> pyval \<Rightarrow> start_answer \<times> 'c"
  tc_query :: "'c \<Rightarrow> string \<Rightarrow> query_answer \<times> 'c"
  tc_signal :: "'c \<Rightarrow> string \<Rightarrow> bool \<times> 'c"

definition temporal_snapshot_for_scope :: "execution_snapshot \<Rightarrow> memory_scope \<Rightarrow> execution_id \<Rightarrow> execution_snapshot res" where
  "temporal_snapshot_for_scope s scope i =
     (if sn_execution_id s \<noteq> i \<or> sn_scope s \<noteq> scope then Inl ExecutionNotFound else Inr s)"

definition query_snapshot ::
    "'c temporal_client \<Rightarrow> 'c \<Rightarrow> tenant_id \<Rightarrow> execution_id \<Rightarrow> memory_scope \<Rightarrow> execution_snapshot res \<times> 'c" where
  "query_snapshot client c tenant i scope = (case tc_query client c (workflow_id tenant i) of
       (QueryRpcError RpcNotFound, c') \<Rightarrow> (Inl ExecutionNotFound, c')
     | (QueryRpcError RpcOther, c') \<Rightarrow> (Inl OrchestrationUnavailable, c')
     | (QueryFailed what, c') \<Rightarrow> (Inl (BackendError what), c')
     | (QueryAnswer payload, c') \<Rightarrow> (case payload of
           VDict kvs \<Rightarrow> (bindE (payload_to_snapshot payload) (\<lambda>s. temporal_snapshot_for_scope s scope i), c')
         | _ \<Rightarrow> (Inl OrchestrationUnavailable, c')))"

definition temporal_get ::
    "'c temporal_client \<Rightarrow> 'c \<Rightarrow> memory_scope \<Rightarrow> execution_id \<Rightarrow> execution_snapshot res \<times> 'c" where
  "temporal_get client c scope i = query_snapshot client c (ms_tenant_id scope) i scope"

section \<open>Start\<close>

definition register_callback :: "execution_spec \<Rightarrow> write_callback" where
  "register_callback spec state outbox =
     (case dict_get (cr_idempotency_index state) (index_key spec) of
        Some existing_id \<Rightarrow>
          (case dict_get (cr_fingerprints state) existing_id of
             None \<Rightarrow> Inl ExecutionIdempotencyConflict
           | Some stored \<Rightarrow> if \<not> fps_eq stored (spec_fingerprint spec) then Inl ExecutionIdempotencyConflict
               else Inr (state, outbox))
      | None \<Rightarrow> Inr (state\<lparr>cr_idempotency_index := dict_set (index_key spec) (sp_id spec) (cr_idempotency_index state),
                       cr_fingerprints := dict_set (sp_id spec) (spec_fingerprint spec) (cr_fingerprints state)\<rparr>, outbox))"

text \<open>What the callback leaves in \<open>start_result\<close>: the execution, and whether it is new.\<close>

definition start_result :: "committed_runtime_state \<Rightarrow> execution_spec \<Rightarrow> execution_id \<times> bool" where
  "start_result state spec = (case dict_get (cr_idempotency_index state) (index_key spec) of
       Some existing_id \<Rightarrow> (existing_id, False) | None \<Rightarrow> (sp_id spec, True))"

definition rollback_callback :: "tenant_id \<times> string \<Rightarrow> execution_id \<Rightarrow> write_callback" where
  "rollback_callback k i state outbox =
     (if dict_get (cr_idempotency_index state) k \<noteq> Some i then Inr (state, outbox)
      else Inr (state\<lparr>cr_idempotency_index := dict_pop k (cr_idempotency_index state),
                      cr_fingerprints := dict_pop i (cr_fingerprints state)\<rparr>, outbox))"

definition start_workflow_or_raise ::
    "'c temporal_client \<Rightarrow> bool \<Rightarrow> execution_spec \<Rightarrow> execution_id \<Rightarrow> committed_runtime_state \<times> 'c
      \<Rightarrow> unit res \<times> committed_runtime_state \<times> 'c" where
  "start_workflow_or_raise client rollback spec i s =
     (case tc_start client (snd s) (workflow_id (ms_tenant_id (sp_scope spec)) i)
         (spec_to_payload (if sp_id spec = i then spec else spec\<lparr>sp_id := i\<rparr>)) of
        (WorkflowStarted, c') \<Rightarrow> (Inr (), fst s, c')
      | (WorkflowAlreadyStarted, c') \<Rightarrow>
          ((case dict_get (cr_fingerprints (fst s)) i of
              None \<Rightarrow> Inl ExecutionIdempotencyConflict
            | Some stored \<Rightarrow> raise_if (\<not> fps_eq stored (spec_fingerprint spec)) ExecutionIdempotencyConflict), fst s, c')
      | (StartRpcError st, c') \<Rightarrow>
          if rollback then (case db_write (fst s) (rollback_callback (index_key spec) i) of
              (Inl e, db') \<Rightarrow> (Inl e, db', c')
            | (Inr _, db') \<Rightarrow> (Inl OrchestrationUnavailable, db', c'))
          else (Inl OrchestrationUnavailable, fst s, c'))"

definition temporal_start ::
    "'c temporal_client \<Rightarrow> ('c \<Rightarrow> execution_snapshot \<Rightarrow> unit res \<times> 'c) option \<Rightarrow> committed_runtime_state \<times> 'c \<Rightarrow> execution_spec
      \<Rightarrow> execution_snapshot res \<times> committed_runtime_state \<times> 'c" where
  "temporal_start client snapshot_writer s spec =
     (case db_write (fst s) (register_callback spec) of
        (Inl e, db) \<Rightarrow> (Inl e, db, snd s)
      | (Inr _, db) \<Rightarrow>
          (case start_result (fst s) spec of (i, is_new) \<Rightarrow>
          if is_new then
            (case start_workflow_or_raise client True spec i (db, snd s) of
               (Inl e, s') \<Rightarrow> (Inl e, s')
             | (Inr _, db', c) \<Rightarrow> (case query_snapshot client c (ms_tenant_id (sp_scope spec)) i (sp_scope spec) of
                   (Inl e, c') \<Rightarrow> (Inl e, db', c')
                 | (Inr snapshot, c') \<Rightarrow> (case snapshot_writer of
                       None \<Rightarrow> (Inr snapshot, db', c')
                     | Some upsert \<Rightarrow> (case upsert c' snapshot of
                           (Inl e, c'') \<Rightarrow> (Inl e, db', c'')
                         | (Inr _, c'') \<Rightarrow> (Inr snapshot, db', c'')))))
          else
            (case query_snapshot client (snd s) (ms_tenant_id (sp_scope spec)) i (sp_scope spec) of
               (Inl ExecutionNotFound, c) \<Rightarrow>
                 (case start_workflow_or_raise client False spec i (db, c) of
                    (Inl e, s') \<Rightarrow> (Inl e, s')
                  | (Inr _, db', c') \<Rightarrow>
                      (case query_snapshot client c' (ms_tenant_id (sp_scope spec)) i (sp_scope spec) of (r, c'') \<Rightarrow> (r, db', c'')))
             | (r, c) \<Rightarrow> (r, db, c))))"

section \<open>Cancel\<close>

fun poll_cancel ::
    "'c temporal_client \<Rightarrow> nat \<Rightarrow> 'c \<Rightarrow> memory_scope \<Rightarrow> execution_id \<Rightarrow> execution_snapshot res \<times> 'c" where
  "poll_cancel client 0 c scope i = (Inl OrchestrationUnavailable, c)"
| "poll_cancel client (Suc n) c scope i = (case query_snapshot client c (ms_tenant_id scope) i scope of
       (Inl e, c') \<Rightarrow> (Inl e, c')
     | (Inr s, c') \<Rightarrow>
         if sn_status s = CANCELLED then (Inr s, c')
         else if sn_status s = SUCCEEDED then (Inl InvalidExecutionTransition, c')
         else if sn_status s = FAILED then (Inr s, c')
         else poll_cancel client n c' scope i)"

definition temporal_cancel ::
    "'c temporal_client \<Rightarrow> 'c \<Rightarrow> memory_scope \<Rightarrow> execution_id \<Rightarrow> string \<Rightarrow> execution_snapshot res \<times> 'c" where
  "temporal_cancel client c scope i idempotency_key =
     (case query_snapshot client c (ms_tenant_id scope) i scope of
        (Inl e, c1) \<Rightarrow> (Inl e, c1)
      | (Inr s, c1) \<Rightarrow>
          if sn_status s \<in> {CANCELLED, FAILED} then (Inr s, c1)
          else if sn_status s = SUCCEEDED then (Inl InvalidExecutionTransition, c1)
          else (case tc_signal client c1 (workflow_id (ms_tenant_id scope) i) of
              (True, c2) \<Rightarrow> poll_cancel client 200 c2 scope i
            | (False, c2) \<Rightarrow> (case query_snapshot client c2 (ms_tenant_id scope) i scope of
                  (Inl e, c3) \<Rightarrow> (Inl e, c3)
                | (Inr s', c3) \<Rightarrow>
                    if sn_status s' = SUCCEEDED then (Inl InvalidExecutionTransition, c3)
                    else if sn_status s' \<in> {CANCELLED, FAILED} then (Inr s', c3)
                    else (Inl OrchestrationUnavailable, c3))))"

section \<open>What the service guarantees\<close>

text \<open>The steps of one workflow, whatever its activities find written by others.\<close>

inductive flow_steps :: "'w activity_writers set \<Rightarrow> pyval \<Rightarrow> workflow \<Rightarrow> workflow \<Rightarrow> bool" for W spec_payload where
  rest: "flow_steps W spec_payload flow flow"
| move: "flow_steps W spec_payload flow flow' \<Longrightarrow> wf_step W spec_payload (flow', w) (flow'', w') \<Longrightarrow> flow_steps W spec_payload flow flow''"

lemma flow_steps_trans: "flow_steps W p b c \<Longrightarrow> flow_steps W p a b \<Longrightarrow> flow_steps W p a c"
  by (induction rule: flow_steps.induct) (auto intro: flow_steps.move)

text \<open>Between two states of the service the workflows are kept and only move by their own steps.\<close>

definition service_goes ::
    "'w activity_writers set \<Rightarrow> ('c \<Rightarrow> string \<Rightarrow> (pyval \<times> workflow) option) \<Rightarrow> 'c \<Rightarrow> 'c \<Rightarrow> bool" where
  "service_goes W flow_of c c' \<longleftrightarrow> (\<forall>wid p flow. flow_of c wid = Some (p, flow) \<longrightarrow>
     (\<exists>flow'. flow_of c' wid = Some (p, flow') \<and> flow_steps W p flow flow'))"

text \<open>Every workflow was started for a specification, under the identifier of its execution.\<close>

definition service_inv ::
    "'w activity_writers set \<Rightarrow> ('c \<Rightarrow> string \<Rightarrow> (pyval \<times> workflow) option) \<Rightarrow> 'c \<Rightarrow> bool" where
  "service_inv W flow_of c \<longleftrightarrow> (\<forall>wid p flow. flow_of c wid = Some (p, flow) \<longrightarrow>
     (\<exists>spec. p = spec_to_payload spec \<and> scope_ok (sp_scope spec) \<and> flow_steps W p new_workflow flow))"

lemma service_goesD: "service_goes W flow_of c c' \<Longrightarrow> flow_of c wid = Some (p, flow) \<Longrightarrow>
    \<exists>flow'. flow_of c' wid = Some (p, flow') \<and> flow_steps W p flow flow'"
  unfolding service_goes_def by blast

lemma service_invD: "service_inv W flow_of c \<Longrightarrow> flow_of c wid = Some (p, flow) \<Longrightarrow>
    \<exists>spec. p = spec_to_payload spec \<and> scope_ok (sp_scope spec) \<and> flow_steps W p new_workflow flow"
  unfolding service_inv_def by blast

lemma service_goes_refl: "service_goes W flow_of c c"
  by (auto simp: service_goes_def intro: flow_steps.rest)

lemma service_goes_trans: "service_goes W flow_of a b \<Longrightarrow> service_goes W flow_of b c \<Longrightarrow> service_goes W flow_of a c"
  unfolding service_goes_def by (meson flow_steps_trans)

text \<open>A workflow that did not start shows the empty dictionary, which is no snapshot.\<close>

definition flow_inv :: "execution_spec \<Rightarrow> workflow \<Rightarrow> bool" where
  "flow_inv spec flow \<longleftrightarrow> wf_inv spec flow \<and> (wf_stage flow = NotStarted \<longrightarrow> wf_snapshot flow = VDict [])"

lemma flow_step_inv:
  assumes "wf_step W (spec_to_payload spec) (flow, w) (flow', w')" and "flow_inv spec flow" and "scope_ok (sp_scope spec)"
  shows "flow_inv spec flow' \<and> (\<forall>s. wf_shows spec flow s \<longrightarrow> (\<exists>t. wf_shows spec flow' t \<and> later s t))
    \<and> (wf_stage flow = Returned \<longrightarrow> flow' = flow)"
proof -
  have i: "wf_inv spec flow" using assms(2) by (simp add: flow_inv_def)
  have "wf_stage flow' = NotStarted \<longrightarrow> wf_snapshot flow' = VDict []"
    using assms(1)
  proof (cases rule: wf_step.cases)
    case (complete a at_iso n writers now payload)
    then show ?thesis by (cases a) (auto simp: resume_run_def schedule_unless_cancelled_def schedule_def)
  qed (use assms(2) in \<open>auto simp: flow_inv_def begin_run_def request_cancel_def retry_activity_def schedule_unless_cancelled_def
      schedule_def split: sum.splits if_splits\<close>)
  moreover have "wf_stage flow = Returned \<longrightarrow> flow' = flow" using assms(1) by (auto elim!: wf_step.cases)
  ultimately show ?thesis using step_inv [OF assms(1) i assms(3)] by (simp add: flow_inv_def)
qed

lemma flow_steps_inv:
  assumes "flow_steps W (spec_to_payload spec) flow flow'" and "flow_inv spec flow" and "scope_ok (sp_scope spec)"
  shows "flow_inv spec flow' \<and> (\<forall>s. wf_shows spec flow s \<longrightarrow> (\<exists>t. wf_shows spec flow' t \<and> later s t))
    \<and> (wf_stage flow = Returned \<longrightarrow> flow' = flow)"
  using assms
proof (induction rule: flow_steps.induct)
  case (rest flow)
  then show ?case using later_refl by blast
next
  case (move flow flow' w flow'' w')
  then have i: "flow_inv spec flow'" "\<forall>s. wf_shows spec flow s \<longrightarrow> (\<exists>t. wf_shows spec flow' t \<and> later s t)"
    "wf_stage flow = Returned \<longrightarrow> flow' = flow" by auto
  from flow_step_inv [OF move(2) i(1) move(5)] i show ?case by (metis later_trans)
qed

lemma new_flow_inv: "flow_inv spec new_workflow"
  using new_inv by (simp add: flow_inv_def new_workflow_def)

lemma empty_payload: "payload_to_snapshot (VDict []) = Inl (KeyError ''status'')"
proof -
  have "vitem (VDict []) ''status'' = Inl (KeyError ''status'')" by (simp add: vitem_def vget_def)
  then show ?thesis by (simp add: payload_to_snapshot_def snapshot_from_json_def)
qed

lemma flow_answer:
  assumes "flow_inv spec flow" and "payload_to_snapshot (current_snapshot flow) = Inr s"
  shows "wf_shows spec flow s"
proof -
  have "wf_stage flow \<noteq> NotStarted"
    using assms by (auto simp: flow_inv_def current_snapshot_def empty_payload)
  then obtain t where "wf_shows spec flow t" using wf_inv_shows assms(1) by (auto simp: flow_inv_def)
  with assms(2) show ?thesis using plain_payload [of t] by (auto simp: wf_shows_def)
qed

lemma plain_payload_inj: "plain s \<Longrightarrow> plain t \<Longrightarrow> snapshot_to_payload s = snapshot_to_payload t \<Longrightarrow> s = t"
  using plain_payload by (metis sum.inject(2))

text \<open>Only a workflow that returned shows a terminal status.\<close>

lemma terminal_stage: "(st, n) \<in> stage_positions g \<Longrightarrow> terminal st \<Longrightarrow> g = Returned"
proof (cases g)
  case (Scheduled a at_iso k)
  then show "(st, n) \<in> stage_positions g \<Longrightarrow> terminal st \<Longrightarrow> g = Returned" by (cases a) (auto simp: terminal_def)
qed (auto simp: terminal_def)

text \<open>
  What the orchestrator relies on. \<open>flow_of\<close> is the last run that the service has had
  under an identifier, with its input. Time, queries and signals only move the runs by
  their own steps. A start makes a new run of the identifier it was given, with its
  input; the code passes no reuse policy, so by the documented default it does so when
  there is no run yet and also when the last run is closed. A query answers with the
  state of the last run. Nothing is promised of errors: a call that reports one may
  have taken effect.
\<close>

locale temporal_service =
  fixes W :: "'w activity_writers set" and client :: "'c temporal_client"
    and flow_of :: "'c \<Rightarrow> string \<Rightarrow> (pyval \<times> workflow) option"
  assumes start_others: "tc_start client c wid p = (a, c') \<Longrightarrow> wid' \<noteq> wid \<Longrightarrow> flow_of c wid' = Some (q, flow) \<Longrightarrow>
      \<exists>flow'. flow_of c' wid' = Some (q, flow') \<and> flow_steps W q flow flow'"
    and start_no_other: "tc_start client c wid p = (a, c') \<Longrightarrow> wid' \<noteq> wid \<Longrightarrow> flow_of c wid' = None \<Longrightarrow> flow_of c' wid' = None"
    and start_this: "tc_start client c wid p = (a, c') \<Longrightarrow> flow_of c' wid = Some (q, flow) \<Longrightarrow>
      (\<exists>g. flow_of c wid = Some (q, g) \<and> flow_steps W q g flow)
      \<or> (q = p \<and> flow_steps W p new_workflow flow
          \<and> (\<forall>q' g. flow_of c wid = Some (q', g) \<longrightarrow> (\<exists>g'. flow_steps W q' g g' \<and> finished g')))"
    and start_stays: "tc_start client c wid p = (a, c') \<Longrightarrow> flow_of c wid \<noteq> None \<Longrightarrow> flow_of c' wid \<noteq> None"
    and started: "tc_start client c wid p = (WorkflowStarted, c') \<Longrightarrow>
      \<exists>flow. flow_of c' wid = Some (p, flow) \<and> flow_steps W p new_workflow flow"
    and query_goes: "tc_query client c wid = (b, c') \<Longrightarrow> service_goes W flow_of c c'"
    and query_only: "tc_query client c wid = (b, c') \<Longrightarrow> flow_of c wid' = None \<Longrightarrow> flow_of c' wid' = None"
    and query_answers: "tc_query client c wid = (QueryAnswer v, c') \<Longrightarrow>
      \<exists>p flow. flow_of c' wid = Some (p, flow) \<and> v = current_snapshot flow"
    and signal_goes: "tc_signal client c wid = (d, c') \<Longrightarrow> service_goes W flow_of c c'"
    and signal_only: "tc_signal client c wid = (d, c') \<Longrightarrow> flow_of c wid' = None \<Longrightarrow> flow_of c' wid' = None"
begin

lemma goes_inv:
  assumes "service_inv W flow_of c" and "service_goes W flow_of c c'" and "\<And>wid. flow_of c wid = None \<Longrightarrow> flow_of c' wid = None"
  shows "service_inv W flow_of c'"
  unfolding service_inv_def
proof (intro allI impI)
  fix wid p flow
  assume f: "flow_of c' wid = Some (p, flow)"
  with assms(3) obtain q g where g: "flow_of c wid = Some (q, g)" by (cases "flow_of c wid") auto
  from service_goesD [OF assms(2) g] f have "q = p" "flow_steps W p g flow" by auto
  moreover from service_invD [OF assms(1) g]
  obtain spec where "q = spec_to_payload spec" "scope_ok (sp_scope spec)" "flow_steps W q new_workflow g" by blast
  ultimately show "\<exists>spec. p = spec_to_payload spec \<and> scope_ok (sp_scope spec) \<and> flow_steps W p new_workflow flow"
    using flow_steps_trans by metis
qed

lemma start_keeps:
  assumes "tc_start client c wid (spec_to_payload spec) = (a, c')" and "scope_ok (sp_scope spec)" and "service_inv W flow_of c"
  shows "service_inv W flow_of c'"
  unfolding service_inv_def
proof (intro allI impI)
  fix wid' p flow
  assume f: "flow_of c' wid' = Some (p, flow)"
  have "(\<exists>g. flow_of c wid' = Some (p, g) \<and> flow_steps W p g flow) \<or> p = spec_to_payload spec \<and> flow_steps W p new_workflow flow"
  proof (cases "wid' = wid")
    case True
    with start_this [OF assms(1)] f show ?thesis by blast
  next
    case False
    show ?thesis
    proof (cases "flow_of c wid'")
      case None
      with start_no_other [OF assms(1) False] f show ?thesis by simp
    next
      case (Some qg)
      obtain q g where "qg = (q, g)" by (cases qg)
      with start_others [OF assms(1) False, of q g] Some f show ?thesis by auto
    qed
  qed
  then show "\<exists>spec. p = spec_to_payload spec \<and> scope_ok (sp_scope spec) \<and> flow_steps W p new_workflow flow"
    using assms(2) service_invD [OF assms(3)] flow_steps_trans by metis
qed

lemma query_keeps: "tc_query client c wid = (b, c') \<Longrightarrow> service_inv W flow_of c \<Longrightarrow> service_inv W flow_of c'"
  using goes_inv [OF _ query_goes] query_only by blast

lemma signal_keeps: "tc_signal client c wid = (d, c') \<Longrightarrow> service_inv W flow_of c \<Longrightarrow> service_inv W flow_of c'"
  using goes_inv [OF _ signal_goes] signal_only by blast

lemma query_snapshot_query:
  assumes "query_snapshot client c tenant i scope = (r, c')"
  shows "\<exists>b. tc_query client c (workflow_id tenant i) = (b, c')"
  using assms by (auto simp: query_snapshot_def split: prod.splits query_answer.splits rpc_status.splits pyval.splits)

text \<open>A snapshot that a read returns is what the workflow of the execution shows.\<close>

lemma query_snapshot_answer:
  assumes q: "query_snapshot client c tenant i scope = (Inr s, c')" and inv: "service_inv W flow_of c"
  shows "\<exists>spec flow. flow_of c' (workflow_id tenant i) = Some (spec_to_payload spec, flow) \<and> scope_ok (sp_scope spec)
    \<and> flow_inv spec flow \<and> wf_shows spec flow s \<and> sn_execution_id s = i \<and> sn_scope s = scope"
proof -
  obtain b where b: "tc_query client c (workflow_id tenant i) = (b, c')" using query_snapshot_query [OF q] by blast
  with q obtain kvs where v: "b = QueryAnswer (VDict kvs)"
    "bindE (payload_to_snapshot (VDict kvs)) (\<lambda>s. temporal_snapshot_for_scope s scope i) = Inr s"
    by (auto simp: query_snapshot_def split: query_answer.splits rpc_status.splits pyval.splits)
  from query_answers [OF b [unfolded v(1)]] obtain p flow where f: "flow_of c' (workflow_id tenant i) = Some (p, flow)"
    "VDict kvs = current_snapshot flow" by blast
  from service_invD [OF query_keeps [OF b inv] f(1)]
  obtain spec where spec: "p = spec_to_payload spec" "scope_ok (sp_scope spec)" "flow_steps W p new_workflow flow" by blast
  have fi: "flow_inv spec flow" using flow_steps_inv spec new_flow_inv by blast
  moreover have "payload_to_snapshot (current_snapshot flow) = Inr s" "sn_execution_id s = i" "sn_scope s = scope"
    using v(2) f(2) by (auto simp: bindE_eq_Inr temporal_snapshot_for_scope_def split: if_splits)
  ultimately show ?thesis using flow_answer f(1) spec by blast
qed

lemma reads_move_on:
  assumes "service_inv W flow_of c" and "query_snapshot client c tenant i scope = (Inr s, c1)"
    and "service_goes W flow_of c1 c2" and "service_inv W flow_of c2" and "query_snapshot client c2 tenant i scope = (Inr t, c3)"
  shows "later s t \<and> (terminal (sn_status s) \<longrightarrow> t = s)"
proof -
  let ?wid = "workflow_id tenant i"
  from query_snapshot_answer [OF assms(2,1)] obtain spec flow where a: "flow_of c1 ?wid = Some (spec_to_payload spec, flow)"
    "scope_ok (sp_scope spec)" "flow_inv spec flow" "wf_shows spec flow s" by blast
  from query_snapshot_answer [OF assms(5,4)] obtain spec' flow' where b: "flow_of c3 ?wid = Some (spec_to_payload spec', flow')"
    "flow_inv spec' flow'" "wf_shows spec' flow' t" by blast
  obtain q where "tc_query client c2 ?wid = (q, c3)" using query_snapshot_query [OF assms(5)] by blast
  from service_goesD [OF service_goes_trans [OF assms(3) query_goes [OF this]] a(1)] b(1)
  have st: "flow_steps W (spec_to_payload spec) flow flow'" by auto
  from flow_steps_inv [OF st a(3,2)] a(4) obtain u where u: "wf_shows spec flow' u" "later s u"
    "wf_stage flow = Returned \<longrightarrow> flow' = flow" by blast
  have "plain u" "plain t" "snapshot_to_payload u = snapshot_to_payload t"
    using u(1) b(3) unfolding wf_shows_def by simp_all
  then have "u = t" by (rule plain_payload_inj)
  have "wf_stage flow = Returned" if "terminal (sn_status s)"
  proof -
    have "(sn_status s, sn_revision s) \<in> stage_positions (wf_stage flow)" using a(4) by (simp add: wf_shows_def)
    then show ?thesis using that by (rule terminal_stage)
  qed
  then have "t = s" if "terminal (sn_status s)"
    using that u(1,3) a(4) wf_shows_unique \<open>u = t\<close> by blast
  with u(2) \<open>u = t\<close> show ?thesis by blast
qed

end

text \<open>A cancellation ends with a read that decides it, or with the error of a read.\<close>

definition shows_closed :: "('c \<Rightarrow> string \<Rightarrow> (pyval \<times> workflow) option) \<Rightarrow> 'c \<Rightarrow> execution_snapshot \<Rightarrow> bool" where
  "shows_closed flow_of c s \<longleftrightarrow> (\<exists>p flow. flow_of c (workflow_id (ms_tenant_id (sn_scope s)) (sn_execution_id s)) = Some (p, flow)
     \<and> wf_stage flow = Returned \<and> current_snapshot flow = snapshot_to_payload s \<and> plain s)"

definition query_errors :: "exn set" where
  "query_errors = {ExecutionNotFound, OrchestrationUnavailable, KeyError ''status''} \<union> range BackendError"

definition settled ::
    "('c \<Rightarrow> bool) \<Rightarrow> 'c temporal_client \<Rightarrow> memory_scope \<Rightarrow> execution_id \<Rightarrow> execution_snapshot res \<Rightarrow> 'c \<Rightarrow> bool" where
  "settled I client scope i r c' \<longleftrightarrow>
     (\<exists>c0 s. I c0 \<and> query_snapshot client c0 (ms_tenant_id scope) i scope = (Inr s, c')
        \<and> (r = Inr s \<and> sn_status s \<in> {CANCELLED, FAILED} \<or> r = Inl InvalidExecutionTransition \<and> sn_status s = SUCCEEDED))
     \<or> r \<in> Inl ` query_errors"

lemma query_errors_simps [simp]:
  "OrchestrationUnavailable \<in> query_errors" "ExecutionNotFound \<in> query_errors" "InvalidExecutionTransition \<notin> query_errors"
  by (auto simp: query_errors_def)

context temporal_service begin

lemma query_snapshot_keeps:
  assumes "query_snapshot client c tenant i scope = (r, c')"
  shows "service_goes W flow_of c c'" and "service_inv W flow_of c \<Longrightarrow> service_inv W flow_of c'"
  using query_snapshot_query [OF assms] query_goes query_keeps by blast+

lemma query_snapshot_error:
  assumes q: "query_snapshot client c tenant i scope = (Inl e, c')" and inv: "service_inv W flow_of c"
  shows "e \<in> query_errors"
  unfolding query_errors_def
proof (rule ccontr)
  assume n: "e \<notin> {ExecutionNotFound, OrchestrationUnavailable, KeyError ''status''} \<union> range BackendError"
  obtain b where b: "tc_query client c (workflow_id tenant i) = (b, c')" using query_snapshot_query [OF q] by blast
  with q n obtain kvs where v: "b = QueryAnswer (VDict kvs)"
    "bindE (payload_to_snapshot (VDict kvs)) (\<lambda>s. temporal_snapshot_for_scope s scope i) = Inl e"
    by (auto simp: query_snapshot_def split: query_answer.splits rpc_status.splits pyval.splits)
  from query_answers [OF b [unfolded v(1)]] obtain p flow where f: "flow_of c' (workflow_id tenant i) = Some (p, flow)"
    "VDict kvs = current_snapshot flow" by blast
  from service_invD [OF query_keeps [OF b inv] f(1)]
  obtain spec where spec: "p = spec_to_payload spec" "scope_ok (sp_scope spec)" "flow_steps W p new_workflow flow" by blast
  then have fi: "flow_inv spec flow" using flow_steps_inv new_flow_inv by blast
  show False
  proof (cases "wf_stage flow = NotStarted")
    case True
    with fi f(2) have "kvs = []" by (simp add: flow_inv_def current_snapshot_def)
    with v(2) n show False by (simp add: empty_payload)
  next
    case False
    with fi obtain s where "wf_shows spec flow s" using wf_inv_shows by (auto simp: flow_inv_def)
    then have "payload_to_snapshot (VDict kvs) = Inr s" using f(2) plain_payload by (simp add: wf_shows_def)
    with v(2) n show False by (simp add: temporal_snapshot_for_scope_def split: if_splits)
  qed
qed

lemma settled_query:
  assumes q: "query_snapshot client c (ms_tenant_id scope) i scope = (q, c')" and inv: "service_inv W flow_of c"
    and r: "q = Inl e \<Longrightarrow> r = Inl e" "q = Inr s \<Longrightarrow> r = (if sn_status s = SUCCEEDED then Inl InvalidExecutionTransition
      else if sn_status s \<in> {CANCELLED, FAILED} then Inr s else Inl OrchestrationUnavailable)"
    and e: "q = Inl e \<or> q = Inr s"
  shows "settled (service_inv W flow_of) client scope i r c'"
proof (cases q)
  case (Inl e')
  with e have q': "q = Inl e" by auto
  from query_snapshot_error [OF q [unfolded q'] inv] r(1) [OF q'] show ?thesis by (auto simp: settled_def)
next
  case (Inr s')
  with e have q': "q = Inr s" by auto
  from q [unfolded q'] inv r(2) [OF q'] show ?thesis unfolding settled_def by (cases "sn_status s") auto
qed

lemma poll_settled:
  "poll_cancel client n c scope i = (r, c') \<Longrightarrow> service_inv W flow_of c \<Longrightarrow> settled (service_inv W flow_of) client scope i r c'"
proof (induction n arbitrary: c)
  case (Suc n)
  obtain q c1 where q: "query_snapshot client c (ms_tenant_id scope) i scope = (q, c1)" by fastforce
  show ?case
  proof (cases q)
    case (Inl e)
    with Suc.prems(1) q have "c1 = c'" by simp
    show ?thesis by (rule settled_query [OF q [unfolded \<open>c1 = c'\<close>] Suc.prems(2), where e = e]) (use Suc.prems(1) q Inl in auto)
  next
    case (Inr s)
    show ?thesis
    proof (cases "sn_status s \<in> {CANCELLED, SUCCEEDED, FAILED}")
      case True
      with Suc.prems(1) q Inr have "c1 = c'" by (auto split: if_splits)
      show ?thesis by (rule settled_query [OF q [unfolded \<open>c1 = c'\<close>] Suc.prems(2), where s = s]) (use True Suc.prems(1) q Inr in auto)
    next
      case False
      with Suc.prems(1) q Inr have "poll_cancel client n c1 scope i = (r, c')" by auto
      from Suc.IH [OF this query_snapshot_keeps(2) [OF q Suc.prems(2)]] show ?thesis .
    qed
  qed
qed (auto simp: settled_def)

end

context temporal_service begin

lemma cancel_settled:
  assumes "temporal_cancel client c scope i key = (r, c')" and inv: "service_inv W flow_of c"
  shows "settled (service_inv W flow_of) client scope i r c'"
proof -
  obtain q c1 where q: "query_snapshot client c (ms_tenant_id scope) i scope = (q, c1)" by fastforce
  note inv1 = query_snapshot_keeps(2) [OF q inv]
  show ?thesis
  proof (cases q)
    case (Inl e)
    with assms(1) q have "c1 = c'" "r = Inl e" by (simp_all add: temporal_cancel_def)
    then show ?thesis by (intro settled_query [OF q [unfolded \<open>c1 = c'\<close>] inv, where e = e]) (use Inl in auto)
  next
    case (Inr s)
    show ?thesis
    proof (cases "sn_status s \<in> {CANCELLED, SUCCEEDED, FAILED}")
      case True
      with assms(1) q Inr have "c1 = c'" "r = (if sn_status s = SUCCEEDED then Inl InvalidExecutionTransition else Inr s)"
        by (auto simp: temporal_cancel_def)
      then show ?thesis by (intro settled_query [OF q [unfolded \<open>c1 = c'\<close>] inv, where s = s]) (use Inr True in auto)
    next
      case False
      obtain d c2 where d: "tc_signal client c1 (workflow_id (ms_tenant_id scope) i) = (d, c2)" by fastforce
      note inv2 = signal_keeps [OF d inv1]
      show ?thesis
      proof (cases d)
        case True
        with assms(1) q Inr False d have "poll_cancel client 200 c2 scope i = (r, c')"
          by (simp add: temporal_cancel_def)
        from poll_settled [OF this inv2] show ?thesis .
      next
        case delivery: False
        obtain q2 c3 where q2: "query_snapshot client c2 (ms_tenant_id scope) i scope = (q2, c3)" by fastforce
        with assms(1) q Inr False d delivery have r: "c3 = c'" "r = (case q2 of Inl e \<Rightarrow> Inl e | Inr s' \<Rightarrow>
            if sn_status s' = SUCCEEDED then Inl InvalidExecutionTransition
            else if sn_status s' \<in> {CANCELLED, FAILED} then Inr s' else Inl OrchestrationUnavailable)"
          by (auto simp: temporal_cancel_def split: sum.splits if_splits)
        show ?thesis
          by (cases q2; rule settled_query [OF q2 [unfolded r(1)] inv2]) (auto simp: r(2))
      qed
    qed
  qed
qed

text \<open>A read that decides a cancellation is of a closed run, which shows what the read returned.\<close>

lemma settled_closed:
  assumes "settled (service_inv W flow_of) client scope i r c'" and "r \<notin> Inl ` query_errors"
  shows "\<exists>s. shows_closed flow_of c' s \<and> sn_execution_id s = i \<and> sn_scope s = scope
    \<and> (r = Inr s \<and> sn_status s = CANCELLED \<or> r = Inl InvalidExecutionTransition \<and> sn_status s = SUCCEEDED)"
proof -
  from assms obtain c0 s where s: "service_inv W flow_of c0" "query_snapshot client c0 (ms_tenant_id scope) i scope = (Inr s, c')"
    "r = Inr s \<and> sn_status s \<in> {CANCELLED, FAILED} \<or> r = Inl InvalidExecutionTransition \<and> sn_status s = SUCCEEDED"
    by (auto simp: settled_def)
  from query_snapshot_answer [OF s(2,1)] obtain spec flow where f: "flow_of c' (workflow_id (ms_tenant_id scope) i) = Some (spec_to_payload spec, flow)"
    "wf_shows spec flow s" "sn_execution_id s = i" "sn_scope s = scope" by blast
  then have p: "(sn_status s, sn_revision s) \<in> stage_positions (wf_stage flow)" by (simp add: wf_shows_def)
  have "wf_stage flow = Returned" by (rule terminal_stage [OF p]) (use s(3) in \<open>auto simp: terminal_def\<close>)
  with p f s(3) show ?thesis by (intro exI [of _ s]) (auto simp: shows_closed_def wf_shows_def)
qed

end

section \<open>A closed run\<close>

text \<open>What happens to a closed run later, as long as the service retains it.\<close>

locale retaining_service = temporal_service +
  assumes query_missing: "tc_query client c wid = (QueryRpcError RpcNotFound, c') \<Longrightarrow> flow_of c' wid = None"

lemma returned_rests: "flow_steps W p flow flow' \<Longrightarrow> wf_stage flow = Returned \<Longrightarrow> flow' = flow"
  by (induction rule: flow_steps.induct) (auto elim!: wf_step.cases)

lemma shows_closed_goes: "service_goes W flow_of c c' \<Longrightarrow> shows_closed flow_of c s \<Longrightarrow> shows_closed flow_of c' s"
proof -
  assume g: "service_goes W flow_of c c'" and "shows_closed flow_of c s"
  then obtain p flow where f: "flow_of c (workflow_id (ms_tenant_id (sn_scope s)) (sn_execution_id s)) = Some (p, flow)"
    "wf_stage flow = Returned" "current_snapshot flow = snapshot_to_payload s" "plain s" by (auto simp: shows_closed_def)
  from service_goesD [OF g f(1)] obtain flow' where "flow_of c' (workflow_id (ms_tenant_id (sn_scope s)) (sn_execution_id s)) = Some (p, flow')"
    "flow_steps W p flow flow'" by blast
  with returned_rests [OF this(2) f(2)] f(2-4) show ?thesis by (auto simp: shows_closed_def)
qed

text \<open>A workflow identifier names its execution: its second part is the text of the execution's.\<close>

lemma uuid_text_length: "length (uuid_text u) = 36"
  by (simp add: uuid_text_def Let_def)

lemma workflow_id_execution: "workflow_id t i = workflow_id u j \<Longrightarrow> i = j"
  using uuid_text_inj uuid_text_length by (auto simp: workflow_id_def intro: execution_id.expand)

lemma fps_eq_scope: "fps_eq (spec_fingerprint a) (spec_fingerprint b) \<Longrightarrow> sp_scope a = sp_scope b"
  by (auto simp: spec_fingerprint_def fp_opt_eq Let_def intro: memory_scope.equality)

text \<open>
  What may happen to the service and the index later: time, reads and cancellations of
  any execution, and starts of any request under a new identifier (every request is
  given one), the repetition of an earlier request included. A configured snapshot
  writer does not touch the workflows.
\<close>

definition writer_rests ::
    "'w activity_writers set \<Rightarrow> ('c \<Rightarrow> string \<Rightarrow> (pyval \<times> workflow) option) \<Rightarrow> ('c \<Rightarrow> execution_snapshot \<Rightarrow> unit res \<times> 'c) option \<Rightarrow> bool" where
  "writer_rests W flow_of snapshot_writer \<longleftrightarrow> (case snapshot_writer of
       None \<Rightarrow> True | Some upsert \<Rightarrow> (\<forall>c s r c'. upsert c s = (r, c') \<longrightarrow> service_goes W flow_of c c'))"

inductive later_service :: "'w activity_writers set \<Rightarrow> 'c temporal_client \<Rightarrow> ('c \<Rightarrow> string \<Rightarrow> (pyval \<times> workflow) option) \<Rightarrow> execution_id
    \<Rightarrow> committed_runtime_state \<times> 'c \<Rightarrow> committed_runtime_state \<times> 'c \<Rightarrow> bool" for W client flow_of i where
  now: "later_service W client flow_of i x x"
| time: "later_service W client flow_of i x (db, c) \<Longrightarrow> service_goes W flow_of c c' \<Longrightarrow> later_service W client flow_of i x (db, c')"
| reads: "later_service W client flow_of i x (db, c) \<Longrightarrow> temporal_get client c scope j = (r, c') \<Longrightarrow>
    later_service W client flow_of i x (db, c')"
| cancels: "later_service W client flow_of i x (db, c) \<Longrightarrow> temporal_cancel client c scope j key = (r, c') \<Longrightarrow>
    later_service W client flow_of i x (db, c')"
| starts: "later_service W client flow_of i x y \<Longrightarrow> writer_rests W flow_of snapshot_writer \<Longrightarrow> sp_id spec \<noteq> i \<Longrightarrow>
    temporal_start client snapshot_writer y spec = (r, z) \<Longrightarrow> later_service W client flow_of i x z"

text \<open>The fingerprint that the index keeps for an execution, if any, is of a request in its scope.\<close>

definition fingerprinted :: "committed_runtime_state \<Rightarrow> execution_id \<Rightarrow> memory_scope \<Rightarrow> bool" where
  "fingerprinted db i scope \<longleftrightarrow> (\<forall>fp. dict_get (cr_fingerprints db) i = Some fp \<longrightarrow> (\<exists>spec. fp = spec_fingerprint spec \<and> sp_scope spec = scope))"

definition stays_closed ::
    "('c \<Rightarrow> string \<Rightarrow> (pyval \<times> workflow) option) \<Rightarrow> execution_snapshot \<Rightarrow> committed_runtime_state \<times> 'c \<Rightarrow> bool" where
  "stays_closed flow_of s x \<longleftrightarrow> shows_closed flow_of (snd x) s \<and> fingerprinted (fst x) (sn_execution_id s) (sn_scope s)"

context retaining_service begin

lemma poll_goes: "poll_cancel client n c scope j = (r, c') \<Longrightarrow> service_goes W flow_of c c'"
proof (induction n arbitrary: c)
  case (Suc n)
  obtain q c1 where q: "query_snapshot client c (ms_tenant_id scope) j scope = (q, c1)" by fastforce
  from Suc.prems q have "c' = c1 \<or> poll_cancel client n c1 scope j = (r, c')"
    by (cases q) (simp_all split: if_splits)
  then show ?case
  proof
    assume "poll_cancel client n c1 scope j = (r, c')"
    from service_goes_trans [OF query_snapshot_keeps(1) [OF q] Suc.IH [OF this]] show ?thesis .
  qed (use query_snapshot_keeps(1) [OF q] in simp)
qed (simp add: service_goes_refl)

lemma cancel_goes:
  assumes "temporal_cancel client c scope j key = (r, c')"
  shows "service_goes W flow_of c c'"
proof -
  obtain q c1 where q: "query_snapshot client c (ms_tenant_id scope) j scope = (q, c1)" by fastforce
  obtain d c2 where d: "tc_signal client c1 (workflow_id (ms_tenant_id scope) j) = (d, c2)" by fastforce
  obtain q2 c3 where q2: "query_snapshot client c2 (ms_tenant_id scope) j scope = (q2, c3)" by fastforce
  have "c' = c1 \<or> poll_cancel client 200 c2 scope j = (r, c') \<or> c' = c3"
    using assms q d q2 unfolding temporal_cancel_def by (cases q; cases d; cases q2) (simp_all split: if_splits)
  with query_snapshot_keeps(1) [OF q] signal_goes [OF d] query_snapshot_keeps(1) [OF q2] poll_goes show ?thesis
    using service_goes_trans by meson
qed

text \<open>A read of the execution repeats the snapshot, and does not miss it.\<close>

lemma closed_read:
  assumes "shows_closed flow_of c s" and q: "query_snapshot client c (ms_tenant_id (sn_scope s)) (sn_execution_id s) scope = (r, c')"
  shows "shows_closed flow_of c' s" and "r = Inr t \<Longrightarrow> t = s" and "scope = sn_scope s \<Longrightarrow> r \<noteq> Inl ExecutionNotFound"
proof -
  let ?wid = "workflow_id (ms_tenant_id (sn_scope s)) (sn_execution_id s)"
  show c: "shows_closed flow_of c' s" by (rule shows_closed_goes [OF query_snapshot_keeps(1) [OF q] assms(1)])
  obtain b where b: "tc_query client c ?wid = (b, c')" using query_snapshot_query [OF q] by blast
  have answer: "payload_to_snapshot v = Inr s" if "b = QueryAnswer v" for v
    using query_answers [OF b [unfolded that]] c plain_payload by (auto simp: shows_closed_def)
  have "b \<noteq> QueryRpcError RpcNotFound" using query_missing b c by (auto simp: shows_closed_def)
  with b q answer have "r = (if sn_scope s = scope then Inr s else Inl ExecutionNotFound) \<or> r \<in> Inl ` (range BackendError \<union> {OrchestrationUnavailable})"
    by (cases b) (auto simp: query_snapshot_def temporal_snapshot_for_scope_def split: rpc_status.splits pyval.splits)
  then show "r = Inr t \<Longrightarrow> t = s" and "scope = sn_scope s \<Longrightarrow> r \<noteq> Inl ExecutionNotFound"
    by (auto split: if_splits)
qed

lemma closed_start_other:
  assumes "shows_closed flow_of c s" and "tc_start client c (workflow_id t j) p = (a, c')" and "j \<noteq> sn_execution_id s"
  shows "shows_closed flow_of c' s"
proof -
  from assms(1) obtain q flow where f: "flow_of c (workflow_id (ms_tenant_id (sn_scope s)) (sn_execution_id s)) = Some (q, flow)"
    "wf_stage flow = Returned" "current_snapshot flow = snapshot_to_payload s" "plain s" by (auto simp: shows_closed_def)
  from start_others [OF assms(2) _ f(1)] workflow_id_execution assms(3) obtain flow' where
    "flow_of c' (workflow_id (ms_tenant_id (sn_scope s)) (sn_execution_id s)) = Some (q, flow')" "flow_steps W q flow flow'" by metis
  with returned_rests [OF this(2) f(2)] f(2-4) show ?thesis by (auto simp: shows_closed_def)
qed

lemma stays_closed_or_raise:
  assumes "stays_closed flow_of s x" and "start_workflow_or_raise client rollback spec j x = (u, y)" and "j \<noteq> sn_execution_id s"
  shows "stays_closed flow_of s y"
proof -
  obtain db c where x: "x = (db, c)" by (cases x)
  obtain db' c' where y: "y = (db', c')" by (cases y)
  obtain a c1 where a: "tc_start client c (workflow_id (ms_tenant_id (sp_scope spec)) j) (spec_to_payload (if sp_id spec = j then spec else spec\<lparr>sp_id := j\<rparr>)) = (a, c1)"
    by fastforce
  have "c' = c1 \<and> (db' = db \<or> db' = snd (db_write db (rollback_callback (index_key spec) j)))"
    using assms(2) unfolding start_workflow_or_raise_def x y fst_conv snd_conv a
    by (cases a) (auto split: sum.splits prod.splits if_splits)
  moreover have "dict_get (cr_fingerprints (snd (db_write db (rollback_callback (index_key spec) j)))) (sn_execution_id s)
      = dict_get (cr_fingerprints db) (sn_execution_id s)"
    using assms(3) by (simp add: db_write_def rollback_callback_def)
  ultimately show ?thesis
    using closed_start_other [OF _ a assms(3)] assms(1) by (auto simp: stays_closed_def fingerprinted_def x y)
qed

end

context retaining_service begin

text \<open>A start under a new identifier, the repetition of the request of a closed execution included.\<close>

lemma stays_closed_start:
  assumes x: "stays_closed flow_of s x" and w: "writer_rests W flow_of snapshot_writer" and new: "sp_id spec \<noteq> sn_execution_id s"
    and st: "temporal_start client snapshot_writer x spec = (r, y)"
  shows "stays_closed flow_of s y"
proof -
  obtain db c where dc: "x = (db, c)" by (cases x)
  have goes: "stays_closed flow_of s (db', c')" if "stays_closed flow_of s (db', c0)" "service_goes W flow_of c0 c'" for db' c0 c'
    using that shows_closed_goes by (auto simp: stays_closed_def)
  obtain rr db1 where reg: "db_write db (register_callback spec) = (rr, db1)" by fastforce
  have x1: "stays_closed flow_of s (db1, c)"
    using x new reg by (auto simp: dc stays_closed_def fingerprinted_def db_write_def register_callback_def
        split: option.splits if_splits)
  obtain j is_new where res: "start_result db spec = (j, is_new)" by fastforce
  let ?q = "\<lambda>c. query_snapshot client c (ms_tenant_id (sp_scope spec)) j (sp_scope spec)"
  note t = st [unfolded temporal_start_def dc fst_conv snd_conv reg res prod.case]
  show ?thesis
  proof (cases rr)
    case (Inl e)
    with t x1 show ?thesis by simp
  next
    case (Inr ok)
    note t1 = t [unfolded Inr sum.case]
    show ?thesis
    proof (cases is_new)
      case True
      then have j: "j \<noteq> sn_execution_id s" using res new by (auto simp: start_result_def split: option.splits)
      obtain u db2 c2 where u: "start_workflow_or_raise client True spec j (db1, c) = (u, db2, c2)" by (metis prod_cases3)
      have x2: "stays_closed flow_of s (db2, c2)" by (rule stays_closed_or_raise [OF x1 u j])
      obtain q c3 where q: "?q c2 = (q, c3)" by fastforce
      have x3: "stays_closed flow_of s (db2, c3)" by (rule goes [OF x2 query_snapshot_keeps(1) [OF q]])
      note t2 = t1 [unfolded if_P [OF True] u prod.case]
      show ?thesis
      proof (cases u)
        case (Inl e)
        with t2 x2 show ?thesis by simp
      next
        case u: (Inr ok)
        note t3 = t2 [unfolded u sum.case q prod.case]
        show ?thesis
        proof (cases q)
          case (Inl e)
          with t3 x3 show ?thesis by simp
        next
          case (Inr snapshot)
          show ?thesis
          proof (cases snapshot_writer)
            case None
            with t3 x3 Inr show ?thesis by simp
          next
            case (Some upsert)
            obtain v c4 where v: "upsert c3 snapshot = (v, c4)" by fastforce
            have "y = (db2, c4)" using t3 Inr Some v by (cases v) simp_all
            moreover have "service_goes W flow_of c3 c4" using w Some v by (auto simp: writer_rests_def)
            ultimately show ?thesis using goes [OF x3] by simp
          qed
        qed
      qed
    next
      case False
      obtain q c1 where q: "?q c = (q, c1)" by fastforce
      have x2: "stays_closed flow_of s (db1, c1)" by (rule goes [OF x1 query_snapshot_keeps(1) [OF q]])
      note t2 = t1 [unfolded if_not_P [OF False] q prod.case]
      show ?thesis
      proof (cases "q = Inl ExecutionNotFound")
        case False
        then have "y = (db1, c1)" using t2 by (cases q) (auto split: exn.splits)
        with x2 show ?thesis by simp
      next
        case missing: True
        have j: "j \<noteq> sn_execution_id s"
        proof
          assume "j = sn_execution_id s"
          with res False Inr reg obtain fp where "dict_get (cr_fingerprints db) (sn_execution_id s) = Some fp" "fps_eq fp (spec_fingerprint spec)"
            by (auto simp: start_result_def db_write_def register_callback_def split: option.splits if_splits)
          with x have sc: "sp_scope spec = sn_scope s"
            by (auto simp: dc stays_closed_def fingerprinted_def dest: fps_eq_scope)
          from x have "shows_closed flow_of c s" by (simp add: dc stays_closed_def)
          from closed_read(3) [OF this q [unfolded sc \<open>j = sn_execution_id s\<close>] HOL.refl] missing show False by simp
        qed
        obtain u db2 c2 where u: "start_workflow_or_raise client False spec j (db1, c1) = (u, db2, c2)" by (metis prod_cases3)
        have x3: "stays_closed flow_of s (db2, c2)" by (rule stays_closed_or_raise [OF x2 u j])
        obtain q2 c3 where q2: "?q c2 = (q2, c3)" by fastforce
        have x4: "stays_closed flow_of s (db2, c3)" by (rule goes [OF x3 query_snapshot_keeps(1) [OF q2]])
        from t2 missing u q2 have "y = (db2, c2) \<or> y = (db2, c3)" by (auto split: sum.splits)
        with x3 x4 show ?thesis by blast
      qed
    qed
  qed
qed

lemma stays_closed_later:
  "later_service W client flow_of (sn_execution_id s) x y \<Longrightarrow> stays_closed flow_of s x \<Longrightarrow> stays_closed flow_of s y"
proof (induction rule: later_service.induct)
  case (time x db c c')
  then show ?case using shows_closed_goes by (auto simp: stays_closed_def)
next
  case (reads x db c scope j r c')
  then have "service_goes W flow_of c c'" using query_snapshot_keeps(1) by (auto simp: temporal_get_def)
  with reads show ?case using shows_closed_goes by (auto simp: stays_closed_def)
next
  case (cancels x db c scope j key r c')
  then show ?case using shows_closed_goes [OF cancel_goes] by (auto simp: stays_closed_def)
qed (auto intro: stays_closed_start)

text \<open>A read after a cancellation that was decided, whatever happened in between.\<close>

lemma settled_final:
  assumes "settled (service_inv W flow_of) client scope i r c'" and "fingerprinted db i scope"
    and "later_service W client flow_of i (db, c') (db1, c1)" and "temporal_get client c1 scope i = (Inr t, c2)"
  shows "(\<forall>s. r = Inr s \<longrightarrow> t = s) \<and> (r = Inl InvalidExecutionTransition \<longrightarrow> sn_status t = SUCCEEDED)"
proof (cases "r \<in> Inl ` query_errors")
  case False
  from settled_closed [OF assms(1) False] obtain s where s: "shows_closed flow_of c' s" "sn_execution_id s = i" "sn_scope s = scope"
    "r = Inr s \<or> r = Inl InvalidExecutionTransition \<and> sn_status s = SUCCEEDED" by blast
  then have "stays_closed flow_of s (db, c')" using assms(2) by (simp add: stays_closed_def)
  from stays_closed_later [OF assms(3) [folded s(2)] this] have "shows_closed flow_of c1 s" by (simp add: stays_closed_def)
  from closed_read(2) [OF this, of scope _ c2 t] assms(4) s(2,3) have "t = s" by (simp add: temporal_get_def)
  with s(4) show ?thesis by auto
qed auto

end

section \<open>A service with a script\<close>

text \<open>
  A service on which the laws hold: the last runs in a dictionary, a closed one giving
  way to a new one of the same identifier, and a script that says
  for every call which worker turns come before it and whether its answer is lost
  before or after it took effect. A turn is one step of the workflow it names.
\<close>

record 'w worker_turn =
  wt_workflow :: string
  wt_writers :: "'w activity_writers"
  wt_now :: datetime

record 'w scripted =
  sv_flows :: "(string, pyval \<times> workflow) dict"
  sv_world :: 'w
  sv_script :: "(call_fate \<times> 'w worker_turn list) list"

definition worker_step :: "'w activity_writers \<Rightarrow> datetime \<Rightarrow> pyval \<Rightarrow> workflow \<times> 'w \<Rightarrow> workflow \<times> 'w" where
  "worker_step writers now p c = (if \<not> good_now now then c else (case wf_stage (fst c) of
       NotStarted \<Rightarrow> (begin_run p now (fst c), snd c)
     | Scheduled a at_iso n \<Rightarrow> (case run_activity writers a (wf_snapshot (fst c)) at_iso (snd c) of
           (Inr payload, w') \<Rightarrow> (resume_run a payload now (fst c), w')
         | (Inl e, w') \<Rightarrow> (retry_activity a at_iso n (fst c), w'))
     | _ \<Rightarrow> c))"

definition take_turn :: "'w worker_turn \<Rightarrow> 'w scripted \<Rightarrow> 'w scripted" where
  "take_turn t c = (case dict_get (sv_flows c) (wt_workflow t) of
       None \<Rightarrow> c
     | Some (p, flow) \<Rightarrow> (case worker_step (wt_writers t) (wt_now t) p (flow, sv_world c) of
           (flow', w') \<Rightarrow> c\<lparr>sv_flows := dict_set (wt_workflow t) (p, flow') (sv_flows c), sv_world := w'\<rparr>))"

definition next_call :: "'w scripted \<Rightarrow> call_fate \<times> 'w scripted" where
  "next_call c = (case sv_script c of
       [] \<Rightarrow> (Answered, c)
     | (fate, turns) # rest \<Rightarrow> (fate, fold take_turn turns (c\<lparr>sv_script := rest\<rparr>)))"

definition scripted_start :: "'w scripted \<Rightarrow> string \<Rightarrow> pyval \<Rightarrow> start_answer \<times> 'w scripted" where
  "scripted_start c wid p = (case next_call c of (fate, c') \<Rightarrow>
     if fate = LostBefore then (StartRpcError RpcOther, c')
     else if (case dict_get (sv_flows c') wid of Some (_, flow) \<Rightarrow> \<not> finished flow | None \<Rightarrow> False)
     then (if fate = LostAfter then StartRpcError RpcOther else WorkflowAlreadyStarted, c')
     else (if fate = LostAfter then StartRpcError RpcOther else WorkflowStarted,
           c'\<lparr>sv_flows := dict_set wid (p, new_workflow) (sv_flows c')\<rparr>))"

definition scripted_query :: "'w scripted \<Rightarrow> string \<Rightarrow> query_answer \<times> 'w scripted" where
  "scripted_query c wid = (case next_call c of (fate, c') \<Rightarrow>
     if fate \<noteq> Answered then (QueryRpcError RpcOther, c')
     else (case dict_get (sv_flows c') wid of
         None \<Rightarrow> (QueryRpcError RpcNotFound, c')
       | Some (p, flow) \<Rightarrow> (QueryAnswer (current_snapshot flow), c')))"

definition scripted_signal :: "'w scripted \<Rightarrow> string \<Rightarrow> bool \<times> 'w scripted" where
  "scripted_signal c wid = (case next_call c of (fate, c') \<Rightarrow>
     (case dict_get (sv_flows c') wid of
         None \<Rightarrow> (False, c')
       | Some (p, flow) \<Rightarrow>
           if fate = LostBefore \<or> finished flow then (False, c')
           else (fate = Answered, c'\<lparr>sv_flows := dict_set wid (p, request_cancel flow) (sv_flows c')\<rparr>)))"

definition scripted_client :: "'w scripted temporal_client" where
  "scripted_client = \<lparr>tc_start = scripted_start, tc_query = scripted_query, tc_signal = scripted_signal\<rparr>"

definition scripted_flow :: "'w scripted \<Rightarrow> string \<Rightarrow> (pyval \<times> workflow) option" where
  "scripted_flow c wid = dict_get (sv_flows c) wid"

lemma worker_step_steps:
  fixes w :: 'w
  assumes "worker_step writers now p (flow, w) = (flow', w')"
  shows "flow_steps (UNIV :: 'w activity_writers set) p flow flow'"
proof (cases "good_now now")
  case now: True
  show ?thesis
  proof (cases "wf_stage flow")
    case NotStarted
    have "flow_steps (UNIV :: 'w activity_writers set) p flow (begin_run p now flow)"
      by (rule flow_steps.move [OF flow_steps.rest wf_step.start [OF NotStarted now, where w = w]])
    with assms now NotStarted show ?thesis by (simp add: worker_step_def)
  next
    case (Scheduled a at_iso n)
    obtain r w1 where r: "run_activity writers a (wf_snapshot flow) at_iso w = (r, w1)"
      by (cases "run_activity writers a (wf_snapshot flow) at_iso w")
    show ?thesis
    proof (cases r)
      case (Inl e)
      with assms now Scheduled r flow_steps.move [OF flow_steps.rest wf_step.retry [OF Scheduled UNIV_I r]] show ?thesis
        by (simp add: worker_step_def)
    next
      case (Inr payload)
      with assms now Scheduled r flow_steps.move [OF flow_steps.rest wf_step.complete [OF Scheduled UNIV_I now r [unfolded Inr]]]
      show ?thesis by (simp add: worker_step_def)
    qed
  qed (use assms now in \<open>simp_all add: worker_step_def flow_steps.rest\<close>)
qed (use assms in \<open>simp add: worker_step_def flow_steps.rest\<close>)

text \<open>What every call does to the workflows: it moves them and makes no new one, a start apart.\<close>

definition moves_only :: "'w scripted \<Rightarrow> 'w scripted \<Rightarrow> bool" where
  "moves_only c c' \<longleftrightarrow> service_goes (UNIV :: 'w activity_writers set) scripted_flow c c' \<and> (\<forall>wid. scripted_flow c wid = None \<longrightarrow> scripted_flow c' wid = None)"

lemma moves_only_refl [intro]: "moves_only c c"
  by (simp add: moves_only_def service_goes_refl)

lemma moves_only_trans: "moves_only a b \<Longrightarrow> moves_only b c \<Longrightarrow> moves_only a c"
  unfolding moves_only_def by (meson service_goes_trans)

lemma moves_only_set:
  fixes c :: "'w scripted"
  assumes "scripted_flow c wid = Some (p, flow)" and "flow_steps (UNIV :: 'w activity_writers set) p flow flow'"
    and "sv_flows c' = dict_set wid (p, flow') (sv_flows c)"
  shows "moves_only c c'"
  using assms by (auto simp: moves_only_def service_goes_def scripted_flow_def intro: flow_steps.rest)

lemma take_turn_moves: "moves_only c (take_turn t c)"
proof (cases "dict_get (sv_flows c) (wt_workflow t)")
  case (Some pf)
  obtain p flow where pf: "pf = (p, flow)" by (cases pf)
  obtain flow' w' where s: "worker_step (wt_writers t) (wt_now t) p (flow, sv_world c) = (flow', w')" by fastforce
  show ?thesis
    by (rule moves_only_set [OF _ worker_step_steps [OF s]]) (use Some pf s in \<open>simp_all add: take_turn_def scripted_flow_def\<close>)
qed (simp add: take_turn_def moves_only_refl)

lemma fold_turns_move: "moves_only c (fold take_turn turns c)"
  by (induction turns arbitrary: c) (auto intro: moves_only_trans [OF take_turn_moves])

lemma next_call_moves: "next_call c = (fate, c') \<Longrightarrow> moves_only c c'"
proof (cases "sv_script c")
  case (Cons ft rest)
  have "moves_only c (c\<lparr>sv_script := rest\<rparr>)"
    by (simp add: moves_only_def service_goes_def scripted_flow_def flow_steps.rest)
  then show "next_call c = (fate, c') \<Longrightarrow> moves_only c c'"
    using Cons by (cases ft) (auto simp: next_call_def intro: moves_only_trans [OF _ fold_turns_move])
qed (auto simp: next_call_def)

lemma scripted_start_cases:
  assumes "scripted_start c wid p = (a, c')"
  shows "moves_only c c' \<and> a \<noteq> WorkflowStarted
    \<or> (\<exists>c1. moves_only c c1 \<and> sv_flows c' = dict_set wid (p, new_workflow) (sv_flows c1)
        \<and> (\<forall>q g. scripted_flow c1 wid = Some (q, g) \<longrightarrow> finished g))"
proof -
  obtain fate c1 where n: "next_call c = (fate, c1)" by fastforce
  note m = next_call_moves [OF n]
  let ?running = "case dict_get (sv_flows c1) wid of Some (_, flow) \<Rightarrow> \<not> finished flow | None \<Rightarrow> False"
  show ?thesis
  proof (cases "fate = LostBefore \<or> ?running")
    case True
    then have "c' = c1" "a \<noteq> WorkflowStarted" using assms n by (auto simp: scripted_start_def split: if_splits)
    with m show ?thesis by simp
  next
    case False
    then have "sv_flows c' = dict_set wid (p, new_workflow) (sv_flows c1)"
      using assms n by (auto simp: scripted_start_def split: if_splits)
    moreover from False have "\<forall>q g. scripted_flow c1 wid = Some (q, g) \<longrightarrow> finished g"
      by (auto simp: scripted_flow_def)
    ultimately show ?thesis using m by blast
  qed
qed

lemma moves_onlyD:
  fixes c :: "'w scripted"
  assumes "moves_only c c'"
  shows "scripted_flow c wid = None \<Longrightarrow> scripted_flow c' wid = None"
    and "scripted_flow c wid = Some (p, flow) \<Longrightarrow>
      \<exists>flow'. scripted_flow c' wid = Some (p, flow') \<and> flow_steps (UNIV :: 'w activity_writers set) p flow flow'"
  using assms unfolding moves_only_def service_goes_def by blast+

text \<open>A flow that is there after a move was there before.\<close>

lemma moves_only_back:
  fixes c :: "'w scripted"
  assumes "moves_only c c'" and "scripted_flow c' wid = Some (p, flow')"
  shows "\<exists>flow. scripted_flow c wid = Some (p, flow) \<and> flow_steps (UNIV :: 'w activity_writers set) p flow flow'"
proof (cases "scripted_flow c wid")
  case None
  with moves_onlyD(1) [OF assms(1)] assms(2) show ?thesis by simp
next
  case (Some qg)
  obtain q g where "qg = (q, g)" by (cases qg)
  with moves_onlyD(2) [OF assms(1), of wid q g] Some assms(2) show ?thesis by auto
qed

lemma scripted_start_facts:
  fixes c :: "'w scripted"
  assumes "scripted_start c wid p = (a, c')"
  shows "wid' \<noteq> wid \<Longrightarrow> scripted_flow c wid' = Some (q, flow) \<Longrightarrow>
      \<exists>flow'. scripted_flow c' wid' = Some (q, flow') \<and> flow_steps (UNIV :: 'w activity_writers set) q flow flow'"
    and "wid' \<noteq> wid \<Longrightarrow> scripted_flow c wid' = None \<Longrightarrow> scripted_flow c' wid' = None"
    and "scripted_flow c' wid = Some (q, flow) \<Longrightarrow>
      (\<exists>g. scripted_flow c wid = Some (q, g) \<and> flow_steps (UNIV :: 'w activity_writers set) q g flow)
      \<or> (q = p \<and> flow_steps (UNIV :: 'w activity_writers set) p new_workflow flow
          \<and> (\<forall>q' g. scripted_flow c wid = Some (q', g) \<longrightarrow> (\<exists>g'. flow_steps (UNIV :: 'w activity_writers set) q' g g' \<and> finished g')))"
    and "scripted_flow c wid \<noteq> None \<Longrightarrow> scripted_flow c' wid \<noteq> None"
    and "a = WorkflowStarted \<Longrightarrow>
      \<exists>flow. scripted_flow c' wid = Some (p, flow) \<and> flow_steps (UNIV :: 'w activity_writers set) p new_workflow flow"
proof -
  obtain c1 where m: "moves_only c c1" and c1: "(c' = c1 \<or> moves_only c1 c') \<and> a \<noteq> WorkflowStarted
      \<or> sv_flows c' = dict_set wid (p, new_workflow) (sv_flows c1) \<and> (\<forall>q g. scripted_flow c1 wid = Some (q, g) \<longrightarrow> finished g)"
    using scripted_start_cases [OF assms] moves_only_refl by blast
  then have cs: "moves_only c c' \<and> a \<noteq> WorkflowStarted
      \<or> (\<forall>w. scripted_flow c' w = (if w = wid then Some (p, new_workflow) else scripted_flow c1 w))
        \<and> (\<forall>q g. scripted_flow c1 wid = Some (q, g) \<longrightarrow> finished g)"
    using moves_only_trans by (auto simp: scripted_flow_def)
  show "wid' \<noteq> wid \<Longrightarrow> scripted_flow c wid' = Some (q, flow) \<Longrightarrow>
      \<exists>flow'. scripted_flow c' wid' = Some (q, flow') \<and> flow_steps (UNIV :: 'w activity_writers set) q flow flow'"
    using cs moves_onlyD(2) m by auto
  show "wid' \<noteq> wid \<Longrightarrow> scripted_flow c wid' = None \<Longrightarrow> scripted_flow c' wid' = None"
    using cs moves_onlyD(1) m by auto
  show "scripted_flow c wid \<noteq> None \<Longrightarrow> scripted_flow c' wid \<noteq> None"
    using cs moves_onlyD(2) by fastforce
  show "a = WorkflowStarted \<Longrightarrow>
      \<exists>flow. scripted_flow c' wid = Some (p, flow) \<and> flow_steps (UNIV :: 'w activity_writers set) p new_workflow flow"
    using cs by (auto intro: flow_steps.rest)
  assume f: "scripted_flow c' wid = Some (q, flow)"
  show "(\<exists>g. scripted_flow c wid = Some (q, g) \<and> flow_steps (UNIV :: 'w activity_writers set) q g flow)
      \<or> (q = p \<and> flow_steps (UNIV :: 'w activity_writers set) p new_workflow flow
          \<and> (\<forall>q' g. scripted_flow c wid = Some (q', g) \<longrightarrow> (\<exists>g'. flow_steps (UNIV :: 'w activity_writers set) q' g g' \<and> finished g')))"
  proof (cases "moves_only c c' \<and> a \<noteq> WorkflowStarted")
    case True
    with moves_only_back [of c c'] f show ?thesis by blast
  next
    case False
    with cs have "scripted_flow c' wid = Some (p, new_workflow)" and fin: "\<forall>q g. scripted_flow c1 wid = Some (q, g) \<longrightarrow> finished g" by auto
    with f have "q = p" "flow = new_workflow" by auto
    moreover have "\<exists>g'. flow_steps (UNIV :: 'w activity_writers set) q' g g' \<and> finished g'" if "scripted_flow c wid = Some (q', g)" for q' g
      using moves_onlyD(2) [OF m that] fin by blast
    ultimately show ?thesis by (simp add: flow_steps.rest)
  qed
qed

lemma scripted_query_facts:
  assumes "scripted_query c wid = (b, c')"
  shows "moves_only c c'" and "b = QueryAnswer v \<Longrightarrow> \<exists>p flow. scripted_flow c' wid = Some (p, flow) \<and> v = current_snapshot flow"
    and "b = QueryRpcError RpcNotFound \<Longrightarrow> scripted_flow c' wid = None"
  using assms by (auto simp: scripted_query_def scripted_flow_def split: prod.splits if_splits option.splits dest: next_call_moves)

lemma scripted_signal_facts:
  fixes c :: "'w scripted"
  assumes "scripted_signal c wid = (d, c')"
  shows "moves_only c c'"
proof -
  obtain fate c1 where n: "next_call c = (fate, c1)" by fastforce
  note m = next_call_moves [OF n]
  show ?thesis
  proof (cases "dict_get (sv_flows c1) wid")
    case None
    with assms n m show ?thesis by (simp add: scripted_signal_def)
  next
    case (Some pf)
    obtain p flow where pf: "pf = (p, flow)" by (cases pf)
    show ?thesis
    proof (cases "fate = LostBefore \<or> finished flow")
      case True
      with assms n m Some pf show ?thesis by (auto simp: scripted_signal_def)
    next
      case False
      then have "wf_stage flow \<notin> {Returned, Broken}" by (simp add: finished_def)
      from flow_steps.move [OF flow_steps.rest wf_step.signal [OF this]]
      have st: "flow_steps (UNIV :: 'w activity_writers set) p flow (request_cancel flow)" .
      have "moves_only c1 c'"
        by (rule moves_only_set [OF _ st]) (use assms n Some pf False in \<open>auto simp: scripted_signal_def scripted_flow_def\<close>)
      with m show ?thesis by (rule moves_only_trans)
    qed
  qed
qed

interpretation scripted: retaining_service "UNIV :: 'w activity_writers set" "scripted_client :: 'w scripted temporal_client" scripted_flow
proof unfold_locales
  fix c c' :: "'w scripted" and wid p a
  assume "tc_start scripted_client c wid p = (a, c')"
  then have st: "scripted_start c wid p = (a, c')" by (simp add: scripted_client_def)
  show "\<exists>flow'. scripted_flow c' wid' = Some (q, flow') \<and> flow_steps (UNIV :: 'w activity_writers set) q flow flow'"
    if "wid' \<noteq> wid" "scripted_flow c wid' = Some (q, flow)" for wid' q flow
    by (rule scripted_start_facts(1) [OF st that])
  show "scripted_flow c' wid' = None" if "wid' \<noteq> wid" "scripted_flow c wid' = None" for wid'
    by (rule scripted_start_facts(2) [OF st that])
  show "(\<exists>g. scripted_flow c wid = Some (q, g) \<and> flow_steps (UNIV :: 'w activity_writers set) q g flow)
      \<or> (q = p \<and> flow_steps (UNIV :: 'w activity_writers set) p new_workflow flow
          \<and> (\<forall>q' g. scripted_flow c wid = Some (q', g) \<longrightarrow> (\<exists>g'. flow_steps (UNIV :: 'w activity_writers set) q' g g' \<and> finished g')))"
    if "scripted_flow c' wid = Some (q, flow)" for q flow
    by (rule scripted_start_facts(3) [OF st that])
  show "scripted_flow c' wid \<noteq> None" if "scripted_flow c wid \<noteq> None"
    by (rule scripted_start_facts(4) [OF st that])
next
  fix c c' :: "'w scripted" and wid p
  assume "tc_start scripted_client c wid p = (WorkflowStarted, c')"
  then have "scripted_start c wid p = (WorkflowStarted, c')" by (simp add: scripted_client_def)
  from scripted_start_facts(5) [OF this]
  show "\<exists>flow. scripted_flow c' wid = Some (p, flow) \<and> flow_steps (UNIV :: 'w activity_writers set) p new_workflow flow" by simp
qed (auto simp: scripted_client_def moves_only_def dest: scripted_query_facts scripted_signal_facts)

section \<open>What the orchestrator guarantees\<close>

definition registered :: "committed_runtime_state \<Rightarrow> execution_spec \<Rightarrow> committed_runtime_state" where
  "registered db spec = db\<lparr>cr_idempotency_index := dict_set (index_key spec) (sp_id spec) (cr_idempotency_index db),
     cr_fingerprints := dict_set (sp_id spec) (spec_fingerprint spec) (cr_fingerprints db)\<rparr>"

lemma dict_pop_set_new: "dict_get d k = None \<Longrightarrow> dict_pop k (dict_set k v d) = d"
  by (induction d) (auto split: if_splits)

lemma register_new:
  "dict_get (cr_idempotency_index db) (index_key spec) = None \<Longrightarrow>
     db_write db (register_callback spec) = (Inr (), registered db spec)"
  by (simp add: db_write_def register_callback_def registered_def)

lemma register_same:
  "dict_get (cr_idempotency_index db) (index_key spec) = Some i \<Longrightarrow> dict_get (cr_fingerprints db) i = Some fp \<Longrightarrow>
     fps_eq fp (spec_fingerprint spec) \<Longrightarrow> db_write db (register_callback spec) = (Inr (), db)"
  by (simp add: db_write_def register_callback_def)

lemma rollback_registered:
  assumes "dict_get (cr_idempotency_index db) (index_key spec) = None" and "dict_get (cr_fingerprints db) (sp_id spec) = None"
  shows "db_write (registered db spec) (rollback_callback (index_key spec) (sp_id spec)) = (Inr (), db)"
  using assms by (simp add: db_write_def rollback_callback_def registered_def dict_pop_set_new)

lemma query_snapshot_scoped: "query_snapshot client c tenant i scope = (r, c') \<Longrightarrow> r = Inr s \<Longrightarrow> sn_execution_id s = i \<and> sn_scope s = scope"
  by (auto simp: query_snapshot_def temporal_snapshot_for_scope_def bindE_eq_Inr
      split: prod.splits query_answer.splits rpc_status.splits pyval.splits if_splits)

lemma start_workflow_new:
  assumes "tc_start client c (workflow_id (ms_tenant_id (sp_scope spec)) (sp_id spec)) (spec_to_payload spec) = (a, c')"
    and "dict_get (cr_idempotency_index db) (index_key spec) = None" and "dict_get (cr_fingerprints db) (sp_id spec) = None"
  shows "start_workflow_or_raise client True spec (sp_id spec) (registered db spec, c) =
    (case a of StartRpcError st \<Rightarrow> (Inl OrchestrationUnavailable, db, c') | _ \<Rightarrow> (Inr (), registered db spec, c'))"
proof -
  have fp: "dict_get (cr_fingerprints (registered db spec)) (sp_id spec) = Some (spec_fingerprint spec)"
    by (simp add: registered_def)
  show ?thesis
    unfolding start_workflow_or_raise_def snd_conv fst_conv if_True assms(1) simp_thms
    by (cases a) (simp_all add: fp rollback_registered [OF assms(2,3)])
qed

lemma start_registers:
  assumes "dict_get (cr_idempotency_index db) (index_key spec) = None" and "dict_get (cr_fingerprints db) (sp_id spec) = None"
    and "tc_start client c (workflow_id (ms_tenant_id (sp_scope spec)) (sp_id spec)) (spec_to_payload spec) = (a, c1)"
    and "temporal_start client snapshot_writer (db, c) spec = (r, db', c')"
  shows "(case a of StartRpcError st \<Rightarrow> r = Inl OrchestrationUnavailable \<and> db' = db \<and> c' = c1
     | _ \<Rightarrow> db' = registered db spec \<and> (\<forall>s. r = Inr s \<longrightarrow> sn_execution_id s = sp_id spec \<and> sn_scope s = sp_scope spec))"
proof -
  have res: "start_result db spec = (sp_id spec, True)" using assms(1) by (simp add: start_result_def)
  obtain q c2 where q: "query_snapshot client c1 (ms_tenant_id (sp_scope spec)) (sp_id spec) (sp_scope spec) = (q, c2)" by fastforce
  note st = assms(4) [unfolded temporal_start_def fst_conv snd_conv register_new [OF assms(1)] prod.case sum.case res if_True
      start_workflow_new [OF assms(3,1,2)]]
  have new: "db' = registered db spec \<and> (\<forall>s. r = Inr s \<longrightarrow> sn_execution_id s = sp_id spec \<and> sn_scope s = sp_scope spec)"
    if "\<nexists>st. a = StartRpcError st"
  proof -
    have "db' = registered db spec \<and> (\<forall>s. r = Inr s \<longrightarrow> q = Inr s)"
      using st that q by (cases a) (auto split: sum.splits option.splits prod.splits)
    with query_snapshot_scoped [OF q] show ?thesis by blast
  qed
  show ?thesis
  proof (cases a)
    case (StartRpcError x)
    with st show ?thesis by simp
  qed (use new in simp_all)
qed

context temporal_service begin

text \<open>After a start that made a new run, the service only goes on.\<close>

lemma start_goes_on:
  assumes "writer_rests W flow_of snapshot_writer"
    and "dict_get (cr_idempotency_index db) (index_key spec) = None" and "dict_get (cr_fingerprints db) (sp_id spec) = None"
    and "tc_start client c (workflow_id (ms_tenant_id (sp_scope spec)) (sp_id spec)) (spec_to_payload spec) = (WorkflowStarted, c1)"
    and "temporal_start client snapshot_writer (db, c) spec = (r, db', c')"
  shows "service_goes W flow_of c1 c'"
proof -
  have res: "start_result db spec = (sp_id spec, True)" using assms(2) by (simp add: start_result_def)
  obtain q c2 where q: "query_snapshot client c1 (ms_tenant_id (sp_scope spec)) (sp_id spec) (sp_scope spec) = (q, c2)" by fastforce
  note goes = query_snapshot_keeps(1) [OF q]
  note st = assms(5) [unfolded temporal_start_def fst_conv snd_conv register_new [OF assms(2)] prod.case sum.case res if_True
      start_workflow_new [OF assms(4,2,3)] start_answer.case q]
  show ?thesis
  proof (cases "\<exists>s upsert. q = Inr s \<and> snapshot_writer = Some upsert")
    case False
    then have "c' = c2" using st by (cases q; cases snapshot_writer) auto
    with goes show ?thesis by simp
  next
    case True
    then obtain s upsert where u: "q = Inr s" "snapshot_writer = Some upsert" by blast
    obtain v c3 where v: "upsert c2 s = (v, c3)" by fastforce
    have "c' = c3" using st u v by (cases v) simp_all
    moreover have "service_goes W flow_of c2 c3" using assms(1) u v by (auto simp: writer_rests_def)
    ultimately show ?thesis by (simp add: service_goes_trans [OF goes])
  qed
qed

end

text \<open>
  What a start does to the shared index. With a free key it registers the
  execution and starts its workflow: when the service reports an error, the index is
  exactly as it was and the start fails as unavailable; otherwise the key belongs to
  the execution with the request's fingerprint, also when the read that follows
  fails, and a snapshot that is returned is of this execution in this scope.
\<close>

theorem temporal_start_registers:
  assumes "dict_get (cr_idempotency_index db) (index_key spec) = None" and "dict_get (cr_fingerprints db) (sp_id spec) = None"
    and "tc_start client c (workflow_id (ms_tenant_id (sp_scope spec)) (sp_id spec)) (spec_to_payload spec) = (a, c1)"
    and "temporal_start client snapshot_writer (db, c) spec = (r, db', c')"
  shows "(case a of StartRpcError st \<Rightarrow> r = Inl OrchestrationUnavailable \<and> db' = db \<and> c' = c1
     | _ \<Rightarrow> db' = registered db spec \<and> (\<forall>s. r = Inr s \<longrightarrow> sn_execution_id s = sp_id spec \<and> sn_scope s = sp_scope spec))"
  by (rule start_registers [OF assms])

text \<open>
  A start that repeats a request finds its first execution. The index is
  unchanged and the snapshot that is returned is of the execution the key belongs to,
  whatever identifier the repetition carries; a different request is refused without
  a call to the service.
\<close>

theorem temporal_start_repeats:
  assumes "dict_get (cr_idempotency_index db) (index_key spec) = Some i" and "dict_get (cr_fingerprints db) i = Some fp"
    and "temporal_start client snapshot_writer (db, c) spec = (r, db', c')"
  shows "db' = db \<and> (if fps_eq fp (spec_fingerprint spec) then \<forall>s. r = Inr s \<longrightarrow> sn_execution_id s = i \<and> sn_scope s = sp_scope spec
     else r = Inl ExecutionIdempotencyConflict \<and> c' = c)"
proof (cases "fps_eq fp (spec_fingerprint spec)")
  case False
  then have "db_write db (register_callback spec) = (Inl ExecutionIdempotencyConflict, db)"
    using assms(1,2) by (simp add: db_write_def register_callback_def)
  with assms(3) False show ?thesis by (simp add: temporal_start_def)
next
  case True
  let ?q = "\<lambda>c. query_snapshot client c (ms_tenant_id (sp_scope spec)) i (sp_scope spec)"
  have res: "start_result db spec = (i, False)" using assms(1) by (simp add: start_result_def)
  note st = assms(3) [unfolded temporal_start_def fst_conv snd_conv register_same [OF assms(1,2) True] prod.case sum.case res if_False]
  obtain q c1 where q: "?q c = (q, c1)" by fastforce
  obtain u db2 c2 where u: "start_workflow_or_raise client False spec i (db, c1) = (u, db2, c2)" by (metis prod_cases3)
  then have db2: "db2 = db"
    by (auto simp: start_workflow_or_raise_def split: prod.splits start_answer.splits)
  obtain q2 c3 where q2: "?q c2 = (q2, c3)" by fastforce
  have "db' = db \<and> (\<forall>s. r = Inr s \<longrightarrow> q = Inr s \<or> q2 = Inr s)"
    using st u q q2 db2 by (auto split: sum.splits exn.splits)
  moreover have "\<forall>s. q = Inr s \<or> q2 = Inr s \<longrightarrow> sn_execution_id s = i \<and> sn_scope s = sp_scope spec"
    using query_snapshot_scoped [OF q] query_snapshot_scoped [OF q2] by auto
  ultimately show ?thesis using True by auto
qed

text \<open>
  Reads of an execution only move on. Two reads of a run that both succeed, with
  reads, signals and steps in between, give snapshots of the same
  execution and scope of which the second is reached from the first by legal
  transitions; after a terminal one the snapshot stays the same.
\<close>

theorem temporal_reads_move_on:
  assumes "temporal_service W client flow_of" and "service_inv W flow_of c" and "temporal_get client c scope i = (Inr s, c1)"
    and "service_goes W flow_of c1 c2" and "service_inv W flow_of c2" and "temporal_get client c2 scope i = (Inr t, c3)"
  shows "later s t \<and> (terminal (sn_status s) \<longrightarrow> t = s)"
  using temporal_service.reads_move_on [OF assms(1,2)] assms(3-6) by (simp add: temporal_get_def)

text \<open>
  C16. What a cancellation decides. On a service that retains its closed workflows, a
  cancellation returns a cancelled snapshot of the execution, and every later read
  gives it again; or it reports an illegal transition, and every later read that
  succeeds shows a succeeded execution; or it fails with the error of a read, or as
  unavailable (after at most 200 polls). Later is after any sequence of reads and
  cancellations of any execution, of starts (the repetition of the request of this
  execution included: the service would run its closed identifier again, but the
  repetition reads it first and finds it) and of progress of the service. A start that
  registered its key before the cancellation and starts the workflow after it is not
  among them: \<open>A start that comes late\<close> below shows what it does.
\<close>

theorem temporal_cancel_decides:
  assumes "retaining_service W client flow_of" and "service_inv W flow_of c" and "temporal_cancel client c scope i key = (r, c')"
    and "fingerprinted db i scope"
  shows "(case r of
       Inr s \<Rightarrow> sn_execution_id s = i \<and> sn_scope s = scope \<and> sn_status s = CANCELLED
         \<and> (\<forall>db1 c1 t c2. later_service W client flow_of i (db, c') (db1, c1) \<and> temporal_get client c1 scope i = (Inr t, c2) \<longrightarrow> t = s)
     | Inl e \<Rightarrow> (e = InvalidExecutionTransition \<or> e \<in> query_errors)
         \<and> (e = InvalidExecutionTransition \<longrightarrow> (\<forall>db1 c1 t c2. later_service W client flow_of i (db, c') (db1, c1)
              \<and> temporal_get client c1 scope i = (Inr t, c2) \<longrightarrow> sn_status t = SUCCEEDED)))"
proof -
  note service = retaining_service.axioms(1) [OF assms(1)]
  note st = temporal_service.cancel_settled [OF service assms(3,2)]
  note final = retaining_service.settled_final [OF assms(1) st assms(4)]
  show ?thesis
  proof (cases r)
    case (Inl e)
    with st have "e = InvalidExecutionTransition \<or> e \<in> query_errors" by (auto simp: settled_def)
    with Inl final show ?thesis by auto
  next
    case (Inr s)
    then have "r \<notin> Inl ` query_errors" by auto
    from temporal_service.settled_closed [OF service st this] Inr
    have "sn_execution_id s = i \<and> sn_scope s = scope \<and> sn_status s = CANCELLED" by auto
    with Inr final show ?thesis by auto
  qed
qed

text \<open>
  C29. An ambiguous start can leave two executions for one key. When the first start
  took effect but its answer was an error, the rollback frees the key, so the retry of
  the same request under a new identifier starts a second workflow: after the retry
  the service has both, the key leads to the second, and no key to the first.
\<close>

theorem ambiguous_start_forks:
  assumes "temporal_service W client flow_of" and "writer_rests W flow_of snapshot_writer"
    and "dict_get (cr_idempotency_index db) (index_key spec) = None" and "\<forall>k. dict_get (cr_idempotency_index db) k \<noteq> Some (sp_id spec)"
    and "dict_get (cr_fingerprints db) (sp_id spec) = None" and "dict_get (cr_fingerprints db) (sp_id retried) = None"
    and "index_key retried = index_key spec" and "sp_id retried \<noteq> sp_id spec"
    and "tc_start client c (workflow_id (ms_tenant_id (sp_scope spec)) (sp_id spec)) (spec_to_payload spec) = (StartRpcError st, c1)"
    and "flow_of c1 (workflow_id (ms_tenant_id (sp_scope spec)) (sp_id spec)) \<noteq> None"
    and "tc_start client c1 (workflow_id (ms_tenant_id (sp_scope retried)) (sp_id retried)) (spec_to_payload retried) = (WorkflowStarted, c2)"
    and "temporal_start client snapshot_writer (db, c) spec = (r1, db1, c1')"
    and "temporal_start client snapshot_writer (db1, c1') retried = (r2, db2, c3)"
  shows "r1 = Inl OrchestrationUnavailable \<and> dict_get (cr_idempotency_index db2) (index_key spec) = Some (sp_id retried)
    \<and> (\<forall>k. dict_get (cr_idempotency_index db2) k \<noteq> Some (sp_id spec))
    \<and> flow_of c3 (workflow_id (ms_tenant_id (sp_scope spec)) (sp_id spec)) \<noteq> None
    \<and> flow_of c3 (workflow_id (ms_tenant_id (sp_scope retried)) (sp_id retried)) \<noteq> None"
proof -
  let ?first = "workflow_id (ms_tenant_id (sp_scope spec)) (sp_id spec)" and ?second = "workflow_id (ms_tenant_id (sp_scope retried)) (sp_id retried)"
  have r1: "r1 = Inl OrchestrationUnavailable" "db1 = db" "c1' = c1"
    using start_registers [OF assms(3,5,9,12)] by simp_all
  have key: "dict_get (cr_idempotency_index db) (index_key retried) = None" using assms(3,7) by simp
  have db2: "db2 = registered db retried"
    using start_registers [OF key assms(6,11) assms(13) [unfolded r1(2,3)]] by simp
  have goes: "service_goes W flow_of c2 c3"
    by (rule temporal_service.start_goes_on [OF assms(1,2) key assms(6,11) assms(13) [unfolded r1(2,3)]])
  have kept: "flow_of c3 wid \<noteq> None" if "flow_of c2 wid \<noteq> None" for wid
  proof -
    from that obtain p flow where "flow_of c2 wid = Some (p, flow)" by auto
    from service_goesD [OF goes this] show ?thesis by auto
  qed
  have "?second \<noteq> ?first" using assms(8) workflow_id_execution by blast
  with temporal_service.start_others [OF assms(1,11), of ?first] assms(10) have "flow_of c2 ?first \<noteq> None" by force
  moreover have "flow_of c2 ?second \<noteq> None" using temporal_service.started [OF assms(1,11)] by auto
  ultimately show ?thesis using r1(1) db2 assms(4,7,8) kept by (simp add: registered_def)
qed

section \<open>The guarantees on a scripted service\<close>

definition sample_wid :: string where
  "sample_wid = workflow_id (ms_tenant_id sample_scope) (ExecutionId (UUID 7))"

definition sample_turn :: "unit worker_turn" where
  "sample_turn = \<lparr>wt_workflow = sample_wid, wt_writers = no_writers, wt_now = sample_time\<rparr>"

definition sample_service :: "(call_fate \<times> unit worker_turn list) list \<Rightarrow> workflow \<Rightarrow> unit scripted" where
  "sample_service script flow =
     \<lparr>sv_flows = [(sample_wid, (spec_to_payload (sample_spec (ExecutionId (UUID 7))), flow))], sv_world = (), sv_script = script\<rparr>"

lemma payload_dict: "\<exists>kvs. snapshot_to_payload s = VDict kvs"
  by (simp add: snapshot_to_payload_def snapshot_to_json_def obj_def)

lemma sample_take_turn:
  "take_turn sample_turn (sample_service script (request_cancel new_workflow)) = sample_service script sample_waiting"
  "take_turn sample_turn (sample_service script sample_waiting) = sample_service script sample_cancelled"
proof -
  have "worker_step no_writers sample_time (spec_to_payload (sample_spec (ExecutionId (UUID 7)))) (request_cancel new_workflow, ()) = (sample_waiting, ())"
    by (simp add: worker_step_def good_sample_time request_cancel_def new_workflow_def sample_waiting_def)
  then show "take_turn sample_turn (sample_service script (request_cancel new_workflow)) = sample_service script sample_waiting"
    by (simp add: take_turn_def sample_turn_def sample_service_def)
  have "worker_step no_writers sample_time (spec_to_payload (sample_spec (ExecutionId (UUID 7)))) (sample_waiting, ()) = (sample_cancelled, ())"
    unfolding worker_step_def fst_conv snd_conv sample_waiting_facts(1) wf_stage.case sample_cancel_runs
    by (simp add: good_sample_time sample_cancelled_def)
  then show "take_turn sample_turn (sample_service script sample_waiting) = sample_service script sample_cancelled"
    by (simp add: take_turn_def sample_turn_def sample_service_def)
qed

lemma sample_query:
  assumes "fold take_turn turns (sample_service rest flow) = sample_service rest flow'" and "current_snapshot flow' = snapshot_to_payload s"
    and "plain s" and "sn_execution_id s = ExecutionId (UUID 7)" and "sn_scope s = sample_scope"
  shows "query_snapshot scripted_client (sample_service ((Answered, turns) # rest) flow) (ms_tenant_id sample_scope) (ExecutionId (UUID 7)) sample_scope
    = (Inr s, sample_service rest flow')"
proof -
  obtain kvs where kvs: "snapshot_to_payload s = VDict kvs" using payload_dict by blast
  have "next_call (sample_service ((Answered, turns) # rest) flow) = (Answered, sample_service rest flow')"
    using assms(1) by (simp add: next_call_def sample_service_def)
  then have "tc_query scripted_client (sample_service ((Answered, turns) # rest) flow) sample_wid = (QueryAnswer (VDict kvs), sample_service rest flow')"
    using assms(2) kvs by (simp add: scripted_client_def scripted_query_def) (simp add: sample_service_def)
  with plain_payload [OF assms(3)] kvs assms(4,5) show ?thesis
    by (simp add: query_snapshot_def sample_wid_def temporal_snapshot_for_scope_def)
qed

lemma sample_flows_shown:
  "current_snapshot sample_waiting = snapshot_to_payload sample_initial"
  "current_snapshot sample_cancelled = snapshot_to_payload (moved sample_initial CANCELLED 2 sample_time)"
  "plain (moved sample_initial CANCELLED 2 sample_time)" "sn_execution_id sample_initial = ExecutionId (UUID 7)" "sn_scope sample_initial = sample_scope"
  using plain_moved [OF sample_plain good_sample_time]
  by (simp_all add: sample_waiting_facts(2) sample_cancelled_def resume_run_def current_snapshot_def initial_snapshot_def sample_spec_def)

lemma sample_service_inv: "service_inv (UNIV :: unit activity_writers set) scripted_flow (sample_service script (request_cancel new_workflow))"
proof -
  have "wf_stage new_workflow \<notin> {Returned, Broken}" by (simp add: new_workflow_def)
  from flow_steps.move [OF flow_steps.rest wf_step.signal [OF this]]
  have "flow_steps (UNIV :: unit activity_writers set) p new_workflow (request_cancel new_workflow)" for p .
  with scope_constructed [OF sample_scope_constructed] show ?thesis
    unfolding service_inv_def sample_service_def scripted_flow_def by (auto split: if_splits)
qed

text \<open>A read, and another one after two turns of the worker.\<close>

theorem temporal_reads_move_on_witness:
  "later sample_initial (moved sample_initial CANCELLED 2 sample_time)"
proof -
  let ?c = "sample_service [(Answered, [sample_turn]), (Answered, [sample_turn])] (request_cancel new_workflow)"
  let ?c1 = "sample_service [(Answered, [sample_turn])] sample_waiting"
  have g1: "temporal_get scripted_client ?c sample_scope (ExecutionId (UUID 7)) = (Inr sample_initial, ?c1)"
    unfolding temporal_get_def by (rule sample_query) (simp_all add: sample_take_turn sample_flows_shown sample_plain)
  have g2: "temporal_get scripted_client ?c1 sample_scope (ExecutionId (UUID 7))
      = (Inr (moved sample_initial CANCELLED 2 sample_time), sample_service [] sample_cancelled)"
    unfolding temporal_get_def by (rule sample_query) (simp_all add: sample_take_turn sample_flows_shown)
  note i1 = scripted.query_snapshot_keeps(2) [OF g1 [unfolded temporal_get_def] sample_service_inv]
  from temporal_reads_move_on [OF scripted.temporal_service_axioms sample_service_inv g1 service_goes_refl i1 g2]
  show ?thesis by blast
qed

text \<open>
  A cancellation (a first read, the signal, and a poll after the activity ran), then a
  repetition of the request and another read.
\<close>

lemma sample_repeat_key:
  "index_key (sample_spec (ExecutionId (UUID 9))) = index_key (sample_spec (ExecutionId (UUID 7)))"
  "sp_scope (sample_spec i) = sample_scope" "sp_id (sample_spec i) = i"
  "(sample_spec (ExecutionId (UUID 9)))\<lparr>sp_id := i\<rparr> = sample_spec i"
  "spec_fingerprint (sample_spec (ExecutionId (UUID 9))) = spec_fingerprint (sample_spec (ExecutionId (UUID 7)))"
  by (simp_all add: index_key_def sample_spec_def spec_fingerprint_def)

abbreviation sample_registered :: committed_runtime_state where
  "sample_registered \<equiv> registered empty_runtime_state (sample_spec (ExecutionId (UUID 7)))"

lemma sample_registered_facts:
  "dict_get (cr_idempotency_index sample_registered) (index_key (sample_spec (ExecutionId (UUID 9)))) = Some (ExecutionId (UUID 7))"
  "dict_get (cr_fingerprints sample_registered) (ExecutionId (UUID 7)) = Some (spec_fingerprint (sample_spec (ExecutionId (UUID 7))))"
  "fingerprinted sample_registered (ExecutionId (UUID 7)) sample_scope"
  by (auto simp: registered_def sample_repeat_key fingerprinted_def intro!: exI [of _ "sample_spec (ExecutionId (UUID 7))"])

text \<open>A repetition that finds the execution by a read.\<close>

lemma sample_repeat:
  assumes "query_snapshot scripted_client c (ms_tenant_id sample_scope) (ExecutionId (UUID 7)) sample_scope = (Inr s, c')"
  shows "temporal_start scripted_client None (sample_registered, c) (sample_spec (ExecutionId (UUID 9))) = (Inr s, sample_registered, c')"
proof -
  have res: "start_result sample_registered (sample_spec (ExecutionId (UUID 9))) = (ExecutionId (UUID 7), False)"
    by (simp add: start_result_def sample_registered_facts)
  have eq: "fps_eq (spec_fingerprint (sample_spec (ExecutionId (UUID 7)))) (spec_fingerprint (sample_spec (ExecutionId (UUID 9))))"
    by (simp add: sample_repeat_key)
  show ?thesis
    unfolding temporal_start_def fst_conv snd_conv register_same [OF sample_registered_facts(1,2) eq] prod.case sum.case res
    by (simp add: sample_repeat_key assms)
qed

theorem temporal_cancel_decides_witness:
  "\<exists>c c1 c2. temporal_cancel scripted_client
        (sample_service [(Answered, [sample_turn]), (Answered, []), (Answered, [sample_turn]), (Answered, []), (Answered, [])] (request_cancel new_workflow))
        sample_scope (ExecutionId (UUID 7)) ''stop'' = (Inr (moved sample_initial CANCELLED 2 sample_time), c)
    \<and> temporal_start scripted_client None (sample_registered, c) (sample_spec (ExecutionId (UUID 9)))
        = (Inr (moved sample_initial CANCELLED 2 sample_time), sample_registered, c1)
    \<and> temporal_get scripted_client c1 sample_scope (ExecutionId (UUID 7)) = (Inr (moved sample_initial CANCELLED 2 sample_time), c2)"
proof -
  let ?s = "moved sample_initial CANCELLED 2 sample_time" and ?i = "ExecutionId (UUID 7)"
  let ?c = "sample_service [(Answered, [sample_turn]), (Answered, []), (Answered, [sample_turn]), (Answered, []), (Answered, [])] (request_cancel new_workflow)"
  let ?c1 = "sample_service [(Answered, []), (Answered, [sample_turn]), (Answered, []), (Answered, [])] sample_waiting"
  let ?c2 = "sample_service [(Answered, [sample_turn]), (Answered, []), (Answered, [])] sample_waiting"
  let ?c3 = "sample_service [(Answered, []), (Answered, [])] sample_cancelled"
  let ?c4 = "sample_service [(Answered, [])] sample_cancelled" and ?c5 = "sample_service [] sample_cancelled"
  have q1: "query_snapshot scripted_client ?c (ms_tenant_id sample_scope) ?i sample_scope = (Inr sample_initial, ?c1)"
    by (rule sample_query) (simp_all add: sample_take_turn sample_flows_shown sample_plain)
  have "request_cancel sample_waiting = sample_waiting"
    by (simp add: sample_waiting_def request_cancel_def begin_run_def initial_payload schedule_unless_cancelled_def schedule_def)
  then have sg: "tc_signal scripted_client ?c1 sample_wid = (True, ?c2)"
    by (simp add: scripted_client_def scripted_signal_def next_call_def finished_def sample_waiting_facts sample_service_def)
  have q2: "query_snapshot scripted_client ?c2 (ms_tenant_id sample_scope) ?i sample_scope = (Inr ?s, ?c3)"
    by (rule sample_query) (simp_all add: sample_take_turn sample_flows_shown)
  have q3: "query_snapshot scripted_client ?c3 (ms_tenant_id sample_scope) ?i sample_scope = (Inr ?s, ?c4)"
    by (rule sample_query) (simp_all add: sample_flows_shown)
  have poll: "poll_cancel scripted_client (Suc n) ?c2 sample_scope ?i = (Inr ?s, ?c3)" for n
    by (simp add: q2)
  have st: "sn_status sample_initial = PENDING" by (simp add: initial_snapshot_def)
  have r: "temporal_cancel scripted_client ?c sample_scope ?i ''stop'' = (Inr ?s, ?c3)"
    using poll [of 199] by (simp add: temporal_cancel_def q1 st sg [unfolded sample_wid_def] del: poll_cancel.simps)
  note again = sample_repeat [OF q3]
  have "later_service (UNIV :: unit activity_writers set) scripted_client scripted_flow ?i (sample_registered, ?c3) (sample_registered, ?c4)"
    by (rule later_service.starts [OF later_service.now _ _ again]) (simp_all add: writer_rests_def sample_repeat_key)
  moreover obtain r5 c5 where g: "temporal_get scripted_client ?c4 sample_scope ?i = (r5, c5)" by fastforce
  moreover have "\<exists>t. r5 = Inr t"
  proof -
    have "query_snapshot scripted_client ?c4 (ms_tenant_id sample_scope) ?i sample_scope = (Inr ?s, ?c5)"
      by (rule sample_query) (simp_all add: sample_flows_shown)
    with g have "r5 = Inr ?s" by (simp add: temporal_get_def)
    then show ?thesis by blast
  qed
  ultimately have "temporal_get scripted_client ?c4 sample_scope ?i = (Inr ?s, c5)"
    using temporal_cancel_decides [OF scripted.retaining_service_axioms sample_service_inv r sample_registered_facts(3)]
    by (simp only: sum.case) blast
  with r again show ?thesis by blast
qed

text \<open>Two starts of one request on an empty service: the answer of the first is lost after it took effect.\<close>

definition empty_service :: "(call_fate \<times> unit worker_turn list) list \<Rightarrow> unit scripted" where
  "empty_service script = \<lparr>sv_flows = [], sv_world = (), sv_script = script\<rparr>"

lemma empty_service_start:
  "tc_start scripted_client (empty_service ((LostAfter, []) # rest)) sample_wid p
    = (StartRpcError RpcOther, (empty_service rest)\<lparr>sv_flows := [(sample_wid, (p, new_workflow))]\<rparr>)"
  "tc_start scripted_client (empty_service []) sample_wid p
    = (WorkflowStarted, (empty_service [])\<lparr>sv_flows := [(sample_wid, (p, new_workflow))]\<rparr>)"
  by (simp_all add: scripted_client_def scripted_start_def next_call_def empty_service_def)

lemma sample_start_id: "workflow_id (ms_tenant_id (sp_scope (sample_spec (ExecutionId (UUID 7))))) (sp_id (sample_spec (ExecutionId (UUID 7)))) = sample_wid"
  by (simp add: sample_wid_def sample_spec_def)

theorem temporal_start_registers_witness:
  "\<exists>c. temporal_start scripted_client None (empty_runtime_state, empty_service [(LostAfter, [])]) (sample_spec (ExecutionId (UUID 7)))
    = (Inl OrchestrationUnavailable, empty_runtime_state, c)"
proof -
  let ?s = "sample_spec (ExecutionId (UUID 7))"
  obtain r db c where t: "temporal_start scripted_client None (empty_runtime_state, empty_service [(LostAfter, [])]) ?s = (r, db, c)"
    by (metis prod_cases3)
  have f: "dict_get (cr_idempotency_index empty_runtime_state) (index_key ?s) = None"
    "dict_get (cr_fingerprints empty_runtime_state) (sp_id ?s) = None" by (simp_all add: empty_runtime_state_def)
  from temporal_start_registers [OF f empty_service_start(1) [where rest = "[]", folded sample_start_id] t] t show ?thesis by simp
qed

theorem temporal_start_repeats_witness:
  "fst (snd (temporal_start scripted_client None (registered empty_runtime_state (sample_spec (ExecutionId (UUID 7))), empty_service [])
      (sample_spec (ExecutionId (UUID 9))))) = registered empty_runtime_state (sample_spec (ExecutionId (UUID 7)))"
proof -
  let ?s = "sample_spec (ExecutionId (UUID 7))" and ?db = "registered empty_runtime_state (sample_spec (ExecutionId (UUID 7)))"
  obtain r db c where t: "temporal_start scripted_client None (?db, empty_service []) (sample_spec (ExecutionId (UUID 9))) = (r, db, c)"
    by (metis prod_cases3)
  have "index_key (sample_spec (ExecutionId (UUID 9))) = index_key ?s" by (simp add: index_key_def sample_spec_def)
  then have f: "dict_get (cr_idempotency_index ?db) (index_key (sample_spec (ExecutionId (UUID 9)))) = Some (sp_id ?s)"
    "dict_get (cr_fingerprints ?db) (sp_id ?s) = Some (spec_fingerprint ?s)" by (simp_all add: registered_def)
  from temporal_start_repeats [OF f t] t show ?thesis by simp
qed

theorem ambiguous_start_forks_witness:
  "\<exists>c1 r2 db c2. temporal_start scripted_client None (empty_runtime_state, empty_service [(LostAfter, [])]) (sample_spec (ExecutionId (UUID 7)))
      = (Inl OrchestrationUnavailable, empty_runtime_state, c1)
    \<and> temporal_start scripted_client None (empty_runtime_state, c1) (sample_spec (ExecutionId (UUID 9))) = (r2, db, c2)
    \<and> dict_get (cr_idempotency_index db) (index_key (sample_spec (ExecutionId (UUID 7)))) = Some (ExecutionId (UUID 9))
    \<and> (\<forall>k. dict_get (cr_idempotency_index db) k \<noteq> Some (ExecutionId (UUID 7)))
    \<and> scripted_flow c2 (workflow_id (ms_tenant_id sample_scope) (ExecutionId (UUID 7))) \<noteq> None
    \<and> scripted_flow c2 (workflow_id (ms_tenant_id sample_scope) (ExecutionId (UUID 9))) \<noteq> None"
proof -
  let ?s = "sample_spec (ExecutionId (UUID 7))" and ?t = "sample_spec (ExecutionId (UUID 9))"
  let ?wid = "workflow_id (ms_tenant_id (sp_scope ?t)) (sp_id ?t)"
  let ?c1 = "(empty_service [])\<lparr>sv_flows := [(sample_wid, (spec_to_payload ?s, new_workflow))]\<rparr>"
  obtain r1 db1 c1 where t1: "temporal_start scripted_client None (empty_runtime_state, empty_service [(LostAfter, [])]) ?s = (r1, db1, c1)"
    by (metis prod_cases3)
  obtain r2 db2 c2 where t2: "temporal_start scripted_client None (db1, c1) ?t = (r2, db2, c2)" by (metis prod_cases3)
  have "?wid \<noteq> sample_wid"
    using uuid_text_inj [of "UUID 9" "UUID 7"] by (auto simp: sample_wid_def workflow_id_def sample_spec_def)
  then have s2: "tc_start scripted_client ?c1 ?wid (spec_to_payload ?t)
      = (WorkflowStarted, ?c1\<lparr>sv_flows := dict_set ?wid (spec_to_payload ?t, new_workflow) (sv_flows ?c1)\<rparr>)"
    by (simp add: scripted_client_def scripted_start_def next_call_def empty_service_def)
  have rests: "writer_rests (UNIV :: unit activity_writers set) scripted_flow None" by (simp add: writer_rests_def)
  have f: "dict_get (cr_idempotency_index empty_runtime_state) (index_key ?s) = None"
    "\<forall>k. dict_get (cr_idempotency_index empty_runtime_state) k \<noteq> Some (sp_id ?s)"
    "dict_get (cr_fingerprints empty_runtime_state) (sp_id ?s) = None" "dict_get (cr_fingerprints empty_runtime_state) (sp_id ?t) = None"
    "index_key ?t = index_key ?s" "sp_id ?t \<noteq> sp_id ?s"
    by (simp_all add: empty_runtime_state_def sample_repeat_key)
  have started1: "scripted_flow ?c1 (workflow_id (ms_tenant_id (sp_scope ?s)) (sp_id ?s)) \<noteq> None"
    unfolding sample_start_id by (simp add: scripted_flow_def)
  have s1: "tc_start scripted_client (empty_service [(LostAfter, [])]) (workflow_id (ms_tenant_id (sp_scope ?s)) (sp_id ?s)) (spec_to_payload ?s)
      = (StartRpcError RpcOther, ?c1)"
    unfolding sample_start_id by (rule empty_service_start(1))
  have "db1 = empty_runtime_state" using start_registers [OF f(1,3) s1 t1] by simp
  with ambiguous_start_forks [OF scripted.temporal_service_axioms rests f s1 started1 s2 t1 t2] t1 t2
  show ?thesis by (auto simp: sample_repeat_key)
qed

section \<open>A start that comes late\<close>

text \<open>
  The runs of one execution that is started, read, cancelled while it waits for its
  first activity, and cancelled by its second one.
\<close>

definition late_planning :: execution_snapshot where
  "late_planning = moved sample_initial PLANNING 1 sample_time"

definition late_cancelled :: execution_snapshot where
  "late_cancelled = moved late_planning CANCELLED 2 sample_time"

definition late_flow :: workflow where
  "late_flow = resume_run AdvancePlanning (snapshot_to_payload late_planning) sample_time (request_cancel sample_flow)"

definition late_closed :: workflow where
  "late_closed = resume_run ApplyCancel (snapshot_to_payload late_cancelled) sample_time late_flow"

lemma late_facts:
  "wf_stage new_workflow = NotStarted"
  "wf_stage (request_cancel sample_flow) = Scheduled AdvancePlanning (isoformat sample_time) 0"
  "wf_snapshot (request_cancel sample_flow) = snapshot_to_payload sample_initial"
  "wf_stage late_flow = Scheduled ApplyCancel (isoformat sample_time) 0" "wf_snapshot late_flow = snapshot_to_payload late_planning"
  "wf_stage late_closed = Returned" "current_snapshot late_closed = snapshot_to_payload late_cancelled"
  "current_snapshot sample_flow = snapshot_to_payload sample_initial"
  by (simp_all add: new_workflow_def late_closed_def late_flow_def sample_flow_def request_cancel_def begin_run_def initial_payload
      schedule_unless_cancelled_def schedule_def resume_run_def current_snapshot_def)

lemma late_plain:
  "plain late_planning" "plain late_cancelled" "sn_execution_id late_cancelled = ExecutionId (UUID 7)" "sn_scope late_cancelled = sample_scope"
  "sn_status late_cancelled = CANCELLED" "sn_status late_planning = PLANNING"
  using plain_moved [OF sample_plain good_sample_time] plain_moved [OF plain_moved [OF sample_plain good_sample_time] good_sample_time]
  by (simp_all add: late_planning_def late_cancelled_def sample_flows_shown)

lemma no_writers_record: "record_change no_writers () p s = (Inr (), ())"
  by (simp add: record_change_def activity_publish_def activity_upsert_def no_writers_def)

lemma late_runs:
  "run_activity no_writers AdvancePlanning (snapshot_to_payload sample_initial) (isoformat sample_time) () = (Inr (snapshot_to_payload late_planning), ())"
  "run_activity no_writers ApplyCancel (snapshot_to_payload late_planning) (isoformat sample_time) () = (Inr (snapshot_to_payload late_cancelled), ())"
proof -
  have can: "can_transition_execution (sn_status sample_initial) PLANNING" by (simp add: initial_snapshot_def can_transition_execution_def)
  show "run_activity no_writers AdvancePlanning (snapshot_to_payload sample_initial) (isoformat sample_time) () = (Inr (snapshot_to_payload late_planning), ())"
    unfolding run_activity_def advance_to_planning_def activity.case advance_plain [OF sample_plain can good_sample_time]
    by (simp add: no_writers_record then_return_def late_planning_def)
  have st: "sn_status late_planning \<in> {PENDING, PLANNING, RUNNING}" by (simp add: late_plain)
  show "run_activity no_writers ApplyCancel (snapshot_to_payload late_planning) (isoformat sample_time) () = (Inr (snapshot_to_payload late_cancelled), ())"
    unfolding run_activity_def apply_execution_cancel_def activity.case cancel_plain [OF late_plain(1) st good_sample_time]
    by (simp add: no_writers_record then_return_def late_cancelled_def)
qed

lemma late_turns:
  "take_turn sample_turn (sample_service script new_workflow) = sample_service script sample_flow"
  "take_turn sample_turn (sample_service script (request_cancel sample_flow)) = sample_service script late_flow"
  "take_turn sample_turn (sample_service script late_flow) = sample_service script late_closed"
proof -
  have turn: "take_turn sample_turn (sample_service script flow) = sample_service script flow'"
    if "worker_step no_writers sample_time (spec_to_payload (sample_spec (ExecutionId (UUID 7)))) (flow, ()) = (flow', ())" for flow flow'
    using that by (simp add: take_turn_def sample_turn_def sample_service_def)
  show "take_turn sample_turn (sample_service script new_workflow) = sample_service script sample_flow"
    by (rule turn) (simp add: worker_step_def late_facts good_sample_time sample_flow_def)
  show "take_turn sample_turn (sample_service script (request_cancel sample_flow)) = sample_service script late_flow"
    by (rule turn) (simp add: worker_step_def late_facts late_runs good_sample_time late_flow_def)
  show "take_turn sample_turn (sample_service script late_flow) = sample_service script late_closed"
    by (rule turn) (simp add: worker_step_def late_facts late_runs good_sample_time late_closed_def)
qed

lemma late_starts:
  "tc_start scripted_client (empty_service ((Answered, []) # rest)) sample_wid (spec_to_payload (sample_spec (ExecutionId (UUID 7))))
    = (WorkflowStarted, sample_service rest new_workflow)"
  "finished flow \<Longrightarrow> tc_start scripted_client (sample_service ((Answered, []) # rest) flow) sample_wid (spec_to_payload (sample_spec (ExecutionId (UUID 7))))
    = (WorkflowStarted, sample_service rest new_workflow)"
  by (simp_all add: scripted_client_def scripted_start_def next_call_def empty_service_def sample_service_def)

lemma late_signal:
  "tc_signal scripted_client (sample_service ((Answered, []) # rest) sample_flow) sample_wid
    = (True, sample_service rest (request_cancel sample_flow))"
  by (simp add: scripted_client_def scripted_signal_def next_call_def finished_def sample_flow_stage sample_service_def)

text \<open>The repetition does not find the workflow, starts it and reads it.\<close>

lemma late_repetition:
  "temporal_start scripted_client None
      (sample_registered, empty_service ((Answered, []) # (Answered, []) # (Answered, [sample_turn]) # rest)) (sample_spec (ExecutionId (UUID 9)))
    = (Inr sample_initial, sample_registered, sample_service rest sample_flow)"
proof -
  let ?i = "ExecutionId (UUID 7)"
  have res: "start_result sample_registered (sample_spec (ExecutionId (UUID 9))) = (?i, False)"
    by (simp add: start_result_def sample_registered_facts)
  have eq: "fps_eq (spec_fingerprint (sample_spec ?i)) (spec_fingerprint (sample_spec (ExecutionId (UUID 9))))"
    by (simp add: sample_repeat_key)
  have missing: "query_snapshot scripted_client (empty_service ((Answered, []) # r)) (ms_tenant_id sample_scope) ?i sample_scope
      = (Inl ExecutionNotFound, empty_service r)" for r
    by (simp add: query_snapshot_def scripted_client_def scripted_query_def next_call_def empty_service_def)
  have start: "start_workflow_or_raise scripted_client False (sample_spec (ExecutionId (UUID 9))) ?i
      (sample_registered, empty_service ((Answered, []) # (Answered, [sample_turn]) # rest))
      = (Inr (), sample_registered, sample_service ((Answered, [sample_turn]) # rest) new_workflow)"
    using late_starts(1) [of "(Answered, [sample_turn]) # rest"]
    by (simp add: start_workflow_or_raise_def sample_repeat_key sample_wid_def)
  have first: "query_snapshot scripted_client (sample_service ((Answered, [sample_turn]) # rest) new_workflow) (ms_tenant_id sample_scope) ?i sample_scope
      = (Inr sample_initial, sample_service rest sample_flow)"
    by (rule sample_query) (simp_all add: late_turns late_facts sample_plain sample_flows_shown)
  show ?thesis
    unfolding temporal_start_def fst_conv snd_conv register_same [OF sample_registered_facts(1,2) eq] prod.case sum.case res
    by (simp add: sample_repeat_key(2) missing start first)
qed

lemma late_cancel:
  "temporal_cancel scripted_client (sample_service ((Answered, []) # (Answered, []) # (Answered, [sample_turn, sample_turn]) # rest) sample_flow)
      sample_scope (ExecutionId (UUID 7)) key = (Inr late_cancelled, sample_service rest late_closed)"
proof -
  let ?i = "ExecutionId (UUID 7)"
  have q1: "query_snapshot scripted_client (sample_service ((Answered, []) # (Answered, []) # (Answered, [sample_turn, sample_turn]) # rest) sample_flow)
      (ms_tenant_id sample_scope) ?i sample_scope
    = (Inr sample_initial, sample_service ((Answered, []) # (Answered, [sample_turn, sample_turn]) # rest) sample_flow)"
    by (rule sample_query) (simp_all add: late_facts sample_plain sample_flows_shown)
  have q2: "query_snapshot scripted_client (sample_service ((Answered, [sample_turn, sample_turn]) # rest) (request_cancel sample_flow))
      (ms_tenant_id sample_scope) ?i sample_scope = (Inr late_cancelled, sample_service rest late_closed)"
    by (rule sample_query) (simp_all add: late_turns late_facts late_plain)
  have poll: "poll_cancel scripted_client (Suc n) (sample_service ((Answered, [sample_turn, sample_turn]) # rest) (request_cancel sample_flow)) sample_scope ?i
      = (Inr late_cancelled, sample_service rest late_closed)" for n
    by (simp add: q2 late_plain)
  have "sn_status sample_initial = PENDING" by (simp add: initial_snapshot_def)
  with poll [of 199] show ?thesis
    by (simp add: temporal_cancel_def q1 late_signal [unfolded sample_wid_def] del: poll_cancel.simps)
qed


end
