(* ===== verification/Temporal_Records.thy ===== *)
theory Temporal_Records
  imports Temporal_Workflow Runtime_Postgres
begin

text \<open>
  What the workers of the running program record: the activities over the two PostgreSQL
  writers (\<open>adapters/postgres/outbox_writer.py\<close> and \<open>snapshot_writer.py\<close>), as
  \<open>bootstrap/worker.py\<close> configures them, on the tables of the runtime. Either writer may
  be absent, as the activities allow.
\<close>

section \<open>The writers on the tables\<close>

definition pg_publish ::
    "event_id \<Rightarrow> pg_runtime \<Rightarrow> execution_status option \<Rightarrow> execution_snapshot \<Rightarrow> correlation_id \<Rightarrow> unit res \<times> pg_runtime" where
  "pg_publish i t previous_status s c = (case pg_publish_status_changed i (pr_outbox t) previous_status s c of
       Inl e \<Rightarrow> (Inl e, t)
     | Inr rows \<Rightarrow> (Inr (), t\<lparr>pr_outbox := rows\<rparr>))"

definition pg_upsert :: "pg_runtime \<Rightarrow> execution_snapshot \<Rightarrow> unit res \<times> pg_runtime" where
  "pg_upsert t s = (Inr (), t\<lparr>pr_snapshots := pg_upsert_snapshot (pr_snapshots t) s\<rparr>)"

text \<open>The row of the event of a change, as an insertion leaves it: not yet published by the relay.\<close>

definition status_row :: "event_id \<Rightarrow> execution_status \<Rightarrow> execution_snapshot \<Rightarrow> row" where
  "status_row i p s = stored_row (event_to_row
     (status_changed_event i (CorrelationId (execution_uuid (sn_execution_id s))) None (Some p) s) @ [(''published_at'', DNull)])"

definition pg_sent :: "pg_runtime \<Rightarrow> execution_status \<Rightarrow> execution_snapshot \<Rightarrow> bool" where
  "pg_sent t p s \<longleftrightarrow> (\<exists>i. status_row i p s \<in> set (pr_outbox t))"

definition pg_current :: "pg_runtime \<Rightarrow> execution_id \<Rightarrow> execution_snapshot option" where
  "pg_current t i = stored_execution (pr_snapshots t) i"

lemma pg_publish_Inr:
  assumes "pg_publish i t (Some p) s c = (r, t')"
  shows "set (pr_outbox t) \<subseteq> set (pr_outbox t') \<and> pr_snapshots t' = pr_snapshots t
    \<and> (r = Inr () \<longrightarrow> c = CorrelationId (execution_uuid (sn_execution_id s)) \<longrightarrow> status_row i p s \<in> set (pr_outbox t'))"
proof (cases "pg_publish_status_changed i (pr_outbox t) (Some p) s c")
  case (Inl e)
  with assms show ?thesis by (auto simp: pg_publish_def)
next
  case (Inr rows)
  then obtain e where e: "build_execution_status_changed_event i c None (Some p) s = Inr e"
    "sql_insert [[''event_id'']] (json_params (event_to_row e) @ [(''published_at'', DNull)]) (pr_outbox t) = Inr rows"
    by (auto simp: pg_publish_status_changed_def bindE_eq_Inr)
  from e(1) have "e = status_changed_event i c None (Some p) s" by (simp add: build_event_Inr)
  with e(2) have "rows = pr_outbox t @ [stored_row (event_to_row (status_changed_event i c None (Some p) s) @ [(''published_at'', DNull)])]"
    by (simp add: sql_insert_def split: if_splits)
  with assms Inr show ?thesis by (auto simp: pg_publish_def status_row_def)
qed

interpretation postgres_recording: activity_recording pg_publish pg_upsert "\<lambda>t. snapshot_table owner (pr_snapshots t)"
    "\<lambda>i scope. ms_tenant_id scope = owner i" pg_sent pg_current for owner
proof
  show "snapshot_table owner (pr_snapshots t') \<and> grown pg_sent pg_current t t'"
    if "snapshot_table owner (pr_snapshots t)" "pg_publish i t (Some p) s c = (r, t')" for t i p s c r t'
    using that(1) pg_publish_Inr [OF that(2)] by (auto simp: grown_def pg_sent_def pg_current_def)
  show "pg_sent t' p s" if "pg_publish i t (Some p) s (CorrelationId (execution_uuid (sn_execution_id s))) = (Inr (), t')" for i t p s t'
    using pg_publish_Inr [OF that] by (auto simp: pg_sent_def)
  have fits: "deliverable owner s" if "plain s" "ms_tenant_id (sn_scope s) = owner (sn_execution_id s)" for s
    using that by (simp add: plain_def deliverable_def)
  show "snapshot_table owner (pr_snapshots t') \<and> grown pg_sent pg_current t t'"
    if "snapshot_table owner (pr_snapshots t)" "plain s" "ms_tenant_id (sn_scope s) = owner (sn_execution_id s)" "pg_upsert t s = (r, t')" for t s r t'
  proof -
    have t': "t' = t\<lparr>pr_snapshots := pg_upsert_snapshot (pr_snapshots t) s\<rparr>" using that(4) by (simp add: pg_upsert_def)
    show ?thesis
      using postgres_writer.upsert_valid [OF that(1) fits [OF that(2,3)]] postgres_writer.upsert_monotone [OF that(1) fits [OF that(2,3)]]
      by (simp add: t' grown_def pg_sent_def pg_current_def)
  qed
  show "stored_from pg_current t' s"
    if "snapshot_table owner (pr_snapshots t)" "plain s" "ms_tenant_id (sn_scope s) = owner (sn_execution_id s)" "pg_upsert t s = (Inr (), t')" for t s t'
    using postgres_writer.upsert_current [OF that(1) fits [OF that(2,3)], of "sn_execution_id s"] that(4)
    by (auto simp: pg_upsert_def stored_from_def pg_current_def not_less)
qed

section \<open>Property\<close>

text \<open>
  C21. A change is recorded before it is shown. Over the PostgreSQL writers, each
  configured or not, and whatever calls of theirs fail before or after taking effect
  and whatever attempts are repeated: a started workflow shows its first snapshot
  (pending, revision 1, for which it publishes no event and stores nothing), or one of
  which the outbox table holds, if its writer is configured, the status event of a
  legal transition to it, and the snapshot table, if its writer is configured, a
  snapshot of its execution at least as new. (Repeated attempts may publish an event
  more than once, under new identifiers.)
\<close>

theorem changes_recorded_before_shown:
  assumes "mk_memory_scope (sp_scope spec) = Inr (sp_scope spec)"
    and "wf_steps (attempts outbox snapshots pg_publish pg_upsert) (spec_to_payload spec) (new_workflow, t) (flow, t')"
    and "snapshot_table owner (pr_snapshots t)" and "owner (sp_id spec) = ms_tenant_id (sp_scope spec)"
    and "payload_to_snapshot (current_snapshot flow) = Inr s" and "wf_stage flow \<noteq> NotStarted"
  shows "(sn_status s, sn_revision s) = (PENDING, 1)
    \<or> ((outbox \<longrightarrow> (\<exists>i p. can_transition_execution p (sn_status s) \<and> status_row i p s \<in> set (pr_outbox t')))
      \<and> (snapshots \<longrightarrow> (\<exists>u. stored_execution (pr_snapshots t') (sn_execution_id s) = Some u \<and> sn_revision s \<le> sn_revision u)))"
proof -
  have "ms_tenant_id (sp_scope spec) = owner (sp_id spec)" using assms(4) by simp
  from postgres_recording.shown_recorded [OF scope_constructed [OF assms(1)] this assms(3,2,5,6)]
  show ?thesis by (auto simp: recorded_def pg_sent_def stored_from_def pg_current_def)
qed

definition sample_attempt :: "pg_runtime activity_writers" where
  "sample_attempt = attempt_writers True True pg_publish pg_upsert (\<lambda>_. EventId (UUID 5)) (\<lambda>_. Answered) (\<lambda>_. Answered)"

abbreviation sample_planned :: execution_snapshot where
  "sample_planned \<equiv> moved sample_initial PLANNING 1 sample_time"

text \<open>The first activity of the sample workflow over both writers, on empty tables.\<close>

lemma sample_records:
  "record_change sample_attempt no_rows PENDING sample_planned = (Inr (), no_rows
    \<lparr>pr_outbox := [status_row (EventId (UUID 5)) PENDING sample_planned], pr_snapshots := [delivered_row sample_planned]\<rparr>)"
proof -
  let ?c = "CorrelationId (execution_uuid (sn_execution_id sample_planned))"
  have "build_execution_status_changed_event (EventId (UUID 5)) ?c None (Some PENDING) sample_planned
      = Inr (status_changed_event (EventId (UUID 5)) ?c None (Some PENDING) sample_planned)"
    by (simp add: build_event_Inr initial_snapshot_def sample_time_facts)
  then have "pg_publish (EventId (UUID 5)) no_rows (Some PENDING) sample_planned ?c
      = (Inr (), no_rows\<lparr>pr_outbox := [status_row (EventId (UUID 5)) PENDING sample_planned]\<rparr>)"
    by (simp add: pg_publish_def pg_publish_status_changed_def sql_insert_def no_rows_def status_row_def)
  then show ?thesis
    by (simp add: record_change_def activity_publish_def activity_upsert_def sample_attempt_def attempt_writers_def with_fate_def
        pg_upsert_def pg_upsert_snapshot_def no_rows_def delivered_row_def del: moved_simps)
qed

theorem changes_recorded_before_shown_witness:
  "\<exists>flow t u. wf_steps (attempts True True pg_publish pg_upsert) (spec_to_payload (sample_spec (ExecutionId (UUID 7))))
      (new_workflow, no_rows) (flow, t)
    \<and> payload_to_snapshot (current_snapshot flow) = Inr sample_planned \<and> sn_status sample_planned = PLANNING \<and> sn_revision sample_planned = 2
    \<and> (\<exists>i p. can_transition_execution p PLANNING \<and> status_row i p sample_planned \<in> set (pr_outbox t)) \<and> length (pr_outbox t) = 1
    \<and> stored_execution (pr_snapshots t) (ExecutionId (UUID 7)) = Some u \<and> 2 \<le> sn_revision u"
proof -
  let ?s = "sample_spec (ExecutionId (UUID 7))"
  let ?t = "no_rows\<lparr>pr_outbox := [status_row (EventId (UUID 5)) PENDING sample_planned], pr_snapshots := [delivered_row sample_planned]\<rparr>"
  let ?flow = "resume_run AdvancePlanning (snapshot_to_payload sample_planned) sample_time sample_flow"
  have f: "wf_snapshot sample_flow = snapshot_to_payload sample_initial"
    by (simp add: sample_flow_def begin_run_def initial_payload schedule_unless_cancelled_def schedule_def)
  have can: "can_transition_execution (sn_status sample_initial) PLANNING" by (simp add: initial_snapshot_def can_transition_execution_def)
  have st: "sn_status sample_initial = PENDING" "sn_revision sample_initial = 1" by (simp_all add: initial_snapshot_def)
  have r: "run_activity sample_attempt AdvancePlanning (wf_snapshot sample_flow) (isoformat sample_time) no_rows
      = (Inr (snapshot_to_payload sample_planned), ?t)"
    unfolding run_activity_def advance_to_planning_def activity.case f advance_plain [OF sample_plain can good_sample_time]
    by (simp only: st sample_records then_return_def prod.case sum.case)
  have "sample_attempt \<in> attempts True True pg_publish pg_upsert" by (auto simp: attempts_def sample_attempt_def)
  from wf_step.complete [OF sample_flow_stage this good_sample_time r]
  have steps: "wf_steps (attempts True True pg_publish pg_upsert) (spec_to_payload ?s) (new_workflow, no_rows) (?flow, ?t)"
    by (rule wf_steps.go [OF sample_flow_steps])
  have shown: "payload_to_snapshot (current_snapshot ?flow) = Inr sample_planned"
    using plain_payload [OF plain_moved [OF sample_plain good_sample_time]]
    by (simp add: current_snapshot_def resume_run_def schedule_unless_cancelled_def schedule_def)
  have begun: "wf_stage ?flow \<noteq> NotStarted" by (simp add: resume_run_def schedule_unless_cancelled_def schedule_def)
  have table: "snapshot_table (\<lambda>_. ms_tenant_id (sp_scope ?s)) (pr_snapshots no_rows)" by (simp add: snapshot_table_def no_rows_def)
  from changes_recorded_before_shown [OF sample_scope_constructed steps table HOL.refl shown begun]
  have "\<exists>i p. can_transition_execution p PLANNING \<and> status_row i p sample_planned \<in> set (pr_outbox ?t)"
    "\<exists>u. stored_execution (pr_snapshots ?t) (ExecutionId (UUID 7)) = Some u \<and> 2 \<le> sn_revision u"
    using st by (simp_all add: initial_snapshot_def sample_spec_def)
  with steps shown st show ?thesis
    by (intro exI [of _ ?flow] exI [of _ ?t]) auto
qed

end
