(* ===== verification/Settings.thy ===== *)
theory Settings
  imports Text
begin

text \<open>
  The process configuration (\<open>bootstrap/settings.py\<close>): the settings records with their
  field validators, and the check that production is configured safely. Reading the
  environment into the records is the settings library's. The part of \<open>urllib.parse\<close>
  that the check uses is translated; whether the text between brackets is an IPv6
  address is the argument \<open>is_ipv6\<close>.
\<close>

section \<open>Splitting a URL\<close>

definition lower_char :: "char \<Rightarrow> char" where
  "lower_char c = (let n = of_char c :: nat in
     if (65 \<le> n \<and> n \<le> 90) \<or> (192 \<le> n \<and> n \<le> 222 \<and> n \<noteq> 215) then char_of (n + 32) else c)"

definition lower :: "string \<Rightarrow> string" where
  "lower s = map lower_char s"

text \<open>\<open>str.partition\<close> and \<open>str.rpartition\<close> at one character: what is before, whether it occurs, what follows.\<close>

definition partition_at :: "char \<Rightarrow> string \<Rightarrow> string \<times> bool \<times> string" where
  "partition_at c s = (let pre = takeWhile (\<lambda>x. x \<noteq> c) s in
     if pre = s then (s, False, []) else (pre, True, drop (Suc (length pre)) s))"

definition after_last :: "char \<Rightarrow> string \<Rightarrow> string" where
  "after_last c s = rev (takeWhile (\<lambda>x. x \<noteq> c) (rev s))"

fun split_on :: "char \<Rightarrow> string \<Rightarrow> string list" where
  "split_on c [] = [[]]"
| "split_on c (x # xs) = (if x = c then [] # split_on c xs
     else (case split_on c xs of [] \<Rightarrow> [[x]] | y # ys \<Rightarrow> (x # y) # ys))"

definition ascii_alpha :: "char \<Rightarrow> bool" where
  "ascii_alpha c = (let n = of_char c :: nat in (65 \<le> n \<and> n \<le> 90) \<or> (97 \<le> n \<and> n \<le> 122))"

definition ascii_digit :: "char \<Rightarrow> bool" where
  "ascii_digit c = (let n = of_char c :: nat in 48 \<le> n \<and> n \<le> 57)"

definition scheme_char :: "char \<Rightarrow> bool" where
  "scheme_char c \<longleftrightarrow> ascii_alpha c \<or> ascii_digit c \<or> c \<in> set ''+-.''"

record split_result =
  us_scheme :: string
  us_netloc :: string
  us_path :: string
  us_query :: string

definition invalid_ipv6 :: exn where "invalid_ipv6 = ValueError ''Invalid IPv6 URL''"

definition ipv_future :: "string \<Rightarrow> bool" where
  "ipv_future host = (case host of [] \<Rightarrow> False | v # r \<Rightarrow> (case partition_at (CHR ''.'') r of (hex, dot, rest) \<Rightarrow>
     v = CHR ''v'' \<and> dot \<and> hex \<noteq> [] \<and> list_all (\<lambda>c. digit_val c \<noteq> None) hex \<and> rest \<noteq> []))"

definition check_bracketed_netloc :: "(string \<Rightarrow> bool) \<Rightarrow> string \<Rightarrow> unit res" where
  "check_bracketed_netloc is_ipv6 netloc =
     (case partition_at (CHR ''['') (after_last (CHR ''@'') netloc) of (before, open', bracketed) \<Rightarrow>
        bindE (if open' then
            bindE (raise_if (before \<noteq> []) invalid_ipv6) (\<lambda>_.
              case partition_at (CHR '']'') bracketed of (host, close', port) \<Rightarrow>
                bindE (raise_if (port \<noteq> [] \<and> hd port \<noteq> CHR '':'') invalid_ipv6) (\<lambda>_. Inr host))
          else Inr (fst (partition_at (CHR '':'') before))) (\<lambda>host.
        raise_if (if host \<noteq> [] \<and> hd host = CHR ''v'' then \<not> ipv_future host else \<not> is_ipv6 host)
          (ValueError ''the text in brackets is no IPv6 address'')))"

definition split_scheme :: "string \<Rightarrow> string \<times> string" where
  "split_scheme url = (case partition_at (CHR '':'') url of (pre, colon, rest) \<Rightarrow>
     if colon \<and> pre \<noteq> [] \<and> ascii_alpha (hd pre) \<and> list_all scheme_char pre then (lower pre, rest) else ([], url))"

definition clean_url :: "string \<Rightarrow> string" where
  "clean_url url = filter (\<lambda>c. c \<notin> {CHR 0x09, CHR 0x0D, CHR 0x0A}) (dropWhile (\<lambda>c. of_char c \<le> (32 :: nat)) url)"

definition urlsplit :: "(string \<Rightarrow> bool) \<Rightarrow> string \<Rightarrow> split_result res" where
  "urlsplit is_ipv6 text = (case split_scheme (clean_url text) of (scheme, url) \<Rightarrow>
     let has_netloc = (take 2 url = ''//'');
         netloc = (if has_netloc then takeWhile (\<lambda>c. c \<notin> set ''/?#'') (drop 2 url) else []);
         rest = (if has_netloc then dropWhile (\<lambda>c. c \<notin> set ''/?#'') (drop 2 url) else url);
         opening = CHR ''['' \<in> set netloc; closing = CHR '']'' \<in> set netloc in
     bindE (raise_if (opening \<noteq> closing) invalid_ipv6) (\<lambda>_.
     bindE (if opening \<and> closing then check_bracketed_netloc is_ipv6 netloc else Inr ()) (\<lambda>_.
       case partition_at (CHR ''?'') (fst (partition_at (CHR ''#'') rest)) of (path, _, query) \<Rightarrow>
         Inr \<lparr>us_scheme = scheme, us_netloc = netloc, us_path = path, us_query = query\<rparr>)))"

definition host_info :: "string \<Rightarrow> string \<times> string option" where
  "host_info netloc = (let info = after_last (CHR ''@'') netloc in
     case partition_at (CHR ''['') info of (before, open', bracketed) \<Rightarrow>
       if open' then (case partition_at (CHR '']'') bracketed of (host, _, rest) \<Rightarrow>
           (case partition_at (CHR '':'') rest of (_, have_port, port) \<Rightarrow> (host, if have_port then Some port else None)))
       else (case partition_at (CHR '':'') info of (host, have_port, port) \<Rightarrow>
           (host, if have_port then Some port else None)))"

definition hostname :: "split_result \<Rightarrow> string option" where
  "hostname r = (case fst (host_info (us_netloc r)) of [] \<Rightarrow> None
     | h \<Rightarrow> (case partition_at (CHR ''%'') h of (name, percent, zone) \<Rightarrow>
         Some (lower name @ (if percent then CHR ''%'' # zone else []))))"

definition dec_number :: "string \<Rightarrow> nat" where
  "dec_number = foldl (\<lambda>n c. 10 * n + (of_char c - 48)) 0"

definition url_port :: "split_result \<Rightarrow> nat option res" where
  "url_port r = (case snd (host_info (us_netloc r)) of
       None \<Rightarrow> Inr None
     | Some port \<Rightarrow>
         bindE (raise_if (port = [] \<or> \<not> list_all ascii_digit port) (ValueError ''Port could not be cast to integer value'')) (\<lambda>_.
         bindE (raise_if (65535 < dec_number port) (ValueError ''Port out of range 0-65535'')) (\<lambda>_.
           Inr (Some (dec_number port)))))"

text \<open>
  \<open>parse_qs(query, keep_blank_values=True)[key]\<close>. A percent escape gives a byte; the
  bytes from 128 on, which Python decodes as UTF-8, stay themselves: a text that holds
  one is not ASCII in either.
\<close>

fun unquote :: "string \<Rightarrow> string" where
  "unquote (a # b # c # r) =
     (if a = CHR ''%'' then (case (digit_val b, digit_val c) of
         (Some h, Some l) \<Rightarrow> char_of (16 * h + l) # unquote r
       | _ \<Rightarrow> a # unquote (b # c # r))
      else a # unquote (b # c # r))"
| "unquote (a # r) = a # unquote r"
| "unquote [] = []"

definition unquote_plus :: "string \<Rightarrow> string" where
  "unquote_plus s = unquote (map (\<lambda>c. if c = CHR ''+'' then CHR '' '' else c) s)"

definition parse_qsl :: "string \<Rightarrow> (string \<times> string) list" where
  "parse_qsl query = map (\<lambda>nv. case partition_at (CHR ''='') nv of (n, _, v) \<Rightarrow> (unquote_plus n, unquote_plus v))
     (filter (\<lambda>nv. nv \<noteq> []) (split_on (CHR ''&'') query))"

definition query_values :: "string \<Rightarrow> string \<Rightarrow> string list" where
  "query_values query key = map snd (filter (\<lambda>nv. fst nv = key) (parse_qsl query))"

section \<open>Settings\<close>

datatype environment = DEVELOPMENT | TEST | STAGING | PRODUCTION

fun environment_value :: "environment \<Rightarrow> string" where
  "environment_value DEVELOPMENT = ''development''"
| "environment_value TEST = ''test''"
| "environment_value STAGING = ''staging''"
| "environment_value PRODUCTION = ''production''"

record postgres_settings =
  pg_dsn :: string

record temporal_settings =
  tp_enabled :: bool
  tp_address :: string
  tp_namespace :: string
  tp_task_queue :: string
  tp_tls :: bool

definition mk_temporal_settings :: "temporal_settings \<Rightarrow> temporal_settings res" where
  "mk_temporal_settings t =
     bindE (raise_if (\<exists>v \<in> {tp_address t, tp_namespace t, tp_task_queue t}. blank v)
       (ValueError ''Temporal settings must not be blank'')) (\<lambda>_. Inr t)"

record telemetry_settings =
  te_otlp_endpoint :: "string option"
  te_capture_sensitive_content :: bool

record module_settings =
  md_memory_enabled :: bool
  md_runtime_enabled :: bool

record http_settings =
  ht_enabled :: bool
  ht_host :: string
  ht_port :: int

record inbox_settings =
  ib_enabled :: bool
  ib_consumer_name :: string

definition mk_inbox_settings :: "inbox_settings \<Rightarrow> inbox_settings res" where
  "mk_inbox_settings i = bindE (require_non_blank (ib_consumer_name i) ''consumer_name'') (\<lambda>_. Inr i)"

record claim_extraction_settings =
  cx_enabled :: bool
  cx_extractor_version :: string

definition mk_claim_extraction_settings :: "claim_extraction_settings \<Rightarrow> claim_extraction_settings res" where
  "mk_claim_extraction_settings c = bindE (require_non_blank (cx_extractor_version c) ''extractor_version'') (\<lambda>_. Inr c)"

text \<open>\<open>x <= 0\<close> for a float: false for a NaN.\<close>

fun not_positive :: "pyfloat \<Rightarrow> bool" where
  "not_positive (Finite q) = (q \<le> 0)"
| "not_positive NegInf = True"
| "not_positive _ = False"

text \<open>The two relays have settings of the same shape and with the same checks.\<close>

record relay_settings =
  rl_enabled :: bool
  rl_batch_size :: int
  rl_poll_interval_seconds :: pyfloat

definition mk_outbox_relay_settings :: "relay_settings \<Rightarrow> relay_settings res" where
  "mk_outbox_relay_settings r =
     bindE (raise_if (rl_batch_size r \<le> 0) (ValueError ''batch_size must be positive'')) (\<lambda>_.
     bindE (raise_if (not_positive (rl_poll_interval_seconds r)) (ValueError ''poll_interval_seconds must be positive'')) (\<lambda>_. Inr r))"

definition mk_runtime_outbox_relay_settings :: "relay_settings \<Rightarrow> relay_settings res" where
  "mk_runtime_outbox_relay_settings r =
     bindE (raise_if (rl_batch_size r \<le> 0) (ValueError ''batch_size must be positive'')) (\<lambda>_.
     bindE (raise_if (not_positive (rl_poll_interval_seconds r)) (ValueError ''poll_interval_seconds must be positive'')) (\<lambda>_. Inr r))"

record oidc_settings =
  oi_enabled :: bool
  oi_issuer :: string
  oi_jwks_uri :: string
  oi_audience :: "string option"
  oi_actor_claim :: string
  oi_tenant_claim :: string
  oi_dev_signing_key :: "string option"

record app_settings =
  as_environment :: environment
  as_postgres :: postgres_settings
  as_temporal :: temporal_settings
  as_telemetry :: telemetry_settings
  as_modules :: module_settings
  as_http :: http_settings
  as_inbox :: inbox_settings
  as_claim_extraction :: claim_extraction_settings
  as_outbox_relay :: relay_settings
  as_runtime_outbox_relay :: relay_settings
  as_oidc :: oidc_settings

section \<open>Production\<close>

definition parse_postgres_dsn :: "(string \<Rightarrow> bool) \<Rightarrow> string \<Rightarrow> (split_result \<times> string option) option" where
  "parse_postgres_dsn is_ipv6 value = (case bindE (urlsplit is_ipv6 value) (\<lambda>dsn.
         bindE (url_port dsn) (\<lambda>_. Inr (dsn, hostname dsn))) of
       Inl _ \<Rightarrow> None | Inr p \<Rightarrow> Some p)"

definition check_postgres_dsn :: "(string \<Rightarrow> bool) \<Rightarrow> string \<Rightarrow> unit res" where
  "check_postgres_dsn is_ipv6 value =
     (let bad = ConfigurationError ''invalid_postgres_dsn'' ''production requires a PostgreSQL DSN with an explicit host'' in
      case parse_postgres_dsn is_ipv6 value of
        None \<Rightarrow> Inl bad
      | Some (dsn, host) \<Rightarrow>
          bindE (raise_if (us_scheme dsn \<notin> {''postgres'', ''postgresql''} \<or> host = None) bad) (\<lambda>_.
            raise_if (query_values (us_query dsn) ''sslmode'' \<noteq> [''verify-full''])
              (ConfigurationError ''insecure_postgres_tls'' ''production requires PostgreSQL TLS with sslmode=verify-full'')))"

definition check_oidc :: "oidc_settings \<Rightarrow> unit res" where
  "check_oidc o' =
     bindE (raise_if (blank (oi_issuer o'))
       (ConfigurationError ''oidc_issuer_required'' ''production requires OIDC issuer when OIDC is enabled'')) (\<lambda>_.
     bindE (raise_if (blank (oi_jwks_uri o'))
       (ConfigurationError ''oidc_jwks_uri_required'' ''production requires OIDC JWKS URI when OIDC is enabled'')) (\<lambda>_.
       raise_if (oi_dev_signing_key o' \<noteq> None)
         (ConfigurationError ''oidc_dev_key_forbidden'' ''production must not configure OIDC dev_signing_key'')))"

definition validate_production_security :: "(string \<Rightarrow> bool) \<Rightarrow> app_settings \<Rightarrow> app_settings res" where
  "validate_production_security is_ipv6 s =
     (if as_environment s \<noteq> PRODUCTION then Inr s
      else
        bindE (raise_if (te_capture_sensitive_content (as_telemetry s)) (ConfigurationError ''plaintext_telemetry''
          ''production must not capture sensitive content in plaintext telemetry'')) (\<lambda>_.
        bindE (check_postgres_dsn is_ipv6 (pg_dsn (as_postgres s))) (\<lambda>_.
        bindE (raise_if (\<not> tp_tls (as_temporal s)) (ConfigurationError ''insecure_temporal_tls'' ''production requires Temporal TLS'')) (\<lambda>_.
        bindE (if oi_enabled (as_oidc s) then check_oidc (as_oidc s) else Inr ()) (\<lambda>_. Inr s)))))"

text \<open>The settings object: every nested model is built, then the whole is checked.\<close>

definition mk_app_settings :: "(string \<Rightarrow> bool) \<Rightarrow> app_settings \<Rightarrow> app_settings res" where
  "mk_app_settings is_ipv6 s =
     bindE (mk_temporal_settings (as_temporal s)) (\<lambda>_.
     bindE (mk_inbox_settings (as_inbox s)) (\<lambda>_.
     bindE (mk_claim_extraction_settings (as_claim_extraction s)) (\<lambda>_.
     bindE (mk_outbox_relay_settings (as_outbox_relay s)) (\<lambda>_.
     bindE (mk_runtime_outbox_relay_settings (as_runtime_outbox_relay s)) (\<lambda>_.
       validate_production_security is_ipv6 s)))))"

text \<open>What an accepted production configuration guarantees.\<close>

definition dsn_secure :: "(string \<Rightarrow> bool) \<Rightarrow> string \<Rightarrow> bool" where
  "dsn_secure is_ipv6 value \<longleftrightarrow> (\<exists>dsn host. parse_postgres_dsn is_ipv6 value = Some (dsn, Some host)
     \<and> us_scheme dsn \<in> {''postgres'', ''postgresql''} \<and> query_values (us_query dsn) ''sslmode'' = [''verify-full''])"

definition oidc_secure :: "oidc_settings \<Rightarrow> bool" where
  "oidc_secure o' \<longleftrightarrow> \<not> blank (oi_issuer o') \<and> \<not> blank (oi_jwks_uri o') \<and> oi_dev_signing_key o' = None"

definition production_secure :: "(string \<Rightarrow> bool) \<Rightarrow> app_settings \<Rightarrow> bool" where
  "production_secure is_ipv6 s \<longleftrightarrow> \<not> te_capture_sensitive_content (as_telemetry s) \<and> dsn_secure is_ipv6 (pg_dsn (as_postgres s))
     \<and> tp_tls (as_temporal s) \<and> (oi_enabled (as_oidc s) \<longrightarrow> oidc_secure (as_oidc s))"

lemma check_postgres_dsn_Inr: "check_postgres_dsn is_ipv6 v = Inr u \<longleftrightarrow> dsn_secure is_ipv6 v"
  by (auto simp: check_postgres_dsn_def dsn_secure_def bindE_eq_Inr Let_def split: option.splits)

lemma check_oidc_Inr: "check_oidc o' = Inr u \<longleftrightarrow> oidc_secure o'"
  by (auto simp: check_oidc_def oidc_secure_def bindE_eq_Inr)

lemma validate_production_Inr:
  "validate_production_security is_ipv6 s = Inr s' \<longleftrightarrow> s' = s \<and> (as_environment s = PRODUCTION \<longrightarrow> production_secure is_ipv6 s)"
  by (auto simp: validate_production_security_def production_secure_def bindE_eq_Inr check_postgres_dsn_Inr check_oidc_Inr)

lemma mk_app_settings_Inr:
  "mk_app_settings is_ipv6 s = Inr s' \<Longrightarrow> s' = s \<and> (as_environment s = PRODUCTION \<longrightarrow> production_secure is_ipv6 s)
     \<and> 0 < rl_batch_size (as_outbox_relay s) \<and> 0 < rl_batch_size (as_runtime_outbox_relay s)"
  by (auto simp: mk_app_settings_def bindE_eq_Inr validate_production_Inr mk_outbox_relay_settings_def
      mk_runtime_outbox_relay_settings_def)

end
