(* ===== verification/Auth.thy ===== *)
theory Auth
  imports Settings Memory_App Runtime_Model
begin

text \<open>
  Authentication and authorization (\<open>bootstrap/auth/\<close> and the authorization ports of
  \<open>bootstrap/infrastructure.py\<close>): the bearer token of a request, its verification, the
  principal bound for the time of a request, and who is authorized by it. Decoding a
  signed token and finding its key are the arguments \<open>jwt_library\<close>.
\<close>

section \<open>The principal of a request\<close>

record principal =
  pr_actor_id :: subject_id
  pr_tenant_id :: tenant_id

text \<open>The context variable, and the token that restores it.\<close>

type_synonym principal_context = "principal option"

definition bind_principal :: "principal \<Rightarrow> principal_context \<Rightarrow> principal_context \<times> principal_context" where
  "bind_principal p ctx = (ctx, Some p)"

definition reset_principal :: "principal_context \<Rightarrow> principal_context \<Rightarrow> principal_context" where
  "reset_principal token ctx = token"

definition current_principal :: "principal_context \<Rightarrow> principal res" where
  "current_principal ctx = (case ctx of None \<Rightarrow> Inl AuthenticationRequiredError | Some p \<Rightarrow> Inr p)"

section \<open>Verifying a token\<close>

record jwt_options =
  jo_key :: string
  jo_algorithms :: "string list"
  jo_issuer :: string
  jo_audience :: "string option"
  jo_verify_aud :: bool
  jo_require :: "string list"

text \<open>\<open>None\<close> is an error of the library (\<open>PyJWTError\<close>).\<close>

record jwt_library =
  jl_decode :: "jwt_options \<Rightarrow> string \<Rightarrow> pyval option"
  jl_signing_key :: "string \<Rightarrow> string \<Rightarrow> string option"

record verifier_claims =
  vc_issuer :: string
  vc_actor_claim :: string
  vc_tenant_claim :: string
  vc_audience :: "string option"

datatype token_verifier =
    StaticDevTokenVerifier (dev_signing_key: string) (verifier_claims: verifier_claims)
  | JwksTokenVerifier (jwks_uri: string) (verifier_claims: verifier_claims)

definition claim_uuid :: "pyval \<Rightarrow> string \<Rightarrow> uuid res" where
  "claim_uuid payload name = (case bindE (vitem payload name) uuid_of_str of Inl _ \<Rightarrow> Inl InvalidTokenError | Inr u \<Rightarrow> Inr u)"

definition principal_of_payload :: "verifier_claims \<Rightarrow> pyval \<Rightarrow> principal res" where
  "principal_of_payload c payload =
     bindE (claim_uuid payload (vc_actor_claim c)) (\<lambda>actor.
     bindE (claim_uuid payload (vc_tenant_claim c)) (\<lambda>tenant.
       Inr \<lparr>pr_actor_id = SubjectId actor, pr_tenant_id = TenantId tenant\<rparr>))"

definition decode_options :: "verifier_claims \<Rightarrow> string list \<Rightarrow> string \<Rightarrow> jwt_options" where
  "decode_options c algorithms key = \<lparr>jo_key = key, jo_algorithms = algorithms, jo_issuer = vc_issuer c,
     jo_audience = vc_audience c, jo_verify_aud = (vc_audience c \<noteq> None), jo_require = [''exp'', ''sub'']\<rparr>"

fun verify_token :: "jwt_library \<Rightarrow> token_verifier \<Rightarrow> string \<Rightarrow> principal res" where
  "verify_token lib (StaticDevTokenVerifier key c) token =
     (case jl_decode lib (decode_options c [''HS256''] key) token of
        None \<Rightarrow> Inl InvalidTokenError | Some payload \<Rightarrow> principal_of_payload c payload)"
| "verify_token lib (JwksTokenVerifier uri c) token =
     (case jl_signing_key lib uri token of
        None \<Rightarrow> Inl InvalidTokenError
      | Some key \<Rightarrow> (case jl_decode lib (decode_options c [''RS256'', ''ES256'', ''EdDSA''] key) token of
            None \<Rightarrow> Inl InvalidTokenError | Some payload \<Rightarrow> principal_of_payload c payload))"

definition mk_jwks_token_verifier :: "string \<Rightarrow> verifier_claims \<Rightarrow> token_verifier res" where
  "mk_jwks_token_verifier uri c =
     bindE (raise_if (uri = []) (ValueError ''jwks_uri or jwks_client is required'')) (\<lambda>_. Inr (JwksTokenVerifier uri c))"

definition create_token_verifier :: "app_settings \<Rightarrow> token_verifier option res" where
  "create_token_verifier s = (let o' = as_oidc s;
       claims = (\<lambda>issuer. \<lparr>vc_issuer = issuer, vc_actor_claim = oi_actor_claim o', vc_tenant_claim = oi_tenant_claim o',
         vc_audience = oi_audience o'\<rparr>) in
     if \<not> oi_enabled o' then Inr None
     else (case (as_environment s \<in> {DEVELOPMENT, TEST}, oi_dev_signing_key o') of
         (True, Some key) \<Rightarrow> Inr (Some (StaticDevTokenVerifier key
           (claims (if oi_issuer o' = [] then ''https://dev.engrammesh.test'' else oi_issuer o'))))
       | _ \<Rightarrow> if oi_jwks_uri o' \<noteq> [] then bindE (mk_jwks_token_verifier (oi_jwks_uri o') (claims (oi_issuer o'))) (\<lambda>v. Inr (Some v))
           else Inl (ConfigurationError ''oidc_misconfigured'' ''OIDC is enabled but no verifier can be constructed'')))"

section \<open>Authenticating a request\<close>

definition parse_bearer_token :: "string option \<Rightarrow> string res" where
  "parse_bearer_token authorization = (case authorization of
       None \<Rightarrow> Inl AuthenticationRequiredError
     | Some text \<Rightarrow>
         if blank text then Inl AuthenticationRequiredError
         else (case partition_at (CHR '' '') text of (scheme, _, remainder) \<Rightarrow>
           if lower scheme \<noteq> ''bearer'' \<or> blank remainder then Inl InvalidTokenError else Inr (strip remainder)))"

definition authenticate_tenant_request ::
    "uuid \<Rightarrow> string option \<Rightarrow> (string \<Rightarrow> principal res) \<Rightarrow> principal res" where
  "authenticate_tenant_request path_tenant_id authorization verify =
     bindE (parse_bearer_token authorization) (\<lambda>token.
     bindE (verify token) (\<lambda>p.
     bindE (raise_if (pr_tenant_id p \<noteq> TenantId path_tenant_id) TenantAccessDeniedError) (\<lambda>_. Inr p)))"

text \<open>
  \<open>async with _tenant_auth_context(...) as principal: body\<close>. The body reads the bound
  principal and works on \<open>'s\<close>; leaving it, also by an exception, restores the binding.
\<close>

definition tenant_auth_context ::
    "bool \<Rightarrow> uuid \<Rightarrow> string option \<Rightarrow> (string \<Rightarrow> principal res) option
      \<Rightarrow> (principal option \<Rightarrow> principal_context \<Rightarrow> 's \<Rightarrow> 'a res \<times> 's)
      \<Rightarrow> principal_context \<Rightarrow> 's \<Rightarrow> 'a res \<times> principal_context \<times> 's" where
  "tenant_auth_context oidc_enabled path_tenant_id authorization verifier body ctx s =
     (if \<not> oidc_enabled then (case body None ctx s of (r, s') \<Rightarrow> (r, ctx, s'))
      else (case verifier of
          None \<Rightarrow> (Inl (ConfigurationError ''oidc_misconfigured'' ''OIDC verifier is not configured''), ctx, s)
        | Some verify \<Rightarrow> (case authenticate_tenant_request path_tenant_id authorization verify of
            Inl e \<Rightarrow> (Inl e, ctx, s)
          | Inr p \<Rightarrow> (case bind_principal p ctx of (token, ctx') \<Rightarrow>
              (case body (Some p) ctx' s of (r, s') \<Rightarrow> (r, reset_principal token ctx', s'))))))"

definition episode_auth_context where "episode_auth_context = tenant_auth_context"

definition execution_auth_context where "execution_auth_context = tenant_auth_context"

section \<open>Authorization\<close>

definition environment_gated :: "environment \<Rightarrow> bool" where
  "environment_gated e \<longleftrightarrow> e \<in> {DEVELOPMENT, TEST}"

definition tenant_scoped_memory_authorize :: "principal_context \<Rightarrow> authorization_request \<Rightarrow> bool res" where
  "tenant_scoped_memory_authorize ctx request = bindE (current_principal ctx) (\<lambda>p.
     Inr (rq_actor_id request = pr_actor_id p \<and> ms_tenant_id (rq_scope request) = pr_tenant_id p))"

definition tenant_scoped_runtime_authorize :: "principal_context \<Rightarrow> runtime_authorization_request \<Rightarrow> bool res" where
  "tenant_scoped_runtime_authorize ctx request = bindE (current_principal ctx) (\<lambda>p.
     Inr (ra_actor_id request = pr_actor_id p \<and> ms_tenant_id (ra_scope request) = pr_tenant_id p))"

definition create_memory_authorization :: "app_settings \<Rightarrow> principal_context \<Rightarrow> authorization_request \<Rightarrow> bool res" where
  "create_memory_authorization s ctx request =
     (if oi_enabled (as_oidc s) then tenant_scoped_memory_authorize ctx request else Inr (environment_gated (as_environment s)))"

definition create_runtime_authorization :: "app_settings \<Rightarrow> principal_context \<Rightarrow> runtime_authorization_request \<Rightarrow> bool res" where
  "create_runtime_authorization s ctx request =
     (if oi_enabled (as_oidc s) then tenant_scoped_runtime_authorize ctx request else Inr (environment_gated (as_environment s)))"

text \<open>
  A handler asks for authorization once, as its first step: \<open>authorizing\<close> makes of a
  handler over a decided question the handler over a port that may raise.
\<close>

definition authorizing :: "('q \<Rightarrow> bool res) \<Rightarrow> 'q \<Rightarrow> (('q \<Rightarrow> bool) \<Rightarrow> 's \<Rightarrow> 'a res \<times> 's) \<Rightarrow> 's \<Rightarrow> 'a res \<times> 's" where
  "authorizing authorize request handle s = (case authorize request of
       Inl e \<Rightarrow> (Inl e, s)
     | Inr allowed \<Rightarrow> handle (\<lambda>_. allowed) s)"

section \<open>Facts\<close>

lemma authenticate_Inr:
  "authenticate_tenant_request tenant authorization verify = Inr p \<longleftrightarrow>
     (\<exists>token. parse_bearer_token authorization = Inr token \<and> verify token = Inr p \<and> pr_tenant_id p = TenantId tenant)"
  by (auto simp: authenticate_tenant_request_def bindE_eq_Inr)

text \<open>The binding of the principal is restored, whatever the body does.\<close>

lemma auth_context_restores:
  "fst (snd (tenant_auth_context oidc_enabled tenant authorization verifier body ctx s)) = ctx"
  by (simp add: tenant_auth_context_def bind_principal_def reset_principal_def split: prod.split option.split sum.split)

text \<open>When the body runs, the principal it sees was verified and is of the tenant of the path.\<close>

lemma auth_context_runs:
  assumes "tenant_auth_context True tenant authorization verifier body ctx s = (r, ctx', s')"
  shows "(\<exists>e. r = Inl e \<and> s' = s) \<or> (\<exists>p. pr_tenant_id p = TenantId tenant \<and> body (Some p) (Some p) s = (r, s')
    \<and> (\<exists>verify token. verifier = Some verify \<and> parse_bearer_token authorization = Inr token \<and> verify token = Inr p))"
proof (cases verifier)
  case None
  with assms show ?thesis by (auto simp: tenant_auth_context_def)
next
  case (Some verify)
  show ?thesis
  proof (cases "authenticate_tenant_request tenant authorization verify")
    case (Inl e)
    with assms Some show ?thesis by (auto simp: tenant_auth_context_def)
  next
    case (Inr p)
    with assms Some have "body (Some p) (Some p) s = (r, s')"
      by (auto simp: tenant_auth_context_def bind_principal_def split: prod.splits)
    with Inr Some show ?thesis by (auto simp: authenticate_Inr)
  qed
qed

end
