(* ===== verification/Connection.thy ===== *)
theory Connection
  imports Prelude "HOL-Library.List_Lexorder" "HOL-Library.Char_ord"
begin

text \<open>
  Connecting to PostgreSQL (\<open>adapters/postgres/connection.py\<close> and \<open>migrations.py\<close> of the
  memory and of the runtime module): the pool of a database object, and the migrations
  that run before the first connection is lent. What the statements of a migration do
  to the schema is a function of the model, \<open>None\<close> when a statement fails; so are the
  errors of the driver.
\<close>

section \<open>Migrations\<close>

text \<open>A file of the directory: its stem, and its statements.\<close>

type_synonym 't migration = "string \<times> ('t \<Rightarrow> 't option)"

text \<open>The database: which versions a table of versions holds, if it exists, and the rest.\<close>

record 't schema =
  sd_versions :: "string \<Rightarrow> string list option"
  sd_tables :: 't

definition applied_versions :: "string \<Rightarrow> 't schema \<Rightarrow> string list" where
  "applied_versions table d = (case sd_versions d table of None \<Rightarrow> [] | Some vs \<Rightarrow> vs)"

text \<open>\<open>sorted(MIGRATIONS_DIR.glob("*.sql"))\<close>: in the order of the file names.\<close>

definition file_name :: "'t migration \<Rightarrow> string" where
  "file_name m = fst m @ ''.sql''"

definition sorted_migrations :: "'t migration list \<Rightarrow> 't migration list" where
  "sorted_migrations files = sort_key file_name files"

text \<open>The versions are read once, before the loop; the version is the primary key of its table.\<close>

fun run_migrations :: "string \<Rightarrow> string list \<Rightarrow> 't migration list \<Rightarrow> 't schema \<Rightarrow> 't schema res" where
  "run_migrations table applied [] d = Inr d"
| "run_migrations table applied (m # ms) d =
     (if fst m \<in> set applied then run_migrations table applied ms d
      else (case snd m (sd_tables d) of
          None \<Rightarrow> Inl (BackendError ''migration failed'')
        | Some tables \<Rightarrow>
            bindE (raise_if (fst m \<in> set (applied_versions table d)) (BackendError ''duplicate key value'')) (\<lambda>_.
            run_migrations table applied ms (d\<lparr>sd_tables := tables,
              sd_versions := (sd_versions d)(table \<mapsto> applied_versions table d @ [fst m])\<rparr>))))"

text \<open>One transaction: an exception leaves the database as it was.\<close>

definition migrate :: "string \<Rightarrow> 't migration list \<Rightarrow> 't schema \<Rightarrow> unit res \<times> 't schema" where
  "migrate table files d =
     (let d0 = d\<lparr>sd_versions := (sd_versions d)(table \<mapsto> applied_versions table d)\<rparr> in
      case run_migrations table (applied_versions table d0) (sorted_migrations files) d0 of
        Inl e \<Rightarrow> (Inl e, d)
      | Inr d' \<Rightarrow> (Inr (), d'))"

definition apply_migrations :: "'t migration list \<Rightarrow> 't schema \<Rightarrow> unit res \<times> 't schema" where
  "apply_migrations = migrate ''memory_schema_migrations''"

definition apply_runtime_migrations :: "'t migration list \<Rightarrow> 't schema \<Rightarrow> unit res \<times> 't schema" where
  "apply_runtime_migrations = migrate ''runtime_schema_migrations''"

section \<open>The database objects\<close>

text \<open>The two classes differ in the migrations they apply and in the text of an error.\<close>

datatype pg_module = MemoryDatabase | RuntimeDatabase

fun apply_module_migrations :: "pg_module \<Rightarrow> 't migration list \<Rightarrow> 't schema \<Rightarrow> unit res \<times> 't schema" where
  "apply_module_migrations MemoryDatabase = apply_migrations"
| "apply_module_migrations RuntimeDatabase = apply_runtime_migrations"

fun not_open_message :: "pg_module \<Rightarrow> string" where
  "not_open_message MemoryDatabase = ''postgres memory database is not open''"
| "not_open_message RuntimeDatabase = ''postgres runtime database is not open''"

record pg_connection =
  pc_module :: pg_module
  pc_dsn :: string
  pc_pool :: bool
  pc_migrations_applied :: bool

definition new_connection :: "pg_module \<Rightarrow> string \<Rightarrow> pg_connection" where
  "new_connection m dsn = \<lparr>pc_module = m, pc_dsn = dsn, pc_pool = False, pc_migrations_applied = False\<rparr>"

text \<open>\<open>opened\<close> is what \<open>AsyncConnectionPool.open\<close> returns or raises; so are \<open>released\<close>, \<open>reached\<close> and \<open>lent\<close>.\<close>

definition connection_open :: "unit res \<Rightarrow> pg_connection \<Rightarrow> unit res \<times> pg_connection" where
  "connection_open opened c = (if pc_pool c then (Inr (), c)
     else (case opened of Inl e \<Rightarrow> (Inl e, c) | Inr _ \<Rightarrow> (Inr (), c\<lparr>pc_pool := True\<rparr>)))"

definition connection_close :: "unit res \<Rightarrow> pg_connection \<Rightarrow> unit res \<times> pg_connection" where
  "connection_close released c = (if \<not> pc_pool c then (Inr (), c)
     else (released, c\<lparr>pc_pool := False, pc_migrations_applied := False\<rparr>))"

definition ensure_migrations ::
    "'t migration list \<Rightarrow> unit res \<Rightarrow> pg_connection \<times> 't schema \<Rightarrow> unit res \<times> pg_connection \<times> 't schema" where
  "ensure_migrations files reached s = (case s of (c, d) \<Rightarrow>
     if pc_migrations_applied c then (Inr (), c, d)
     else (case reached of
         Inl e \<Rightarrow> (Inl e, c, d)
       | Inr _ \<Rightarrow> (case apply_module_migrations (pc_module c) files d of
             (Inl e, d') \<Rightarrow> (Inl e, c, d')
           | (Inr _, d') \<Rightarrow> (Inr (), c\<lparr>pc_migrations_applied := True\<rparr>, d'))))"

text \<open>Entering \<open>connection()\<close>: the body of the caller runs when this does not raise.\<close>

definition connection_enter ::
    "'t migration list \<Rightarrow> unit res \<Rightarrow> unit res \<Rightarrow> pg_connection \<times> 't schema \<Rightarrow> unit res \<times> pg_connection \<times> 't schema" where
  "connection_enter files reached lent s = (case ensure_migrations files reached s of
       (Inl e, s') \<Rightarrow> (Inl e, s')
     | (Inr _, s') \<Rightarrow> (if \<not> pc_pool (fst s') then (Inl (RuntimeError (not_open_message (pc_module (fst s')))), s')
         else (lent, s')))"

datatype connection_call =
    OpenPool "unit res"
  | ClosePool "unit res"
  | Enter "unit res" "unit res"

fun connection_step :: "'t migration list \<Rightarrow> connection_call \<Rightarrow> pg_connection \<times> 't schema \<Rightarrow> unit res \<times> pg_connection \<times> 't schema" where
  "connection_step files (OpenPool opened) (c, d) = (case connection_open opened c of (r, c') \<Rightarrow> (r, c', d))"
| "connection_step files (ClosePool released) (c, d) = (case connection_close released c of (r, c') \<Rightarrow> (r, c', d))"
| "connection_step files (Enter reached lent) s = connection_enter files reached lent s"

definition connection_steps :: "'t migration list \<Rightarrow> connection_call list \<Rightarrow> pg_connection \<times> 't schema \<Rightarrow> pg_connection \<times> 't schema" where
  "connection_steps files steps s = fold (\<lambda>step s. snd (connection_step files step s)) steps s"

section \<open>What migrating does\<close>

text \<open>The statements of migrations, one after the other.\<close>

fun migrated :: "'t migration list \<Rightarrow> 't \<Rightarrow> 't option" where
  "migrated [] t = Some t"
| "migrated (m # ms) t = (case snd m t of None \<Rightarrow> None | Some t' \<Rightarrow> migrated ms t')"

definition pending_migrations :: "string \<Rightarrow> 't migration list \<Rightarrow> 't schema \<Rightarrow> 't migration list" where
  "pending_migrations table files d = filter (\<lambda>m. fst m \<notin> set (applied_versions table d)) (sorted_migrations files)"

lemma applied_after [simp]:
  "applied_versions table (d\<lparr>sd_versions := (sd_versions d)(t \<mapsto> vs)\<rparr>) = (if table = t then vs else applied_versions table d)"
  "applied_versions table (d\<lparr>sd_tables := x\<rparr>) = applied_versions table d"
  "applied_versions table (d\<lparr>sd_tables := x, sd_versions := (sd_versions d)(t \<mapsto> vs)\<rparr>) = (if table = t then vs else applied_versions table d)"
  by (simp_all add: applied_versions_def)

lemma run_migrations_Inr:
  "run_migrations table applied ms d = Inr d' \<Longrightarrow>
     (let pending = filter (\<lambda>m. fst m \<notin> set applied) ms in
       migrated pending (sd_tables d) = Some (sd_tables d')
       \<and> applied_versions table d' = applied_versions table d @ map fst pending
       \<and> (\<forall>t. t \<noteq> table \<longrightarrow> applied_versions t d' = applied_versions t d))"
  by (induction table applied ms d rule: run_migrations.induct)
    (auto simp: bindE_eq_Inr Let_def split: if_splits option.splits)

lemma migrate_Inr:
  assumes "migrate table files d = (Inr u, d')"
  shows "migrated (pending_migrations table files d) (sd_tables d) = Some (sd_tables d')
    \<and> applied_versions table d' = applied_versions table d @ map fst (pending_migrations table files d)
    \<and> (\<forall>t. t \<noteq> table \<longrightarrow> applied_versions t d' = applied_versions t d)"
proof -
  let ?d0 = "d\<lparr>sd_versions := (sd_versions d)(table \<mapsto> applied_versions table d)\<rparr>"
  from assms have "run_migrations table (applied_versions table ?d0) (sorted_migrations files) ?d0 = Inr d'"
    by (auto simp: migrate_def Let_def split: sum.splits)
  from run_migrations_Inr [OF this] show ?thesis by (simp add: pending_migrations_def Let_def)
qed

lemma migrate_Inl: "migrate table files d = (Inl e, d') \<Longrightarrow> d' = d"
  by (auto simp: migrate_def Let_def split: sum.splits)

text \<open>Every version of the files is recorded.\<close>

definition up_to_date :: "string \<Rightarrow> 't migration list \<Rightarrow> 't schema \<Rightarrow> bool" where
  "up_to_date table files d \<longleftrightarrow> set (map fst files) \<subseteq> set (applied_versions table d)"

lemma sorted_migrations_set [simp]: "set (sorted_migrations files) = set files"
  by (simp add: sorted_migrations_def)

lemma migrate_up_to_date: "migrate table files d = (Inr u, d') \<Longrightarrow> up_to_date table files d'"
  using migrate_Inr [of table files d u d'] by (auto simp: up_to_date_def pending_migrations_def)

lemma up_to_date_pending: "up_to_date table files d \<Longrightarrow> pending_migrations table files d = []"
  by (auto simp: up_to_date_def pending_migrations_def filter_empty_conv)

lemma migrate_again:
  assumes "up_to_date table files d"
  shows "\<exists>d'. migrate table files d = (Inr (), d') \<and> sd_tables d' = sd_tables d
    \<and> (\<forall>t. applied_versions t d' = applied_versions t d)"
proof -
  let ?d0 = "d\<lparr>sd_versions := (sd_versions d)(table \<mapsto> applied_versions table d)\<rparr>"
  have skip: "run_migrations table applied ms x = Inr x" if "set (map fst ms) \<subseteq> set applied"
    for applied and ms :: "'a migration list" and x :: "'a schema"
    using that by (induction ms) auto
  have "run_migrations table (applied_versions table ?d0) (sorted_migrations files) ?d0 = Inr ?d0"
    by (rule skip) (use assms in \<open>auto simp: up_to_date_def\<close>)
  then show ?thesis by (simp add: migrate_def Let_def)
qed

fun module_table :: "pg_module \<Rightarrow> string" where
  "module_table MemoryDatabase = ''memory_schema_migrations''"
| "module_table RuntimeDatabase = ''runtime_schema_migrations''"

lemma apply_module_migrations: "apply_module_migrations m = migrate (module_table m)"
  by (cases m) (simp_all add: apply_migrations_def apply_runtime_migrations_def)

text \<open>A connection that says its migrations are applied finds them recorded.\<close>

definition connection_inv :: "pg_module \<Rightarrow> 't migration list \<Rightarrow> pg_connection \<times> 't schema \<Rightarrow> bool" where
  "connection_inv m files s \<longleftrightarrow> pc_module (fst s) = m \<and> (pc_migrations_applied (fst s) \<longrightarrow> up_to_date (module_table m) files (snd s))"

lemma ensure_migrations_keeps:
  assumes "connection_inv m files s" and "ensure_migrations files reached s = (r, s')"
  shows "connection_inv m files s' \<and> pc_pool (fst s') = pc_pool (fst s) \<and> (\<forall>u. r = Inr u \<longrightarrow> up_to_date (module_table m) files (snd s'))"
proof -
  obtain c d where s: "s = (c, d)" by fastforce
  obtain r1 d1 where m: "migrate (module_table (pc_module c)) files d = (r1, d1)" by fastforce
  show ?thesis
  proof (cases r1)
    case (Inl e)
    with m have "d1 = d" using migrate_Inl by blast
    with assms s m Inl show ?thesis
      by (auto simp: ensure_migrations_def apply_module_migrations connection_inv_def split: if_splits sum.splits)
  next
    case (Inr u)
    with m have "up_to_date (module_table (pc_module c)) files d1" using migrate_up_to_date by blast
    with assms s m Inr show ?thesis
      by (auto simp: ensure_migrations_def apply_module_migrations connection_inv_def split: if_splits sum.splits)
  qed
qed

lemma connection_enter_keeps:
  assumes "connection_inv m files s" and "connection_enter files reached lent s = (r, s')"
  shows "connection_inv m files s' \<and> (\<forall>u. r = Inr u \<longrightarrow> pc_pool (fst s') \<and> up_to_date (module_table m) files (snd s'))"
proof -
  obtain r1 s1 where e: "ensure_migrations files reached s = (r1, s1)" by (metis prod.exhaust)
  note k = ensure_migrations_keeps [OF assms(1) e]
  from assms(2) e have "s' = s1" by (auto simp: connection_enter_def split: sum.splits if_splits)
  with k assms(2) e show ?thesis by (auto simp: connection_enter_def split: sum.splits if_splits)
qed

lemma connection_step_keeps:
  assumes "connection_inv m files s"
  shows "connection_inv m files (snd (connection_step files step s))"
proof (cases step)
  case (Enter reached lent)
  obtain r s' where "connection_enter files reached lent s = (r, s')" by (metis prod.exhaust)
  with connection_enter_keeps [OF assms this] Enter show ?thesis by (cases s) simp
qed (use assms in \<open>cases s; auto simp: connection_open_def connection_close_def connection_inv_def split: sum.splits prod.splits if_splits\<close>)+

lemma connection_steps_keep: "connection_inv m files s \<Longrightarrow> connection_inv m files (connection_steps files steps s)"
proof (induction steps arbitrary: s)
  case (Cons step steps)
  from Cons.IH [OF connection_step_keeps [OF Cons.prems]] show ?case by (simp add: connection_steps_def)
qed (simp add: connection_steps_def)

text \<open>
  C36. Whatever a database object went through (its pool opened and released, connections
  asked for, with errors of the driver and of migrations at any point), a connection is
  lent only from an open pool and only when every migration of its module is recorded;
  asking again then leaves the tables and the recorded versions as they are.
\<close>

theorem connections_find_the_schema:
  assumes "connection_steps files steps (new_connection m dsn, d0) = s"
    and "connection_enter files reached lent s = (Inr u, c, d)"
  shows "pc_pool c \<and> up_to_date (module_table m) files d \<and> connection_enter files reached' (Inr ()) (c, d) = (Inr (), c, d)
    \<and> (\<exists>d'. apply_module_migrations m files d = (Inr (), d') \<and> sd_tables d' = sd_tables d
         \<and> (\<forall>t. applied_versions t d' = applied_versions t d))"
proof -
  have i: "connection_inv m files s"
    unfolding assms(1) [symmetric] by (rule connection_steps_keep) (simp add: connection_inv_def new_connection_def)
  note k = connection_enter_keeps [OF i assms(2)]
  have a: "pc_migrations_applied c"
    using assms(2) by (cases s) (auto simp: connection_enter_def ensure_migrations_def split: if_splits sum.splits prod.splits)
  with k have "connection_enter files reached' (Inr ()) (c, d) = (Inr (), c, d)"
    by (simp add: connection_enter_def ensure_migrations_def)
  with k migrate_again [of "module_table m" files d] show ?thesis by (simp add: apply_module_migrations)
qed

definition sample_files :: "nat list migration list" where
  "sample_files = [(''002_b'', \<lambda>t. if 1 \<in> set t then Some (t @ [2]) else None), (''001_a'', \<lambda>t. Some (t @ [1]))]"

definition no_schema :: "nat list schema" where
  "no_schema = \<lparr>sd_versions = Map.empty, sd_tables = []\<rparr>"

theorem connections_find_the_schema_witness:
  "\<exists>c d. connection_enter sample_files (Inr ()) (Inr ()) (connection_steps sample_files [OpenPool (Inr ())]
        (new_connection MemoryDatabase ''dsn'', no_schema)) = (Inr (), c, d) \<and> sd_tables d = [1, 2]
      \<and> connection_enter sample_files (Inl OverflowError) (Inr ()) (c, d) = (Inr (), c, d)"
proof -
  have sorted: "sorted_migrations sample_files = rev sample_files"
    by (simp add: sorted_migrations_def sample_files_def file_name_def)
  obtain c d where e: "connection_enter sample_files (Inr ()) (Inr ()) (connection_steps sample_files [OpenPool (Inr ())]
        (new_connection MemoryDatabase ''dsn'', no_schema)) = (Inr (), c, d)" and t: "sd_tables d = [1, 2]"
    by (simp add: connection_steps_def connection_open_def new_connection_def connection_enter_def ensure_migrations_def
        apply_migrations_def migrate_def sorted) (simp add: sample_files_def no_schema_def applied_versions_def Let_def)
  have "connection_enter sample_files (Inl OverflowError) (Inr ()) (c, d) = (Inr (), c, d)"
    using connections_find_the_schema [OF HOL.refl e, of "Inl OverflowError"] by blast
  with e t show ?thesis by blast
qed

end
