(* ===== verification/Composition.thy ===== *)
theory Composition
  imports Auth Connection
begin

text \<open>
  The application runtime (\<open>bootstrap/composition.py\<close>): which objects it holds, how
  \<open>startup\<close> and \<open>shutdown\<close> change them, and which handlers it gives out. Objects with a
  state of their own (database objects, logging publishers) are numbers into the
  \<open>world\<close>; the others are values. Whether opening a pool, connecting the Temporal client
  or closing a pool raises is decided by the arguments \<open>io\<close>.
\<close>

section \<open>Objects\<close>

record 't world =
  wo_connections :: "pg_connection list"
  wo_publishers :: "event_envelope list list"
  wo_schema :: "'t schema"

record io =
  io_opened :: "nat \<Rightarrow> unit res"
  io_connected :: "unit res"
  io_released :: "nat \<Rightarrow> unit res"

datatype runtime_store = PostgresRuntimeStore nat | InMemoryRuntimeStore

datatype snapshot_store = PostgresSnapshotStore nat | DatabaseAsStore runtime_store

datatype temporal_connection = TemporalConnection (tc_address: string) (tc_namespace: string) (tc_tls: bool)

datatype orchestrator_port =
    InMemoryOrchestrator runtime_store
  | TemporalOrchestrator temporal_connection string runtime_store "nat option"

text \<open>The handlers, by what they were constructed with; clocks and identity ports have no state.\<close>

record memory_handler =
  mh_authorize :: "principal_context \<Rightarrow> authorization_request \<Rightarrow> bool res"
  mh_factory :: nat

record inbox_handler =
  ih_store :: nat
  ih_factory :: nat
  ih_extractor_version :: string
  ih_extraction_enabled :: bool
  ih_consumer_name :: string

datatype outbox_publisher = LoggingPublisher nat | InboxPublisher inbox_handler nat

record relay_handler =
  rh_store :: nat
  rh_publisher :: outbox_publisher

record execution_handler =
  eh_authorize :: "principal_context \<Rightarrow> runtime_authorization_request \<Rightarrow> bool res"
  eh_orchestrator :: orchestrator_port

record listing_handler =
  lh_authorize :: "principal_context \<Rightarrow> runtime_authorization_request \<Rightarrow> bool res"
  lh_store :: snapshot_store

record runtime_relay_handler =
  rr_store :: nat
  rr_publisher :: nat

record app_runtime =
  rt_settings :: app_settings
  rt_token_verifier :: "token_verifier option"
  rt_database :: "nat option"
  rt_unit_of_work_factory :: "nat option"
  rt_handler :: "memory_handler option"
  rt_get_claim_handler :: "memory_handler option"
  rt_get_episode_handler :: "memory_handler option"
  rt_list_claims_handler :: "memory_handler option"
  rt_list_episodes_handler :: "memory_handler option"
  rt_inbox_handler :: "inbox_handler option"
  rt_logging_publisher :: nat
  rt_outbox_publisher :: outbox_publisher
  rt_relay_handler :: "relay_handler option"
  rt_logging_runtime_outbox_publisher :: nat
  rt_runtime_relay_handler :: "runtime_relay_handler option"
  rt_runtime_database :: "runtime_store option"
  rt_orchestrator :: "orchestrator_port option"
  rt_temporal_client :: "temporal_connection option"
  rt_start_execution_handler :: "execution_handler option"
  rt_get_execution_snapshot_handler :: "execution_handler option"
  rt_cancel_execution_handler :: "execution_handler option"
  rt_list_executions_handler :: "listing_handler option"
  rt_execution_snapshot_store :: "snapshot_store option"
  rt_runtime_snapshot_writer :: "nat option"
  rt_started :: bool

type_synonym 't app_state = "app_runtime \<times> 't world"

text \<open>Statements that may raise keep what the statements before them changed.\<close>

definition thenS :: "('s \<Rightarrow> unit res \<times> 's) \<Rightarrow> ('s \<Rightarrow> 'b res \<times> 's) \<Rightarrow> 's \<Rightarrow> 'b res \<times> 's" where
  "thenS m k s = (case m s of (Inl e, s') \<Rightarrow> (Inl e, s') | (Inr _, s') \<Rightarrow> k s')"

definition assign :: "('s \<Rightarrow> 's) \<Rightarrow> 's \<Rightarrow> unit res \<times> 's" where
  "assign f s = (Inr (), f s)"

definition memory_enabled :: "app_runtime \<Rightarrow> bool" where
  "memory_enabled rt = md_memory_enabled (as_modules (rt_settings rt))"

definition runtime_enabled :: "app_runtime \<Rightarrow> bool" where
  "runtime_enabled rt = md_runtime_enabled (as_modules (rt_settings rt))"

definition temporal_enabled :: "app_runtime \<Rightarrow> bool" where
  "temporal_enabled rt = tp_enabled (as_temporal (rt_settings rt))"

definition runtime_dsn :: "app_runtime \<Rightarrow> string" where
  "runtime_dsn rt = pg_dsn (as_postgres (rt_settings rt))"

definition new_publisher :: "'t world \<Rightarrow> nat \<times> 't world" where
  "new_publisher w = (length (wo_publishers w), w\<lparr>wo_publishers := wo_publishers w @ [[]]\<rparr>)"

section \<open>Construction\<close>

definition new_runtime :: "app_settings \<Rightarrow> 't world \<Rightarrow> app_runtime res \<times> 't world" where
  "new_runtime settings w = (case create_token_verifier settings of
       Inl e \<Rightarrow> (Inl e, w)
     | Inr verifier \<Rightarrow> (case new_publisher w of (l, w1) \<Rightarrow> (case new_publisher w1 of (k, w2) \<Rightarrow>
         (Inr \<lparr>rt_settings = settings, rt_token_verifier = verifier, rt_database = None, rt_unit_of_work_factory = None,
           rt_handler = None, rt_get_claim_handler = None, rt_get_episode_handler = None, rt_list_claims_handler = None,
           rt_list_episodes_handler = None, rt_inbox_handler = None, rt_logging_publisher = l,
           rt_outbox_publisher = LoggingPublisher l, rt_relay_handler = None, rt_logging_runtime_outbox_publisher = k,
           rt_runtime_relay_handler = None, rt_runtime_database = None, rt_orchestrator = None, rt_temporal_client = None,
           rt_start_execution_handler = None, rt_get_execution_snapshot_handler = None,
           rt_cancel_execution_handler = None, rt_list_executions_handler = None, rt_execution_snapshot_store = None,
           rt_runtime_snapshot_writer = None, rt_started = False\<rparr>, w2))))"

section \<open>Handlers\<close>

text \<open>A handler is constructed when it is first asked for, and kept.\<close>

definition cached :: "(app_runtime \<Rightarrow> 'h option) \<Rightarrow> ('h \<Rightarrow> app_runtime \<Rightarrow> app_runtime) \<Rightarrow> 'h \<Rightarrow> app_runtime \<Rightarrow> 'h res \<times> app_runtime" where
  "cached get put h rt = (case get rt of Some x \<Rightarrow> (Inr x, rt) | None \<Rightarrow> (Inr h, put h rt))"

definition not_started :: exn where
  "not_started = RuntimeError ''application runtime is not started''"

text \<open>The guards of the handlers of the memory module, on the object they need.\<close>

definition with_memory :: "app_runtime \<Rightarrow> 'x option \<Rightarrow> ('x \<Rightarrow> app_runtime \<Rightarrow> 'h res \<times> app_runtime) \<Rightarrow> 'h res \<times> app_runtime" where
  "with_memory rt needed body =
     (if \<not> memory_enabled rt then (Inl (ConfigurationError ''memory_disabled'' ''memory module is disabled''), rt)
      else if \<not> rt_started rt then (Inl not_started, rt)
      else (case needed of None \<Rightarrow> (Inl not_started, rt) | Some x \<Rightarrow> body x rt))"

definition process_inbox_handler :: "app_runtime \<Rightarrow> inbox_handler res \<times> app_runtime" where
  "process_inbox_handler rt = with_memory rt (rt_database rt) (\<lambda>database rt.
     case rt_inbox_handler rt of
       Some h \<Rightarrow> (Inr h, rt)
     | None \<Rightarrow> (case rt_unit_of_work_factory rt of
         None \<Rightarrow> (Inl (RuntimeError ''memory unit of work factory is not configured''), rt)
       | Some factory \<Rightarrow>
           let h = \<lparr>ih_store = database, ih_factory = factory,
                 ih_extractor_version = cx_extractor_version (as_claim_extraction (rt_settings rt)),
                 ih_extraction_enabled = cx_enabled (as_claim_extraction (rt_settings rt)),
                 ih_consumer_name = ib_consumer_name (as_inbox (rt_settings rt))\<rparr>
           in (Inr h, rt\<lparr>rt_inbox_handler := Some h\<rparr>)))"

definition record_episode_handler :: "app_runtime \<Rightarrow> memory_handler res \<times> app_runtime" where
  "record_episode_handler rt = with_memory rt (rt_unit_of_work_factory rt) (\<lambda>factory.
     cached rt_handler (\<lambda>h rt. rt\<lparr>rt_handler := Some h\<rparr>)
       \<lparr>mh_authorize = create_memory_authorization (rt_settings rt), mh_factory = factory\<rparr>)"

definition get_episode_handler :: "app_runtime \<Rightarrow> memory_handler res \<times> app_runtime" where
  "get_episode_handler rt = with_memory rt (rt_unit_of_work_factory rt) (\<lambda>factory.
     cached rt_get_episode_handler (\<lambda>h rt. rt\<lparr>rt_get_episode_handler := Some h\<rparr>)
       \<lparr>mh_authorize = create_memory_authorization (rt_settings rt), mh_factory = factory\<rparr>)"

definition list_episodes_handler :: "app_runtime \<Rightarrow> memory_handler res \<times> app_runtime" where
  "list_episodes_handler rt = with_memory rt (rt_unit_of_work_factory rt) (\<lambda>factory.
     cached rt_list_episodes_handler (\<lambda>h rt. rt\<lparr>rt_list_episodes_handler := Some h\<rparr>)
       \<lparr>mh_authorize = create_memory_authorization (rt_settings rt), mh_factory = factory\<rparr>)"

definition get_claim_handler :: "app_runtime \<Rightarrow> memory_handler res \<times> app_runtime" where
  "get_claim_handler rt = with_memory rt (rt_unit_of_work_factory rt) (\<lambda>factory.
     cached rt_get_claim_handler (\<lambda>h rt. rt\<lparr>rt_get_claim_handler := Some h\<rparr>)
       \<lparr>mh_authorize = create_memory_authorization (rt_settings rt), mh_factory = factory\<rparr>)"

definition list_claims_handler :: "app_runtime \<Rightarrow> memory_handler res \<times> app_runtime" where
  "list_claims_handler rt = with_memory rt (rt_unit_of_work_factory rt) (\<lambda>factory.
     cached rt_list_claims_handler (\<lambda>h rt. rt\<lparr>rt_list_claims_handler := Some h\<rparr>)
       \<lparr>mh_authorize = create_memory_authorization (rt_settings rt), mh_factory = factory\<rparr>)"

definition relay_outbox_handler :: "app_runtime \<Rightarrow> relay_handler res \<times> app_runtime" where
  "relay_outbox_handler rt = with_memory rt (rt_database rt) (\<lambda>database rt.
     if \<not> rl_enabled (as_outbox_relay (rt_settings rt))
     then (Inl (ConfigurationError ''outbox_relay_disabled'' ''outbox relay is disabled''), rt)
     else cached rt_relay_handler (\<lambda>h rt. rt\<lparr>rt_relay_handler := Some h\<rparr>)
       \<lparr>rh_store = database, rh_publisher = rt_outbox_publisher rt\<rparr> rt)"

definition with_runtime :: "app_runtime \<Rightarrow> 'x option \<Rightarrow> ('x \<Rightarrow> app_runtime \<Rightarrow> 'h res \<times> app_runtime) \<Rightarrow> 'h res \<times> app_runtime" where
  "with_runtime rt needed body =
     (if \<not> runtime_enabled rt then (Inl (ConfigurationError ''runtime_disabled'' ''runtime module is disabled''), rt)
      else if rt_orchestrator rt = None then (Inl not_started, rt)
      else (case needed of None \<Rightarrow> (Inl not_started, rt) | Some x \<Rightarrow> body x rt))"

definition start_execution_handler :: "app_runtime \<Rightarrow> execution_handler res \<times> app_runtime" where
  "start_execution_handler rt = with_runtime rt (rt_orchestrator rt) (\<lambda>orch.
     cached rt_start_execution_handler (\<lambda>h rt. rt\<lparr>rt_start_execution_handler := Some h\<rparr>)
       \<lparr>eh_authorize = create_runtime_authorization (rt_settings rt), eh_orchestrator = orch\<rparr>)"

definition get_execution_snapshot_handler :: "app_runtime \<Rightarrow> execution_handler res \<times> app_runtime" where
  "get_execution_snapshot_handler rt = with_runtime rt (rt_orchestrator rt) (\<lambda>orch.
     cached rt_get_execution_snapshot_handler (\<lambda>h rt. rt\<lparr>rt_get_execution_snapshot_handler := Some h\<rparr>)
       \<lparr>eh_authorize = create_runtime_authorization (rt_settings rt), eh_orchestrator = orch\<rparr>)"

definition cancel_execution_handler :: "app_runtime \<Rightarrow> execution_handler res \<times> app_runtime" where
  "cancel_execution_handler rt = with_runtime rt (rt_orchestrator rt) (\<lambda>orch.
     cached rt_cancel_execution_handler (\<lambda>h rt. rt\<lparr>rt_cancel_execution_handler := Some h\<rparr>)
       \<lparr>eh_authorize = create_runtime_authorization (rt_settings rt), eh_orchestrator = orch\<rparr>)"

definition list_executions_handler :: "app_runtime \<Rightarrow> listing_handler res \<times> app_runtime" where
  "list_executions_handler rt = with_runtime rt (rt_execution_snapshot_store rt) (\<lambda>store.
     cached rt_list_executions_handler (\<lambda>h rt. rt\<lparr>rt_list_executions_handler := Some h\<rparr>)
       \<lparr>lh_authorize = create_runtime_authorization (rt_settings rt), lh_store = store\<rparr>)"

definition relay_runtime_outbox_handler :: "app_runtime \<Rightarrow> runtime_relay_handler res \<times> app_runtime" where
  "relay_runtime_outbox_handler rt = with_runtime rt (rt_runtime_database rt) (\<lambda>database rt.
     if \<not> rl_enabled (as_runtime_outbox_relay (rt_settings rt))
     then (Inl (ConfigurationError ''runtime_outbox_relay_disabled'' ''runtime outbox relay is disabled''), rt)
     else (case database of
         InMemoryRuntimeStore \<Rightarrow> (Inl (ConfigurationError ''runtime_outbox_relay_storage_unconfigured''
           ''runtime outbox relay requires postgres runtime database''), rt)
       | PostgresRuntimeStore r \<Rightarrow> cached rt_runtime_relay_handler (\<lambda>h rt. rt\<lparr>rt_runtime_relay_handler := Some h\<rparr>)
           \<lparr>rr_store = r, rr_publisher = rt_logging_runtime_outbox_publisher rt\<rparr> rt))"

section \<open>Startup\<close>

text \<open>A new database object, and its \<open>open()\<close>.\<close>

definition add_connection :: "pg_module \<Rightarrow> string \<Rightarrow> 't world \<Rightarrow> nat \<times> 't world" where
  "add_connection m dsn w = (length (wo_connections w), w\<lparr>wo_connections := wo_connections w @ [new_connection m dsn]\<rparr>)"

definition open_connection :: "io \<Rightarrow> nat \<Rightarrow> 't world \<Rightarrow> unit res \<times> 't world" where
  "open_connection io i w = (case connection_open (io_opened io i) (wo_connections w ! i) of
     (r, c) \<Rightarrow> (r, w\<lparr>wo_connections := (wo_connections w)[i := c]\<rparr>))"

definition startup_memory :: "io \<Rightarrow> 't app_state \<Rightarrow> unit res \<times> 't app_state" where
  "startup_memory io s = (case s of (rt, w) \<Rightarrow>
     if \<not> (memory_enabled rt \<and> \<not> rt_started rt) then (Inr (), rt, w)
     else (case add_connection MemoryDatabase (runtime_dsn rt) w of (database, w0) \<Rightarrow>
       (case open_connection io database w0 of
          (Inl e, w1) \<Rightarrow> (Inl e, rt, w1)
        | (Inr _, w1) \<Rightarrow> (case new_publisher w1 of (l, w2) \<Rightarrow>
            let rt1 = rt\<lparr>rt_database := Some database, rt_unit_of_work_factory := Some database, rt_started := True,
                  rt_logging_publisher := l\<rparr> in
            if ib_enabled (as_inbox (rt_settings rt)) then
              (case process_inbox_handler rt1 of
                 (Inl e, rt2) \<Rightarrow> (Inl e, rt2, w2)
               | (Inr h, rt2) \<Rightarrow> (Inr (), rt2\<lparr>rt_outbox_publisher := InboxPublisher h l\<rparr>, w2))
            else (Inr (), rt1\<lparr>rt_outbox_publisher := LoggingPublisher l\<rparr>, w2)))))"

definition open_runtime_database :: "io \<Rightarrow> 't app_state \<Rightarrow> unit res \<times> 't app_state" where
  "open_runtime_database io s = (case s of (rt, w) \<Rightarrow>
     if rt_database rt \<noteq> None then
       (case add_connection RuntimeDatabase (runtime_dsn rt) w of (r, w0) \<Rightarrow>
        (case open_connection io r w0 of (x, w1) \<Rightarrow> (x, rt\<lparr>rt_runtime_database := Some (PostgresRuntimeStore r)\<rparr>, w1)))
     else if \<not> memory_enabled rt then
       (Inl (ConfigurationError ''runtime_storage_unconfigured'' ''runtime requires postgres.dsn when memory is disabled''), rt, w)
     else (Inr (), rt\<lparr>rt_runtime_database := Some InMemoryRuntimeStore\<rparr>, w))"

definition is_postgres :: "runtime_store option \<Rightarrow> bool" where
  "is_postgres d \<longleftrightarrow> (case d of Some (PostgresRuntimeStore _) \<Rightarrow> True | _ \<Rightarrow> False)"

definition open_snapshot_writer :: "io \<Rightarrow> 't app_state \<Rightarrow> unit res \<times> 't app_state" where
  "open_snapshot_writer io s = (case s of (rt, w) \<Rightarrow>
     if is_postgres (rt_runtime_database rt) \<and> temporal_enabled rt then
       (case add_connection RuntimeDatabase (runtime_dsn rt) w of (r, w0) \<Rightarrow>
        (case open_connection io r w0 of (x, w1) \<Rightarrow> (x, rt\<lparr>rt_runtime_snapshot_writer := Some r\<rparr>, w1)))
     else (Inr (), rt\<lparr>rt_runtime_snapshot_writer := None\<rparr>, w))"

definition choose_snapshot_store :: "app_runtime \<Rightarrow> app_runtime" where
  "choose_snapshot_store rt = rt\<lparr>rt_execution_snapshot_store := (case rt_runtime_database rt of
       Some (PostgresRuntimeStore r) \<Rightarrow> Some (PostgresSnapshotStore r)
     | Some InMemoryRuntimeStore \<Rightarrow> Some (DatabaseAsStore InMemoryRuntimeStore)
     | None \<Rightarrow> None)\<rparr>"

definition connect_temporal :: "io \<Rightarrow> 't app_state \<Rightarrow> unit res \<times> 't app_state" where
  "connect_temporal io s = (case s of (rt, w) \<Rightarrow>
     if \<not> temporal_enabled rt then (Inr (), rt, w)
     else (case io_connected io of
         Inl e \<Rightarrow> (Inl e, rt, w)
       | Inr _ \<Rightarrow> let t = as_temporal (rt_settings rt) in
           (Inr (), rt\<lparr>rt_temporal_client := Some (TemporalConnection (tp_address t) (tp_namespace t) (tp_tls t))\<rparr>, w)))"

definition create_orchestrator :: "app_runtime \<Rightarrow> orchestrator_port res" where
  "create_orchestrator rt = (case rt_runtime_database rt of
       None \<Rightarrow> Inl AssertionError
     | Some database \<Rightarrow>
         if \<not> temporal_enabled rt then Inr (InMemoryOrchestrator database)
         else (case rt_temporal_client rt of
             None \<Rightarrow> Inl AssertionError
           | Some client \<Rightarrow> Inr (TemporalOrchestrator client (tp_task_queue (as_temporal (rt_settings rt))) database
               (rt_runtime_snapshot_writer rt))))"

definition set_orchestrator :: "'t app_state \<Rightarrow> unit res \<times> 't app_state" where
  "set_orchestrator s = (case s of (rt, w) \<Rightarrow> (case create_orchestrator rt of
       Inl e \<Rightarrow> (Inl e, rt, w) | Inr orch \<Rightarrow> (Inr (), rt\<lparr>rt_orchestrator := Some orch\<rparr>, w)))"

definition startup_runtime :: "io \<Rightarrow> 't app_state \<Rightarrow> unit res \<times> 't app_state" where
  "startup_runtime io s = (case s of (rt, w) \<Rightarrow>
     if \<not> (runtime_enabled rt \<and> rt_orchestrator rt = None) then (Inr (), rt, w)
     else (case new_publisher w of (l, w0) \<Rightarrow>
       thenS (open_runtime_database io)
       (thenS (open_snapshot_writer io)
       (thenS (assign (\<lambda>(rt, w). (choose_snapshot_store rt, w)))
       (thenS (connect_temporal io) set_orchestrator))) (rt\<lparr>rt_logging_runtime_outbox_publisher := l\<rparr>, w0)))"

definition startup :: "io \<Rightarrow> 't app_state \<Rightarrow> unit res \<times> 't app_state" where
  "startup io = thenS (startup_memory io) (startup_runtime io)"

section \<open>Shutdown\<close>

definition close_connection :: "io \<Rightarrow> nat \<Rightarrow> 't world \<Rightarrow> unit res \<times> 't world" where
  "close_connection io i w = (case connection_close (io_released io i) (wo_connections w ! i) of
     (r, c) \<Rightarrow> (r, w\<lparr>wo_connections := (wo_connections w)[i := c]\<rparr>))"

fun close_all :: "io \<Rightarrow> nat list \<Rightarrow> 't world \<Rightarrow> unit res \<times> 't world" where
  "close_all io [] w = (Inr (), w)"
| "close_all io (i # is) w = thenS (close_connection io i) (close_all io is) w"

text \<open>The objects to close, in their order: the snapshot writer, a relational runtime database, the memory database.\<close>

definition held_connections :: "app_runtime \<Rightarrow> nat list" where
  "held_connections rt = (case rt_runtime_snapshot_writer rt of Some i \<Rightarrow> [i] | None \<Rightarrow> [])
     @ (case rt_runtime_database rt of Some (PostgresRuntimeStore i) \<Rightarrow> [i] | _ \<Rightarrow> [])
     @ (case rt_database rt of Some i \<Rightarrow> [i] | None \<Rightarrow> [])"

definition shutdown :: "io \<Rightarrow> 't app_state \<Rightarrow> unit res \<times> 't app_state" where
  "shutdown io s = (case s of (rt, w) \<Rightarrow>
     (case new_publisher w of (l, w1) \<Rightarrow> (case new_publisher w1 of (k, w2) \<Rightarrow> (case new_publisher w2 of (j, w3) \<Rightarrow>
       (case close_all io (held_connections rt) w3 of (r, w4) \<Rightarrow>
         (r, \<lparr>rt_settings = rt_settings rt, rt_token_verifier = rt_token_verifier rt, rt_database = None,
           rt_unit_of_work_factory = None, rt_handler = None, rt_get_claim_handler = None, rt_get_episode_handler = None,
           rt_list_claims_handler = None, rt_list_episodes_handler = None, rt_inbox_handler = None,
           rt_logging_publisher = l, rt_outbox_publisher = LoggingPublisher k, rt_relay_handler = None,
           rt_logging_runtime_outbox_publisher = j, rt_runtime_relay_handler = None, rt_runtime_database = None,
           rt_orchestrator = None, rt_temporal_client = None, rt_start_execution_handler = None,
           rt_get_execution_snapshot_handler = None, rt_cancel_execution_handler = None,
           rt_list_executions_handler = None, rt_execution_snapshot_store = None, rt_runtime_snapshot_writer = None,
           rt_started = False\<rparr>, w4))))))"

section \<open>Readiness\<close>

text \<open>\<open>selected\<close> is what \<open>SELECT 1\<close> returns or raises.\<close>

definition check_ready ::
    "'t migration list \<Rightarrow> unit res \<Rightarrow> unit res \<Rightarrow> unit res \<Rightarrow> 't app_state \<Rightarrow> unit res \<times> 't app_state" where
  "check_ready files reached lent selected s = (case s of (rt, w) \<Rightarrow>
     if \<not> memory_enabled rt then (Inl (ReadinessError ''memory_disabled''), rt, w)
     else (case (rt_started rt, rt_database rt) of
         (True, Some i) \<Rightarrow>
           (case connection_enter files reached lent (wo_connections w ! i, wo_schema w) of (r, c, d) \<Rightarrow>
             ((case bindE r (\<lambda>_. selected) of Inl _ \<Rightarrow> Inl (ReadinessError ''database_unavailable'') | Inr _ \<Rightarrow> Inr ()),
              rt, w\<lparr>wo_connections := (wo_connections w)[i := c], wo_schema := d\<rparr>))
       | _ \<Rightarrow> (Inl (ReadinessError ''runtime_not_started''), rt, w)))"

end
