(* ===== verification/Lifecycle.thy ===== *)
theory Lifecycle
  imports Composition
begin

text \<open>
  What holds of an application runtime in every state that starts, stops, readiness
  checks and requests for handlers lead to: its fields fit together (\<open>coherent\<close>), the
  handlers it keeps are the ones it would construct now, and which pools are open.
\<close>

section \<open>What the runtime holds\<close>

text \<open>The handlers that the runtime would construct now.\<close>

definition memory_handler_on :: "app_settings \<Rightarrow> nat \<Rightarrow> memory_handler" where
  "memory_handler_on st factory = \<lparr>mh_authorize = create_memory_authorization st, mh_factory = factory\<rparr>"

definition inbox_handler_on :: "app_settings \<Rightarrow> nat \<Rightarrow> inbox_handler" where
  "inbox_handler_on st database = \<lparr>ih_store = database, ih_factory = database,
     ih_extractor_version = cx_extractor_version (as_claim_extraction st),
     ih_extraction_enabled = cx_enabled (as_claim_extraction st),
     ih_consumer_name = ib_consumer_name (as_inbox st)\<rparr>"

definition publisher_on :: "app_settings \<Rightarrow> nat \<Rightarrow> nat \<Rightarrow> outbox_publisher" where
  "publisher_on st l database = (if ib_enabled (as_inbox st) then InboxPublisher (inbox_handler_on st database) l else LoggingPublisher l)"

definition relay_handler_on :: "app_settings \<Rightarrow> nat \<Rightarrow> nat \<Rightarrow> relay_handler" where
  "relay_handler_on st l database = \<lparr>rh_store = database, rh_publisher = publisher_on st l database\<rparr>"

definition execution_handler_on :: "app_settings \<Rightarrow> orchestrator_port \<Rightarrow> execution_handler" where
  "execution_handler_on st orch = \<lparr>eh_authorize = create_runtime_authorization st, eh_orchestrator = orch\<rparr>"

definition listing_handler_on :: "app_settings \<Rightarrow> nat \<Rightarrow> listing_handler" where
  "listing_handler_on st r = \<lparr>lh_authorize = create_runtime_authorization st, lh_store = PostgresSnapshotStore r\<rparr>"

definition runtime_relay_on :: "nat \<Rightarrow> nat \<Rightarrow> runtime_relay_handler" where
  "runtime_relay_on l r = \<lparr>rr_store = r, rr_publisher = l\<rparr>"

text \<open>A kept handler is the one that would be constructed now.\<close>

definition kept :: "'h option \<Rightarrow> 'h option \<Rightarrow> bool" where
  "kept h expected \<longleftrightarrow> h = None \<or> h = expected"

definition memory_coherent :: "app_runtime \<Rightarrow> bool" where
  "memory_coherent rt \<longleftrightarrow> rt_unit_of_work_factory rt = rt_database rt \<and> rt_started rt = (rt_database rt \<noteq> None)
     \<and> (rt_database rt \<noteq> None \<longrightarrow> memory_enabled rt)
     \<and> (\<forall>d. rt_database rt = Some d \<longrightarrow> rt_outbox_publisher rt = publisher_on (rt_settings rt) (rt_logging_publisher rt) d)
     \<and> kept (rt_handler rt) (map_option (memory_handler_on (rt_settings rt)) (rt_database rt))
     \<and> kept (rt_get_claim_handler rt) (map_option (memory_handler_on (rt_settings rt)) (rt_database rt))
     \<and> kept (rt_get_episode_handler rt) (map_option (memory_handler_on (rt_settings rt)) (rt_database rt))
     \<and> kept (rt_list_claims_handler rt) (map_option (memory_handler_on (rt_settings rt)) (rt_database rt))
     \<and> kept (rt_list_episodes_handler rt) (map_option (memory_handler_on (rt_settings rt)) (rt_database rt))
     \<and> kept (rt_inbox_handler rt) (map_option (inbox_handler_on (rt_settings rt)) (rt_database rt))
     \<and> kept (rt_relay_handler rt) (map_option (relay_handler_on (rt_settings rt) (rt_logging_publisher rt)) (rt_database rt))"

text \<open>The relational runtime database that the running orchestrator works on.\<close>

definition runtime_number :: "orchestrator_port option \<Rightarrow> runtime_store option \<Rightarrow> nat option" where
  "runtime_number orch database = (case (orch, database) of (Some _, Some (PostgresRuntimeStore r)) \<Rightarrow> Some r | _ \<Rightarrow> None)"

abbreviation running_number :: "app_runtime \<Rightarrow> nat option" where
  "running_number rt \<equiv> runtime_number (rt_orchestrator rt) (rt_runtime_database rt)"

definition runtime_coherent :: "app_runtime \<Rightarrow> bool" where
  "runtime_coherent rt \<longleftrightarrow>
     (rt_runtime_database rt \<noteq> None \<longrightarrow> rt_database rt \<noteq> None) \<and> rt_runtime_database rt \<noteq> Some InMemoryRuntimeStore
     \<and> (rt_runtime_snapshot_writer rt \<noteq> None \<longrightarrow> temporal_enabled rt \<and> rt_runtime_database rt \<noteq> None)
     \<and> (\<forall>orch. rt_orchestrator rt = Some orch \<longrightarrow> runtime_enabled rt \<and> create_orchestrator rt = Inr orch
          \<and> rt_execution_snapshot_store rt = map_option PostgresSnapshotStore (running_number rt)
          \<and> (temporal_enabled rt \<longrightarrow> rt_runtime_snapshot_writer rt \<noteq> None))
     \<and> kept (rt_start_execution_handler rt) (map_option (execution_handler_on (rt_settings rt)) (rt_orchestrator rt))
     \<and> kept (rt_get_execution_snapshot_handler rt) (map_option (execution_handler_on (rt_settings rt)) (rt_orchestrator rt))
     \<and> kept (rt_cancel_execution_handler rt) (map_option (execution_handler_on (rt_settings rt)) (rt_orchestrator rt))
     \<and> kept (rt_list_executions_handler rt) (map_option (listing_handler_on (rt_settings rt)) (running_number rt))
     \<and> kept (rt_runtime_relay_handler rt) (map_option (runtime_relay_on (rt_logging_runtime_outbox_publisher rt)) (running_number rt))"

text \<open>A database object of the world whose pool is open, or at least exists.\<close>

definition has_connection :: "'t world \<Rightarrow> pg_module \<Rightarrow> string \<Rightarrow> nat \<Rightarrow> bool" where
  "has_connection w m dsn i \<longleftrightarrow> i < length (wo_connections w) \<and> pc_module (wo_connections w ! i) = m \<and> pc_dsn (wo_connections w ! i) = dsn"

definition live :: "'t world \<Rightarrow> pg_module \<Rightarrow> string \<Rightarrow> nat \<Rightarrow> bool" where
  "live w m dsn i \<longleftrightarrow> has_connection w m dsn i \<and> pc_pool (wo_connections w ! i)"

definition world_coherent :: "app_runtime \<Rightarrow> 't world \<Rightarrow> bool" where
  "world_coherent rt w \<longleftrightarrow>
     (\<forall>d. rt_database rt = Some d \<longrightarrow> live w MemoryDatabase (runtime_dsn rt) d)
     \<and> (\<forall>r. rt_runtime_database rt = Some (PostgresRuntimeStore r) \<longrightarrow> has_connection w RuntimeDatabase (runtime_dsn rt) r)
     \<and> (\<forall>r. rt_runtime_snapshot_writer rt = Some r \<longrightarrow> has_connection w RuntimeDatabase (runtime_dsn rt) r)
     \<and> (rt_orchestrator rt \<noteq> None \<longrightarrow> (\<forall>r. rt_runtime_database rt = Some (PostgresRuntimeStore r) \<longrightarrow> live w RuntimeDatabase (runtime_dsn rt) r)
          \<and> (\<forall>r. rt_runtime_snapshot_writer rt = Some r \<longrightarrow> live w RuntimeDatabase (runtime_dsn rt) r))"

definition coherent :: "'t app_state \<Rightarrow> bool" where
  "coherent s \<longleftrightarrow> memory_coherent (fst s) \<and> runtime_coherent (fst s) \<and> world_coherent (fst s) (snd s)"

lemma kept_None [simp]: "kept None x"
  by (simp add: kept_def)

lemma kept_same [simp]: "kept x x"
  by (simp add: kept_def)

lemma cached_kept: "kept (get rt) (Some h) \<Longrightarrow> fst (cached get put h rt) = Inr h"
  by (auto simp: cached_def kept_def)

lemma cached_is: "cached get put h rt = (Inr x, rt') \<Longrightarrow> kept (get rt) (Some h) \<Longrightarrow> x = h"
  by (auto simp: cached_def kept_def split: option.splits)

lemmas settings_of = memory_enabled_def runtime_enabled_def temporal_enabled_def runtime_dsn_def

lemma new_runtime_coherent: "new_runtime settings w = (Inr rt, w') \<Longrightarrow> coherent (rt, w') \<and> rt_settings rt = settings"
  by (auto simp: new_runtime_def coherent_def memory_coherent_def runtime_coherent_def world_coherent_def runtime_number_def
      split: sum.splits prod.splits)

lemma shutdown_coherent: "coherent (snd (shutdown io s))"
  by (auto simp: shutdown_def coherent_def memory_coherent_def runtime_coherent_def world_coherent_def runtime_number_def
      split: prod.splits)

section \<open>Asking for handlers\<close>

datatype handler_name =
    RecordEpisode | GetEpisode | ListEpisodes | GetClaim | ListClaims | ProcessInbox | RelayOutbox
  | StartExecution | GetExecution | CancelExecution | ListExecutions | RelayRuntimeOutbox

definition asked :: "'h res \<times> app_runtime \<Rightarrow> unit res \<times> app_runtime" where
  "asked p = (bindE (fst p) (\<lambda>_. Inr ()), snd p)"

fun ask :: "handler_name \<Rightarrow> app_runtime \<Rightarrow> unit res \<times> app_runtime" where
  "ask RecordEpisode rt = asked (record_episode_handler rt)"
| "ask GetEpisode rt = asked (get_episode_handler rt)"
| "ask ListEpisodes rt = asked (list_episodes_handler rt)"
| "ask GetClaim rt = asked (get_claim_handler rt)"
| "ask ListClaims rt = asked (list_claims_handler rt)"
| "ask ProcessInbox rt = asked (process_inbox_handler rt)"
| "ask RelayOutbox rt = asked (relay_outbox_handler rt)"
| "ask StartExecution rt = asked (start_execution_handler rt)"
| "ask GetExecution rt = asked (get_execution_snapshot_handler rt)"
| "ask CancelExecution rt = asked (cancel_execution_handler rt)"
| "ask ListExecutions rt = asked (list_executions_handler rt)"
| "ask RelayRuntimeOutbox rt = asked (relay_runtime_outbox_handler rt)"

text \<open>What asking may change, and to what.\<close>

inductive asks_only :: "app_runtime \<Rightarrow> app_runtime \<Rightarrow> bool" where
  nothing: "asks_only rt rt"
| recording: "rt_database rt = Some d \<Longrightarrow> h = memory_handler_on (rt_settings rt) d \<Longrightarrow> asks_only rt (rt\<lparr>rt_handler := Some h\<rparr>)"
| get_episode: "rt_database rt = Some d \<Longrightarrow> h = memory_handler_on (rt_settings rt) d \<Longrightarrow> asks_only rt (rt\<lparr>rt_get_episode_handler := Some h\<rparr>)"
| list_episodes: "rt_database rt = Some d \<Longrightarrow> h = memory_handler_on (rt_settings rt) d \<Longrightarrow> asks_only rt (rt\<lparr>rt_list_episodes_handler := Some h\<rparr>)"
| get_claim: "rt_database rt = Some d \<Longrightarrow> h = memory_handler_on (rt_settings rt) d \<Longrightarrow> asks_only rt (rt\<lparr>rt_get_claim_handler := Some h\<rparr>)"
| list_claims: "rt_database rt = Some d \<Longrightarrow> h = memory_handler_on (rt_settings rt) d \<Longrightarrow> asks_only rt (rt\<lparr>rt_list_claims_handler := Some h\<rparr>)"
| inbox: "rt_database rt = Some d \<Longrightarrow> i = inbox_handler_on (rt_settings rt) d \<Longrightarrow> asks_only rt (rt\<lparr>rt_inbox_handler := Some i\<rparr>)"
| relay: "rt_database rt = Some d \<Longrightarrow> x = relay_handler_on (rt_settings rt) (rt_logging_publisher rt) d \<Longrightarrow> asks_only rt (rt\<lparr>rt_relay_handler := Some x\<rparr>)"
| start: "rt_orchestrator rt = Some orch \<Longrightarrow> k = execution_handler_on (rt_settings rt) orch \<Longrightarrow> asks_only rt (rt\<lparr>rt_start_execution_handler := Some k\<rparr>)"
| get_execution: "rt_orchestrator rt = Some orch \<Longrightarrow> k = execution_handler_on (rt_settings rt) orch \<Longrightarrow> asks_only rt (rt\<lparr>rt_get_execution_snapshot_handler := Some k\<rparr>)"
| cancel: "rt_orchestrator rt = Some orch \<Longrightarrow> k = execution_handler_on (rt_settings rt) orch \<Longrightarrow> asks_only rt (rt\<lparr>rt_cancel_execution_handler := Some k\<rparr>)"
| list_executions: "running_number rt = Some r \<Longrightarrow> l = listing_handler_on (rt_settings rt) r \<Longrightarrow> asks_only rt (rt\<lparr>rt_list_executions_handler := Some l\<rparr>)"
| runtime_relay: "running_number rt = Some r \<Longrightarrow> m = runtime_relay_on (rt_logging_runtime_outbox_publisher rt) r \<Longrightarrow> asks_only rt (rt\<lparr>rt_runtime_relay_handler := Some m\<rparr>)"

lemma with_memory_cases:
  assumes "with_memory rt needed body = (r, rt')"
  shows "(\<exists>e. r = Inl e \<and> rt' = rt) \<or> (\<exists>x. needed = Some x \<and> rt_started rt \<and> memory_enabled rt \<and> body x rt = (r, rt'))"
  using assms by (auto simp: with_memory_def split: if_splits option.splits)

lemma with_runtime_cases:
  assumes "with_runtime rt needed body = (r, rt')"
  shows "(\<exists>e. r = Inl e \<and> rt' = rt) \<or> (\<exists>x. needed = Some x \<and> rt_orchestrator rt \<noteq> None \<and> runtime_enabled rt \<and> body x rt = (r, rt'))"
  using assms by (auto simp: with_runtime_def split: if_splits option.splits)

lemma with_memory_asks:
  assumes "\<And>x. needed = Some x \<Longrightarrow> rt_started rt \<Longrightarrow> asks_only rt (snd (body x rt))"
  shows "asks_only rt (snd (with_memory rt needed body))"
  using assms by (auto simp: with_memory_def asks_only.nothing split: option.split)

lemma with_runtime_asks:
  assumes "\<And>x. needed = Some x \<Longrightarrow> rt_orchestrator rt \<noteq> None \<Longrightarrow> asks_only rt (snd (body x rt))"
  shows "asks_only rt (snd (with_runtime rt needed body))"
  using assms by (auto simp: with_runtime_def asks_only.nothing split: option.split)

lemma cached_asks: "asks_only rt (put h rt) \<Longrightarrow> asks_only rt (snd (cached get put h rt))"
  by (auto simp: cached_def asks_only.nothing split: option.split)

lemma memory_handlers_ask:
  assumes "rt_unit_of_work_factory rt = rt_database rt"
  shows "asks_only rt (snd (record_episode_handler rt))" "asks_only rt (snd (get_episode_handler rt))"
    "asks_only rt (snd (list_episodes_handler rt))" "asks_only rt (snd (get_claim_handler rt))"
    "asks_only rt (snd (list_claims_handler rt))"
  unfolding record_episode_handler_def get_episode_handler_def list_episodes_handler_def get_claim_handler_def list_claims_handler_def assms
  by (rule with_memory_asks, rule cached_asks, rule asks_only.intros, assumption, simp add: memory_handler_on_def)+

lemma delivery_handlers_ask:
  assumes "memory_coherent rt"
  shows "asks_only rt (snd (process_inbox_handler rt))" "asks_only rt (snd (relay_outbox_handler rt))"
proof -
  show "asks_only rt (snd (process_inbox_handler rt))"
    unfolding process_inbox_handler_def
    by (rule with_memory_asks)
       (use assms in \<open>auto simp: memory_coherent_def Let_def inbox_handler_on_def intro!: asks_only.nothing asks_only.inbox split: option.split\<close>)
  show "asks_only rt (snd (relay_outbox_handler rt))"
    unfolding relay_outbox_handler_def
  proof (rule with_memory_asks)
    fix d assume d: "rt_database rt = Some d"
    then have "\<lparr>rh_store = d, rh_publisher = rt_outbox_publisher rt\<rparr> = relay_handler_on (rt_settings rt) (rt_logging_publisher rt) d"
      using assms by (simp add: memory_coherent_def relay_handler_on_def)
    then show "asks_only rt (snd (if \<not> rl_enabled (as_outbox_relay (rt_settings rt))
        then (Inl (ConfigurationError ''outbox_relay_disabled'' ''outbox relay is disabled''), rt)
        else cached rt_relay_handler (\<lambda>h rt. rt\<lparr>rt_relay_handler := Some h\<rparr>) \<lparr>rh_store = d, rh_publisher = rt_outbox_publisher rt\<rparr> rt))"
      by (simp add: asks_only.nothing cached_asks asks_only.relay [OF d])
  qed
qed

lemma execution_handlers_ask:
  shows "asks_only rt (snd (start_execution_handler rt))" "asks_only rt (snd (get_execution_snapshot_handler rt))"
    "asks_only rt (snd (cancel_execution_handler rt))"
  unfolding start_execution_handler_def get_execution_snapshot_handler_def cancel_execution_handler_def
  by (rule with_runtime_asks, rule cached_asks, rule asks_only.intros, assumption, simp add: execution_handler_on_def)+

lemma runtime_handlers_ask:
  assumes "runtime_coherent rt"
  shows "asks_only rt (snd (list_executions_handler rt))" "asks_only rt (snd (relay_runtime_outbox_handler rt))"
proof -
  show "asks_only rt (snd (list_executions_handler rt))"
    unfolding list_executions_handler_def
  proof (rule with_runtime_asks, rule cached_asks)
    fix x assume x: "rt_execution_snapshot_store rt = Some x" and "rt_orchestrator rt \<noteq> None"
    then have "rt_execution_snapshot_store rt = map_option PostgresSnapshotStore (running_number rt)"
      using assms unfolding runtime_coherent_def by blast
    with x have "map_option PostgresSnapshotStore (running_number rt) = Some x" by simp
    then obtain r where "running_number rt = Some r" "x = PostgresSnapshotStore r" by auto
    then show "asks_only rt (rt\<lparr>rt_list_executions_handler := Some \<lparr>lh_authorize = create_runtime_authorization (rt_settings rt), lh_store = x\<rparr>\<rparr>)"
      by (auto simp: listing_handler_on_def intro: asks_only.list_executions)
  qed
  show "asks_only rt (snd (relay_runtime_outbox_handler rt))"
    unfolding relay_runtime_outbox_handler_def
    by (rule with_runtime_asks)
       (auto simp: asks_only.nothing runtime_number_def runtime_relay_on_def split: runtime_store.split
         intro!: cached_asks asks_only.runtime_relay)
qed

lemma ask_asks_only: "memory_coherent rt \<Longrightarrow> runtime_coherent rt \<Longrightarrow> asks_only rt (snd (ask h rt))"
  by (cases h) (simp_all add: asked_def memory_handlers_ask delivery_handlers_ask execution_handlers_ask runtime_handlers_ask memory_coherent_def)

text \<open>The fields of the handlers do not matter to the orchestrator.\<close>

lemma create_orchestrator_cong:
  assumes "rt_settings rt' = rt_settings rt" "rt_runtime_database rt' = rt_runtime_database rt"
    "rt_temporal_client rt' = rt_temporal_client rt" "rt_runtime_snapshot_writer rt' = rt_runtime_snapshot_writer rt"
  shows "create_orchestrator rt' = create_orchestrator rt"
  unfolding create_orchestrator_def temporal_enabled_def assms ..

text \<open>What asking leaves as it is.\<close>

lemma asks_only_keeps:
  assumes "asks_only rt rt'"
  shows "rt_settings rt' = rt_settings rt" "rt_database rt' = rt_database rt" "rt_unit_of_work_factory rt' = rt_unit_of_work_factory rt"
    "rt_started rt' = rt_started rt" "rt_outbox_publisher rt' = rt_outbox_publisher rt" "rt_logging_publisher rt' = rt_logging_publisher rt"
    "rt_logging_runtime_outbox_publisher rt' = rt_logging_runtime_outbox_publisher rt"
    "rt_runtime_database rt' = rt_runtime_database rt" "rt_orchestrator rt' = rt_orchestrator rt"
    "rt_temporal_client rt' = rt_temporal_client rt" "rt_runtime_snapshot_writer rt' = rt_runtime_snapshot_writer rt"
    "rt_execution_snapshot_store rt' = rt_execution_snapshot_store rt" "rt_token_verifier rt' = rt_token_verifier rt"
  using assms by (cases; simp)+

lemma asks_only_memory:
  assumes "asks_only rt rt'" and "memory_coherent rt"
  shows "memory_coherent rt'"
  using assms(1)
proof cases
qed (use assms(2) in \<open>simp_all add: memory_coherent_def settings_of\<close>)

lemma asks_only_runtime:
  assumes "asks_only rt rt'" and "runtime_coherent rt"
  shows "runtime_coherent rt'"
proof -
  have c: "create_orchestrator rt' = create_orchestrator rt"
    by (rule create_orchestrator_cong) (simp_all add: asks_only_keeps [OF assms(1)])
  from assms(1) show ?thesis
  proof cases
  qed (use assms(2) c in \<open>simp_all add: runtime_coherent_def settings_of\<close>)
qed

lemma asks_only_coherent:
  assumes "asks_only rt rt'" and "coherent (rt, w)"
  shows "coherent (rt', w)"
  using assms asks_only_memory [OF assms(1)] asks_only_runtime [OF assms(1)] asks_only_keeps [OF assms(1)]
  by (simp add: coherent_def world_coherent_def runtime_dsn_def)

lemma ask_coherent: "coherent (rt, w) \<Longrightarrow> coherent (snd (ask h rt), w)"
  by (rule asks_only_coherent [OF ask_asks_only]) (simp_all add: coherent_def)

section \<open>Starting\<close>

definition extends :: "'t world \<Rightarrow> 't world \<Rightarrow> bool" where
  "extends w w' \<longleftrightarrow> (\<exists>cs. wo_connections w' = wo_connections w @ cs)"

lemma extends_refl [simp]: "extends w w"
  by (simp add: extends_def)

lemma extends_trans: "extends a b \<Longrightarrow> extends b c \<Longrightarrow> extends a c"
  by (auto simp: extends_def)

lemma extends_live: "extends w w' \<Longrightarrow> live w m dsn i \<Longrightarrow> live w' m dsn i"
  by (auto simp: extends_def live_def has_connection_def nth_append)

lemma extends_has: "extends w w' \<Longrightarrow> has_connection w m dsn i \<Longrightarrow> has_connection w' m dsn i"
  by (auto simp: extends_def has_connection_def nth_append)

lemma new_publisher_connections: "new_publisher w = (l, w') \<Longrightarrow> wo_connections w' = wo_connections w \<and> wo_schema w' = wo_schema w"
  by (auto simp: new_publisher_def)

lemma new_publisher_extends: "new_publisher w = (l, w') \<Longrightarrow> extends w w'"
  by (auto simp: new_publisher_def extends_def)

text \<open>A new database object: it is live exactly when its pool could be opened.\<close>

lemma open_added:
  assumes "add_connection m dsn w = (i, w0)" and "open_connection io i w0 = (r, w1)"
  shows "i = length (wo_connections w) \<and> r = io_opened io i
    \<and> wo_connections w1 = wo_connections w @ [(new_connection m dsn)\<lparr>pc_pool := (r = Inr ())\<rparr>]
    \<and> has_connection w1 m dsn i \<and> (\<forall>u. r = Inr u \<longrightarrow> live w1 m dsn i) \<and> extends w w1"
proof -
  have e: "i = length (wo_connections w)" "w0 = w\<lparr>wo_connections := wo_connections w @ [new_connection m dsn]\<rparr>"
    using assms(1) by (auto simp: add_connection_def)
  have "r = io_opened io i \<and> wo_connections w1 = wo_connections w @ [(new_connection m dsn)\<lparr>pc_pool := (r = Inr ())\<rparr>]"
    using assms(2) by (cases "io_opened io i") (auto simp: open_connection_def e connection_open_def new_connection_def)
  with e show ?thesis by (auto simp: has_connection_def live_def extends_def new_connection_def)
qed

lemma stopped:
  assumes "coherent (rt, w)" and "\<not> rt_started rt"
  shows "rt_database rt = None" "rt_runtime_database rt = None" "rt_orchestrator rt = None" "rt_runtime_snapshot_writer rt = None"
    "rt_handler rt = None" "rt_get_claim_handler rt = None" "rt_get_episode_handler rt = None" "rt_list_claims_handler rt = None"
    "rt_list_episodes_handler rt = None" "rt_inbox_handler rt = None" "rt_relay_handler rt = None"
    "rt_start_execution_handler rt = None" "rt_get_execution_snapshot_handler rt = None" "rt_cancel_execution_handler rt = None"
    "rt_list_executions_handler rt = None" "rt_runtime_relay_handler rt = None"
proof -
  have m: "memory_coherent rt" and r: "runtime_coherent rt" using assms(1) by (simp_all add: coherent_def)
  show d: "rt_database rt = None" using m assms(2) by (simp add: memory_coherent_def)
  show rd: "rt_runtime_database rt = None" using r d by (auto simp: runtime_coherent_def)
  show o: "rt_orchestrator rt = None"
    using r rd by (cases "rt_orchestrator rt") (auto simp: runtime_coherent_def create_orchestrator_def)
  show "rt_runtime_snapshot_writer rt = None" using r rd by (auto simp: runtime_coherent_def)
  show "rt_handler rt = None" "rt_get_claim_handler rt = None" "rt_get_episode_handler rt = None" "rt_list_claims_handler rt = None"
    "rt_list_episodes_handler rt = None" "rt_inbox_handler rt = None" "rt_relay_handler rt = None"
    using m d by (simp_all add: memory_coherent_def kept_def)
  show "rt_start_execution_handler rt = None" "rt_get_execution_snapshot_handler rt = None" "rt_cancel_execution_handler rt = None"
    "rt_list_executions_handler rt = None" "rt_runtime_relay_handler rt = None"
    using r o by (simp_all add: runtime_coherent_def kept_def runtime_number_def)
qed

lemma startup_memory_coherent:
  assumes "coherent (rt, w)" and "startup_memory io (rt, w) = (r, rt', w')"
  shows "coherent (rt', w') \<and> rt_settings rt' = rt_settings rt \<and> (\<forall>u. r = Inr u \<longrightarrow> memory_enabled rt' \<longrightarrow> rt_started rt')"
proof (cases "memory_enabled rt \<and> \<not> rt_started rt")
  case False
  with assms show ?thesis by (auto simp: startup_memory_def)
next
  case True
  note off = stopped [OF assms(1) conjunct2 [OF True]]
  obtain d w0 where a: "add_connection MemoryDatabase (runtime_dsn rt) w = (d, w0)" by fastforce
  obtain x w1 where b: "open_connection io d w0 = (x, w1)" by fastforce
  obtain l w2 where c: "new_publisher w1 = (l, w2)" by fastforce
  note new = open_added [OF a b]
  show ?thesis
  proof (cases x)
    case (Inl e)
    then have "rt' = rt" "w' = w1" "r = Inl e" using assms(2) True a b by (auto simp: startup_memory_def)
    with assms(1) off show ?thesis by (simp add: coherent_def world_coherent_def)
  next
    case (Inr u)
    with new have "live w1 MemoryDatabase (runtime_dsn rt) d" by blast
    then have "live w2 MemoryDatabase (runtime_dsn rt) d" using new_publisher_extends [OF c] extends_live by blast
    with assms True a b c Inr off show ?thesis
      by (auto simp: startup_memory_def Let_def process_inbox_handler_def with_memory_def coherent_def memory_coherent_def
          runtime_coherent_def world_coherent_def publisher_on_def inbox_handler_on_def runtime_number_def settings_of kept_def
          split: if_splits)
  qed
qed

text \<open>While the runtime part starts there is no orchestrator, and no handler of its module.\<close>

definition preparing :: "app_settings \<Rightarrow> nat option \<Rightarrow> app_runtime \<Rightarrow> 't world \<Rightarrow> bool" where
  "preparing st database rt w \<longleftrightarrow> coherent (rt, w) \<and> rt_orchestrator rt = None \<and> rt_settings rt = st \<and> rt_database rt = database"

definition has_store :: "app_runtime \<Rightarrow> 't world \<Rightarrow> bool" where
  "has_store rt w \<longleftrightarrow> (\<exists>r. rt_runtime_database rt = Some (PostgresRuntimeStore r) \<and> live w RuntimeDatabase (runtime_dsn rt) r)"

definition has_writer :: "app_runtime \<Rightarrow> 't world \<Rightarrow> bool" where
  "has_writer rt w \<longleftrightarrow> (temporal_enabled rt \<longrightarrow> rt_runtime_snapshot_writer rt \<noteq> None)
     \<and> (\<forall>r. rt_runtime_snapshot_writer rt = Some r \<longrightarrow> live w RuntimeDatabase (runtime_dsn rt) r)"

lemma memory_coherent_off [simp]:
  "memory_coherent (rt\<lparr>rt_runtime_database := a\<rparr>) = memory_coherent rt"
  "memory_coherent (rt\<lparr>rt_runtime_snapshot_writer := b\<rparr>) = memory_coherent rt"
  "memory_coherent (rt\<lparr>rt_execution_snapshot_store := c\<rparr>) = memory_coherent rt"
  "memory_coherent (rt\<lparr>rt_temporal_client := t\<rparr>) = memory_coherent rt"
  "memory_coherent (rt\<lparr>rt_logging_runtime_outbox_publisher := l\<rparr>) = memory_coherent rt"
  "memory_coherent (rt\<lparr>rt_orchestrator := o'\<rparr>) = memory_coherent rt"
  by (simp_all add: memory_coherent_def memory_enabled_def)

lemma preparing_iff:
  "preparing st d rt w \<longleftrightarrow> rt_orchestrator rt = None \<and> rt_settings rt = st \<and> rt_database rt = d \<and> memory_coherent rt
     \<and> (rt_runtime_database rt \<noteq> None \<longrightarrow> d \<noteq> None) \<and> rt_runtime_database rt \<noteq> Some InMemoryRuntimeStore
     \<and> (rt_runtime_snapshot_writer rt \<noteq> None \<longrightarrow> tp_enabled (as_temporal st) \<and> rt_runtime_database rt \<noteq> None)
     \<and> rt_start_execution_handler rt = None \<and> rt_get_execution_snapshot_handler rt = None \<and> rt_cancel_execution_handler rt = None
     \<and> rt_list_executions_handler rt = None \<and> rt_runtime_relay_handler rt = None
     \<and> (\<forall>i. d = Some i \<longrightarrow> live w MemoryDatabase (pg_dsn (as_postgres st)) i)
     \<and> (\<forall>r. rt_runtime_database rt = Some (PostgresRuntimeStore r) \<longrightarrow> has_connection w RuntimeDatabase (pg_dsn (as_postgres st)) r)
     \<and> (\<forall>r. rt_runtime_snapshot_writer rt = Some r \<longrightarrow> has_connection w RuntimeDatabase (pg_dsn (as_postgres st)) r)"
proof (cases "rt_orchestrator rt")
  case None
  then have "runtime_coherent rt \<longleftrightarrow> (rt_runtime_database rt \<noteq> None \<longrightarrow> rt_database rt \<noteq> None)
     \<and> rt_runtime_database rt \<noteq> Some InMemoryRuntimeStore
     \<and> (rt_runtime_snapshot_writer rt \<noteq> None \<longrightarrow> temporal_enabled rt \<and> rt_runtime_database rt \<noteq> None)
     \<and> rt_start_execution_handler rt = None \<and> rt_get_execution_snapshot_handler rt = None \<and> rt_cancel_execution_handler rt = None
     \<and> rt_list_executions_handler rt = None \<and> rt_runtime_relay_handler rt = None"
    by (simp add: runtime_coherent_def kept_def runtime_number_def)
  with None show ?thesis by (auto simp: preparing_def coherent_def world_coherent_def settings_of)
qed (simp add: preparing_def)

lemma preparing_world: "preparing st d rt w \<Longrightarrow> extends w w' \<Longrightarrow> preparing st d rt w'"
  by (auto simp: preparing_def coherent_def world_coherent_def dest: extends_live extends_has)

text \<open>A new object for the runtime database or the snapshot writer, and the other assignments.\<close>

lemma preparing_opens:
  assumes "preparing st d rt w" and "d \<noteq> None" and "has_connection w RuntimeDatabase (runtime_dsn rt) r"
  shows "preparing st d (rt\<lparr>rt_runtime_database := Some (PostgresRuntimeStore r)\<rparr>) w"
    and "temporal_enabled rt \<Longrightarrow> rt_runtime_database rt \<noteq> None \<Longrightarrow> preparing st d (rt\<lparr>rt_runtime_snapshot_writer := Some r\<rparr>) w"
  using assms by (auto simp: preparing_iff settings_of)

lemma preparing_assigns:
  assumes "preparing st d rt w"
  shows "preparing st d (rt\<lparr>rt_runtime_snapshot_writer := None\<rparr>) w" "preparing st d (choose_snapshot_store rt) w"
    "preparing st d (rt\<lparr>rt_temporal_client := c\<rparr>) w" "preparing st d (rt\<lparr>rt_logging_runtime_outbox_publisher := l\<rparr>) w"
  using assms by (auto simp: preparing_iff choose_snapshot_store_def)

lemma open_runtime_database_step:
  assumes "preparing st d rt w" and "memory_enabled rt \<longrightarrow> d \<noteq> None" and "open_runtime_database io (rt, w) = (r, rt', w')"
  shows "preparing st d rt' w' \<and> (\<forall>u. r = Inr u \<longrightarrow> has_store rt' w')"
proof (cases "rt_database rt = None")
  case True
  with assms show ?thesis by (auto simp: open_runtime_database_def preparing_def)
next
  case False
  obtain i w0 where a: "add_connection RuntimeDatabase (runtime_dsn rt) w = (i, w0)" by fastforce
  obtain x w1 where b: "open_connection io i w0 = (x, w1)" by fastforce
  note new = open_added [OF a b]
  have s: "r = x" "rt' = rt\<lparr>rt_runtime_database := Some (PostgresRuntimeStore i)\<rparr>" "w' = w1"
    using assms(3) False a b by (auto simp: open_runtime_database_def)
  have "d \<noteq> None" using False assms(1) by (auto simp: preparing_def)
  with new have "preparing st d rt' w'" unfolding s by (intro preparing_opens(1) [OF preparing_world [OF assms(1)]]) blast+
  moreover have "has_store rt' w'" if "r = Inr u" for u
    using new that unfolding s by (auto simp: has_store_def runtime_dsn_def)
  ultimately show ?thesis by blast
qed

lemma has_store_extends: "has_store rt w \<Longrightarrow> extends w w' \<Longrightarrow> rt_runtime_database rt' = rt_runtime_database rt \<Longrightarrow>
    rt_settings rt' = rt_settings rt \<Longrightarrow> has_store rt' w'"
  by (auto simp: has_store_def runtime_dsn_def dest: extends_live)

lemma open_snapshot_writer_step:
  assumes "preparing st d rt w" and "has_store rt w" and "open_snapshot_writer io (rt, w) = (r, rt', w')"
  shows "preparing st d rt' w' \<and> (\<forall>u. r = Inr u \<longrightarrow> has_store rt' w' \<and> has_writer rt' w')"
proof (cases "temporal_enabled rt")
  case False
  with assms have s: "r = Inr ()" "rt' = rt\<lparr>rt_runtime_snapshot_writer := None\<rparr>" "w' = w"
    by (auto simp: open_snapshot_writer_def)
  show ?thesis unfolding s using preparing_assigns(1) [OF assms(1)] assms(2) False
    by (auto simp: has_store_def has_writer_def settings_of)
next
  case True
  obtain i w0 where a: "add_connection RuntimeDatabase (runtime_dsn rt) w = (i, w0)" by fastforce
  obtain x w1 where b: "open_connection io i w0 = (x, w1)" by fastforce
  note new = open_added [OF a b]
  have s: "r = x" "rt' = rt\<lparr>rt_runtime_snapshot_writer := Some i\<rparr>" "w' = w1"
    using assms(2,3) True a b by (auto simp: open_snapshot_writer_def is_postgres_def has_store_def)
  have db: "rt_runtime_database rt \<noteq> None" using assms(2) by (auto simp: has_store_def)
  then have "d \<noteq> None" using assms(1) by (auto simp: preparing_def coherent_def runtime_coherent_def)
  then have "preparing st d rt' w'" unfolding s using new by (intro preparing_opens(2) [OF preparing_world [OF assms(1)] _ _ True db]) blast+
  moreover have "has_store rt' w'" unfolding s by (rule has_store_extends [OF assms(2)]) (use new in simp_all)
  moreover have "has_writer rt' w'" if "r = Inr u" for u
    using new that unfolding s by (auto simp: has_writer_def runtime_dsn_def temporal_enabled_def)
  ultimately show ?thesis by blast
qed

lemma thenS_cases:
  assumes "thenS m k s = (r, s')"
  shows "(\<exists>e. m s = (Inl e, s') \<and> r = Inl e) \<or> (\<exists>u s1. m s = (Inr u, s1) \<and> k s1 = (r, s'))"
  using assms by (auto simp: thenS_def split: prod.splits sum.splits)

lemma set_orchestrator_step:
  assumes "preparing st d rt w" and "has_store rt w" and "has_writer rt w" and "runtime_enabled rt"
    and "rt_execution_snapshot_store (rt :: app_runtime) = rt_execution_snapshot_store (choose_snapshot_store rt)"
    and "set_orchestrator (rt, w) = (r, rt', w')"
  shows "coherent (rt', w') \<and> rt_settings rt' = st \<and> rt_database rt' = d \<and> (\<forall>u. r = Inr u \<longrightarrow> rt_orchestrator rt' \<noteq> None)"
proof (cases "create_orchestrator rt")
  case (Inl e)
  with assms(1,6) show ?thesis by (auto simp: set_orchestrator_def preparing_def)
next
  case (Inr orch)
  then have s: "r = Inr ()" "rt' = rt\<lparr>rt_orchestrator := Some orch\<rparr>" "w' = w" using assms(6) by (auto simp: set_orchestrator_def)
  obtain i where i: "rt_runtime_database rt = Some (PostgresRuntimeStore i)" "live w RuntimeDatabase (runtime_dsn rt) i"
    using assms(2) by (auto simp: has_store_def)
  have c: "create_orchestrator rt' = Inr orch" unfolding Inr [symmetric] s by (rule create_orchestrator_cong) simp_all
  have st: "rt_execution_snapshot_store rt = Some (PostgresSnapshotStore i)" using assms(5) i by (simp add: choose_snapshot_store_def)
  note p = assms(1) [unfolded preparing_iff]
  have "runtime_coherent rt'"
    using p i st c assms(3,4) unfolding s by (auto simp: runtime_coherent_def runtime_number_def has_writer_def settings_of)
  moreover have "world_coherent rt' w"
    using p i assms(3) unfolding s by (auto simp: world_coherent_def has_writer_def settings_of)
  ultimately show ?thesis using p unfolding s by (simp add: coherent_def)
qed

lemma startup_runtime_coherent:
  assumes "coherent (rt, w)" and "memory_enabled rt \<longrightarrow> rt_started rt" and "startup_runtime io (rt, w) = (r, rt', w')"
  shows "coherent (rt', w') \<and> rt_settings rt' = rt_settings rt \<and> rt_database rt' = rt_database rt
    \<and> (\<forall>u. r = Inr u \<longrightarrow> runtime_enabled rt' \<longrightarrow> rt_orchestrator rt' \<noteq> None)"
proof (cases "runtime_enabled rt \<and> rt_orchestrator rt = None")
  case False
  with assms show ?thesis by (auto simp: startup_runtime_def)
next
  case True
  obtain l w0 where l: "new_publisher w = (l, w0)" by fastforce
  let ?st = "rt_settings rt" and ?d = "rt_database rt" and ?rt0 = "rt\<lparr>rt_logging_runtime_outbox_publisher := l\<rparr>"
  have "preparing ?st ?d rt w" using assms(1) True by (simp add: preparing_def)
  then have p0: "preparing ?st ?d ?rt0 w0" using preparing_world [OF _ new_publisher_extends [OF l]] preparing_assigns(4) by blast
  have m0: "memory_enabled ?rt0 \<longrightarrow> ?d \<noteq> None" using assms(1,2) by (auto simp: settings_of coherent_def memory_coherent_def)
  have finished: "coherent (a, b) \<and> rt_settings a = ?st \<and> rt_database a = ?d" if "preparing ?st ?d a b" for a and b :: "'a world"
    using that by (simp add: preparing_def)
  let ?k4 = "thenS (connect_temporal io) set_orchestrator"
  let ?k3 = "thenS (assign (\<lambda>(rt, w). (choose_snapshot_store rt, w))) ?k4"
  let ?k2 = "thenS (open_snapshot_writer io) ?k3"
  have run: "thenS (open_runtime_database io) ?k2 (?rt0, w0) = (r, rt', w')"
    using assms(3) True l by (simp add: startup_runtime_def)
  obtain r1 rt1 w1 where s1: "open_runtime_database io (?rt0, w0) = (r1, rt1, w1)" by (metis prod.exhaust)
  note p1 = open_runtime_database_step [OF p0 m0 s1]
  show ?thesis
  proof (cases r1)
    case (Inl e)
    with thenS_cases [OF run] s1 have "r = Inl e" "rt' = rt1" "w' = w1" by auto
    with finished [OF conjunct1 [OF p1]] show ?thesis by simp
  next
    case (Inr u)
    with thenS_cases [OF run] s1 have run2: "?k2 (rt1, w1) = (r, rt', w')" by auto
    have h1: "has_store rt1 w1" using p1 Inr by blast
    obtain r2 rt2 w2 where s2: "open_snapshot_writer io (rt1, w1) = (r2, rt2, w2)" by (metis prod.exhaust)
    note p2 = open_snapshot_writer_step [OF conjunct1 [OF p1] h1 s2]
    show ?thesis
    proof (cases r2)
      case (Inl e)
      with thenS_cases [OF run2] s2 have "r = Inl e" "rt' = rt2" "w' = w2" by auto
      with finished [OF conjunct1 [OF p2]] show ?thesis by simp
    next
      case (Inr u)
      with thenS_cases [OF run2] s2 have "?k3 (rt2, w2) = (r, rt', w')" by auto
      then have run4: "?k4 (choose_snapshot_store rt2, w2) = (r, rt', w')" by (simp add: thenS_def assign_def)
      let ?rt3 = "choose_snapshot_store rt2"
      have p3: "preparing ?st ?d ?rt3 w2" using p2 preparing_assigns(2) by blast
      have h3: "has_store ?rt3 w2" "has_writer ?rt3 w2" and e3: "rt_execution_snapshot_store ?rt3 = rt_execution_snapshot_store (choose_snapshot_store ?rt3)"
        using p2 Inr by (auto simp: has_store_def has_writer_def choose_snapshot_store_def settings_of)
      obtain r4 rt4 w4 where s4: "connect_temporal io (?rt3, w2) = (r4, rt4, w4)" by (metis prod.exhaust)
      have k4: "w4 = w2 \<and> (rt4 = ?rt3 \<or> (\<exists>c. rt4 = ?rt3\<lparr>rt_temporal_client := Some c\<rparr>))"
        using s4 by (auto simp: connect_temporal_def Let_def split: if_splits sum.splits)
      then have p4: "preparing ?st ?d rt4 w4" using p3 preparing_assigns(3) by blast
      show ?thesis
      proof (cases r4)
        case (Inl e)
        with thenS_cases [OF run4] s4 have "r = Inl e" "rt' = rt4" "w' = w4" by auto
        with finished [OF p4] show ?thesis by simp
      next
        case (Inr u)
        with thenS_cases [OF run4] s4 have run5: "set_orchestrator (rt4, w4) = (r, rt', w')" by auto
        have "has_store rt4 w4" "has_writer rt4 w4" "runtime_enabled rt4"
          "rt_execution_snapshot_store rt4 = rt_execution_snapshot_store (choose_snapshot_store rt4)"
          using k4 h3 e3 p4 True by (auto simp: has_store_def has_writer_def choose_snapshot_store_def settings_of preparing_def)
        from set_orchestrator_step [OF p4 this run5] show ?thesis by blast
      qed
    qed
  qed
qed

lemma startup_coherent:
  assumes "coherent (rt, w)" and "startup io (rt, w) = (r, rt', w')"
  shows "coherent (rt', w') \<and> rt_settings rt' = rt_settings rt
    \<and> (\<forall>u. r = Inr u \<longrightarrow> (memory_enabled rt' \<longrightarrow> rt_started rt') \<and> (runtime_enabled rt' \<longrightarrow> rt_orchestrator rt' \<noteq> None))"
proof -
  obtain r1 rt1 w1 where s1: "startup_memory io (rt, w) = (r1, rt1, w1)" by (metis prod.exhaust)
  note p1 = startup_memory_coherent [OF assms(1) s1]
  show ?thesis
  proof (cases r1)
    case (Inl e)
    with thenS_cases [OF assms(2) [unfolded startup_def]] s1 p1 show ?thesis by auto
  next
    case (Inr u)
    with thenS_cases [OF assms(2) [unfolded startup_def]] s1 have run: "startup_runtime io (rt1, w1) = (r, rt', w')" by auto
    have m: "memory_enabled rt1 \<longrightarrow> rt_started rt1" using p1 Inr by blast
    note p2 = startup_runtime_coherent [OF conjunct1 [OF p1] m run]
    have "rt_started rt'" if "memory_enabled rt'"
    proof -
      have "memory_enabled rt1" using that p2 by (simp add: memory_enabled_def)
      then have "rt_database rt1 \<noteq> None" using m p1 by (simp add: coherent_def memory_coherent_def)
      then have "rt_database rt' \<noteq> None" using p2 by simp
      then show ?thesis using p2 unfolding coherent_def memory_coherent_def by simp
    qed
    with p1 p2 show ?thesis by simp
  qed
qed

section \<open>The life of a runtime\<close>

datatype lifecycle =
    Startup io
  | Shutdown io
  | CheckReady "unit res" "unit res" "unit res"
  | Ask handler_name

fun runtime_call :: "'t migration list \<Rightarrow> lifecycle \<Rightarrow> 't app_state \<Rightarrow> unit res \<times> 't app_state" where
  "runtime_call files (Startup io) s = startup io s"
| "runtime_call files (Shutdown io) s = shutdown io s"
| "runtime_call files (CheckReady reached lent selected) s = check_ready files reached lent selected s"
| "runtime_call files (Ask h) (rt, w) = (case ask h rt of (r, rt') \<Rightarrow> (r, rt', w))"

definition runtime_calls :: "'t migration list \<Rightarrow> lifecycle list \<Rightarrow> 't app_state \<Rightarrow> 't app_state" where
  "runtime_calls files calls s = fold (\<lambda>call s. snd (runtime_call files call s)) calls s"

lemma ensure_migrations_pool: "ensure_migrations files reached (c, d) = (r, c', d') \<Longrightarrow>
    pc_pool c' = pc_pool c \<and> pc_module c' = pc_module c \<and> pc_dsn c' = pc_dsn c"
  by (auto simp: ensure_migrations_def split: if_splits sum.splits prod.splits)

lemma connection_enter_pool: "connection_enter files reached lent (c, d) = (r, c', d') \<Longrightarrow>
    pc_pool c' = pc_pool c \<and> pc_module c' = pc_module c \<and> pc_dsn c' = pc_dsn c"
  using ensure_migrations_pool [of files reached c d] by (auto simp: connection_enter_def split: if_splits sum.splits prod.splits)

lemma same_pool_live:
  assumes "pc_pool c = pc_pool (wo_connections w ! i)" "pc_module c = pc_module (wo_connections w ! i)" "pc_dsn c = pc_dsn (wo_connections w ! i)"
  shows "has_connection (w\<lparr>wo_connections := (wo_connections w)[i := c], wo_schema := d\<rparr>) m dsn j = has_connection w m dsn j"
    and "live (w\<lparr>wo_connections := (wo_connections w)[i := c], wo_schema := d\<rparr>) m dsn j = live w m dsn j"
  using assms by (cases "i = j"; auto simp: has_connection_def live_def)+

lemma check_ready_coherent:
  assumes "coherent (rt, w)" and "check_ready files reached lent selected (rt, w) = (r, rt', w')"
  shows "coherent (rt', w') \<and> rt' = rt"
proof (cases "memory_enabled rt \<and> rt_started rt \<and> rt_database rt \<noteq> None")
  case False
  with assms show ?thesis by (auto simp: check_ready_def split: if_splits option.splits bool.splits)
next
  case True
  then obtain i where i: "rt_database rt = Some i" by blast
  obtain x c d where e: "connection_enter files reached lent (wo_connections w ! i, wo_schema w) = (x, c, d)" by (metis prod.exhaust)
  have s: "rt' = rt" "w' = w\<lparr>wo_connections := (wo_connections w)[i := c], wo_schema := d\<rparr>"
    using assms(2) True i e by (auto simp: check_ready_def)
  note live = same_pool_live [of c w i, OF _ _ _] connection_enter_pool [OF e]
  with assms(1) show ?thesis unfolding s by (simp add: coherent_def world_coherent_def)
qed

lemma runtime_call_coherent:
  assumes "coherent s"
  shows "coherent (snd (runtime_call files call s)) \<and> rt_settings (fst (snd (runtime_call files call s))) = rt_settings (fst s)"
proof -
  obtain rt w where s: "s = (rt, w)" by fastforce
  obtain r rt' w' where e: "runtime_call files call s = (r, rt', w')" by (metis prod.exhaust)
  show ?thesis
  proof (cases call)
    case (Startup io)
    with startup_coherent assms e s show ?thesis by fastforce
  next
    case (Shutdown io)
    then show ?thesis using shutdown_coherent [of io s] s by (auto simp: shutdown_def split: prod.split)
  next
    case (CheckReady reached lent selected)
    with check_ready_coherent assms e s show ?thesis by fastforce
  next
    case (Ask h)
    have "asks_only rt (snd (ask h rt))" using ask_asks_only assms s by (auto simp: coherent_def)
    then show ?thesis using ask_coherent [of rt w h] assms s Ask asks_only_keeps(1) by (auto split: prod.split)
  qed
qed

lemma runtime_calls_coherent:
  "coherent s \<Longrightarrow> coherent (runtime_calls files calls s) \<and> rt_settings (fst (runtime_calls files calls s)) = rt_settings (fst s)"
proof (induction calls arbitrary: s)
  case (Cons call calls)
  from runtime_call_coherent [OF Cons.prems, of files call]
  have c: "coherent (snd (runtime_call files call s))" "rt_settings (fst (snd (runtime_call files call s))) = rt_settings (fst s)" by blast+
  from Cons.IH [OF c(1)] c(2) show ?case by (simp add: runtime_calls_def)
qed (simp add: runtime_calls_def)

text \<open>A runtime that was constructed with its settings and then used in any way.\<close>

definition lives :: "'t migration list \<Rightarrow> app_settings \<Rightarrow> app_runtime \<Rightarrow> 't world \<Rightarrow> bool" where
  "lives files st rt w \<longleftrightarrow> (\<exists>w0 w1 rt1 calls. new_runtime st w0 = (Inr rt1, w1) \<and> runtime_calls files calls (rt1, w1) = (rt, w))"

lemma lives_coherent: "lives files st rt w \<Longrightarrow> coherent (rt, w) \<and> rt_settings rt = st"
proof -
  assume "lives files st rt w"
  then obtain w0 w1 rt1 calls where n: "new_runtime st w0 = (Inr rt1, w1)" and c: "runtime_calls files calls (rt1, w1) = (rt, w)"
    by (auto simp: lives_def)
  from new_runtime_coherent [OF n] runtime_calls_coherent [of "(rt1, w1)" files calls] c show ?thesis by simp
qed

section \<open>Which handlers there are\<close>

definition memory_names :: "handler_name set" where
  "memory_names = {RecordEpisode, GetEpisode, ListEpisodes, GetClaim, ListClaims, ProcessInbox, RelayOutbox}"

text \<open>What asking gives, by the settings and by which parts run.\<close>

definition ask_result :: "app_settings \<Rightarrow> bool \<Rightarrow> bool \<Rightarrow> handler_name \<Rightarrow> unit res" where
  "ask_result st memory_up runtime_up h =
     (if h \<in> memory_names then
        (if \<not> md_memory_enabled (as_modules st) then Inl (ConfigurationError ''memory_disabled'' ''memory module is disabled'')
         else if \<not> memory_up then Inl not_started
         else raise_if (h = RelayOutbox \<and> \<not> rl_enabled (as_outbox_relay st))
           (ConfigurationError ''outbox_relay_disabled'' ''outbox relay is disabled''))
      else
        (if \<not> md_runtime_enabled (as_modules st) then Inl (ConfigurationError ''runtime_disabled'' ''runtime module is disabled'')
         else if \<not> runtime_up then Inl not_started
         else raise_if (h = RelayRuntimeOutbox \<and> \<not> rl_enabled (as_runtime_outbox_relay st))
           (ConfigurationError ''runtime_outbox_relay_disabled'' ''runtime outbox relay is disabled'')))"

lemma asked_cached [simp]: "fst (asked (cached get put h rt)) = Inr ()"
  by (simp add: asked_def cached_def split: option.split)

lemma asked_error [simp]: "fst (asked (Inl e, rt)) = Inl e"
  by (simp add: asked_def)

lemma asked_memory:
  assumes "memory_coherent rt"
  shows "fst (asked (with_memory rt (rt_database rt) body)) =
    (if \<not> md_memory_enabled (as_modules (rt_settings rt)) then Inl (ConfigurationError ''memory_disabled'' ''memory module is disabled'')
     else if \<not> rt_started rt then Inl not_started else fst (asked (body (the (rt_database rt)) rt)))"
  using assms by (cases "rt_database rt") (auto simp: with_memory_def memory_coherent_def memory_enabled_def)

lemma ask_memory_result:
  assumes "memory_coherent rt" and "h \<in> memory_names"
  shows "fst (ask h rt) = ask_result (rt_settings rt) (rt_started rt) x h"
proof -
  have f: "rt_unit_of_work_factory rt = rt_database rt" using assms(1) by (simp add: memory_coherent_def)
  note defs = record_episode_handler_def get_episode_handler_def list_episodes_handler_def get_claim_handler_def list_claims_handler_def
    f asked_memory [OF assms(1)] ask_result_def memory_names_def
  have inbox: "fst (ask ProcessInbox rt) = ask_result (rt_settings rt) (rt_started rt) x ProcessInbox"
  proof (cases "rt_started rt")
    case True
    then obtain d where d: "rt_database rt = Some d" using assms(1) by (auto simp: memory_coherent_def)
    have "fst (ask ProcessInbox rt) = (if \<not> md_memory_enabled (as_modules (rt_settings rt))
        then Inl (ConfigurationError ''memory_disabled'' ''memory module is disabled'') else Inr ())"
      unfolding ask.simps process_inbox_handler_def asked_memory [OF assms(1)]
      using True by (simp add: d f asked_def Let_def split: option.split)
    with True show ?thesis by (simp add: ask_result_def memory_names_def)
  next
    case False
    then show ?thesis by (simp add: process_inbox_handler_def asked_memory [OF assms(1)] ask_result_def memory_names_def)
  qed
  have relay: "fst (ask RelayOutbox rt) = ask_result (rt_settings rt) (rt_started rt) x RelayOutbox"
    by (simp add: relay_outbox_handler_def asked_memory [OF assms(1)] ask_result_def memory_names_def)
  have "h \<in> {RecordEpisode, GetEpisode, ListEpisodes, GetClaim, ListClaims} \<or> h = ProcessInbox \<or> h = RelayOutbox"
    using assms(2) by (auto simp: memory_names_def)
  moreover have "fst (ask h rt) = ask_result (rt_settings rt) (rt_started rt) x h"
    if "h \<in> {RecordEpisode, GetEpisode, ListEpisodes, GetClaim, ListClaims}"
    using that by (auto simp: defs)
  ultimately show ?thesis using inbox relay by blast
qed

text \<open>A running orchestrator works on a relational database, which its listing reads.\<close>

lemma running:
  assumes "runtime_coherent rt" and "rt_orchestrator rt = Some orch"
  obtains r where "rt_runtime_database rt = Some (PostgresRuntimeStore r)" "rt_execution_snapshot_store rt = Some (PostgresSnapshotStore r)"
    "running_number rt = Some r" "runtime_enabled rt" "create_orchestrator rt = Inr orch" "temporal_enabled rt \<longrightarrow> rt_runtime_snapshot_writer rt \<noteq> None"
proof -
  have c: "create_orchestrator rt = Inr orch" "runtime_enabled rt" "temporal_enabled rt \<longrightarrow> rt_runtime_snapshot_writer rt \<noteq> None"
      "rt_execution_snapshot_store rt = map_option PostgresSnapshotStore (running_number rt)" "rt_runtime_database rt \<noteq> Some InMemoryRuntimeStore"
    using assms unfolding runtime_coherent_def by blast+
  from c(1,5) obtain r where r: "rt_runtime_database rt = Some (PostgresRuntimeStore r)"
    by (cases "rt_runtime_database rt"; cases "the (rt_runtime_database rt)") (auto simp: create_orchestrator_def)
  moreover have "running_number rt = Some r" using r assms(2) by (simp add: runtime_number_def)
  ultimately show thesis using that c by simp
qed

lemma ask_runtime_result:
  assumes "runtime_coherent rt" and "h \<notin> memory_names"
  shows "fst (ask h rt) = ask_result (rt_settings rt) x (rt_orchestrator rt \<noteq> None) h"
proof -
  have h: "h \<in> {StartExecution, GetExecution, CancelExecution, ListExecutions, RelayRuntimeOutbox}"
    using assms(2) by (cases h) (simp_all add: memory_names_def)
  note defs = start_execution_handler_def get_execution_snapshot_handler_def cancel_execution_handler_def list_executions_handler_def
    relay_runtime_outbox_handler_def with_runtime_def ask_result_def memory_names_def runtime_enabled_def
  show ?thesis
  proof (cases "rt_orchestrator rt")
    case None
    with h show ?thesis by (auto simp: defs)
  next
    case (Some orch)
    obtain r where "rt_runtime_database rt = Some (PostgresRuntimeStore r)" "rt_execution_snapshot_store rt = Some (PostgresSnapshotStore r)"
      by (rule running [OF assms(1) Some])
    with h Some show ?thesis by (auto simp: defs)
  qed
qed

lemma ask_results: "coherent (rt, w) \<Longrightarrow> fst (ask h rt) = ask_result (rt_settings rt) (rt_started rt) (rt_orchestrator rt \<noteq> None) h"
  unfolding coherent_def by (cases "h \<in> memory_names") (simp_all only: fst_conv ask_memory_result ask_runtime_result not_False_eq_True)

text \<open>The parts of a disabled module do not matter.\<close>

lemma ask_result_up: "(md_memory_enabled (as_modules st) \<longrightarrow> a) \<Longrightarrow> (md_runtime_enabled (as_modules st) \<longrightarrow> b) \<Longrightarrow>
    ask_result st a b h = ask_result st True True h"
  by (auto simp: ask_result_def)

section \<open>How a start ends\<close>

text \<open>The first step that fails decides; \<open>n\<close> is the number of the next database object.\<close>

definition startup_result :: "app_settings \<Rightarrow> io \<Rightarrow> nat \<Rightarrow> unit res" where
  "startup_result st io n = (let memory = md_memory_enabled (as_modules st) in
     bindE (if memory then io_opened io n else Inr ()) (\<lambda>_.
     if \<not> md_runtime_enabled (as_modules st) then Inr ()
     else if \<not> memory then Inl (ConfigurationError ''runtime_storage_unconfigured'' ''runtime requires postgres.dsn when memory is disabled'')
     else bindE (io_opened io (Suc n)) (\<lambda>_.
       if \<not> tp_enabled (as_temporal st) then Inr ()
       else bindE (io_opened io (Suc (Suc n))) (\<lambda>_. io_connected io))))"

lemma open_added_result:
  "open_connection io (length (wo_connections w)) (w\<lparr>wo_connections := wo_connections w @ [new_connection m dsn]\<rparr>)
     = (io_opened io (length (wo_connections w)),
        w\<lparr>wo_connections := wo_connections w @ [(new_connection m dsn)\<lparr>pc_pool := (io_opened io (length (wo_connections w)) = Inr ())\<rparr>]\<rparr>)"
  by (cases "io_opened io (length (wo_connections w))") (simp_all add: open_connection_def connection_open_def new_connection_def)

lemma startup_runtime_result:
  assumes "rt_orchestrator rt = None" and "md_memory_enabled (as_modules (rt_settings rt)) \<longrightarrow> rt_database rt \<noteq> None"
  shows "fst (startup_runtime io (rt, w)) = (if \<not> md_runtime_enabled (as_modules (rt_settings rt)) then Inr ()
     else if rt_database rt = None
       then Inl (ConfigurationError ''runtime_storage_unconfigured'' ''runtime requires postgres.dsn when memory is disabled'')
     else bindE (io_opened io (length (wo_connections w))) (\<lambda>_.
       if \<not> tp_enabled (as_temporal (rt_settings rt)) then Inr ()
       else bindE (io_opened io (Suc (length (wo_connections w)))) (\<lambda>_. io_connected io)))"
proof (cases "runtime_enabled rt")
  case False
  then show ?thesis by (simp add: startup_runtime_def runtime_enabled_def)
next
  case True
  show ?thesis
  proof (cases "rt_database rt")
    case None
    with True assms show ?thesis
      by (simp add: startup_runtime_def new_publisher_def thenS_def open_runtime_database_def settings_of)
  next
    case (Some d)
    let ?n = "length (wo_connections w)"
    show ?thesis
    proof (cases "io_opened io ?n")
      case (Inl e)
      with True assms Some show ?thesis
        by (simp add: startup_runtime_def new_publisher_def thenS_def open_runtime_database_def settings_of add_connection_def
            open_added_result [of io "w\<lparr>wo_publishers := wo_publishers w @ [[]]\<rparr>", simplified])
    next
      case (Inr u)
      note one = True assms Some Inr
      show ?thesis
      proof (cases "temporal_enabled rt")
        case False
        with one show ?thesis
          by (simp add: startup_runtime_def new_publisher_def thenS_def open_runtime_database_def settings_of add_connection_def
              open_added_result [of io "w\<lparr>wo_publishers := wo_publishers w @ [[]]\<rparr>", simplified] open_snapshot_writer_def assign_def
              choose_snapshot_store_def connect_temporal_def set_orchestrator_def create_orchestrator_def)
      next
        case True
        let ?w2 = "w\<lparr>wo_publishers := wo_publishers w @ [[]], wo_connections := wo_connections w @
          [(new_connection RuntimeDatabase (runtime_dsn rt))\<lparr>pc_pool := True\<rparr>]\<rparr>"
        have two: "open_snapshot_writer io (rt\<lparr>rt_logging_runtime_outbox_publisher := l, rt_runtime_database := Some (PostgresRuntimeStore ?n)\<rparr>, ?w2)
          = (io_opened io (Suc ?n), rt\<lparr>rt_logging_runtime_outbox_publisher := l, rt_runtime_database := Some (PostgresRuntimeStore ?n),
               rt_runtime_snapshot_writer := Some (Suc ?n)\<rparr>,
             snd (open_connection io (Suc ?n) (snd (add_connection RuntimeDatabase (runtime_dsn rt) ?w2))))" for l
          using True open_added_result [of io ?w2 RuntimeDatabase "runtime_dsn rt"]
          by (simp add: open_snapshot_writer_def is_postgres_def add_connection_def settings_of)
        have first: "open_runtime_database io (rt\<lparr>rt_logging_runtime_outbox_publisher := l\<rparr>, w\<lparr>wo_publishers := wo_publishers w @ [[]]\<rparr>)
          = (Inr (), rt\<lparr>rt_logging_runtime_outbox_publisher := l, rt_runtime_database := Some (PostgresRuntimeStore ?n)\<rparr>, ?w2)" for l
          using one open_added_result [of io "w\<lparr>wo_publishers := wo_publishers w @ [[]]\<rparr>" RuntimeDatabase "runtime_dsn rt"]
          by (simp add: open_runtime_database_def add_connection_def settings_of)
        have start: "startup_runtime io (rt, w) = thenS (open_runtime_database io) (thenS (open_snapshot_writer io)
            (thenS (assign (\<lambda>(rt, w). (choose_snapshot_store rt, w))) (thenS (connect_temporal io) set_orchestrator)))
            (rt\<lparr>rt_logging_runtime_outbox_publisher := length (wo_publishers w)\<rparr>, w\<lparr>wo_publishers := wo_publishers w @ [[]]\<rparr>)"
          using one by (simp add: startup_runtime_def new_publisher_def)
        have md: "md_runtime_enabled (as_modules (rt_settings rt))" "tp_enabled (as_temporal (rt_settings rt))"
          using one True by (simp_all add: settings_of)
        show ?thesis
          unfolding start thenS_def first prod.case sum.case two
          using one md by (cases "io_opened io (Suc ?n)"; cases "io_connected io")
            (simp_all add: assign_def choose_snapshot_store_def connect_temporal_def set_orchestrator_def create_orchestrator_def settings_of Let_def)
      qed
    qed
  qed
qed

lemma startup_memory_result:
  assumes "coherent (rt, w)" and "\<not> rt_started rt" and "startup_memory io (rt, w) = (r, rt', w')"
  shows "r = (if memory_enabled rt then io_opened io (length (wo_connections w)) else Inr ())
    \<and> rt_orchestrator rt' = None \<and> rt_settings rt' = rt_settings rt
    \<and> (\<forall>u. r = Inr u \<longrightarrow> (if memory_enabled rt then rt_database rt' \<noteq> None \<and> length (wo_connections w') = Suc (length (wo_connections w))
         else rt' = rt \<and> w' = w))"
proof (cases "memory_enabled rt")
  case False
  with assms stopped [OF assms(1,2)] show ?thesis by (auto simp: startup_memory_def)
next
  case True
  let ?n = "length (wo_connections w)"
  note off = stopped [OF assms(1,2)]
  show ?thesis
  proof (cases "io_opened io ?n")
    case (Inl e)
    with assms(2,3) True off show ?thesis
      by (auto simp: startup_memory_def add_connection_def open_added_result)
  next
    case (Inr u)
    then have "r = Inr () \<and> rt_orchestrator rt' = None \<and> rt_settings rt' = rt_settings rt \<and> rt_database rt' \<noteq> None
        \<and> length (wo_connections w') = Suc ?n"
      using assms(2,3) True off
      by (auto simp: startup_memory_def add_connection_def open_added_result new_publisher_def Let_def process_inbox_handler_def
          with_memory_def settings_of split: if_splits)
    with True Inr show ?thesis by auto
  qed
qed

lemma startup_outcome:
  assumes "coherent (rt, w)" and "\<not> rt_started rt"
  shows "fst (startup io (rt, w)) = startup_result (rt_settings rt) io (length (wo_connections w))"
proof -
  obtain r1 rt1 w1 where s1: "startup_memory io (rt, w) = (r1, rt1, w1)" by (metis prod.exhaust)
  note p = startup_memory_result [OF assms s1]
  have st: "startup io (rt, w) = (case r1 of Inl e \<Rightarrow> (Inl e, rt1, w1) | Inr _ \<Rightarrow> startup_runtime io (rt1, w1))"
    by (simp add: startup_def thenS_def s1)
  show ?thesis
  proof (cases r1)
    case (Inl e)
    have "memory_enabled rt" "io_opened io (length (wo_connections w)) = Inl e"
      using p Inl by (cases "memory_enabled rt"; simp)+
    with st Inl show ?thesis by (simp add: startup_result_def settings_of)
  next
    case (Inr u)
    show ?thesis
    proof (cases "memory_enabled rt")
      case False
      with p Inr have "rt1 = rt" "w1 = w" by auto
      with st Inr False startup_runtime_result [of rt io w] stopped [OF assms]
      show ?thesis by (simp add: startup_result_def settings_of)
    next
      case True
      with p Inr have o: "io_opened io (length (wo_connections w)) = Inr u" "rt_database rt1 \<noteq> None"
        "length (wo_connections w1) = Suc (length (wo_connections w))" "rt_orchestrator rt1 = None" "rt_settings rt1 = rt_settings rt" by auto
      with st Inr True startup_runtime_result [of rt1 io w1]
      show ?thesis by (auto simp: startup_result_def settings_of)
    qed
  qed
qed

section \<open>Which pools stay open\<close>

definition open_pools :: "'t world \<Rightarrow> nat set" where
  "open_pools w = {i. i < length (wo_connections w) \<and> pc_pool (wo_connections w ! i)}"

lemma open_pools_publishers: "new_publisher w = (l, w') \<Longrightarrow> open_pools w' = open_pools w"
  by (auto simp: new_publisher_def open_pools_def)

lemma open_pools_added:
  assumes "add_connection m dsn w = (i, w0)" and "open_connection io i w0 = (r, w1)"
  shows "open_pools w1 \<subseteq> insert i (open_pools w)" "r = Inl e \<Longrightarrow> open_pools w1 = open_pools w"
  using open_added [OF assms] by (auto simp: open_pools_def nth_append new_connection_def split: if_splits)

lemma thenS_inv:
  assumes "thenS m k s = (r, s')" and "\<And>x t. m s = (x, t) \<Longrightarrow> Q t" and "\<And>x t t'. Q t \<Longrightarrow> k t = (x, t') \<Longrightarrow> R t'" and "\<And>t. Q t \<Longrightarrow> R t"
  shows "R s'"
  using thenS_cases [OF assms(1)] assms(2-) by blast

text \<open>Every open pool belongs to an object that the runtime holds.\<close>

definition all_held :: "'t app_state \<Rightarrow> bool" where
  "all_held s \<longleftrightarrow> open_pools (snd s) \<subseteq> set (held_connections (fst s))"

lemma held_set: "set (held_connections rt) = set_option (rt_runtime_snapshot_writer rt) \<union> set_option (rt_database rt)
    \<union> {i. rt_runtime_database rt = Some (PostgresRuntimeStore i)}"
  by (auto simp: held_connections_def split: option.splits runtime_store.splits)

lemma open_runtime_database_held:
  assumes "open_runtime_database io (rt, w) = (r, s')" and "all_held (rt, w)" and "rt_runtime_database rt = None" and "rt_runtime_snapshot_writer rt = None"
  shows "all_held s' \<and> rt_runtime_snapshot_writer (fst s') = None"
proof (cases "rt_database rt = None")
  case True
  with assms show ?thesis by (auto simp: open_runtime_database_def all_held_def held_set split: if_splits)
next
  case False
  obtain i w0 where a: "add_connection RuntimeDatabase (runtime_dsn rt) w = (i, w0)" by fastforce
  obtain x w1 where b: "open_connection io i w0 = (x, w1)" by fastforce
  from assms(1) False a b have "s' = (rt\<lparr>rt_runtime_database := Some (PostgresRuntimeStore i)\<rparr>, w1)" by (auto simp: open_runtime_database_def)
  with open_pools_added(1) [OF a b] assms(2-4) show ?thesis by (auto simp: all_held_def held_set)
qed

lemma open_snapshot_writer_held:
  assumes "open_snapshot_writer io s = (r, s')" and "all_held s" and "rt_runtime_snapshot_writer (fst s) = None"
  shows "all_held s'"
proof (cases "is_postgres (rt_runtime_database (fst s)) \<and> temporal_enabled (fst s)")
  case False
  then have "s' = (fst s, snd s)" using assms by (cases s) (auto simp: open_snapshot_writer_def)
  with assms(2) show ?thesis by simp
next
  case True
  obtain rt w where s: "s = (rt, w)" by fastforce
  obtain i w0 where a: "add_connection RuntimeDatabase (runtime_dsn rt) w = (i, w0)" by fastforce
  obtain x w1 where b: "open_connection io i w0 = (x, w1)" by fastforce
  from assms(1) True a b s have "s' = (rt\<lparr>rt_runtime_snapshot_writer := Some i\<rparr>, w1)" by (auto simp: open_snapshot_writer_def)
  with open_pools_added(1) [OF a b] assms(2,3) s show ?thesis by (auto simp: all_held_def held_set)
qed

lemma other_steps_held:
  "assign (\<lambda>(rt, w). (choose_snapshot_store rt, w)) s = (r, s') \<Longrightarrow> all_held s \<Longrightarrow> all_held s'"
  "connect_temporal io s = (r, s') \<Longrightarrow> all_held s \<Longrightarrow> all_held s'"
  "set_orchestrator s = (r, s') \<Longrightarrow> all_held s \<Longrightarrow> all_held s'"
  by (cases s; auto simp: assign_def choose_snapshot_store_def connect_temporal_def set_orchestrator_def all_held_def held_set Let_def
      split: if_splits sum.splits)+

lemma startup_runtime_held:
  assumes "startup_runtime io (rt, w) = (r, s')" and "all_held (rt, w)" and "rt_runtime_database rt = None" and "rt_runtime_snapshot_writer rt = None"
  shows "all_held s'"
proof (cases "runtime_enabled rt \<and> rt_orchestrator rt = None")
  case False
  with assms show ?thesis by (auto simp: startup_runtime_def)
next
  case True
  obtain l w0 where l: "new_publisher w = (l, w0)" by fastforce
  let ?rt0 = "rt\<lparr>rt_logging_runtime_outbox_publisher := l\<rparr>"
  have run: "thenS (open_runtime_database io) (thenS (open_snapshot_writer io)
      (thenS (assign (\<lambda>(rt, w). (choose_snapshot_store rt, w))) (thenS (connect_temporal io) set_orchestrator))) (?rt0, w0) = (r, s')"
    using assms(1) True l by (simp add: startup_runtime_def)
  have h: "all_held (?rt0, w0)" "rt_runtime_database ?rt0 = None" "rt_runtime_snapshot_writer ?rt0 = None"
    using assms(2-4) open_pools_publishers [OF l] by (auto simp: all_held_def held_set)
  have last: "all_held t'" if "thenS (assign (\<lambda>(rt, w). (choose_snapshot_store rt, w))) (thenS (connect_temporal io) set_orchestrator) t = (x, t')"
      and "all_held t" for x and t t' :: "'a app_state"
  proof (rule thenS_inv [OF that(1), where Q = all_held])
    show "all_held t''" if "assign (\<lambda>(rt, w). (choose_snapshot_store rt, w)) t = (y, t'')" for y t''
      using other_steps_held(1) that \<open>all_held t\<close> by blast
    show "all_held u'" if "all_held u" "thenS (connect_temporal io) set_orchestrator u = (y, u')" for y u u'
      by (rule thenS_inv [OF that(2), where Q = all_held]) (use that(1) other_steps_held in blast)+
  qed
  show ?thesis
  proof (rule thenS_inv [OF run, where Q = "\<lambda>t. all_held t \<and> rt_runtime_snapshot_writer (fst t) = None"])
    show "all_held t \<and> rt_runtime_snapshot_writer (fst t) = None" if "open_runtime_database io (?rt0, w0) = (x, t)" for x t
      using open_runtime_database_held [OF that h] .
    fix x and t t' :: "'a app_state"
    assume h: "all_held t \<and> rt_runtime_snapshot_writer (fst t) = None"
    assume k: "thenS (open_snapshot_writer io) (thenS (assign (\<lambda>(rt, w). (choose_snapshot_store rt, w))) (thenS (connect_temporal io) set_orchestrator)) t = (x, t')"
    show "all_held t'"
    proof (rule thenS_inv [OF k, where Q = all_held])
      show "all_held u" if "open_snapshot_writer io t = (y, u)" for y u
        by (rule open_snapshot_writer_held [OF that conjunct1 [OF h] conjunct2 [OF h]])
    qed (simp_all add: last)
  qed simp
qed

lemma startup_held:
  assumes "coherent (rt, w)" and "\<not> rt_started rt" and "open_pools w = {}" and "startup io (rt, w) = (r, s')"
  shows "all_held s'"
proof -
  note off = stopped [OF assms(1,2)]
  have memory: "all_held t \<and> rt_runtime_database (fst t) = None \<and> rt_runtime_snapshot_writer (fst t) = None"
    if "startup_memory io (rt, w) = (x, t)" for x t
  proof (cases "memory_enabled rt")
    case False
    with that off assms(3) show ?thesis by (auto simp: startup_memory_def all_held_def)
  next
    case True
    obtain d w0 where a: "add_connection MemoryDatabase (runtime_dsn rt) w = (d, w0)" by fastforce
    obtain y w1 where b: "open_connection io d w0 = (y, w1)" by fastforce
    obtain l w2 where c: "new_publisher w1 = (l, w2)" by fastforce
    show ?thesis
    proof (cases y)
      case (Inl e)
      with that True assms(2) a b have "t = (rt, w1)" by (auto simp: startup_memory_def)
      with open_pools_added(2) [OF a b Inl] assms(3) off show ?thesis by (simp add: all_held_def)
    next
      case (Inr u)
      have "fst t = rt' \<longrightarrow> rt_database rt' = Some d \<and> rt_runtime_database rt' = None \<and> rt_runtime_snapshot_writer rt' = None" and "snd t = w2" for rt'
        using that True assms(2) a b c Inr off
        by (auto simp: startup_memory_def Let_def process_inbox_handler_def with_memory_def settings_of split: if_splits)
      with open_pools_added(1) [OF a b] open_pools_publishers [OF c] assms(3) show ?thesis by (auto simp: all_held_def held_set)
    qed
  qed
  show ?thesis
  proof (rule thenS_inv [OF assms(4) [unfolded startup_def]])
    show "all_held t \<and> rt_runtime_database (fst t) = None \<and> rt_runtime_snapshot_writer (fst t) = None"
      if "startup_memory io (rt, w) = (x, t)" for x t using memory [OF that] .
    show "all_held t'" if "all_held t \<and> rt_runtime_database (fst t) = None \<and> rt_runtime_snapshot_writer (fst t) = None"
      and "startup_runtime io t = (x, t')" for x t t'
      using startup_runtime_held [of io "fst t" "snd t" x t'] that by simp
  qed simp
qed

lemma close_connection_open:
  assumes "i < length (wo_connections w)" and "close_connection io i w = (r, w')"
  shows "open_pools w' = open_pools w - {i} \<and> length (wo_connections w') = length (wo_connections w)
    \<and> (io_released io i = Inr () \<longrightarrow> r = Inr ())"
proof (cases "pc_pool (wo_connections w ! i)")
  case False
  then have "w' = w" "r = Inr ()" using assms by (auto simp: close_connection_def connection_close_def)
  with False show ?thesis by (auto simp: open_pools_def)
next
  case True
  with assms show ?thesis
    by (auto simp: close_connection_def connection_close_def open_pools_def nth_list_update split: if_splits)
qed

lemma close_all_open:
  assumes "\<forall>i. io_released io i = Inr ()" and "\<forall>i \<in> set is. i < length (wo_connections w)"
  shows "\<exists>w'. close_all io is w = (Inr (), w') \<and> open_pools w' = open_pools w - set is"
  using assms(2)
proof (induction "is" arbitrary: w)
  case (Cons i js)
  obtain r w1 where c: "close_connection io i w = (r, w1)" by fastforce
  from close_connection_open [OF _ c] Cons.prems assms(1)
  have k: "open_pools w1 = open_pools w - {i}" "length (wo_connections w1) = length (wo_connections w)" "r = Inr ()" by auto
  from Cons.IH [of w1] Cons.prems k(2) obtain w' where "close_all io js w1 = (Inr (), w')" "open_pools w' = open_pools w1 - set js" by auto
  with c k show ?case by (auto simp: thenS_def)
qed simp

lemma held_exist:
  assumes "coherent (rt, w)"
  shows "\<forall>i \<in> set (held_connections rt). i < length (wo_connections w)"
  using assms by (auto simp: held_set coherent_def world_coherent_def live_def has_connection_def)

lemma shutdown_closes:
  assumes "coherent (rt, w)" and "\<forall>i. io_released io i = Inr ()"
  shows "\<exists>rt' w'. shutdown io (rt, w) = (Inr (), rt', w') \<and> open_pools w' = open_pools w - set (held_connections rt)
    \<and> \<not> rt_started rt' \<and> rt_settings rt' = rt_settings rt"
proof -
  obtain l w1 where a: "new_publisher w = (l, w1)" by fastforce
  obtain k w2 where b: "new_publisher w1 = (k, w2)" by fastforce
  obtain j w3 where c: "new_publisher w2 = (j, w3)" by fastforce
  have o: "open_pools w3 = open_pools w" "wo_connections w3 = wo_connections w"
    using a b c open_pools_publishers new_publisher_connections by metis+
  from close_all_open [OF assms(2), of "held_connections rt" w3] held_exist [OF assms(1)] o
  obtain w4 where "close_all io (held_connections rt) w3 = (Inr (), w4)" "open_pools w4 = open_pools w - set (held_connections rt)" by auto
  with a b c show ?thesis by (simp add: shutdown_def)
qed

text \<open>Every start, also one that failed, is followed by a shutdown.\<close>

definition serve_cycles :: "(io \<times> io) list \<Rightarrow> 't app_state \<Rightarrow> 't app_state" where
  "serve_cycles cycles s = fold (\<lambda>(up, down) s. snd (shutdown down (snd (startup up s)))) cycles s"

lemma cycles_release:
  assumes "coherent (rt, w)" and "\<not> rt_started rt" and "open_pools w = {}" and "\<forall>(up, down) \<in> set cycles. \<forall>i. io_released down i = Inr ()"
  shows "open_pools (snd (serve_cycles cycles (rt, w))) = {}"
  using assms
proof (induction cycles arbitrary: rt w)
  case (Cons c cycles)
  obtain up down where c: "c = (up, down)" by fastforce
  obtain r rt1 w1 where s: "startup up (rt, w) = (r, rt1, w1)" by (metis prod.exhaust)
  have k: "coherent (rt1, w1)" using startup_coherent [OF Cons.prems(1) s] by blast
  have h: "open_pools w1 \<subseteq> set (held_connections rt1)" using startup_held [OF Cons.prems(1-3) s] by (simp add: all_held_def)
  have d: "\<forall>i. io_released down i = Inr ()" using Cons.prems(4) c by auto
  from shutdown_closes [OF k d] h obtain rt2 w2 where t: "shutdown down (rt1, w1) = (Inr (), rt2, w2)" "open_pools w2 = {}" "\<not> rt_started rt2"
    by auto
  have "coherent (rt2, w2)" using shutdown_coherent [of down "(rt1, w1)"] t by simp
  from Cons.IH [OF this t(3,2)] Cons.prems(4) s t c show ?case by (simp add: serve_cycles_def)
qed (simp add: serve_cycles_def)

definition empty_world :: "'t schema \<Rightarrow> 't world" where
  "empty_world d = \<lparr>wo_connections = [], wo_publishers = [], wo_schema = d\<rparr>"

lemma new_runtime_world:
  "new_runtime st (empty_world d) = (Inr rt, w) \<Longrightarrow> open_pools w = {} \<and> \<not> rt_started rt \<and> wo_connections w = []"
  by (auto simp: new_runtime_def new_publisher_def empty_world_def open_pools_def split: sum.splits)

section \<open>Sample settings\<close>

definition sample_relay :: relay_settings where
  "sample_relay = \<lparr>rl_enabled = True, rl_batch_size = 50, rl_poll_interval_seconds = Finite 1\<rparr>"

definition sample_settings :: app_settings where
  "sample_settings = \<lparr>as_environment = DEVELOPMENT,
     as_postgres = \<lparr>pg_dsn = ''postgresql://localhost/engram''\<rparr>,
     as_temporal = \<lparr>tp_enabled = True, tp_address = ''localhost:7233'', tp_namespace = ''default'', tp_task_queue = ''q'', tp_tls = False\<rparr>,
     as_telemetry = \<lparr>te_otlp_endpoint = None, te_capture_sensitive_content = False\<rparr>,
     as_modules = \<lparr>md_memory_enabled = True, md_runtime_enabled = True\<rparr>,
     as_http = \<lparr>ht_enabled = True, ht_host = ''127.0.0.1'', ht_port = 8080\<rparr>,
     as_inbox = \<lparr>ib_enabled = True, ib_consumer_name = ''c''\<rparr>,
     as_claim_extraction = \<lparr>cx_enabled = True, cx_extractor_version = ''v1''\<rparr>,
     as_outbox_relay = sample_relay, as_runtime_outbox_relay = sample_relay,
     as_oidc = \<lparr>oi_enabled = False, oi_issuer = [], oi_jwks_uri = [], oi_audience = None, oi_actor_claim = ''sub'',
       oi_tenant_claim = ''tenant_id'', oi_dev_signing_key = None\<rparr>\<rparr>"

definition fine :: io where
  "fine = \<lparr>io_opened = (\<lambda>_. Inr ()), io_connected = Inr (), io_released = (\<lambda>_. Inr ())\<rparr>"

definition no_temporal :: io where
  "no_temporal = fine\<lparr>io_connected := Inl OrchestrationUnavailable\<rparr>"

lemmas runtime_simps = new_runtime_def create_token_verifier_def new_publisher_def empty_world_def startup_def thenS_def
  startup_memory_def add_connection_def open_connection_def new_connection_def connection_open_def process_inbox_handler_def
  with_memory_def startup_runtime_def open_runtime_database_def open_snapshot_writer_def is_postgres_def assign_def
  choose_snapshot_store_def connect_temporal_def set_orchestrator_def create_orchestrator_def settings_of Let_def
  shutdown_def held_connections_def close_connection_def connection_close_def

section \<open>What is given out\<close>

text \<open>An orchestrator that the settings ask for, on open pools of the relational store.\<close>

fun orchestrator_live :: "'t world \<Rightarrow> app_settings \<Rightarrow> orchestrator_port \<Rightarrow> bool" where
  "orchestrator_live w st (InMemoryOrchestrator database) \<longleftrightarrow> \<not> tp_enabled (as_temporal st)
     \<and> (\<exists>r. database = PostgresRuntimeStore r \<and> live w RuntimeDatabase (pg_dsn (as_postgres st)) r)"
| "orchestrator_live w st (TemporalOrchestrator client task_queue database writer) \<longleftrightarrow> tp_enabled (as_temporal st)
     \<and> task_queue = tp_task_queue (as_temporal st)
     \<and> (\<exists>r. database = PostgresRuntimeStore r \<and> live w RuntimeDatabase (pg_dsn (as_postgres st)) r)
     \<and> (\<exists>k. writer = Some k \<and> live w RuntimeDatabase (pg_dsn (as_postgres st)) k)"

lemma memory_gives:
  assumes "memory_coherent rt" and "kept (get rt) (map_option (memory_handler_on (rt_settings rt)) (rt_database rt))"
    and "with_memory rt (rt_unit_of_work_factory rt) (\<lambda>factory. cached get put
      \<lparr>mh_authorize = create_memory_authorization (rt_settings rt), mh_factory = factory\<rparr>) = (Inr h, rt')"
  shows "\<exists>d. h = memory_handler_on (rt_settings rt) d \<and> rt_database rt = Some d"
proof -
  from with_memory_cases [OF assms(3)] assms(1) obtain d where d: "rt_database rt = Some d"
    and c: "cached get put \<lparr>mh_authorize = create_memory_authorization (rt_settings rt), mh_factory = d\<rparr> rt = (Inr h, rt')"
    by (auto simp: memory_coherent_def)
  with cached_kept [of get rt "memory_handler_on (rt_settings rt) d" put] assms(2) show ?thesis by (simp add: memory_handler_on_def)
qed

lemma execution_gives:
  assumes "kept (get rt) (map_option (execution_handler_on (rt_settings rt)) (rt_orchestrator rt))"
    and "with_runtime rt (rt_orchestrator rt) (\<lambda>orch. cached get put
      \<lparr>eh_authorize = create_runtime_authorization (rt_settings rt), eh_orchestrator = orch\<rparr>) = (Inr h, rt')"
  shows "\<exists>orch. h = execution_handler_on (rt_settings rt) orch \<and> rt_orchestrator rt = Some orch"
proof -
  from with_runtime_cases [OF assms(2)] obtain orch where o: "rt_orchestrator rt = Some orch"
    and c: "cached get put \<lparr>eh_authorize = create_runtime_authorization (rt_settings rt), eh_orchestrator = orch\<rparr> rt = (Inr h, rt')"
    by auto
  with cached_kept [of get rt "execution_handler_on (rt_settings rt) orch" put] assms(1) show ?thesis by (simp add: execution_handler_on_def)
qed

lemma memory_accessors:
  assumes "memory_coherent rt"
    and "accessor \<in> {record_episode_handler, get_episode_handler, list_episodes_handler, get_claim_handler, list_claims_handler}"
    and "accessor rt = (Inr h, rt')"
  shows "\<exists>d. h = memory_handler_on (rt_settings rt) d \<and> rt_database rt = Some d"
proof -
  have k: "kept (rt_handler rt) (map_option (memory_handler_on (rt_settings rt)) (rt_database rt))"
    "kept (rt_get_claim_handler rt) (map_option (memory_handler_on (rt_settings rt)) (rt_database rt))"
    "kept (rt_get_episode_handler rt) (map_option (memory_handler_on (rt_settings rt)) (rt_database rt))"
    "kept (rt_list_claims_handler rt) (map_option (memory_handler_on (rt_settings rt)) (rt_database rt))"
    "kept (rt_list_episodes_handler rt) (map_option (memory_handler_on (rt_settings rt)) (rt_database rt))"
    using assms(1) by (simp_all add: memory_coherent_def)
  consider "record_episode_handler rt = (Inr h, rt')" | "get_episode_handler rt = (Inr h, rt')" | "list_episodes_handler rt = (Inr h, rt')"
    | "get_claim_handler rt = (Inr h, rt')" | "list_claims_handler rt = (Inr h, rt')" using assms(2,3) by blast
  then show ?thesis
  proof cases
    case 1
    show ?thesis by (rule memory_gives [where get = rt_handler, OF assms(1) k(1) 1 [unfolded record_episode_handler_def]])
  next
    case 2
    show ?thesis by (rule memory_gives [where get = rt_get_episode_handler, OF assms(1) k(3) 2 [unfolded get_episode_handler_def]])
  next
    case 3
    show ?thesis by (rule memory_gives [where get = rt_list_episodes_handler, OF assms(1) k(5) 3 [unfolded list_episodes_handler_def]])
  next
    case 4
    show ?thesis by (rule memory_gives [where get = rt_get_claim_handler, OF assms(1) k(2) 4 [unfolded get_claim_handler_def]])
  next
    case 5
    show ?thesis by (rule memory_gives [where get = rt_list_claims_handler, OF assms(1) k(4) 5 [unfolded list_claims_handler_def]])
  qed
qed

lemma execution_accessors:
  assumes "runtime_coherent rt"
    and "accessor \<in> {start_execution_handler, get_execution_snapshot_handler, cancel_execution_handler}"
    and "accessor rt = (Inr h, rt')"
  shows "\<exists>orch. h = execution_handler_on (rt_settings rt) orch \<and> rt_orchestrator rt = Some orch"
proof -
  have k: "kept (rt_start_execution_handler rt) (map_option (execution_handler_on (rt_settings rt)) (rt_orchestrator rt))"
    "kept (rt_get_execution_snapshot_handler rt) (map_option (execution_handler_on (rt_settings rt)) (rt_orchestrator rt))"
    "kept (rt_cancel_execution_handler rt) (map_option (execution_handler_on (rt_settings rt)) (rt_orchestrator rt))"
    using assms(1) unfolding runtime_coherent_def by blast+
  consider "start_execution_handler rt = (Inr h, rt')" | "get_execution_snapshot_handler rt = (Inr h, rt')"
    | "cancel_execution_handler rt = (Inr h, rt')" using assms(2,3) by blast
  then show ?thesis
  proof cases
    case 1
    show ?thesis by (rule execution_gives [where get = rt_start_execution_handler, OF k(1) 1 [unfolded start_execution_handler_def]])
  next
    case 2
    show ?thesis by (rule execution_gives [where get = rt_get_execution_snapshot_handler, OF k(2) 2 [unfolded get_execution_snapshot_handler_def]])
  next
    case 3
    show ?thesis by (rule execution_gives [where get = rt_cancel_execution_handler, OF k(3) 3 [unfolded cancel_execution_handler_def]])
  qed
qed

lemma inbox_accessor:
  assumes "memory_coherent rt" and "process_inbox_handler rt = (Inr h, rt')"
  shows "\<exists>d. h = inbox_handler_on (rt_settings rt) d \<and> rt_database rt = Some d"
proof -
  from with_memory_cases [OF assms(2) [unfolded process_inbox_handler_def]] obtain d where d: "rt_database rt = Some d"
    and c: "(case rt_inbox_handler rt of Some h \<Rightarrow> (Inr h, rt) | None \<Rightarrow> (case rt_unit_of_work_factory rt of
        None \<Rightarrow> (Inl (RuntimeError ''memory unit of work factory is not configured''), rt)
      | Some factory \<Rightarrow> let h = \<lparr>ih_store = d, ih_factory = factory,
            ih_extractor_version = cx_extractor_version (as_claim_extraction (rt_settings rt)),
            ih_extraction_enabled = cx_enabled (as_claim_extraction (rt_settings rt)),
            ih_consumer_name = ib_consumer_name (as_inbox (rt_settings rt))\<rparr>
          in (Inr h, rt\<lparr>rt_inbox_handler := Some h\<rparr>))) = (Inr h, rt')" by auto
  have f: "rt_unit_of_work_factory rt = Some d" "kept (rt_inbox_handler rt) (Some (inbox_handler_on (rt_settings rt) d))"
    using assms(1) d by (simp_all add: memory_coherent_def)
  with c have "h = inbox_handler_on (rt_settings rt) d"
    by (auto simp: kept_def inbox_handler_on_def Let_def split: option.splits)
  with d show ?thesis by blast
qed

lemma relay_accessor:
  assumes "memory_coherent rt" and "relay_outbox_handler rt = (Inr h, rt')"
  shows "\<exists>d. h = relay_handler_on (rt_settings rt) (rt_logging_publisher rt) d \<and> rt_database rt = Some d \<and> rl_enabled (as_outbox_relay (rt_settings rt))"
proof -
  from with_memory_cases [OF assms(2) [unfolded relay_outbox_handler_def]] obtain d where d: "rt_database rt = Some d"
    and e: "rl_enabled (as_outbox_relay (rt_settings rt))"
    and c: "cached rt_relay_handler (\<lambda>h rt. rt\<lparr>rt_relay_handler := Some h\<rparr>) \<lparr>rh_store = d, rh_publisher = rt_outbox_publisher rt\<rparr> rt = (Inr h, rt')"
    by (auto split: if_splits)
  have "\<lparr>rh_store = d, rh_publisher = rt_outbox_publisher rt\<rparr> = relay_handler_on (rt_settings rt) (rt_logging_publisher rt) d"
    "kept (rt_relay_handler rt) (Some (relay_handler_on (rt_settings rt) (rt_logging_publisher rt) d))"
    using assms(1) d by (simp_all add: memory_coherent_def relay_handler_on_def)
  with cached_is [OF c] have "h = relay_handler_on (rt_settings rt) (rt_logging_publisher rt) d" by simp
  with d e show ?thesis by blast
qed

lemma listing_accessor:
  assumes "runtime_coherent rt" and "list_executions_handler rt = (Inr h, rt')"
  shows "\<exists>r. h = listing_handler_on (rt_settings rt) r \<and> running_number rt = Some r"
proof -
  from with_runtime_cases [OF assms(2) [unfolded list_executions_handler_def]] obtain x orch where x: "rt_execution_snapshot_store rt = Some x"
      "rt_orchestrator rt = Some orch"
    and c: "cached rt_list_executions_handler (\<lambda>h rt. rt\<lparr>rt_list_executions_handler := Some h\<rparr>)
      \<lparr>lh_authorize = create_runtime_authorization (rt_settings rt), lh_store = x\<rparr> rt = (Inr h, rt')" by auto
  obtain r where r: "rt_execution_snapshot_store rt = Some (PostgresSnapshotStore r)" "running_number rt = Some r"
    by (rule running [OF assms(1) x(2)])
  have "kept (rt_list_executions_handler rt) (map_option (listing_handler_on (rt_settings rt)) (running_number rt))"
    using assms(1) unfolding runtime_coherent_def by blast
  with cached_is [OF c] x(1) r have "h = listing_handler_on (rt_settings rt) r" by (simp add: listing_handler_on_def)
  with r show ?thesis by blast
qed

lemma runtime_relay_accessor:
  assumes "runtime_coherent rt" and "relay_runtime_outbox_handler rt = (Inr h, rt')"
  shows "\<exists>r. h = runtime_relay_on (rt_logging_runtime_outbox_publisher rt) r \<and> running_number rt = Some r"
proof -
  from with_runtime_cases [OF assms(2) [unfolded relay_runtime_outbox_handler_def]] obtain orch where o: "rt_orchestrator rt = Some orch" by auto
  obtain r where r: "rt_runtime_database rt = Some (PostgresRuntimeStore r)" "running_number rt = Some r"
    by (rule running [OF assms(1) o])
  have k: "kept (rt_runtime_relay_handler rt) (map_option (runtime_relay_on (rt_logging_runtime_outbox_publisher rt)) (running_number rt))"
    using assms(1) unfolding runtime_coherent_def by blast
  from with_runtime_cases [OF assms(2) [unfolded relay_runtime_outbox_handler_def]] r(1)
  have c: "cached rt_runtime_relay_handler (\<lambda>h rt. rt\<lparr>rt_runtime_relay_handler := Some h\<rparr>)
      \<lparr>rr_store = r, rr_publisher = rt_logging_runtime_outbox_publisher rt\<rparr> rt = (Inr h, rt')" by (auto split: if_splits)
  have "h = runtime_relay_on (rt_logging_runtime_outbox_publisher rt) r"
    using cached_is [OF c] k r(2) by (simp add: runtime_relay_on_def)
  with r show ?thesis by blast
qed

lemma coherent_live:
  assumes "coherent (rt, w)" and "rt_settings rt = st"
  shows "rt_database rt = Some d \<Longrightarrow> live w MemoryDatabase (pg_dsn (as_postgres st)) d"
    and "rt_orchestrator rt = Some orch \<Longrightarrow> orchestrator_live w st orch"
    and "running_number rt = Some r \<Longrightarrow> live w RuntimeDatabase (pg_dsn (as_postgres st)) r"
proof -
  have m: "memory_coherent rt" and k: "runtime_coherent rt" and x: "world_coherent rt w" using assms(1) by (simp_all add: coherent_def)
  show "rt_database rt = Some d \<Longrightarrow> live w MemoryDatabase (pg_dsn (as_postgres st)) d"
    using x assms(2) by (simp add: world_coherent_def runtime_dsn_def)
  show "running_number rt = Some r \<Longrightarrow> live w RuntimeDatabase (pg_dsn (as_postgres st)) r"
    using x assms(2) by (auto simp: world_coherent_def runtime_dsn_def runtime_number_def split: option.splits runtime_store.splits)
  show "rt_orchestrator rt = Some orch \<Longrightarrow> orchestrator_live w st orch"
  proof -
    assume o: "rt_orchestrator rt = Some orch"
    obtain r where r: "rt_runtime_database rt = Some (PostgresRuntimeStore r)" "create_orchestrator rt = Inr orch"
        "temporal_enabled rt \<longrightarrow> rt_runtime_snapshot_writer rt \<noteq> None" by (rule running [OF k o])
    with x o assms(2) show "orchestrator_live w st orch"
      by (auto simp: create_orchestrator_def world_coherent_def settings_of split: if_splits option.splits)
  qed
qed

section \<open>Properties\<close>

definition sample_runtime :: app_runtime where
  "sample_runtime = (case new_runtime sample_settings (empty_world no_schema) of (Inr rt, _) \<Rightarrow> rt)"

definition sample_world :: "nat list world" where
  "sample_world = snd (new_runtime sample_settings (empty_world no_schema))"

lemma sample_new: "new_runtime sample_settings (empty_world no_schema) = (Inr sample_runtime, sample_world)"
  by (simp add: sample_runtime_def sample_world_def new_runtime_def create_token_verifier_def sample_settings_def new_publisher_def empty_world_def)

lemma sample_lives: "runtime_calls [] calls (sample_runtime, sample_world) = (rt, w) \<Longrightarrow> lives [] sample_settings rt w"
  unfolding lives_def using sample_new by blast

lemma sample_starts: "lives [] sample_settings sample_runtime sample_world" "\<not> rt_started sample_runtime"
    "wo_connections sample_world = []" "open_pools sample_world = {}"
  using sample_lives [of "[]"] new_runtime_world [OF sample_new] by (auto simp: runtime_calls_def)

lemma sample_startup: "\<exists>rt w. startup fine (sample_runtime, sample_world) = (Inr (), rt, w)"
proof -
  have "fst (startup fine (sample_runtime, sample_world)) = Inr ()"
    using startup_outcome [OF _ sample_starts(2), of sample_world fine] lives_coherent [OF sample_starts(1)]
    by (simp add: startup_result_def fine_def sample_settings_def Let_def)
  then show ?thesis by (cases "startup fine (sample_runtime, sample_world)") auto
qed

text \<open>
  C37. A runtime that was constructed with settings \<open>st\<close> and then started, stopped,
  checked and asked for handlers in any order, with any failures, gives out only handlers
  that are built from \<open>st\<close> (its authorization, extractor, publisher) over database objects
  that are open now and belong to the right module; an orchestrator is the one the settings
  ask for and never works on the in-memory database.
\<close>

theorem handlers_are_current:
  assumes "lives files st rt w"
  shows "(\<forall>accessor \<in> {record_episode_handler, get_episode_handler, list_episodes_handler, get_claim_handler, list_claims_handler}.
       \<forall>h rt'. accessor rt = (Inr h, rt') \<longrightarrow> (\<exists>d. h = memory_handler_on st d \<and> live w MemoryDatabase (pg_dsn (as_postgres st)) d))
    \<and> (\<forall>h rt'. process_inbox_handler rt = (Inr h, rt') \<longrightarrow> (\<exists>d. h = inbox_handler_on st d \<and> live w MemoryDatabase (pg_dsn (as_postgres st)) d))
    \<and> (\<forall>h rt'. relay_outbox_handler rt = (Inr h, rt') \<longrightarrow> (\<exists>d. h = relay_handler_on st (rt_logging_publisher rt) d
         \<and> live w MemoryDatabase (pg_dsn (as_postgres st)) d))
    \<and> (\<forall>accessor \<in> {start_execution_handler, get_execution_snapshot_handler, cancel_execution_handler}.
         \<forall>h rt'. accessor rt = (Inr h, rt') \<longrightarrow> (\<exists>orch. h = execution_handler_on st orch \<and> orchestrator_live w st orch))
    \<and> (\<forall>h rt'. list_executions_handler rt = (Inr h, rt') \<longrightarrow> (\<exists>r. h = listing_handler_on st r \<and> live w RuntimeDatabase (pg_dsn (as_postgres st)) r))
    \<and> (\<forall>h rt'. relay_runtime_outbox_handler rt = (Inr h, rt') \<longrightarrow> (\<exists>r. h = runtime_relay_on (rt_logging_runtime_outbox_publisher rt) r
         \<and> live w RuntimeDatabase (pg_dsn (as_postgres st)) r))"
proof -
  from lives_coherent [OF assms] have c: "coherent (rt, w)" and s: "rt_settings rt = st" by blast+
  then have m: "memory_coherent rt" and k: "runtime_coherent rt" by (simp_all add: coherent_def)
  note live = coherent_live [OF c s]
  show ?thesis
    using memory_accessors [OF m] inbox_accessor [OF m] relay_accessor [OF m] execution_accessors [OF k] listing_accessor [OF k]
      runtime_relay_accessor [OF k] live unfolding s by (intro conjI ballI allI impI) metis+
qed

theorem handlers_are_current_witness:
  "\<exists>rt w. startup fine (sample_runtime, sample_world) = (Inr (), rt, w)
    \<and> (\<forall>h rt'. record_episode_handler rt = (Inr h, rt') \<longrightarrow> (\<exists>d. h = memory_handler_on sample_settings d
         \<and> live w MemoryDatabase ''postgresql://localhost/engram'' d))"
proof -
  obtain rt and w :: "nat list world" where s: "startup fine (sample_runtime, sample_world) = (Inr (), rt, w)" using sample_startup by blast
  have "lives [] sample_settings rt w"
    by (rule sample_lives [of "[Startup fine]"]) (simp add: runtime_calls_def s)
  from handlers_are_current [OF this] have "\<forall>h rt'. record_episode_handler rt = (Inr h, rt') \<longrightarrow> (\<exists>d. h = memory_handler_on sample_settings d
      \<and> live w MemoryDatabase (pg_dsn (as_postgres sample_settings)) d)" by simp
  with s show ?thesis by (simp add: sample_settings_def)
qed

text \<open>
  After a start that succeeded, asking for a handler raises only when the settings
  switch its module or its relay off; after a shutdown, also one that could not close a
  pool, every handler is withdrawn and the runtime is not ready.
\<close>

theorem handlers_follow_the_lifecycle:
  assumes "lives files st rt w"
  shows "(\<forall>u rt' w'. startup io (rt, w) = (Inr u, rt', w') \<longrightarrow> fst (ask h rt') = ask_result st True True h)
    \<and> (\<forall>r rt' w'. shutdown io (rt, w) = (r, rt', w') \<longrightarrow> fst (ask h rt') = ask_result st False False h
         \<and> (\<exists>code. check_ready files reached lent selected (rt', w') = (Inl (ReadinessError code), rt', w')))"
proof -
  from lives_coherent [OF assms] have c: "coherent (rt, w)" and s: "rt_settings rt = st" by blast+
  have up: "fst (ask h rt') = ask_result st True True h" if "startup io (rt, w) = (Inr u, rt', w')" for u rt' w'
  proof -
    note k = startup_coherent [OF c that]
    have "ask_result st (rt_started rt') (rt_orchestrator rt' \<noteq> None) h = ask_result st True True h"
      by (rule ask_result_up) (use k s in \<open>auto simp: settings_of\<close>)
    with ask_results [of rt' w' h] k s show ?thesis by simp
  qed
  have down: "fst (ask h rt') = ask_result st False False h
      \<and> (\<exists>code. check_ready files reached lent selected (rt', w') = (Inl (ReadinessError code), rt', w'))"
    if "shutdown io (rt, w) = (r, rt', w')" for r rt' w'
  proof -
    have "coherent (rt', w')" using shutdown_coherent [of io "(rt, w)"] that by simp
    moreover have "\<not> rt_started rt' \<and> rt_orchestrator rt' = None \<and> rt_settings rt' = st"
      using that s by (auto simp: shutdown_def split: prod.splits)
    ultimately show ?thesis using ask_results [of rt' w' h] by (simp add: check_ready_def)
  qed
  from up down show ?thesis by blast
qed

theorem handlers_follow_the_lifecycle_witness:
  "\<exists>rt w. startup fine (sample_runtime, sample_world) = (Inr (), rt, w) \<and> fst (ask RelayOutbox rt) = Inr ()"
proof -
  obtain rt and w :: "nat list world" where s: "startup fine (sample_runtime, sample_world) = (Inr (), rt, w)" using sample_startup by blast
  with handlers_follow_the_lifecycle [OF sample_starts(1), of fine RelayOutbox] have "fst (ask RelayOutbox rt) = ask_result sample_settings True True RelayOutbox"
    by blast
  with s show ?thesis by (simp add: ask_result_def memory_names_def sample_settings_def sample_relay_def)
qed

text \<open>
  What a start of a stopped runtime returns: the error of the first pool that could not
  be opened (the memory database, the runtime database, the snapshot writer, in this order)
  or of the Temporal connection; the configuration error of a runtime module without its
  storage; and otherwise nothing. Modules that are switched off open nothing.
\<close>

theorem startup_fails_at_the_first_error:
  assumes "lives files st rt w" and "\<not> rt_started rt"
  shows "fst (startup io (rt, w)) = startup_result st io (length (wo_connections w))"
  using startup_outcome [OF _ assms(2)] lives_coherent [OF assms(1)] by blast

theorem startup_fails_at_the_first_error_witness:
  "fst (startup no_temporal (sample_runtime, sample_world)) = Inl OrchestrationUnavailable"
  using startup_fails_at_the_first_error [OF sample_starts(1,2), of no_temporal]
  by (simp add: startup_result_def no_temporal_def fine_def sample_settings_def Let_def)

text \<open>
  When every start, also one that failed halfway, is followed by a shutdown whose
  pools can be closed, no pool is open afterwards, however often this is repeated.
\<close>

theorem shutdown_releases_the_pools:
  assumes "new_runtime st (empty_world d) = (Inr rt, w)" and "\<forall>(up, down) \<in> set cycles. \<forall>i. io_released down i = Inr ()"
  shows "open_pools (snd (serve_cycles cycles (rt, w))) = {}"
proof -
  have o: "open_pools w = {}" "\<not> rt_started rt" using new_runtime_world [OF assms(1)] by blast+
  from cycles_release [OF conjunct1 [OF new_runtime_coherent [OF assms(1)]] o(2,1) assms(2)] show ?thesis .
qed

theorem shutdown_releases_the_pools_witness:
  "open_pools (snd (serve_cycles [(no_temporal, fine), (fine, fine)] (sample_runtime, sample_world))) = {}"
  by (rule shutdown_releases_the_pools [OF sample_new]) (simp add: fine_def no_temporal_def)

text \<open>
  A start that failed at the Temporal connection and is tried again without a shutdown
  opens a second runtime database and a second snapshot writer; the first pair is
  forgotten, and its pools stay open after the shutdown.
\<close>

theorem retried_startup_leaks_pools:
  assumes "new_runtime st (empty_world d) = (Inr rt, w)" and "md_memory_enabled (as_modules st)" and "md_runtime_enabled (as_modules st)"
    and "tp_enabled (as_temporal st)" and "\<not> ib_enabled (as_inbox st)"
  shows "open_pools (snd (runtime_calls files [Startup no_temporal, Startup fine, Shutdown fine] (rt, w))) = {1, 2}"
proof -
  have s: "rt_settings rt = st" using new_runtime_coherent [OF assms(1)] by blast
  have n: "rt_started rt = False" "rt_orchestrator rt = None" "wo_connections w = []"
    using assms(1) by (auto simp: new_runtime_def new_publisher_def empty_world_def split: sum.splits)
  let ?rt1 = "rt\<lparr>rt_database := Some 0, rt_unit_of_work_factory := Some 0, rt_started := True, rt_logging_publisher := length (wo_publishers w),
    rt_outbox_publisher := LoggingPublisher (length (wo_publishers w)), rt_logging_runtime_outbox_publisher := Suc (length (wo_publishers w)),
    rt_runtime_database := Some (PostgresRuntimeStore 1), rt_runtime_snapshot_writer := Some 2,
    rt_execution_snapshot_store := Some (PostgresSnapshotStore 1)\<rparr>"
  let ?c = "\<lambda>m. (new_connection m (pg_dsn (as_postgres st)))\<lparr>pc_pool := True\<rparr>"
  let ?w1 = "w\<lparr>wo_connections := [?c MemoryDatabase, ?c RuntimeDatabase, ?c RuntimeDatabase],
    wo_publishers := wo_publishers w @ [[]] @ [[]]\<rparr>"
  have one: "startup no_temporal (rt, w) = (Inl OrchestrationUnavailable, ?rt1, ?w1)"
    using assms(2-5) s n by (simp add: runtime_simps no_temporal_def fine_def)
  obtain rt2 where two: "startup fine (?rt1, ?w1) = (Inr (), rt2, ?w1\<lparr>wo_connections :=
      [?c MemoryDatabase, ?c RuntimeDatabase, ?c RuntimeDatabase, ?c RuntimeDatabase, ?c RuntimeDatabase],
      wo_publishers := wo_publishers w @ [[]] @ [[]] @ [[]]\<rparr>)"
    and held: "held_connections rt2 = [4, 3, 0]"
    using assms(2-5) s n by (simp add: runtime_simps fine_def)
  let ?w2 = "?w1\<lparr>wo_connections := [?c MemoryDatabase, ?c RuntimeDatabase, ?c RuntimeDatabase, ?c RuntimeDatabase, ?c RuntimeDatabase],
      wo_publishers := wo_publishers w @ [[]] @ [[]] @ [[]]\<rparr>"
  have k: "coherent (rt2, ?w2)"
    using startup_coherent [OF _ two] startup_coherent [OF _ one] new_runtime_coherent [OF assms(1)] by blast
  have o: "open_pools ?w2 = {0, 1, 2, 3, 4}" by (auto simp: open_pools_def new_connection_def less_Suc_eq)
  obtain rt3 w3 where down: "shutdown fine (rt2, ?w2) = (Inr (), rt3, w3)" "open_pools w3 = open_pools ?w2 - set (held_connections rt2)"
    using shutdown_closes [OF k, of fine] by (auto simp: fine_def simp del: held_set)
  have "runtime_calls files [Startup no_temporal, Startup fine, Shutdown fine] (rt, w) = (rt3, w3)"
    unfolding runtime_calls_def by (simp only: fold_simps comp_apply id_apply runtime_call.simps one two down(1) snd_conv)
  moreover have "open_pools w3 = {1, 2}" unfolding down(2) o held by auto
  ultimately show ?thesis by simp
qed

theorem retried_startup_leaks_pools_witness:
  "\<exists>rt w. new_runtime (sample_settings\<lparr>as_inbox := \<lparr>ib_enabled = False, ib_consumer_name = ''c''\<rparr>\<rparr>) (empty_world no_schema) = (Inr rt, w)
    \<and> open_pools (snd (runtime_calls [] [Startup no_temporal, Startup fine, Shutdown fine] (rt, w))) = {1, 2}"
proof -
  let ?st = "sample_settings\<lparr>as_inbox := \<lparr>ib_enabled = False, ib_consumer_name = ''c''\<rparr>\<rparr>"
  obtain rt w where n: "new_runtime ?st (empty_world no_schema) = (Inr rt, w)"
    by (simp add: new_runtime_def create_token_verifier_def sample_settings_def new_publisher_def empty_world_def)
  have "open_pools (snd (runtime_calls [] [Startup no_temporal, Startup fine, Shutdown fine] (rt, w))) = {1, 2}"
    by (rule retried_startup_leaks_pools [OF n]) (simp_all add: sample_settings_def)
  with n show ?thesis by blast
qed

end
