(* ===== verification/Http_Mapping.thy ===== *)
theory Http_Mapping
  imports Auth Runtime_App
begin

text \<open>
  The transport of the control API (\<open>bootstrap/http/schemas.py\<close>, \<open>mappers.py\<close>): the
  request bodies with the validators of their fields, the mapping of requests to the
  commands and queries of the modules, and of results to response bodies. Turning the
  JSON of a request into typed fields, and the fields of a response into JSON, is the
  framework's.
\<close>

section \<open>Request bodies\<close>

definition schema_non_blank :: "string \<Rightarrow> string \<Rightarrow> unit res" where
  "schema_non_blank v field_name = raise_if (blank v) (RequestValidationError (field_name @ '' must not be blank''))"

definition schema_timezone_aware :: "datetime \<Rightarrow> string \<Rightarrow> unit res" where
  "schema_timezone_aware d field_name = raise_if (\<not> aware d) (RequestValidationError (field_name @ '' must be timezone-aware''))"

definition schema_optional_aware :: "datetime option \<Rightarrow> string \<Rightarrow> unit res" where
  "schema_optional_aware d field_name = (case d of None \<Rightarrow> Inr () | Some v \<Rightarrow> schema_timezone_aware v field_name)"

text \<open>A constraint of the schema language: \<open>Field(ge=...)\<close> and the like.\<close>

definition schema_bound :: "bool \<Rightarrow> string \<Rightarrow> unit res" where
  "schema_bound holds field_name = raise_if (\<not> holds) (RequestValidationError (field_name @ '' is out of range''))"

record scope_request =
  sq_tenant_id :: uuid
  sq_subject_id :: uuid
  sq_workspace_id :: "string option"
  sq_agent_id :: "uuid option"

definition mk_scope_request :: "scope_request \<Rightarrow> scope_request res" where
  "mk_scope_request s = (case sq_workspace_id s of
       None \<Rightarrow> Inr s
     | Some w \<Rightarrow> bindE (schema_non_blank w ''workspace_id'') (\<lambda>_. Inr s))"

record record_episode_request =
  re_actor_id :: "uuid option"
  re_scope :: scope_request
  re_source_type :: source_type
  re_content_ref :: uuid
  re_observed_at :: datetime
  re_content_hash :: string
  re_idempotency_key :: string
  re_sensitivity :: sensitivity
  re_retention_class :: retention_class
  re_consent_basis :: string

definition mk_record_episode_request :: "record_episode_request \<Rightarrow> record_episode_request res" where
  "mk_record_episode_request r = bindE (mk_scope_request (re_scope r)) (\<lambda>_. Inr r)"

record budget_request =
  bq_max_input_tokens :: int
  bq_max_output_tokens :: int
  bq_max_cost_micros :: int
  bq_deadline :: datetime

definition mk_budget_request :: "budget_request \<Rightarrow> budget_request res" where
  "mk_budget_request b =
     bindE (schema_bound (0 \<le> bq_max_input_tokens b) ''max_input_tokens'') (\<lambda>_.
     bindE (schema_bound (0 \<le> bq_max_output_tokens b) ''max_output_tokens'') (\<lambda>_.
     bindE (schema_bound (0 \<le> bq_max_cost_micros b) ''max_cost_micros'') (\<lambda>_.
     bindE (schema_timezone_aware (bq_deadline b) ''deadline'') (\<lambda>_. Inr b))))"

record memory_query_request =
  mr_query_id :: string
  mr_scope :: scope_request
  mr_text :: string
  mr_valid_at :: "datetime option"
  mr_recorded_at :: "datetime option"
  mr_limit :: int

definition mk_memory_query_request :: "memory_query_request \<Rightarrow> memory_query_request res" where
  "mk_memory_query_request q =
     bindE (schema_non_blank (mr_query_id q) ''query_id'') (\<lambda>_.
     bindE (mk_scope_request (mr_scope q)) (\<lambda>_.
     bindE (schema_non_blank (mr_text q) ''text'') (\<lambda>_.
     bindE (schema_optional_aware (mr_valid_at q) ''valid_at'') (\<lambda>_.
     bindE (schema_optional_aware (mr_recorded_at q) ''recorded_at'') (\<lambda>_.
     bindE (schema_bound (0 < mr_limit q) ''limit'') (\<lambda>_. Inr q))))))"

record start_execution_request =
  xr_actor_id :: "uuid option"
  xr_scope :: scope_request
  xr_objective_ref :: uuid
  xr_root_agent_id :: uuid
  xr_memory_query :: "memory_query_request option"
  xr_budget :: budget_request
  xr_idempotency_key :: string

definition mk_start_execution_request :: "start_execution_request \<Rightarrow> start_execution_request res" where
  "mk_start_execution_request r =
     bindE (mk_scope_request (xr_scope r)) (\<lambda>_.
     bindE (case xr_memory_query r of None \<Rightarrow> Inr () | Some q \<Rightarrow> bindE (mk_memory_query_request q) (\<lambda>_. Inr ())) (\<lambda>_.
     bindE (mk_budget_request (xr_budget r)) (\<lambda>_.
     bindE (schema_non_blank (xr_idempotency_key r) ''idempotency_key'') (\<lambda>_. Inr r))))"

record cancel_execution_request =
  cr_actor_id :: "uuid option"
  cr_scope :: scope_request
  cr_idempotency_key :: string

definition mk_cancel_execution_request :: "cancel_execution_request \<Rightarrow> cancel_execution_request res" where
  "mk_cancel_execution_request r =
     bindE (mk_scope_request (cr_scope r)) (\<lambda>_.
     bindE (schema_non_blank (cr_idempotency_key r) ''idempotency_key'') (\<lambda>_. Inr r))"

section \<open>Requests to commands\<close>

definition scope_from_request :: "tenant_id \<Rightarrow> scope_request \<Rightarrow> memory_scope res" where
  "scope_from_request path_tenant_id s =
     bindE (raise_if (sq_tenant_id s \<noteq> tenant_uuid path_tenant_id) TenantMismatchError) (\<lambda>_.
       mk_memory_scope \<lparr>ms_tenant_id = path_tenant_id, ms_subject_id = SubjectId (sq_subject_id s),
         ms_workspace_id = sq_workspace_id s, ms_agent_id = map_option AgentInstanceId (sq_agent_id s)\<rparr>)"

definition budget_from_request :: "budget_request \<Rightarrow> budget res" where
  "budget_from_request b = mk_budget \<lparr>bg_max_input_tokens = bq_max_input_tokens b,
     bg_max_output_tokens = bq_max_output_tokens b, bg_max_cost_micros = bq_max_cost_micros b, bg_deadline = bq_deadline b\<rparr>"

definition memory_query_from_request :: "memory_query_request \<Rightarrow> memory_scope \<Rightarrow> memory_query res" where
  "memory_query_from_request q execution_scope =
     bindE (mk_memory_scope \<lparr>ms_tenant_id = TenantId (sq_tenant_id (mr_scope q)),
         ms_subject_id = SubjectId (sq_subject_id (mr_scope q)), ms_workspace_id = sq_workspace_id (mr_scope q),
         ms_agent_id = map_option AgentInstanceId (sq_agent_id (mr_scope q))\<rparr>) (\<lambda>query_scope.
     bindE (raise_if (query_scope \<noteq> execution_scope) MemoryQueryScopeMismatchError) (\<lambda>_.
       mk_memory_query \<lparr>mq_query_id = mr_query_id q, mq_scope = query_scope, mq_text = mr_text q,
         mq_valid_at = mr_valid_at q, mq_recorded_at = mr_recorded_at q, mq_limit = mr_limit q\<rparr>))"

definition resolve_actor_id :: "principal option \<Rightarrow> uuid option \<Rightarrow> subject_id res" where
  "resolve_actor_id p body_or_query_actor_id = (case p of
       Some pr \<Rightarrow> if body_or_query_actor_id \<noteq> None then Inl ActorIdNotAllowedError else Inr (pr_actor_id pr)
     | None \<Rightarrow> (case body_or_query_actor_id of None \<Rightarrow> Inl ActorIdRequiredError | Some u \<Rightarrow> Inr (SubjectId u)))"

definition resolve_query_actor_id :: "principal option \<Rightarrow> uuid option \<Rightarrow> subject_id res" where
  "resolve_query_actor_id p query_actor_id = resolve_actor_id p query_actor_id"

text \<open>\<open>fresh\<close> is the identifier that \<open>CorrelationId.new()\<close> would draw.\<close>

definition parse_correlation_id :: "correlation_id \<Rightarrow> string option \<Rightarrow> correlation_id res" where
  "parse_correlation_id fresh header_value = (case header_value of
       None \<Rightarrow> Inr fresh
     | Some text \<Rightarrow> (case parse_uuid text of Inl _ \<Rightarrow> Inl InvalidCorrelationIdError | Inr u \<Rightarrow> Inr (CorrelationId u)))"

definition to_command ::
    "tenant_id \<Rightarrow> correlation_id \<Rightarrow> record_episode_request \<Rightarrow> principal option \<Rightarrow> record_episode_command res" where
  "to_command path_tenant_id c body p =
     bindE (raise_if (sq_tenant_id (re_scope body) \<noteq> tenant_uuid path_tenant_id) TenantMismatchError) (\<lambda>_.
     bindE (resolve_actor_id p (re_actor_id body)) (\<lambda>actor_id.
     bindE (mk_memory_scope \<lparr>ms_tenant_id = path_tenant_id, ms_subject_id = SubjectId (sq_subject_id (re_scope body)),
         ms_workspace_id = sq_workspace_id (re_scope body), ms_agent_id = map_option AgentInstanceId (sq_agent_id (re_scope body))\<rparr>) (\<lambda>scope.
       mk_record_episode_command \<lparr>rc_correlation_id = c, rc_actor_id = actor_id, rc_scope = scope,
         rc_source_type = re_source_type body, rc_content_ref = ArtifactId (re_content_ref body),
         rc_observed_at = re_observed_at body, rc_content_hash = re_content_hash body,
         rc_idempotency_key = re_idempotency_key body, rc_sensitivity = re_sensitivity body,
         rc_retention_class = re_retention_class body, rc_consent_basis = re_consent_basis body\<rparr>)))"

text \<open>The query parameters that the reads share, and the scope they name.\<close>

record read_params =
  rp_subject_id :: subject_id
  rp_workspace_id :: "string option"
  rp_agent_id :: "agent_instance_id option"

definition query_scope :: "tenant_id \<Rightarrow> read_params \<Rightarrow> memory_scope res" where
  "query_scope path_tenant_id q = mk_memory_scope \<lparr>ms_tenant_id = path_tenant_id, ms_subject_id = rp_subject_id q,
     ms_workspace_id = rp_workspace_id q, ms_agent_id = rp_agent_id q\<rparr>"

definition to_get_claim_query ::
    "tenant_id \<Rightarrow> memory_id \<Rightarrow> subject_id option \<Rightarrow> read_params \<Rightarrow> principal option \<Rightarrow> get_query res" where
  "to_get_claim_query path_tenant_id claim_id actor_id q p =
     bindE (resolve_actor_id p (map_option subject_uuid actor_id)) (\<lambda>resolved_actor_id.
     bindE (query_scope path_tenant_id q) (\<lambda>scope.
       Inr \<lparr>gq_actor_id = resolved_actor_id, gq_scope = scope, gq_id = claim_id\<rparr>))"

definition to_get_episode_query ::
    "tenant_id \<Rightarrow> memory_id \<Rightarrow> subject_id option \<Rightarrow> read_params \<Rightarrow> principal option \<Rightarrow> get_query res" where
  "to_get_episode_query path_tenant_id episode_id actor_id q p =
     bindE (resolve_actor_id p (map_option subject_uuid actor_id)) (\<lambda>resolved_actor_id.
     bindE (query_scope path_tenant_id q) (\<lambda>scope.
       Inr \<lparr>gq_actor_id = resolved_actor_id, gq_scope = scope, gq_id = episode_id\<rparr>))"

definition to_list_episodes_query ::
    "tenant_id \<Rightarrow> subject_id option \<Rightarrow> read_params \<Rightarrow> int \<Rightarrow> string option \<Rightarrow> principal option \<Rightarrow> list_query res" where
  "to_list_episodes_query path_tenant_id actor_id q limit cursor p =
     bindE (raise_if (limit < 1 \<or> 100 < limit) LimitOutOfRangeError) (\<lambda>_.
     bindE (resolve_actor_id p (map_option subject_uuid actor_id)) (\<lambda>resolved_actor_id.
     bindE (query_scope path_tenant_id q) (\<lambda>scope.
       mk_list_query \<lparr>lq_actor_id = resolved_actor_id, lq_scope = scope, lq_limit = limit, lq_cursor = cursor\<rparr>)))"

definition to_list_claims_query ::
    "tenant_id \<Rightarrow> subject_id option \<Rightarrow> read_params \<Rightarrow> int \<Rightarrow> string option \<Rightarrow> principal option \<Rightarrow> list_query res" where
  "to_list_claims_query path_tenant_id actor_id q limit cursor p =
     bindE (raise_if (limit < 1 \<or> 100 < limit) LimitOutOfRangeError) (\<lambda>_.
     bindE (resolve_actor_id p (map_option subject_uuid actor_id)) (\<lambda>resolved_actor_id.
     bindE (query_scope path_tenant_id q) (\<lambda>scope.
       mk_list_query \<lparr>lq_actor_id = resolved_actor_id, lq_scope = scope, lq_limit = limit, lq_cursor = cursor\<rparr>)))"

definition to_list_executions_query ::
    "tenant_id \<Rightarrow> subject_id option \<Rightarrow> read_params \<Rightarrow> int \<Rightarrow> string option \<Rightarrow> principal option \<Rightarrow> list_executions_query res" where
  "to_list_executions_query path_tenant_id actor_id q limit cursor p =
     bindE (raise_if (limit < 1 \<or> 100 < limit) LimitOutOfRangeError) (\<lambda>_.
     bindE (resolve_actor_id p (map_option subject_uuid actor_id)) (\<lambda>resolved_actor_id.
     bindE (query_scope path_tenant_id q) (\<lambda>scope.
       mk_list_executions_query \<lparr>le_actor_id = resolved_actor_id, le_scope = scope, le_limit = limit, le_cursor = cursor\<rparr>)))"

definition to_start_execution_command ::
    "tenant_id \<Rightarrow> correlation_id \<Rightarrow> start_execution_request \<Rightarrow> principal option \<Rightarrow> start_execution_command res" where
  "to_start_execution_command path_tenant_id c body p =
     bindE (scope_from_request path_tenant_id (xr_scope body)) (\<lambda>scope.
     bindE (resolve_actor_id p (xr_actor_id body)) (\<lambda>actor_id.
     bindE (case xr_memory_query body of
         None \<Rightarrow> Inr None
       | Some q \<Rightarrow> bindE (memory_query_from_request q scope) (\<lambda>mq. Inr (Some mq))) (\<lambda>memory_query.
     bindE (budget_from_request (xr_budget body)) (\<lambda>budget.
       mk_start_execution_command \<lparr>sc_correlation_id = c, sc_actor_id = actor_id, sc_scope = scope,
         sc_objective_ref = ArtifactId (xr_objective_ref body), sc_root_agent_id = AgentDefinitionId (xr_root_agent_id body),
         sc_memory_query = memory_query, sc_budget = budget, sc_idempotency_key = xr_idempotency_key body\<rparr>))))"

definition to_get_execution_snapshot_query ::
    "tenant_id \<Rightarrow> execution_id \<Rightarrow> subject_id option \<Rightarrow> read_params \<Rightarrow> principal option \<Rightarrow> get_execution_snapshot_query res" where
  "to_get_execution_snapshot_query path_tenant_id i actor_id q p =
     bindE (resolve_actor_id p (map_option subject_uuid actor_id)) (\<lambda>resolved_actor_id.
     bindE (query_scope path_tenant_id q) (\<lambda>scope.
       Inr \<lparr>ge_actor_id = resolved_actor_id, ge_scope = scope, ge_execution_id = i\<rparr>))"

definition to_cancel_execution_command ::
    "tenant_id \<Rightarrow> correlation_id \<Rightarrow> execution_id \<Rightarrow> cancel_execution_request \<Rightarrow> principal option \<Rightarrow> cancel_execution_command res" where
  "to_cancel_execution_command path_tenant_id c i body p =
     bindE (scope_from_request path_tenant_id (cr_scope body)) (\<lambda>scope.
     bindE (resolve_actor_id p (cr_actor_id body)) (\<lambda>actor_id.
       mk_cancel_execution_command \<lparr>cc_correlation_id = c, cc_actor_id = actor_id, cc_scope = scope,
         cc_execution_id = i, cc_idempotency_key = cr_idempotency_key body\<rparr>))"

section \<open>Results to responses\<close>

record record_episode_response =
  wr_episode_id :: string
  wr_created :: bool

record scope_response =
  ws_tenant_id :: uuid
  ws_subject_id :: uuid
  ws_workspace_id :: "string option"
  ws_agent_id :: "uuid option"

record episode_response =
  we_episode_id :: string
  we_scope :: scope_response
  we_actor_id :: uuid
  we_source_type :: source_type
  we_content_ref :: uuid
  we_observed_at :: datetime
  we_ingested_at :: datetime
  we_content_hash :: string
  we_idempotency_key :: string
  we_sensitivity :: sensitivity
  we_retention_class :: retention_class
  we_consent_basis :: string

record evidence_ref_response =
  wv_episode_id :: uuid
  wv_source_span :: string
  wv_extractor_version :: string
  wv_model_ref :: "string option"
  wv_prompt_version :: "string option"

text \<open>A response model that its validators refuse is a server error: \<open>ValidationError\<close>.\<close>

definition response_check :: "bool \<Rightarrow> string \<Rightarrow> unit res" where
  "response_check holds field_name = raise_if (\<not> holds) (ValueError (''response field is invalid: '' @ field_name))"

definition mk_evidence_ref_response :: "evidence_ref_response \<Rightarrow> evidence_ref_response res" where
  "mk_evidence_ref_response r =
     bindE (response_check (\<not> blank (wv_source_span r)) ''source_span'') (\<lambda>_.
     bindE (response_check (\<not> blank (wv_extractor_version r)) ''extractor_version'') (\<lambda>_. Inr r))"

record claim_response =
  wc_claim_id :: string
  wc_scope :: scope_response
  wc_episode_id :: uuid
  wc_subject :: string
  wc_predicate :: string
  wc_object_value :: string
  wc_polarity :: bool
  wc_epistemic_kind :: epistemic_kind
  wc_confidence :: pyfloat
  wc_valid_from :: datetime
  wc_valid_to :: "datetime option"
  wc_recorded_from :: datetime
  wc_recorded_to :: "datetime option"
  wc_status :: claim_status
  wc_extractor_version :: string
  wc_evidence :: "evidence_ref_response list"

definition optional_aware :: "datetime option \<Rightarrow> bool" where
  "optional_aware d = (case d of None \<Rightarrow> True | Some v \<Rightarrow> aware v)"

definition mk_claim_response :: "claim_response \<Rightarrow> claim_response res" where
  "mk_claim_response c =
     bindE (response_check (\<not> blank (wc_subject c)) ''subject'') (\<lambda>_.
     bindE (response_check (\<not> blank (wc_predicate c)) ''predicate'') (\<lambda>_.
     bindE (response_check (\<not> blank (wc_object_value c)) ''object_value'') (\<lambda>_.
     bindE (response_check (unit_interval (wc_confidence c)) ''confidence'') (\<lambda>_.
     bindE (response_check (aware (wc_valid_from c)) ''valid_from'') (\<lambda>_.
     bindE (response_check (optional_aware (wc_valid_to c)) ''valid_to'') (\<lambda>_.
     bindE (response_check (aware (wc_recorded_from c)) ''recorded_from'') (\<lambda>_.
     bindE (response_check (optional_aware (wc_recorded_to c)) ''recorded_to'') (\<lambda>_.
     bindE (response_check (\<not> blank (wc_extractor_version c)) ''extractor_version'') (\<lambda>_. Inr c)))))))))"

record failure_response =
  wf_category :: failure_category
  wf_code :: string
  wf_message :: string
  wf_details_ref :: "uuid option"

record suspension_response =
  wu_request_id :: string
  wu_idempotency_key :: string
  wu_execution_id :: uuid
  wu_node_id :: "uuid option"
  wu_kind :: suspension_kind
  wu_request_ref :: uuid
  wu_requested_at :: datetime
  wu_expires_at :: datetime

record execution_snapshot_response =
  wx_execution_id :: uuid
  wx_scope :: scope_response
  wx_revision :: int
  wx_status :: execution_status
  wx_plan_revision :: "int option"
  wx_node_statuses :: "(string, node_status) dict"
  wx_suspension :: "suspension_response option"
  wx_result_ref :: "uuid option"
  wx_failure :: "failure_response option"
  wx_updated_at :: datetime

record start_execution_response = execution_snapshot_response +
  wx_created :: bool

record execution_summary_response =
  wm_execution_id :: uuid
  wm_scope :: scope_response
  wm_revision :: int
  wm_status :: execution_status
  wm_updated_at :: datetime

definition mk_execution_summary_response :: "execution_summary_response \<Rightarrow> execution_summary_response res" where
  "mk_execution_summary_response r = bindE (response_check (0 \<le> wm_revision r) ''revision'') (\<lambda>_. Inr r)"

definition scope_to_response :: "memory_scope \<Rightarrow> scope_response" where
  "scope_to_response s = \<lparr>ws_tenant_id = tenant_uuid (ms_tenant_id s), ws_subject_id = subject_uuid (ms_subject_id s),
     ws_workspace_id = ms_workspace_id s, ws_agent_id = map_option agent_instance_uuid (ms_agent_id s)\<rparr>"

definition to_response :: "record_episode_result \<Rightarrow> record_episode_response" where
  "to_response r = \<lparr>wr_episode_id = uuid_text (memory_uuid (rr_episode_id r)), wr_created = rr_created r\<rparr>"

definition episode_to_response :: "episode \<Rightarrow> episode_response" where
  "episode_to_response e = \<lparr>we_episode_id = uuid_text (memory_uuid (ep_id e)), we_scope = scope_to_response (ep_scope e),
     we_actor_id = subject_uuid (ep_actor_id e), we_source_type = ep_source_type e,
     we_content_ref = artifact_uuid (ep_content_ref e), we_observed_at = ep_observed_at e, we_ingested_at = ep_ingested_at e,
     we_content_hash = ep_content_hash e, we_idempotency_key = ep_idempotency_key e, we_sensitivity = ep_sensitivity e,
     we_retention_class = ep_retention_class e, we_consent_basis = ep_consent_basis e\<rparr>"

definition evidence_to_response :: "evidence_ref \<Rightarrow> evidence_ref_response res" where
  "evidence_to_response r = mk_evidence_ref_response \<lparr>wv_episode_id = memory_uuid (er_episode_id r),
     wv_source_span = er_source_span r, wv_extractor_version = er_extractor_version r, wv_model_ref = er_model_ref r,
     wv_prompt_version = er_prompt_version r\<rparr>"

definition claim_to_response :: "claim \<Rightarrow> claim_response res" where
  "claim_to_response c = (case cl_evidence c of
       [] \<Rightarrow> Inl IndexError
     | first # _ \<Rightarrow> bindE (mapE evidence_to_response (cl_evidence c)) (\<lambda>evidence.
         mk_claim_response \<lparr>wc_claim_id = uuid_text (memory_uuid (cl_id c)), wc_scope = scope_to_response (cl_scope c),
           wc_episode_id = memory_uuid (er_episode_id first), wc_subject = cl_subject c, wc_predicate = cl_predicate c,
           wc_object_value = cl_object_value c, wc_polarity = cl_polarity c, wc_epistemic_kind = cl_epistemic_kind c,
           wc_confidence = cl_confidence c, wc_valid_from = cl_valid_from c, wc_valid_to = cl_valid_to c,
           wc_recorded_from = cl_recorded_from c, wc_recorded_to = cl_recorded_to c, wc_status = cl_status c,
           wc_extractor_version = er_extractor_version first, wc_evidence = evidence\<rparr>))"

definition failure_to_response :: "failure \<Rightarrow> failure_response" where
  "failure_to_response f = \<lparr>wf_category = fl_category f, wf_code = fl_code f, wf_message = fl_message f,
     wf_details_ref = map_option artifact_uuid (fl_details_ref f)\<rparr>"

definition suspension_to_response :: "suspension \<Rightarrow> suspension_response" where
  "suspension_to_response s = \<lparr>wu_request_id = su_request_id s, wu_idempotency_key = su_idempotency_key s,
     wu_execution_id = execution_uuid (su_execution_id s), wu_node_id = map_option node_uuid (su_node_id s),
     wu_kind = su_kind s, wu_request_ref = artifact_uuid (su_request_ref s), wu_requested_at = su_requested_at s,
     wu_expires_at = su_expires_at s\<rparr>"

definition execution_list_item_to_response :: "execution_list_item \<Rightarrow> execution_summary_response res" where
  "execution_list_item_to_response i = mk_execution_summary_response \<lparr>wm_execution_id = execution_uuid (li_execution_id i),
     wm_scope = scope_to_response (li_scope i), wm_revision = li_revision i, wm_status = li_status i,
     wm_updated_at = li_updated_at i\<rparr>"

definition snapshot_to_response :: "execution_snapshot \<Rightarrow> execution_snapshot_response" where
  "snapshot_to_response s = \<lparr>wx_execution_id = execution_uuid (sn_execution_id s), wx_scope = scope_to_response (sn_scope s),
     wx_revision = sn_revision s, wx_status = sn_status s, wx_plan_revision = sn_plan_revision s,
     wx_node_statuses = map (\<lambda>(i, st). (uuid_text (node_uuid i), st)) (sn_node_statuses s),
     wx_suspension = map_option suspension_to_response (sn_suspension s),
     wx_result_ref = map_option artifact_uuid (sn_result_ref s),
     wx_failure = map_option failure_to_response (sn_failure s), wx_updated_at = sn_updated_at s\<rparr>"

definition start_result_to_response :: "start_execution_result \<Rightarrow> start_execution_response" where
  "start_result_to_response r =
     execution_snapshot_response.extend (snapshot_to_response (sr_snapshot r)) \<lparr>wx_created = sr_created r\<rparr>"

end
