(* ===== verification/Http_App.thy ===== *)
theory Http_App
  imports Http_Mapping Memory_Claims Runtime_Relay
begin

text \<open>
  The control API (\<open>bootstrap/http/errors.py\<close> and \<open>app.py\<close>): the error responses, and
  the endpoints over the handlers that the runtime gives them. Routing and the typing
  of parameters and bodies are the framework's: an endpoint starts with typed
  parameters, and the framework's own refusals are \<open>RequestValidationError\<close>.
\<close>

section \<open>Error responses\<close>

datatype http_body =
    ErrorBody pyval
  | StatusBody string
  | NotReadyBody string
  | RecordBody record_episode_response
  | EpisodeBody episode_response
  | EpisodesBody "episode_response list" "string option"
  | ClaimBody claim_response
  | ClaimsBody "claim_response list" "string option"
  | StartBody start_execution_response
  | SnapshotBody execution_snapshot_response
  | ExecutionsBody "execution_summary_response list" "string option"

record http_response =
  hr_status_code :: nat
  hr_content :: http_body

definition error_envelope :: "string \<Rightarrow> string \<Rightarrow> pyval list \<Rightarrow> pyval" where
  "error_envelope code message details = obj [(''error'',
     obj [(''code'', VStr code), (''message'', VStr message), (''details'', VList details)])]"

definition value_error_detail :: "string list \<Rightarrow> string \<Rightarrow> pyval" where
  "value_error_detail loc msg = obj [(''type'', VStr ''value_error''), (''loc'', VList (map VStr loc)), (''msg'', VStr msg)]"

definition configuration_error_details :: "string \<Rightarrow> string \<Rightarrow> pyval list" where
  "configuration_error_details code message = [obj [(''type'', VStr ''configuration_error''), (''loc'', VTuple []),
     (''msg'', VStr message), (''code'', VStr code)]]"

definition error_json :: "nat \<Rightarrow> string \<Rightarrow> string \<Rightarrow> pyval list \<Rightarrow> http_response" where
  "error_json status code message details = \<lparr>hr_status_code = status, hr_content = ErrorBody (error_envelope code message details)\<rparr>"

definition validation_error :: "pyval list \<Rightarrow> http_response" where
  "validation_error details = error_json 422 ''validation_error'' ''request validation failed'' details"

text \<open>
  The handlers that are registered, each for the class of an exception, in the order of
  the file; the other classes, \<open>ValueError\<close> and its kind among them, go to the handler
  of \<open>Exception\<close>. The details of the framework's own validation errors are the function
  \<open>details\<close>.
\<close>

fun access_error :: "exn \<Rightarrow> http_response option" where
  "access_error AuthenticationRequiredError = Some (error_json 401 ''authentication_required'' ''authentication is required'' [])"
| "access_error InvalidTokenError = Some (error_json 401 ''invalid_token'' ''invalid token'' [])"
| "access_error TenantAccessDeniedError = Some (error_json 403 ''tenant_access_denied'' ''tenant access is denied'' [])"
| "access_error EpisodeAuthorizationDenied = Some (error_json 403 ''episode_authorization_denied'' ''episode recording is not authorized'' [])"
| "access_error EpisodeReadAuthorizationDenied = Some (error_json 403 ''episode_read_authorization_denied'' ''episode reading is not authorized'' [])"
| "access_error ClaimReadAuthorizationDenied = Some (error_json 403 ''claim_read_authorization_denied'' ''claim reading is not authorized'' [])"
| "access_error _ = None"

fun memory_error :: "exn \<Rightarrow> http_response option" where
  "memory_error EpisodeNotFound = Some (error_json 404 ''episode_not_found'' ''episode not found'' [])"
| "memory_error ClaimNotFound = Some (error_json 404 ''claim_not_found'' ''claim not found'' [])"
| "memory_error InvalidEpisodeCursor = Some (error_json 422 ''invalid_episode_cursor'' ''episode list cursor is invalid'' [])"
| "memory_error InvalidClaimCursor = Some (error_json 422 ''invalid_claim_cursor'' ''claim list cursor is invalid'' [])"
| "memory_error InvalidExecutionCursor = Some (error_json 422 ''invalid_execution_cursor'' ''execution list cursor is invalid'' [])"
| "memory_error EpisodeIdempotencyConflict = Some (error_json 409 ''episode_idempotency_conflict'' ''idempotency key conflicts with an existing episode'' [])"
| "memory_error _ = None"

fun execution_error :: "exn \<Rightarrow> http_response option" where
  "execution_error ExecutionAuthorizationDenied = Some (error_json 403 ''execution_authorization_denied'' ''execution is not authorized'' [])"
| "execution_error ExecutionNotFound = Some (error_json 404 ''execution_not_found'' ''execution not found'' [])"
| "execution_error ExecutionIdempotencyConflict = Some (error_json 409 ''execution_idempotency_conflict'' ''idempotency key conflicts with an existing execution'' [])"
| "execution_error InvalidExecutionTransition = Some (error_json 409 ''invalid_execution_transition'' ''execution transition is not allowed'' [])"
| "execution_error OrchestrationUnavailable = Some (error_json 503 ''orchestration_unavailable'' ''orchestration backend is unavailable'' [])"
| "execution_error ClaimsUnavailable = Some (error_json 503 ''claims_unavailable'' ''claim store is unavailable'' [])"
| "execution_error _ = None"

fun mapping_error :: "exn \<Rightarrow> http_response option" where
  "mapping_error MemoryQueryScopeMismatchError = Some (validation_error [value_error_detail [''memory_query'', ''scope''] ''memory_query.scope must match execution scope''])"
| "mapping_error ActorIdNotAllowedError = Some (error_json 422 ''actor_id_not_allowed'' ''actor_id must not be provided when authenticated'' [])"
| "mapping_error ActorIdRequiredError = Some (error_json 422 ''actor_id_required'' ''actor_id is required when not authenticated'' [])"
| "mapping_error TenantMismatchError = Some (validation_error [value_error_detail [''scope'', ''tenant_id''] ''path tenant_id does not match body scope.tenant_id''])"
| "mapping_error InvalidCorrelationIdError = Some (validation_error [value_error_detail [''header'', ''X-Correlation-Id''] ''correlation id must be a UUID''])"
| "mapping_error LimitOutOfRangeError = Some (validation_error [value_error_detail [''query'', ''limit''] ''limit must be between 1 and 100''])"
| "mapping_error _ = None"

fun service_error :: "(string \<Rightarrow> pyval list) \<Rightarrow> exn \<Rightarrow> http_response" where
  "service_error details (RequestValidationError msg) = validation_error (details msg)"
| "service_error details (ConfigurationError code message) = error_json 503 ''service_unavailable'' ''service is unavailable'' (configuration_error_details code message)"
| "service_error details (ReadinessError code) = \<lparr>hr_status_code = 503, hr_content = NotReadyBody code\<rparr>"
| "service_error details e = error_json 500 ''internal_error'' ''internal server error'' []"

definition exception_response :: "(string \<Rightarrow> pyval list) \<Rightarrow> exn \<Rightarrow> http_response" where
  "exception_response details e = (case List.map_filter (\<lambda>handler. handler e) [access_error, memory_error, execution_error, mapping_error] of
       response # _ \<Rightarrow> response | [] \<Rightarrow> service_error details e)"

definition respond :: "(string \<Rightarrow> pyval list) \<Rightarrow> http_response res \<Rightarrow> http_response" where
  "respond details r = (case r of Inl e \<Rightarrow> exception_response details e | Inr response \<Rightarrow> response)"

definition ok_json :: "http_body \<Rightarrow> http_response" where
  "ok_json content = \<lparr>hr_status_code = 200, hr_content = content\<rparr>"

section \<open>The endpoints\<close>

text \<open>
  What the application takes from its runtime. A handler sees the bound principal, by
  which it authorizes, and works on the stores \<open>'s\<close>; asking the runtime for a handler
  can raise, which is an error of the call.
\<close>

record 's control_api =
  ca_oidc_enabled :: bool
  ca_verifier :: "(string \<Rightarrow> principal res) option"
  ca_check_ready :: "'s \<Rightarrow> unit res \<times> 's"
  ca_record_episode :: "principal_context \<Rightarrow> record_episode_command \<Rightarrow> 's \<Rightarrow> record_episode_result res \<times> 's"
  ca_get_episode :: "principal_context \<Rightarrow> get_query \<Rightarrow> 's \<Rightarrow> episode res \<times> 's"
  ca_list_episodes :: "principal_context \<Rightarrow> list_query \<Rightarrow> 's \<Rightarrow> episode list_result res \<times> 's"
  ca_get_claim :: "principal_context \<Rightarrow> get_query \<Rightarrow> 's \<Rightarrow> claim res \<times> 's"
  ca_list_claims :: "principal_context \<Rightarrow> list_query \<Rightarrow> 's \<Rightarrow> claim list_result res \<times> 's"
  ca_start_execution :: "principal_context \<Rightarrow> start_execution_command \<Rightarrow> 's \<Rightarrow> start_execution_result res \<times> 's"
  ca_get_execution :: "principal_context \<Rightarrow> get_execution_snapshot_query \<Rightarrow> 's \<Rightarrow> execution_snapshot res \<times> 's"
  ca_cancel_execution :: "principal_context \<Rightarrow> cancel_execution_command \<Rightarrow> 's \<Rightarrow> execution_snapshot res \<times> 's"
  ca_list_executions :: "principal_context \<Rightarrow> list_executions_query \<Rightarrow> 's \<Rightarrow> execution_list_item list_result res \<times> 's"

text \<open>The parameters that every tenant endpoint has, and those of the reads.\<close>

record call_params =
  cp_tenant_id :: uuid
  cp_authorization :: "string option"

record query_params =
  qp_subject_id :: uuid
  qp_actor_id :: "uuid option"
  qp_workspace_id :: "string option"
  qp_agent_id :: "uuid option"

definition read_params_of :: "query_params \<Rightarrow> read_params" where
  "read_params_of q = \<lparr>rp_subject_id = SubjectId (qp_subject_id q), rp_workspace_id = qp_workspace_id q,
     rp_agent_id = map_option AgentInstanceId (qp_agent_id q)\<rparr>"

text \<open>\<open>Query(ge=1, le=100)\<close>, with its default.\<close>

definition limit_param :: "int option \<Rightarrow> int res" where
  "limit_param limit = (case limit of None \<Rightarrow> Inr 50
     | Some n \<Rightarrow> bindE (schema_bound (1 \<le> n \<and> n \<le> 100) ''limit'') (\<lambda>_. Inr n))"

definition in_auth_context ::
    "'s control_api \<Rightarrow> call_params \<Rightarrow> (principal option \<Rightarrow> principal_context \<Rightarrow> 's \<Rightarrow> 'a res \<times> 's)
      \<Rightarrow> principal_context \<Rightarrow> 's \<Rightarrow> 'a res \<times> principal_context \<times> 's" where
  "in_auth_context api c = tenant_auth_context (ca_oidc_enabled api) (cp_tenant_id c) (cp_authorization c) (ca_verifier api)"

text \<open>
  The body of an endpoint: build the command or query, give it to the handler, and make
  the response.
\<close>

definition commanding :: "'c res \<Rightarrow> ('c \<Rightarrow> 's \<Rightarrow> 'a res \<times> 's) \<Rightarrow> ('a \<Rightarrow> http_response res) \<Rightarrow> 's \<Rightarrow> http_response res \<times> 's" where
  "commanding command handle render s = (case command of
       Inl e \<Rightarrow> (Inl e, s)
     | Inr c \<Rightarrow> (case handle c s of (r, s') \<Rightarrow> (bindE r render, s')))"

definition health :: http_response where
  "health = ok_json (StatusBody ''ok'')"

definition ready :: "'s control_api \<Rightarrow> 's \<Rightarrow> http_response res \<times> 's" where
  "ready api s = (case ca_check_ready api s of
       (Inr _, s') \<Rightarrow> (Inr (ok_json (StatusBody ''ready'')), s')
     | (Inl (ReadinessError code), s') \<Rightarrow> (Inr \<lparr>hr_status_code = 503, hr_content = NotReadyBody code\<rparr>, s')
     | (Inl e, s') \<Rightarrow> (Inl e, s'))"

definition post_episode ::
    "'s control_api \<Rightarrow> correlation_id \<Rightarrow> call_params \<Rightarrow> string option \<Rightarrow> record_episode_request
      \<Rightarrow> principal_context \<Rightarrow> 's \<Rightarrow> http_response res \<times> principal_context \<times> 's" where
  "post_episode api fresh c x_correlation_id body ctx s = (case mk_record_episode_request body of
       Inl e \<Rightarrow> (Inl e, ctx, s)
     | Inr _ \<Rightarrow> in_auth_context api c (\<lambda>p ctx. commanding
         (bindE (parse_correlation_id fresh x_correlation_id) (\<lambda>i. to_command (TenantId (cp_tenant_id c)) i body p))
         (ca_record_episode api ctx)
         (\<lambda>result. Inr \<lparr>hr_status_code = (if rr_created result then 201 else 200), hr_content = RecordBody (to_response result)\<rparr>))
         ctx s)"

definition get_episode_by_id ::
    "'s control_api \<Rightarrow> call_params \<Rightarrow> uuid \<Rightarrow> query_params \<Rightarrow> principal_context \<Rightarrow> 's \<Rightarrow> http_response res \<times> principal_context \<times> 's" where
  "get_episode_by_id api c episode_id q = in_auth_context api c (\<lambda>p ctx. commanding
     (bindE (resolve_query_actor_id p (qp_actor_id q)) (\<lambda>resolved_actor_id.
        to_get_episode_query (TenantId (cp_tenant_id c)) (MemoryId episode_id) (Some resolved_actor_id) (read_params_of q) None))
     (ca_get_episode api ctx)
     (\<lambda>e. Inr (ok_json (EpisodeBody (episode_to_response e)))))"

definition list_episodes ::
    "'s control_api \<Rightarrow> call_params \<Rightarrow> query_params \<Rightarrow> int option \<Rightarrow> string option
      \<Rightarrow> principal_context \<Rightarrow> 's \<Rightarrow> http_response res \<times> principal_context \<times> 's" where
  "list_episodes api c q limit cursor ctx s = (case limit_param limit of
       Inl e \<Rightarrow> (Inl e, ctx, s)
     | Inr n \<Rightarrow> in_auth_context api c (\<lambda>p ctx. commanding
         (bindE (resolve_query_actor_id p (qp_actor_id q)) (\<lambda>resolved_actor_id.
            to_list_episodes_query (TenantId (cp_tenant_id c)) (Some resolved_actor_id) (read_params_of q) n cursor None))
         (ca_list_episodes api ctx)
         (\<lambda>r. Inr (ok_json (EpisodesBody (map episode_to_response (lr_items r)) (lr_next_cursor r))))) ctx s)"

definition get_claim_by_id ::
    "'s control_api \<Rightarrow> call_params \<Rightarrow> uuid \<Rightarrow> query_params \<Rightarrow> principal_context \<Rightarrow> 's \<Rightarrow> http_response res \<times> principal_context \<times> 's" where
  "get_claim_by_id api c claim_id q = in_auth_context api c (\<lambda>p ctx. commanding
     (bindE (resolve_query_actor_id p (qp_actor_id q)) (\<lambda>resolved_actor_id.
        to_get_claim_query (TenantId (cp_tenant_id c)) (MemoryId claim_id) (Some resolved_actor_id) (read_params_of q) p))
     (ca_get_claim api ctx)
     (\<lambda>claim. bindE (claim_to_response claim) (\<lambda>r. Inr (ok_json (ClaimBody r)))))"

definition list_claims ::
    "'s control_api \<Rightarrow> call_params \<Rightarrow> query_params \<Rightarrow> int option \<Rightarrow> string option
      \<Rightarrow> principal_context \<Rightarrow> 's \<Rightarrow> http_response res \<times> principal_context \<times> 's" where
  "list_claims api c q limit cursor ctx s = (case limit_param limit of
       Inl e \<Rightarrow> (Inl e, ctx, s)
     | Inr n \<Rightarrow> in_auth_context api c (\<lambda>p ctx. commanding
         (bindE (resolve_query_actor_id p (qp_actor_id q)) (\<lambda>resolved_actor_id.
            to_list_claims_query (TenantId (cp_tenant_id c)) (Some resolved_actor_id) (read_params_of q) n cursor p))
         (ca_list_claims api ctx)
         (\<lambda>r. bindE (mapE claim_to_response (lr_items r)) (\<lambda>items.
           Inr (ok_json (ClaimsBody items (lr_next_cursor r)))))) ctx s)"

definition post_execution ::
    "'s control_api \<Rightarrow> correlation_id \<Rightarrow> call_params \<Rightarrow> string option \<Rightarrow> start_execution_request
      \<Rightarrow> principal_context \<Rightarrow> 's \<Rightarrow> http_response res \<times> principal_context \<times> 's" where
  "post_execution api fresh c x_correlation_id body ctx s = (case mk_start_execution_request body of
       Inl e \<Rightarrow> (Inl e, ctx, s)
     | Inr _ \<Rightarrow> in_auth_context api c (\<lambda>p ctx. commanding
         (bindE (parse_correlation_id fresh x_correlation_id) (\<lambda>i. to_start_execution_command (TenantId (cp_tenant_id c)) i body p))
         (ca_start_execution api ctx)
         (\<lambda>result. Inr \<lparr>hr_status_code = (if sr_created result then 201 else 200), hr_content = StartBody (start_result_to_response result)\<rparr>))
         ctx s)"

definition list_executions ::
    "'s control_api \<Rightarrow> call_params \<Rightarrow> query_params \<Rightarrow> int option \<Rightarrow> string option
      \<Rightarrow> principal_context \<Rightarrow> 's \<Rightarrow> http_response res \<times> principal_context \<times> 's" where
  "list_executions api c q limit cursor ctx s = (case limit_param limit of
       Inl e \<Rightarrow> (Inl e, ctx, s)
     | Inr n \<Rightarrow> in_auth_context api c (\<lambda>p ctx. commanding
         (bindE (resolve_query_actor_id p (qp_actor_id q)) (\<lambda>resolved_actor_id.
            to_list_executions_query (TenantId (cp_tenant_id c)) (Some resolved_actor_id) (read_params_of q) n cursor None))
         (ca_list_executions api ctx)
         (\<lambda>r. bindE (mapE execution_list_item_to_response (lr_items r)) (\<lambda>items.
           Inr (ok_json (ExecutionsBody items (lr_next_cursor r)))))) ctx s)"

definition get_execution ::
    "'s control_api \<Rightarrow> call_params \<Rightarrow> uuid \<Rightarrow> query_params \<Rightarrow> principal_context \<Rightarrow> 's \<Rightarrow> http_response res \<times> principal_context \<times> 's" where
  "get_execution api c i q = in_auth_context api c (\<lambda>p ctx. commanding
     (bindE (resolve_query_actor_id p (qp_actor_id q)) (\<lambda>resolved_actor_id.
        to_get_execution_snapshot_query (TenantId (cp_tenant_id c)) (ExecutionId i) (Some resolved_actor_id) (read_params_of q) None))
     (ca_get_execution api ctx)
     (\<lambda>sn. Inr (ok_json (SnapshotBody (snapshot_to_response sn)))))"

definition post_cancel ::
    "'s control_api \<Rightarrow> correlation_id \<Rightarrow> call_params \<Rightarrow> uuid \<Rightarrow> string option \<Rightarrow> cancel_execution_request
      \<Rightarrow> principal_context \<Rightarrow> 's \<Rightarrow> http_response res \<times> principal_context \<times> 's" where
  "post_cancel api fresh c i x_correlation_id body ctx s = (case mk_cancel_execution_request body of
       Inl e \<Rightarrow> (Inl e, ctx, s)
     | Inr _ \<Rightarrow> in_auth_context api c (\<lambda>p ctx. commanding
         (bindE (parse_correlation_id fresh x_correlation_id) (\<lambda>j.
            to_cancel_execution_command (TenantId (cp_tenant_id c)) j (ExecutionId i) body p))
         (ca_cancel_execution api ctx)
         (\<lambda>sn. Inr (ok_json (SnapshotBody (snapshot_to_response sn))))) ctx s)"

section \<open>Who reaches a handler\<close>

text \<open>The principal of a call: verified, and of the tenant of the path.\<close>

definition authenticated :: "'s control_api \<Rightarrow> call_params \<Rightarrow> principal \<Rightarrow> bool" where
  "authenticated api c p \<longleftrightarrow> (\<exists>verify token. ca_verifier api = Some verify \<and> parse_bearer_token (cp_authorization c) = Inr token
     \<and> verify token = Inr p \<and> pr_tenant_id p = TenantId (cp_tenant_id c))"

lemma in_auth_context_cases:
  assumes "ca_oidc_enabled api" and "in_auth_context api c body ctx s = (r, ctx', s')"
  shows "ctx' = ctx \<and> ((\<exists>e. r = Inl e \<and> s' = s) \<or> (\<exists>p. authenticated api c p \<and> body (Some p) (Some p) s = (r, s')))"
proof -
  have a: "tenant_auth_context True (cp_tenant_id c) (cp_authorization c) (ca_verifier api) body ctx s = (r, ctx', s')"
    using assms by (simp add: in_auth_context_def)
  have "ctx' = ctx" using auth_context_restores [of True "cp_tenant_id c" "cp_authorization c" "ca_verifier api" body ctx s] a by simp
  with auth_context_runs [OF a] show ?thesis by (auto simp: authenticated_def)
qed

lemma in_auth_context_runs:
  assumes "ca_oidc_enabled api" and "authenticated api c p"
  shows "in_auth_context api c body ctx s = (case body (Some p) (Some p) s of (r, s') \<Rightarrow> (r, ctx, s'))"
proof -
  from assms(2) obtain verify token where v: "ca_verifier api = Some verify" "parse_bearer_token (cp_authorization c) = Inr token"
    "verify token = Inr p" "pr_tenant_id p = TenantId (cp_tenant_id c)" by (auto simp: authenticated_def)
  then have "authenticate_tenant_request (cp_tenant_id c) (cp_authorization c) verify = Inr p" by (simp add: authenticate_Inr)
  with v(1) assms(1) show ?thesis
    by (simp add: in_auth_context_def tenant_auth_context_def bind_principal_def reset_principal_def)
qed

lemma open_context_runs:
  "\<not> ca_oidc_enabled api \<Longrightarrow> in_auth_context api c body ctx s = (case body None ctx s of (r, s') \<Rightarrow> (r, ctx, s'))"
  by (simp add: in_auth_context_def tenant_auth_context_def)

lemma resolve_principal: "resolve_actor_id (Some p) a = Inr i \<longleftrightarrow> a = None \<and> i = pr_actor_id p"
  by (auto simp: resolve_actor_id_def)

lemma scope_from_request_Inr: "scope_from_request t q = Inr sc \<Longrightarrow> ms_tenant_id sc = t"
  by (auto simp: scope_from_request_def bindE_eq_Inr mk_memory_scope_Inr)

lemma query_scope_Inr: "query_scope t q = Inr sc \<Longrightarrow> ms_tenant_id sc = t"
  by (auto simp: query_scope_def mk_memory_scope_Inr)

lemma to_command_Inr:
  "to_command t i body (Some p) = Inr command \<Longrightarrow> rc_actor_id command = pr_actor_id p \<and> ms_tenant_id (rc_scope command) = t"
  by (auto simp: to_command_def bindE_eq_Inr mk_record_episode_command_Inr mk_memory_scope_Inr resolve_principal)

lemma to_start_command_Inr:
  "to_start_execution_command t i body (Some p) = Inr command \<Longrightarrow> sc_actor_id command = pr_actor_id p \<and> ms_tenant_id (sc_scope command) = t"
  by (auto simp: to_start_execution_command_def bindE_eq_Inr mk_start_execution_command_def resolve_principal dest: scope_from_request_Inr)

lemma to_cancel_command_Inr:
  "to_cancel_execution_command t i x body (Some p) = Inr command \<Longrightarrow> cc_actor_id command = pr_actor_id p \<and> ms_tenant_id (cc_scope command) = t"
  by (auto simp: to_cancel_execution_command_def bindE_eq_Inr mk_cancel_execution_command_def resolve_principal dest: scope_from_request_Inr)

text \<open>An answer that a handler gave to a command of the principal, for its own tenant.\<close>

definition own_command :: "principal \<Rightarrow> subject_id \<Rightarrow> memory_scope \<Rightarrow> bool" where
  "own_command p actor scope \<longleftrightarrow> actor = pr_actor_id p \<and> ms_tenant_id scope = pr_tenant_id p"

text \<open>An endpoint changes the stores only by the handler, on the command of the principal.\<close>

definition handled_by ::
    "'s control_api \<Rightarrow> call_params \<Rightarrow> (principal option \<Rightarrow> 'c res) \<Rightarrow> (principal_context \<Rightarrow> 'c \<Rightarrow> 's \<Rightarrow> 'a res \<times> 's)
      \<Rightarrow> ('a \<Rightarrow> http_response res) \<Rightarrow> 's \<Rightarrow> http_response res \<Rightarrow> 's \<Rightarrow> bool" where
  "handled_by api c command handle render s r s' \<longleftrightarrow> (\<exists>e. r = Inl e \<and> s' = s)
     \<or> (\<exists>p k. authenticated api c p \<and> command (Some p) = Inr k \<and> s' = snd (handle (Some p) k s)
          \<and> r = bindE (fst (handle (Some p) k s)) render)"

lemma commanding_handled:
  assumes "ca_oidc_enabled api"
    and "in_auth_context api c (\<lambda>p ctx. commanding (command p) (handle ctx) render) ctx s = (r, ctx', s')"
  shows "ctx' = ctx \<and> handled_by api c command handle render s r s'"
proof -
  have "handled_by api c command handle render s r s'"
    if p: "authenticated api c p" and b: "commanding (command (Some p)) (handle (Some p)) render s = (r, s')" for p
  proof (cases "command (Some p)")
    case (Inl e)
    with b show ?thesis by (auto simp: commanding_def handled_by_def)
  next
    case (Inr k)
    obtain x s1 where x: "handle (Some p) k s = (x, s1)" by fastforce
    with b Inr have "r = bindE x render" "s' = s1" by (simp_all add: commanding_def)
    with p Inr x have "authenticated api c p \<and> command (Some p) = Inr k \<and> s' = snd (handle (Some p) k s)
        \<and> r = bindE (fst (handle (Some p) k s)) render" by simp
    then show ?thesis unfolding handled_by_def by blast
  qed
  with in_auth_context_cases [OF assms] show ?thesis by (auto simp: handled_by_def)
qed

definition answered_own ::
    "'s control_api \<Rightarrow> call_params \<Rightarrow> ('c \<Rightarrow> subject_id) \<Rightarrow> ('c \<Rightarrow> memory_scope) \<Rightarrow> (principal_context \<Rightarrow> 'c \<Rightarrow> 's \<Rightarrow> 'a res \<times> 's) \<Rightarrow> 's
      \<Rightarrow> http_response res \<Rightarrow> 's \<Rightarrow> bool" where
  "answered_own api c actor scope handle s r s' \<longleftrightarrow> (\<exists>e. r = Inl e \<and> s' = s)
     \<or> (\<exists>p k render. authenticated api c p \<and> own_command p (actor k) (scope k) \<and> ms_tenant_id (scope k) = TenantId (cp_tenant_id c)
          \<and> s' = snd (handle (Some p) k s) \<and> r = bindE (fst (handle (Some p) k s)) render)"

lemma handled_own:
  assumes "handled_by api c command handle render s r s'"
    and "\<And>p k. command (Some p) = Inr k \<Longrightarrow> actor k = pr_actor_id p \<and> ms_tenant_id (scope k) = TenantId (cp_tenant_id c)"
  shows "answered_own api c actor scope handle s r s'"
  using assms by (fastforce simp: handled_by_def answered_own_def own_command_def authenticated_def)

lemma no_call_own: "answered_own api c actor scope handle s (Inl e) s"
  by (simp add: answered_own_def)

lemma query_resolves:
  assumes "bindE (resolve_query_actor_id (Some p) a) (\<lambda>i. f i) = Inr k"
  shows "a = None \<and> f (pr_actor_id p) = Inr k"
  using assms by (auto simp: resolve_query_actor_id_def bindE_eq_Inr resolve_principal)

text \<open>Without its principal a query keeps the actor that was resolved before.\<close>

lemma resolve_given: "resolve_actor_id None (map_option subject_uuid (Some i)) = Inr i"
  by (simp add: resolve_actor_id_def)

lemma read_query_own:
  "to_get_episode_query t m (Some i) q None = Inr k \<Longrightarrow> gq_actor_id k = i \<and> ms_tenant_id (gq_scope k) = t"
  "to_list_episodes_query t (Some i) q n cur None = Inr l \<Longrightarrow> lq_actor_id l = i \<and> ms_tenant_id (lq_scope l) = t"
  "to_list_executions_query t (Some i) q n cur None = Inr x \<Longrightarrow> le_actor_id x = i \<and> ms_tenant_id (le_scope x) = t"
  "to_get_execution_snapshot_query t e (Some i) q None = Inr g \<Longrightarrow> ge_actor_id g = i \<and> ms_tenant_id (ge_scope g) = t"
  by (auto simp: to_get_episode_query_def to_list_episodes_query_def to_list_executions_query_def to_get_execution_snapshot_query_def
      bindE_eq_Inr resolve_given mk_list_query_Inr mk_list_executions_query_def simp del: option.map dest: query_scope_Inr)

text \<open>With it, the actor is found to be given twice.\<close>

lemma claim_query_refused:
  "to_get_claim_query t m (Some i) q (Some p) = Inl ActorIdNotAllowedError"
  "1 \<le> n \<Longrightarrow> n \<le> 100 \<Longrightarrow> to_list_claims_query t (Some i) q n cur (Some p) = Inl ActorIdNotAllowedError"
  by (simp_all add: to_get_claim_query_def to_list_claims_query_def resolve_actor_id_def)

lemma limit_param_Inr: "limit_param limit = Inr n \<Longrightarrow> 1 \<le> n \<and> n \<le> 100"
  by (auto simp: limit_param_def schema_bound_def bindE_eq_Inr split: option.splits)

lemma endpoint_own:
  assumes "ca_oidc_enabled api"
    and "in_auth_context api c (\<lambda>p ctx. commanding (command p) (handle ctx) render) ctx s = (r, ctx', s')"
    and "\<And>p k. command (Some p) = Inr k \<Longrightarrow> actor k = pr_actor_id p \<and> ms_tenant_id (scope k) = TenantId (cp_tenant_id c)"
  shows "ctx' = ctx \<and> answered_own api c actor scope handle s r s'"
proof -
  have h: "ctx' = ctx \<and> handled_by api c command handle render s r s'"
    by (rule commanding_handled [OF assms(1,2)])
  moreover have "answered_own api c actor scope handle s r s'"
    by (rule handled_own [OF conjunct2 [OF h]]) (rule assms(3))
  ultimately show ?thesis by simp
qed

lemma post_episode_own:
  assumes "ca_oidc_enabled api" and "post_episode api fresh c h body ctx s = (r, ctx', s')"
  shows "ctx' = ctx \<and> answered_own api c rc_actor_id rc_scope (ca_record_episode api) s r s'"
proof (cases "mk_record_episode_request body")
  case (Inr b)
  show ?thesis
    by (rule endpoint_own [OF assms(1) assms(2) [unfolded post_episode_def Inr sum.case]])
       (auto dest: to_command_Inr simp: bindE_eq_Inr)
qed (use assms(2) in \<open>auto simp: post_episode_def no_call_own\<close>)

lemma post_execution_own:
  assumes "ca_oidc_enabled api" and "post_execution api fresh c h body ctx s = (r, ctx', s')"
  shows "ctx' = ctx \<and> answered_own api c sc_actor_id sc_scope (ca_start_execution api) s r s'"
proof (cases "mk_start_execution_request body")
  case (Inr b)
  show ?thesis
    by (rule endpoint_own [OF assms(1) assms(2) [unfolded post_execution_def Inr sum.case]])
       (auto dest: to_start_command_Inr simp: bindE_eq_Inr)
qed (use assms(2) in \<open>auto simp: post_execution_def no_call_own\<close>)

lemma post_cancel_own:
  assumes "ca_oidc_enabled api" and "post_cancel api fresh c i h body ctx s = (r, ctx', s')"
  shows "ctx' = ctx \<and> answered_own api c cc_actor_id cc_scope (ca_cancel_execution api) s r s'"
proof (cases "mk_cancel_execution_request body")
  case (Inr b)
  show ?thesis
    by (rule endpoint_own [OF assms(1) assms(2) [unfolded post_cancel_def Inr sum.case]])
       (auto dest: to_cancel_command_Inr simp: bindE_eq_Inr)
qed (use assms(2) in \<open>auto simp: post_cancel_def no_call_own\<close>)

lemma get_episode_own:
  assumes "ca_oidc_enabled api" and "get_episode_by_id api c i q ctx s = (r, ctx', s')"
  shows "ctx' = ctx \<and> answered_own api c gq_actor_id gq_scope (ca_get_episode api) s r s'"
  by (rule endpoint_own [OF assms(1) assms(2) [unfolded get_episode_by_id_def]])
     (auto dest!: query_resolves read_query_own)

lemma get_execution_own:
  assumes "ca_oidc_enabled api" and "get_execution api c i q ctx s = (r, ctx', s')"
  shows "ctx' = ctx \<and> answered_own api c ge_actor_id ge_scope (ca_get_execution api) s r s'"
  by (rule endpoint_own [OF assms(1) assms(2) [unfolded get_execution_def]])
     (auto dest!: query_resolves read_query_own)

lemma list_episodes_own:
  assumes "ca_oidc_enabled api" and "list_episodes api c q limit cursor ctx s = (r, ctx', s')"
  shows "ctx' = ctx \<and> answered_own api c lq_actor_id lq_scope (ca_list_episodes api) s r s'"
proof (cases "limit_param limit")
  case (Inr n)
  show ?thesis
    by (rule endpoint_own [OF assms(1) assms(2) [unfolded list_episodes_def Inr sum.case]])
       (auto dest!: query_resolves read_query_own)
qed (use assms(2) in \<open>auto simp: list_episodes_def no_call_own\<close>)

lemma list_executions_own:
  assumes "ca_oidc_enabled api" and "list_executions api c q limit cursor ctx s = (r, ctx', s')"
  shows "ctx' = ctx \<and> answered_own api c le_actor_id le_scope (ca_list_executions api) s r s'"
proof (cases "limit_param limit")
  case (Inr n)
  show ?thesis
    by (rule endpoint_own [OF assms(1) assms(2) [unfolded list_executions_def Inr sum.case]])
       (auto dest!: query_resolves read_query_own)
qed (use assms(2) in \<open>auto simp: list_executions_def no_call_own\<close>)

lemma claim_reads_refused:
  assumes "ca_oidc_enabled api" and "authenticated api c p"
  shows "get_claim_by_id api c i q ctx s = (Inl ActorIdNotAllowedError, ctx, s)"
    and "limit_param limit = Inr n \<Longrightarrow> list_claims api c q limit cursor ctx s = (Inl ActorIdNotAllowedError, ctx, s)"
proof -
  show "get_claim_by_id api c i q ctx s = (Inl ActorIdNotAllowedError, ctx, s)"
    by (cases "qp_actor_id q") (simp_all add: get_claim_by_id_def in_auth_context_runs [OF assms] commanding_def
      resolve_query_actor_id_def resolve_actor_id_def claim_query_refused)
  assume l: "limit_param limit = Inr n"
  then have n: "1 \<le> n" "n \<le> 100" using limit_param_Inr by blast+
  show "list_claims api c q limit cursor ctx s = (Inl ActorIdNotAllowedError, ctx, s)"
    by (cases "qp_actor_id q") (simp_all add: list_claims_def l in_auth_context_runs [OF assms] commanding_def
      resolve_query_actor_id_def resolve_actor_id_def claim_query_refused(2) [OF n])
qed

end
