(* ===== verification/Temporal_Index.thy ===== *)
theory Temporal_Index
  imports Temporal_Orchestrator Runtime_Postgres
begin

text \<open>
  The orchestrator of \<open>adapters/temporal/orchestrator.py\<close> over any index: its constructor
  takes a \<open>RuntimeDatabasePort\<close>, which is the in-memory database in \<open>Temporal_Orchestrator\<close>
  and the relational one in the running program. Index, service and snapshot writer work
  on one state \<open>'s\<close>, because the relational index and the writer share their tables.
\<close>

record 's index_port =
  ip_write :: "'s \<Rightarrow> write_callback \<Rightarrow> unit res \<times> 's"
  ip_load :: "'s \<Rightarrow> committed_runtime_state res"

definition port_start_workflow ::
    "'s index_port \<Rightarrow> 's temporal_client \<Rightarrow> bool \<Rightarrow> execution_spec \<Rightarrow> execution_id \<Rightarrow> 's \<Rightarrow> unit res \<times> 's" where
  "port_start_workflow index client rollback spec i s =
     (case tc_start client s (workflow_id (ms_tenant_id (sp_scope spec)) i)
         (spec_to_payload (if sp_id spec = i then spec else spec\<lparr>sp_id := i\<rparr>)) of
        (WorkflowStarted, s') \<Rightarrow> (Inr (), s')
      | (WorkflowAlreadyStarted, s') \<Rightarrow>
          (bindE (ip_load index s') (\<lambda>state. case dict_get (cr_fingerprints state) i of
              None \<Rightarrow> Inl ExecutionIdempotencyConflict
            | Some stored \<Rightarrow> raise_if (\<not> fps_eq stored (spec_fingerprint spec)) ExecutionIdempotencyConflict), s')
      | (StartRpcError st, s') \<Rightarrow>
          if rollback then (case ip_write index s' (rollback_callback (index_key spec) i) of
              (Inl e, s'') \<Rightarrow> (Inl e, s'')
            | (Inr _, s'') \<Rightarrow> (Inl OrchestrationUnavailable, s''))
          else (Inl OrchestrationUnavailable, s'))"

text \<open>The callback leaves its result in a variable: it is read off the state that the write found.\<close>

definition port_start ::
    "'s index_port \<Rightarrow> 's temporal_client \<Rightarrow> ('s \<Rightarrow> execution_snapshot \<Rightarrow> unit res \<times> 's) option \<Rightarrow> execution_spec \<Rightarrow> 's
      \<Rightarrow> execution_snapshot res \<times> 's" where
  "port_start index client snapshot_writer spec s =
     (case ip_write index s (register_callback spec) of
        (Inl e, s1) \<Rightarrow> (Inl e, s1)
      | (Inr _, s1) \<Rightarrow> (case ip_load index s of
          Inl e \<Rightarrow> (Inl e, s1)
        | Inr state \<Rightarrow> (case start_result state spec of (i, is_new) \<Rightarrow>
          if is_new then
            (case port_start_workflow index client True spec i s1 of
               (Inl e, s2) \<Rightarrow> (Inl e, s2)
             | (Inr _, s2) \<Rightarrow> (case query_snapshot client s2 (ms_tenant_id (sp_scope spec)) i (sp_scope spec) of
                   (Inl e, s3) \<Rightarrow> (Inl e, s3)
                 | (Inr snapshot, s3) \<Rightarrow> (case snapshot_writer of
                       None \<Rightarrow> (Inr snapshot, s3)
                     | Some upsert \<Rightarrow> (case upsert s3 snapshot of
                           (Inl e, s4) \<Rightarrow> (Inl e, s4)
                         | (Inr _, s4) \<Rightarrow> (Inr snapshot, s4)))))
          else
            (case query_snapshot client s1 (ms_tenant_id (sp_scope spec)) i (sp_scope spec) of
               (Inl ExecutionNotFound, s2) \<Rightarrow>
                 (case port_start_workflow index client False spec i s2 of
                    (Inl e, s3) \<Rightarrow> (Inl e, s3)
                  | (Inr _, s3) \<Rightarrow> query_snapshot client s3 (ms_tenant_id (sp_scope spec)) i (sp_scope spec))
             | (r, s2) \<Rightarrow> (r, s2)))))"

section \<open>The in-memory index\<close>

text \<open>The operations of one component of a pair.\<close>

definition on_service :: "'c temporal_client \<Rightarrow> ('d \<times> 'c) temporal_client" where
  "on_service client = \<lparr>tc_start = (\<lambda>s w p. case tc_start client (snd s) w p of (a, c) \<Rightarrow> (a, fst s, c)),
     tc_query = (\<lambda>s w. case tc_query client (snd s) w of (a, c) \<Rightarrow> (a, fst s, c)),
     tc_signal = (\<lambda>s w. case tc_signal client (snd s) w of (a, c) \<Rightarrow> (a, fst s, c))\<rparr>"

definition in_memory_index :: "(committed_runtime_state \<times> 'c) index_port" where
  "in_memory_index = \<lparr>ip_write = (\<lambda>s callback. case db_write (fst s) callback of (r, db) \<Rightarrow> (r, db, snd s)),
     ip_load = (\<lambda>s. Inr (fst s))\<rparr>"

lemma query_on_service:
  "query_snapshot (on_service client) s tenant i scope = (case query_snapshot client (snd s) tenant i scope of (r, c) \<Rightarrow> (r, fst s, c))"
  by (simp add: query_snapshot_def on_service_def split: prod.split query_answer.split rpc_status.split pyval.split)

lemma cancel_on_service:
  "temporal_cancel (on_service client) s scope i key = (case temporal_cancel client (snd s) scope i key of (r, c) \<Rightarrow> (r, fst s, c))"
proof -
  have poll: "poll_cancel (on_service client) n s scope i = (case poll_cancel client n (snd s) scope i of (r, c) \<Rightarrow> (r, fst s, c))" for n s
    by (induction n arbitrary: s) (simp_all add: query_on_service split: prod.split sum.split)
  have signal: "tc_signal (on_service client) s w = (case tc_signal client (snd s) w of (a, c) \<Rightarrow> (a, fst s, c))" for s w
    by (simp add: on_service_def)
  obtain r1 c1 where q1: "query_snapshot client (snd s) (ms_tenant_id scope) i scope = (r1, c1)" by fastforce
  obtain d c2 where t: "tc_signal client c1 (workflow_id (ms_tenant_id scope) i) = (d, c2)" by fastforce
  obtain r3 c3 where q3: "query_snapshot client c2 (ms_tenant_id scope) i scope = (r3, c3)" by fastforce
  show ?thesis
    by (cases r1; cases d; cases r3) (simp_all add: temporal_cancel_def query_on_service poll signal q1 t q3)
qed

lemma start_workflow_in_memory:
  "port_start_workflow in_memory_index (on_service client) rollback spec i s = start_workflow_or_raise client rollback spec i s"
  by (cases s) (simp add: port_start_workflow_def start_workflow_or_raise_def in_memory_index_def on_service_def
      split: prod.split start_answer.split option.split sum.split)

text \<open>Over the in-memory index this is the orchestrator that \<open>Temporal_Orchestrator\<close> describes.\<close>

lemma port_start_in_memory:
  "port_start in_memory_index (on_service client) (map_option (\<lambda>upsert s x. case upsert (snd s) x of (r, c) \<Rightarrow> (r, fst s, c)) writer) spec s
     = temporal_start client writer s spec"
proof -
  obtain db c where s: "s = (db, c)" by fastforce
  have w: "ip_write in_memory_index s f = (case db_write db f of (r, db') \<Rightarrow> (r, db', c))" for f by (simp add: in_memory_index_def s)
  have l: "ip_load in_memory_index s = Inr db" by (simp add: in_memory_index_def s)
  show ?thesis
    unfolding port_start_def temporal_start_def w l start_workflow_in_memory query_on_service
    by (simp add: s split: prod.split sum.split option.split exn.split)
qed

end
