(* ===== verification/Control_Api.thy ===== *)
theory Control_Api
  imports Lifecycle Http_App Temporal_Index
begin

text \<open>
  The running program: the endpoints over the handlers that the runtime gives them
  (\<open>create_app\<close> in \<open>bootstrap/http/app.py\<close>), the handlers over the stores their database
  objects name, and the relays of the runtime (\<open>relay_outbox_once\<close> and its twin in
  \<open>bootstrap/composition.py\<close>) with the publishers they were given.
\<close>

section \<open>Stores and drivers\<close>

text \<open>
  The tables of the database, the process's own runtime state, and the Temporal service.
  Every database object of the runtime connects to the one database of the settings.
\<close>

record 'c stores =
  so_memory :: pg_memory
  so_inbox :: inbox
  so_runtime :: pg_runtime
  so_local :: committed_runtime_state
  so_service :: 'c

text \<open>What one call draws: clocks, identifiers, and what other processes do meanwhile.\<close>

record 'c driver =
  dv_now :: datetime
  dv_correlation_id :: correlation_id
  dv_memory_id :: memory_id
  dv_event_id :: event_id
  dv_claim_ids :: "event_id \<Rightarrow> nat \<Rightarrow> memory_id"
  dv_claim_event_ids :: "event_id \<Rightarrow> nat \<Rightarrow> event_id"
  dv_execution_id :: execution_id
  dv_event_ids :: "nat \<Rightarrow> nat \<Rightarrow> event_id"
  dv_stamp :: "nat \<Rightarrow> datetime"
  dv_others :: "nat \<Rightarrow> pg_runtime \<Rightarrow> pg_runtime"
  dv_client :: "'c temporal_client"
  dv_float_of :: "string \<Rightarrow> pyfloat res"
  dv_int_of :: "string \<Rightarrow> int res"
  dv_reached :: "unit res"
  dv_lent :: "unit res"
  dv_selected :: "unit res"

type_synonym ('t, 'c) server = "'t app_state \<times> 'c stores"

section \<open>Orchestrators\<close>

definition stores_client :: "'c temporal_client \<Rightarrow> 'c stores temporal_client" where
  "stores_client client = \<lparr>tc_start = (\<lambda>s w p. case tc_start client (so_service s) w p of (a, c) \<Rightarrow> (a, s\<lparr>so_service := c\<rparr>)),
     tc_query = (\<lambda>s w. case tc_query client (so_service s) w of (a, c) \<Rightarrow> (a, s\<lparr>so_service := c\<rparr>)),
     tc_signal = (\<lambda>s w. case tc_signal client (so_service s) w of (a, c) \<Rightarrow> (a, s\<lparr>so_service := c\<rparr>))\<rparr>"

fun stores_index :: "'c driver \<Rightarrow> runtime_store \<Rightarrow> 'c stores index_port" where
  "stores_index dv (PostgresRuntimeStore _) = \<lparr>ip_write = (\<lambda>s callback.
       case pg_write (dv_others dv) (dv_stamp dv) (\<lambda>_. callback) (so_runtime s) of (r, t) \<Rightarrow> (r, s\<lparr>so_runtime := t\<rparr>)),
     ip_load = (\<lambda>s. load_state (so_runtime s))\<rparr>"
| "stores_index dv InMemoryRuntimeStore = \<lparr>ip_write = (\<lambda>s callback.
       case db_write (so_local s) callback of (r, db) \<Rightarrow> (r, s\<lparr>so_local := db\<rparr>)),
     ip_load = (\<lambda>s. Inr (so_local s))\<rparr>"

definition stores_upsert :: "'c stores \<Rightarrow> execution_snapshot \<Rightarrow> unit res \<times> 'c stores" where
  "stores_upsert s snapshot =
     (Inr (), s\<lparr>so_runtime := (so_runtime s)\<lparr>pr_snapshots := pg_upsert_snapshot (pr_snapshots (so_runtime s)) snapshot\<rparr>\<rparr>)"

fun orchestrator_start :: "'c driver \<Rightarrow> orchestrator_port \<Rightarrow> 'c stores \<Rightarrow> execution_spec \<Rightarrow> execution_snapshot res \<times> 'c stores" where
  "orchestrator_start dv (InMemoryOrchestrator (PostgresRuntimeStore _)) s spec =
     (case pg_start (dv_others dv) (dv_stamp dv) (dv_event_ids dv) (dv_now dv) (so_runtime s) spec of (r, t) \<Rightarrow> (r, s\<lparr>so_runtime := t\<rparr>))"
| "orchestrator_start dv (InMemoryOrchestrator InMemoryRuntimeStore) s spec =
     (case start (dv_event_ids dv 0) (dv_now dv) (so_local s) spec of (r, db) \<Rightarrow> (r, s\<lparr>so_local := db\<rparr>))"
| "orchestrator_start dv (TemporalOrchestrator client task_queue database writer) s spec =
     port_start (stores_index dv database) (stores_client (dv_client dv)) (map_option (\<lambda>_. stores_upsert) writer) spec s"

fun orchestrator_get :: "'c driver \<Rightarrow> orchestrator_port \<Rightarrow> 'c stores \<Rightarrow> memory_scope \<Rightarrow> execution_id \<Rightarrow> execution_snapshot res \<times> 'c stores" where
  "orchestrator_get dv (InMemoryOrchestrator (PostgresRuntimeStore _)) s scope i = (pg_get (so_runtime s) scope i, s)"
| "orchestrator_get dv (InMemoryOrchestrator InMemoryRuntimeStore) s scope i = (get_snapshot (so_local s) scope i, s)"
| "orchestrator_get dv (TemporalOrchestrator client task_queue database writer) s scope i =
     temporal_get (stores_client (dv_client dv)) s scope i"

fun orchestrator_cancel ::
    "'c driver \<Rightarrow> orchestrator_port \<Rightarrow> 'c stores \<Rightarrow> memory_scope \<Rightarrow> execution_id \<Rightarrow> string \<Rightarrow> execution_snapshot res \<times> 'c stores" where
  "orchestrator_cancel dv (InMemoryOrchestrator (PostgresRuntimeStore _)) s scope i key =
     (case pg_cancel (dv_others dv) (dv_stamp dv) (dv_event_ids dv) (dv_now dv) (so_runtime s) scope i key of (r, t) \<Rightarrow> (r, s\<lparr>so_runtime := t\<rparr>))"
| "orchestrator_cancel dv (InMemoryOrchestrator InMemoryRuntimeStore) s scope i key =
     (case cancel (dv_event_ids dv 0) (dv_now dv) (so_local s) scope i key of (r, db) \<Rightarrow> (r, s\<lparr>so_local := db\<rparr>))"
| "orchestrator_cancel dv (TemporalOrchestrator client task_queue database writer) s scope i key =
     temporal_cancel (stores_client (dv_client dv)) s scope i key"

fun stream_executions :: "snapshot_store \<Rightarrow> 'c stores \<Rightarrow> memory_scope \<Rightarrow> int option \<Rightarrow> string option \<Rightarrow> execution_snapshot list res" where
  "stream_executions (PostgresSnapshotStore _) s = pg_execution_stream (so_runtime s)"
| "stream_executions (DatabaseAsStore (PostgresRuntimeStore _)) s = pg_execution_stream (so_runtime s)"
| "stream_executions (DatabaseAsStore InMemoryRuntimeStore) s = execution_stream (so_local s)"

section \<open>The application\<close>

text \<open>\<open>await runtime.<name>_handler().handle(command)\<close>.\<close>

definition with_handler ::
    "(app_runtime \<Rightarrow> 'h res \<times> app_runtime) \<Rightarrow> ('h \<Rightarrow> 'c stores \<Rightarrow> 'a res \<times> 'c stores) \<Rightarrow> ('t, 'c) server \<Rightarrow> 'a res \<times> ('t, 'c) server" where
  "with_handler accessor run s = (case s of ((rt, w), st) \<Rightarrow> (case accessor rt of
       (Inl e, rt') \<Rightarrow> (Inl e, ((rt', w), st))
     | (Inr h, rt') \<Rightarrow> (case run h st of (r, st') \<Rightarrow> (r, ((rt', w), st')))))"

definition reading :: "('q \<Rightarrow> bool res) \<Rightarrow> 'q \<Rightarrow> (('q \<Rightarrow> bool) \<Rightarrow> 'a res) \<Rightarrow> 's \<Rightarrow> 'a res \<times> 's" where
  "reading authorize request handle = authorizing authorize request (\<lambda>allowed s. (handle allowed, s))"

text \<open>The requests that the handlers of the runtime module authorize.\<close>

definition execution_request :: "subject_id \<Rightarrow> memory_scope \<Rightarrow> string \<Rightarrow> runtime_authorization_request" where
  "execution_request actor scope action = \<lparr>ra_actor_id = actor, ra_scope = scope, ra_action = action\<rparr>"

definition create_app ::
    "'t migration list \<Rightarrow> jwt_library \<Rightarrow> token_verifier option \<Rightarrow> 'c driver \<Rightarrow> app_runtime \<Rightarrow> ('t, 'c) server control_api" where
  "create_app files lib override dv rt = \<lparr>
     ca_oidc_enabled = oi_enabled (as_oidc (rt_settings rt)),
     ca_verifier = map_option (verify_token lib) (case override of Some v \<Rightarrow> Some v | None \<Rightarrow> rt_token_verifier rt),
     ca_check_ready = (\<lambda>s. case check_ready files (dv_reached dv) (dv_lent dv) (dv_selected dv) (fst s) of (r, a) \<Rightarrow> (r, a, snd s)),
     ca_record_episode = (\<lambda>ctx c. with_handler record_episode_handler (\<lambda>h.
       authorizing (mh_authorize h ctx) (record_request c) (\<lambda>allowed st.
         case record_episode_handle (postgres_port (dv_float_of dv)) allowed (dv_now dv) (dv_memory_id dv) (dv_event_id dv) (so_memory st) c of
           (r, m) \<Rightarrow> (r, st\<lparr>so_memory := m\<rparr>)))),
     ca_get_episode = (\<lambda>ctx q. with_handler get_episode_handler (\<lambda>h st.
       reading (mh_authorize h ctx) (read_request q ''read_episode'')
         (\<lambda>allowed. get_episode_handle (postgres_port (dv_float_of dv)) allowed (so_memory st) q) st)),
     ca_list_episodes = (\<lambda>ctx q. with_handler list_episodes_handler (\<lambda>h st.
       reading (mh_authorize h ctx) (list_request q ''read_episode'')
         (\<lambda>allowed. list_episodes_handle (postgres_port (dv_float_of dv)) allowed (so_memory st) q) st)),
     ca_get_claim = (\<lambda>ctx q. with_handler get_claim_handler (\<lambda>h st.
       reading (mh_authorize h ctx) (read_request q ''read_claim'')
         (\<lambda>allowed. get_claim_handle (postgres_port (dv_float_of dv)) allowed (so_memory st) q) st)),
     ca_list_claims = (\<lambda>ctx q. with_handler list_claims_handler (\<lambda>h st.
       reading (mh_authorize h ctx) (list_request q ''read_claim'')
         (\<lambda>allowed. list_claims_handle (postgres_port (dv_float_of dv)) allowed (so_memory st) q) st)),
     ca_start_execution = (\<lambda>ctx c. with_handler start_execution_handler (\<lambda>h.
       authorizing (eh_authorize h ctx) (execution_request (sc_actor_id c) (sc_scope c) ''start_execution'') (\<lambda>allowed st.
         start_execution_handle allowed (dv_execution_id dv) (orchestrator_start dv (eh_orchestrator h)) st c))),
     ca_get_execution = (\<lambda>ctx q. with_handler get_execution_snapshot_handler (\<lambda>h.
       authorizing (eh_authorize h ctx) (execution_request (ge_actor_id q) (ge_scope q) ''get_execution'') (\<lambda>allowed st.
         case orchestrator_get dv (eh_orchestrator h) st (ge_scope q) (ge_execution_id q) of (r, st') \<Rightarrow>
           (get_execution_snapshot_handle allowed (\<lambda>_ _. r) q,
            if allowed (execution_request (ge_actor_id q) (ge_scope q) ''get_execution'') then st' else st)))),
     ca_cancel_execution = (\<lambda>ctx c. with_handler cancel_execution_handler (\<lambda>h.
       authorizing (eh_authorize h ctx) (execution_request (cc_actor_id c) (cc_scope c) ''cancel_execution'') (\<lambda>allowed st.
         cancel_execution_handle allowed (orchestrator_cancel dv (eh_orchestrator h)) st c))),
     ca_list_executions = (\<lambda>ctx q. with_handler list_executions_handler (\<lambda>h st.
       reading (lh_authorize h ctx) (execution_request (le_actor_id q) (le_scope q) ''get_execution'')
         (\<lambda>allowed. list_executions_handle allowed (stream_executions (lh_store h) st) q) st))\<rparr>"

section \<open>Requests\<close>

text \<open>A request after the framework's routing and typing.\<close>

datatype http_request =
    GetHealth
  | GetReady
  | PostEpisode call_params "string option" record_episode_request
  | GetEpisodeById call_params uuid query_params
  | GetEpisodes call_params query_params "int option" "string option"
  | GetClaimById call_params uuid query_params
  | GetClaims call_params query_params "int option" "string option"
  | PostExecution call_params "string option" start_execution_request
  | GetExecutions call_params query_params "int option" "string option"
  | GetExecutionById call_params uuid query_params
  | PostCancel call_params uuid "string option" cancel_execution_request

fun serve :: "'s control_api \<Rightarrow> correlation_id \<Rightarrow> http_request \<Rightarrow> principal_context \<Rightarrow> 's \<Rightarrow> http_response res \<times> principal_context \<times> 's" where
  "serve api fresh GetHealth ctx s = (Inr health, ctx, s)"
| "serve api fresh GetReady ctx s = (case ready api s of (r, s') \<Rightarrow> (r, ctx, s'))"
| "serve api fresh (PostEpisode c h body) ctx s = post_episode api fresh c h body ctx s"
| "serve api fresh (GetEpisodeById c i q) ctx s = get_episode_by_id api c i q ctx s"
| "serve api fresh (GetEpisodes c q limit cursor) ctx s = list_episodes api c q limit cursor ctx s"
| "serve api fresh (GetClaimById c i q) ctx s = get_claim_by_id api c i q ctx s"
| "serve api fresh (GetClaims c q limit cursor) ctx s = list_claims api c q limit cursor ctx s"
| "serve api fresh (PostExecution c h body) ctx s = post_execution api fresh c h body ctx s"
| "serve api fresh (GetExecutions c q limit cursor) ctx s = list_executions api c q limit cursor ctx s"
| "serve api fresh (GetExecutionById c i q) ctx s = get_execution api c i q ctx s"
| "serve api fresh (PostCancel c i h body) ctx s = post_cancel api fresh c i h body ctx s"

text \<open>The answer that leaves the application.\<close>

definition answer :: "(string \<Rightarrow> pyval list) \<Rightarrow> 's control_api \<Rightarrow> correlation_id \<Rightarrow> http_request \<Rightarrow> 's \<Rightarrow> http_response \<times> 's" where
  "answer details api fresh request s = (case serve api fresh request None s of (r, _, s') \<Rightarrow> (respond details r, s'))"

section \<open>Whose request it is\<close>

text \<open>What an authenticated request may have done.\<close>

fun acts_own :: "'s control_api \<Rightarrow> http_request \<Rightarrow> 's \<Rightarrow> http_response res \<Rightarrow> 's \<Rightarrow> bool" where
  "acts_own api GetHealth s r s' \<longleftrightarrow> s' = s"
| "acts_own api GetReady s r s' \<longleftrightarrow> ready api s = (r, s')"
| "acts_own api (PostEpisode c _ _) s r s' \<longleftrightarrow> answered_own api c rc_actor_id rc_scope (ca_record_episode api) s r s'"
| "acts_own api (GetEpisodeById c _ _) s r s' \<longleftrightarrow> answered_own api c gq_actor_id gq_scope (ca_get_episode api) s r s'"
| "acts_own api (GetEpisodes c _ _ _) s r s' \<longleftrightarrow> answered_own api c lq_actor_id lq_scope (ca_list_episodes api) s r s'"
| "acts_own api (GetClaimById c _ _) s r s' \<longleftrightarrow> (\<exists>e. r = Inl e \<and> s' = s)"
| "acts_own api (GetClaims c _ _ _) s r s' \<longleftrightarrow> (\<exists>e. r = Inl e \<and> s' = s)"
| "acts_own api (PostExecution c _ _) s r s' \<longleftrightarrow> answered_own api c sc_actor_id sc_scope (ca_start_execution api) s r s'"
| "acts_own api (GetExecutions c _ _ _) s r s' \<longleftrightarrow> answered_own api c le_actor_id le_scope (ca_list_executions api) s r s'"
| "acts_own api (GetExecutionById c _ _) s r s' \<longleftrightarrow> answered_own api c ge_actor_id ge_scope (ca_get_execution api) s r s'"
| "acts_own api (PostCancel c _ _ _) s r s' \<longleftrightarrow> answered_own api c cc_actor_id cc_scope (ca_cancel_execution api) s r s'"

lemma claim_reads_own:
  assumes "ca_oidc_enabled api"
  shows "get_claim_by_id api c i q ctx s = (r, ctx', s') \<Longrightarrow> ctx' = ctx \<and> (\<exists>e. r = Inl e \<and> s' = s)"
    and "list_claims api c q limit cursor ctx s = (r, ctx', s') \<Longrightarrow> ctx' = ctx \<and> (\<exists>e. r = Inl e \<and> s' = s)"
proof -
  have refused: "ctx' = ctx \<and> (\<exists>e. r = Inl e \<and> s' = s)"
    if run: "in_auth_context api c (\<lambda>p ctx. commanding (command p) (handle ctx) render) ctx s = (r, ctx', s')"
      and "\<And>p. authenticated api c p \<Longrightarrow> in_auth_context api c (\<lambda>p ctx. commanding (command p) (handle ctx) render) ctx s = (Inl x, ctx, s)"
    for command :: "principal option \<Rightarrow> 'c res" and handle :: "principal_context \<Rightarrow> 'c \<Rightarrow> 'a \<Rightarrow> 'b res \<times> 'a" and render x
    using in_auth_context_cases [OF assms run] that by auto
  show "ctx' = ctx \<and> (\<exists>e. r = Inl e \<and> s' = s)" if "get_claim_by_id api c i q ctx s = (r, ctx', s')"
    by (rule refused [OF that [unfolded get_claim_by_id_def] claim_reads_refused(1) [OF assms, unfolded get_claim_by_id_def]])
  show "ctx' = ctx \<and> (\<exists>e. r = Inl e \<and> s' = s)" if l: "list_claims api c q limit cursor ctx s = (r, ctx', s')"
  proof (cases "limit_param limit")
    case (Inl e)
    with l show ?thesis by (auto simp: list_claims_def)
  next
    case (Inr n)
    have run: "in_auth_context api c (\<lambda>p ctx. commanding
        (bindE (resolve_query_actor_id p (qp_actor_id q)) (\<lambda>resolved_actor_id.
          to_list_claims_query (TenantId (cp_tenant_id c)) (Some resolved_actor_id) (read_params_of q) n cursor p))
        (ca_list_claims api ctx)
        (\<lambda>r. bindE (mapE claim_to_response (lr_items r)) (\<lambda>items. Inr (ok_json (ClaimsBody items (lr_next_cursor r)))))) ctx s = (r, ctx', s')"
      using l by (simp add: list_claims_def Inr)
    show ?thesis
      by (rule refused [OF run claim_reads_refused(2) [OF assms _ Inr, unfolded list_claims_def Inr sum.case]])
  qed
qed

lemma serve_own:
  assumes "ca_oidc_enabled api" and "serve api fresh request ctx s = (r, ctx', s')"
  shows "ctx' = ctx \<and> acts_own api request s r s'"
proof (cases request)
  case (PostEpisode c h body)
  with assms(2) post_episode_own [OF assms(1)] show ?thesis by simp
next
  case (GetEpisodeById c i q)
  with assms(2) get_episode_own [OF assms(1)] show ?thesis by simp
next
  case (GetEpisodes c q limit cursor)
  with assms(2) list_episodes_own [OF assms(1)] show ?thesis by simp
next
  case (GetClaimById c i q)
  with assms(2) claim_reads_own(1) [OF assms(1)] show ?thesis by simp
next
  case (GetClaims c q limit cursor)
  with assms(2) claim_reads_own(2) [OF assms(1)] show ?thesis by simp
next
  case (PostExecution c h body)
  with assms(2) post_execution_own [OF assms(1)] show ?thesis by simp
next
  case (GetExecutions c q limit cursor)
  with assms(2) list_executions_own [OF assms(1)] show ?thesis by simp
next
  case (GetExecutionById c i q)
  with assms(2) get_execution_own [OF assms(1)] show ?thesis by simp
next
  case (PostCancel c i h body)
  with assms(2) post_cancel_own [OF assms(1)] show ?thesis by simp
qed (use assms(2) in \<open>auto split: prod.splits\<close>)

section \<open>Samples\<close>

definition no_service :: "unit temporal_client" where
  "no_service = \<lparr>tc_start = (\<lambda>c _ _. (StartRpcError RpcOther, c)), tc_query = (\<lambda>c _. (QueryRpcError RpcOther, c)),
     tc_signal = (\<lambda>c _. (False, c))\<rparr>"

definition sample_driver :: "unit driver" where
  "sample_driver = \<lparr>dv_now = sample_time, dv_correlation_id = CorrelationId (UUID 1), dv_memory_id = MemoryId (UUID 10),
     dv_event_id = EventId (UUID 11), dv_claim_ids = (\<lambda>_ _. MemoryId (UUID 20)), dv_claim_event_ids = (\<lambda>_ _. EventId (UUID 21)),
     dv_execution_id = ExecutionId (UUID 7), dv_event_ids = (\<lambda>_. sample_event_ids), dv_stamp = (\<lambda>_. sample_time),
     dv_others = (\<lambda>_ t. t), dv_client = no_service, dv_float_of = (\<lambda>_. Inr NaN), dv_int_of = (\<lambda>_. Inr 0),
     dv_reached = Inr (), dv_lent = Inr (), dv_selected = Inr ()\<rparr>"

definition sample_stores :: "unit stores" where
  "sample_stores = \<lparr>so_memory = sample_tables, so_inbox = [], so_runtime = no_rows\<lparr>pr_outbox := sample_outbox\<rparr>,
     so_local = empty_runtime_state, so_service = ()\<rparr>"

end
