(* ===== verification/Relay_Loop.thy ===== *)
theory Relay_Loop
  imports Control_Api
begin

text \<open>
  The relays of the running program (\<open>bootstrap/composition.py\<close>: \<open>relay_outbox_once\<close>,
  \<open>run_outbox_relay_loop\<close> and their twins for the runtime module): the handlers of the
  runtime over the outbox tables, with the publishers of \<open>bootstrap/infrastructure.py\<close>.
  A loop polls until an event is set; it may run forever.
\<close>

section \<open>One batch\<close>

text \<open>
  The handler of \<open>application/relay_outbox.py\<close> when the publisher works on the state that
  the store reads: extraction writes its events into the outbox that is being relayed.
\<close>

definition relay_over ::
    "'s relay_store \<Rightarrow> ('s \<Rightarrow> event_envelope \<Rightarrow> unit res \<times> 's) \<Rightarrow> datetime \<Rightarrow> int \<Rightarrow> 's \<Rightarrow> relay_outbox_result res \<times> 's" where
  "relay_over store publish now batch_size s = (case rs_fetch store s batch_size of
       Inl e \<Rightarrow> (Inl e, s)
     | Inr events \<Rightarrow>
         if events = [] then
           (Inr \<lparr>ro_fetched = 0, ro_dispatched = 0, ro_published = 0, ro_remaining_unpublished = rs_count store s\<rparr>, s)
         else (case publish_all publish events 0 s of
             (Inl e, s1) \<Rightarrow> (Inl e, s1)
           | (Inr dispatched, s1) \<Rightarrow>
               let s2 = rs_mark store s1 (map ev_event_id events) now in
               (Inr \<lparr>ro_fetched = length events, ro_dispatched = dispatched, ro_published = length events,
                     ro_remaining_unpublished = rs_count store s2\<rparr>, s2)))"

text \<open>A publisher with a state of its own: then it is the handler that the relay theories study.\<close>

lemma publish_all_put:
  assumes "\<And>x e. publish (put x) e = (case pub (snd x) e of (r, w) \<Rightarrow> (r, put (fst x, w)))"
  shows "publish_all publish es k (put x) = (case publish_all pub es k (snd x) of (r, w) \<Rightarrow> (r, put (fst x, w)))"
  by (induction es arbitrary: k x) (auto simp: assms split: prod.splits sum.splits)

lemma relay_over_put:
  assumes "\<And>x. rs_fetch store (put x) n = rs_fetch base (fst x) n"
    and "\<And>x ids ts. rs_mark store (put x) ids ts = put (rs_mark base (fst x) ids ts, snd x)"
    and "\<And>x. rs_count store (put x) = rs_count base (fst x)"
    and "\<And>x e. publish (put x) e = (case pub (snd x) e of (r, w) \<Rightarrow> (r, put (fst x, w)))"
  shows "relay_over store publish now n (put x) = (case relay_outbox_handle base pub now n x of (r, x') \<Rightarrow> (r, put x'))"
  by (auto simp: relay_over_def relay_outbox_handle_def publish_all_put [where publish = publish and put = put and pub = pub, OF assms(4)]
      assms(1-3) Let_def split: sum.splits prod.splits)

section \<open>Publishers\<close>

definition publish_log :: "nat \<Rightarrow> ('t, 'c) server \<Rightarrow> event_envelope \<Rightarrow> unit res \<times> ('t, 'c) server" where
  "publish_log n s event = (case s of ((rt, w), st) \<Rightarrow> (case logging_publish (wo_publishers w ! n) event of
     (r, sent) \<Rightarrow> (r, ((rt, w\<lparr>wo_publishers := (wo_publishers w)[n := sent]\<rparr>), st))))"

text \<open>The consumer that a runtime builds: the processor of recorded episodes over the extraction.\<close>

definition extraction_processor :: "'c driver \<Rightarrow> inbox_handler \<Rightarrow> pg_memory processor" where
  "extraction_processor dv h = (processor_supports, episode_recorded_process (\<lambda>d event.
     extract_claims_handle (postgres_port (dv_float_of dv)) (deterministic_propose (ih_extractor_version h))
       (dv_claim_ids dv (ev_event_id event)) (dv_claim_event_ids dv (ev_event_id event)) (ih_extraction_enabled h) d event))"

fun publish_to :: "'c driver \<Rightarrow> outbox_publisher \<Rightarrow> ('t, 'c) server \<Rightarrow> event_envelope \<Rightarrow> unit res \<times> ('t, 'c) server" where
  "publish_to dv (LoggingPublisher n) s event = publish_log n s event"
| "publish_to dv (InboxPublisher h n) s event = (case s of (a, st) \<Rightarrow>
     (case process_inbox_handle [extraction_processor dv h] (ih_consumer_name h) (dv_now dv) (so_inbox st, so_memory st) event of
        (Inl e, inbox, d) \<Rightarrow> (Inl e, (a, st\<lparr>so_inbox := inbox, so_memory := d\<rparr>))
      | (Inr _, inbox, d) \<Rightarrow> publish_log n (a, st\<lparr>so_inbox := inbox, so_memory := d\<rparr>) event))"

section \<open>The relays of the runtime\<close>

definition memory_outbox :: "'c driver \<Rightarrow> ('t, 'c) server relay_store" where
  "memory_outbox dv = (let store = postgres_relay_store (dv_int_of dv) in
     \<lparr>rs_fetch = (\<lambda>s. rs_fetch store (pg_outbox (so_memory (snd s)))),
      rs_mark = (\<lambda>s ids ts. (fst s, (snd s)\<lparr>so_memory := (so_memory (snd s))\<lparr>pg_outbox :=
        rs_mark store (pg_outbox (so_memory (snd s))) ids ts\<rparr>\<rparr>)),
      rs_count = (\<lambda>s. rs_count store (pg_outbox (so_memory (snd s))))\<rparr>)"

definition runtime_outbox :: "'c driver \<Rightarrow> ('t, 'c) server relay_store" where
  "runtime_outbox dv = (let store = runtime_relay_store (dv_int_of dv) in
     \<lparr>rs_fetch = (\<lambda>s. rs_fetch store (pr_outbox (so_runtime (snd s)))),
      rs_mark = (\<lambda>s ids ts. (fst s, (snd s)\<lparr>so_runtime := (so_runtime (snd s))\<lparr>pr_outbox :=
        rs_mark store (pr_outbox (so_runtime (snd s))) ids ts\<rparr>\<rparr>)),
      rs_count = (\<lambda>s. rs_count store (pr_outbox (so_runtime (snd s))))\<rparr>)"

definition batch_of :: "int option \<Rightarrow> relay_settings \<Rightarrow> int" where
  "batch_of batch_size settings = (case batch_size of Some n \<Rightarrow> n | None \<Rightarrow> rl_batch_size settings)"

definition interval_of :: "pyfloat option \<Rightarrow> relay_settings \<Rightarrow> pyfloat" where
  "interval_of interval_seconds settings = (case interval_seconds of Some x \<Rightarrow> x | None \<Rightarrow> rl_poll_interval_seconds settings)"

definition relay_outbox_once :: "'c driver \<Rightarrow> int option \<Rightarrow> ('t, 'c) server \<Rightarrow> relay_outbox_result res \<times> ('t, 'c) server" where
  "relay_outbox_once dv batch_size s = (case s of ((rt, w), st) \<Rightarrow> (case relay_outbox_handler rt of
       (Inl e, rt') \<Rightarrow> (Inl e, ((rt', w), st))
     | (Inr h, rt') \<Rightarrow> relay_over (memory_outbox dv) (publish_to dv (rh_publisher h)) (dv_now dv)
         (batch_of batch_size (as_outbox_relay (rt_settings rt'))) ((rt', w), st)))"

definition relay_runtime_outbox_once :: "'c driver \<Rightarrow> int option \<Rightarrow> ('t, 'c) server \<Rightarrow> relay_outbox_result res \<times> ('t, 'c) server" where
  "relay_runtime_outbox_once dv batch_size s = (case s of ((rt, w), st) \<Rightarrow> (case relay_runtime_outbox_handler rt of
       (Inl e, rt') \<Rightarrow> (Inl e, ((rt', w), st))
     | (Inr h, rt') \<Rightarrow> relay_over (runtime_outbox dv) (publish_log (rr_publisher h)) (dv_now dv)
         (batch_of batch_size (as_runtime_outbox_relay (rt_settings rt'))) ((rt', w), st)))"

section \<open>The loops\<close>

text \<open>
  \<open>stop k\<close>: the event was set when the loop tested it before round \<open>k\<close>. The rounds after
  which the loop slept are kept with the time it asked for. A round begins with what others
  did since the last one.
\<close>

partial_function (option) relay_loop ::
    "(nat \<Rightarrow> bool) \<Rightarrow> (nat \<Rightarrow> 's \<Rightarrow> relay_outbox_result res \<times> 's) \<Rightarrow> int \<Rightarrow> pyfloat \<Rightarrow> nat \<Rightarrow> (nat \<times> pyfloat) list \<Rightarrow> 's
      \<Rightarrow> (unit res \<times> (nat \<times> pyfloat) list \<times> 's) option" where
  "relay_loop stop once batch interval k sleeps s =
     (if stop k then Some (Inr (), sleeps, s)
      else (case once k s of
          (Inl e, s') \<Rightarrow> Some (Inl e, sleeps, s')
        | (Inr r, s') \<Rightarrow> relay_loop stop once batch interval (Suc k)
            (if int (ro_fetched r) < batch then sleeps @ [(k, interval)] else sleeps) s'))"

definition run_outbox_relay_loop ::
    "(nat \<Rightarrow> 'c driver) \<Rightarrow> (nat \<Rightarrow> ('t, 'c) server \<Rightarrow> ('t, 'c) server) \<Rightarrow> (nat \<Rightarrow> bool) \<Rightarrow> int option \<Rightarrow> pyfloat option
      \<Rightarrow> ('t, 'c) server \<Rightarrow> (unit res \<times> (nat \<times> pyfloat) list \<times> ('t, 'c) server) option" where
  "run_outbox_relay_loop dvs others stop batch_size interval_seconds s =
     (let settings = as_outbox_relay (rt_settings (fst (fst s))); batch = batch_of batch_size settings in
      relay_loop stop (\<lambda>k s. relay_outbox_once (dvs k) (Some batch) (others k s)) batch (interval_of interval_seconds settings) 0 [] s)"

definition run_runtime_outbox_relay_loop ::
    "(nat \<Rightarrow> 'c driver) \<Rightarrow> (nat \<Rightarrow> ('t, 'c) server \<Rightarrow> ('t, 'c) server) \<Rightarrow> (nat \<Rightarrow> bool) \<Rightarrow> int option \<Rightarrow> pyfloat option
      \<Rightarrow> ('t, 'c) server \<Rightarrow> (unit res \<times> (nat \<times> pyfloat) list \<times> ('t, 'c) server) option" where
  "run_runtime_outbox_relay_loop dvs others stop batch_size interval_seconds s =
     (let settings = as_runtime_outbox_relay (rt_settings (fst (fst s))); batch = batch_of batch_size settings in
      relay_loop stop (\<lambda>k s. relay_runtime_outbox_once (dvs k) (Some batch) (others k s)) batch (interval_of interval_seconds settings) 0 [] s)"

section \<open>When a loop ends\<close>

text \<open>The state after rounds that did not raise.\<close>

fun after_rounds :: "(nat \<Rightarrow> 's \<Rightarrow> 'r res \<times> 's) \<Rightarrow> nat \<Rightarrow> nat \<Rightarrow> 's \<Rightarrow> 's option" where
  "after_rounds once 0 k s = Some s"
| "after_rounds once (Suc n) k s = (case once k s of (Inl _, _) \<Rightarrow> None | (Inr _, s') \<Rightarrow> after_rounds once n (Suc k) s')"

lemma relay_loop_ends:
  "stop (k + n) \<or> after_rounds once n k s = None \<Longrightarrow> \<exists>y. relay_loop stop once batch interval k sleeps s = Some y"
proof (induction n arbitrary: k sleeps s)
  case 0
  then show ?case by (simp add: relay_loop.simps)
next
  case (Suc n)
  show ?case
  proof (cases "stop k")
    case True
    then show ?thesis by (simp add: relay_loop.simps)
  next
    case go: False
    obtain r s' where o: "once k s = (r, s')" by (cases "once k s")
    show ?thesis
    proof (cases r)
      case (Inl e)
      with go o show ?thesis by (simp add: relay_loop.simps [of stop once batch interval k])
    next
      case (Inr x)
      with Suc.prems o have "stop (Suc k + n) \<or> after_rounds once n (Suc k) s' = None" by simp
      from Suc.IH [OF this] Inr go o show ?thesis by (simp add: relay_loop.simps [of stop once batch interval k])
    qed
  qed
qed

definition loop_ended ::
    "(nat \<Rightarrow> bool) \<Rightarrow> (nat \<Rightarrow> 's \<Rightarrow> 'r res \<times> 's) \<Rightarrow> nat \<Rightarrow> 's \<Rightarrow> nat \<Rightarrow> unit res \<Rightarrow> 's \<Rightarrow> bool" where
  "loop_ended stop once k s n r s' \<longleftrightarrow> (\<forall>i < n. \<not> stop (k + i)) \<and> (\<exists>t. after_rounds once n k s = Some t
     \<and> (if stop (k + n) then r = Inr () \<and> s' = t else \<exists>e. r = Inl e \<and> once (k + n) t = (Inl e, s')))"

lemma loop_ended_next:
  assumes "\<not> stop k" and "once k s = (Inr x, s1)" and "loop_ended stop once (Suc k) s1 n r s'"
  shows "loop_ended stop once k s (Suc n) r s'"
proof -
  have "\<not> stop (k + i)" if "i < Suc n" for i
    using assms(1,3) that by (cases i) (auto simp: loop_ended_def)
  with assms show ?thesis by (auto simp: loop_ended_def)
qed

lemma relay_loop_result:
  assumes "relay_loop stop once batch interval k sleeps s = Some y"
  shows "\<exists>n. loop_ended stop once k s n (fst y) (snd (snd y))"
proof (rule relay_loop.raw_induct [where P = "\<lambda>stop once batch interval k sleeps s y. \<exists>n. loop_ended stop once k s n (fst y) (snd (snd y))", OF _ assms])
  fix loop :: "(nat \<Rightarrow> bool) \<Rightarrow> (nat \<Rightarrow> 's \<Rightarrow> relay_outbox_result res \<times> 's) \<Rightarrow> int \<Rightarrow> pyfloat \<Rightarrow> nat \<Rightarrow> (nat \<times> pyfloat) list \<Rightarrow> 's
      \<Rightarrow> (unit res \<times> (nat \<times> pyfloat) list \<times> 's) option"
    and stop once batch interval k sleeps s y
  assume ih: "\<And>stop once batch interval k sleeps s y. loop stop once batch interval k sleeps s = Some y
      \<Longrightarrow> \<exists>n. loop_ended stop once k s n (fst y) (snd (snd y))"
    and run: "(if stop k then Some (Inr (), sleeps, s)
      else (case once k s of
          (Inl e, s') \<Rightarrow> Some (Inl e, sleeps, s')
        | (Inr r, s') \<Rightarrow> loop stop once batch interval (Suc k)
            (if int (ro_fetched r) < batch then sleeps @ [(k, interval)] else sleeps) s')) = Some y"
  obtain r s1 where o: "once k s = (r, s1)" by (cases "once k s")
  show "\<exists>n. loop_ended stop once k s n (fst y) (snd (snd y))"
  proof (cases "\<not> stop k \<and> (\<exists>x. r = Inr x)")
    case True
    then obtain x where x: "\<not> stop k" "r = Inr x" by blast
    define sl where "sl = (if int (ro_fetched x) < batch then sleeps @ [(k, interval)] else sleeps)"
    have "loop stop once batch interval (Suc k) sl s1 = Some y" using run o x by (simp add: sl_def)
    from ih [OF this] obtain n where "loop_ended stop once (Suc k) s1 n (fst y) (snd (snd y))" ..
    from loop_ended_next [OF x(1) o [unfolded x(2)] this] show ?thesis by blast
  next
    case False
    with run o have "loop_ended stop once k s 0 (fst y) (snd (snd y))"
      by (cases r) (auto simp: loop_ended_def split: if_splits)
    then show ?thesis by blast
  qed
qed

lemma after_rounds_next:
  "after_rounds once (Suc n) k s = (case after_rounds once n k s of None \<Rightarrow> None
     | Some t \<Rightarrow> (case once (k + n) t of (Inl _, _) \<Rightarrow> None | (Inr _, s') \<Rightarrow> Some s'))"
proof (induction n arbitrary: k s)
  case (Suc n)
  obtain r s1 where o: "once k s = (r, s1)" by (cases "once k s")
  show ?case unfolding after_rounds.simps(2) [of once "Suc n" k s] after_rounds.simps(2) [of once n k s] o
    using Suc.IH [of "Suc k" s1] by (cases r) (simp_all only: add_Suc_shift prod.case sum.case option.case)
qed (simp split: prod.splits sum.splits)

lemma relay_loop_returns:
  "(\<exists>y. relay_loop stop once batch interval 0 [] s = Some y) \<longleftrightarrow> (\<exists>n. stop n \<or> after_rounds once n 0 s = None)"
proof
  assume "\<exists>y. relay_loop stop once batch interval 0 [] s = Some y"
  then obtain n t where "after_rounds once n 0 s = Some t" "stop n \<or> (\<exists>e s'. once n t = (Inl e, s'))"
    using relay_loop_result [of stop once batch interval 0 "[]" s] by (fastforce simp: loop_ended_def split: if_splits)
  then have "stop n \<or> after_rounds once (Suc n) 0 s = None" unfolding after_rounds_next by auto
  then show "\<exists>n. stop n \<or> after_rounds once n 0 s = None" by blast
next
  assume "\<exists>n. stop n \<or> after_rounds once n 0 s = None"
  then obtain n where "stop (0 + n) \<or> after_rounds once n 0 s = None" by auto
  then show "\<exists>y. relay_loop stop once batch interval 0 [] s = Some y" by (rule relay_loop_ends)
qed

section \<open>Pacing\<close>

text \<open>Rounds whose outcome is known: the loop sleeps after those that fetched less than a batch.\<close>

lemma relay_loop_paced:
  assumes "\<And>i. i < n \<Longrightarrow> \<not> stop (k + i)" and "stop (k + n)" and "Inv 0 s"
    and "\<And>i t. i < n \<Longrightarrow> Inv i t \<Longrightarrow> \<exists>r t'. once (k + i) t = (Inr r, t') \<and> Inv (Suc i) t' \<and> int (ro_fetched r) = fetched i"
  shows "\<exists>s'. relay_loop stop once batch interval k sleeps s
      = Some (Inr (), sleeps @ map (\<lambda>i. (k + i, interval)) (filter (\<lambda>i. fetched i < batch) [0..<n]), s') \<and> Inv n s'"
  using assms
proof (induction n arbitrary: k sleeps Inv fetched s)
  case 0
  then show ?case by (simp add: relay_loop.simps)
next
  case (Suc n)
  from Suc.prems(4) [OF _ Suc.prems(3)] obtain r s1 where
    r: "once k s = (Inr r, s1)" "Inv (Suc 0) s1" "int (ro_fetched r) = fetched 0" by auto
  have "\<not> stop k" using Suc.prems(1) [of 0] by simp
  let ?sl = "if fetched 0 < batch then sleeps @ [(k, interval)] else sleeps"
  have "\<exists>s'. relay_loop stop once batch interval (Suc k) ?sl s1
      = Some (Inr (), ?sl @ map (\<lambda>i. (Suc k + i, interval)) (filter (\<lambda>i. fetched (Suc i) < batch) [0..<n]), s') \<and> Inv (Suc n) s'"
  proof (rule Suc.IH [where Inv = "\<lambda>i. Inv (Suc i)" and fetched = "\<lambda>i. fetched (Suc i)"])
    show "\<exists>r t'. once (Suc k + i) t = (Inr r, t') \<and> Inv (Suc (Suc i)) t' \<and> int (ro_fetched r) = fetched (Suc i)"
      if "i < n" "Inv (Suc i) t" for i t
      using Suc.prems(4) [of "Suc i"] that by simp
  qed (use Suc.prems(1) [of "Suc _"] Suc.prems(2) r(2) in auto)
  moreover have "map (\<lambda>i. (k + i, interval)) (filter (\<lambda>i. fetched i < batch) [0..<Suc n])
      = (if fetched 0 < batch then [(k, interval)] else [])
        @ map (\<lambda>i. (Suc k + i, interval)) (filter (\<lambda>i. fetched (Suc i) < batch) [0..<n])"
    by (simp add: upt_conv_Cons comp_def filter_map del: upt_Suc flip: map_Suc_upt)
  ultimately show ?case
    using r \<open>\<not> stop k\<close> by (subst relay_loop.simps) (cases "fetched 0 < batch"; simp del: upt_Suc)
qed

text \<open>The outbox table of the runtime module and one list of published events, apart from the rest.\<close>

definition with_outbox :: "('t, 'c) server \<Rightarrow> nat \<Rightarrow> row list \<times> event_envelope list \<Rightarrow> ('t, 'c) server" where
  "with_outbox s p x = (case s of ((rt, w), st) \<Rightarrow>
     ((rt, w\<lparr>wo_publishers := (wo_publishers w)[p := snd x]\<rparr>), st\<lparr>so_runtime := (so_runtime st)\<lparr>pr_outbox := fst x\<rparr>\<rparr>))"

lemma relay_runtime_over:
  assumes "p < length (wo_publishers (snd (fst s)))"
  shows "relay_over (runtime_outbox dv) (publish_log p) now n (with_outbox s p x)
    = (case relay_outbox_handle (postgres_relay_store (dv_int_of dv)) logging_publish now n x of (r, x') \<Rightarrow> (r, with_outbox s p x'))"
proof (rule relay_over_put)
  show "publish_log p (with_outbox s p x) e = (case logging_publish (snd x) e of (r, w) \<Rightarrow> (r, with_outbox s p (fst x, w)))" for x e
    using assms by (cases s) (auto simp: publish_log_def with_outbox_def split: prod.splits)
qed (simp_all add: runtime_outbox_def Let_def with_outbox_def rt_relay split: prod.split)

lemma logging_publish_all: "publish_all logging_publish es 0 w = (Inr (length es), w @ es)"
proof -
  have "foldl (\<lambda>w e. w @ [e]) w es = w @ es" by (induction es arbitrary: w) simp_all
  with publish_all_effect [of logging_publish "\<lambda>w e. w @ [e]" es 0 w] show ?thesis by (simp add: logging_publish_def)
qed

text \<open>What is left in the table and published after \<open>i\<close> rounds of batches of \<open>m\<close>.\<close>

definition relayed :: "(string \<Rightarrow> int res) \<Rightarrow> nat \<Rightarrow> row list \<times> event_envelope list \<Rightarrow> nat \<Rightarrow> row list \<times> event_envelope list \<Rightarrow> bool" where
  "relayed int_of m x i y \<longleftrightarrow> outbox_ok (fst y) \<and> pending_events int_of (fst y) = drop (i * m) (pending_events int_of (fst x))
     \<and> snd y = snd x @ take (i * m) (pending_events int_of (fst x))"

lemma relayed_next:
  assumes "relayed int_of m x i y"
  shows "\<exists>y' r. relay_outbox_handle (postgres_relay_store int_of) logging_publish now (int m) y = (Inr r, y')
    \<and> relayed int_of m x (Suc i) y' \<and> ro_fetched r = min m (length (pending_events int_of (fst x)) - i * m)"
proof -
  let ?ps = "pending_events int_of (fst x)"
  have k: "outbox_ok (fst y)" "pending_events int_of (fst y) = drop (i * m) ?ps" "snd y = snd x @ take (i * m) ?ps"
    using assms by (simp_all add: relayed_def)
  have m: "0 \<le> int m" by simp
  from postgres_relay.relay_batch [where w = "snd y" and ts = now and int_of = int_of, OF k(1) m logging_publish_all] obtain t r where
    t: "relay_outbox_handle (postgres_relay_store int_of) logging_publish now (int m) (fst y, snd y) = (Inr r, t, snd y @ take m (drop (i * m) ?ps))"
      "outbox_ok t" "pending_events int_of t = drop m (drop (i * m) ?ps)" "ro_fetched r = min m (length (drop (i * m) ?ps))"
    unfolding k(2) nat_int by blast
  have e: "Suc i * m = i * m + m" by simp
  have "relayed int_of m x (Suc i) (t, snd y @ take m (drop (i * m) ?ps))"
    unfolding relayed_def e take_add by (simp add: t(2,3) k(3) add.commute)
  with t(1,4) show ?thesis by force
qed

lemma runtime_relay_again:
  assumes "relay_runtime_outbox_handler rt = (Inr h, rt')"
  shows "relay_runtime_outbox_handler rt' = (Inr h, rt') \<and> rt_settings rt' = rt_settings rt"
proof -
  from with_runtime_cases [OF assms [unfolded relay_runtime_outbox_handler_def]] obtain d where
    d: "rt_runtime_database rt = Some d" "rt_orchestrator rt \<noteq> None" "runtime_enabled rt" "rl_enabled (as_runtime_outbox_relay (rt_settings rt))"
    and b: "(case d of InMemoryRuntimeStore \<Rightarrow> (Inl (ConfigurationError ''runtime_outbox_relay_storage_unconfigured''
           ''runtime outbox relay requires postgres runtime database''), rt)
       | PostgresRuntimeStore r \<Rightarrow> cached rt_runtime_relay_handler (\<lambda>h rt. rt\<lparr>rt_runtime_relay_handler := Some h\<rparr>)
           \<lparr>rr_store = r, rr_publisher = rt_logging_runtime_outbox_publisher rt\<rparr> rt) = (Inr h, rt')"
    by (auto split: if_splits)
  from b obtain r where r: "d = PostgresRuntimeStore r" by (cases d) auto
  have "rt' = (case rt_runtime_relay_handler rt of Some _ \<Rightarrow> rt | None \<Rightarrow> rt\<lparr>rt_runtime_relay_handler := Some h\<rparr>)"
    "rt_runtime_relay_handler rt' = Some h"
    using b by (cases "rt_runtime_relay_handler rt"; force simp: r cached_def)+
  with d r show ?thesis
    by (cases "rt_runtime_relay_handler rt") (simp_all add: relay_runtime_outbox_handler_def with_runtime_def runtime_enabled_def cached_def)
qed

lemma memory_relay_again:
  assumes "relay_outbox_handler rt = (Inr h, rt')"
  shows "relay_outbox_handler rt' = (Inr h, rt') \<and> rt_settings rt' = rt_settings rt"
proof -
  from with_memory_cases [OF assms [unfolded relay_outbox_handler_def]] obtain d where
    d: "rt_database rt = Some d" "rt_started rt" "memory_enabled rt" "rl_enabled (as_outbox_relay (rt_settings rt))"
    and b: "cached rt_relay_handler (\<lambda>h rt. rt\<lparr>rt_relay_handler := Some h\<rparr>) \<lparr>rh_store = d, rh_publisher = rt_outbox_publisher rt\<rparr> rt = (Inr h, rt')"
    by (auto split: if_splits)
  have "rt' = (case rt_relay_handler rt of Some _ \<Rightarrow> rt | None \<Rightarrow> rt\<lparr>rt_relay_handler := Some h\<rparr>)"
    "rt_relay_handler rt' = Some h"
    using b by (cases "rt_relay_handler rt"; force simp: cached_def)+
  with d show ?thesis
    by (cases "rt_relay_handler rt") (simp_all add: relay_outbox_handler_def with_memory_def memory_enabled_def cached_def)
qed

section \<open>Properties\<close>

text \<open>
  The relay loops return exactly when the event is set before a round or a round raises;
  they return normally in the first case, after every round before it ran, and let the error
  of the round through in the second. Nothing is caught, and nothing else ends them.
\<close>

theorem relay_loops_end:
  assumes "once = (\<lambda>k t. relay_outbox_once (dvs k) (Some (batch_of batch (as_outbox_relay (rt_settings (fst (fst s)))))) (others k t))"
    and "rt_once = (\<lambda>k t. relay_runtime_outbox_once (dvs k) (Some (batch_of batch (as_runtime_outbox_relay (rt_settings (fst (fst s)))))) (others k t))"
  shows "((\<exists>y. run_outbox_relay_loop dvs others stop batch interval s = Some y) \<longleftrightarrow> (\<exists>n. stop n \<or> after_rounds once n 0 s = None))
    \<and> ((\<exists>y. run_runtime_outbox_relay_loop dvs others stop batch interval s = Some y) \<longleftrightarrow> (\<exists>n. stop n \<or> after_rounds rt_once n 0 s = None))
    \<and> (\<forall>r sleeps s'. run_outbox_relay_loop dvs others stop batch interval s = Some (r, sleeps, s') \<longrightarrow> (\<exists>n. loop_ended stop once 0 s n r s'))
    \<and> (\<forall>r sleeps s'. run_runtime_outbox_relay_loop dvs others stop batch interval s = Some (r, sleeps, s') \<longrightarrow> (\<exists>n. loop_ended stop rt_once 0 s n r s'))"
  unfolding run_outbox_relay_loop_def run_runtime_outbox_relay_loop_def Let_def assms relay_loop_returns
  using relay_loop_result by fastforce

theorem relay_loops_end_witness:
  "(\<exists>y. run_outbox_relay_loop (\<lambda>_. sample_driver) (\<lambda>_ s. s) (\<lambda>i. 3 \<le> i) None None ((sample_runtime, sample_world), sample_stores) = Some y)
    \<and> (\<exists>y. run_outbox_relay_loop (\<lambda>_. sample_driver) (\<lambda>_ s. s) (\<lambda>i. False) None None ((sample_runtime, sample_world), sample_stores) = Some y)"
proof -
  have "after_rounds (\<lambda>k t. relay_outbox_once sample_driver (Some 50) t) 1 0 ((sample_runtime, sample_world), sample_stores) = None"
    using sample_starts(2)
    by (simp add: relay_outbox_once_def relay_outbox_handler_def with_memory_def split: prod.split)
  moreover have "batch_of None (as_outbox_relay (rt_settings sample_runtime)) = 50"
    using lives_coherent [OF sample_starts(1)] by (simp add: batch_of_def sample_settings_def sample_relay_def)
  moreover have "\<exists>n. 3 \<le> (n :: nat)" by blast
  ultimately show ?thesis
    using relay_loops_end [OF HOL.refl HOL.refl, of "\<lambda>_. sample_driver" "\<lambda>_ s. s" "\<lambda>i. 3 \<le> i" None None "((sample_runtime, sample_world), sample_stores)"]
      relay_loops_end [OF HOL.refl HOL.refl, of "\<lambda>_. sample_driver" "\<lambda>_ s. s" "\<lambda>i. False" None None "((sample_runtime, sample_world), sample_stores)"]
    by (auto simp del: after_rounds.simps)
qed

text \<open>
  C24. How the relay loop of the runtime module paces itself when nobody else writes: stopped
  before round \<open>k\<close> with batches of \<open>m\<close>, it has published the first \<open>k * m\<close> of the pending events,
  each once and in order, and slept the interval after exactly the rounds that found fewer than
  \<open>m\<close>. So it works off a backlog without a pause and sleeps whenever the outbox is empty;
  with \<open>m = 0\<close> it publishes nothing and never sleeps.
\<close>

theorem runtime_loop_paces:
  assumes "relay_runtime_outbox_handler rt = (Inr h, rt')" and "rr_publisher h < length (wo_publishers w)"
    and "outbox_ok (pr_outbox (so_runtime st))" and "\<And>i. dv_int_of (dvs i) = int_of"
    and "batch_of batch (as_runtime_outbox_relay (rt_settings rt)) = int m"
    and "\<And>i. i < k \<Longrightarrow> \<not> stop i" and "stop k"
    and "pending = pending_events int_of (pr_outbox (so_runtime st))"
  shows "\<exists>rt2 w2 st2. run_runtime_outbox_relay_loop dvs (\<lambda>_ s. s) stop batch interval ((rt, w), st)
      = Some (Inr (), map (\<lambda>i. (i, interval_of interval (as_runtime_outbox_relay (rt_settings rt))))
          (filter (\<lambda>i. length pending - i * m < m) [0..<k]), (rt2, w2), st2)
    \<and> pending_events int_of (pr_outbox (so_runtime st2)) = drop (k * m) pending
    \<and> wo_publishers w2 ! rr_publisher h = wo_publishers w ! rr_publisher h @ take (k * m) pending"
proof -
  let ?p = "rr_publisher h" and ?s = "((rt, w), st)"
  let ?x = "(pr_outbox (so_runtime st), wo_publishers w ! ?p)"
  let ?I = "\<lambda>i s. \<exists>rtc y. s = with_outbox ((rtc, w), st) ?p y \<and> relay_runtime_outbox_handler rtc = (Inr h, rt')
    \<and> rt_settings rtc = rt_settings rt \<and> relayed int_of m ?x i y"
  have "relayed int_of m ?x 0 ?x" using assms(3) by (simp add: relayed_def)
  moreover have "?s = with_outbox ?s ?p ?x" by (simp add: with_outbox_def)
  ultimately have start: "?I 0 ?s" using assms(1) by blast
  have round: "\<exists>r t'. relay_runtime_outbox_once (dvs (0 + i)) (Some (int m)) t = (Inr r, t') \<and> ?I (Suc i) t'
      \<and> int (ro_fetched r) = int (min m (length pending - i * m))" if "?I i t" for i t
  proof -
    from that obtain rtc y where t: "t = with_outbox ((rtc, w), st) ?p y" "relay_runtime_outbox_handler rtc = (Inr h, rt')"
      "rt_settings rtc = rt_settings rt" "relayed int_of m ?x i y" by blast
    note again = runtime_relay_again [OF t(2)]
    from relayed_next [OF t(4), of "dv_now (dvs i)"] obtain y' r where
      y: "relay_outbox_handle (postgres_relay_store int_of) logging_publish (dv_now (dvs i)) (int m) y = (Inr r, y')"
        "relayed int_of m ?x (Suc i) y'" "ro_fetched r = min m (length pending - i * m)" by (auto simp: assms(8))
    have "relay_runtime_outbox_once (dvs i) (Some (int m)) t
        = relay_over (runtime_outbox (dvs i)) (publish_log ?p) (dv_now (dvs i)) (int m) (with_outbox ((rt', w), st) ?p y)"
      by (simp add: t(1) relay_runtime_outbox_once_def with_outbox_def t(2) batch_of_def)
    also have "\<dots> = (Inr r, with_outbox ((rt', w), st) ?p y')"
      using y(1) assms(2,4) by (simp add: relay_runtime_over)
    finally have o: "relay_runtime_outbox_once (dvs (0 + i)) (Some (int m)) t = (Inr r, with_outbox ((rt', w), st) ?p y')" by simp
    have k: "?I (Suc i) (with_outbox ((rt', w), st) ?p y')" using y(2) again t(3) by metis
    have "int (ro_fetched r) = int (min m (length pending - i * m))" using y(3) by simp
    with o k show ?thesis by blast
  qed
  have "\<exists>s'. relay_loop stop (\<lambda>k. relay_runtime_outbox_once (dvs k) (Some (int m))) (int m)
        (interval_of interval (as_runtime_outbox_relay (rt_settings rt))) 0 [] ?s
      = Some (Inr (), [] @ map (\<lambda>i. (0 + i, interval_of interval (as_runtime_outbox_relay (rt_settings rt))))
          (filter (\<lambda>i. int (min m (length pending - i * m)) < int m) [0..<k]), s') \<and> ?I k s'"
    by (rule relay_loop_paced [where Inv = ?I, OF _ _ start round]) (use assms(6,7) in simp_all)
  moreover have "min m a < m \<longleftrightarrow> a < m" for a by auto
  ultimately show ?thesis
    using assms(2,8) by (auto simp: run_runtime_outbox_relay_loop_def assms(5) relayed_def with_outbox_def)
qed

definition relaying_runtime :: app_runtime where
  "relaying_runtime = sample_runtime\<lparr>rt_runtime_database := Some (PostgresRuntimeStore 0),
     rt_orchestrator := Some (InMemoryOrchestrator (PostgresRuntimeStore 0))\<rparr>"

lemma relaying_facts:
  "\<exists>rt. relay_runtime_outbox_handler relaying_runtime = (Inr \<lparr>rr_store = 0, rr_publisher = 1\<rparr>, rt)"
  "wo_publishers sample_world = [[], []]" "rt_settings relaying_runtime = sample_settings"
  by (simp_all add: relaying_runtime_def sample_runtime_def sample_world_def new_runtime_def create_token_verifier_def new_publisher_def
      empty_world_def relay_runtime_outbox_handler_def with_runtime_def runtime_enabled_def cached_def)
     (simp_all add: sample_settings_def sample_relay_def new_runtime_def create_token_verifier_def new_publisher_def)

theorem runtime_loop_paces_witness:
  "\<exists>rt2 w2 st2. run_runtime_outbox_relay_loop (\<lambda>_. sample_driver) (\<lambda>_ s. s) (\<lambda>i. 2 \<le> i) (Some 1) None
      ((relaying_runtime, sample_world), sample_stores) = Some (Inr (), [(1, Finite 1)], (rt2, w2), st2)
    \<and> wo_publishers w2 ! 1 = [stored_event (sample_event 5)]"
proof -
  obtain rt where h: "relay_runtime_outbox_handler relaying_runtime = (Inr \<lparr>rr_store = 0, rr_publisher = 1\<rparr>, rt)"
    using relaying_facts(1) by blast
  have o: "pr_outbox (so_runtime sample_stores) = sample_outbox" by (simp add: sample_stores_def)
  have int: "dv_int_of sample_driver = (\<lambda>_. Inr 0)" by (simp add: sample_driver_def)
  have upt: "[0..<2] = [0, 1]" by (simp add: upt_rec)
  have "\<exists>rt2 w2 st2. run_runtime_outbox_relay_loop (\<lambda>_. sample_driver) (\<lambda>_ s. s) (\<lambda>i. 2 \<le> i) (Some 1) None
      ((relaying_runtime, sample_world), sample_stores)
      = Some (Inr (), map (\<lambda>i. (i, interval_of None (as_runtime_outbox_relay (rt_settings relaying_runtime))))
          (filter (\<lambda>i. length [stored_event (sample_event 5)] - i * 1 < 1) [0..<2]), (rt2, w2), st2)
    \<and> pending_events (\<lambda>_. Inr 0) (pr_outbox (so_runtime st2)) = drop (2 * 1) [stored_event (sample_event 5)]
    \<and> wo_publishers w2 ! rr_publisher \<lparr>rr_store = 0, rr_publisher = 1\<rparr> = wo_publishers sample_world ! rr_publisher \<lparr>rr_store = 0, rr_publisher = 1\<rparr>
        @ take (2 * 1) [stored_event (sample_event 5)]"
    by (rule runtime_loop_paces [OF h])
      (simp_all add: relaying_facts(2) o int sample_outbox_facts batch_of_def)
  then show ?thesis
    by (auto simp: relaying_facts(2,3) interval_of_def upt sample_settings_def sample_relay_def)
qed

end
