(* ===== verification/Claim_Flow.thy ===== *)
theory Claim_Flow
  imports Relay_Loop
begin

text \<open>
  From a recorded episode to its claim: the recording writes the event into the outbox, a
  batch of the relay carries it through the inbox to the extraction, which writes the claim
  and an event into the same outbox, and the next batch publishes that event.
\<close>

section \<open>Recording, with the tables\<close>

lemma publish_keeps_claims:
  "pt_publish tx ev = Inr tx' \<Longrightarrow> pg_claims (pt_tables tx') = pg_claims (pt_tables tx)"
  by (auto simp: pt_publish_def bindE_eq_Inr Let_def split: if_splits)

lemma refines_in_transaction: "refines tx m \<Longrightarrow> tx = in_transaction (pt_tables tx) \<and> usable_tx tx"
  by (cases tx) (auto simp: refines_def tx_ok_def usable_def in_transaction_def usable_tx_def)

lemma record_extractable:
  assumes x: "extractable d eps evs cls" and allowed: "authorize (record_request c)" and c: "recordable c now"
    and key: "\<forall>x \<in> set eps. episode_key x \<noteq> (ms_tenant_id (rc_scope c), rc_idempotency_key c)"
    and i: "i \<notin> ep_id ` set eps" and ei: "ei \<notin> (\<lambda>p. ev_event_id (fst p)) ` set evs"
  shows "\<exists>d'. record_episode_handle (postgres_port f) authorize now i ei d c = (Inr \<lparr>rr_episode_id = i, rr_created = True\<rparr>, d')
    \<and> extractable d' (eps @ [new_episode c i now]) (evs @ [(new_event c ei i now, DNull)]) cls"
proof -
  let ?e = "new_episode c i now" and ?ev = "new_event c ei i now"
  from x obtain m where m: "refines (in_transaction d) m" "tx_episodes m = eps"
    and o: "outbox_rows (pg_outbox d) evs" and cl: "claim_rows (pg_claims d) cls" by (auto simp: extractable_def)
  note e = recordable_new_episode [OF c]
  note ev = recorded_event_made [OF c, where i = i and ei = ei]
  have can: "canonical_episode ?e" using e(4-7) by (simp add: canonical_episode_def)
  have e': "ep_id ?e = i" "ep_scope ?e = rc_scope c" "episode_key ?e = (ms_tenant_id (rc_scope c), rc_idempotency_key c)"
    by (simp_all add: new_episode_def command_episode_def episode_key_def)
  have "\<forall>y \<in> set (tx_episodes m). episode_key y \<noteq> episode_key ?e" "ep_id ?e \<notin> ep_id ` set (tx_episodes m)"
    using key i by (simp_all only: e' m(2)) blast+
  from pt_append_new [OF m(1) can this] obtain t1 m1 where
    t1: "pt_append (in_transaction d) ?e = Inr (\<lparr>ar_episode_id = i, ar_created = True\<rparr>, t1)" "refines t1 m1"
      "tx_episodes m1 = eps @ [?e]" "pg_outbox (pt_tables t1) = pg_outbox d" "pg_claims (pt_tables t1) = pg_claims d"
    by (auto simp: e' m(2))
  have o1: "outbox_rows (pg_outbox (pt_tables t1)) evs" and mem: "?e \<in> set (tx_episodes m1)" using o t1(3,4) by simp_all
  have canv: "canonical_event ?ev" using ev(2,3) by (simp add: canonical_event_def)
  obtain t2 where
    t2: "pt_publish t1 ?ev = Inr t2" "refines t2 m1" "outbox_rows (pg_outbox (pt_tables t2)) (evs @ [(?ev, DNull)])"
    using pt_publish_episode [OF t1(2) o1 mem canv ev(4)] ei by (auto simp: ev(5-7) e')
  have keep: "pg_claims (pt_tables t2) = pg_claims d" using publish_keeps_claims [OF t2(1)] t1(5) by simp
  note r1 = refines_in_transaction [OF t1(2)] and r2 = refines_in_transaction [OF t2(2)]
  obtain u where u: "up_commit (postgres_port f) (entered d t2) = Inr u" "up_exit (postgres_port f) u = pt_tables t2"
    using port_steps(4) [of t2 f d] r2 by blast
  have app: "up_append (postgres_port f) (entered d (in_transaction d)) ?e
      = Inr (\<lparr>ar_episode_id = i, ar_created = True\<rparr>, entered d t1)"
    using t1(1) by (simp add: postgres_port_def entered_def pu_run_def pu_require_usable_def)
  have pub: "up_publish (postgres_port f) (entered d t1) ?ev = Inr (entered d t2)"
    using port_steps(3) [of t1 f d ?ev] r1 t2(1) by simp
  have "record_episode_handle (postgres_port f) authorize now i ei d c = (Inr \<lparr>rr_episode_id = i, rr_created = True\<rparr>, pt_tables t2)"
    using allowed e(1-3) ev(1) app pub u
    by (simp add: record_episode_handle_def record_request_def with_uow_def port_enter e' flip: new_episode_def)
  moreover have "extractable (pt_tables t2) (eps @ [?e]) (evs @ [(?ev, DNull)]) cls"
    using t2 t1(3) r2 cl keep by (auto simp: extractable_def)
  ultimately show ?thesis by blast
qed

section \<open>One event through the relay\<close>

lemma relay_one:
  assumes "rs_fetch store s n = Inr [e]" and "publish s e = (Inr (), s1)" and "s2 = rs_mark store s1 [ev_event_id e] now"
  shows "relay_over store publish now n s = (Inr \<lparr>ro_fetched = 1, ro_dispatched = 1, ro_published = 1,
    ro_remaining_unpublished = rs_count store s2\<rparr>, s2)"
  using assms by (simp add: relay_over_def Let_def)

lemma fetch_only:
  assumes "outbox_rows (pg_outbox (so_memory (snd s))) evs" and "map fst (waiting evs) = [e]" and "0 < n"
  shows "rs_fetch (memory_outbox dv) s n = Inr [stored_event e]"
proof -
  obtain p where p: "waiting evs = [p]" "fst p = e" using assms(2) by (cases "waiting evs") auto
  have "take (nat n) [p] = [p]" using assms(3) by (cases "nat n") auto
  then show ?thesis
    using waiting_rows(1) [OF assms(1)] waiting_rows(2) [OF assms(1), of "dv_int_of dv" "nat n"] assms(3) p
    by (simp add: memory_outbox_def postgres_relay_store_def fetch_unpublished_def Let_def)
qed

lemma mark_extractable:
  assumes "extractable d eps evs cls"
  shows "extractable (d\<lparr>pg_outbox := mark_published (pg_outbox d) ids ts\<rparr>) eps (map (marked ids ts) evs) cls"
  using assms mark_rows [of "pg_outbox d" evs ids ts] by (auto simp: extractable_def refines_def in_transaction_def)

lemma count_waiting:
  assumes "outbox_rows (pg_outbox (so_memory (snd s))) evs"
  shows "rs_count (memory_outbox dv) s = length (waiting evs)"
proof -
  have "length (filter unpublished (pg_outbox (so_memory (snd s)))) = length (sort_key outbox_stamp (filter unpublished (pg_outbox (so_memory (snd s)))))"
    by simp
  then show ?thesis unfolding waiting_rows(1) [OF assms] by (simp add: memory_outbox_def postgres_relay_store_def count_unpublished_def Let_def)
qed

lemma publish_log_to:
  "n < length (wo_publishers w) \<Longrightarrow> \<exists>w'. publish_log n ((rt, w), st) e = (Inr (), ((rt, w'), st))
     \<and> wo_publishers w' ! n = wo_publishers w ! n @ [e] \<and> length (wo_publishers w') = length (wo_publishers w)"
  by (simp add: publish_log_def logging_publish_def)

text \<open>The consumer passes over every event but recordings.\<close>

lemma publish_other:
  assumes "ev_event_type e \<noteq> episode_recorded"
  shows "publish_to dv (InboxPublisher h n) s e = publish_log n s e"
proof -
  have "processor_for [extraction_processor dv h] (ev_event_type e) = None"
    using assms by (simp add: processor_for_def extraction_processor_def processor_supports_def)
  then show ?thesis by (cases s) (simp add: process_inbox_handle_def)
qed

lemma publish_recorded:
  assumes x: "extractable (so_memory st) eps evs cls" and e: "e \<in> set eps" "ep_scope e = rc_scope c" "ep_id e = i"
    and ev: "ev = stored_event (new_event c ei i now)" and scope: "scope_ok (rc_scope c)"
    and h: "ih_extraction_enabled h" "\<not> blank (ih_extractor_version h)"
    and new: "dict_get (so_inbox st) ei = None" "(ms_tenant_id (rc_scope c), i, ih_extractor_version h) \<notin> claim_key ` set cls"
      "dv_claim_ids dv ei 0 \<notin> cl_id ` set cls" "dv_claim_event_ids dv ei 0 \<notin> (\<lambda>p. ev_event_id (fst p)) ` set evs"
    and n: "n < length (wo_publishers w)"
  shows "\<exists>w' st' ce. publish_to dv (InboxPublisher h n) ((rt, w), st) ev = (Inr (), ((rt, w'), st'))
    \<and> extractable (so_memory st') eps (evs @ [(ce, DNull)]) (cls @ [extracted_claim (ih_extractor_version h) e (dv_claim_ids dv ei 0)])
    \<and> event_digest ce = (dv_claim_event_ids dv ei 0, claim_proposed, ms_tenant_id (rc_scope c), memory_uuid (dv_claim_ids dv ei 0))
    \<and> ev_causation_id ce = Some ei
    \<and> wo_publishers w' ! n = wo_publishers w ! n @ [ev] \<and> length (wo_publishers w') = length (wo_publishers w)"
proof -
  have mem: "ev \<in> {new_event c ei i now, stored_event (new_event c ei i now)}" using ev by simp
  note f = new_event_fields [OF mem] and k = scope_roundtrip [OF mem scope]
  have sc: "scope_from_episode_recorded_event ev = Inr (ep_scope e, ep_id e)" by (simp add: k e)
  obtain d' ce where d': "extract_claims_handle (postgres_port (dv_float_of dv)) (deterministic_propose (ih_extractor_version h))
      (dv_claim_ids dv ei) (dv_claim_event_ids dv ei) True (so_memory st) ev = (Inr (), d')"
    "extractable d' eps (evs @ [(ce, DNull)]) (cls @ [extracted_claim (ih_extractor_version h) e (dv_claim_ids dv ei 0)])"
    "event_digest ce = (dv_claim_event_ids dv ei 0, claim_proposed, ms_tenant_id (ep_scope e), memory_uuid (dv_claim_ids dv ei 0))"
    "ev_causation_id ce = Some (ev_event_id ev)"
    using extract_new [where f = "dv_float_of dv" and mids = "dv_claim_ids dv ei" and eids = "dv_claim_event_ids dv ei",
        OF x e(1) h(2) sc] new(2-4) by (auto simp: e)
  have p: "processor_for [extraction_processor dv h] (ev_event_type ev) = Some (extraction_processor dv h)"
    by (simp add: processor_for_def extraction_processor_def processor_supports_def f(5))
  have run: "snd (extraction_processor dv h) (so_memory st) ev = (Inr (), d')"
    using d'(1) h(1) by (simp add: extraction_processor_def episode_recorded_process_def k(1) f(8))
  obtain inbox where "process_inbox_handle [extraction_processor dv h] (ih_consumer_name h) (dv_now dv) (so_inbox st, so_memory st) ev
      = (Inr \<lparr>pi_processed = True, pi_skipped = False\<rparr>, inbox, d')"
    using p run new(1) by (simp add: process_inbox_handle_def try_record_def f(8))
  moreover obtain w' where "publish_log n ((rt, w), st\<lparr>so_inbox := inbox, so_memory := d'\<rparr>) ev = (Inr (), ((rt, w'), st\<lparr>so_inbox := inbox, so_memory := d'\<rparr>))"
    "wo_publishers w' ! n = wo_publishers w ! n @ [ev]" "length (wo_publishers w') = length (wo_publishers w)"
    using publish_log_to [OF n, of rt "st\<lparr>so_inbox := inbox, so_memory := d'\<rparr>" ev] by blast
  ultimately show ?thesis
    using d'(2-4) by (intro exI [of _ w'] exI [of _ "st\<lparr>so_inbox := inbox, so_memory := d'\<rparr>"] exI [of _ ce]) (simp add: e f(8))
qed

lemma relay_once_handler:
  assumes "relay_outbox_handler rt = (Inr h, rt')"
  shows "relay_outbox_once dv (Some b) ((rt, w), st)
    = relay_over (memory_outbox dv) (publish_to dv (rh_publisher h)) (dv_now dv) b ((rt', w), st)"
  using assms by (simp add: relay_outbox_once_def batch_of_def)

lemma marked_unread: "ev_event_id e \<notin> set ids \<Longrightarrow> marked ids ts (e, x) = (e, x)"
  by (simp add: marked_def)

lemma waiting_last:
  assumes "waiting evs = []"
  shows "waiting (evs @ [(e, DNull)]) = [(e, DNull)]"
proof -
  have "length (filter (\<lambda>p. snd p = DNull) evs) = 0"
    using assms unfolding waiting_def by (metis length_sort list.size(3))
  then show ?thesis by (simp add: waiting_def)
qed

abbreviation marking :: "'c stores \<Rightarrow> event_id list \<Rightarrow> datetime \<Rightarrow> 'c stores" where
  "marking st ids ts \<equiv> st\<lparr>so_memory := (so_memory st)\<lparr>pg_outbox := mark_published (pg_outbox (so_memory st)) ids ts\<rparr>\<rparr>"

lemma rs_mark_memory: "rs_mark (memory_outbox dv) ((rt, w), st) ids ts = ((rt, w), marking st ids ts)"
  by (simp add: memory_outbox_def postgres_relay_store_def Let_def)

text \<open>A batch of one event that the consumer passes over: it is logged and marked.\<close>

lemma relay_passes_on:
  assumes h: "relay_outbox_handler rt = (Inr h, rt')" "rh_publisher h = InboxPublisher ih n" "n < length (wo_publishers w)"
    and x: "extractable (so_memory st) eps evs cls" "waiting evs = [(ce, DNull)]" "ev_event_type ce \<noteq> episode_recorded" and b: "0 < b"
  shows "\<exists>w' st'. relay_outbox_once dv (Some b) ((rt, w), st)
        = (Inr \<lparr>ro_fetched = 1, ro_dispatched = 1, ro_published = 1, ro_remaining_unpublished = 0\<rparr>, ((rt', w'), st'))
    \<and> wo_publishers w' ! n = wo_publishers w ! n @ [stored_event ce] \<and> (\<exists>evs'. extractable (so_memory st') eps evs' cls)"
proof -
  have o1: "outbox_rows (pg_outbox (so_memory (snd ((rt', w), st)))) evs" using x(1) by (simp add: extractable_def)
  have f: "rs_fetch (memory_outbox dv) ((rt', w), st) b = Inr [stored_event ce]" by (rule fetch_only [OF o1 _ b]) (unfold x(2), simp)
  have "ev_event_type (stored_event ce) \<noteq> episode_recorded" using x(3) by (simp add: stored_event_def)
  note other = publish_other [OF this, of dv ih n "((rt', w), st)"]
  obtain wl where wl: "publish_log n ((rt', w), st) (stored_event ce) = (Inr (), ((rt', wl), st))"
    "wo_publishers wl ! n = wo_publishers w ! n @ [stored_event ce]"
    using publish_log_to [OF h(3), of rt' st "stored_event ce"] by auto
  let ?st = "marking st [ev_event_id ce] (dv_now dv)"
  have x': "extractable (so_memory ?st) eps (map (marked [ev_event_id ce] (dv_now dv)) evs) cls"
    using mark_extractable [OF x(1), of "[ev_event_id ce]" "dv_now dv"] by simp
  have o2: "outbox_rows (pg_outbox (so_memory (snd ((rt', wl), ?st)))) (map (marked [ev_event_id ce] (dv_now dv)) evs)"
    using x' by (simp add: extractable_def)
  have "waiting (map (marked [ev_event_id ce] (dv_now dv)) evs) = []" unfolding marked_waiting x(2) by simp
  then have c: "rs_count (memory_outbox dv) ((rt', wl), ?st) = 0" unfolding count_waiting [OF o2] by simp
  have "relay_outbox_once dv (Some b) ((rt, w), st)
      = (Inr \<lparr>ro_fetched = 1, ro_dispatched = 1, ro_published = 1, ro_remaining_unpublished = 0\<rparr>, ((rt', wl), ?st))"
    unfolding relay_once_handler [OF h(1)] h(2)
    using relay_one [where store = "memory_outbox dv" and publish = "publish_to dv (InboxPublisher ih n)", OF f other [unfolded wl(1)],
        of "((rt', wl), ?st)" "dv_now dv"] c by (simp add: rs_mark_memory stored_event_def)
  with wl(2) x' show ?thesis by blast
qed

text \<open>A batch of one recording: its claim is stored, and the claim's event waits.\<close>

lemma relay_extracts:
  assumes h: "relay_outbox_handler rt = (Inr h, rt')" "rh_publisher h = InboxPublisher ih n" "n < length (wo_publishers w)"
    and x: "extractable (so_memory st) eps (evs @ [(ev, DNull)]) cls" "waiting evs = []"
    and e: "e \<in> set eps" "ep_scope e = rc_scope c" "ep_id e = i" and ev: "ev = new_event c ei i now" "ev_event_id ev = ei" and scope: "scope_ok (rc_scope c)"
    and ih: "ih_extraction_enabled ih" "\<not> blank (ih_extractor_version ih)"
    and new: "dict_get (so_inbox st) ei = None" "(ms_tenant_id (rc_scope c), i, ih_extractor_version ih) \<notin> claim_key ` set cls"
      "dv_claim_ids dv ei 0 \<notin> cl_id ` set cls" "dv_claim_event_ids dv ei 0 \<notin> insert ei ((\<lambda>p. ev_event_id (fst p)) ` set evs)" and b: "0 < b"
  shows "\<exists>w' st' evs' ce. relay_outbox_once dv (Some b) ((rt, w), st)
        = (Inr \<lparr>ro_fetched = 1, ro_dispatched = 1, ro_published = 1, ro_remaining_unpublished = 1\<rparr>, ((rt', w'), st'))
    \<and> extractable (so_memory st') eps evs' (cls @ [extracted_claim (ih_extractor_version ih) e (dv_claim_ids dv ei 0)]) \<and> waiting evs' = [(ce, DNull)]
    \<and> ev_event_type ce = claim_proposed \<and> ev_causation_id ce = Some ei
    \<and> wo_publishers w' ! n = wo_publishers w ! n @ [stored_event ev] \<and> length (wo_publishers w') = length (wo_publishers w)"
proof -
  let ?cls = "cls @ [extracted_claim (ih_extractor_version ih) e (dv_claim_ids dv ei 0)]"
  have o0: "outbox_rows (pg_outbox (so_memory (snd ((rt', w), st)))) (evs @ [(ev, DNull)])" using x(1) by (simp add: extractable_def)
  have f: "rs_fetch (memory_outbox dv) ((rt', w), st) b = Inr [stored_event ev]"
    by (rule fetch_only [OF o0 _ b]) (simp add: waiting_last [OF x(2)])
  have id: "dv_claim_event_ids dv ei 0 \<notin> (\<lambda>p. ev_event_id (fst p)) ` set (evs @ [(ev, DNull)])" using new(4) ev(2) by auto
  from publish_recorded [OF x(1) e arg_cong [OF ev(1), of stored_event] scope ih new(1-3) id h(3), of rt']
  obtain w1 st1 ce where p: "publish_to dv (InboxPublisher ih n) ((rt', w), st) (stored_event ev) = (Inr (), ((rt', w1), st1))"
    "extractable (so_memory st1) eps ((evs @ [(ev, DNull)]) @ [(ce, DNull)]) ?cls"
    "event_digest ce = (dv_claim_event_ids dv ei 0, claim_proposed, ms_tenant_id (rc_scope c), memory_uuid (dv_claim_ids dv ei 0))"
    "ev_causation_id ce = Some ei" "wo_publishers w1 ! n = wo_publishers w ! n @ [stored_event ev]"
    "length (wo_publishers w1) = length (wo_publishers w)" by blast
  have ce: "ev_event_type ce = claim_proposed" "ev_event_id ce \<noteq> ei" using p(3) new(4) by (auto simp: event_digest_def)
  let ?st = "marking st1 [ei] (dv_now dv)" and ?evs = "map (marked [ei] (dv_now dv)) (evs @ [(ev, DNull)]) @ [(ce, DNull)]"
  have x2: "extractable (so_memory ?st) eps ?evs ?cls"
    using mark_extractable [OF p(2), of "[ei]" "dv_now dv"] by (simp add: marked_unread ce(2))
  have w2: "waiting ?evs = [(ce, DNull)]"
    by (rule waiting_last) (unfold marked_waiting waiting_last [OF x(2)], simp add: ev(2))
  have o2: "outbox_rows (pg_outbox (so_memory (snd ((rt', w1), ?st)))) ?evs" using x2 by (simp add: extractable_def)
  have c2: "rs_count (memory_outbox dv) ((rt', w1), ?st) = 1" unfolding count_waiting [OF o2] w2 by simp
  have "relay_outbox_once dv (Some b) ((rt, w), st)
      = (Inr \<lparr>ro_fetched = 1, ro_dispatched = 1, ro_published = 1, ro_remaining_unpublished = 1\<rparr>, ((rt', w1), ?st))"
    unfolding relay_once_handler [OF h(1)] h(2)
    using relay_one [where store = "memory_outbox dv" and publish = "publish_to dv (InboxPublisher ih n)", OF f p(1), of "((rt', w1), ?st)" "dv_now dv"]
      c2 by (simp add: rs_mark_memory stored_event_def ev(2))
  with x2 w2 ce(1) p(4-6) show ?thesis by blast
qed

section \<open>Property\<close>

text \<open>What the identifiers of one recording and its extraction must not be.\<close>

definition fresh_ids :: "'c driver \<Rightarrow> 'c stores \<Rightarrow> record_episode_command \<Rightarrow> string \<Rightarrow> episode list
    \<Rightarrow> (event_envelope \<times> db_value) list \<Rightarrow> claim list \<Rightarrow> bool" where
  "fresh_ids dv st c version eps evs cls \<longleftrightarrow>
     (\<forall>x \<in> set eps. episode_key x \<noteq> (ms_tenant_id (rc_scope c), rc_idempotency_key c)) \<and> dv_memory_id dv \<notin> ep_id ` set eps
     \<and> dv_event_id dv \<notin> (\<lambda>p. ev_event_id (fst p)) ` set evs \<and> dict_get (so_inbox st) (dv_event_id dv) = None
     \<and> (ms_tenant_id (rc_scope c), dv_memory_id dv, version) \<notin> claim_key ` set cls
     \<and> dv_claim_ids dv (dv_event_id dv) 0 \<notin> cl_id ` set cls
     \<and> dv_claim_event_ids dv (dv_event_id dv) 0 \<notin> insert (dv_event_id dv) ((\<lambda>p. ev_event_id (fst p)) ` set evs)"

text \<open>
  C4. Recorded episodes become claims. When the outbox is empty and extraction is on, a new
  recording and two batches of the relay of a running program publish the recording's event
  and, caused by it, the claim's event, leave the outbox empty again, and the claim listing
  shows the extracted claim to whoever walks its pages.
\<close>

theorem recorded_episode_becomes_claim:
  assumes h: "relay_outbox_handler rt = (Inr h, rt')" "rh_publisher h = InboxPublisher ih n" "n < length (wo_publishers w)"
    and ih: "ih_extraction_enabled ih" "\<not> blank (ih_extractor_version ih)"
    and x: "extractable (so_memory st) eps evs cls" "waiting evs = []"
    and c: "recordable c (dv_now dv)" "authorize (record_request c)"
    and fresh: "fresh_ids dv st c (ih_extractor_version ih) eps evs cls" and b: "0 < b" and k: "0 < k"
    and ev: "ev = new_event c (dv_event_id dv) (dv_memory_id dv) (dv_now dv)"
    and cl: "cl = extracted_claim (ih_extractor_version ih) (new_episode c (dv_memory_id dv) (dv_now dv)) (dv_claim_ids dv (dv_event_id dv) 0)"
  shows "\<exists>d s1 s2 ce r2 claims. record_episode_handle (postgres_port (dv_float_of dv)) authorize (dv_now dv) (dv_memory_id dv) (dv_event_id dv)
        (so_memory st) c = (Inr \<lparr>rr_episode_id = dv_memory_id dv, rr_created = True\<rparr>, d)
    \<and> relay_outbox_once dv (Some b) ((rt, w), st\<lparr>so_memory := d\<rparr>) = (Inr \<lparr>ro_fetched = 1, ro_dispatched = 1, ro_published = 1, ro_remaining_unpublished = 1\<rparr>, s1)
    \<and> relay_outbox_once dv' (Some b) s1 = (Inr \<lparr>ro_fetched = 1, ro_dispatched = 1, ro_published = 1, ro_remaining_unpublished = 0\<rparr>, s2)
    \<and> wo_publishers (snd (fst s2)) ! n = wo_publishers w ! n @ [stored_event ev, stored_event ce]
    \<and> ev_event_type ce = claim_proposed \<and> ev_causation_id ce = Some (ev_event_id ev)
    \<and> cl \<in> set claims \<and> r2 = walk (Suc (length claims)) (claim_page (dv_float_of dv) actor (so_memory (snd s2)) (rc_scope c) k) None
    \<and> r2 = Inr claims"
proof -
  let ?i = "dv_memory_id dv" and ?ei = "dv_event_id dv" and ?e = "new_episode c (dv_memory_id dv) (dv_now dv)"
  from fresh have ids: "\<forall>x \<in> set eps. episode_key x \<noteq> (ms_tenant_id (rc_scope c), rc_idempotency_key c)" "?i \<notin> ep_id ` set eps"
      "?ei \<notin> (\<lambda>p. ev_event_id (fst p)) ` set evs"
    and inbox: "dict_get (so_inbox st) ?ei = None"
    and claim: "(ms_tenant_id (rc_scope c), ?i, ih_extractor_version ih) \<notin> claim_key ` set cls" "dv_claim_ids dv ?ei 0 \<notin> cl_id ` set cls"
      "dv_claim_event_ids dv ?ei 0 \<notin> insert ?ei ((\<lambda>p. ev_event_id (fst p)) ` set evs)"
    unfolding fresh_ids_def by blast+
  have evid: "ev_event_id ev = ?ei" using recorded_event_made(6) [OF c(1)] by (simp add: ev)
  have e: "?e \<in> set (eps @ [?e])" "ep_scope ?e = rc_scope c" "ep_id ?e = ?i"
    by (simp_all add: new_episode_def command_episode_def)
  have scope: "scope_ok (rc_scope c)" using c(1) by (simp add: recordable_def)
  from record_extractable [where f = "dv_float_of dv" and authorize = authorize, OF x(1) c(2,1) ids]
  obtain d where d: "record_episode_handle (postgres_port (dv_float_of dv)) authorize (dv_now dv) ?i ?ei (so_memory st) c
      = (Inr \<lparr>rr_episode_id = ?i, rr_created = True\<rparr>, d)" "extractable d (eps @ [?e]) (evs @ [(ev, DNull)]) cls"
    unfolding ev by blast
  have x0: "extractable (so_memory (st\<lparr>so_memory := d\<rparr>)) (eps @ [?e]) (evs @ [(ev, DNull)]) cls"
    and inbox0: "dict_get (so_inbox (st\<lparr>so_memory := d\<rparr>)) ?ei = None" using d(2) inbox by simp_all
  from relay_extracts [OF h x0 x(2) e ev evid scope ih inbox0 claim b] obtain w1 st1 evs1 ce where one:
    "relay_outbox_once dv (Some b) ((rt, w), st\<lparr>so_memory := d\<rparr>)
      = (Inr \<lparr>ro_fetched = 1, ro_dispatched = 1, ro_published = 1, ro_remaining_unpublished = 1\<rparr>, ((rt', w1), st1))"
    "extractable (so_memory st1) (eps @ [?e]) evs1 (cls @ [cl])" "waiting evs1 = [(ce, DNull)]"
    "ev_event_type ce = claim_proposed" "ev_causation_id ce = Some ?ei"
    "wo_publishers w1 ! n = wo_publishers w ! n @ [stored_event ev]" "length (wo_publishers w1) = length (wo_publishers w)"
    unfolding cl by blast
  have "n < length (wo_publishers w1)" "ev_event_type ce \<noteq> episode_recorded"
    using h(3) one(4,7) by (simp_all add: claim_proposed_def episode_recorded_def)
  from relay_passes_on [OF conjunct1 [OF memory_relay_again [OF h(1)]] h(2) this(1) one(2,3) this(2) b, of dv'] obtain w2 st2 evs2 where two:
    "relay_outbox_once dv' (Some b) ((rt', w1), st1)
      = (Inr \<lparr>ro_fetched = 1, ro_dispatched = 1, ro_published = 1, ro_remaining_unpublished = 0\<rparr>, ((rt', w2), st2))"
    "wo_publishers w2 ! n = wo_publishers w1 ! n @ [stored_event ce]" "extractable (so_memory st2) (eps @ [?e]) evs2 (cls @ [cl])" by blast
  let ?claims = "visible_claims (cls @ [cl]) (rc_scope c)"
  have "claim_rows (pg_claims (so_memory st2)) (cls @ [cl])" using two(3) by (simp add: extractable_def)
  note walk = claim_walk [OF this k, of "rc_scope c" "dv_float_of dv" actor]
  have "cl \<in> set ?claims"
    by (simp add: visible_claims_def sort_desc_def open_proposal_def cl e(2)) (simp add: extracted_claim_def)
  with d(1) one two walk show ?thesis
    by (intro exI [of _ d] exI [of _ "((rt', w1), st1)"] exI [of _ "((rt', w2), st2)"] exI [of _ ce] exI [of _ ?claims] exI conjI)
      (simp_all add: evid)
qed

definition claiming_runtime :: app_runtime where
  "claiming_runtime = sample_runtime\<lparr>rt_started := True, rt_database := Some 0, rt_unit_of_work_factory := Some 0,
     rt_outbox_publisher := InboxPublisher (inbox_handler_on sample_settings 0) 0\<rparr>"

lemma claiming_facts:
  "\<exists>rt. relay_outbox_handler claiming_runtime = (Inr \<lparr>rh_store = 0, rh_publisher = InboxPublisher (inbox_handler_on sample_settings 0) 0\<rparr>, rt)"
  "ih_extraction_enabled (inbox_handler_on sample_settings 0)" "ih_extractor_version (inbox_handler_on sample_settings 0) = ''v1''"
  "extractable empty_tables [] [] []" "recordable sample_command sample_time"
  "fresh_ids sample_driver (sample_stores\<lparr>so_memory := empty_tables\<rparr>) sample_command ''v1'' [] [] []"
proof -
  show "\<exists>rt. relay_outbox_handler claiming_runtime = (Inr \<lparr>rh_store = 0, rh_publisher = InboxPublisher (inbox_handler_on sample_settings 0) 0\<rparr>, rt)"
  proof -
    have o': "\<not> oi_enabled (as_oidc sample_settings)" by (simp add: sample_settings_def)
    have "md_memory_enabled (as_modules sample_settings)" "rl_enabled (as_outbox_relay sample_settings)"
      by (simp_all add: sample_settings_def sample_relay_def)
    moreover have "rt_settings claiming_runtime = sample_settings" "rt_relay_handler claiming_runtime = None" "rt_started claiming_runtime"
      "rt_database claiming_runtime = Some 0" "rt_outbox_publisher claiming_runtime = InboxPublisher (inbox_handler_on sample_settings 0) 0"
      by (simp_all add: claiming_runtime_def sample_runtime_def new_runtime_def create_token_verifier_def new_publisher_def o' Let_def)
    ultimately show ?thesis by (simp add: relay_outbox_handler_def with_memory_def memory_enabled_def cached_def)
  qed
  show "ih_extraction_enabled (inbox_handler_on sample_settings 0)" "ih_extractor_version (inbox_handler_on sample_settings 0) = ''v1''"
    by (simp_all add: inbox_handler_on_def) (simp_all add: sample_settings_def)
  show "extractable empty_tables [] [] []"
    using refines_empty by (auto simp: extractable_def outbox_rows_def claim_rows_def empty_tables_def tx_begin_def empty_memory_state_def)
  show "recordable sample_command sample_time" by (rule sample_recordable)
  show "fresh_ids sample_driver (sample_stores\<lparr>so_memory := empty_tables\<rparr>) sample_command ''v1'' [] [] []"
    by (simp add: fresh_ids_def sample_driver_def sample_stores_def)
qed

theorem recorded_episode_becomes_claim_witness:
  "\<exists>d s1 s2 claims. record_episode_handle (postgres_port (\<lambda>_. Inr NaN)) (\<lambda>_. True) sample_time (MemoryId (UUID 10)) (EventId (UUID 11))
        empty_tables sample_command = (Inr \<lparr>rr_episode_id = MemoryId (UUID 10), rr_created = True\<rparr>, d)
    \<and> relay_outbox_once sample_driver (Some 50) ((claiming_runtime, sample_world), sample_stores\<lparr>so_memory := d\<rparr>)
        = (Inr \<lparr>ro_fetched = 1, ro_dispatched = 1, ro_published = 1, ro_remaining_unpublished = 1\<rparr>, s1)
    \<and> relay_outbox_once sample_driver (Some 50) s1 = (Inr \<lparr>ro_fetched = 1, ro_dispatched = 1, ro_published = 1, ro_remaining_unpublished = 0\<rparr>, s2)
    \<and> claims \<noteq> [] \<and> walk (Suc (length claims)) (claim_page (\<lambda>_. Inr NaN) (SubjectId (UUID 2)) (so_memory (snd s2)) sample_scope 1) None = Inr claims"
proof -
  obtain rt where h: "relay_outbox_handler claiming_runtime
      = (Inr \<lparr>rh_store = 0, rh_publisher = InboxPublisher (inbox_handler_on sample_settings 0) 0\<rparr>, rt)" using claiming_facts(1) by blast
  have dv: "dv_now sample_driver = sample_time" "dv_memory_id sample_driver = MemoryId (UUID 10)" "dv_event_id sample_driver = EventId (UUID 11)"
    "dv_float_of sample_driver = (\<lambda>_. Inr NaN)" by (simp_all add: sample_driver_def)
  have scope: "rc_scope sample_command = sample_scope" by (simp add: sample_command_def)
  have v: "\<not> blank ''v1''" by (simp add: blank_iff is_space_def)
  from recorded_episode_becomes_claim [where n = 0 and w = sample_world and st = "sample_stores\<lparr>so_memory := empty_tables\<rparr>" and dv = sample_driver
      and dv' = sample_driver and b = 50 and k = 1 and authorize = "\<lambda>_. True" and actor = "SubjectId (UUID 2)" and c = sample_command
      and eps = "[]" and evs = "[]" and cls = "[]", OF h _ _ claiming_facts(2) _ _ _ _ _ _ _ _ HOL.refl HOL.refl]
  show ?thesis using claiming_facts(3-6) v
    by (simp add: dv scope relaying_facts(2) waiting_def del: walk.simps) (metis empty_iff empty_set)
qed

end
