(* ===== verification/Requests.thy ===== *)
theory Requests
  imports Claim_Flow
begin

text \<open>
  What requests to the control API (\<open>bootstrap/http/app.py\<close>) amount to: for whom they
  act, which inputs are answered with which errors, and what a client sees of its own calls.
\<close>

section \<open>Errors of recording and of executions\<close>

lemma to_command_invalid:
  assumes "\<not> command_ok \<lparr>rc_correlation_id = i, rc_actor_id = a, rc_scope = sc, rc_source_type = re_source_type body,
      rc_content_ref = ArtifactId (re_content_ref body), rc_observed_at = re_observed_at body, rc_content_hash = re_content_hash body,
      rc_idempotency_key = re_idempotency_key body, rc_sensitivity = re_sensitivity body,
      rc_retention_class = re_retention_class body, rc_consent_basis = re_consent_basis body\<rparr>"
  shows "\<exists>msg. mk_record_episode_command \<lparr>rc_correlation_id = i, rc_actor_id = a, rc_scope = sc, rc_source_type = re_source_type body,
      rc_content_ref = ArtifactId (re_content_ref body), rc_observed_at = re_observed_at body, rc_content_hash = re_content_hash body,
      rc_idempotency_key = re_idempotency_key body, rc_sensitivity = re_sensitivity body,
      rc_retention_class = re_retention_class body, rc_consent_basis = re_consent_basis body\<rparr> = Inl (ValueError msg)"
  using assms
  by (auto simp: mk_record_episode_command_def command_ok_def require_aware_def require_non_blank_def raise_if_def)

lemma value_error_response [simp]:
  "exception_response details (ValueError msg) = error_json 500 ''internal_error'' ''internal server error'' []"
  "exception_response details (RequestValidationError msg) = validation_error (details msg)"
  "exception_response details ActorIdNotAllowedError
    = error_json 422 ''actor_id_not_allowed'' ''actor_id must not be provided when authenticated'' []"
  by (simp_all add: exception_response_def List.map_filter_def)

lemma blank_key_refused:
  assumes "blank (xr_idempotency_key body)"
  shows "\<exists>msg. mk_start_execution_request body = Inl (RequestValidationError msg)"
  using assms
  by (auto simp: mk_start_execution_request_def mk_memory_query_request_def mk_budget_request_def mk_scope_request_def schema_non_blank_def
        schema_bound_def schema_timezone_aware_def schema_optional_aware_def raise_if_def split: option.splits)

section \<open>Executions of a running program\<close>

text \<open>A runtime that serves executions over the tables, without OIDC.\<close>

definition serving :: "app_runtime \<Rightarrow> nat \<Rightarrow> bool" where
  "serving rt r \<longleftrightarrow> runtime_coherent rt \<and> runtime_enabled rt \<and> rt_orchestrator rt = Some (InMemoryOrchestrator (PostgresRuntimeStore r))
     \<and> \<not> oi_enabled (as_oidc (rt_settings rt)) \<and> environment_gated (as_environment (rt_settings rt))"

abbreviation open_handler :: "app_runtime \<Rightarrow> nat \<Rightarrow> execution_handler" where
  "open_handler rt r \<equiv> execution_handler_on (rt_settings rt) (InMemoryOrchestrator (PostgresRuntimeStore r))"

lemma serving_asks:
  assumes "serving rt r" and "asks_only rt rt'"
  shows "serving rt' r"
  using assms(1) asks_only_keeps [OF assms(2)] asks_only_runtime [OF assms(2)]
  by (simp add: serving_def runtime_enabled_def)

lemma serving_handlers:
  assumes "serving rt r" and accessor: "accessor \<in> {start_execution_handler, get_execution_snapshot_handler}"
  shows "\<exists>rt'. accessor rt = (Inr (open_handler rt r), rt') \<and> serving rt' r \<and> rt_settings rt' = rt_settings rt"
proof -
  have orch: "rt_orchestrator rt = Some (InMemoryOrchestrator (PostgresRuntimeStore r))" "runtime_enabled rt" "runtime_coherent rt"
    using assms(1) by (simp_all add: serving_def)
  have "Lifecycle.kept (rt_start_execution_handler rt) (Some (open_handler rt r))" "Lifecycle.kept (rt_get_execution_snapshot_handler rt) (Some (open_handler rt r))"
    using orch by (simp_all add: runtime_coherent_def)
  then have "fst (start_execution_handler rt) = Inr (open_handler rt r)" "fst (get_execution_snapshot_handler rt) = Inr (open_handler rt r)"
    by (simp_all add: start_execution_handler_def get_execution_snapshot_handler_def with_runtime_def orch
        cached_kept execution_handler_on_def)
  with accessor have f: "fst (accessor rt) = Inr (open_handler rt r)" by auto
  obtain rt' where rt': "accessor rt = (Inr (open_handler rt r), rt')" using f by (cases "accessor rt") simp
  have "asks_only rt (snd (accessor rt))" using accessor execution_handlers_ask by blast
  then have a: "asks_only rt rt'" by (simp add: rt')
  from rt' serving_asks [OF assms(1) a] asks_only_keeps(1) [OF a] show ?thesis by blast
qed

lemma open_handler_fields:
  assumes "serving rt r"
  shows "eh_authorize (open_handler rt r) ctx q = Inr True" "eh_orchestrator (open_handler rt r) = InMemoryOrchestrator (PostgresRuntimeStore r)"
  using assms by (simp_all add: serving_def execution_handler_on_def create_runtime_authorization_def)

lemma start_served:
  assumes "serving rt r" and "mk_execution_spec (command_spec (dv_execution_id dv) k) = Inr (command_spec (dv_execution_id dv) k)"
    and "pg_start (dv_others dv) (dv_stamp dv) (dv_event_ids dv) (dv_now dv) (so_runtime st) (command_spec (dv_execution_id dv) k) = (Inr sn, t)"
  shows "\<exists>rt'. serving rt' r \<and> ca_start_execution (create_app files lib override dv orig) ctx k ((rt, w), st)
    = (Inr \<lparr>sr_snapshot = sn, sr_created = (sn_execution_id sn = dv_execution_id dv)\<rparr>, ((rt', w), st\<lparr>so_runtime := t\<rparr>))"
proof -
  obtain rt' where h: "start_execution_handler rt = (Inr (open_handler rt r), rt')" "serving rt' r"
    using serving_handlers [OF assms(1), of start_execution_handler] by blast
  have "start_execution_handle (\<lambda>_. True) (dv_execution_id dv) (orchestrator_start dv (InMemoryOrchestrator (PostgresRuntimeStore r))) st k
      = (Inr \<lparr>sr_snapshot = sn, sr_created = (sn_execution_id sn = dv_execution_id dv)\<rparr>, st\<lparr>so_runtime := t\<rparr>)"
    using assms(2,3) by (simp add: start_execution_handle_def command_spec_def)
  with h show ?thesis
    by (simp add: create_app_def with_handler_def authorizing_def open_handler_fields [OF assms(1)])
qed

lemma get_served:
  assumes "serving rt r" and "pg_get (so_runtime st) (ge_scope q) (ge_execution_id q) = Inr sn"
  shows "\<exists>rt'. serving rt' r \<and> ca_get_execution (create_app files lib override dv orig) ctx q ((rt, w), st) = (Inr sn, ((rt', w), st))"
proof -
  obtain rt' where h: "get_execution_snapshot_handler rt = (Inr (open_handler rt r), rt')" "serving rt' r"
    using serving_handlers [OF assms(1), of get_execution_snapshot_handler] by blast
  with assms(2) show ?thesis
    by (simp add: create_app_def with_handler_def authorizing_def open_handler_fields [OF assms(1)] get_execution_snapshot_handle_def)
qed

section \<open>Samples\<close>

definition oidc_runtime :: app_runtime where
  "oidc_runtime = claiming_runtime\<lparr>rt_settings := sample_settings\<lparr>as_oidc := (as_oidc sample_settings)\<lparr>oi_enabled := True\<rparr>\<rparr>\<rparr>"

definition sample_principal :: principal where
  "sample_principal = \<lparr>pr_actor_id = SubjectId (UUID 2), pr_tenant_id = TenantId (UUID 1)\<rparr>"

definition sample_jwt :: jwt_library where
  "sample_jwt = \<lparr>jl_decode = (\<lambda>_ token. if token = ''t''
       then Some (obj [(''sub'', VStr (uuid_text (UUID 2))), (''tenant_id'', VStr (uuid_text (UUID 1)))]) else None),
     jl_signing_key = (\<lambda>_ _. None)\<rparr>"

definition sample_verifier :: token_verifier where
  "sample_verifier = StaticDevTokenVerifier ''k'' \<lparr>vc_issuer = ''i'', vc_actor_claim = ''sub'', vc_tenant_claim = ''tenant_id'', vc_audience = None\<rparr>"

definition sample_call :: call_params where
  "sample_call = \<lparr>cp_tenant_id = UUID 1, cp_authorization = Some ''Bearer t''\<rparr>"

definition sample_query :: query_params where
  "sample_query = \<lparr>qp_subject_id = UUID 2, qp_actor_id = None, qp_workspace_id = None, qp_agent_id = None\<rparr>"

definition sample_recording_request :: record_episode_request where
  "sample_recording_request = \<lparr>re_actor_id = Some (UUID 2),
     re_scope = \<lparr>sq_tenant_id = UUID 1, sq_subject_id = UUID 2, sq_workspace_id = None, sq_agent_id = None\<rparr>,
     re_source_type = rc_source_type sample_command, re_content_ref = UUID 5, re_observed_at = sample_time, re_content_hash = ''h'',
     re_idempotency_key = [], re_sensitivity = INTERNAL, re_retention_class = rc_retention_class sample_command, re_consent_basis = ''b''\<rparr>"

definition sample_execution_request :: start_execution_request where
  "sample_execution_request = \<lparr>xr_actor_id = Some (UUID 2),
     xr_scope = \<lparr>sq_tenant_id = UUID 1, sq_subject_id = UUID 2, sq_workspace_id = None, sq_agent_id = None\<rparr>,
     xr_objective_ref = UUID 5, xr_root_agent_id = UUID 6, xr_memory_query = None,
     xr_budget = \<lparr>bq_max_input_tokens = 1, bq_max_output_tokens = 1, bq_max_cost_micros = 1, bq_deadline = sample_time\<rparr>,
     xr_idempotency_key = []\<rparr>"

lemma sample_authenticated:
  "authenticated (create_app files sample_jwt (Some sample_verifier) dv rt) sample_call sample_principal"
proof -
  have t: "parse_bearer_token (Some ''Bearer t'') = Inr ''t''" by code_simp
  have "verify_token sample_jwt sample_verifier ''t'' = Inr sample_principal"
    by (simp add: sample_jwt_def sample_verifier_def principal_of_payload_def claim_uuid_def vitem_def vget_def obj_def
        parse_uuid_text sample_principal_def)
  with t show ?thesis by (auto simp: authenticated_def create_app_def sample_call_def sample_principal_def)
qed

section \<open>Properties\<close>

text \<open>
  C3. With OIDC on, a request acts for its principal only. Whatever it asks, it changes
  nothing and is answered with an error, or its token was verified, names the tenant of the
  path, and the one command given to a handler has the token's actor and that tenant; the
  binding of the principal is afterwards what it was before.
\<close>

theorem calls_act_for_their_principal:
  assumes "oi_enabled (as_oidc (rt_settings rt))"
    and "serve (create_app files lib override dv rt) fresh request ctx s = (r, ctx', s')"
  shows "ctx' = ctx \<and> acts_own (create_app files lib override dv rt) request s r s'"
  by (rule serve_own [OF _ assms(2)]) (simp add: create_app_def assms(1))

theorem calls_act_for_their_principal_witness:
  "\<exists>r s'. serve (create_app [] sample_jwt (Some sample_verifier) sample_driver oidc_runtime) (CorrelationId (UUID 1))
        (GetEpisodes sample_call sample_query None None) None ((oidc_runtime, sample_world), sample_stores) = (r, None, s')
    \<and> acts_own (create_app [] sample_jwt (Some sample_verifier) sample_driver oidc_runtime)
        (GetEpisodes sample_call sample_query None None) ((oidc_runtime, sample_world), sample_stores) r s'"
proof -
  have o': "oi_enabled (as_oidc (rt_settings oidc_runtime))" by (simp add: oidc_runtime_def)
  obtain r ctx' s' where a: "serve (create_app [] sample_jwt (Some sample_verifier) sample_driver oidc_runtime) (CorrelationId (UUID 1))
      (GetEpisodes sample_call sample_query None None) None ((oidc_runtime, sample_world), sample_stores) = (r, ctx', s')"
    by (metis prod.exhaust)
  from calls_act_for_their_principal [OF o' a] a show ?thesis by blast
qed

text \<open>
  C40. With OIDC on, no claim can be read: an authenticated request for a claim or for a page
  of claims, with or without an actor of its own, is answered with 422 \<open>actor_id_not_allowed\<close>
  before a handler is asked.
\<close>

theorem authenticated_claim_reads_refused:
  assumes "oi_enabled (as_oidc (rt_settings rt))" and "api = create_app files lib override dv rt"
    and "authenticated api c p" and "limit_param limit = Inr n"
  shows "\<forall>request \<in> {GetClaimById c i q, GetClaims c q limit cursor}. answer details api fresh request s
    = (error_json 422 ''actor_id_not_allowed'' ''actor_id must not be provided when authenticated'' [], s)"
proof -
  have o': "ca_oidc_enabled api" using assms(1,2) by (simp add: create_app_def)
  show ?thesis
    by (simp add: answer_def claim_reads_refused [OF o' assms(3)] assms(4) respond_def)
qed

theorem authenticated_claim_reads_refused_witness:
  "answer (\<lambda>_. []) (create_app [] sample_jwt (Some sample_verifier) sample_driver oidc_runtime) (CorrelationId (UUID 1))
       (GetClaimById sample_call (UUID 20) sample_query) ((oidc_runtime, sample_world), sample_stores)
     = (error_json 422 ''actor_id_not_allowed'' ''actor_id must not be provided when authenticated'' [], (oidc_runtime, sample_world), sample_stores)
   \<and> answer (\<lambda>_. []) (create_app [] sample_jwt (Some sample_verifier) sample_driver oidc_runtime) (CorrelationId (UUID 1))
       (GetClaims sample_call sample_query (Some 10) None) ((oidc_runtime, sample_world), sample_stores)
     = (error_json 422 ''actor_id_not_allowed'' ''actor_id must not be provided when authenticated'' [], (oidc_runtime, sample_world), sample_stores)"
proof -
  have "oi_enabled (as_oidc (rt_settings oidc_runtime))" by (simp add: oidc_runtime_def)
  moreover have "limit_param (Some 10) = Inr 10" by (simp add: limit_param_def schema_bound_def)
  ultimately show ?thesis
    using authenticated_claim_reads_refused [OF _ HOL.refl sample_authenticated] by blast
qed

text \<open>
  A malformed text or date in a recording is an internal error. A body of the right
  tenant, with an actor, whose date is naive or whose hash, key or basis is blank, is answered
  with 500, because only the command checks them; the same blank key in an execution is
  answered with 422.
\<close>

theorem malformed_recording_is_internal_error:
  assumes "\<not> oi_enabled (as_oidc (rt_settings rt))" and "api = create_app files lib override dv rt"
    and "mk_record_episode_request body = Inr body" and "sq_tenant_id (re_scope body) = cp_tenant_id c"
    and "re_actor_id body = Some actor" and "parse_correlation_id fresh h = Inr i"
    and "\<not> aware (re_observed_at body) \<or> blank (re_content_hash body) \<or> blank (re_idempotency_key body) \<or> blank (re_consent_basis body)"
    and "blank (xr_idempotency_key x)"
  shows "answer details api fresh (PostEpisode c h body) s = (error_json 500 ''internal_error'' ''internal server error'' [], s)
    \<and> hr_status_code (fst (answer details api fresh (PostExecution c h x) s)) = 422"
proof -
  have o': "\<not> ca_oidc_enabled api" using assms(1,2) by (simp add: create_app_def)
  obtain sc where sc: "mk_memory_scope \<lparr>ms_tenant_id = TenantId (cp_tenant_id c), ms_subject_id = SubjectId (sq_subject_id (re_scope body)),
      ms_workspace_id = sq_workspace_id (re_scope body), ms_agent_id = map_option AgentInstanceId (sq_agent_id (re_scope body))\<rparr> = Inr sc"
    using assms(3) by (auto simp: mk_record_episode_request_def mk_scope_request_def mk_memory_scope_def schema_non_blank_def
        require_non_blank_def raise_if_def bindE_eq_Inr split: option.splits if_splits)
  obtain msg where msg: "to_command (TenantId (cp_tenant_id c)) i body None = Inl (ValueError msg)"
    using to_command_invalid [of i "SubjectId actor" sc body] assms(4,5,7) sc
    by (auto simp: to_command_def resolve_actor_id_def command_ok_def)
  obtain msg2 where "mk_start_execution_request x = Inl (RequestValidationError msg2)" using blank_key_refused [OF assms(8)] by blast
  then show ?thesis
    using msg by (simp add: answer_def post_episode_def post_execution_def assms(3,6) open_context_runs [OF o'] commanding_def respond_def
        validation_error_def error_json_def)
qed

theorem malformed_recording_is_internal_error_witness:
  "hr_status_code (fst (answer (\<lambda>_. []) (create_app [] sample_jwt None sample_driver claiming_runtime) (CorrelationId (UUID 1))
      (PostEpisode sample_call None sample_recording_request) ((claiming_runtime, sample_world), sample_stores))) = 500
    \<and> hr_status_code (fst (answer (\<lambda>_. []) (create_app [] sample_jwt None sample_driver claiming_runtime) (CorrelationId (UUID 1))
      (PostExecution sample_call None sample_execution_request) ((claiming_runtime, sample_world), sample_stores))) = 422"
proof -
  have "rt_settings claiming_runtime = sample_settings"
    using lives_coherent [OF sample_starts(1)] by (simp add: claiming_runtime_def)
  then have "\<not> oi_enabled (as_oidc (rt_settings claiming_runtime))" by (simp add: sample_settings_def)
  from malformed_recording_is_internal_error [OF this HOL.refl, of sample_recording_request sample_call "UUID 2" "CorrelationId (UUID 1)" None
      "CorrelationId (UUID 1)" sample_execution_request "\<lambda>_. []" "[]" sample_jwt None sample_driver "((claiming_runtime, sample_world), sample_stores)"]
  show ?thesis
    by (simp add: sample_recording_request_def sample_execution_request_def sample_call_def mk_record_episode_request_def mk_scope_request_def
        parse_correlation_id_def blank_iff error_json_def)
qed

text \<open>
  C14. Production fails closed. Settings that are accepted for production use PostgreSQL over
  verified TLS, Temporal over TLS and no plaintext telemetry; their tokens are verified with
  the keys of a JWKS of the configured issuer and never with a development key; and with OIDC
  off every authorization is refused, with OIDC on one is granted only for the bound
  principal's own actor and tenant.
\<close>

theorem production_fails_closed:
  assumes "mk_app_settings is_ipv6 s = Inr s'" and "as_environment s' = PRODUCTION"
  shows "s' = s \<and> production_secure is_ipv6 s'
    \<and> (if oi_enabled (as_oidc s') then (\<exists>uri c. create_token_verifier s' = Inr (Some (JwksTokenVerifier uri c)) \<and> \<not> blank uri \<and> \<not> blank (vc_issuer c))
       else create_token_verifier s' = Inr None)
    \<and> (\<forall>ctx q. create_memory_authorization s' ctx q = Inr True \<longrightarrow> oi_enabled (as_oidc s')
         \<and> (\<exists>p. ctx = Some p \<and> rq_actor_id q = pr_actor_id p \<and> ms_tenant_id (rq_scope q) = pr_tenant_id p))
    \<and> (\<forall>ctx q. create_runtime_authorization s' ctx q = Inr True \<longrightarrow> oi_enabled (as_oidc s')
         \<and> (\<exists>p. ctx = Some p \<and> ra_actor_id q = pr_actor_id p \<and> ms_tenant_id (ra_scope q) = pr_tenant_id p))"
proof -
  from assms have s: "s' = s" and p: "production_secure is_ipv6 s'"
    by (auto simp: mk_app_settings_def bindE_eq_Inr validate_production_Inr)
  have v: "if oi_enabled (as_oidc s') then (\<exists>uri c. create_token_verifier s' = Inr (Some (JwksTokenVerifier uri c)) \<and> \<not> blank uri \<and> \<not> blank (vc_issuer c))
      else create_token_verifier s' = Inr None"
    using p assms(2)
    by (auto simp: create_token_verifier_def production_secure_def oidc_secure_def mk_jwks_token_verifier_def Let_def blank_iff)
  have m: "create_memory_authorization s' ctx q = Inr True \<longrightarrow> oi_enabled (as_oidc s')
      \<and> (\<exists>p. ctx = Some p \<and> rq_actor_id q = pr_actor_id p \<and> ms_tenant_id (rq_scope q) = pr_tenant_id p)" for ctx q
    using assms(2) by (cases ctx) (auto simp: create_memory_authorization_def tenant_scoped_memory_authorize_def current_principal_def
      environment_gated_def bindE_eq_Inr)
  have r: "create_runtime_authorization s' ctx q = Inr True \<longrightarrow> oi_enabled (as_oidc s')
      \<and> (\<exists>p. ctx = Some p \<and> ra_actor_id q = pr_actor_id p \<and> ms_tenant_id (ra_scope q) = pr_tenant_id p)" for ctx q
    using assms(2) by (cases ctx) (auto simp: create_runtime_authorization_def tenant_scoped_runtime_authorize_def current_principal_def
      environment_gated_def bindE_eq_Inr)
  from s p v m r show ?thesis by blast
qed

definition production_settings :: app_settings where
  "production_settings = sample_settings\<lparr>as_environment := PRODUCTION, as_postgres := \<lparr>pg_dsn = ''postgresql://db.example/engram?sslmode=verify-full''\<rparr>,
     as_temporal := (as_temporal sample_settings)\<lparr>tp_tls := True\<rparr>\<rparr>"

theorem production_fails_closed_witness:
  "mk_app_settings (\<lambda>_. True) production_settings = Inr production_settings \<and> production_secure (\<lambda>_. True) production_settings
    \<and> create_token_verifier production_settings = Inr None
    \<and> create_memory_authorization production_settings (Some sample_principal) (record_request sample_command) \<noteq> Inr True"
proof -
  have dsn: "check_postgres_dsn (\<lambda>_. True) ''postgresql://db.example/engram?sslmode=verify-full'' = Inr ()" by code_simp
  have ok: "mk_app_settings (\<lambda>_. True) production_settings = Inr production_settings"
    by (simp add: mk_app_settings_def mk_temporal_settings_def mk_inbox_settings_def mk_claim_extraction_settings_def mk_outbox_relay_settings_def
        mk_runtime_outbox_relay_settings_def validate_production_security_def production_settings_def sample_settings_def sample_relay_def
        dsn blank_iff is_space_def require_non_blank_def raise_if_def)
  have env: "as_environment production_settings = PRODUCTION" "\<not> oi_enabled (as_oidc production_settings)"
    by (simp_all add: production_settings_def) (simp add: sample_settings_def)
  from production_fails_closed [OF ok env(1)] ok env(2) show ?thesis by auto
qed

text \<open>Over the tables: a start under a free key, its repetition under another identifier, and a read.\<close>

lemma start_retry_read:
  assumes spec: "spec = command_spec i k" "startable spec" "in_utc now" and tables: "stores t0 db" "outbox_rows (pr_outbox t0) evs"
    and free: "dict_get (cr_snapshots db) i = None" "dict_get (cr_idempotency_index db) (index_key spec) = None"
      "ids 0 0 \<notin> (\<lambda>p. ev_event_id (fst p)) ` set evs"
    and quiet: "others 0 t0 = t0" "\<And>t. others' 0 t = t" and sn: "sn = initial_snapshot spec now"
  shows "\<exists>t. pg_start others stamp ids now t0 spec = (Inr sn, t)
    \<and> pg_start others' stamp' ids' now' t (command_spec j k) = (Inr sn, t) \<and> pg_get t (sc_scope k) i = Inr sn"
proof -
  have ok: "spec_ok spec" using spec(2) by (simp add: startable_def)
  let ?db = "started_state (ids 0) now db spec" and ?b = "command_spec j k"
  have fresh: "dict_get (cr_snapshots db) (sp_id spec) = None" using free(1) by (simp add: spec(1) command_spec_def)
  obtain t where t: "pg_start others stamp ids now t0 spec = (Inr sn, t)" "stores t ?db"
    using pg_start_free [where others = others and ids = ids, OF tables spec(2,3) fresh free(2,3) quiet(1)] sn by blast
  have id: "sn_execution_id sn = i" by (simp add: sn initial_snapshot_def spec(1) command_spec_def)
  have aware: "aware now" using in_utc_facts [OF spec(3)] by simp
  have first: "start (ids 0) now db spec = (Inr sn, ?db)" using start_new [OF free(2) aware] sn by simp
  have okdb: "db_ok db" using tables(1) by (simp add: stores_def runtime_ok_def)
  have okb: "spec_ok ?b" using ok by (simp add: spec(1) spec_ok_def command_spec_def)
  have again: "start (ids' 0) now' ?db ?b = (Inr sn, ?db)"
    using memory_orchestrator.start_again [of db spec ?b "(ids 0, now)" sn ?db "(ids' 0, now')"]
      okdb ok okb fresh first by (simp add: spec(1) command_spec_id)
  have key: "dict_get (cr_idempotency_index ?db) (index_key ?b) = Some i"
    by (simp add: started_state_def index_key_def spec(1) command_spec_def)
  have "pg_start others' stamp' ids' now' t ?b = (Inr sn, t)"
    using pg_start_taken [OF t(2) okb key, of others' stamp' ids' now' "ids' 0" now'] quiet(2) again by simp
  moreover have "get_snapshot ?db (sc_scope k) i = Inr sn"
    using start_finds_it [OF okdb ok first] id by (simp add: spec(1) command_spec_def)
  ultimately show ?thesis using t(1) pg_get_stored [OF t(2)] by auto
qed

text \<open>
  C13. A client can rely on its own calls. Over the tables and without OIDC, the first POST of
  an execution under a free key answers 201 with the created snapshot; the same POST again,
  whatever identifier it would draw, answers 200 with the same snapshot and writes nothing;
  and a GET by the answered identifier in the scope of the POST answers 200 with that
  snapshot.
\<close>

theorem posted_execution_is_read_back:
  assumes rt: "serving rt r" and api: "api = (\<lambda>dv. create_app files lib override dv rt)"
    and body: "mk_start_execution_request body = Inr body" "parse_correlation_id fresh h = Inr i"
      "to_start_execution_command (TenantId (cp_tenant_id c)) i body None = Inr k"
    and spec: "spec = command_spec (dv_execution_id dv) k" "startable spec" "in_utc (dv_now dv)"
    and tables: "stores (so_runtime st) db" "outbox_rows (pr_outbox (so_runtime st)) evs"
    and free: "dict_get (cr_snapshots db) (dv_execution_id dv) = None" "dict_get (cr_idempotency_index db) (index_key spec) = None"
      "dv_event_ids dv 0 0 \<notin> (\<lambda>p. ev_event_id (fst p)) ` set evs"
    and quiet: "dv_others dv 0 (so_runtime st) = so_runtime st" "\<And>t. dv_others dv' 0 t = t"
    and other: "dv_execution_id dv' \<noteq> dv_execution_id dv" and x: "dv_execution_id dv = ExecutionId x"
    and q: "qp_actor_id q = Some a" "query_scope (TenantId (cp_tenant_id c)) (read_params_of q) = Inr (sc_scope k)"
    and sn: "sn = initial_snapshot spec (dv_now dv)"
  shows "\<exists>s1 s2 s3. answer details (api dv) fresh (PostExecution c h body) ((rt, w), st)
        = (\<lparr>hr_status_code = 201, hr_content = StartBody (start_result_to_response \<lparr>sr_snapshot = sn, sr_created = True\<rparr>)\<rparr>, s1)
    \<and> answer details (api dv') fresh (PostExecution c h body) s1
        = (\<lparr>hr_status_code = 200, hr_content = StartBody (start_result_to_response \<lparr>sr_snapshot = sn, sr_created = False\<rparr>)\<rparr>, s2)
    \<and> answer details (api dv'') fresh (GetExecutionById c x q) s2 = (ok_json (SnapshotBody (snapshot_to_response sn)), s3)
    \<and> snd s2 = snd s1 \<and> snd s3 = snd s1"
proof -
  have open_api: "\<not> ca_oidc_enabled (api d)" for d using rt by (simp add: api create_app_def serving_def)
  note run = open_context_runs [OF open_api] commanding_def body
  have ok: "spec_ok spec" using spec(2) by (simp add: startable_def)
  have id: "sn_execution_id sn = dv_execution_id dv" by (simp add: sn initial_snapshot_def spec(1) command_spec_def)
  have mk: "mk_execution_spec (command_spec j k) = Inr (command_spec j k)" for j
    using ok by (simp add: mk_execution_spec_Inr spec(1) spec_ok_def command_spec_def)
  obtain t where t: "pg_start (dv_others dv) (dv_stamp dv) (dv_event_ids dv) (dv_now dv) (so_runtime st) spec = (Inr sn, t)"
    and retry: "pg_start (dv_others dv') (dv_stamp dv') (dv_event_ids dv') (dv_now dv') (so_runtime (st\<lparr>so_runtime := t\<rparr>))
      (command_spec (dv_execution_id dv') k) = (Inr sn, t)"
    and got: "pg_get t (sc_scope k) (dv_execution_id dv) = Inr sn"
    using start_retry_read [where others = "dv_others dv" and others' = "dv_others dv'" and ids = "dv_event_ids dv"
        and stamp = "dv_stamp dv" and stamp' = "dv_stamp dv'" and ids' = "dv_event_ids dv'" and now' = "dv_now dv'" and j = "dv_execution_id dv'",
        OF spec tables free quiet sn] by auto
  obtain rt1 where one: "serving rt1 r" "ca_start_execution (api dv) None k ((rt, w), st)
      = (Inr \<lparr>sr_snapshot = sn, sr_created = True\<rparr>, ((rt1, w), st\<lparr>so_runtime := t\<rparr>))"
    using start_served [OF rt mk t [unfolded spec(1)], of files lib override rt None w] id by (auto simp: api)
  obtain rt2 where two: "serving rt2 r" "ca_start_execution (api dv') None k ((rt1, w), st\<lparr>so_runtime := t\<rparr>)
      = (Inr \<lparr>sr_snapshot = sn, sr_created = False\<rparr>, ((rt2, w), st\<lparr>so_runtime := t\<rparr>))"
    using start_served [OF one(1) mk retry, of files lib override rt None w] id other by (auto simp: api)
  let ?q = "\<lparr>ge_actor_id = SubjectId a, ge_scope = sc_scope k, ge_execution_id = dv_execution_id dv\<rparr>"
  obtain rt3 where three: "ca_get_execution (api dv'') None ?q ((rt2, w), st\<lparr>so_runtime := t\<rparr>) = (Inr sn, ((rt3, w), st\<lparr>so_runtime := t\<rparr>))"
    using get_served [where st = "st\<lparr>so_runtime := t\<rparr>" and q = ?q and sn = sn and w = w and dv = dv'' and files = files and lib = lib
      and override = override and orig = rt and ctx = None, OF two(1)] got by (auto simp: api)
  have query: "bindE (resolve_query_actor_id None (qp_actor_id q)) (\<lambda>actor.
      to_get_execution_snapshot_query (TenantId (cp_tenant_id c)) (ExecutionId x) (Some actor) (read_params_of q) None) = Inr ?q"
    by (simp add: q resolve_query_actor_id_def resolve_actor_id_def to_get_execution_snapshot_query_def x)
  show ?thesis
    by (intro exI [of _ "((rt1, w), st\<lparr>so_runtime := t\<rparr>)"] exI [of _ "((rt2, w), st\<lparr>so_runtime := t\<rparr>)"] exI [of _ "((rt3, w), st\<lparr>so_runtime := t\<rparr>)"])
      (simp add: answer_def post_execution_def get_execution_def run one(2) two(2) three query respond_def)
qed

definition posting_runtime :: app_runtime where
  "posting_runtime = sample_runtime\<lparr>rt_settings := sample_settings\<lparr>as_temporal := (as_temporal sample_settings)\<lparr>tp_enabled := False\<rparr>\<rparr>,
     rt_database := Some 0, rt_runtime_database := Some (PostgresRuntimeStore 1),
     rt_orchestrator := Some (InMemoryOrchestrator (PostgresRuntimeStore 1)), rt_execution_snapshot_store := Some (PostgresSnapshotStore 1)\<rparr>"

lemma posting_serves: "serving posting_runtime 1"
proof -
  have o': "\<not> oi_enabled (as_oidc sample_settings)" "as_environment sample_settings = DEVELOPMENT" "md_runtime_enabled (as_modules sample_settings)"
    by (simp_all add: sample_settings_def)
  show ?thesis
    by (simp add: serving_def posting_runtime_def sample_runtime_def new_runtime_def create_token_verifier_def new_publisher_def o' Let_def
        environment_gated_def runtime_coherent_def settings_of create_orchestrator_def runtime_number_def)
qed

definition posted :: start_execution_request where
  "posted = \<lparr>xr_actor_id = Some (UUID 2),
     xr_scope = \<lparr>sq_tenant_id = UUID 1, sq_subject_id = UUID 2, sq_workspace_id = Some ''lab'', sq_agent_id = None\<rparr>,
     xr_objective_ref = UUID 5, xr_root_agent_id = UUID 6, xr_memory_query = None,
     xr_budget = \<lparr>bq_max_input_tokens = 1000, bq_max_output_tokens = 500, bq_max_cost_micros = 0, bq_deadline = sample_time\<rparr>,
     xr_idempotency_key = ''start-1''\<rparr>"

lemma posted_command:
  "mk_start_execution_request posted = Inr posted"
  "to_start_execution_command (TenantId (UUID 1)) (CorrelationId (UUID 3)) posted None = Inr sample_start"
  "command_spec i sample_start = sample_spec i"
  "query_scope (TenantId (UUID 1)) (read_params_of \<lparr>qp_subject_id = UUID 2, qp_actor_id = Some (UUID 2), qp_workspace_id = Some ''lab'', qp_agent_id = None\<rparr>)
    = Inr (sc_scope sample_start)"
proof -
  show "mk_start_execution_request posted = Inr posted"
    by (simp add: posted_def mk_start_execution_request_def mk_scope_request_def mk_budget_request_def schema_non_blank_def schema_bound_def
        schema_timezone_aware_def raise_if_def blank_iff is_space_def sample_time_facts)
  show "to_start_execution_command (TenantId (UUID 1)) (CorrelationId (UUID 3)) posted None = Inr sample_start"
    by (simp add: posted_def to_start_execution_command_def scope_from_request_def resolve_actor_id_def budget_from_request_def mk_budget_def
        mk_start_execution_command_def mk_memory_scope_def require_non_blank_def require_aware_def raise_if_def blank_iff is_space_def sample_time_facts
        sample_start_def sample_scope_def)
  show "command_spec i sample_start = sample_spec i" by (simp add: command_spec_def sample_start_def sample_spec_def)
  show "query_scope (TenantId (UUID 1)) (read_params_of \<lparr>qp_subject_id = UUID 2, qp_actor_id = Some (UUID 2), qp_workspace_id = Some ''lab'', qp_agent_id = None\<rparr>)
      = Inr (sc_scope sample_start)"
    by (simp add: query_scope_def read_params_of_def mk_memory_scope_def require_non_blank_def raise_if_def blank_iff is_space_def
        sample_start_def sample_scope_def)
qed

theorem posted_execution_is_read_back_witness:
  "\<exists>s1 s2 s3. fst (answer (\<lambda>_. []) (create_app [] sample_jwt None sample_driver posting_runtime) (CorrelationId (UUID 3))
        (PostExecution sample_call None posted) ((posting_runtime, sample_world), sample_stores\<lparr>so_runtime := no_rows\<rparr>))
      = \<lparr>hr_status_code = 201, hr_content = StartBody (start_result_to_response
          \<lparr>sr_snapshot = initial_snapshot (sample_spec (ExecutionId (UUID 7))) sample_time, sr_created = True\<rparr>)\<rparr>
    \<and> s1 = snd (answer (\<lambda>_. []) (create_app [] sample_jwt None sample_driver posting_runtime) (CorrelationId (UUID 3))
        (PostExecution sample_call None posted) ((posting_runtime, sample_world), sample_stores\<lparr>so_runtime := no_rows\<rparr>))
    \<and> answer (\<lambda>_. []) (create_app [] sample_jwt None (sample_driver\<lparr>dv_execution_id := ExecutionId (UUID 8)\<rparr>) posting_runtime) (CorrelationId (UUID 3))
        (PostExecution sample_call None posted) s1
      = (\<lparr>hr_status_code = 200, hr_content = StartBody (start_result_to_response
          \<lparr>sr_snapshot = initial_snapshot (sample_spec (ExecutionId (UUID 7))) sample_time, sr_created = False\<rparr>)\<rparr>, s2)
    \<and> answer (\<lambda>_. []) (create_app [] sample_jwt None sample_driver posting_runtime) (CorrelationId (UUID 3))
        (GetExecutionById sample_call (UUID 7) \<lparr>qp_subject_id = UUID 2, qp_actor_id = Some (UUID 2), qp_workspace_id = Some ''lab'', qp_agent_id = None\<rparr>) s2
      = (ok_json (SnapshotBody (snapshot_to_response (initial_snapshot (sample_spec (ExecutionId (UUID 7))) sample_time))), s3)"
proof -
  let ?st = "sample_stores\<lparr>so_runtime := no_rows\<rparr>" and ?spec = "sample_spec (ExecutionId (UUID 7))"
  have spec: "?spec = command_spec (dv_execution_id sample_driver) sample_start"
    by (simp add: sample_driver_def posted_command)
  have t: "stores (so_runtime ?st) empty_runtime_state" "outbox_rows (pr_outbox (so_runtime ?st)) []" using no_rows_stores by simp_all
  have now: "in_utc (dv_now sample_driver)" "dv_now sample_driver = sample_time" using sample_utc by (simp_all add: sample_driver_def)
  have body: "to_start_execution_command (TenantId (cp_tenant_id sample_call)) (CorrelationId (UUID 3)) posted None = Inr sample_start"
    by (simp add: sample_call_def posted_command)
  have q: "query_scope (TenantId (cp_tenant_id sample_call)) (read_params_of \<lparr>qp_subject_id = UUID 2, qp_actor_id = Some (UUID 2), qp_workspace_id = Some ''lab'', qp_agent_id = None\<rparr>)
      = Inr (sc_scope sample_start)"
    by (simp add: sample_call_def posted_command)
  have p: "parse_correlation_id (CorrelationId (UUID 3)) None = Inr (CorrelationId (UUID 3))" by (simp add: parse_correlation_id_def)
  from posted_execution_is_read_back [where dv' = "sample_driver\<lparr>dv_execution_id := ExecutionId (UUID 8)\<rparr>" and dv'' = sample_driver and x = "UUID 7"
      and details = "\<lambda>_. []" and files = "[]" and lib = sample_jwt and override = None and w = sample_world and evs = "[]",
      OF posting_serves HOL.refl posted_command(1) p body spec sample_startable now(1) t _ _ _ _ _ _ _ _ q HOL.refl]
  show ?thesis
    by (auto simp: now(2) empty_runtime_state_def sample_driver_def)
qed

end
