(* ===== verification/Processes.thy ===== *)
theory Processes
  imports Lifecycle
begin

text \<open>
  The two processes (\<open>bootstrap/server.py\<close> and \<open>bootstrap/worker.py\<close>): the server's lifespan
  around the requests, and the worker that lends its writers to the activities. The pools
  are database objects of the \<open>world\<close>; what the web server and the worker library do between
  start and stop is an argument.
\<close>

section \<open>The server\<close>

text \<open>\<open>served\<close> is what the body of the lifespan returns or raises, \<open>meanwhile\<close> what it does.\<close>

definition lifespan ::
    "io \<Rightarrow> io \<Rightarrow> ('t app_state \<Rightarrow> unit res \<times> 't app_state) \<Rightarrow> 't app_state \<Rightarrow> unit res \<times> 't app_state" where
  "lifespan up down meanwhile s = (case startup up s of
       (Inl e, s1) \<Rightarrow> (Inl e, s1)
     | (Inr _, s1) \<Rightarrow> (case meanwhile s1 of (served, s2) \<Rightarrow> (case shutdown down s2 of
           (Inl e, s3) \<Rightarrow> (Inl e, s3)
         | (Inr _, s3) \<Rightarrow> (served, s3))))"

text \<open>\<open>main()\<close> on settings that were loaded; \<open>uvicorn.run\<close> runs the lifespan once.\<close>

definition server_main ::
    "app_settings \<Rightarrow> io \<Rightarrow> io \<Rightarrow> ('t app_state \<Rightarrow> unit res \<times> 't app_state) \<Rightarrow> 't world \<Rightarrow> unit res \<times> 't world" where
  "server_main settings up down meanwhile w =
     (if \<not> ht_enabled (as_http settings) then (Inl (ConfigurationError ''http_disabled'' ''HTTP server is disabled''), w)
      else (case new_runtime settings w of
          (Inl e, w1) \<Rightarrow> (Inl e, w1)
        | (Inr rt, w1) \<Rightarrow> (case lifespan up down meanwhile (rt, w1) of (r, _, w2) \<Rightarrow> (r, w2))))"

section \<open>The worker\<close>

text \<open>The two module variables of \<open>activities.py\<close>, beside the world.\<close>

record 't worker_state =
  ws_world :: "'t world"
  ws_writer :: "nat option"
  ws_snapshot_writer :: "nat option"

text \<open>
  \<open>wi_built\<close>: constructing the worker and its signal handlers; \<open>wi_served\<close>: entering the
  worker, waiting for the signal and leaving the worker.
\<close>

record worker_io =
  wi_io :: io
  wi_built :: "unit res"
  wi_served :: "unit res"

definition connect_temporal_client :: "io \<Rightarrow> temporal_settings \<Rightarrow> temporal_connection res" where
  "connect_temporal_client io t = bindE (io_connected io) (\<lambda>_. Inr (TemporalConnection (tp_address t) (tp_namespace t) (tp_tls t)))"

definition configure_runtime_outbox_writer :: "nat option \<Rightarrow> 't worker_state \<Rightarrow> 't worker_state" where
  "configure_runtime_outbox_writer writer s = s\<lparr>ws_writer := writer\<rparr>"

definition configure_runtime_snapshot_writer :: "nat option \<Rightarrow> 't worker_state \<Rightarrow> 't worker_state" where
  "configure_runtime_snapshot_writer writer s = s\<lparr>ws_snapshot_writer := writer\<rparr>"

text \<open>A new writer object with its own database object, and its \<open>open()\<close>.\<close>

definition open_writer :: "io \<Rightarrow> string \<Rightarrow> 't worker_state \<Rightarrow> nat res \<times> 't worker_state" where
  "open_writer io dsn s = (case add_connection RuntimeDatabase dsn (ws_world s) of (i, w0) \<Rightarrow>
     (case open_connection io i w0 of (r, w1) \<Rightarrow> (bindE r (\<lambda>_. Inr i), s\<lparr>ws_world := w1\<rparr>)))"

definition close_writers :: "io \<Rightarrow> nat list \<Rightarrow> 't worker_state \<Rightarrow> unit res \<times> 't worker_state" where
  "close_writers io writers s = (case close_all io writers (ws_world s) of (r, w) \<Rightarrow> (r, s\<lparr>ws_world := w\<rparr>))"

definition serve_worker :: "worker_io \<Rightarrow> nat \<Rightarrow> nat \<Rightarrow> 't worker_state \<Rightarrow> unit res \<times> 't worker_state" where
  "serve_worker x outbox_writer snapshot_writer s =
     (case close_writers (wi_io x) [outbox_writer, snapshot_writer]
         (configure_runtime_snapshot_writer None (configure_runtime_outbox_writer None s)) of
        (Inl e, s') \<Rightarrow> (Inl e, s')
      | (Inr _, s') \<Rightarrow> (wi_served x, s'))"

definition run_worker :: "app_settings \<Rightarrow> worker_io \<Rightarrow> 't worker_state \<Rightarrow> unit res \<times> 't worker_state" where
  "run_worker settings x s =
     (if \<not> tp_enabled (as_temporal settings)
      then (Inl (ConfigurationError ''temporal_disabled'' ''Temporal worker requires temporal.enabled''), s)
      else (case connect_temporal_client (wi_io x) (as_temporal settings) of
          Inl e \<Rightarrow> (Inl e, s)
        | Inr _ \<Rightarrow> (case open_writer (wi_io x) (pg_dsn (as_postgres settings)) s of
            (Inl e, s1) \<Rightarrow> (Inl e, s1)
          | (Inr o', s1) \<Rightarrow> (case open_writer (wi_io x) (pg_dsn (as_postgres settings)) (configure_runtime_outbox_writer (Some o') s1) of
              (Inl e, s2) \<Rightarrow> (Inl e, s2)
            | (Inr n, s2) \<Rightarrow> (case wi_built x of
                Inl e \<Rightarrow> (Inl e, configure_runtime_snapshot_writer (Some n) s2)
              | Inr _ \<Rightarrow> serve_worker x o' n (configure_runtime_snapshot_writer (Some n) s2))))))"

section \<open>What they leave behind\<close>

lemma open_writer_outcome:
  assumes "n = length (wo_connections (ws_world s))"
  shows "\<exists>s'. open_writer io dsn s = (bindE (io_opened io n) (\<lambda>_. Inr n), s') \<and> length (wo_connections (ws_world s')) = Suc n
    \<and> open_pools (ws_world s') = open_pools (ws_world s) \<union> (case io_opened io n of Inr _ \<Rightarrow> {n} | Inl _ \<Rightarrow> {})
    \<and> ws_writer s' = ws_writer s \<and> ws_snapshot_writer s' = ws_snapshot_writer s"
  by (cases "io_opened io n")
    (auto simp: open_writer_def add_connection_def open_connection_def connection_open_def new_connection_def assms open_pools_def nth_append
      list_update_append less_Suc_eq)

lemma close_connection_pools:
  assumes "io_released io i = Inr ()"
  shows "\<exists>w'. close_connection io i w = (Inr (), w') \<and> open_pools w' = open_pools w - {i}"
  using assms
  by (cases "i < length (wo_connections w)")
    (auto simp: close_connection_def connection_close_def open_pools_def nth_list_update split: if_splits)

lemma close_writers_pools:
  assumes "\<forall>i. io_released io i = Inr ()"
  shows "\<exists>s'. close_writers io [i, j] s = (Inr (), s') \<and> open_pools (ws_world s') = open_pools (ws_world s) - {i, j}
    \<and> ws_writer s' = ws_writer s \<and> ws_snapshot_writer s' = ws_snapshot_writer s"
proof -
  obtain w1 where 1: "close_connection io i (ws_world s) = (Inr (), w1)" "open_pools w1 = open_pools (ws_world s) - {i}"
    using close_connection_pools assms by blast
  obtain w2 where 2: "close_connection io j w1 = (Inr (), w2)" "open_pools w2 = open_pools w1 - {j}"
    using close_connection_pools assms by blast
  with 1 show ?thesis by (auto simp: close_writers_def thenS_def)
qed

text \<open>How far a worker comes: the error that stops it and the writers that are open then, or what serving returned.\<close>

definition worker_outcome :: "app_settings \<Rightarrow> worker_io \<Rightarrow> nat \<Rightarrow> unit res \<times> nat list" where
  "worker_outcome settings x n =
     (if \<not> tp_enabled (as_temporal settings)
      then (Inl (ConfigurationError ''temporal_disabled'' ''Temporal worker requires temporal.enabled''), [])
      else (case io_connected (wi_io x) of Inl e \<Rightarrow> (Inl e, [])
      | Inr _ \<Rightarrow> (case io_opened (wi_io x) n of Inl e \<Rightarrow> (Inl e, [])
      | Inr _ \<Rightarrow> (case io_opened (wi_io x) (Suc n) of Inl e \<Rightarrow> (Inl e, [n])
      | Inr _ \<Rightarrow> (case wi_built x of Inl e \<Rightarrow> (Inl e, [n, Suc n]) | Inr _ \<Rightarrow> (wi_served x, []))))))"

definition worker_serves :: "app_settings \<Rightarrow> worker_io \<Rightarrow> nat \<Rightarrow> bool" where
  "worker_serves settings x n \<longleftrightarrow> tp_enabled (as_temporal settings) \<and> io_connected (wi_io x) = Inr () \<and> io_opened (wi_io x) n = Inr ()
     \<and> io_opened (wi_io x) (Suc n) = Inr () \<and> wi_built x = Inr ()"

section \<open>Properties\<close>

lemma serve_worker_outcome:
  assumes "\<forall>i. io_released (wi_io x) i = Inr ()"
  shows "\<exists>s'. serve_worker x i j s = (wi_served x, s') \<and> open_pools (ws_world s') = open_pools (ws_world s) - {i, j}
    \<and> ws_writer s' = None \<and> ws_snapshot_writer s' = None"
  using close_writers_pools [OF assms, of i j "configure_runtime_snapshot_writer None (configure_runtime_outbox_writer None s)"]
  by (auto simp: serve_worker_def configure_runtime_outbox_writer_def configure_runtime_snapshot_writer_def)

lemma run_worker_outcome:
  assumes rel: "\<forall>i. io_released (wi_io x) i = Inr ()" and n: "n = length (wo_connections (ws_world s))"
  shows "\<exists>s'. run_worker settings x s = (fst (worker_outcome settings x n), s')
    \<and> open_pools (ws_world s') = open_pools (ws_world s) \<union> set (snd (worker_outcome settings x n))
    \<and> (worker_serves settings x n \<longrightarrow> ws_writer s' = None \<and> ws_snapshot_writer s' = None)"
proof -
  let ?dsn = "pg_dsn (as_postgres settings)"
  have c: "connect_temporal_client (wi_io x) (as_temporal settings)
      = bindE (io_connected (wi_io x)) (\<lambda>_. Inr (TemporalConnection (tp_address (as_temporal settings)) (tp_namespace (as_temporal settings)) (tp_tls (as_temporal settings))))"
    by (simp add: connect_temporal_client_def)
  obtain s1 where s1: "open_writer (wi_io x) ?dsn s = (bindE (io_opened (wi_io x) n) (\<lambda>_. Inr n), s1)" "length (wo_connections (ws_world s1)) = Suc n"
    "open_pools (ws_world s1) = open_pools (ws_world s) \<union> (case io_opened (wi_io x) n of Inr _ \<Rightarrow> {n} | Inl _ \<Rightarrow> {})"
    using open_writer_outcome [OF n, of "wi_io x" ?dsn] by blast
  let ?s1 = "configure_runtime_outbox_writer (Some n) s1"
  have w1: "ws_world ?s1 = ws_world s1" by (simp add: configure_runtime_outbox_writer_def)
  obtain s2 where s2: "open_writer (wi_io x) ?dsn ?s1 = (bindE (io_opened (wi_io x) (Suc n)) (\<lambda>_. Inr (Suc n)), s2)"
    "open_pools (ws_world s2) = open_pools (ws_world s1) \<union> (case io_opened (wi_io x) (Suc n) of Inr _ \<Rightarrow> {Suc n} | Inl _ \<Rightarrow> {})"
    using open_writer_outcome [of "Suc n" ?s1 "wi_io x" ?dsn] s1(2) w1 by auto
  let ?s2 = "configure_runtime_snapshot_writer (Some (Suc n)) s2"
  have w2: "ws_world ?s2 = ws_world s2" by (simp add: configure_runtime_snapshot_writer_def)
  obtain s3 where s3: "serve_worker x n (Suc n) ?s2 = (wi_served x, s3)" "open_pools (ws_world s3) = open_pools (ws_world s2) - {n, Suc n}"
    "ws_writer s3 = None" "ws_snapshot_writer s3 = None"
    using serve_worker_outcome [OF rel, of n "Suc n" ?s2] w2 by auto
  have f: "n \<notin> open_pools (ws_world s)" "Suc n \<notin> open_pools (ws_world s)" by (simp_all add: open_pools_def n)
  show ?thesis
  proof (cases "tp_enabled (as_temporal settings)")
    case False
    then show ?thesis by (simp add: run_worker_def worker_outcome_def worker_serves_def)
  next
    case on: True
    note d = run_worker_def worker_outcome_def worker_serves_def c on s1 s2 s3 w2
    show ?thesis
    proof (cases "io_connected (wi_io x)")
      case (Inl e)
      then show ?thesis by (simp add: d)
    next
      case con: (Inr u)
      show ?thesis
      proof (cases "io_opened (wi_io x) n")
        case (Inl e)
        then show ?thesis by (simp add: d con)
      next
        case one: (Inr u)
        show ?thesis
        proof (cases "io_opened (wi_io x) (Suc n)")
          case (Inl e)
          then show ?thesis by (simp add: d con one)
        next
          case two: (Inr u)
          then show ?thesis using f by (cases "wi_built x") (auto simp: d con one)
        qed
      qed
    qed
  qed
qed

text \<open>
  C39. What a worker leaves behind. It returns what serving returned, or the first error of
  Temporal being off, the connection, its two pools and its construction, in this order. A
  worker that served has withdrawn both writers and closed both pools; one that failed
  before has not: the pools it had opened stay open.
\<close>

theorem worker_leaves_pools:
  assumes "\<forall>i. io_released (wi_io x) i = Inr ()" and "n = length (wo_connections (ws_world s))"
    and "worker_outcome settings x n = (r, left)" and "run_worker settings x s = (r', s')"
  shows "r' = r \<and> open_pools (ws_world s') = open_pools (ws_world s) \<union> set left
    \<and> (worker_serves settings x n \<longrightarrow> r = wi_served x \<and> left = [] \<and> ws_writer s' = None \<and> ws_snapshot_writer s' = None)"
  using run_worker_outcome [OF assms(1,2), of settings] assms(3,4)
  by (auto simp: worker_serves_def worker_outcome_def)

definition sample_worker :: worker_io where
  "sample_worker = \<lparr>wi_io = fine, wi_built = Inr (), wi_served = Inr ()\<rparr>"

definition sample_worker_state :: "nat list worker_state" where
  "sample_worker_state = \<lparr>ws_world = empty_world no_schema, ws_writer = None, ws_snapshot_writer = None\<rparr>"

theorem worker_leaves_pools_witness:
  "\<exists>s'. run_worker sample_settings sample_worker sample_worker_state = (Inr (), s')
    \<and> open_pools (ws_world s') = {} \<and> ws_writer s' = None \<and> ws_snapshot_writer s' = None"
proof -
  obtain r' s' where r: "run_worker sample_settings sample_worker sample_worker_state = (r', s')" by fastforce
  have n: "0 = length (wo_connections (ws_world sample_worker_state))" by (simp add: sample_worker_state_def empty_world_def)
  have o': "worker_outcome sample_settings sample_worker 0 = (Inr (), [])" "worker_serves sample_settings sample_worker 0"
    by (simp_all add: worker_outcome_def worker_serves_def sample_settings_def sample_worker_def fine_def)
  have "open_pools (ws_world sample_worker_state) = {}" by (simp add: open_pools_def sample_worker_state_def empty_world_def)
  with worker_leaves_pools [OF _ n o'(1) r] r o'(2) show ?thesis by (simp add: sample_worker_def fine_def)
qed

section \<open>What happens between start and stop\<close>

text \<open>Serving asks for handlers and checks readiness; it neither starts nor stops the runtime.\<close>

fun serving_call :: "lifecycle \<Rightarrow> bool" where
  "serving_call (Startup _) = False"
| "serving_call (Shutdown _) = False"
| "serving_call _ = True"

lemma check_ready_pools: "open_pools (snd (snd (check_ready files reached lent selected (rt, w)))) = open_pools w"
proof (cases "memory_enabled rt \<and> rt_started rt \<and> rt_database rt \<noteq> None")
  case False
  then show ?thesis by (auto simp: check_ready_def split: option.split bool.split)
next
  case True
  then obtain i where i: "rt_database rt = Some i" by blast
  obtain x c d where e: "connection_enter files reached lent (wo_connections w ! i, wo_schema w) = (x, c, d)" by (metis prod.exhaust)
  have "pc_pool c = pc_pool (wo_connections w ! i)" using connection_enter_pool [OF e] by blast
  then have "open_pools (w\<lparr>wo_connections := (wo_connections w)[i := c], wo_schema := d\<rparr>) = open_pools w"
    by (cases "i < length (wo_connections w)") (auto simp: open_pools_def nth_list_update split: if_splits)
  with True i e show ?thesis by (simp add: check_ready_def)
qed

lemma serving_call_held:
  assumes "coherent s" and "all_held s" and "serving_call call"
  shows "all_held (snd (runtime_call files call s))"
proof -
  obtain rt w where s: "s = (rt, w)" by fastforce
  show ?thesis
  proof (cases call)
    case (CheckReady reached lent selected)
    have "fst (snd (check_ready files reached lent selected s)) = rt"
      using check_ready_coherent assms(1) s by (metis prod.collapse)
    with assms(2) show ?thesis using check_ready_pools [of files reached lent selected rt w] by (simp add: all_held_def CheckReady s)
  next
    case (Ask h)
    have "asks_only rt (snd (ask h rt))" using ask_asks_only assms(1) s by (auto simp: coherent_def)
    from asks_only_keeps [OF this] assms(2) show ?thesis
      by (auto simp: all_held_def held_connections_def Ask s split: prod.split)
  qed (use assms(3) in auto)
qed

lemma serving_held:
  "coherent s \<Longrightarrow> all_held s \<Longrightarrow> \<forall>call \<in> set calls. serving_call call \<Longrightarrow> all_held (runtime_calls files calls s)"
proof (induction calls arbitrary: s)
  case (Cons call calls)
  have "coherent (snd (runtime_call files call s))" using runtime_call_coherent [OF Cons.prems(1)] by blast
  from Cons.IH [OF this serving_call_held [OF Cons.prems(1,2)]] Cons.prems(3) show ?case by (simp add: runtime_calls_def)
qed (simp add: runtime_calls_def)

text \<open>
  C38. The server's lifespan. When the start succeeds, the stop comes after whatever serving
  did, also after serving failed, releases every pool, and the server returns or raises
  what serving did. When the start fails, its error is raised, nothing is served and nothing
  is stopped: the runtime still holds the pools that were opened before the failure.
\<close>

theorem lifespan_stops_what_it_started:
  assumes "new_runtime st (empty_world d) = (Inr rt, w)" and "\<forall>i. io_released down i = Inr ()"
    and "\<forall>call \<in> set calls. serving_call call"
    and "lifespan up down (\<lambda>s. (served, runtime_calls files calls s)) (rt, w) = (r, rt', w')"
  shows "(case startup up (rt, w) of
      (Inr _, _) \<Rightarrow> r = served \<and> open_pools w' = {} \<and> \<not> rt_started rt'
    | (Inl e, failed) \<Rightarrow> r = Inl e \<and> (rt', w') = failed \<and> open_pools w' \<subseteq> set (held_connections rt'))"
proof -
  have o: "open_pools w = {}" "\<not> rt_started rt" using new_runtime_world [OF assms(1)] by blast+
  have c: "coherent (rt, w)" using new_runtime_coherent [OF assms(1)] by blast
  obtain x s1 where up: "startup up (rt, w) = (x, s1)" by (metis prod.exhaust)
  have c1: "coherent s1" using startup_coherent [OF c] up by (metis prod.collapse)
  have h1: "all_held s1" by (rule startup_held [OF c o(2,1) up])
  show ?thesis
  proof (cases x)
    case (Inl e)
    with up h1 assms(4) show ?thesis by (auto simp: lifespan_def all_held_def)
  next
    case (Inr u)
    obtain rt2 w2 where 2: "runtime_calls files calls s1 = (rt2, w2)" by fastforce
    have c2: "coherent (rt2, w2)" using runtime_calls_coherent [OF c1, of files calls] 2 by simp
    have h2: "open_pools w2 \<subseteq> set (held_connections rt2)" using serving_held [OF c1 h1 assms(3), of files] 2 by (simp add: all_held_def)
    obtain rt3 w3 where 3: "shutdown down (rt2, w2) = (Inr (), rt3, w3)" "open_pools w3 = open_pools w2 - set (held_connections rt2)" "\<not> rt_started rt3"
      using shutdown_closes [OF c2 assms(2)] by blast
    with up Inr 2 h2 assms(4) show ?thesis by (auto simp: lifespan_def)
  qed
qed

theorem lifespan_stops_what_it_started_witness:
  "\<exists>rt w. lifespan fine fine (\<lambda>s. (Inr (), runtime_calls [] [Ask RecordEpisode, CheckReady (Inr ()) (Inr ()) (Inr ())] s)) (sample_runtime, sample_world)
      = (Inr (), rt, w) \<and> open_pools w = {}"
proof -
  let ?between = "\<lambda>s. (Inr (), runtime_calls [] [Ask RecordEpisode, CheckReady (Inr ()) (Inr ()) (Inr ())] s)"
  obtain r rt and w :: "nat list world" where r: "lifespan fine fine ?between (sample_runtime, sample_world) = (r, rt, w)"
    by (metis prod.exhaust)
  have fine: "\<forall>i. io_released fine i = Inr ()" by (simp add: fine_def)
  obtain s1 where "startup fine (sample_runtime, sample_world) = (Inr (), s1)" using sample_startup by fastforce
  with lifespan_stops_what_it_started [OF sample_new fine _ r] have "r = Inr () \<and> open_pools w = {}" by simp
  with r show ?thesis by blast
qed

end
