(* ===== verification/Sha256.thy ===== *)
theory Sha256
  imports "HOL-Library.Word"
begin

text \<open>
  SHA-256 (FIPS 180-4) on bytes, as \<open>hashlib.sha256(...).digest()\<close> computes it: the only hash the
  program uses (\<open>derive_effect_id\<close> of \<open>runtime/domain/model.py\<close>). Words of 32 bits wrap.
\<close>

unbundle bit_operations_syntax

section \<open>Functions on words\<close>

definition sha_ch :: "32 word \<Rightarrow> 32 word \<Rightarrow> 32 word \<Rightarrow> 32 word" where
  "sha_ch x y z = (x AND y) XOR (NOT x AND z)"

definition sha_maj :: "32 word \<Rightarrow> 32 word \<Rightarrow> 32 word \<Rightarrow> 32 word" where
  "sha_maj x y z = (x AND y) XOR (x AND z) XOR (y AND z)"

definition rotr :: "nat \<Rightarrow> 32 word \<Rightarrow> 32 word" where
  "rotr n x = drop_bit n x OR push_bit (32 - n) x"

definition big_sigma_e :: "32 word \<Rightarrow> 32 word" where
  "big_sigma_e x = rotr 6 x XOR rotr 11 x XOR rotr 25 x"

definition big_sigma_a :: "32 word \<Rightarrow> 32 word" where
  "big_sigma_a x = rotr 2 x XOR rotr 13 x XOR rotr 22 x"

definition small_sigma_old :: "32 word \<Rightarrow> 32 word" where
  "small_sigma_old x = rotr 7 x XOR rotr 18 x XOR drop_bit 3 x"

definition small_sigma_new :: "32 word \<Rightarrow> 32 word" where
  "small_sigma_new x = rotr 17 x XOR rotr 19 x XOR drop_bit 10 x"

text \<open>The first 32 bits of the fractional parts of the cube roots and square roots of primes.\<close>

definition round_constants :: "32 word list" where
  "round_constants =
  [0x428A2F98, 0x71374491, 0xB5C0FBCF, 0xE9B5DBA5, 0x3956C25B, 0x59F111F1, 0x923F82A4, 0xAB1C5ED5,
   0xD807AA98, 0x12835B01, 0x243185BE, 0x550C7DC3, 0x72BE5D74, 0x80DEB1FE, 0x9BDC06A7, 0xC19BF174,
   0xE49B69C1, 0xEFBE4786, 0x0FC19DC6, 0x240CA1CC, 0x2DE92C6F, 0x4A7484AA, 0x5CB0A9DC, 0x76F988DA,
   0x983E5152, 0xA831C66D, 0xB00327C8, 0xBF597FC7, 0xC6E00BF3, 0xD5A79147, 0x06CA6351, 0x14292967,
   0x27B70A85, 0x2E1B2138, 0x4D2C6DFC, 0x53380D13, 0x650A7354, 0x766A0ABB, 0x81C2C92E, 0x92722C85,
   0xA2BFE8A1, 0xA81A664B, 0xC24B8B70, 0xC76C51A3, 0xD192E819, 0xD6990624, 0xF40E3585, 0x106AA070,
   0x19A4C116, 0x1E376C08, 0x2748774C, 0x34B0BCB5, 0x391C0CB3, 0x4ED8AA4A, 0x5B9CCA4F, 0x682E6FF3,
   0x748F82EE, 0x78A5636F, 0x84C87814, 0x8CC70208, 0x90BEFFFA, 0xA4506CEB, 0xBEF9A3F7, 0xC67178F2]"

definition initial_hash :: "32 word list" where
  "initial_hash =
  [0x6A09E667, 0xBB67AE85, 0x3C6EF372, 0xA54FF53A, 0x510E527F, 0x9B05688C, 0x1F83D9AB, 0x5BE0CD19]"

section \<open>Blocks\<close>

text \<open>
  Round \<open>t\<close> needs the word \<open>W_t\<close> of the message schedule: the window holds \<open>W_t, ..., W_(t+15)\<close>,
  and every round drops the oldest and appends the next word.
\<close>

definition next_word :: "32 word list \<Rightarrow> 32 word" where
  "next_word w = small_sigma_new (w ! 14) + w ! 9 + small_sigma_old (w ! 1) + w ! 0"

fun sha_round :: "32 word \<Rightarrow> 32 word \<Rightarrow> 32 word list \<Rightarrow> 32 word list" where
  "sha_round k w [a, b, c, d, e, f, g, h] =
     (let t = h + big_sigma_e e + sha_ch e f g + k + w
      in [t + (big_sigma_a a + sha_maj a b c), a, b, c, d + t, e, f, g])"
| "sha_round _ _ s = s"

fun sha_rounds :: "32 word list \<Rightarrow> 32 word list \<Rightarrow> 32 word list \<Rightarrow> 32 word list" where
  "sha_rounds [] w s = s"
| "sha_rounds (k # ks) w s = sha_rounds ks (tl w @ [next_word w]) (sha_round k (hd w) s)"

definition compress :: "32 word list \<Rightarrow> 32 word list \<Rightarrow> 32 word list" where
  "compress hash block = map2 (+) hash (sha_rounds round_constants block hash)"

section \<open>Messages\<close>

fun bytes_to_words :: "nat list \<Rightarrow> 32 word list" where
  "bytes_to_words (a # b # c # d # r) = of_nat (((a * 256 + b) * 256 + c) * 256 + d) # bytes_to_words r"
| "bytes_to_words _ = []"

text \<open>\<open>n.to_bytes(k, 'big')\<close> for \<open>n\<close> below \<open>256 ^ k\<close>.\<close>

fun big_endian :: "nat \<Rightarrow> nat \<Rightarrow> nat list" where
  "big_endian 0 n = []"
| "big_endian (Suc k) n = big_endian k (n div 256) @ [n mod 256]"

definition sha_pad :: "nat list \<Rightarrow> nat list" where
  "sha_pad bytes = bytes @ [128] @ replicate ((119 - length bytes mod 64) mod 64) 0 @ big_endian 8 (8 * length bytes)"

fun blocks :: "nat \<Rightarrow> 32 word list \<Rightarrow> 32 word list list" where
  "blocks 0 ws = []"
| "blocks (Suc n) ws = take 16 ws # blocks n (drop 16 ws)"

definition sha256 :: "nat list \<Rightarrow> nat list" where
  "sha256 bytes = (let ws = bytes_to_words (sha_pad bytes) in
     concat (map (\<lambda>w. big_endian 4 (unat w)) (fold (\<lambda>block hash. compress hash block) (blocks (length ws div 16) ws) initial_hash)))"

section \<open>The digest has 32 bytes\<close>

lemma big_endian_length [simp]: "length (big_endian k n) = k"
  by (induction k arbitrary: n) simp_all

lemma big_endian_bytes: "\<forall>b \<in> set (big_endian k n). b < 256"
  by (induction k arbitrary: n) auto

lemma sha_round_length: "length s = 8 \<Longrightarrow> length (sha_round k w s) = 8"
  by (induction k w s rule: sha_round.induct) (simp_all add: Let_def)

lemma sha_rounds_length: "length s = 8 \<Longrightarrow> length (sha_rounds ks w s) = 8"
  by (induction ks arbitrary: w s) (simp_all add: sha_round_length)

lemma compress_length: "length hash = 8 \<Longrightarrow> length (compress hash block) = 8"
  by (simp add: compress_def sha_rounds_length)

lemma compress_all_length: "length hash = 8 \<Longrightarrow> length (fold (\<lambda>block hash. compress hash block) bs hash) = 8"
  by (induction bs arbitrary: hash) (simp_all add: compress_length)

lemma concat_length: "\<forall>x \<in> set xs. length (f x) = k \<Longrightarrow> length (concat (map f xs)) = length xs * k"
  by (induction xs) auto

lemma sha256_length: "length (sha256 bytes) = 32"
proof -
  have "length initial_hash = 8" by (simp add: initial_hash_def)
  then show ?thesis by (simp add: sha256_def Let_def concat_length [where k = 4] compress_all_length)
qed

lemma sha256_bytes: "\<forall>b \<in> set (sha256 bytes). b < 256"
  using big_endian_bytes by (auto simp: sha256_def Let_def)

end
