(* ===== verification/Effect_Id.thy ===== *)
theory Effect_Id
  imports Runtime_Model Json_Text Sha256 "HOL-Library.Finite_Map"
begin

text \<open>
  The identifier of an effect (\<open>derive_effect_id\<close> of \<open>runtime/domain/model.py\<close>): the first 128
  bits of the SHA-256 of a canonical JSON text of the action. The text of a float (its
  \<open>repr\<close>) is an argument; text is limited to code points below 256, as everywhere here.
\<close>

section \<open>The text\<close>

text \<open>\<open>json.dumps\<close> with \<open>ensure_ascii=False\<close> escapes quotes, backslashes and control characters only.\<close>

definition effect_escape :: "char \<Rightarrow> string" where
  "effect_escape c = (if 126 < (of_char c :: nat) then [c] else json_escape c)"

definition effect_string :: "string \<Rightarrow> string" where
  "effect_string s = CHR 0x22 # concat (map effect_escape s) @ [CHR 0x22]"

definition int_text :: "int \<Rightarrow> string" where
  "int_text i = (if i < 0 then CHR ''-'' # show_nat (nat (- i)) else show_nat (nat i))"

text \<open>
  Compact separators, the members of an object sorted by key. Canonical values have no
  infinite float (\<open>allow_nan=False\<close> would raise), no other type and no other key.
\<close>

fun effect_text :: "(rat \<Rightarrow> string) \<Rightarrow> pyval \<Rightarrow> string"
  and member_texts :: "(rat \<Rightarrow> string) \<Rightarrow> (pyval \<times> pyval) list \<Rightarrow> (string \<times> string) list"
  and element_texts :: "(rat \<Rightarrow> string) \<Rightarrow> pyval list \<Rightarrow> string list" where
  "effect_text repr VNone = ''null''"
| "effect_text repr (VBool b) = (if b then ''true'' else ''false'')"
| "effect_text repr (VInt i) = int_text i"
| "effect_text repr (VFloat x) = (case x of Finite q \<Rightarrow> repr q | _ \<Rightarrow> [])"
| "effect_text repr (VStr s) = effect_string s"
| "effect_text repr (VList vs) = CHR ''['' # join '','' (element_texts repr vs) @ '']''"
| "effect_text repr (VTuple vs) = CHR ''['' # join '','' (element_texts repr vs) @ '']''"
| "effect_text repr (VDict kvs) =
     CHR ''{'' # join '','' (map (\<lambda>(k, t). effect_string k @ CHR '':'' # t) (sort_key fst (member_texts repr kvs))) @ ''}''"
| "effect_text repr (VProxy kvs) =
     CHR ''{'' # join '','' (map (\<lambda>(k, t). effect_string k @ CHR '':'' # t) (sort_key fst (member_texts repr kvs))) @ ''}''"
| "effect_text repr (VOther _) = []"
| "member_texts repr [] = []"
| "member_texts repr ((k, v) # kvs) = (case k of VStr s \<Rightarrow> [(s, effect_text repr v)] | _ \<Rightarrow> []) @ member_texts repr kvs"
| "element_texts repr [] = []"
| "element_texts repr (v # vs) = effect_text repr v # element_texts repr vs"

section \<open>The identifier\<close>

text \<open>\<open>str.encode()\<close> and \<open>UUID(bytes=...)\<close>.\<close>

definition utf8_encode :: "string \<Rightarrow> nat list" where
  "utf8_encode s = concat (map (\<lambda>c. let n = of_char c in if n < 128 then [n] else [192 + n div 64, 128 + n mod 64]) s)"

definition bytes_uuid :: "nat list \<Rightarrow> uuid" where
  "bytes_uuid bytes = UUID (of_nat (foldl (\<lambda>n b. n * 256 + b) 0 bytes))"

text \<open>The bytes that are hashed.\<close>

definition effect_bytes :: "(rat \<Rightarrow> string) \<Rightarrow> execution_id \<Rightarrow> node_id \<Rightarrow> string \<Rightarrow> pyval \<Rightarrow> nat list res" where
  "effect_bytes repr execution_id node_id logical_operation payload =
     bindE (require_non_blank logical_operation ''logical_operation'') (\<lambda>_.
     bindE (canonical_effect_value payload ''payload'') (\<lambda>canonical.
       Inr (utf8_encode (effect_text repr (obj
         [(''execution_id'', VStr (uuid_text (execution_uuid execution_id))),
          (''logical_operation'', VStr logical_operation),
          (''node_id'', VStr (uuid_text (node_uuid node_id))),
          (''payload'', canonical)])))))"

definition derive_effect_id :: "(rat \<Rightarrow> string) \<Rightarrow> execution_id \<Rightarrow> node_id \<Rightarrow> string \<Rightarrow> pyval \<Rightarrow> effect_id res" where
  "derive_effect_id repr execution_id node_id logical_operation payload =
     bindE (effect_bytes repr execution_id node_id logical_operation payload)
       (\<lambda>encoded. Inr (EffectId (bytes_uuid (take 16 (sha256 encoded)))))"

section \<open>Reading numbers and strings back\<close>

text \<open>What may follow a value in compact JSON.\<close>

definition ends_value :: "string \<Rightarrow> bool" where
  "ends_value r \<longleftrightarrow> r = [] \<or> hd r \<in> {CHR '','', CHR '']'', CHR ''}''}"

lemma dec_val_snoc: "dec_val (ds @ [c]) = dec_val ds * 10 + (of_char c - 48)"
  by (simp add: dec_val_def)

lemma digit_char_facts: "d < 10 \<Longrightarrow> is_digit (digit_char d) \<and> of_char (digit_char d) = (48 + d :: nat)"
  by (simp add: digit_char_def is_digit_def)

lemma show_nat_facts: "\<forall>c \<in> set (show_nat n). is_digit c" "show_nat n \<noteq> []" "dec_val (show_nat n) = n"
proof (induction n rule: show_nat.induct)
  case (1 n)
  have "is_digit (digit_char (n mod 10)) \<and> of_char (digit_char (n mod 10)) = (48 + n mod 10 :: nat)" by (rule digit_char_facts) simp
  moreover have "n < 10 \<Longrightarrow> is_digit (digit_char n) \<and> of_char (digit_char n) = (48 + n :: nat)" by (rule digit_char_facts)
  moreover have "dec_val [c] = of_char c - 48" for c by (simp add: dec_val_def)
  ultimately show "\<forall>c \<in> set (show_nat n). is_digit c" "show_nat n \<noteq> []" "dec_val (show_nat n) = n"
    using 1 by (auto simp: show_nat.simps [of n] dec_val_snoc)
qed

lemma show_nat_zero: "hd (show_nat n) = CHR ''0'' \<Longrightarrow> show_nat n = ''0''"
proof (induction n rule: show_nat.induct)
  case (1 n)
  show ?case
  proof (cases "n < 10")
    case True
    with 1(2) show ?thesis by (simp add: show_nat.simps [of n])
  next
    case False
    then have "hd (show_nat n) = hd (show_nat (n div 10))" using show_nat_facts(2) by (simp add: show_nat.simps [of n])
    with 1 False have "show_nat (n div 10) = ''0''" by simp
    moreover have "dec_val ''0'' = 0" by (simp add: dec_val_def)
    ultimately have "n div 10 = 0" using show_nat_facts(3) by metis
    with False show ?thesis by simp
  qed
qed

lemma no_digit_after: "ends_value r \<Longrightarrow> takeWhile is_digit r = [] \<and> json_frac r = ([], r) \<and> json_exp r = (None, r)"
  by (cases r) (auto simp: ends_value_def is_digit_def json_frac_def json_exp_def)

lemma takeWhile_digits: "\<forall>c \<in> set ds. is_digit c \<Longrightarrow> ends_value r \<Longrightarrow> takeWhile is_digit (ds @ r) = ds"
  using no_digit_after by (simp add: takeWhile_append2)

lemma json_number_nat:
  assumes "ends_value r"
  shows "json_number (show_nat n @ r) = Some (VInt (int n), r)" "json_number (CHR ''-'' # show_nat n @ r) = Some (VInt (- int n), r)"
proof -
  note f = show_nat_facts [of n]
  obtain c ds where s: "show_nat n = c # ds" using f(2) by (cases "show_nat n") auto
  have c: "is_digit c" "c \<noteq> CHR ''-''" using f(1) s by (auto simp: is_digit_def)
  have t: "takeWhile is_digit (ds @ r) = ds" "c = CHR ''0'' \<Longrightarrow> ds = []"
    using show_nat_zero [of n] takeWhile_digits [of ds r] f(1) s assms by auto
  have v: "dec_val (c # ds) = n" "\<not> CHR ''-'' = c" using f(3) s c by auto
  note a = no_digit_after [OF assms]
  show "json_number (show_nat n @ r) = Some (VInt (int n), r)"
    by (cases "c = CHR ''0''") (use t v c a in \<open>auto simp: json_number_def Let_def s\<close>)
  show "json_number (CHR ''-'' # show_nat n @ r) = Some (VInt (- int n), r)"
    by (cases "c = CHR ''0''") (use t v c a in \<open>auto simp: json_number_def Let_def s\<close>)
qed

lemma literal_number:
  assumes "s \<noteq> []" and "hd s = CHR ''-'' \<or> is_digit (hd s)" and "take 9 s \<noteq> ''-Infinity''"
  shows "json_literal literals s = json_number s"
proof -
  obtain c t where s: "s = c # t" using assms(1) by (cases s) auto
  have "c \<noteq> CHR ''n'' \<and> c \<noteq> CHR ''t'' \<and> c \<noteq> CHR ''f'' \<and> c \<noteq> CHR ''N'' \<and> c \<noteq> CHR ''I''"
    using assms(2) s by (auto simp: is_digit_def)
  with assms(3) show ?thesis by (auto simp: literals_def s numeral_eq_Suc)
qed

lemma int_text_read:
  assumes "ends_value r"
  shows "json_literal literals (int_text i @ r) = Some (VInt i, r)"
proof -
  note f = show_nat_facts
  have hd: "is_digit (hd (show_nat n @ r))" for n using f [of n] by (cases "show_nat n") auto
  have "take 9 (int_text i @ r) \<noteq> ''-Infinity''"
    using hd [of "nat (- i)"] hd [of "nat i"] f(2)
    by (cases "show_nat (nat (- i))"; cases "show_nat (nat i)") (auto simp: int_text_def is_digit_def)
  moreover have "hd (int_text i @ r) = CHR ''-'' \<or> is_digit (hd (int_text i @ r))" using hd by (simp add: int_text_def)
  ultimately have "json_literal literals (int_text i @ r) = json_number (int_text i @ r)"
    by (intro literal_number) (auto simp: int_text_def f(2))
  with json_number_nat [OF assms] show ?thesis by (simp add: int_text_def)
qed

lemma effect_escape_read:
  "json_rest (effect_escape c @ r) = map_option (\<lambda>(t, q). (c # t, q)) (json_rest r)"
proof (cases "(of_char c :: nat) < 32")
  case True
  have "take_num 16 4 0 (fixed 16 4 (of_char c) @ r) = Some (0 * 16 ^ 4 + of_char c, r)"
    by (rule take_num_fixed) (use True in simp_all)
  moreover have char: "char_of k = c" if "of_char c = (k :: nat)" for k using that by auto
  ultimately show ?thesis using True
    by (auto simp: effect_escape_def json_escape_def Let_def json_rest.simps [of "_ # _"] unescape_def char split: option.splits)
next
  case False
  then show ?thesis
    by (auto simp: effect_escape_def json_escape_def Let_def json_rest.simps [of "_ # _"] unescape_def)
qed

lemma effect_string_read: "json_rest (concat (map effect_escape s) @ CHR 0x22 # r) = Some (s, r)"
  by (induction s) (simp_all add: effect_escape_read json_rest.simps [of "_ # _"])

section \<open>The content of a value\<close>

text \<open>What JSON says: arrays are ordered, objects are finite maps; a list and a tuple, a mapping and its read-only view are the same.\<close>

datatype json =
    JNull | JBool bool | JInt int | JFloat pyfloat | JString string | JArray "json list" | JObject "(string, json) fmap"

fun key_text :: "pyval \<Rightarrow> string" where
  "key_text (VStr s) = s"
| "key_text _ = []"

fun json_content :: "pyval \<Rightarrow> json" where
  "json_content VNone = JNull"
| "json_content (VBool b) = JBool b"
| "json_content (VInt i) = JInt i"
| "json_content (VFloat x) = JFloat x"
| "json_content (VStr s) = JString s"
| "json_content (VList vs) = JArray (map json_content vs)"
| "json_content (VTuple vs) = JArray (map json_content vs)"
| "json_content (VDict kvs) = JObject (fmap_of_list (map (\<lambda>kv. (key_text (fst kv), json_content (snd kv))) kvs))"
| "json_content (VProxy kvs) = JObject (fmap_of_list (map (\<lambda>kv. (key_text (fst kv), json_content (snd kv))) kvs))"
| "json_content (VOther t) = JNull"

text \<open>The values that the canonicalisation returns, and the floats in a value. A Python mapping has no key twice.\<close>

fun plain_json :: "pyval \<Rightarrow> bool" where
  "plain_json (VFloat x) = isfinite x"
| "plain_json (VList vs) = (\<forall>v \<in> set vs. plain_json v)"
| "plain_json (VTuple vs) = False"
| "plain_json (VDict kvs) = (distinct (map fst kvs) \<and> (\<forall>kv \<in> set kvs. is_str (fst kv) \<and> plain_json (snd kv)))"
| "plain_json (VProxy kvs) = False"
| "plain_json (VOther t) = False"
| "plain_json v = True"

fun floats_in :: "pyval \<Rightarrow> rat list" where
  "floats_in (VFloat x) = (case x of Finite q \<Rightarrow> [q] | _ \<Rightarrow> [])"
| "floats_in (VList vs) = concat (map floats_in vs)"
| "floats_in (VTuple vs) = concat (map floats_in vs)"
| "floats_in (VDict kvs) = concat (map (\<lambda>kv. floats_in (snd kv)) kvs)"
| "floats_in (VProxy kvs) = concat (map (\<lambda>kv. floats_in (snd kv)) kvs)"
| "floats_in v = []"

text \<open>What \<open>repr\<close> promises of a finite float: a JSON number that is read back as this float.\<close>

definition float_repr :: "(rat \<Rightarrow> string) \<Rightarrow> rat \<Rightarrow> bool" where
  "float_repr repr q \<longleftrightarrow> (\<exists>c s. repr q = c # s \<and> (c = CHR ''-'' \<or> is_digit c))
     \<and> (\<forall>r. ends_value r \<longrightarrow> json_literal literals (repr q @ r) = Some (VFloat (Finite q), r))"

section \<open>Reading a text back\<close>

lemma insort_key_image: "insort_key f (g x) (map g xs) = map g (insort_key (\<lambda>y. f (g y)) x xs)"
  by (induction xs) auto

lemma sort_key_image: "sort_key f (map g xs) = map g (sort_key (\<lambda>y. f (g y)) xs)"
  by (induction xs) (simp_all add: insort_key_image)

lemma fmap_of_sorted: "distinct (map fst xs) \<Longrightarrow> fmap_of_list (sort_key fst xs) = fmap_of_list (xs :: (string \<times> 'a) list)"
proof (rule fmap_ext)
  fix k assume d: "distinct (map fst xs)"
  have "distinct (map fst (sort_key fst xs))" using d by (simp add: distinct_map)
  with d have "map_of (sort_key fst xs) = map_of xs" by (simp add: map_of_inject_set)
  then show "fmlookup (fmap_of_list (sort_key fst xs)) k = fmlookup (fmap_of_list xs) k" by (simp add: fmlookup_of_list)
qed

text \<open>The members of a canonical object, with their keys as text.\<close>

definition named :: "(pyval \<times> pyval) list \<Rightarrow> (string \<times> pyval) list" where
  "named kvs = map (\<lambda>kv. (key_text (fst kv), snd kv)) kvs"

definition member_text :: "(rat \<Rightarrow> string) \<Rightarrow> string \<times> pyval \<Rightarrow> string" where
  "member_text repr m = effect_string (fst m) @ CHR '':'' # effect_text repr (snd m)"

lemma member_texts_named: "\<forall>kv \<in> set kvs. is_str (fst kv) \<Longrightarrow> member_texts repr kvs = map (\<lambda>m. (fst m, effect_text repr (snd m))) (named kvs)"
  by (induction kvs) (auto simp: is_str_iff named_def)

lemma element_texts_map: "element_texts repr vs = map (effect_text repr) vs"
  by (induction vs) auto

lemma object_text: "\<forall>kv \<in> set kvs. is_str (fst kv) \<Longrightarrow>
    effect_text repr (VDict kvs) = CHR ''{'' # join '','' (map (member_text repr) (sort_key fst (named kvs))) @ ''}''"
  by (simp add: member_texts_named sort_key_image member_text_def [abs_def] o_def case_prod_unfold)

lemma named_distinct:
  assumes "distinct (map fst kvs)" and "\<forall>kv \<in> set kvs. is_str (fst kv)"
  shows "distinct (map fst (named kvs))"
proof -
  have "a = b" if "is_str a" "is_str b" "key_text a = key_text b" for a b using that by (auto simp: is_str_iff)
  then have "inj_on key_text (set (map fst kvs))" using assms(2) by (auto simp: inj_on_def)
  then have "distinct (map key_text (map fst kvs))" using assms(1) by (auto simp: distinct_map intro: comp_inj_on)
  then show ?thesis by (simp add: named_def o_def)
qed

lemma object_content: "distinct (map fst (named kvs)) \<Longrightarrow>
    json_content (VDict kvs) = JObject (fmap_of_list (map (\<lambda>m. (fst m, json_content (snd m))) (sort_key fst (named kvs))))"
proof -
  let ?c = "map (\<lambda>m. (fst m, json_content (snd m))) (named kvs)"
  assume "distinct (map fst (named kvs))"
  then have "distinct (map fst ?c)" by (simp add: o_def)
  from fmap_of_sorted [OF this] show ?thesis by (simp add: sort_key_image named_def o_def)
qed

text \<open>A text that the parser reads as a value of the given content, whatever follows.\<close>

definition reads :: "string \<Rightarrow> json \<Rightarrow> bool" where
  "reads t c \<longleftrightarrow> t \<noteq> [] \<and> skip_ws t = t \<and> hd t \<noteq> CHR '']'' \<and> (\<forall>n r. ends_value r \<longrightarrow> length t \<le> n \<longrightarrow>
     (\<exists>v. json_value n (t @ r) = Some (v, r) \<and> json_content v = c))"

lemma skip_ends [simp]: "ends_value r \<Longrightarrow> skip_ws r = r"
  by (cases r) (auto simp: ends_value_def)

lemma ends_intros [simp]: "ends_value []" "ends_value (CHR '','' # r)" "ends_value (CHR '']'' # r)" "ends_value (CHR ''}'' # r)"
  by (simp_all add: ends_value_def)

lemma readsD:
  assumes "reads t c" and "ends_value r" and "length t \<le> n"
  obtains v where "json_value n (t @ r) = Some (v, r)" and "json_content v = c"
  using assms by (auto simp: reads_def)

lemma skip_append: "t \<noteq> [] \<Longrightarrow> skip_ws t = t \<Longrightarrow> skip_ws (t @ r) = t @ r"
proof (cases t)
  case (Cons c t')
  have "length (skip_ws s) \<le> length s" for s by (induction s) auto
  from this [of t'] show "t \<noteq> [] \<Longrightarrow> skip_ws t = t \<Longrightarrow> skip_ws (t @ r) = t @ r"
    using Cons by (auto split: if_splits)
qed simp

lemma join_Cons: "join '','' (t # ts) = t @ (if ts = [] then [] else CHR '','' # join '','' ts)"
  by (cases ts) simp_all

lemma elements_read:
  assumes "list_all2 reads ts cs" and "ts \<noteq> []" and "length (join '','' ts) < n"
  shows "\<exists>vs. json_elems n acc (join '','' ts @ CHR '']'' # r) = Some (VList (acc @ vs), r) \<and> map json_content vs = cs"
  using assms
proof (induction ts cs arbitrary: n acc rule: list_all2_induct)
  case (Cons t ts c cs)
  then obtain f where n: "n = Suc f" "length t \<le> f" by (cases n) (auto simp: join_Cons split: if_splits)
  show ?case
  proof (cases "ts = []")
    case True
    obtain v where "json_value f (t @ CHR '']'' # r) = Some (v, CHR '']'' # r)" "json_content v = c"
      by (rule readsD [OF Cons.hyps(1) _ n(2), of "CHR '']'' # r"]) simp
    with True Cons.hyps(2) n show ?thesis by simp
  next
    case False
    let ?r = "CHR '','' # join '','' ts @ CHR '']'' # r"
    obtain v where v: "json_value f (t @ ?r) = Some (v, ?r)" "json_content v = c"
      by (rule readsD [OF Cons.hyps(1) _ n(2), of ?r]) simp
    have "length (join '','' ts) < f" using Cons.prems(2) False n(1) by (simp add: join_Cons)
    from Cons.IH [OF False this, of "acc @ [v]"] v n False show ?thesis by (auto simp: join_Cons)
  qed
qed simp

lemma members_read:
  assumes "list_all2 (\<lambda>m c. reads (effect_text repr (snd m)) c) ms cs" and "ms \<noteq> []" and "length (join '','' (map (member_text repr) ms)) < n"
    and "distinct (map fst ms)" and "\<And>m. m \<in> set ms \<Longrightarrow> dict_get acc (VStr (fst m)) = None"
  shows "\<exists>vs. length vs = length ms \<and> map json_content vs = cs
    \<and> json_members n acc (join '','' (map (member_text repr) ms) @ CHR ''}'' # r) = Some (VDict (acc @ zip (map (VStr \<circ> fst) ms) vs), r)"
  using assms
proof (induction ms cs arbitrary: n acc rule: list_all2_induct)
  case (Cons m ms c cs)
  let ?t = "effect_text repr (snd m)" and ?k = "VStr (fst m)"
  have new: "dict_set ?k v acc = acc @ [(?k, v)]" for v using Cons.prems(4) [of m] by (simp add: dict_set_new)
  obtain f where n: "n = Suc f" "length ?t \<le> f" using Cons.prems(2) by (cases n) (auto simp: join_Cons member_text_def split: if_splits)
  have t: "skip_ws (?t @ r') = ?t @ r'" for r' using Cons.hyps(1) skip_append by (simp add: reads_def)
  show ?case
  proof (cases "ms = []")
    case True
    obtain v where "json_value f (?t @ CHR ''}'' # r) = Some (v, CHR ''}'' # r)" "json_content v = c"
      by (rule readsD [OF Cons.hyps(1) _ n(2), of "CHR ''}'' # r"]) simp
    with True Cons.hyps(2) n new show ?thesis
      by (intro exI [of _ "[v]"]) (simp add: member_text_def effect_string_def effect_string_read)
  next
    case False
    let ?r = "CHR '','' # join '','' (map (member_text repr) ms) @ CHR ''}'' # r"
    obtain v where v: "json_value f (?t @ ?r) = Some (v, ?r)" "json_content v = c"
      by (rule readsD [OF Cons.hyps(1) _ n(2), of ?r]) simp
    have len: "length (join '','' (map (member_text repr) ms)) < f" using Cons.prems(2) False n(1) by (simp add: join_Cons)
    have dist: "distinct (map fst ms)" using Cons.prems(3) by simp
    have "dict_get (acc @ [(?k, v)]) (VStr (fst m')) = None" if m': "m' \<in> set ms" for m'
    proof -
      have "fst m' \<noteq> fst m" using Cons.prems(3) imageI [OF m', of fst] by (metis distinct.simps(2) list.set_map list.simps(9))
      with Cons.prems(4) [of m'] m' show ?thesis by (simp add: map_add_def)
    qed
    from Cons.IH [OF False len dist this] obtain vs where "length vs = length ms" "map json_content vs = cs"
      "json_members f (acc @ [(?k, v)]) (join '','' (map (member_text repr) ms) @ CHR ''}'' # r)
        = Some (VDict ((acc @ [(?k, v)]) @ zip (map (VStr \<circ> fst) ms) vs), r)" by blast
    with v n new False show ?thesis
      by (intro exI [of _ "v # vs"]) (simp add: join_Cons member_text_def [of repr m] effect_string_def effect_string_read o_def)
  qed
qed simp

lemma number_reads:
  assumes "t = x # s" and "x = CHR ''-'' \<or> is_digit x" and "\<And>r. ends_value r \<Longrightarrow> json_literal literals (t @ r) = Some (v, r)"
  shows "reads t (json_content v)"
proof -
  have x: "x \<noteq> CHR '' '' \<and> of_char x \<notin> {9, 10, 13 :: nat} \<and> x \<noteq> CHR 0x22 \<and> x \<noteq> CHR ''['' \<and> x \<noteq> CHR ''{'' \<and> x \<noteq> CHR '']''"
    using assms(2) by (auto simp: is_digit_def)
  have "json_value n (t @ r) = Some (v, r)" if "ends_value r" "length t \<le> n" for n r
    using assms(3) [OF that(1)] that(2) x assms(1) by (cases n) auto
  with x assms(1) show ?thesis by (auto simp: reads_def)
qed

lemma int_text_Cons: "\<exists>x s. int_text i = x # s \<and> (x = CHR ''-'' \<or> is_digit x)"
  using show_nat_facts(1,2) [of "nat i"] by (cases "show_nat (nat i)") (auto simp: int_text_def)

lemma array_reads:
  assumes "list_all2 reads ts cs"
  shows "reads (CHR ''['' # join '','' ts @ '']'') (JArray cs)"
proof -
  have "\<exists>v. json_value n ((CHR ''['' # join '','' ts @ '']'') @ r) = Some (v, r) \<and> json_content v = JArray cs"
    if "length (CHR ''['' # join '','' ts @ '']'') \<le> n" for n r
  proof (cases "ts = []")
    case True
    with assms that show ?thesis by (cases n) auto
  next
    case False
    from that obtain f where n: "n = Suc f" "length (join '','' ts) < f" by (cases n) auto
    have "reads (hd ts) (hd cs)" using assms False by (cases ts; cases cs) auto
    then have h: "hd ts \<noteq> []" "skip_ws (hd ts) = hd ts" "hd (hd ts) \<noteq> CHR '']''" by (simp_all add: reads_def)
    obtain q where q: "join '','' ts @ CHR '']'' # r = hd ts @ q" using False by (cases ts) (auto simp: join_Cons)
    have "expect (CHR '']'') (skip_ws (join '','' ts @ CHR '']'' # r)) = None"
      unfolding q skip_append [OF h(1,2)] using h(1,3) by (cases "hd ts") auto
    with elements_read [OF assms False n(2), of "[]" r] n show ?thesis by auto
  qed
  then show ?thesis by (auto simp: reads_def)
qed

lemma object_reads:
  assumes "distinct (map fst kvs)" and "\<forall>kv \<in> set kvs. is_str (fst kv)" and "\<forall>kv \<in> set kvs. reads (effect_text repr (snd kv)) (json_content (snd kv))"
  shows "reads (effect_text repr (VDict kvs)) (json_content (VDict kvs))"
proof -
  let ?ms = "sort_key fst (named kvs)"
  note d = named_distinct [OF assms(1,2)]
  have ms: "distinct (map fst ?ms)" using d by (simp add: distinct_map)
  have r: "list_all2 (\<lambda>m c. reads (effect_text repr (snd m)) c) ?ms (map (\<lambda>m. json_content (snd m)) ?ms)"
    using assms(3) by (auto simp: list.rel_map list.rel_refl_strong named_def intro!: list.rel_refl_strong)
  have "\<exists>v. json_value n (effect_text repr (VDict kvs) @ r) = Some (v, r) \<and> json_content v = json_content (VDict kvs)"
    if "length (effect_text repr (VDict kvs)) \<le> n" for n r
  proof (cases "?ms = []")
    case True
    with that [unfolded object_text [OF assms(2)]] show ?thesis
      unfolding object_text [OF assms(2)] object_content [OF d] True by (cases n) simp_all
  next
    case False
    from that obtain f where n: "n = Suc f" "length (join '','' (map (member_text repr) ?ms)) < f"
      unfolding object_text [OF assms(2)] by (cases n) auto
    from members_read [OF r False n(2) ms, of "[]" r] obtain vs where vs: "length vs = length ?ms"
      "map json_content vs = map (\<lambda>m. json_content (snd m)) ?ms"
      "json_members f [] (join '','' (map (member_text repr) ?ms) @ CHR ''}'' # r) = Some (VDict (zip (map (VStr \<circ> fst) ?ms) vs), r)"
      by auto
    obtain m ms' where m: "?ms = m # ms'" using False by (cases ?ms) auto
    have "expect (CHR ''}'') (skip_ws (join '','' (map (member_text repr) ?ms) @ CHR ''}'' # r)) = None"
      unfolding m by (simp add: join_Cons member_text_def effect_string_def)
    with vs(3) n have run: "json_value n (effect_text repr (VDict kvs) @ r) = Some (VDict (zip (map (VStr \<circ> fst) ?ms) vs), r)"
      unfolding object_text [OF assms(2)] by simp
    have "map (\<lambda>kv. (key_text (fst kv), json_content (snd kv))) (zip (map (VStr \<circ> fst) ?ms) vs) = zip (map fst ?ms) (map json_content vs)"
      using vs(1) by (simp add: zip_map_map zip_map1 zip_map2 o_def case_prod_unfold)
    then have "json_content (VDict (zip (map (VStr \<circ> fst) ?ms) vs)) = JObject (fmap_of_list (zip (map fst ?ms) (map json_content vs)))"
      by (simp only: json_content.simps)
    also have "\<dots> = json_content (VDict kvs)"
      unfolding object_content [OF d] vs(2) by (simp add: zip_map_map zip_same_conv_map o_def)
    finally have "json_content (VDict (zip (map (VStr \<circ> fst) ?ms) vs)) = json_content (VDict kvs)" .
    with run show ?thesis by blast
  qed
  then show ?thesis unfolding reads_def by auto
qed

lemma effect_text_reads: "plain_json v \<Longrightarrow> \<forall>q \<in> set (floats_in v). float_repr repr q \<Longrightarrow> reads (effect_text repr v) (json_content v)"
proof (induction v)
  case VNone
  show ?case unfolding reads_def by (intro conjI allI impI) (auto simp: literals_def gr0_conv_Suc Suc_le_eq elim!: less_natE)
next
  case (VBool b)
  show ?case unfolding reads_def by (intro conjI allI impI) (auto simp: literals_def gr0_conv_Suc Suc_le_eq elim!: less_natE)
next
  case (VInt i)
  from int_text_Cons [of i] obtain x s where "int_text i = x # s" "x = CHR ''-'' \<or> is_digit x" by blast
  from number_reads [OF this int_text_read] show ?case by simp
next
  case (VFloat x)
  then obtain q where "x = Finite q" "float_repr repr q" by (cases x) auto
  then show ?case using number_reads [of "repr q" _ _ "VFloat (Finite q)"] by (auto simp: float_repr_def)
next
  case (VStr s)
  show ?case unfolding reads_def
    by (intro conjI allI impI) (auto simp: effect_string_def effect_string_read gr0_conv_Suc Suc_le_eq elim!: less_natE)
next
  case (VList vs)
  then have "list_all2 reads (element_texts repr vs) (map json_content vs)"
    by (auto simp: element_texts_map list.rel_map intro!: list.rel_refl_strong)
  from array_reads [OF this] show ?case by simp
next
  case (VDict kvs)
  then have "\<forall>kv \<in> set kvs. reads (effect_text repr (snd kv)) (json_content (snd kv))" by (fastforce simp: snds.simps)
  with VDict.prems(1) show ?case by (intro object_reads) auto
qed simp_all

section \<open>The text depends on the content only\<close>

primrec json_text :: "(rat \<Rightarrow> string) \<Rightarrow> json \<Rightarrow> string" where
  "json_text repr JNull = ''null''"
| "json_text repr (JBool b) = (if b then ''true'' else ''false'')"
| "json_text repr (JInt i) = int_text i"
| "json_text repr (JFloat x) = (case x of Finite q \<Rightarrow> repr q | _ \<Rightarrow> [])"
| "json_text repr (JString s) = effect_string s"
| "json_text repr (JArray cs) = CHR ''['' # join '','' (map (json_text repr) cs) @ '']''"
| "json_text repr (JObject m) =
     CHR ''{'' # join '','' (map (\<lambda>(k, t). effect_string k @ CHR '':'' # t) (sorted_list_of_fmap (fmmap (json_text repr) m))) @ ''}''"

lemma sorted_fset: "sorted (sorted_list_of_fset s)" and distinct_fset: "distinct (sorted_list_of_fset s)"
  by (simp_all add: sorted_list_of_fset.rep_eq)

lemma sorted_members:
  assumes "distinct (map fst (xs :: (string \<times> 'a) list))"
  shows "sort_key fst xs = sorted_list_of_fmap (fmap_of_list xs)"
proof -
  let ?s = "sort_key fst xs" and ?t = "sorted_list_of_fmap (fmap_of_list xs)"
  have s: "distinct (map fst ?s)" using assms by (simp add: distinct_map)
  have "map fst ?t = sorted_list_of_fset (fmdom (fmap_of_list xs))" by (simp add: sorted_list_of_fmap_def o_def)
  then have t: "sorted (map fst ?t)" "distinct (map fst ?t)" by (simp_all only: sorted_fset distinct_fset)
  have "map_of ?s = map_of ?t" using assms s by (simp add: map_of_inject_set fmlookup_of_list)
  then have set: "set ?s = set ?t" using s t(2) by (simp only: map_of_inject_set)
  with s have "inj_on fst (set ?s \<union> set ?t)" by (simp add: distinct_map)
  from map_sorted_distinct_set_unique [OF this _ s t set] show ?thesis by simp
qed

lemma effect_text_content: "plain_json v \<Longrightarrow> effect_text repr v = json_text repr (json_content v)"
proof (induction v)
  case (VList vs)
  then have "map (effect_text repr) vs = map (\<lambda>v. json_text repr (json_content v)) vs" by simp
  then show ?case by (simp only: effect_text.simps json_content.simps json_text.simps element_texts_map list.map_comp o_def)
next
  case (VDict kvs)
  then have str: "\<forall>kv \<in> set kvs. is_str (fst kv)" and eq: "\<forall>kv \<in> set kvs. effect_text repr (snd kv) = json_text repr (json_content (snd kv))"
    and d: "distinct (map fst (named kvs))" using named_distinct by (auto simp: snds.simps)
  have t: "member_texts repr kvs = map (\<lambda>kv. (key_text (fst kv), json_text repr (json_content (snd kv)))) kvs"
    using eq by (simp add: member_texts_named [OF str] named_def o_def)
  have "distinct (map fst (member_texts repr kvs))" using d by (simp add: t named_def o_def)
  from sorted_members [OF this] show ?case by (simp add: t fmmap_of_list o_def)
qed simp_all

section \<open>Canonical payloads\<close>

fun python_value :: "pyval \<Rightarrow> bool" where
  "python_value (VList vs) = (\<forall>v \<in> set vs. python_value v)"
| "python_value (VTuple vs) = (\<forall>v \<in> set vs. python_value v)"
| "python_value (VDict kvs) = (distinct (map fst kvs) \<and> (\<forall>kv \<in> set kvs. python_value (snd kv)))"
| "python_value (VProxy kvs) = (distinct (map fst kvs) \<and> (\<forall>kv \<in> set kvs. python_value (snd kv)))"
| "python_value v = True"

lemma canonical_content:
  "canonical_effect_value v path = Inr w \<Longrightarrow> python_value v \<Longrightarrow> plain_json w \<and> json_content w = json_content v \<and> floats_in w = floats_in v"
  "canonical_items kvs path = Inr r \<Longrightarrow> \<forall>kv \<in> set kvs. python_value (snd kv) \<Longrightarrow>
     map fst r = map fst kvs \<and> (\<forall>kv \<in> set r. is_str (fst kv) \<and> plain_json (snd kv))
     \<and> map (\<lambda>kv. (key_text (fst kv), json_content (snd kv))) r = map (\<lambda>kv. (key_text (fst kv), json_content (snd kv))) kvs
     \<and> map (\<lambda>kv. floats_in (snd kv)) r = map (\<lambda>kv. floats_in (snd kv)) kvs"
  "canonical_elems vs i path = Inr ws \<Longrightarrow> \<forall>v \<in> set vs. python_value v \<Longrightarrow>
     (\<forall>w \<in> set ws. plain_json w) \<and> map json_content ws = map json_content vs \<and> map floats_in ws = map floats_in vs"
  by (induction v path and kvs path and vs i path arbitrary: w and r and ws
        rule: canonical_effect_value_canonical_items_canonical_elems.induct)
     (auto simp: bindE_eq_Inr split: if_splits, fastforce+)

section \<open>The hashed bytes determine the action\<close>

lemma utf8_decode_encode: "utf8_decode (utf8_encode s) = Inr s"
proof (induction s)
  case (Cons c s)
  have "(of_char c :: nat) < 256" by simp
  then have "(of_char c :: nat) div 64 < 4" by (simp add: div_less_iff_less_mult)
  moreover have "(of_char c :: nat) div 64 = 2 \<or> (of_char c :: nat) div 64 = 3" if "128 \<le> (of_char c :: nat)"
    using that calculation by auto
  ultimately show ?case using Cons by (auto simp: utf8_encode_def Let_def)
qed (simp add: utf8_encode_def)

lemma utf8_inject: "utf8_encode s = utf8_encode t \<longleftrightarrow> s = t"
  using utf8_decode_encode by (metis sum.inject(2))

lemma uuid_text_inject: "uuid_text u = uuid_text v \<Longrightarrow> u = v"
  using parse_uuid_text by (metis sum.inject(2))

lemma foldl_bytes_inject:
  assumes "length xs = length ys" and "\<forall>b \<in> set xs. b < 256" and "\<forall>b \<in> set ys. b < 256"
    and "foldl (\<lambda>n b. n * 256 + b) 0 xs = foldl (\<lambda>n b. n * 256 + b) (0 :: nat) ys"
  shows "xs = ys"
  using assms
proof (induction xs arbitrary: ys rule: rev_induct)
  case (snoc x xs)
  then obtain y ys' where y: "ys = ys' @ [y]" by (cases ys rule: rev_cases) auto
  let ?f = "\<lambda>zs. foldl (\<lambda>n b. n * 256 + b) (0 :: nat) zs"
  have e: "?f xs * 256 + x = ?f ys' * 256 + y" "x < 256" "y < 256" using snoc.prems y by auto
  have "?f xs = (?f xs * 256 + x) div 256" "?f ys' = (?f ys' * 256 + y) div 256" using e(2,3) by simp_all
  with e(1) have "?f xs = ?f ys'" by argo
  with e(1) have "x = y" by simp
  with snoc.IH [of ys'] snoc.prems y \<open>?f xs = ?f ys'\<close> show ?case by simp
qed simp

lemma foldl_bytes_bound: "\<forall>b \<in> set xs. b < 256 \<Longrightarrow> foldl (\<lambda>n b. n * 256 + b) (0 :: nat) xs < 256 ^ length xs"
proof (induction xs rule: rev_induct)
  case (snoc x xs)
  then have "foldl (\<lambda>n b. n * 256 + b) (0 :: nat) xs + 1 \<le> 256 ^ length xs" "x < 256" by auto
  then show ?case by simp
qed simp

lemma bytes_uuid_inject:
  assumes "length xs = 16" "length ys = 16" "\<forall>b \<in> set xs. b < 256" "\<forall>b \<in> set ys. b < 256" and "bytes_uuid xs = bytes_uuid ys"
  shows "xs = ys"
proof -
  let ?f = "\<lambda>zs. foldl (\<lambda>n b. n * 256 + b) (0 :: nat) zs"
  have "?f xs < 2 ^ 128" "?f ys < 2 ^ 128" using foldl_bytes_bound [of xs] foldl_bytes_bound [of ys] assms by simp_all
  moreover have "take_bit 128 (?f xs) = take_bit 128 (?f ys)" using assms(5) by (simp add: bytes_uuid_def word_of_nat_eq_iff)
  ultimately have "?f xs = ?f ys" by (simp add: take_bit_nat_eq_self)
  with assms show ?thesis by (intro foldl_bytes_inject) auto
qed

text \<open>The object that is written.\<close>

definition effect_action :: "execution_id \<Rightarrow> node_id \<Rightarrow> string \<Rightarrow> pyval \<Rightarrow> pyval" where
  "effect_action e n operation canonical = obj
     [(''execution_id'', VStr (uuid_text (execution_uuid e))), (''logical_operation'', VStr operation),
      (''node_id'', VStr (uuid_text (node_uuid n))), (''payload'', canonical)]"

lemma effect_bytes_cases: "effect_bytes repr e n operation payload = Inr b \<longleftrightarrow> \<not> blank operation
    \<and> (\<exists>w. canonical_effect_value payload ''payload'' = Inr w \<and> b = utf8_encode (effect_text repr (effect_action e n operation w)))"
  by (auto simp: effect_bytes_def effect_action_def bindE_eq_Inr)

lemma action_plain: "plain_json w \<Longrightarrow> plain_json (effect_action e n operation w) \<and> floats_in (effect_action e n operation w) = floats_in w"
  by (simp add: effect_action_def obj_def)

lemma action_content: "json_content (effect_action e n operation w) = json_content (effect_action e' n' operation' w')
    \<longleftrightarrow> e = e' \<and> n = n' \<and> operation = operation' \<and> json_content w = json_content w'"
proof
  let ?m = "\<lambda>e n operation w. fmap_of_list [(''execution_id'', JString (uuid_text (execution_uuid e))), (''logical_operation'', JString operation),
      (''node_id'', JString (uuid_text (node_uuid n))), (''payload'', json_content w)]"
  assume "json_content (effect_action e n operation w) = json_content (effect_action e' n' operation' w')"
  then have m: "?m e n operation w = ?m e' n' operation' w'" by (simp add: effect_action_def obj_def)
  have "fmlookup (?m e n operation w) k = fmlookup (?m e' n' operation' w') k" for k unfolding m ..
  from this [of "''execution_id''"] this [of "''logical_operation''"] this [of "''node_id''"] this [of "''payload''"]
  show "e = e' \<and> n = n' \<and> operation = operation' \<and> json_content w = json_content w'"
    by (cases e; cases e'; cases n; cases n') (auto dest: uuid_text_inject)
qed (simp add: effect_action_def obj_def)

lemma effect_text_inject:
  assumes "plain_json v" "plain_json w" and "\<forall>q \<in> set (floats_in v). float_repr repr q" "\<forall>q \<in> set (floats_in w). float_repr repr q"
  shows "effect_text repr v = effect_text repr w \<longleftrightarrow> json_content v = json_content w"
proof
  assume t: "effect_text repr v = effect_text repr w"
  note r = effect_text_reads [OF assms(1,3)] effect_text_reads [OF assms(2,4)]
  obtain x where x: "json_value (length (effect_text repr v)) (effect_text repr v @ []) = Some (x, [])" "json_content x = json_content v"
    by (rule readsD [OF r(1) ends_intros(1) order.refl])
  obtain y where y: "json_value (length (effect_text repr w)) (effect_text repr w @ []) = Some (y, [])" "json_content y = json_content w"
    by (rule readsD [OF r(2) ends_intros(1) order.refl])
  from x y t show "json_content v = json_content w" by simp
qed (simp add: effect_text_content assms)

lemma effect_bytes_inject:
  assumes "effect_bytes repr e n operation p = Inr b" and "effect_bytes repr e' n' operation' p' = Inr b'"
    and "python_value p" and "python_value p'" and "\<forall>q \<in> set (floats_in p) \<union> set (floats_in p'). float_repr repr q"
  shows "b = b' \<longleftrightarrow> e = e' \<and> n = n' \<and> operation = operation' \<and> json_content p = json_content p'"
proof -
  from assms(1) obtain w where w: "canonical_effect_value p ''payload'' = Inr w" "b = utf8_encode (effect_text repr (effect_action e n operation w))"
    by (auto simp: effect_bytes_cases)
  from assms(2) obtain w' where w': "canonical_effect_value p' ''payload'' = Inr w'" "b' = utf8_encode (effect_text repr (effect_action e' n' operation' w'))"
    by (auto simp: effect_bytes_cases)
  note c = canonical_content(1) [OF w(1) assms(3)] canonical_content(1) [OF w'(1) assms(4)]
  from c have p: "plain_json w" "plain_json w'" by blast+
  have f: "\<forall>q \<in> set (floats_in w). float_repr repr q" "\<forall>q \<in> set (floats_in w'). float_repr repr q" using c assms(5) by auto
  have "b = b' \<longleftrightarrow> effect_text repr (effect_action e n operation w) = effect_text repr (effect_action e' n' operation' w')"
    unfolding w(2) w'(2) utf8_inject ..
  also have "\<dots> \<longleftrightarrow> json_content (effect_action e n operation w) = json_content (effect_action e' n' operation' w')"
    by (rule effect_text_inject) (use p f in \<open>simp_all add: action_plain\<close>)
  finally show ?thesis using c by (simp add: action_content)
qed

text \<open>The payload of the repository's own unit test, in two orders.\<close>

definition email_payload :: pyval where
  "email_payload = obj [(''subject'', VStr ''hello''), (''recipients'', VList [VStr ''a@example.com''])]"

definition email_reordered :: pyval where
  "email_reordered = VProxy [(VStr ''recipients'', VTuple [VStr ''a@example.com'']), (VStr ''subject'', VStr ''hello'')]"

lemma email_content: "json_content email_payload = json_content email_reordered"
  by (simp add: email_payload_def email_reordered_def obj_def) (rule fmap_ext, auto)

lemma email_plain: "python_value email_payload" "python_value email_reordered" "floats_in email_payload = []" "floats_in email_reordered = []"
  by (simp_all add: email_payload_def email_reordered_def obj_def)

lemma email_bytes:
  obtains b b' where "effect_bytes (\<lambda>_. []) (ExecutionId (UUID 1)) (NodeId (UUID 2)) ''send-email'' email_payload = Inr b"
    and "effect_bytes (\<lambda>_. []) (ExecutionId (UUID 1)) (NodeId (UUID 2)) ''send-email'' email_reordered = Inr b'"
proof -
  have "\<not> blank ''send-email''" by (simp add: blank_iff is_space_def)
  then have "\<exists>b b'. effect_bytes (\<lambda>_. []) (ExecutionId (UUID 1)) (NodeId (UUID 2)) ''send-email'' email_payload = Inr b
      \<and> effect_bytes (\<lambda>_. []) (ExecutionId (UUID 1)) (NodeId (UUID 2)) ''send-email'' email_reordered = Inr b'"
    by (simp add: effect_bytes_cases email_payload_def email_reordered_def obj_def)
  with that show thesis by blast
qed

lemma email_reordered_same: "derive_effect_id (\<lambda>_. []) (ExecutionId (UUID 1)) (NodeId (UUID 2)) ''send-email'' email_reordered
    = derive_effect_id (\<lambda>_. []) (ExecutionId (UUID 1)) (NodeId (UUID 2)) ''send-email'' email_payload"
proof -
  from email_bytes obtain b b' where b: "effect_bytes (\<lambda>_. []) (ExecutionId (UUID 1)) (NodeId (UUID 2)) ''send-email'' email_payload = Inr b"
    "effect_bytes (\<lambda>_. []) (ExecutionId (UUID 1)) (NodeId (UUID 2)) ''send-email'' email_reordered = Inr b'" .
  with effect_bytes_inject [OF b] email_plain email_content have "b = b'" by simp
  with b show ?thesis by (simp add: derive_effect_id_def)
qed

section \<open>Properties\<close>

text \<open>
  C31. The identifier of an effect stands for its logical action. Two derivations of the same
  operation on the same node of the same execution with payloads of the same JSON content
  (in any order of the keys, with tuples for lists or frozen) give the same identifier, and
  two different actions give different identifiers, unless their different texts collide in
  the first 128 bits of SHA-256.
\<close>

theorem effect_id_stands_for_action:
  assumes "effect_bytes repr e n operation p = Inr b" and "effect_bytes repr e' n' operation' p' = Inr b'"
    and "python_value p" and "python_value p'" and "\<forall>q \<in> set (floats_in p) \<union> set (floats_in p'). float_repr repr q"
  shows "derive_effect_id repr e n operation p = derive_effect_id repr e' n' operation' p'
    \<longleftrightarrow> e = e' \<and> n = n' \<and> operation = operation' \<and> json_content p = json_content p'
      \<or> b \<noteq> b' \<and> take 16 (sha256 b) = take 16 (sha256 b')"
proof -
  have d: "derive_effect_id repr e n operation p = derive_effect_id repr e' n' operation' p'
      \<longleftrightarrow> bytes_uuid (take 16 (sha256 b)) = bytes_uuid (take 16 (sha256 b'))"
    using assms(1,2) by (simp add: derive_effect_id_def)
  have "bytes_uuid (take 16 (sha256 b)) = bytes_uuid (take 16 (sha256 b')) \<longleftrightarrow> take 16 (sha256 b) = take 16 (sha256 b')"
    using bytes_uuid_inject [of "take 16 (sha256 b)" "take 16 (sha256 b')"] sha256_bytes
    by (auto simp: sha256_length dest: in_set_takeD)
  with d show ?thesis using effect_bytes_inject [OF assms] by auto
qed

theorem effect_id_stands_for_action_witness:
  "derive_effect_id (\<lambda>_. []) (ExecutionId (UUID 1)) (NodeId (UUID 2)) ''send-email'' email_payload
    = derive_effect_id (\<lambda>_. []) (ExecutionId (UUID 1)) (NodeId (UUID 2)) ''send-email'' email_reordered"
proof -
  from email_bytes obtain b b' where b: "effect_bytes (\<lambda>_. []) (ExecutionId (UUID 1)) (NodeId (UUID 2)) ''send-email'' email_payload = Inr b"
    "effect_bytes (\<lambda>_. []) (ExecutionId (UUID 1)) (NodeId (UUID 2)) ''send-email'' email_reordered = Inr b'" .
  show ?thesis using effect_id_stands_for_action [OF b] email_plain email_content by simp
qed

end
