(* ===== verification/Effect_Sample.thy ===== *)
theory Effect_Sample
  imports Effect_Id
begin

text \<open>
  The identifier that the repository's unit test fixes for one effect
  (\<open>test_effect_id_is_stable_across_attempts_and_mapping_order\<close>), computed from the
  definitions: its text is four blocks of SHA-256.
\<close>

section \<open>Evaluation on numerals\<close>

text \<open>Sums and rotations of numerals leave the range of a word: \<open>reduced\<close> marks where to come back.\<close>

definition reduced :: "32 word \<Rightarrow> 32 word" where
  "reduced x = x"

lemma of_nat_reduce: "(of_nat (m mod 4294967296) :: 32 word) = of_nat m"
proof -
  have "(4294967296 :: nat) = 2 ^ 32" by simp
  then have "m mod 4294967296 = take_bit 32 m" by (simp only: take_bit_eq_mod)
  then show ?thesis by (simp add: word_of_nat_eq_iff)
qed

lemma reduced_numeral: "reduced (numeral n) = of_nat (numeral n mod 4294967296)"
  unfolding of_nat_reduce reduced_def by simp

lemma reduced_small: "reduced 0 = 0" "reduced 1 = 1"
  by (simp_all add: reduced_def)

unbundle bit_operations_syntax

lemma rotr_reduced: "rotr n x = reduced (drop_bit n x OR push_bit (32 - n) x)"
  by (simp add: reduced_def rotr_def)

lemma next_word_reduced: "next_word w = reduced (small_sigma_new (w ! 14) + w ! 9 + small_sigma_old (w ! 1) + w ! 0)"
  by (simp add: reduced_def next_word_def)

lemma sha_round_reduced: "sha_round k w [a, b, c, d, e, f, g, h] =
     (let t = reduced (h + big_sigma_e e + sha_ch e f g + k + w)
      in [reduced (t + (big_sigma_a a + sha_maj a b c)), a, b, c, reduced (d + t), e, f, g])"
  by (simp add: reduced_def)

lemma compress_reduced: "compress hash block = map reduced (map2 (+) hash (sha_rounds round_constants block hash))"
  by (simp add: compress_def reduced_def [abs_def])

text \<open>The constants that are left are not simplified again in every round.\<close>

lemma sha_rounds_cong: "w = w' \<Longrightarrow> s = s' \<Longrightarrow> sha_rounds ks w s = sha_rounds ks w' s'"
  by simp

lemmas sha_eval = big_sigma_a_def big_sigma_e_def small_sigma_old_def small_sigma_new_def sha_ch_def sha_maj_def Let_def
  reduced_small reduced_numeral rotr_reduced next_word_reduced sha_round_reduced

declare sha_round.simps(1) [simp del]

section \<open>The four blocks\<close>

definition block_one :: "32 word list" where
  "block_one =
    [0x7B226578, 0x65637574, 0x696F6E5F, 0x6964223A, 0x22303030, 0x30303030, 0x302D3030, 0x30302D30,
     0x3030302D, 0x30303030, 0x2D303030, 0x30303030, 0x30303030, 0x31222C22, 0x6C6F6769, 0x63616C5F]"

definition block_two :: "32 word list" where
  "block_two =
    [0x6F706572, 0x6174696F, 0x6E223A22, 0x73656E64, 0x2D656D61, 0x696C222C, 0x226E6F64, 0x655F6964,
     0x223A2230, 0x30303030, 0x3030302D, 0x30303030, 0x2D303030, 0x302D3030, 0x30302D30, 0x30303030]"

definition block_three :: "32 word list" where
  "block_three =
    [0x30303030, 0x30303222, 0x2C227061, 0x796C6F61, 0x64223A7B, 0x22726563, 0x69706965, 0x6E747322,
     0x3A5B2261, 0x40657861, 0x6D706C65, 0x2E636F6D, 0x225D2C22, 0x7375626A, 0x65637422, 0x3A226865]"

definition block_four :: "32 word list" where
  "block_four =
    [0x6C6C6F22, 0x7D7D8000, 0, 0, 0, 0, 0, 0,
     0, 0, 0, 0, 0, 0, 0, 0x00000630]"

lemma hash_one: "compress initial_hash block_one =
    [0x4A6E7202, 0x200A3D8D, 0xD7017DE0, 0xAB400FFF, 0x7285C6AB, 0xC6864AA4, 0xBBF8323F, 0x50DDAE78]"
  unfolding compress_reduced block_one_def round_constants_def initial_hash_def
  by (simp add: sha_eval cong: sha_rounds_cong)

lemma hash_two: "compress
    [0x4A6E7202, 0x200A3D8D, 0xD7017DE0, 0xAB400FFF, 0x7285C6AB, 0xC6864AA4, 0xBBF8323F, 0x50DDAE78] block_two =
    [0x4DF8E819, 0x07A9A238, 0x87581DBB, 0x66476BA9, 0x968E9EE4, 0x9ABED91D, 0xE4DA5A68, 0x73E9031E]"
  unfolding compress_reduced block_two_def round_constants_def
  by (simp add: sha_eval cong: sha_rounds_cong)

lemma hash_three: "compress
    [0x4DF8E819, 0x07A9A238, 0x87581DBB, 0x66476BA9, 0x968E9EE4, 0x9ABED91D, 0xE4DA5A68, 0x73E9031E] block_three =
    [0x4E9CCC07, 0x7FAA1BE2, 0x3A1E1C25, 0x1F7BA249, 0x44F901C8, 0xFFAA2515, 0x200FF0D5, 0xB70CFC31]"
  unfolding compress_reduced block_three_def round_constants_def
  by (simp add: sha_eval cong: sha_rounds_cong)

lemma hash_four: "compress
    [0x4E9CCC07, 0x7FAA1BE2, 0x3A1E1C25, 0x1F7BA249, 0x44F901C8, 0xFFAA2515, 0x200FF0D5, 0xB70CFC31] block_four =
    [0x7358851B, 0x076C79F5, 0x43B9DFB5, 0xC9E5BC86, 0xD8423B95, 0x48662AC3, 0x92BC8755, 0x30C909FD]"
  unfolding compress_reduced block_four_def round_constants_def
  by (simp add: sha_eval cong: sha_rounds_cong)

section \<open>The text\<close>

lemma fixed_zero: "fixed 16 k 0 = replicate k (CHR ''0'')"
  by (induction k) (simp_all add: hex_char_def replicate_append_same [symmetric])

lemma fixed_digit: "d < 16 \<Longrightarrow> fixed 16 32 d = replicate 31 (CHR ''0'') @ [hex_char d]"
proof -
  assume d: "d < 16"
  have "fixed 16 (Suc 31) d = replicate 31 (CHR ''0'') @ [hex_char d]" using d by (simp only: fixed.simps div_less mod_less fixed_zero)
  then show ?thesis by (simp del: fixed.simps)
qed

lemma replicate_numeral: "replicate (numeral k) x = x # replicate (pred_numeral k) x"
  by (subst numeral_eq_Suc [of k], rule replicate.simps(2))

lemma sample_uuids: "uuid_text (UUID 1) = ''00000000-0000-0000-0000-000000000001''" "uuid_text (UUID 2) = ''00000000-0000-0000-0000-000000000002''"
  by (simp_all add: uuid_text_def fixed_digit Let_def hex_char_def replicate_numeral)

lemma big_endian_numeral: "big_endian (numeral k) n = big_endian (pred_numeral k) (n div 256) @ [n mod 256]"
  by (subst numeral_eq_Suc [of k], rule big_endian.simps(2))

lemma blocks_numeral: "blocks (numeral n) ws = take 16 ws # blocks (pred_numeral n) (drop 16 ws)"
  by (subst numeral_eq_Suc [of n], rule blocks.simps(2))

lemma email_words: "\<exists>b. effect_bytes (\<lambda>_. []) (ExecutionId (UUID 1)) (NodeId (UUID 2)) ''send-email'' email_payload = Inr b
    \<and> bytes_to_words (sha_pad b) = block_one @ block_two @ block_three @ block_four"
proof -
  have "\<not> blank ''send-email''" by (simp add: blank_iff is_space_def)
  then show ?thesis
    by (simp add: effect_bytes_cases effect_action_def email_payload_def obj_def sample_uuids)
      (simp add: effect_string_def effect_escape_def json_escape_def Let_def utf8_encode_def sha_pad_def big_endian_numeral
        replicate_numeral block_one_def block_two_def block_three_def block_four_def)
qed

section \<open>The documented identifier\<close>

text \<open>
  The identifier the repository's test expects: the effect \<open>send-email\<close> with its two
  recipients and subject, on node 2 of execution 1, has the identifier
  \<open>7358851b-076c-79f5-43b9-dfb5c9e5bc86\<close>, in either order of the keys and frozen or not.
\<close>

theorem documented_effect_id:
  "derive_effect_id (\<lambda>_. []) (ExecutionId (UUID 1)) (NodeId (UUID 2)) ''send-email'' email_payload
     = Inr (EffectId (UUID 0x7358851B076C79F543B9DFB5C9E5BC86))
   \<and> derive_effect_id (\<lambda>_. []) (ExecutionId (UUID 1)) (NodeId (UUID 2)) ''send-email'' email_reordered
     = Inr (EffectId (UUID 0x7358851B076C79F543B9DFB5C9E5BC86))"
proof -
  from email_words obtain b where b: "effect_bytes (\<lambda>_. []) (ExecutionId (UUID 1)) (NodeId (UUID 2)) ''send-email'' email_payload = Inr b"
    and w: "bytes_to_words (sha_pad b) = block_one @ block_two @ block_three @ block_four" by blast
  have len: "length block_one = 16" "length block_two = 16" "length block_three = 16" "length block_four = 16"
    by (simp_all add: block_one_def block_two_def block_three_def block_four_def)
  have "blocks 4 (block_one @ block_two @ block_three @ block_four) = [block_one, block_two, block_three, block_four]"
    by (simp add: blocks_numeral len)
  then have "sha256 b = concat (map (\<lambda>w. big_endian 4 (unat w)) (compress (compress (compress (compress initial_hash block_one) block_two) block_three) block_four))"
    by (simp add: sha256_def w Let_def len)
  then have "take 16 (sha256 b) = [0x73, 0x58, 0x85, 0x1B, 0x07, 0x6C, 0x79, 0xF5, 0x43, 0xB9, 0xDF, 0xB5, 0xC9, 0xE5, 0xBC, 0x86]"
    by (simp add: hash_one hash_two hash_three hash_four big_endian_numeral)
  then have "derive_effect_id (\<lambda>_. []) (ExecutionId (UUID 1)) (NodeId (UUID 2)) ''send-email'' email_payload
      = Inr (EffectId (UUID 0x7358851B076C79F543B9DFB5C9E5BC86))"
    using b by (simp add: derive_effect_id_def bytes_uuid_def)
  then show ?thesis by (simp add: email_reordered_same)
qed

end
