(* ===== verification/Concurrent_Recording.thy ===== *)
theory Concurrent_Recording
  imports Memory_Postgres
begin

text \<open>
  Recordings that run at the same time over the relational adapter. The statements of
  \<open>_PostgresEpisodeStore.append\<close>, of \<open>_PostgresOutboxPort.publish\<close> and the commit
  (\<open>memory/adapters/postgres/unit_of_work.py\<close>) are steps of their own, and a schedule says
  whose step comes next. A statement sees what is committed and what its own transaction
  wrote. PostgreSQL's part: a transaction lock is held until the transaction ends, and an
  insertion waits while another open transaction has written a row with the same unique key.
\<close>

section \<open>Sessions\<close>

text \<open>
  Where a recording is: before its advisory lock; holding it; with the answer of a replay;
  without a row under its key; with its episode row, also its idempotency row, also its
  event row written; finished.
\<close>

datatype phase =
    Ready | Locked | Found "append_result res" | Missing | Stored | Clashed "append_result res" | Keyed | Published
  | Finished "append_result res"

record session =
  ss_episode :: episode
  ss_event :: event_envelope
  ss_phase :: phase

fun holds_lock :: "phase \<Rightarrow> bool" where
  "holds_lock Ready = False"
| "holds_lock (Finished _) = False"
| "holds_lock _ = True"

fun wrote_episode :: "phase \<Rightarrow> bool" where
  "wrote_episode Stored = True"
| "wrote_episode (Clashed _) = True"
| "wrote_episode Keyed = True"
| "wrote_episode Published = True"
| "wrote_episode _ = False"

fun wrote_key :: "phase \<Rightarrow> bool" where
  "wrote_key Keyed = True"
| "wrote_key Published = True"
| "wrote_key _ = False"

definition episode_rows :: "session \<Rightarrow> row list" where
  "episode_rows s = (if wrote_episode (ss_phase s) then [stored_row (episode_to_row (ss_episode s))] else [])"

definition key_rows :: "session \<Rightarrow> row list" where
  "key_rows s = (if wrote_key (ss_phase s) then [stored_row (idempotency_row (ss_episode s))] else [])"

definition event_record :: "event_envelope \<Rightarrow> row" where
  "event_record ev = event_to_row ev @ [(''published_at'', DNull)]"

definition event_rows :: "session \<Rightarrow> row list" where
  "event_rows s = (if ss_phase s = Published then [stored_row (event_record (ss_event s))] else [])"

text \<open>What the statements of a session see.\<close>

definition seen :: "pg_memory \<Rightarrow> session \<Rightarrow> pg_memory" where
  "seen db s = db\<lparr>pg_episodes := pg_episodes db @ episode_rows s, pg_idempotency := pg_idempotency db @ key_rows s,
     pg_outbox := pg_outbox db @ event_rows s\<rparr>"

section \<open>Steps\<close>

abbreviation episode_keys :: "string list list" where
  "episode_keys \<equiv> [[''tenant_id'', ''episode_id''], [''tenant_id'', ''idempotency_key'']]"

abbreviation idempotency_keys :: "string list list" where
  "idempotency_keys \<equiv> [[''tenant_id'', ''idempotency_key'']]"

definition clash :: "string list list \<Rightarrow> row \<Rightarrow> row list \<Rightarrow> bool" where
  "clash keys r table = list_ex (\<lambda>ks. list_ex (same_cols ks (stored_row r)) table) keys"

definition others :: "nat \<Rightarrow> session list \<Rightarrow> session list" where
  "others i ss = take i ss @ drop (Suc i) ss"

text \<open>\<open>None\<close> is a step that has to wait. \<open>lock_of\<close> is the pair of \<open>hashtext\<close>s: different keys may share a lock.\<close>

definition next_phase :: "(tenant_id \<times> string \<Rightarrow> 'l) \<Rightarrow> pg_memory \<Rightarrow> session list \<Rightarrow> session \<Rightarrow> phase option" where
  "next_phase lock_of db rivals s = (let e = ss_episode s; t = seen db s in
     case ss_phase s of
       Ready \<Rightarrow> if list_ex (\<lambda>o'. holds_lock (ss_phase o') \<and> lock_of (episode_key (ss_episode o')) = lock_of (episode_key e)) rivals
         then None else Some Locked
     | Locked \<Rightarrow> Some (case find_idempotency t e of Some existing \<Rightarrow> Found (replay_row e existing) | None \<Rightarrow> Missing)
     | Found r \<Rightarrow> Some (Finished r)
     | Missing \<Rightarrow> if clash episode_keys (episode_to_row e) (concat (map episode_rows rivals)) then None
         else Some (case sql_insert episode_keys (episode_to_row e) (pg_episodes t) of Inl x \<Rightarrow> Finished (Inl x) | Inr _ \<Rightarrow> Stored)
     | Stored \<Rightarrow> if clash idempotency_keys (idempotency_row e) (concat (map key_rows rivals)) then None
         else Some (case sql_insert idempotency_keys (idempotency_row e) (pg_idempotency t) of
             Inr _ \<Rightarrow> Keyed
           | Inl _ \<Rightarrow> (case find_idempotency t e of
               None \<Rightarrow> Finished (Inl (RuntimeError ''idempotency insert conflict without a stored row''))
             | Some conflicting \<Rightarrow> Clashed (replay_row e conflicting)))
     | Clashed r \<Rightarrow> Some (Finished r)
     | Keyed \<Rightarrow> if clash [[''event_id'']] (event_record (ss_event s)) (concat (map event_rows rivals)) then None
         else Some (case pt_publish (in_transaction t) (ss_event s) of Inl x \<Rightarrow> Finished (Inl x) | Inr _ \<Rightarrow> Published)
     | Published \<Rightarrow> Some (Finished (Inr \<lparr>ar_episode_id = ep_id e, ar_created = True\<rparr>))
     | Finished r \<Rightarrow> None)"

text \<open>Finishing without an error commits what the session wrote; an error rolls it back.\<close>

definition next_tables :: "pg_memory \<Rightarrow> session \<Rightarrow> phase \<Rightarrow> pg_memory" where
  "next_tables db s p = (case p of Finished (Inr _) \<Rightarrow> seen db s | _ \<Rightarrow> db)"

type_synonym recordings = "pg_memory \<times> session list"

definition session_step :: "(tenant_id \<times> string \<Rightarrow> 'l) \<Rightarrow> nat \<Rightarrow> recordings \<Rightarrow> recordings option" where
  "session_step lock_of i st = (case st of (db, ss) \<Rightarrow>
     if length ss \<le> i then None
     else map_option (\<lambda>p. (next_tables db (ss ! i) p, ss[i := (ss ! i)\<lparr>ss_phase := p\<rparr>])) (next_phase lock_of db (others i ss) (ss ! i)))"

text \<open>A schedule; a turn of a session that waits or is finished does nothing.\<close>

fun run_schedule :: "(tenant_id \<times> string \<Rightarrow> 'l) \<Rightarrow> nat list \<Rightarrow> recordings \<Rightarrow> recordings" where
  "run_schedule lock_of [] st = st"
| "run_schedule lock_of (i # is) st = run_schedule lock_of is (case session_step lock_of i st of None \<Rightarrow> st | Some st' \<Rightarrow> st')"

section \<open>One recording at a time\<close>

definition record_once :: "pg_memory \<Rightarrow> episode \<Rightarrow> event_envelope \<Rightarrow> append_result res \<times> pg_memory" where
  "record_once db e ev = (case pt_append (in_transaction db) e of
       Inl x \<Rightarrow> (Inl x, db)
     | Inr (r, tx) \<Rightarrow> if ar_created r then (case pt_publish tx ev of Inl x \<Rightarrow> (Inl x, db) | Inr tx' \<Rightarrow> (Inr r, pt_tables tx'))
         else (Inr r, pt_tables tx))"

text \<open>The one-at-a-time recording is the handler over the relational adapter.\<close>

definition recorded_result :: "append_result res \<Rightarrow> record_episode_result res" where
  "recorded_result r = bindE r (\<lambda>a. Inr \<lparr>rr_episode_id = ar_episode_id a, rr_created = ar_created a\<rparr>)"

lemma pt_append_created: "pt_append tx e = Inr (r, tx') \<Longrightarrow> pt_require_usable tx' = Inr () \<and> (ar_created r \<longrightarrow> ar_episode_id r = ep_id e)"
  by (auto simp: pt_append_def replay_row_def bindE_eq_Inr Let_def pt_require_usable_def raise_if_def split: option.splits sum.splits if_splits)

lemma pt_publish_usable: "pt_publish tx ev = Inr tx' \<Longrightarrow> pt_require_usable tx' = Inr ()"
  by (auto simp: pt_publish_def bindE_eq_Inr Let_def pt_require_usable_def raise_if_def split: if_splits)

lemma handler_records_once:
  assumes "recordable c now" and "authorize (record_request c)"
  shows "record_episode_handle (postgres_port float_of) authorize now i ei db c
    = (case record_once db (new_episode c i now) (new_event c ei i now) of (r, db') \<Rightarrow> (recorded_result r, db'))"
proof -
  let ?e = "new_episode c i now" and ?ev = "new_event c ei i now"
  let ?u = "\<lambda>tx. \<lparr>pu_database = db, pu_entered = True, pu_state = Some tx\<rparr>"
  note e = recordable_new_episode(1,2) [OF assms(1)] recordable_new_episode(3) [OF assms(1), of i]
  note ev = recorded_event_made(1) [OF assms(1), of ei i]
  have enter: "up_enter (postgres_port float_of) db = Inr (?u (in_transaction db))"
    by (simp add: postgres_port_def pu_enter_def pu_create_def in_transaction_def)
  have use: "pt_require_usable (in_transaction db) = Inr ()" by (simp add: in_transaction_def pt_require_usable_def)
  have app: "up_append (postgres_port float_of) (?u (in_transaction db)) ?e = bindE (pt_append (in_transaction db) ?e) (\<lambda>(r, tx). Inr (r, ?u tx))"
    using use by (simp add: postgres_port_def pu_run_def pu_require_usable_def)
  have commit: "up_commit (postgres_port float_of) (?u tx) = Inr \<lparr>pu_database = pt_tables tx, pu_entered = True, pu_state = Some (tx\<lparr>pt_committed := True\<rparr>)\<rparr>"
    if "pt_require_usable tx = Inr ()" for tx
    using that by (simp add: postgres_port_def pu_commit_def pu_require_usable_def)
  have pub: "up_publish (postgres_port float_of) (?u tx) ?ev = bindE (pt_publish tx ?ev) (\<lambda>tx'. Inr (?u tx'))" if "pt_require_usable tx = Inr ()" for tx
    using that by (simp add: postgres_port_def pu_run_def pu_require_usable_def bindE_def split: sum.splits)
  have exit: "up_exit (postgres_port float_of) = pu_database" by (simp add: postgres_port_def)
  have run: "record_episode_handle (postgres_port float_of) authorize now i ei db c
      = with_uow (postgres_port float_of) db (\<lambda>u. bindE (up_append (postgres_port float_of) u ?e) (\<lambda>(r, u1).
          bindE (raise_if (ar_created r \<and> ar_episode_id r \<noteq> ep_id ?e) (RuntimeError ''created episode ID does not match generated episode ID'')) (\<lambda>_.
          bindE (if ar_created r then bindE (mk_event (command_event c ei (ar_episode_id r) (utc (rc_observed_at c)) (utc now))) (up_publish (postgres_port float_of) u1)
                 else Inr u1) (\<lambda>u2. bindE (up_commit (postgres_port float_of) u2) (\<lambda>u3.
                Inr (\<lparr>rr_episode_id = ar_episode_id r, rr_created = ar_created r\<rparr>, u3))))))"
    using assms(2) e by (simp add: record_episode_handle_def record_request_def new_episode_def [symmetric])
  have id: "ep_id ?e = i" by (simp add: new_episode_def command_episode_def)
  show ?thesis
  proof (cases "pt_append (in_transaction db) ?e")
    case (Inl x)
    then show ?thesis unfolding run by (simp add: with_uow_def enter app record_once_def recorded_result_def)
  next
    case (Inr y)
    obtain r tx where y: "y = (r, tx)" by fastforce
    note a = pt_append_created [OF Inr [unfolded y]]
    show ?thesis
    proof (cases "ar_created r")
      case False
      with Inr y a commit [of tx] show ?thesis
        unfolding run by (simp add: with_uow_def enter app record_once_def recorded_result_def exit)
    next
      case True
      with a id have i: "ar_episode_id r = i" by simp
      show ?thesis
      proof (cases "pt_publish tx ?ev")
        case (Inl x)
        with Inr y a True i pub [of tx] ev id show ?thesis
          unfolding run by (simp add: with_uow_def enter app record_once_def recorded_result_def)
      next
        case p: (Inr tx')
        with Inr y a True i pub [of tx] ev id commit [OF pt_publish_usable [OF p]] show ?thesis
          unfolding run by (simp add: with_uow_def enter app record_once_def recorded_result_def exit)
      qed
    qed
  qed
qed

section \<open>What a session relies on\<close>

definition aggregate_known :: "pg_memory \<Rightarrow> event_envelope \<Rightarrow> bool" where
  "aggregate_known t ev \<longleftrightarrow> (if ev_event_type ev = episode_recorded then check_aggregate (pg_episodes t) ''episode_id'' ev
     else if ev_event_type ev = claim_proposed then check_aggregate (pg_claims t) ''claim_id'' ev else Inr ()) = Inr ()"

text \<open>What a session found out and may still rely on when it commits.\<close>

definition sound :: "pg_memory \<Rightarrow> session \<Rightarrow> bool" where
  "sound db s \<longleftrightarrow> (let e = ss_episode s; p = ss_phase s in
     (\<forall>r. p = Found r \<longrightarrow> (\<exists>row. find_idempotency db e = Some row \<and> r = replay_row e row)) \<and> (\<forall>r. p \<noteq> Clashed r)
     \<and> (p \<in> {Missing, Stored, Keyed, Published} \<longrightarrow> find_idempotency db e = None)
     \<and> (p \<in> {Stored, Keyed, Published} \<longrightarrow> \<not> clash episode_keys (episode_to_row e) (pg_episodes db))
     \<and> (p = Published \<longrightarrow> aggregate_known (db\<lparr>pg_episodes := pg_episodes db @ episode_rows s\<rparr>) (ss_event s)
          \<and> \<not> clash [[''event_id'']] (event_record (ss_event s)) (pg_outbox db)))"

text \<open>What two sessions at the same time owe each other.\<close>

definition apart :: "session \<Rightarrow> session \<Rightarrow> bool" where
  "apart s s' \<longleftrightarrow> (holds_lock (ss_phase s) \<and> holds_lock (ss_phase s') \<longrightarrow> episode_key (ss_episode s) \<noteq> episode_key (ss_episode s'))
     \<and> (wrote_episode (ss_phase s) \<longrightarrow> \<not> clash episode_keys (episode_to_row (ss_episode s)) (episode_rows s'))
     \<and> (ss_phase s = Published \<longrightarrow> \<not> clash [[''event_id'']] (event_record (ss_event s)) (event_rows s'))"

lemma find_append: "find P (xs @ ys) = (case find P xs of None \<Rightarrow> find P ys | Some x \<Rightarrow> Some x)"
  by (induction xs) auto

lemma clash_append: "clash keys r (t @ t') \<longleftrightarrow> clash keys r t \<or> clash keys r t'"
  by (auto simp: clash_def list_ex_iff)

lemma clash_nil [simp]: "\<not> clash keys r []"
  by (simp add: clash_def list_ex_iff)

lemma clash_sym: "clash keys r [stored_row r'] \<longleftrightarrow> clash keys r' [stored_row r]"
  by (auto simp: clash_def list_ex_iff same_cols_def list_all_iff) metis+

lemma insert_clash: "sql_insert keys r t = (if clash keys r t then Inl unique_violation else Inr (t @ [stored_row r]))"
  by (simp add: sql_insert_def clash_def)

lemma idempotency_matches:
  "row_is (stored_row (idempotency_row e')) ''tenant_id'' (DUuid (tenant_uuid (ms_tenant_id (ep_scope e))))
     \<and> row_is (stored_row (idempotency_row e')) ''idempotency_key'' (DText (ep_idempotency_key e)) \<longleftrightarrow> episode_key e' = episode_key e"
  by (simp add: idempotency_row_def episode_to_row_def row_is_def episode_key_iff Let_def stored_row_def)

lemma find_own: "find_idempotency (t\<lparr>pg_idempotency := pg_idempotency t @ [stored_row (idempotency_row e')]\<rparr>) e
    = (case find_idempotency t e of Some row \<Rightarrow> Some row | None \<Rightarrow> if episode_key e' = episode_key e then Some (stored_row (idempotency_row e')) else None)"
  by (auto simp: find_idempotency_def find_append idempotency_matches split: option.split)

lemma clash_key: "clash idempotency_keys (idempotency_row e) t \<longleftrightarrow> find_idempotency db e \<noteq> None" if "pg_idempotency db = t"
proof -
  have "same_cols [''tenant_id'', ''idempotency_key''] (stored_row (idempotency_row e)) r
      \<longleftrightarrow> row_is r ''tenant_id'' (DUuid (tenant_uuid (ms_tenant_id (ep_scope e)))) \<and> row_is r ''idempotency_key'' (DText (ep_idempotency_key e))" for r
    by (auto simp: idempotency_row_def episode_to_row_def row_is_def Let_def stored_row_def same_cols_def)
  then show ?thesis using that by (auto simp: clash_def list_ex_iff find_idempotency_def find_None_iff)
qed

section \<open>A finishing step is a whole recording\<close>

lemma usable [simp]: "pt_require_usable (in_transaction t) = Inr ()"
  by (simp add: in_transaction_def pt_require_usable_def)

lemma tables_in [simp]: "pt_tables (in_transaction t) = t" "(in_transaction t)\<lparr>pt_tables := t'\<rparr> = in_transaction t'"
  by (simp_all add: in_transaction_def)

lemma publish_in: "pt_publish (in_transaction t) ev = (if \<not> aggregate_known t ev then pt_publish (in_transaction t) ev
    else if clash [[''event_id'']] (event_record ev) (pg_outbox t) then Inl unique_violation
    else Inr (in_transaction (t\<lparr>pg_outbox := pg_outbox t @ [stored_row (event_record ev)]\<rparr>)))"
  by (auto simp: pt_publish_def aggregate_known_def insert_clash event_record_def Let_def)

lemma publish_unknown: "pt_publish (in_transaction t) ev = Inr tx \<Longrightarrow> aggregate_known t ev"
  by (auto simp: pt_publish_def aggregate_known_def bindE_eq_Inr Let_def)

lemma aggregate_known_cong:
  "pg_episodes t = pg_episodes t' \<Longrightarrow> pg_claims t = pg_claims t' \<Longrightarrow> aggregate_known t ev = aggregate_known t' ev"
  by (simp only: aggregate_known_def)

lemma append_in: "find_idempotency t e = None \<Longrightarrow> pt_append (in_transaction t) e = (if clash episode_keys (episode_to_row e) (pg_episodes t) then Inl unique_violation
    else Inr (\<lparr>ar_episode_id = ep_id e, ar_created = True\<rparr>, in_transaction (t\<lparr>pg_episodes := pg_episodes t @ [stored_row (episode_to_row e)],
      pg_idempotency := pg_idempotency t @ [stored_row (idempotency_row e)]\<rparr>)))"
  using clash_key [of t "pg_idempotency t" e] by (simp add: pt_append_def insert_clash Let_def)

lemma append_found: "find_idempotency t e = Some row \<Longrightarrow> pt_append (in_transaction t) e = bindE (replay_row e row) (\<lambda>r. Inr (r, in_transaction t))"
  by (simp add: pt_append_def Let_def)

lemma replay_not_created: "replay_row e row = Inr r \<Longrightarrow> \<not> ar_created r"
  by (auto simp: replay_row_def bindE_eq_Inr)

lemma seen_own [simp]:
  "ss_phase s = Missing \<Longrightarrow> seen db s = db" "ss_phase s = Locked \<Longrightarrow> seen db s = db" "ss_phase s = Found r \<Longrightarrow> seen db s = db"
  by (simp_all add: seen_def episode_rows_def key_rows_def event_rows_def)

lemma next_tables_same: "(\<And>r. p \<noteq> Finished r) \<Longrightarrow> next_tables db s p = db"
  by (cases p) (auto simp: next_tables_def)

lemma finishing_records_once:
  assumes s: "sound db s" and step: "next_phase lock_of db rivals s = Some (Finished r)"
  shows "record_once db (ss_episode s) (ss_event s) = (r, next_tables db s (Finished r))"
proof (cases "ss_phase s")
  case (Found r')
  with step have r: "r' = r" by (simp add: next_phase_def Let_def)
  from s Found obtain row where row: "find_idempotency db (ss_episode s) = Some row" "r' = replay_row (ss_episode s) row"
    by (auto simp: sound_def Let_def)
  show ?thesis
  proof (cases r)
    case (Inl x)
    then have "replay_row (ss_episode s) row = Inl x" using row(2) r by simp
    with Inl row(1) show ?thesis by (simp add: record_once_def append_found next_tables_def)
  next
    case (Inr a)
    then have a: "replay_row (ss_episode s) row = Inr a" using row(2) r by simp
    with replay_not_created [OF a] Inr row(1) Found show ?thesis by (simp add: record_once_def append_found next_tables_def)
  qed
next
  case Missing
  with s have none: "find_idempotency db (ss_episode s) = None" by (simp add: sound_def Let_def)
  from step Missing have "clash episode_keys (episode_to_row (ss_episode s)) (pg_episodes db) \<and> r = Inl unique_violation"
    by (auto simp: next_phase_def insert_clash Let_def split: if_splits)
  with none show ?thesis by (simp add: record_once_def append_in next_tables_def)
next
  case Stored
  with s have "find_idempotency (seen db s) (ss_episode s) = None"
    by (simp add: sound_def Let_def seen_def key_rows_def find_idempotency_def)
  with clash_key [of "seen db s" "pg_idempotency (seen db s)" "ss_episode s"] step Stored show ?thesis
    by (auto simp: next_phase_def insert_clash Let_def split: if_splits)
next
  case Keyed
  with s have none: "find_idempotency db (ss_episode s) = None" and ok: "\<not> clash episode_keys (episode_to_row (ss_episode s)) (pg_episodes db)"
    by (simp_all add: sound_def Let_def)
  from step Keyed obtain x where x: "r = Inl x" "pt_publish (in_transaction (seen db s)) (ss_event s) = Inl x"
    by (auto simp: next_phase_def Let_def split: if_splits sum.splits)
  have "seen db s = db\<lparr>pg_episodes := pg_episodes db @ [stored_row (episode_to_row (ss_episode s))],
      pg_idempotency := pg_idempotency db @ [stored_row (idempotency_row (ss_episode s))]\<rparr>"
    using Keyed by (simp add: seen_def episode_rows_def key_rows_def event_rows_def)
  with x none ok show ?thesis by (simp add: record_once_def append_in next_tables_def)
next
  case Published
  with s have none: "find_idempotency db (ss_episode s) = None" and ok: "\<not> clash episode_keys (episode_to_row (ss_episode s)) (pg_episodes db)"
    and known: "aggregate_known (db\<lparr>pg_episodes := pg_episodes db @ episode_rows s\<rparr>) (ss_event s)"
    and ev: "\<not> clash [[''event_id'']] (event_record (ss_event s)) (pg_outbox db)"
    by (simp_all add: sound_def Let_def)
  let ?t = "db\<lparr>pg_episodes := pg_episodes db @ [stored_row (episode_to_row (ss_episode s))],
      pg_idempotency := pg_idempotency db @ [stored_row (idempotency_row (ss_episode s))]\<rparr>"
  have "aggregate_known ?t (ss_event s) = aggregate_known (db\<lparr>pg_episodes := pg_episodes db @ episode_rows s\<rparr>) (ss_event s)"
    by (rule aggregate_known_cong) (simp_all add: episode_rows_def Published)
  with known have "aggregate_known ?t (ss_event s)" by blast
  with ev have "pt_publish (in_transaction ?t) (ss_event s) = Inr (in_transaction (?t\<lparr>pg_outbox := pg_outbox db @ [stored_row (event_record (ss_event s))]\<rparr>))"
    by (subst publish_in) simp
  with none ok step Published show ?thesis
    by (auto simp: record_once_def append_in next_tables_def next_phase_def Let_def seen_def episode_rows_def key_rows_def event_rows_def)
next
  case (Clashed r')
  with s show ?thesis by (simp add: sound_def Let_def)
qed (use step in \<open>auto simp: next_phase_def Let_def split: if_splits option.splits\<close>)

section \<open>What the steps preserve\<close>

lemma aggregate_known_grows:
  assumes "aggregate_known t ev" and "set (pg_episodes t) \<subseteq> set (pg_episodes t')" and "pg_claims t = pg_claims t'"
  shows "aggregate_known t' ev"
proof -
  have "check_aggregate rows' col ev = Inr ()" if "check_aggregate rows col ev = Inr ()" and "set rows \<subseteq> set rows'" for rows rows' col
    using that by (auto simp: check_aggregate_def bindE_eq_Inr raise_if_def list_ex_iff filter_empty_conv Let_def split: if_splits)
  from this [OF _ assms(2)] assms(1,3) show ?thesis by (auto simp: aggregate_known_def split: if_splits)
qed

lemma own_step_sound:
  assumes s: "sound db s" and step: "next_phase lock_of db rivals s = Some p"
  shows "sound (next_tables db s p) (s\<lparr>ss_phase := p\<rparr>)"
proof (cases "\<exists>r. p = Finished r")
  case True
  then show ?thesis by (auto simp: sound_def Let_def)
next
  case False
  then have t: "next_tables db s p = db" using next_tables_same by blast
  show ?thesis
  proof (cases "ss_phase s")
    case Stored
    with s have none: "find_idempotency (seen db s) (ss_episode s) = None"
      by (simp add: sound_def Let_def seen_def key_rows_def find_idempotency_def)
    from clash_key [of "seen db s" "pg_idempotency (seen db s)" "ss_episode s"] this step Stored have "p = Keyed"
      by (auto simp: next_phase_def insert_clash Let_def split: if_splits)
    with s Stored show ?thesis unfolding t by (simp add: sound_def Let_def)
  next
    case Keyed
    with step False obtain tx where p: "p = Published" "pt_publish (in_transaction (seen db s)) (ss_event s) = Inr tx"
      by (auto simp: next_phase_def Let_def split: if_splits sum.splits)
    note k = publish_unknown [OF p(2)]
    with p(2) have "\<not> clash [[''event_id'']] (event_record (ss_event s)) (pg_outbox (seen db s))" by (subst (asm) publish_in) (auto split: if_splits)
    then have ev: "\<not> clash [[''event_id'']] (event_record (ss_event s)) (pg_outbox db)" by (simp add: seen_def clash_append)
    have "aggregate_known (db\<lparr>pg_episodes := pg_episodes db @ episode_rows (s\<lparr>ss_phase := p\<rparr>)\<rparr>) (ss_event s) = aggregate_known (seen db s) (ss_event s)"
      by (rule aggregate_known_cong) (simp_all add: seen_def episode_rows_def Keyed p(1))
    with k ev s Keyed p(1) show ?thesis unfolding t by (simp add: sound_def Let_def)
  qed (use s step False in \<open>auto simp: t sound_def next_phase_def insert_clash Let_def split: if_splits option.splits\<close>)
qed

text \<open>A commit of one session leaves what the others rely on.\<close>

lemma commit_sound:
  assumes s: "sound db s" and p: "ss_phase s = Published" and o': "sound db s'" and a: "apart s' s"
  shows "sound (seen db s) s'"
proof -
  let ?e = "ss_episode s'"
  have key: "holds_lock (ss_phase s') \<Longrightarrow> episode_key ?e \<noteq> episode_key (ss_episode s)" using a p by (simp add: apart_def)
  have find: "find_idempotency (seen db s) ?e = (case find_idempotency db ?e of Some row \<Rightarrow> Some row | None \<Rightarrow>
      if episode_key (ss_episode s) = episode_key ?e then Some (stored_row (idempotency_row (ss_episode s))) else None)"
    using p by (simp add: seen_def key_rows_def find_own [symmetric]) (simp add: find_idempotency_def)
  have eps: "clash episode_keys (episode_to_row ?e) (pg_episodes (seen db s)) \<longleftrightarrow> clash episode_keys (episode_to_row ?e) (pg_episodes db)"
    if "wrote_episode (ss_phase s')" using that a by (simp add: seen_def clash_append apart_def)
  have ev: "clash [[''event_id'']] (event_record (ss_event s')) (pg_outbox (seen db s)) \<longleftrightarrow> clash [[''event_id'']] (event_record (ss_event s')) (pg_outbox db)"
    if "ss_phase s' = Published" using that a by (simp add: seen_def clash_append apart_def)
  have known: "aggregate_known (seen db s\<lparr>pg_episodes := pg_episodes (seen db s) @ episode_rows s'\<rparr>) (ss_event s')"
    if "aggregate_known (db\<lparr>pg_episodes := pg_episodes db @ episode_rows s'\<rparr>) (ss_event s')"
    by (rule aggregate_known_grows [OF that]) (auto simp: seen_def)
  show ?thesis
    by (cases "ss_phase s'") (use o' find key eps ev known in \<open>auto simp: sound_def Let_def\<close>)
qed

lemma others_nth: "x \<in> set (others i ss) \<longleftrightarrow> (\<exists>j < length ss. j \<noteq> i \<and> x = ss ! j)" if "i < length ss"
proof
  assume "x \<in> set (others i ss)"
  then have "x \<in> set (take i ss) \<or> x \<in> set (drop (Suc i) ss)" by (simp add: others_def)
  then show "\<exists>j < length ss. j \<noteq> i \<and> x = ss ! j"
  proof
    assume "x \<in> set (take i ss)"
    then obtain j where "j < i" "x = ss ! j" by (auto simp: in_set_conv_nth)
    with that show ?thesis by (intro exI [of _ j]) simp
  next
    assume "x \<in> set (drop (Suc i) ss)"
    then obtain k where "k < length ss - Suc i" "x = ss ! (Suc i + k)" by (auto simp: in_set_conv_nth)
    then show ?thesis by (intro exI [of _ "Suc i + k"]) simp
  qed
next
  assume "\<exists>j < length ss. j \<noteq> i \<and> x = ss ! j"
  then obtain j where j: "j < length ss" "j \<noteq> i" "x = ss ! j" by blast
  show "x \<in> set (others i ss)"
  proof (cases "j < i")
    case True
    with j that have "take i ss ! j = x" "j < length (take i ss)" by simp_all
    then show ?thesis unfolding others_def by (metis in_set_conv_nth in_set_conv_decomp set_append Un_iff)
  next
    case False
    with j have "drop (Suc i) ss ! (j - Suc i) = x" "j - Suc i < length (drop (Suc i) ss)" by simp_all
    then show ?thesis unfolding others_def by (metis in_set_conv_nth set_append Un_iff)
  qed
qed

lemma clash_concat: "clash keys r (concat (map f xs)) \<longleftrightarrow> (\<exists>x \<in> set xs. clash keys r (f x))"
  by (induction xs) (auto simp: clash_append)

text \<open>A step keeps its session apart from a rival, in both directions.\<close>

lemma own_step_apart:
  assumes step: "next_phase lock_of db rivals s = Some p" and r: "s' \<in> set rivals" and a: "apart s s'" "apart s' s"
  shows "apart (s\<lparr>ss_phase := p\<rparr>) s' \<and> apart s' (s\<lparr>ss_phase := p\<rparr>)"
proof -
  let ?s = "s\<lparr>ss_phase := p\<rparr>"
  have key: "holds_lock p \<and> holds_lock (ss_phase s') \<longrightarrow> episode_key (ss_episode s) \<noteq> episode_key (ss_episode s')"
  proof (cases "ss_phase s")
    case Ready
    with step r have "\<not> (holds_lock (ss_phase s') \<and> lock_of (episode_key (ss_episode s')) = lock_of (episode_key (ss_episode s)))"
      by (auto simp: next_phase_def list_ex_iff Let_def split: if_splits)
    then show ?thesis by metis
  qed (use step a(1) in \<open>auto simp: apart_def next_phase_def Let_def split: if_splits option.splits sum.splits\<close>)
  have eps: "wrote_episode p \<longrightarrow> \<not> clash episode_keys (episode_to_row (ss_episode s)) (episode_rows s')"
  proof (cases "ss_phase s")
    case Missing
    with step r have "\<not> clash episode_keys (episode_to_row (ss_episode s)) (episode_rows s')"
      by (auto simp: next_phase_def clash_concat Let_def split: if_splits)
    then show ?thesis by blast
  qed (use step a(1) in \<open>auto simp: apart_def next_phase_def Let_def split: if_splits option.splits sum.splits\<close>)
  have ev: "p = Published \<longrightarrow> \<not> clash [[''event_id'']] (event_record (ss_event s)) (event_rows s')"
  proof (cases "ss_phase s")
    case Keyed
    with step r have "\<not> clash [[''event_id'']] (event_record (ss_event s)) (event_rows s')"
      by (auto simp: next_phase_def clash_concat Let_def split: if_splits)
    then show ?thesis by blast
  qed (use step a(1) in \<open>auto simp: apart_def next_phase_def Let_def split: if_splits option.splits sum.splits\<close>)
  have eps': "clash episode_keys (episode_to_row (ss_episode s')) (episode_rows ?s) \<and> wrote_episode (ss_phase s')
      \<longrightarrow> wrote_episode p \<and> clash episode_keys (episode_to_row (ss_episode s)) (episode_rows s')"
    by (auto simp: episode_rows_def clash_sym split: if_splits)
  have ev': "clash [[''event_id'']] (event_record (ss_event s')) (event_rows ?s) \<and> ss_phase s' = Published
      \<longrightarrow> p = Published \<and> clash [[''event_id'']] (event_record (ss_event s)) (event_rows s')"
    by (auto simp: event_rows_def clash_sym split: if_splits)
  from key eps ev eps' ev' show ?thesis unfolding apart_def by auto
qed

definition consistent :: "recordings \<Rightarrow> bool" where
  "consistent st \<longleftrightarrow> (\<forall>i < length (snd st). sound (fst st) (snd st ! i))
     \<and> (\<forall>i < length (snd st). \<forall>j < length (snd st). i \<noteq> j \<longrightarrow> apart (snd st ! i) (snd st ! j))"

lemma step_consistent:
  assumes c: "consistent (db, ss)" and step: "session_step lock_of i (db, ss) = Some (db', ss')"
  shows "consistent (db', ss')"
proof -
  from step obtain p where i: "i < length ss" and p: "next_phase lock_of db (others i ss) (ss ! i) = Some p"
    and st: "db' = next_tables db (ss ! i) p" "ss' = ss[i := (ss ! i)\<lparr>ss_phase := p\<rparr>]"
    by (auto simp: session_step_def split: if_splits)
  have s: "sound db (ss ! j)" if "j < length ss" for j using c that by (simp add: consistent_def)
  have a: "apart (ss ! j) (ss ! k)" if "j < length ss" "k < length ss" "j \<noteq> k" for j k using c that by (simp add: consistent_def)
  have "sound db' (ss' ! j)" if j: "j < length ss" for j
  proof (cases "j = i")
    case True
    with own_step_sound [OF s [OF i] p] i st show ?thesis by simp
  next
    case False
    have "db' = db \<or> ss_phase (ss ! i) = Published \<and> db' = seen db (ss ! i)"
      using p s [OF i] st(1) replay_not_created
      by (cases "ss_phase (ss ! i)") (auto simp: next_tables_def next_phase_def sound_def Let_def split: if_splits option.splits sum.splits)
    with False j i st(2) s [OF j] commit_sound [OF s [OF i] _ s [OF j] a [OF j i]] show ?thesis by auto
  qed
  moreover have "apart (ss' ! j) (ss' ! k)" if jk: "j < length ss" "k < length ss" "j \<noteq> k" for j k
  proof -
    have own: "apart ((ss ! i)\<lparr>ss_phase := p\<rparr>) (ss ! m) \<and> apart (ss ! m) ((ss ! i)\<lparr>ss_phase := p\<rparr>)" if "m < length ss" "m \<noteq> i" for m
      using own_step_apart [OF p _ a [OF i that(1)] a [OF that(1) i]] others_nth [OF i] that by auto
    show ?thesis using jk i st(2) own a by (cases "j = i"; cases "k = i") auto
  qed
  ultimately show ?thesis using st(2) by (simp add: consistent_def)
qed

section \<open>Schedules\<close>

fun finished :: "phase \<Rightarrow> bool" where
  "finished (Finished _) = True"
| "finished _ = False"

definition outcome :: "session \<Rightarrow> append_result res" where
  "outcome s = (case ss_phase s of Finished r \<Rightarrow> r | _ \<Rightarrow> Inl not_active)"

fun once_run :: "session list \<Rightarrow> nat list \<Rightarrow> pg_memory \<Rightarrow> append_result res list \<times> pg_memory" where
  "once_run ss [] db = ([], db)"
| "once_run ss (i # is) db = (case record_once db (ss_episode (ss ! i)) (ss_event (ss ! i)) of (r, db') \<Rightarrow>
     (case once_run ss is db' of (rs, db'') \<Rightarrow> (r # rs, db'')))"

lemma finished_iff: "finished p \<longleftrightarrow> (\<exists>r. p = Finished r)"
  by (cases p) auto

lemma once_run_cong: "(\<And>i. i \<in> set is \<Longrightarrow> ss_episode (ss ! i) = ss_episode (ss' ! i) \<and> ss_event (ss ! i) = ss_event (ss' ! i)) \<Longrightarrow>
    once_run ss is db = once_run ss' is db"
  by (induction "is" arbitrary: db) (auto split: prod.split)

lemma step_shape:
  assumes "session_step lock_of i (db, ss) = Some (db', ss')"
  obtains p where "i < length ss" "next_phase lock_of db (others i ss) (ss ! i) = Some p" "\<not> finished (ss_phase (ss ! i))"
    "db' = next_tables db (ss ! i) p" "ss' = ss[i := (ss ! i)\<lparr>ss_phase := p\<rparr>]"
  using assms by (cases "ss_phase (ss ! i)") (auto simp: session_step_def next_phase_def Let_def split: if_splits)

lemma run_keeps:
  "run_schedule lock_of sched (db, ss) = (db', ss') \<Longrightarrow> length ss' = length ss
    \<and> (\<forall>i < length ss. ss_episode (ss' ! i) = ss_episode (ss ! i) \<and> ss_event (ss' ! i) = ss_event (ss ! i)
        \<and> (finished (ss_phase (ss ! i)) \<longrightarrow> ss' ! i = ss ! i))"
proof (induction sched arbitrary: db ss)
  case (Cons j sched)
  show ?case
  proof (cases "session_step lock_of j (db, ss)")
    case None
    with Cons show ?thesis by simp
  next
    case (Some st)
    obtain db1 ss1 where st: "st = (db1, ss1)" by fastforce
    from Some [unfolded st] obtain p where j: "j < length ss" "\<not> finished (ss_phase (ss ! j))" "ss1 = ss[j := (ss ! j)\<lparr>ss_phase := p\<rparr>]"
      by (rule step_shape)
    from Cons.prems Some st have "run_schedule lock_of sched (db1, ss1) = (db', ss')" by simp
    from Cons.IH [OF this] j show ?thesis by (auto simp: nth_list_update split: if_splits)
  qed
qed simp

lemma schedule_serial:
  assumes "consistent (db, ss)" and "run_schedule lock_of sched (db, ss) = (db', ss')"
  shows "\<exists>order. distinct order \<and> set order = {i. i < length ss \<and> finished (ss_phase (ss' ! i)) \<and> \<not> finished (ss_phase (ss ! i))}
    \<and> once_run ss order db = (map (\<lambda>i. outcome (ss' ! i)) order, db')"
  using assms
proof (induction sched arbitrary: db ss)
  case Nil
  then show ?case by (intro exI [of _ "[]"]) auto
next
  case (Cons j sched)
  show ?case
  proof (cases "session_step lock_of j (db, ss)")
    case None
    with Cons show ?thesis by simp
  next
    case (Some st)
    obtain db1 ss1 where st: "st = (db1, ss1)" by fastforce
    note step = Some [unfolded st]
    from step obtain p where j: "j < length ss" "next_phase lock_of db (others j ss) (ss ! j) = Some p" "\<not> finished (ss_phase (ss ! j))"
      "db1 = next_tables db (ss ! j) p" "ss1 = ss[j := (ss ! j)\<lparr>ss_phase := p\<rparr>]" by (rule step_shape)
    have run: "run_schedule lock_of sched (db1, ss1) = (db', ss')" using Cons.prems(2) Some st by simp
    have len: "length ss1 = length ss" using j by simp
    from Cons.IH [OF step_consistent [OF Cons.prems(1) step] run] obtain order where order: "distinct order"
      "set order = {i. i < length ss \<and> finished (ss_phase (ss' ! i)) \<and> \<not> finished (ss_phase (ss1 ! i))}"
      "once_run ss1 order db1 = (map (\<lambda>i. outcome (ss' ! i)) order, db')" unfolding len by blast
    have same: "once_run ss order db1 = once_run ss1 order db1"
      by (rule once_run_cong) (use j in \<open>auto simp: nth_list_update\<close>)
    show ?thesis
    proof (cases "finished p")
      case False
      then have "db1 = db" using j(4) next_tables_same by (auto simp: finished_iff)
      moreover have "finished (ss_phase (ss1 ! i)) = finished (ss_phase (ss ! i))" for i using j False by (cases "i = j") auto
      ultimately show ?thesis using order same by auto
    next
      case True
      then obtain r where r: "p = Finished r" by (auto simp: finished_iff)
      have "sound db (ss ! j)" using Cons.prems(1) j(1) by (simp add: consistent_def)
      from finishing_records_once [OF this j(2) [unfolded r]] have once: "record_once db (ss_episode (ss ! j)) (ss_event (ss ! j)) = (r, db1)"
        using j(4) r by simp
      have "ss' ! j = ss1 ! j" using run_keeps [OF run] j r by simp
      then have out: "outcome (ss' ! j) = r" "finished (ss_phase (ss' ! j))" using j r by (simp_all add: outcome_def)
      have ne: "finished (ss_phase (ss1 ! i)) \<longleftrightarrow> i = j \<or> finished (ss_phase (ss ! i))" for i using j r by (cases "i = j") auto
      have "set (j # order) = {i. i < length ss \<and> finished (ss_phase (ss' ! i)) \<and> \<not> finished (ss_phase (ss ! i))}"
        using order(2) j(1,3) out(2) ne by auto
      moreover have "distinct (j # order)" using order(1,2) ne by auto
      moreover have "once_run ss (j # order) db = (map (\<lambda>i. outcome (ss' ! i)) (j # order), db')"
        using once same order(3) out(1) by simp
      ultimately show ?thesis by blast
    qed
  qed
qed

section \<open>Progress\<close>

fun steps_left :: "phase \<Rightarrow> nat" where
  "steps_left Ready = 6"
| "steps_left Locked = 5"
| "steps_left Missing = 4"
| "steps_left Stored = 3"
| "steps_left Keyed = 2"
| "steps_left (Finished _) = 0"
| "steps_left _ = 1"

definition work_left :: "recordings \<Rightarrow> nat" where
  "work_left st = sum_list (map (\<lambda>s. steps_left (ss_phase s)) (snd st))"

lemma sum_list_replaced:
  "i < length xs \<Longrightarrow> sum_list (map f (xs[i := x])) + f (xs ! i) = sum_list (map f xs) + (f x :: nat)"
  by (induction xs arbitrary: i) (auto split: nat.split simp: nth_Cons)

lemma step_works:
  assumes "session_step lock_of i (db, ss) = Some st"
  shows "work_left st < work_left (db, ss)"
proof -
  obtain db1 ss1 where st: "st = (db1, ss1)" by fastforce
  from assms [unfolded st] obtain p where j: "i < length ss" "next_phase lock_of db (others i ss) (ss ! i) = Some p"
      "ss1 = ss[i := (ss ! i)\<lparr>ss_phase := p\<rparr>]" by (rule step_shape)
  have less: "steps_left p < steps_left (ss_phase (ss ! i))"
    using j(2) by (cases "ss_phase (ss ! i)") (auto simp: next_phase_def Let_def split: if_splits option.splits sum.splits)
  from sum_list_replaced [OF j(1), of "\<lambda>s. steps_left (ss_phase s)" "(ss ! i)\<lparr>ss_phase := p\<rparr>"] less show ?thesis by (simp add: work_left_def st j(3))
qed

text \<open>The unfinished session that is furthest never waits.\<close>

lemma furthest_moves:
  assumes i: "i < length ss" "\<not> finished (ss_phase (ss ! i))"
    and far: "\<And>s. s \<in> set (others i ss) \<Longrightarrow> finished (ss_phase s) \<or> steps_left (ss_phase (ss ! i)) \<le> steps_left (ss_phase s)"
  shows "session_step lock_of i (db, ss) \<noteq> None"
proof -
  have h: "\<not> holds_lock (ss_phase s)" if "s \<in> set (others i ss)" "ss_phase (ss ! i) = Ready" for s
    using far [OF that(1)] that(2) by (cases "ss_phase s") auto
  have e: "episode_rows s = []" if "s \<in> set (others i ss)" "ss_phase (ss ! i) = Missing" for s
    using far [OF that(1)] that(2) by (cases "ss_phase s") (auto simp: episode_rows_def)
  have k: "key_rows s = []" if "s \<in> set (others i ss)" "ss_phase (ss ! i) = Stored" for s
    using far [OF that(1)] that(2) by (cases "ss_phase s") (auto simp: key_rows_def)
  have v: "event_rows s = []" if "s \<in> set (others i ss)" "ss_phase (ss ! i) = Keyed" for s
    using far [OF that(1)] that(2) by (cases "ss_phase s") (auto simp: event_rows_def)
  have "next_phase lock_of db (others i ss) (ss ! i) \<noteq> None"
    using i(2) h e k v by (cases "ss_phase (ss ! i)") (auto simp: next_phase_def Let_def clash_concat list_ex_iff)
  with i(1) show ?thesis by (simp add: session_step_def)
qed

lemma someone_moves:
  assumes "\<exists>i < length ss. \<not> finished (ss_phase (ss ! i))"
  shows "\<exists>i. session_step lock_of i (db, ss) \<noteq> None"
proof -
  let ?P = "\<lambda>i. i < length ss \<and> \<not> finished (ss_phase (ss ! i))"
  from assms obtain m where "?P m" by blast
  then obtain i where i: "?P i" "\<And>j. ?P j \<Longrightarrow> steps_left (ss_phase (ss ! i)) \<le> steps_left (ss_phase (ss ! j))"
    using ex_has_least_nat [of ?P m "\<lambda>i. steps_left (ss_phase (ss ! i))"] by blast
  have "session_step lock_of i (db, ss) \<noteq> None"
    by (rule furthest_moves) (use i others_nth [of i ss] in auto)
  then show ?thesis by blast
qed

lemma can_finish: "\<exists>sched. \<forall>s \<in> set (snd (run_schedule lock_of sched st)). finished (ss_phase s)"
proof (induction "work_left st" arbitrary: st rule: less_induct)
  case less
  obtain db ss where st: "st = (db, ss)" by fastforce
  show ?case
  proof (cases "\<exists>i < length ss. \<not> finished (ss_phase (ss ! i))")
    case False
    then show ?thesis by (intro exI [of _ "[]"]) (auto simp: st in_set_conv_nth)
  next
    case True
    from someone_moves [OF this] obtain i st' where i: "session_step lock_of i (db, ss) = Some st'" by blast
    from less [OF step_works [OF i, folded st]] obtain sched where "\<forall>s \<in> set (snd (run_schedule lock_of sched st')). finished (ss_phase s)" by blast
    with i show ?thesis by (intro exI [of _ "i # sched"]) (simp add: st)
  qed
qed

text \<open>A fair schedule: its rounds give every session a turn.\<close>

lemma run_append: "run_schedule lock_of (sched @ sched') st = run_schedule lock_of sched' (run_schedule lock_of sched st)"
  by (induction sched arbitrary: st) simp_all

lemma run_works: "work_left (run_schedule lock_of sched st) \<le> work_left st"
proof (induction sched arbitrary: st)
  case (Cons j sched)
  show ?case
  proof (cases "session_step lock_of j st")
    case (Some st')
    with Cons [of st'] step_works [of lock_of j "fst st" "snd st" st'] show ?thesis by simp
  qed (use Cons [of st] in simp)
qed simp

lemma round_works: "session_step lock_of i st \<noteq> None \<Longrightarrow> i \<in> set turns \<Longrightarrow> work_left (run_schedule lock_of turns st) < work_left st"
proof (induction turns arbitrary: st)
  case (Cons j turns)
  show ?case
  proof (cases "session_step lock_of j st")
    case None
    then have "i \<noteq> j" using Cons.prems(1) by blast
    with Cons None show ?thesis by auto
  next
    case (Some st')
    then show ?thesis using run_works [of lock_of turns st'] step_works [of lock_of j "fst st" "snd st" st'] by simp
  qed
qed simp

definition all_finished :: "recordings \<Rightarrow> bool" where
  "all_finished st = list_all (\<lambda>s. finished (ss_phase s)) (snd st)"

lemma run_length: "length (snd (run_schedule lock_of sched st)) = length (snd st)"
  using run_keeps [of lock_of sched "fst st" "snd st"] by (metis prod.collapse)

lemma all_finished_stays: "all_finished st \<Longrightarrow> all_finished (run_schedule lock_of sched st)"
  using run_keeps [of lock_of sched "fst st" "snd st" "fst (run_schedule lock_of sched st)" "snd (run_schedule lock_of sched st)"]
  by (auto simp: all_finished_def list_all_length)

lemma round_moves:
  assumes "\<not> all_finished st" and "{..<length (snd st)} \<subseteq> set turns"
  shows "work_left (run_schedule lock_of turns st) < work_left st"
proof -
  have "\<exists>i < length (snd st). \<not> finished (ss_phase (snd st ! i))" using assms(1) by (auto simp: all_finished_def list_all_length)
  from someone_moves [OF this, of lock_of "fst st"] obtain i where i: "session_step lock_of i st \<noteq> None" by auto
  then have "i < length (snd st)" by (cases st) (auto simp: session_step_def split: if_splits)
  with i assms(2) round_works show ?thesis by blast
qed

lemma rounds_finish:
  "(\<And>turns. turns \<in> set rounds \<Longrightarrow> {..<length (snd st)} \<subseteq> set turns) \<Longrightarrow> work_left st \<le> length rounds
    \<Longrightarrow> all_finished (run_schedule lock_of (concat rounds) st)"
proof (induction rounds arbitrary: st)
  case Nil
  then show ?case using round_moves [of st "[0..<length (snd st)]" lock_of] by force
next
  case (Cons turns rounds)
  show ?case
  proof (cases "all_finished st")
    case True
    then show ?thesis by (rule all_finished_stays)
  next
    case False
    from round_moves [OF this, of turns lock_of] Cons.prems have "work_left (run_schedule lock_of turns st) \<le> length rounds" by force
    with Cons.IH [of "run_schedule lock_of turns st"] Cons.prems(1) show ?thesis by (simp add: run_append run_length)
  qed
qed

section \<open>What holds of concurrent recordings\<close>

definition session_of :: "recording \<Rightarrow> session" where
  "session_of q = (case q of (now, i, ei, c) \<Rightarrow> \<lparr>ss_episode = new_episode c i now, ss_event = new_event c ei i now, ss_phase = Ready\<rparr>)"

definition may_record :: "(authorization_request \<Rightarrow> bool) \<Rightarrow> recording \<Rightarrow> bool" where
  "may_record authorize q = (case q of (now, i, ei, c) \<Rightarrow> recordable c now \<and> authorize (record_request c))"

lemma start_ready: "ss_phase (session_of q) = Ready"
  by (simp add: session_of_def split: prod.split)

lemma start_consistent: "consistent (db, map session_of qs)"
  by (simp add: consistent_def sound_def apart_def start_ready Let_def)

lemma once_run_recordings:
  assumes "\<forall>q \<in> set qs. may_record authorize q" and "set order \<subseteq> {..<length qs}" and "once_run (map session_of qs) order db = (rs, db')"
  shows "record_run (postgres_port float_of) authorize (map ((!) qs) order) db = (map recorded_result rs, db')"
  using assms(2,3)
proof (induction order arbitrary: db rs)
  case (Cons i order)
  obtain now mi ei c where q: "qs ! i = (now, mi, ei, c)" by (metis prod_cases4)
  have i: "i < length qs" using Cons.prems(1) by simp
  then have "may_record authorize (qs ! i)" using assms(1) by simp
  then have ok: "recordable c now" "authorize (record_request c)" by (simp_all add: may_record_def q)
  obtain r db1 where once: "record_once db (new_episode c mi now) (new_event c ei mi now) = (r, db1)" by fastforce
  obtain rs' db2 where rest: "once_run (map session_of qs) order db1 = (rs', db2)" by fastforce
  have "session_of (qs ! i) = \<lparr>ss_episode = new_episode c mi now, ss_event = new_event c ei mi now, ss_phase = Ready\<rparr>"
    by (simp add: session_of_def q)
  with Cons.prems(2) i once rest have rs: "rs = r # rs'" "db' = db2" by simp_all
  from Cons.IH [OF _ rest [folded rs(2)]] Cons.prems(1)
  have "record_run (postgres_port float_of) authorize (map ((!) qs) order) db1 = (map recorded_result rs', db')" by simp
  with handler_records_once [where authorize = authorize, OF ok, of float_of mi ei db] once q show ?case by (simp add: rs)
qed simp

text \<open>
  C11. Recordings that run at the same time over the relational adapter are equivalent to some
  order of the same recordings run one after the other. For any schedule of their statements,
  with sessions that never finished included, there is an order of the finished recordings in which the
  handler, run alone on the tables as they were, gives each caller the answer it got and ends
  in exactly the tables the schedule committed. The advisory lock may merge different keys.
\<close>

theorem concurrent_recordings_serialise:
  assumes "\<forall>q \<in> set qs. may_record authorize q" and "run_schedule lock_of sched (db, map session_of qs) = (db', ss')"
  shows "\<exists>order. distinct order \<and> set order = {i. i < length qs \<and> finished (ss_phase (ss' ! i))}
    \<and> record_run (postgres_port float_of) authorize (map ((!) qs) order) db
      = (map (\<lambda>i. recorded_result (outcome (ss' ! i))) order, db')"
proof -
  have start: "\<not> finished (ss_phase (map session_of qs ! i))" if "i < length qs" for i using that by (simp add: start_ready)
  from schedule_serial [OF start_consistent assms(2)] obtain order where order: "distinct order"
    "set order = {i. i < length qs \<and> finished (ss_phase (ss' ! i)) \<and> \<not> finished (ss_phase (map session_of qs ! i))}"
    "once_run (map session_of qs) order db = (map (\<lambda>i. outcome (ss' ! i)) order, db')"
    unfolding length_map by blast
  from order(2) start have "set order = {i. i < length qs \<and> finished (ss_phase (ss' ! i))}" by blast
  note order = order(1) this order(3)
  from once_run_recordings [OF assms(1) _ order(3), of float_of] order(1,2) show ?thesis by (auto simp: comp_def)
qed

theorem concurrent_recordings_serialise_witness:
  "\<exists>order. distinct order
    \<and> set order = {i. i < length [sample_recording, sample_retry]
        \<and> finished (ss_phase (snd (run_schedule (\<lambda>k. True) [1, 0, 1, 1, 0] (empty_tables, map session_of [sample_recording, sample_retry])) ! i))}
    \<and> record_run (postgres_port (\<lambda>_. Inr NaN)) (\<lambda>_. True) (map ((!) [sample_recording, sample_retry]) order) empty_tables
      = (map (\<lambda>i. recorded_result (outcome (snd (run_schedule (\<lambda>k. True) [1, 0, 1, 1, 0]
            (empty_tables, map session_of [sample_recording, sample_retry])) ! i))) order,
         fst (run_schedule (\<lambda>k. True) [1, 0, 1, 1, 0] (empty_tables, map session_of [sample_recording, sample_retry])))"
  by (rule concurrent_recordings_serialise [OF _ prod.collapse [symmetric]])
    (simp add: may_record_def sample_recording_def sample_retry_def sample_recordable)

text \<open>
  C12. Concurrent recordings never block each other for good. The advisory lock and the unique
  indexes make sessions wait, but whatever the schedule, once every session has had a turn in
  six rounds per recording, all of them are finished: no deadlock and no starvation.
\<close>

theorem concurrent_recordings_finish:
  assumes "\<forall>turns \<in> set rounds. {..<length qs} \<subseteq> set turns" and "6 * length qs \<le> length rounds"
  shows "all_finished (run_schedule lock_of (concat rounds) (db, map session_of qs))"
proof -
  have "work_left (db, map session_of qs) = 6 * length qs"
    by (induction qs) (simp_all add: work_left_def start_ready)
  with assms show ?thesis by (intro rounds_finish) auto
qed

theorem concurrent_recordings_finish_witness:
  "all_finished (run_schedule (\<lambda>k. True) (concat (replicate 12 [1, 0])) (empty_tables, map session_of [sample_recording, sample_retry]))"
  by (rule concurrent_recordings_finish) auto

end
