(* ===== verification/Concurrent_Relay.thy ===== *)
theory Concurrent_Relay
  imports Memory_Postgres
begin

text \<open>
  Several relays at the same time, over one outbox and one inbox. The statements of
  \<open>RelayOutboxEventsHandler.handle\<close>, \<open>ProcessInboxEventHandler.handle\<close> and
  \<open>InboxOutboxEventPublisher.publish\<close> are steps of their own: each opens its own
  transaction, so anything may happen between two of them. A relay may also stop at any
  point (a crash, or the cancellation of its task, which no \<open>except Exception\<close> catches).
\<close>

section \<open>Relays\<close>

text \<open>
  Between two rounds; in the loop over a fetched batch, with the events that are past and
  those to come; after \<open>try_record\<close> answered \<open>True\<close> for the next event; after its inbox
  handler returned, before the delegate; after its processor raised.
\<close>

datatype relay_phase =
    Idle
  | Delivering datetime "event_envelope list" "event_envelope list"
  | Recorded datetime "event_envelope list" "event_envelope list"
  | Consumed datetime "event_envelope list" "event_envelope list"
  | Failing event_envelope

text \<open>What the relays share. The last two fields remember what was processed and marked published.\<close>

record ('s, 'w, 'v) shared =
  sh_outbox :: 's
  sh_inbox :: inbox
  sh_world :: 'w
  sh_log :: 'v
  sh_processed :: "event_envelope list"
  sh_published :: "event_envelope list"

text \<open>One step of a relay; the flag says that it is a fault: a processor that raised or a crash.\<close>

inductive relay_step ::
    "'s relay_store \<Rightarrow> 'w processor list \<Rightarrow> string \<Rightarrow> ('v \<Rightarrow> event_envelope \<Rightarrow> unit res \<times> 'v) \<Rightarrow> bool
      \<Rightarrow> ('s, 'w, 'v) shared \<times> relay_phase \<Rightarrow> ('s, 'w, 'v) shared \<times> relay_phase \<Rightarrow> bool"
  for store processors consumer delegate where
  fetch: "rs_fetch store (sh_outbox sh) batch_size = Inr es \<Longrightarrow> es \<noteq> []
    \<Longrightarrow> relay_step store processors consumer delegate False (sh, Idle) (sh, Delivering now [] es)"
| unhandled: "processor_for processors (ev_event_type e) = None
    \<Longrightarrow> relay_step store processors consumer delegate False (sh, Delivering now past (e # es)) (sh, Consumed now past (e # es))"
| duplicate: "processor_for processors (ev_event_type e) = Some p
    \<Longrightarrow> try_record (sh_inbox sh) (ev_event_id e) consumer (ev_event_type e) (ev_tenant_id e) ts = (False, ib)
    \<Longrightarrow> relay_step store processors consumer delegate False (sh, Delivering now past (e # es)) (sh\<lparr>sh_inbox := ib\<rparr>, Consumed now past (e # es))"
| recorded: "processor_for processors (ev_event_type e) = Some p
    \<Longrightarrow> try_record (sh_inbox sh) (ev_event_id e) consumer (ev_event_type e) (ev_tenant_id e) ts = (True, ib)
    \<Longrightarrow> relay_step store processors consumer delegate False (sh, Delivering now past (e # es)) (sh\<lparr>sh_inbox := ib\<rparr>, Recorded now past (e # es))"
| processed: "processor_for processors (ev_event_type e) = Some p \<Longrightarrow> snd p (sh_world sh) e = (Inr u, w)
    \<Longrightarrow> relay_step store processors consumer delegate False (sh, Recorded now past (e # es))
          (sh\<lparr>sh_world := w, sh_processed := sh_processed sh @ [e]\<rparr>, Consumed now past (e # es))"
| raised: "processor_for processors (ev_event_type e) = Some p \<Longrightarrow> snd p (sh_world sh) e = (Inl x, w)
    \<Longrightarrow> relay_step store processors consumer delegate True (sh, Recorded now past (e # es)) (sh\<lparr>sh_world := w\<rparr>, Failing e)"
| removed: "relay_step store processors consumer delegate False (sh, Failing e)
    (sh\<lparr>sh_inbox := remove_record (sh_inbox sh) (ev_event_id e)\<rparr>, Idle)"
| dispatched: "delegate (sh_log sh) e = (Inr u, v)
    \<Longrightarrow> relay_step store processors consumer delegate False (sh, Consumed now past (e # es)) (sh\<lparr>sh_log := v\<rparr>, Delivering now (past @ [e]) es)"
| undispatched: "delegate (sh_log sh) e = (Inl x, v)
    \<Longrightarrow> relay_step store processors consumer delegate False (sh, Consumed now past (e # es)) (sh\<lparr>sh_log := v\<rparr>, Idle)"
| marked: "relay_step store processors consumer delegate False (sh, Delivering now past [])
    (sh\<lparr>sh_outbox := rs_mark store (sh_outbox sh) (map ev_event_id past) now, sh_published := sh_published sh @ past\<rparr>, Idle)"
| crashed: "relay_step store processors consumer delegate True (sh, p) (sh, Idle)"

text \<open>Any relay moves, or another part of the program writes to the outbox or to the tables of the processors.\<close>

inductive delivery_step ::
    "'s relay_store \<Rightarrow> 'w processor list \<Rightarrow> string \<Rightarrow> ('v \<Rightarrow> event_envelope \<Rightarrow> unit res \<times> 'v) \<Rightarrow> bool
      \<Rightarrow> ('s, 'w, 'v) shared \<times> relay_phase list \<Rightarrow> ('s, 'w, 'v) shared \<times> relay_phase list \<Rightarrow> bool"
  for store processors consumer delegate where
  relay: "i < length ps \<Longrightarrow> relay_step store processors consumer delegate fault (sh, ps ! i) (sh', p)
    \<Longrightarrow> delivery_step store processors consumer delegate fault (sh, ps) (sh', ps[i := p])"
| writer: "delivery_step store processors consumer delegate False (sh, ps) (sh\<lparr>sh_outbox := s, sh_world := w\<rparr>, ps)"

text \<open>Runs; the flag says whether a fault occurred.\<close>

inductive deliveries ::
    "'s relay_store \<Rightarrow> 'w processor list \<Rightarrow> string \<Rightarrow> ('v \<Rightarrow> event_envelope \<Rightarrow> unit res \<times> 'v) \<Rightarrow> bool
      \<Rightarrow> ('s, 'w, 'v) shared \<times> relay_phase list \<Rightarrow> ('s, 'w, 'v) shared \<times> relay_phase list \<Rightarrow> bool"
  for store processors consumer delegate where
  start: "deliveries store processors consumer delegate False st st"
| more: "deliveries store processors consumer delegate f st st' \<Longrightarrow> delivery_step store processors consumer delegate g st' st''
    \<Longrightarrow> deliveries store processors consumer delegate (f \<or> g) st st''"

section \<open>What a step changes\<close>

definition inbox_ids :: "('s, 'w, 'v) shared \<Rightarrow> event_id set" where
  "inbox_ids sh = set (dict_keys (sh_inbox sh))"

definition processed_ids :: "('s, 'w, 'v) shared \<Rightarrow> event_id list" where
  "processed_ids sh = map ev_event_id (sh_processed sh)"

text \<open>The event whose row a relay put into the inbox without having processed it yet.\<close>

fun held :: "relay_phase \<Rightarrow> event_id set" where
  "held (Recorded now past todo) = ev_event_id ` set (take 1 todo)"
| "held (Failing e) = {ev_event_id e}"
| "held _ = {}"

text \<open>The events of its batch that are past a relay's inbox handler.\<close>

fun passed :: "relay_phase \<Rightarrow> event_envelope list" where
  "passed (Delivering now past todo) = past"
| "passed (Recorded now past todo) = past"
| "passed (Consumed now past todo) = past @ take 1 todo"
| "passed _ = []"

definition handled :: "'w processor list \<Rightarrow> event_envelope list \<Rightarrow> event_id set" where
  "handled processors es = ev_event_id ` {e \<in> set es. processor_for processors (ev_event_type e) \<noteq> None}"

lemma handled_append [simp]: "handled processors (xs @ ys) = handled processors xs \<union> handled processors ys"
  by (auto simp: handled_def)

lemma handled_nil [simp]: "handled processors [] = {}"
  by (simp add: handled_def)

lemma handled_one: "handled processors [e] = (if processor_for processors (ev_event_type e) = None then {} else {ev_event_id e})"
  by (auto simp: handled_def)

lemma keys_removed: "set (dict_keys (dict_pop k d)) = set (dict_keys d) - {k}"
  by (induction d) auto

lemma recorded_ids: "try_record ib i consumer ty t ts = (b, ib') \<Longrightarrow> b = (i \<notin> set (dict_keys ib)) \<and> set (dict_keys ib') = insert i (set (dict_keys ib))"
  using dict_get_None_iff [of ib i] by (cases "dict_get ib i") (auto simp: try_record_def dict_set_new simp del: set_map)

lemma inbox_ids_simps [simp]:
  "inbox_ids (sh\<lparr>sh_world := w\<rparr>) = inbox_ids sh" "inbox_ids (sh\<lparr>sh_log := v\<rparr>) = inbox_ids sh"
  "inbox_ids (sh\<lparr>sh_outbox := s\<rparr>) = inbox_ids sh" "inbox_ids (sh\<lparr>sh_processed := es\<rparr>) = inbox_ids sh"
  "inbox_ids (sh\<lparr>sh_published := es\<rparr>) = inbox_ids sh" "inbox_ids (sh\<lparr>sh_inbox := ib\<rparr>) = set (dict_keys ib)"
  by (simp_all add: inbox_ids_def)

lemma processed_ids_simps [simp]:
  "processed_ids (sh\<lparr>sh_world := w\<rparr>) = processed_ids sh" "processed_ids (sh\<lparr>sh_log := v\<rparr>) = processed_ids sh"
  "processed_ids (sh\<lparr>sh_outbox := s\<rparr>) = processed_ids sh" "processed_ids (sh\<lparr>sh_inbox := ib\<rparr>) = processed_ids sh"
  "processed_ids (sh\<lparr>sh_published := es\<rparr>) = processed_ids sh" "processed_ids (sh\<lparr>sh_processed := es\<rparr>) = map ev_event_id es"
  by (simp_all add: processed_ids_def)

lemma relay_step_shape:
  assumes "relay_step store processors consumer delegate f (sh, p) (sh', p')"
  shows "inbox_ids sh' = inbox_ids sh \<and> processed_ids sh' = processed_ids sh \<and> held p' \<subseteq> held p
    \<or> (\<exists>k. k \<notin> inbox_ids sh \<and> inbox_ids sh' = insert k (inbox_ids sh) \<and> processed_ids sh' = processed_ids sh \<and> held p' = {k})
    \<or> (\<exists>k. held p = {k} \<and> held p' = {} \<and> inbox_ids sh' = inbox_ids sh \<and> processed_ids sh' = processed_ids sh @ [k])
    \<or> (\<exists>k. held p = {k} \<and> held p' = {} \<and> inbox_ids sh' = inbox_ids sh - {k} \<and> processed_ids sh' = processed_ids sh)"
  using assms
proof (cases rule: relay_step.cases)
  case (duplicate e pr ts ib now past es)
  with recorded_ids [OF duplicate(6)] show ?thesis by (simp add: inbox_ids_def [of sh] insert_absorb del: set_map)
next
  case (recorded e pr ts ib now past es)
  with recorded_ids [OF recorded(6)] show ?thesis by (simp add: inbox_ids_def [of sh] del: set_map)
next
  case (processed e pr u w now past es)
  then show ?thesis by (simp add: processed_ids_def [of sh])
next
  case (removed e)
  then show ?thesis by (simp add: remove_record_def keys_removed inbox_ids_def [of sh] del: set_map)
qed auto

text \<open>Without faults.\<close>

definition unfailing :: "'w processor list \<Rightarrow> ('s, 'w, 'v) shared \<Rightarrow> relay_phase \<Rightarrow> bool" where
  "unfailing processors sh p \<longleftrightarrow> (\<forall>e. p \<noteq> Failing e) \<and> handled processors (passed p) \<subseteq> inbox_ids sh"

lemma smooth_step:
  assumes "relay_step store processors consumer delegate False (sh, p) (sh', p')" and "unfailing processors sh p"
    and "handled processors (sh_published sh) \<subseteq> inbox_ids sh" and "held p \<subseteq> inbox_ids sh"
  shows "inbox_ids sh \<subseteq> inbox_ids sh' \<and> inbox_ids sh' \<subseteq> inbox_ids sh \<union> held p' \<and> held p \<subseteq> held p' \<union> set (processed_ids sh')
    \<and> set (processed_ids sh) \<subseteq> set (processed_ids sh') \<and> unfailing processors sh' p' \<and> handled processors (sh_published sh') \<subseteq> inbox_ids sh'"
  using assms(1)
proof (cases rule: relay_step.cases)
  case (duplicate e pr ts ib now past es)
  with recorded_ids [OF duplicate(5)] assms(2-4) show ?thesis
    by (auto simp: unfailing_def handled_one inbox_ids_def [of sh] simp del: set_map)
next
  case (recorded e pr ts ib now past es)
  with recorded_ids [OF recorded(5)] assms(2-4) show ?thesis
    by (auto simp: unfailing_def inbox_ids_def [of sh] simp del: set_map)
qed (use assms(2-4) in \<open>auto simp: unfailing_def handled_one processed_ids_def [of sh]\<close>)

section \<open>Invariants\<close>

text \<open>
  A processed event keeps its row; a row that waits for its processor belongs to one relay.
\<close>

definition exclusive :: "('s, 'w, 'v) shared \<times> relay_phase list \<Rightarrow> bool" where
  "exclusive st \<longleftrightarrow> (case st of (sh, ps) \<Rightarrow> distinct (processed_ids sh) \<and> set (processed_ids sh) \<subseteq> inbox_ids sh
     \<and> (\<forall>i < length ps. held (ps ! i) \<subseteq> inbox_ids sh - set (processed_ids sh))
     \<and> (\<forall>i < length ps. \<forall>j < length ps. i \<noteq> j \<longrightarrow> held (ps ! i) \<inter> held (ps ! j) = {}))"

lemma relay_exclusive:
  assumes x: "exclusive (sh, ps)" and i: "i < length ps"
    and step: "relay_step store processors consumer delegate f (sh, ps ! i) (sh', p)"
  shows "exclusive (sh', ps[i := p])"
proof -
  have d: "distinct (processed_ids sh)" "set (processed_ids sh) \<subseteq> inbox_ids sh"
    and h: "\<And>j. j < length ps \<Longrightarrow> held (ps ! j) \<subseteq> inbox_ids sh - set (processed_ids sh)"
    and a: "\<And>j k. j < length ps \<Longrightarrow> k < length ps \<Longrightarrow> j \<noteq> k \<Longrightarrow> held (ps ! j) \<inter> held (ps ! k) = {}"
    using x by (simp_all add: exclusive_def)
  have own: "distinct (processed_ids sh') \<and> set (processed_ids sh') \<subseteq> inbox_ids sh' \<and> held p \<subseteq> inbox_ids sh' - set (processed_ids sh')"
    using relay_step_shape [OF step] d h [OF i] by auto
  have rest: "held (ps ! j) \<subseteq> inbox_ids sh' - set (processed_ids sh') \<and> held (ps ! j) \<inter> held p = {}" if "j < length ps" "j \<noteq> i" for j
    using relay_step_shape [OF step] h [OF that(1)] a [OF that(1) i that(2)] d by auto
  have "held (ps[i := p] ! j) \<subseteq> inbox_ids sh' - set (processed_ids sh')" if "j < length ps" for j
    using own rest i that by (cases "j = i") auto
  moreover have "held (ps[i := p] ! j) \<inter> held (ps[i := p] ! k) = {}" if "j < length ps" "k < length ps" "j \<noteq> k" for j k
    using rest [OF that(1)] rest [OF that(2)] a [OF that] i that(3) by (cases "j = i"; cases "k = i") (auto simp: disjoint_iff)
  ultimately show ?thesis using own by (simp add: exclusive_def)
qed

lemma delivery_exclusive: "delivery_step store processors consumer delegate f st st' \<Longrightarrow> exclusive st \<Longrightarrow> exclusive st'"
proof (induction rule: delivery_step.induct)
  case (relay i ps f sh sh' p)
  then show ?case by (blast intro: relay_exclusive)
qed (simp add: exclusive_def)

lemma deliveries_exclusive: "deliveries store processors consumer delegate f st st' \<Longrightarrow> exclusive st \<Longrightarrow> exclusive st'"
  by (induction rule: deliveries.induct) (auto intro: delivery_exclusive)

text \<open>Without faults no row is left behind: each is of an event that is processed or is about to be.\<close>

definition lossless :: "'w processor list \<Rightarrow> ('s, 'w, 'v) shared \<times> relay_phase list \<Rightarrow> bool" where
  "lossless processors st \<longleftrightarrow> (case st of (sh, ps) \<Rightarrow>
     inbox_ids sh \<subseteq> set (processed_ids sh) \<union> (\<Union>i < length ps. held (ps ! i))
     \<and> (\<forall>i < length ps. unfailing processors sh (ps ! i)) \<and> handled processors (sh_published sh) \<subseteq> inbox_ids sh)"

lemma relay_lossless:
  assumes l: "lossless processors (sh, ps)" and x: "exclusive (sh, ps)" and i: "i < length ps"
    and step: "relay_step store processors consumer delegate False (sh, ps ! i) (sh', p)"
  shows "lossless processors (sh', ps[i := p])"
proof -
  have k: "inbox_ids sh \<subseteq> set (processed_ids sh) \<union> (\<Union>j < length ps. held (ps ! j))"
    and u: "\<And>j. j < length ps \<Longrightarrow> unfailing processors sh (ps ! j)" and pub: "handled processors (sh_published sh) \<subseteq> inbox_ids sh"
    using l by (simp_all add: lossless_def)
  have "held (ps ! i) \<subseteq> inbox_ids sh" using x i by (auto simp: exclusive_def)
  note s = smooth_step [OF step u [OF i] pub this]
  then have new: "inbox_ids sh' \<subseteq> inbox_ids sh \<union> held p" and own: "held (ps ! i) \<subseteq> held p \<union> set (processed_ids sh')"
    and old: "set (processed_ids sh) \<subseteq> set (processed_ids sh')" by simp_all
  have "unfailing processors sh' (ps ! j)" if "j < length ps" for j
    using u [OF that] s by (auto simp: unfailing_def)
  moreover have "inbox_ids sh' \<subseteq> set (processed_ids sh') \<union> (\<Union>j < length ps. held (ps[i := p] ! j))"
  proof
    fix e assume "e \<in> inbox_ids sh'"
    with new k have "e \<in> held p \<or> e \<in> set (processed_ids sh) \<or> (\<exists>j < length ps. e \<in> held (ps ! j))" by (auto dest!: subsetD)
    then consider "e \<in> held p" | "e \<in> set (processed_ids sh)" | j where "j < length ps" "e \<in> held (ps ! j)" by metis
    then show "e \<in> set (processed_ids sh') \<union> (\<Union>j < length ps. held (ps[i := p] ! j))"
    proof cases
      case 1
      with i show ?thesis by force
    next
      case 2
      with old show ?thesis by (simp add: subset_iff)
    next
      case 3
      show ?thesis
      proof (cases "j = i")
        case True
        with 3 own have "e \<in> held p \<union> set (processed_ids sh')" by (simp add: subset_iff)
        with i show ?thesis by force
      next
        case False
        with 3 show ?thesis by force
      qed
    qed
  qed
  ultimately show ?thesis using s i by (auto simp: lossless_def nth_list_update)
qed

lemma deliveries_lossless:
  "deliveries store processors consumer delegate f st st' \<Longrightarrow> \<not> f \<Longrightarrow> exclusive st \<Longrightarrow> lossless processors st \<Longrightarrow> lossless processors st'"
proof (induction rule: deliveries.induct)
  case (more f st st' g st'')
  then have l: "lossless processors st'" and x: "exclusive st'" and g: "\<not> g" by (auto intro: deliveries_exclusive)
  from more.hyps(2) show ?case
  proof (cases rule: delivery_step.cases)
    case (relay i ps sh sh' p)
    with l x g show ?thesis by (auto intro: relay_lossless)
  next
    case (writer sh ps s w)
    with l show ?thesis by (simp add: lossless_def unfailing_def)
  qed
qed

section \<open>A relay alone\<close>

lemma deliveries_trans:
  "deliveries store processors consumer delegate g st' st'' \<Longrightarrow> deliveries store processors consumer delegate f st st'
    \<Longrightarrow> deliveries store processors consumer delegate (f \<or> g) st st''"
proof (induction rule: deliveries.induct)
  case (more g st' st'' h st3)
  from deliveries.more [OF more.IH [OF more.prems] more.hyps(2)] show ?case by (simp add: disj_assoc)
qed simp

lemma alone_step:
  "relay_step store processors consumer delegate f (sh, p) (sh', p') \<Longrightarrow> deliveries store processors consumer delegate f (sh, [p]) (sh', [p'])"
  using deliveries.more [OF deliveries.start [of store processors consumer delegate "(sh, [p])"]
    delivery_step.relay [where i = 0 and ps = "[p]" and fault = f and sh = sh and sh' = sh' and p = p']] by simp

lemma alone_then:
  "relay_step store processors consumer delegate f (sh, p) (sh', p') \<Longrightarrow> deliveries store processors consumer delegate g (sh', [p']) st
    \<Longrightarrow> deliveries store processors consumer delegate (f \<or> g) (sh, [p]) st"
  by (rule deliveries_trans [OF _ alone_step])

definition after_event :: "unit res \<Rightarrow> datetime \<Rightarrow> event_envelope list \<Rightarrow> event_envelope list \<Rightarrow> relay_phase" where
  "after_event r now past es = (case r of Inr _ \<Rightarrow> Delivering now past es | Inl _ \<Rightarrow> Idle)"

lemma dispatch_step: "delegate (sh_log sh) e = (r, v) \<Longrightarrow>
    relay_step store processors consumer delegate False (sh, Consumed now past (e # es)) (sh\<lparr>sh_log := v\<rparr>, after_event r now (past @ [e]) es)"
  by (cases r) (auto simp: after_event_def intro: relay_step.dispatched relay_step.undispatched)

text \<open>The publisher's whole handling of one event is a run.\<close>

lemma event_run:
  assumes "inbox_publish processors consumer now delegate ((sh_inbox sh, sh_world sh), sh_log sh) e = (r, (ib, w), v)"
  shows "\<exists>f es'. deliveries store processors consumer delegate f (sh, [Delivering now past (e # es)])
    (sh\<lparr>sh_inbox := ib, sh_world := w, sh_processed := es', sh_log := v\<rparr>, [after_event r now (past @ [e]) es])"
proof (cases "processor_for processors (ev_event_type e)")
  case None
  with assms have d: "delegate (sh_log sh) e = (r, v)" "ib = sh_inbox sh" "w = sh_world sh"
    by (auto simp: inbox_publish_def process_inbox_handle_def split: prod.splits)
  from alone_then [OF relay_step.unhandled [OF None] alone_step [OF dispatch_step [where delegate = delegate and sh = sh, OF d(1)]], of store consumer now past es]
  have "deliveries store processors consumer delegate False (sh, [Delivering now past (e # es)])
      (sh\<lparr>sh_inbox := ib, sh_world := w, sh_processed := sh_processed sh, sh_log := v\<rparr>, [after_event r now (past @ [e]) es])"
    using d(2,3) by simp
  then show ?thesis by blast
next
  case (Some p)
  obtain b ib1 where tried: "try_record (sh_inbox sh) (ev_event_id e) consumer (ev_event_type e) (ev_tenant_id e) now = (b, ib1)" by fastforce
  show ?thesis
  proof (cases b)
    case False
    with assms Some tried have d: "delegate (sh_log sh) e = (r, v)" "ib = ib1" "w = sh_world sh"
      by (auto simp: inbox_publish_def process_inbox_handle_def split: prod.splits)
    have dup: "try_record (sh_inbox sh) (ev_event_id e) consumer (ev_event_type e) (ev_tenant_id e) now = (False, ib1)" using tried False by simp
    have "delegate (sh_log (sh\<lparr>sh_inbox := ib1\<rparr>)) e = (r, v)" using d(1) by simp
    from alone_then [OF relay_step.duplicate [OF Some dup] alone_step [OF dispatch_step [where delegate = delegate, OF this]], of store now past es]
    have "deliveries store processors consumer delegate False (sh, [Delivering now past (e # es)])
        (sh\<lparr>sh_inbox := ib1, sh_log := v\<rparr>, [after_event r now (past @ [e]) es])" by simp
    moreover have "sh\<lparr>sh_inbox := ib1, sh_log := v\<rparr> = sh\<lparr>sh_inbox := ib, sh_world := w, sh_processed := sh_processed sh, sh_log := v\<rparr>"
      using d(2,3) by simp
    ultimately show ?thesis by metis
  next
    case True
    have tried_new: "try_record (sh_inbox sh) (ev_event_id e) consumer (ev_event_type e) (ev_tenant_id e) now = (True, ib1)" using tried True by simp
    note rec = relay_step.recorded [OF Some tried_new]
    obtain y w1 where run: "snd p (sh_world sh) e = (y, w1)" by fastforce
    show ?thesis
    proof (cases y)
      case (Inl x)
      with assms Some tried True run have d: "r = Inl x" "ib = remove_record ib1 (ev_event_id e)" "w = w1" "v = sh_log sh"
        by (auto simp: inbox_publish_def process_inbox_handle_def split: prod.splits)
      have "relay_step store processors consumer delegate True (sh\<lparr>sh_inbox := ib1\<rparr>, Recorded now past (e # es)) (sh\<lparr>sh_inbox := ib1, sh_world := w1\<rparr>, Failing e)"
        using relay_step.raised [OF Some, of "sh\<lparr>sh_inbox := ib1\<rparr>"] run Inl by simp
      from alone_then [OF rec alone_then [OF this alone_step [OF relay_step.removed]]]
      have "deliveries store processors consumer delegate True (sh, [Delivering now past (e # es)]) (sh\<lparr>sh_world := w, sh_inbox := ib\<rparr>, [Idle])"
        using d(2,3) by simp
      moreover have "sh\<lparr>sh_world := w, sh_inbox := ib\<rparr> = sh\<lparr>sh_inbox := ib, sh_world := w, sh_processed := sh_processed sh, sh_log := v\<rparr>"
        using d(4) by simp
      ultimately show ?thesis unfolding d(1) after_event_def by (metis old.sum.simps(5))
    next
      case (Inr u)
      with assms Some tried True run have d: "delegate (sh_log sh) e = (r, v)" "ib = ib1" "w = w1"
        by (auto simp: inbox_publish_def process_inbox_handle_def split: prod.splits)
      let ?sh = "sh\<lparr>sh_inbox := ib1, sh_world := w1, sh_processed := sh_processed sh @ [e]\<rparr>"
      have s: "relay_step store processors consumer delegate False (sh\<lparr>sh_inbox := ib1\<rparr>, Recorded now past (e # es)) (?sh, Consumed now past (e # es))"
        using relay_step.processed [OF Some, of "sh\<lparr>sh_inbox := ib1\<rparr>"] run Inr by simp
      have "delegate (sh_log ?sh) e = (r, v)" using d(1) by simp
      from alone_then [OF rec alone_then [OF s alone_step [OF dispatch_step [where delegate = delegate and sh = ?sh, OF this]]]]
      have "deliveries store processors consumer delegate False (sh, [Delivering now past (e # es)])
          (sh\<lparr>sh_inbox := ib, sh_world := w, sh_processed := sh_processed sh @ [e], sh_log := v\<rparr>, [after_event r now (past @ [e]) es])"
        using d(2,3) by simp
      then show ?thesis by blast
    qed
  qed
qed

text \<open>So is the loop over a batch.\<close>

lemma batch_run:
  assumes "publish_all (inbox_publish processors consumer now delegate) es k ((sh_inbox sh, sh_world sh), sh_log sh) = (r, (ib, w), v)"
  shows "\<exists>f es'. deliveries store processors consumer delegate f (sh, [Delivering now past es])
    (sh\<lparr>sh_inbox := ib, sh_world := w, sh_processed := es', sh_log := v\<rparr>, [after_event (map_sum id (\<lambda>_. ()) r) now (past @ es) []])"
  using assms
proof (induction es arbitrary: k sh past)
  case Nil
  then have "sh\<lparr>sh_inbox := ib, sh_world := w, sh_processed := sh_processed sh, sh_log := v\<rparr> = sh" "r = Inr k" by auto
  then show ?case using deliveries.start [of store processors consumer delegate "(sh, [Delivering now past []])"]
    by (intro exI [of _ False] exI [of _ "sh_processed sh"]) (simp add: after_event_def)
next
  case (Cons e es)
  obtain y ib1 w1 v1 where one: "inbox_publish processors consumer now delegate ((sh_inbox sh, sh_world sh), sh_log sh) e = (y, (ib1, w1), v1)"
    by (metis prod.collapse)
  from event_run [OF one, of store past es] obtain f es1 where first: "deliveries store processors consumer delegate f (sh, [Delivering now past (e # es)])
      (sh\<lparr>sh_inbox := ib1, sh_world := w1, sh_processed := es1, sh_log := v1\<rparr>, [after_event y now (past @ [e]) es])" by blast
  show ?case
  proof (cases y)
    case (Inl x)
    with Cons.prems one have "r = Inl x" "ib = ib1" "w = w1" "v = v1" by auto
    with first Inl show ?thesis by (auto simp: after_event_def)
  next
    case (Inr u)
    let ?sh = "sh\<lparr>sh_inbox := ib1, sh_world := w1, sh_processed := es1, sh_log := v1\<rparr>"
    have "publish_all (inbox_publish processors consumer now delegate) es (Suc k) ((sh_inbox ?sh, sh_world ?sh), sh_log ?sh) = (r, (ib, w), v)"
      using Cons.prems one Inr by simp
    from Cons.IH [OF this, of "past @ [e]"] obtain g es2 where
      "deliveries store processors consumer delegate g (?sh, [Delivering now (past @ [e]) es])
        (?sh\<lparr>sh_inbox := ib, sh_world := w, sh_processed := es2, sh_log := v\<rparr>, [after_event (map_sum id (\<lambda>_. ()) r) now ((past @ [e]) @ es) []])"
      by blast
    from deliveries_trans [OF this] first Inr
    have "deliveries store processors consumer delegate (f \<or> g) (sh, [Delivering now past (e # es)])
        (?sh\<lparr>sh_inbox := ib, sh_world := w, sh_processed := es2, sh_log := v\<rparr>, [after_event (map_sum id (\<lambda>_. ()) r) now (past @ e # es) []])"
      by (simp add: after_event_def)
    moreover have "?sh\<lparr>sh_inbox := ib, sh_world := w, sh_processed := es2, sh_log := v\<rparr>
        = sh\<lparr>sh_inbox := ib, sh_world := w, sh_processed := es2, sh_log := v\<rparr>" by simp
    ultimately show ?thesis by metis
  qed
qed

text \<open>A round of the relay that nothing interrupts is a run of its steps.\<close>

lemma relay_round_runs:
  assumes "relay_outbox_handle store (inbox_publish processors consumer now delegate) now batch_size
      (sh_outbox sh, (sh_inbox sh, sh_world sh), sh_log sh) = (r, s, (ib, w), v)"
  shows "\<exists>f sh'. deliveries store processors consumer delegate f (sh, [Idle]) (sh', [Idle])
    \<and> sh_outbox sh' = s \<and> sh_inbox sh' = ib \<and> sh_world sh' = w \<and> sh_log sh' = v"
proof (cases "\<exists>es. rs_fetch store (sh_outbox sh) batch_size = Inr es \<and> es \<noteq> []")
  case False
  with assms have "s = sh_outbox sh" "ib = sh_inbox sh" "w = sh_world sh" "v = sh_log sh"
    by (auto simp: relay_outbox_handle_def split: sum.splits)
  then show ?thesis by (intro exI [of _ False] exI [of _ sh]) (simp add: deliveries.start)
next
  case True
  then obtain es where es: "rs_fetch store (sh_outbox sh) batch_size = Inr es" "es \<noteq> []" by blast
  obtain y ib1 w1 v1 where all: "publish_all (inbox_publish processors consumer now delegate) es 0 ((sh_inbox sh, sh_world sh), sh_log sh) = (y, (ib1, w1), v1)"
    by (metis prod.collapse)
  from batch_run [OF all, of store "[]"] obtain f es' where run: "deliveries store processors consumer delegate f (sh, [Delivering now [] es])
    (sh\<lparr>sh_inbox := ib1, sh_world := w1, sh_processed := es', sh_log := v1\<rparr>, [after_event (map_sum id (\<lambda>_. ()) y) now es []])" by auto
  note fetched = alone_then [OF relay_step.fetch [OF es] run]
  show ?thesis
  proof (cases y)
    case (Inl x)
    with assms es all have "s = sh_outbox sh" "ib = ib1" "w = w1" "v = v1" by (auto simp: relay_outbox_handle_def)
    with fetched Inl show ?thesis
      by (intro exI [of _ "False \<or> f"] exI [of _ "sh\<lparr>sh_inbox := ib1, sh_world := w1, sh_processed := es', sh_log := v1\<rparr>"]) (simp add: after_event_def)
  next
    case (Inr n)
    with assms es all have d: "s = rs_mark store (sh_outbox sh) (map ev_event_id es) now" "ib = ib1" "w = w1" "v = v1"
      by (auto simp: relay_outbox_handle_def Let_def)
    from fetched Inr have "deliveries store processors consumer delegate (False \<or> f) (sh, [Idle])
      (sh\<lparr>sh_inbox := ib1, sh_world := w1, sh_processed := es', sh_log := v1\<rparr>, [Delivering now es []])" by (simp add: after_event_def)
    from deliveries_trans [OF alone_step [OF relay_step.marked] this] d show ?thesis
      by (fastforce intro: exI [of _ "(False \<or> f) \<or> False"])
  qed
qed

section \<open>What holds of concurrent relays\<close>

definition fresh_start :: "'s \<Rightarrow> 'w \<Rightarrow> 'v \<Rightarrow> nat \<Rightarrow> ('s, 'w, 'v) shared \<times> relay_phase list" where
  "fresh_start s w v n = (\<lparr>sh_outbox = s, sh_inbox = [], sh_world = w, sh_log = v, sh_processed = [], sh_published = []\<rparr>, replicate n Idle)"

lemma fresh_start_facts: "exclusive (fresh_start s w v n)" "lossless processors (fresh_start s w v n)"
  by (simp_all add: fresh_start_def exclusive_def lossless_def unfailing_def inbox_ids_def processed_ids_def)

text \<open>The rounds of the examples below: one event waits, and has a processor.\<close>

definition one_waiting :: "(string \<Rightarrow> int res) \<Rightarrow> row list \<Rightarrow> event_envelope \<Rightarrow> bool" where
  "one_waiting int_of table e \<longleftrightarrow> outbox_ok table \<and> pending_events int_of table = [e]"

lemma one_fetched: "one_waiting int_of table e \<Longrightarrow> rs_fetch (postgres_relay_store int_of) table 1 = Inr [e]"
  using postgres_relay.fetch [of table 1 int_of] by (simp add: one_waiting_def)

lemma one_marked: "one_waiting int_of table e \<Longrightarrow> pending_events int_of (rs_mark (postgres_relay_store int_of) table [ev_event_id e] now) = []"
  using postgres_relay.mark [of table int_of "[ev_event_id e]" now] by (simp add: one_waiting_def)

lemma first_recorded: "try_record [] i consumer ty t ts
    = (True, [(i, \<lparr>ib_consumer_name = consumer, ib_event_type = ty, ib_tenant_id = t, ib_processed_at = ts\<rparr>)])"
  by (simp add: try_record_def)

lemma second_refused: "try_record [(i, r)] i consumer ty t ts = (False, [(i, r)])"
  by (simp add: try_record_def)

text \<open>A round without faults.\<close>

lemma clean_run:
  assumes o: "one_waiting int_of table e" and p: "processor_for processors (ev_event_type e) = Some p"
    and run: "snd p w e = (Inr u, w')" and d: "delegate v e = (Inr u', v')"
  shows "\<exists>sh. deliveries (postgres_relay_store int_of) processors consumer delegate False (fresh_start table w v 1) (sh, [Idle])
    \<and> sh_published sh = [e] \<and> sh_processed sh = [e]"
proof -
  let ?S = "postgres_relay_store int_of" and ?now = sample_time
  let ?D = "deliveries ?S processors consumer delegate False" and ?R = "relay_step ?S processors consumer delegate False"
  let ?ib = "[(ev_event_id e, \<lparr>ib_consumer_name = consumer, ib_event_type = ev_event_type e, ib_tenant_id = ev_tenant_id e, ib_processed_at = ?now\<rparr>)]"
  let ?sh = "\<lambda>t ib w v P Q. \<lparr>sh_outbox = t, sh_inbox = ib, sh_world = w, sh_log = v, sh_processed = P, sh_published = Q\<rparr>"
  have fetch: "?R (?sh table [] w v [] [], Idle) (?sh table [] w v [] [], Delivering ?now [] [e])"
    by (rule relay_step.fetch) (use one_fetched [OF o] in simp_all)
  have rec: "?R (?sh table [] w v [] [], Delivering ?now [] [e]) (?sh table ?ib w v [] [], Recorded ?now [] [e])"
    using relay_step.recorded [where sh = "?sh table [] w v [] []" and ib = ?ib and ts = ?now, OF p] by (simp add: first_recorded)
  have proc: "?R (?sh table ?ib w v [] [], Recorded ?now [] [e]) (?sh table ?ib w' v [e] [], Consumed ?now [] [e])"
    using relay_step.processed [where sh = "?sh table ?ib w v [] []" and u = u and w = w', OF p] run by simp
  have disp: "?R (?sh table ?ib w' v [e] [], Consumed ?now [] [e]) (?sh table ?ib w' v' [e] [], Delivering ?now [e] [])"
    using relay_step.dispatched [where delegate = delegate and sh = "?sh table ?ib w' v [e] []" and u = u' and v = v' and e = e and past = "[]"] d by simp
  have mark: "?R (?sh table ?ib w' v' [e] [], Delivering ?now [e] []) (?sh (rs_mark ?S table [ev_event_id e] ?now) ?ib w' v' [e] [e], Idle)"
    using relay_step.marked [where sh = "?sh table ?ib w' v' [e] []" and past = "[e]" and store = ?S and now = ?now] by simp
  have "?D (?sh table [] w v [] [], [Idle]) (?sh (rs_mark ?S table [ev_event_id e] ?now) ?ib w' v' [e] [e], [Idle])"
    using alone_then [OF fetch alone_then [OF rec alone_then [OF proc alone_then [OF disp alone_step [OF mark]]]]] by simp
  then show ?thesis unfolding fresh_start_def by (intro exI [of _ "?sh (rs_mark ?S table [ev_event_id e] ?now) ?ib w' v' [e] [e]"]) simp
qed

text \<open>
  C19. However many relays share the outbox and the inbox, whatever stops or fails and
  whatever others write, no event is processed twice. As long as no processor raises and no
  relay stops inside a round, nothing is lost either: an event that was marked published and
  has a processor is processed, or a relay is about to process it.
\<close>

theorem concurrent_relays_process_once:
  assumes "deliveries store processors consumer delegate fault (fresh_start s w v n) (sh, ps)"
  shows "distinct (map ev_event_id (sh_processed sh))
    \<and> (\<not> fault \<longrightarrow> handled processors (sh_published sh) \<subseteq> set (map ev_event_id (sh_processed sh)) \<union> (\<Union>p \<in> set ps. held p))"
proof
  show "distinct (map ev_event_id (sh_processed sh))"
    using deliveries_exclusive [OF assms fresh_start_facts(1)] by (simp add: exclusive_def processed_ids_def)
  show "\<not> fault \<longrightarrow> handled processors (sh_published sh) \<subseteq> set (map ev_event_id (sh_processed sh)) \<union> (\<Union>p \<in> set ps. held p)"
  proof
    assume "\<not> fault"
    from deliveries_lossless [OF assms this fresh_start_facts]
    have "handled processors (sh_published sh) \<subseteq> set (processed_ids sh) \<union> (\<Union>i < length ps. held (ps ! i))"
      unfolding lossless_def by (auto dest!: subsetD)
    moreover have "(\<Union>i < length ps. held (ps ! i)) \<subseteq> (\<Union>p \<in> set ps. held p)" by (fastforce intro: nth_mem)
    ultimately show "handled processors (sh_published sh) \<subseteq> set (map ev_event_id (sh_processed sh)) \<union> (\<Union>p \<in> set ps. held p)"
      unfolding processed_ids_def by blast
  qed
qed

lemma sample_waiting: "one_waiting int_of sample_outbox (stored_event (sample_event 5))"
  by (simp add: one_waiting_def sample_outbox_facts)

abbreviation sample_run :: "event_id list \<Rightarrow> event_envelope \<Rightarrow> unit res \<times> event_id list" where
  "sample_run w e \<equiv> (Inr (), w @ [ev_event_id e])"

theorem concurrent_relays_process_once_witness:
  "\<exists>sh. deliveries (postgres_relay_store (\<lambda>_. Inr 0)) [(\<lambda>_. True, sample_run)] ''c'' logging_publish False
      (fresh_start sample_outbox [] [] 1) (sh, [Idle])
    \<and> sh_published sh = [stored_event (sample_event 5)] \<and> distinct (map ev_event_id (sh_processed sh))
    \<and> handled [(\<lambda>_. True, sample_run)] (sh_published sh) \<subseteq> set (map ev_event_id (sh_processed sh))"
proof -
  from clean_run [OF sample_waiting, of "[(\<lambda>_. True, sample_run)]" "(\<lambda>_. True, sample_run)" "[]" "()" _ logging_publish "[]" "()" _ "\<lambda>_. Inr 0" "''c''"]
  obtain sh where run: "deliveries (postgres_relay_store (\<lambda>_. Inr 0)) [(\<lambda>_. True, sample_run)] ''c'' logging_publish False
      (fresh_start sample_outbox [] [] 1) (sh, [Idle])" "sh_published sh = [stored_event (sample_event 5)]"
    by (auto simp: processor_for_def logging_publish_def)
  from concurrent_relays_process_once [OF run(1)] run show ?thesis by (intro exI [of _ sh]) auto
qed

text \<open>Two relays that take turns.\<close>

lemma pair_step:
  "relay_step store processors consumer delegate f (sh, p) (sh', p') \<Longrightarrow> deliveries store processors consumer delegate f (sh, [p, q]) (sh', [p', q])"
  "relay_step store processors consumer delegate f (sh, p) (sh', p') \<Longrightarrow> deliveries store processors consumer delegate f (sh, [q, p]) (sh', [q, p'])"
  using deliveries.more [OF deliveries.start [of store processors consumer delegate "(sh, [p, q])"]
      delivery_step.relay [where i = 0 and ps = "[p, q]" and fault = f and sh = sh and sh' = sh' and p = p']]
    deliveries.more [OF deliveries.start [of store processors consumer delegate "(sh, [q, p])"]
      delivery_step.relay [where i = 1 and ps = "[q, p]" and fault = f and sh = sh and sh' = sh' and p = p']] by simp_all

text \<open>
  The event is no longer pending, so no relay will fetch it again, and it was never processed.
\<close>

definition lost :: "(string \<Rightarrow> int res) \<Rightarrow> event_envelope \<Rightarrow> (row list, 'w, 'v) shared \<Rightarrow> bool" where
  "lost int_of e sh \<longleftrightarrow> pending_events int_of (sh_outbox sh) = [] \<and> sh_published sh = [e] \<and> sh_processed sh = []"

text \<open>
  C20. With a fault the promise of delivery at least once is broken. A relay that stops after
  it recorded an event in the inbox and before its processor ended leaves the row behind:
  the next round skips the event as a duplicate and marks it published. And when two relays
  share the outbox, one that fails at an event loses it if the other one meets the row
  before it is removed: the second has already skipped the event and marks it.
\<close>

theorem faults_lose_events:
  assumes o: "one_waiting int_of table e" and p: "processor_for processors (ev_event_type e) = Some p"
    and run: "snd p w e = (Inl x, w')" and d: "delegate v e = (Inr u, v')"
  shows "(\<exists>sh. deliveries (postgres_relay_store int_of) processors consumer delegate True (fresh_start table w v 1) (sh, [Idle]) \<and> lost int_of e sh)
    \<and> (\<exists>sh. deliveries (postgres_relay_store int_of) processors consumer delegate True (fresh_start table w v 2) (sh, [Idle, Idle])
         \<and> lost int_of e sh \<and> sh_inbox sh = [])"
proof -
  let ?S = "postgres_relay_store int_of" and ?now = sample_time
  let ?D = "deliveries ?S processors consumer delegate True" and ?R = "relay_step ?S processors consumer delegate"
  let ?ib = "[(ev_event_id e, \<lparr>ib_consumer_name = consumer, ib_event_type = ev_event_type e, ib_tenant_id = ev_tenant_id e, ib_processed_at = ?now\<rparr>)]"
  let ?sh = "\<lambda>t ib w v P Q. \<lparr>sh_outbox = t, sh_inbox = ib, sh_world = w, sh_log = v, sh_processed = P, sh_published = Q\<rparr>"
  let ?t = "rs_mark ?S table [ev_event_id e] ?now"
  have fetch: "?R False (?sh table ib w v [] [], Idle) (?sh table ib w v [] [], Delivering ?now [] [e])" for ib
    by (rule relay_step.fetch) (use one_fetched [OF o] in simp_all)
  have rec: "?R False (?sh table [] w v [] [], Delivering ?now [] [e]) (?sh table ?ib w v [] [], Recorded ?now [] [e])"
    using relay_step.recorded [where sh = "?sh table [] w v [] []" and ib = ?ib and ts = ?now, OF p] by (simp add: first_recorded)
  have dup: "?R False (?sh table ?ib w v [] [], Delivering ?now [] [e]) (?sh table ?ib w v [] [], Consumed ?now [] [e])"
    using relay_step.duplicate [where sh = "?sh table ?ib w v [] []" and ib = ?ib and ts = ?now, OF p] by (simp add: second_refused)
  have disp: "?R False (?sh table ?ib w v [] [], Consumed ?now [] [e]) (?sh table ?ib w v' [] [], Delivering ?now [e] [])"
    using relay_step.dispatched [where delegate = delegate and sh = "?sh table ?ib w v [] []" and u = u and v = v' and e = e and past = "[]"] d by simp
  have mark: "?R False (?sh table ?ib w v' [] [], Delivering ?now [e] []) (?sh ?t ?ib w v' [] [e], Idle)"
    using relay_step.marked [where sh = "?sh table ?ib w v' [] []" and past = "[e]" and store = ?S and now = ?now] by simp
  have crash: "?R True (?sh table ?ib w v [] [], Recorded ?now [] [e]) (?sh table ?ib w v [] [], Idle)"
    by (rule relay_step.crashed)
  have raised: "?R True (?sh ?t ?ib w v' [] [e], Recorded ?now [] [e]) (?sh ?t ?ib w' v' [] [e], Failing e)"
    using relay_step.raised [where sh = "?sh ?t ?ib w v' [] [e]" and x = x and w = w', OF p] run by simp
  have removed: "?R False (?sh ?t ?ib w' v' [] [e], Failing e) (?sh ?t [] w' v' [] [e], Idle)"
    using relay_step.removed [where sh = "?sh ?t ?ib w' v' [] [e]" and e = e] by (simp add: remove_record_def)
  have "?D (?sh table [] w v [] [], [Idle]) (?sh ?t ?ib w v' [] [e], [Idle])"
    using alone_then [OF fetch alone_then [OF rec alone_then [OF crash alone_then [OF fetch
      alone_then [OF dup alone_then [OF disp alone_step [OF mark]]]]]]] by simp
  then have one: "\<exists>sh. ?D (fresh_start table w v 1) (sh, [Idle]) \<and> lost int_of e sh"
    unfolding fresh_start_def lost_def using one_marked [OF o]
    by (intro exI [of _ "?sh ?t ?ib w v' [] [e]"]) simp
  note trans = deliveries_trans [rotated]
  have "?D (?sh table [] w v [] [], [Idle, Idle]) (?sh ?t [] w' v' [] [e], [Idle, Idle])"
    using trans [OF pair_step(1) [OF fetch] trans [OF pair_step(1) [OF rec] trans [OF pair_step(2) [OF fetch]
      trans [OF pair_step(2) [OF dup] trans [OF pair_step(2) [OF disp] trans [OF pair_step(2) [OF mark]
      trans [OF pair_step(1) [OF raised] pair_step(1) [OF removed]]]]]]]] by simp
  then have two: "\<exists>sh. ?D (fresh_start table w v 2) (sh, [Idle, Idle]) \<and> lost int_of e sh \<and> sh_inbox sh = []"
    unfolding fresh_start_def lost_def using one_marked [OF o]
    by (intro exI [of _ "?sh ?t [] w' v' [] [e]"]) (simp add: numeral_2_eq_2)
  from one two show ?thesis by blast
qed

theorem faults_lose_events_witness:
  "(\<exists>sh. deliveries (postgres_relay_store (\<lambda>_. Inr 0)) [(\<lambda>_. True, \<lambda>w e. (Inl StopIteration, w))] ''c'' logging_publish True
      (fresh_start sample_outbox () [] 1) (sh, [Idle]) \<and> lost (\<lambda>_. Inr 0) (stored_event (sample_event 5)) sh)
    \<and> (\<exists>sh. deliveries (postgres_relay_store (\<lambda>_. Inr 0)) [(\<lambda>_. True, \<lambda>w e. (Inl StopIteration, w))] ''c'' logging_publish True
      (fresh_start sample_outbox () [] 2) (sh, [Idle, Idle]) \<and> lost (\<lambda>_. Inr 0) (stored_event (sample_event 5)) sh \<and> sh_inbox sh = [])"
  by (rule faults_lose_events [OF sample_waiting, where p = "(\<lambda>_. True, \<lambda>w e. (Inl StopIteration, w))" and x = StopIteration and w' = "()"
    and u = "()" and v' = "[stored_event (sample_event 5)]"]) (simp_all add: processor_for_def logging_publish_def)

end
