(* ===== verification/Spec2Isabelle.thy ===== *)
theory Spec2Isabelle
  imports Plan_Graph Memory_Claims Runtime_Relay Temporal_Orchestrator Temporal_Records Requests Processes Effect_Sample Concurrent_Recording Concurrent_Relay
begin

text \<open>
  A verification development for the EngramMesh services
  (\<open>src/services/src/engrammesh/\<close>).

  \<^bold>\<open>The program.\<close> Two modules and their bootstrap. The memory module records episodes,
  extracts claims from them and lists both; the runtime module starts, reads, lists and
  cancels durable executions. Each has a domain model, use cases over ports, and
  adapters: in-memory and PostgreSQL for both, Temporal for the runtime. Every change
  is written together with an event in an outbox, which a relay publishes; the memory
  relay feeds an inbox whose consumer extracts the claims.

  \<^bold>\<open>How it is modelled.\<close> A Python exception is a constructor of \<open>exn\<close> and a fallible
  step is \<open>exn + 'a\<close>; a \<open>dict\<close> is an association list with Python's order of
  insertion; a date is its wall clock with an optional offset; a frozen dataclass is a
  record whose checks are the function \<open>mk_...\<close>; a coroutine that owns state takes and
  returns it. A lock and a transaction are the sequence of steps they make atomic; what
  other writers do between two steps is a function argument or a step relation. A
  statement on a table is an operation on a list of rows (column names to values) with
  the unique keys of the schema. Code outside the repository is an argument: clocks,
  identity and authorization ports, processors, the client of Temporal.

  \<^bold>\<open>The theories.\<close>
  \<^item> \<open>Prelude\<close>: exceptions, dictionaries, blank strings, dates.
    \<open>Kernel\<close> (\<open>shared/kernel/\<close>): identifiers, JSON values and their freezing, events.
    \<open>Text\<close>, \<open>Calendar\<close>, \<open>Json_Text\<close>: the library code behind cursors and payloads
    (UUID text, ISO dates, base64, UTF-8, JSON), as far as the source uses it.
  \<^item> \<open>Memory_Model\<close> (\<open>memory/domain/model.py\<close>, \<open>ports.py\<close>, contracts) and
    \<open>Cursor\<close> (the three cursor files): data with their checks. \<open>Paging\<close>: keyset
    paging as a locale, whose clients are the listings.
  \<^item> \<open>Memory_InMemory\<close> (\<open>adapters/in_memory/\<close>), \<open>Rows\<close> and \<open>Memory_Postgres\<close>
    (\<open>adapters/postgres/\<close>: mappers, unit of work, outbox relay store), \<open>Memory_App\<close>
    (the use cases and the reference model of recording), \<open>Delivery\<close> (relay, inbox),
    \<open>Memory_Claims\<close> (extraction and the claim listing), \<open>Concurrent_Recording\<close> (recordings
    whose statements interleave: the steps of \<open>append\<close>, \<open>publish\<close> and the commit),
    \<open>Concurrent_Relay\<close> (relays that share an outbox and an inbox, may fail and may stop).
  \<^item> \<open>Runtime_Model\<close> and \<open>Plan_Graph\<close> (\<open>runtime/domain/\<close>), \<open>Runtime_Db\<close> and
    \<open>Runtime_Orchestrator\<close> (\<open>adapters/in_memory/\<close>), \<open>Runtime_App\<close> (the use cases),
    \<open>Codec\<close> (\<open>adapters/shared/snapshot_codec.py\<close>), \<open>Runtime_Postgres\<close> and
    \<open>Runtime_Relay\<close> (\<open>adapters/postgres/\<close>), \<open>Temporal_Workflow\<close> and
    \<open>Temporal_Orchestrator\<close> (\<open>adapters/temporal/\<close>), \<open>Temporal_Records\<close> (the activities over
    the PostgreSQL writers, as \<open>worker.py\<close> configures them). \<open>Effect_Id\<close> is \<open>derive_effect_id\<close> of the
    domain model over \<open>Sha256\<close>, a translation of the library's hash; \<open>Effect_Sample\<close> computes
    the identifier that the repository's unit test expects.
  \<^item> \<open>Settings\<close> (\<open>bootstrap/settings.py\<close>: every settings class with its checks, the parsing of
    the DSN and the production rules), \<open>Auth\<close> (\<open>bootstrap/auth/\<close> and the authorization and
    verifier factories of \<open>bootstrap/infrastructure.py\<close>), \<open>Http_Mapping\<close> (\<open>bootstrap/http/schemas.py\<close>,
    \<open>mappers.py\<close>) and \<open>Http_App\<close> (\<open>errors.py\<close>, \<open>app.py\<close>: one definition per endpoint, over a
    record of what the application object calls).
  \<^item> \<open>Connection\<close> (\<open>connection.py\<close> and \<open>migrations.py\<close> of both PostgreSQL adapters: the two pairs
    of files differ in a table name and a text), \<open>Composition\<close> (\<open>bootstrap/composition.py\<close>: the
    object \<open>AppRuntime\<close> as a record, its startup, shutdown, readiness and the accessors of its
    handlers; database objects and publishers are numbered objects of a \<open>world\<close>),
    \<open>Lifecycle\<close> (its coherence and the leaks of its failures), \<open>Temporal_Index\<close> (the Temporal
    orchestrator over either runtime database) and \<open>Control_Api\<close> (the endpoints over the
    handlers that a runtime gives out over the stores they name).
  \<^item> The running program: \<open>Relay_Loop\<close> (\<open>relay_outbox_once\<close> and \<open>run_outbox_relay_loop\<close> of
    \<open>AppRuntime\<close>, their runtime twins and the publishers of \<open>infrastructure.py\<close>), \<open>Claim_Flow\<close>
    (from a recorded episode over two relay batches to a listed claim), \<open>Requests\<close> (whole
    requests to the API) and \<open>Processes\<close> (\<open>server.py\<close>, \<open>worker.py\<close> and the connection of the
    Temporal client).

  \<^bold>\<open>What the lemmas show.\<close>
  \<^item> Data: constructors accept exactly what their checks say (\<open>..._Inr\<close> lemmas), round
    trips of rows, cursors, snapshots, fingerprints and payloads.
  \<^item> Memory: recording over the in-memory adapter refines a ledger of requests, the
    relational adapter gives the same results, concurrent recordings are equivalent to
    recordings one after the other and always end, the unit of work keeps its protocol,
    the relay and the inbox process every event once, concurrent relays never twice, and
    never lose one but by a fault; listings page completely.
  \<^item> Runtime: the orchestrator's state keeps its invariant, transitions are legal and
    cancellation is final; the relational database refines the in-memory one also when
    another writer takes the key first; the workflow shows legal states only, ends, and
    records every change past its first snapshot before it shows it; a cancellation over
    Temporal is final for every later call of the orchestrator, but not when a start that
    was under way goes on after it; an effect identifier stands for its action.
  \<^item> Bootstrap: production configurations are safe, authenticated requests act for their
    principal only, a connection is lent only over a migrated schema, handlers never outlive
    the databases they work on, a stop releases what a start opened.
  \<^item> The running program: a posted execution is read back, a recorded episode becomes a
    claim, the relay loops end exactly when they are told to or a round raises and work
    off a backlog before they sleep, the server stops what it started.
  \<^item> Interfaces are locales: \<open>cursor_codec\<close>, \<open>keyset_listing\<close> and \<open>keyset_store\<close> for the
    listings, \<open>episode_recording\<close> for the unit of work, \<open>outbox_store\<close> for the relays,
    \<open>orchestrator\<close>, \<open>snapshot_upsert\<close>, \<open>activity_recording\<close> for the writers of the workers
    (the in-memory and the PostgreSQL ones), and \<open>temporal_service\<close>; each is interpreted on
    the definitions that provide it (the last on a scripted service built from the workflow).

  \<^bold>\<open>The Temporal service.\<close> \<open>temporal_service\<close> states what the code relies on of the
  client library and the service: a run moves only by the steps of its workflow, a query
  answers with the state of the last run of its identifier, and a start makes a new run
  when the identifier has none or when its last run is closed (the documented default of
  the reuse policy, because the code passes none). \<open>retaining_service\<close> adds that a closed
  run is still found by a query, as it is until the retention period of the namespace
  ends. A call that reports an error may have taken effect.

  \<^bold>\<open>Bounds and fuel.\<close> No definition takes fuel. A write makes at most five attempts
  (\<open>_MAX_IDEMPOTENCY_WRITE_RETRIES\<close>), a cancellation at most 200 polls, an activity
  three attempts; the steps of a workflow are bounded by a measure that starts at ten, those
  of a recording by one that starts at six.
  The walk of a listing is a total function on the pages that are left. The relay loops
  may run forever: they are partial functions, whose value \<open>None\<close> is a loop that does not
  return, and \<open>relay_loops_end\<close> says when they do. A sleep of a loop is recorded in its
  result and takes no time; an interval that is not finite, whose sleep never ends, is left out.

  \<^bold>\<open>Not modelled.\<close> The 32-bit range of integer columns; the order in which PostgreSQL
  returns the keys of a JSON document and the order of iteration of Python sets (the
  model takes the order of insertion); the refusal of NUL characters in text and JSON by
  PostgreSQL; text beyond code point 255; the rounding of JSON numbers with a fraction or
  an exponent (they are read as exact rationals); the negative zero of
  floats (a finite float is a rational, its \<open>repr\<close> an argument). Of PostgreSQL's
  concurrency: statements interleave only where a theory says so (recordings, relays, the
  writes of the runtime database).
  Of the bootstrap: the routing and the JSON typing of the web framework (a request arrives
  with typed fields), the JWT library and the resolution of its keys (an argument), the
  driver's pools (what opening, lending and closing one raises is an argument), the
  Temporal client and worker library (what connecting and serving returns is an argument),
  signals, the loading of the settings from the environment, and the schemas' rejection of
  unknown fields. The checks of one schema run in the order of its fields; the framework
  collects all of their errors into one answer of the same
  status. A migration file is a partial function on the tables.
\<close>

end
